(* ===== verification/Prelude.thy ===== *)
theory Prelude
  imports Main "HOL-Library.Sublist" "HOL-Library.Char_ord" "HOL-Library.List_Lexorder"
    "HOL-Library.Product_Lexorder" "HOL-Library.Code_Target_Nat" "HOL-Library.Code_Target_Int"
begin

text \<open>
  The prelude: names for the model's types, the error values every layer shares, the state and
  error combinator the service code is written with, the collections the proofs use, and the
  generic facts about lists and 64-bit integers that several components need.

  A Go \<open>string\<close> is a sequence of bytes, which is exactly HOL's \<^typ>\<open>string\<close> (a
  \<open>char\<close> is eight bits).  A Go \<open>int64\<close> is an \<open>int\<close> that is wrapped by
  \<open>wrap64\<close> wherever the code adds or subtracts.
\<close>

type_synonym bytes = string

named_theorems io_defs "unfolding a service operation into its database and blob store calls"
named_theorems tree_simps "facts about paths and their parents"

section \<open>Errors\<close>

text \<open>
  The sentinels of \<^verbatim>\<open>internal/db\<close>, \<^verbatim>\<open>internal/storage\<close>,
  \<^verbatim>\<open>internal/files\<close>, \<^verbatim>\<open>internal/calendar\<close> and \<^verbatim>\<open>internal/contacts\<close>.  A wrapped Go error is the sentinel \<open>errors.Is\<close> finds in it;
  everything that carries none (an I/O failure, a cancelled context) is \<open>ErrOther\<close>.
  \<open>ErrStatus\<close> is a refusal made by an HTTP handler, which travels through the service unread.
\<close>

datatype error =
    ErrNotFound | ErrConflict | ErrInvalidPath
  | ErrObjectNotFound | ErrInvalidKey | ErrInvalidRange | ErrSizeMismatch | ErrUploadOffset
  | ErrNoSpace | ErrEmptyIndex
  | ErrInvalid | ErrUnsupported | ErrStaleToken | ErrColor | ErrDefault | ErrStatus nat
  | ErrOther

type_synonym 'a result = "error + 'a"

definition is_ok :: "'a result \<Rightarrow> bool" where
  "is_ok r = (case r of Inl _ \<Rightarrow> False | Inr _ \<Rightarrow> True)"

lemma is_ok_simps [simp]: "is_ok (Inr x)" "\<not> is_ok (Inl e)"
  by (simp_all add: is_ok_def)

section \<open>State and errors\<close>

text \<open>
  A step of the program: it takes a state and returns its result, which may be an error, and
  the state it leaves.  \<open>bindE\<close> is Go's \<open>if err != nil { return err }\<close>: it stops at the
  first error and keeps the state reached so far.
\<close>

type_synonym ('s, 'a) step = "'s \<Rightarrow> 'a result \<times> 's"

definition retE :: "'a \<Rightarrow> ('s, 'a) step" where
  "retE x s = (Inr x, s)"

definition failE :: "error \<Rightarrow> ('s, 'a) step" where
  "failE e s = (Inl e, s)"

definition bindE :: "('s, 'a) step \<Rightarrow> ('a \<Rightarrow> ('s, 'b) step) \<Rightarrow> ('s, 'b) step" where
  "bindE m f s = (case m s of (Inl e, s') \<Rightarrow> (Inl e, s') | (Inr x, s') \<Rightarrow> f x s')"

text \<open>\<open>tryE m f\<close> hands the result itself on, error or not, for the code that inspects it.\<close>

definition tryE :: "('s, 'a) step \<Rightarrow> ('a result \<Rightarrow> ('s, 'b) step) \<Rightarrow> ('s, 'b) step" where
  "tryE m f s = (case m s of (r, s') \<Rightarrow> f r s')"

definition liftE :: "'a result \<Rightarrow> ('s, 'a) step" where
  "liftE r s = (r, s)"

lemma retE_simp [simp]: "retE x s = (Inr x, s)"
  and failE_simp [simp]: "failE e s = (Inl e, s)"
  and liftE_simp [simp]: "liftE r s = (r, s)"
  by (simp_all add: retE_def failE_def liftE_def)

lemma bindE_Inr [simp]: "m s = (Inr x, s') \<Longrightarrow> bindE m f s = f x s'"
  and bindE_Inl [simp]: "m s = (Inl e, s') \<Longrightarrow> bindE m f s = (Inl e, s')"
  by (simp_all add: bindE_def)

lemma tryE_eq [simp]: "m s = (r, s') \<Longrightarrow> tryE m f s = f r s'"
  by (simp add: tryE_def)

lemma bindE_okE:
  assumes "bindE m f s = (Inr y, t)"
  obtains x u where "m s = (Inr x, u)" "f x u = (Inr y, t)"
  using assms by (auto simp: bindE_def split: prod.splits sum.splits)

lemma bindE_assoc: "bindE (bindE m f) g = bindE m (\<lambda>x. bindE (f x) g)"
  by (rule ext) (simp add: bindE_def split: prod.splits sum.splits)

lemma bindE_ret: "bindE (retE x) f = f x"
  by (rule ext) (simp add: bindE_def)

lemma bindE_cases:
  assumes "bindE m f s = (r, t)"
  obtains e where "m s = (Inl e, t)" "r = Inl e"
  | x u where "m s = (Inr x, u)" "f x u = (r, t)"
  using assms by (auto simp: bindE_def split: prod.splits sum.splits)

text \<open>
  Invariants of a step: \<open>keeps P m\<close> says that \<open>m\<close> leads from \<open>P\<close> to \<open>P\<close> whatever it
  returns, and \<open>yields P m Q\<close> adds what a successful result satisfies.
\<close>

definition keeps :: "('s \<Rightarrow> bool) \<Rightarrow> ('s, 'a) step \<Rightarrow> bool" where
  "keeps P m \<longleftrightarrow> (\<forall>s. P s \<longrightarrow> P (snd (m s)))"

definition yields :: "('s \<Rightarrow> bool) \<Rightarrow> ('s, 'a) step \<Rightarrow> ('a \<Rightarrow> 's \<Rightarrow> bool) \<Rightarrow> ('s \<Rightarrow> bool) \<Rightarrow> bool" where
  "yields P m Q E \<longleftrightarrow>
     (\<forall>s. P s \<longrightarrow> (case m s of (Inl e, t) \<Rightarrow> E t | (Inr x, t) \<Rightarrow> Q x t))"

lemma keepsI: "(\<And>s. P s \<Longrightarrow> P (snd (m s))) \<Longrightarrow> keeps P m"
  by (simp add: keeps_def)

lemma keeps_pairI: "(\<And>s e r s' e'. P (s, e) \<Longrightarrow> m (s, e) = (r, (s', e')) \<Longrightarrow> P (s', e')) \<Longrightarrow> keeps P m"
  unfolding keeps_def by (metis prod.collapse)

lemma keepsD: "keeps P m \<Longrightarrow> P s \<Longrightarrow> m s = (r, t) \<Longrightarrow> P t"
  by (auto simp: keeps_def dest: spec [of _ s])

lemma keeps_ret [intro]: "keeps P (retE x)"
  and keeps_fail [intro]: "keeps P (failE e)"
  and keeps_lift [intro]: "keeps P (liftE r)"
  by (simp_all add: keeps_def)

lemma keeps_bind [intro]: "keeps P m \<Longrightarrow> (\<And>x. keeps P (f x)) \<Longrightarrow> keeps P (bindE m f)"
  by (force simp: keeps_def bindE_def split: prod.splits sum.splits)

lemma keeps_try [intro]: "keeps P m \<Longrightarrow> (\<And>r. keeps P (f r)) \<Longrightarrow> keeps P (tryE m f)"
  by (force simp: keeps_def tryE_def split: prod.splits)

lemma keeps_if [intro]: "(b \<Longrightarrow> keeps P m) \<Longrightarrow> (\<not> b \<Longrightarrow> keeps P n) \<Longrightarrow> keeps P (if b then m else n)"
  by simp

lemma yieldsI:
  "(\<And>s x t. P s \<Longrightarrow> m s = (Inr x, t) \<Longrightarrow> Q x t) \<Longrightarrow>
   (\<And>s e t. P s \<Longrightarrow> m s = (Inl e, t) \<Longrightarrow> E t) \<Longrightarrow> yields P m Q E"
  by (auto simp: yields_def split: prod.splits sum.splits)

lemma yieldsD_ok: "yields P m Q E \<Longrightarrow> P s \<Longrightarrow> m s = (Inr x, t) \<Longrightarrow> Q x t"
  and yieldsD_err: "yields P m Q E \<Longrightarrow> P s \<Longrightarrow> m s = (Inl e, t) \<Longrightarrow> E t"
  by (auto simp: yields_def dest: spec [of _ s])

lemma yields_bind:
  assumes m: "yields P m Q E" and f: "\<And>x. yields (Q x) (f x) R E"
  shows "yields P (bindE m f) R E"
proof (rule yieldsI)
  fix s y t assume "P s" "bindE m f s = (Inr y, t)"
  then show "R y t" by (elim bindE_okE) (blast intro: yieldsD_ok [OF m] yieldsD_ok [OF f])
next
  fix s e t assume s: "P s" "bindE m f s = (Inl e, t)"
  show "E t"
  proof (cases "m s")
    case (Pair r u)
    with s show ?thesis
      by (cases r) (auto intro: yieldsD_err [OF m] yieldsD_err [OF f] yieldsD_ok [OF m])
  qed
qed

lemma yields_ret: "(\<And>s. P s \<Longrightarrow> Q x s) \<Longrightarrow> yields P (retE x) Q E"
  and yields_fail: "(\<And>s. P s \<Longrightarrow> E s) \<Longrightarrow> yields P (failE e) Q E"
  by (simp_all add: yields_def)

lemma yields_lift: "(\<And>s x. P s \<Longrightarrow> r = Inr x \<Longrightarrow> Q x s) \<Longrightarrow> (\<And>s. P s \<Longrightarrow> E s) \<Longrightarrow> yields P (liftE r) Q E"
  by (simp add: yields_def split: sum.splits)

lemma yields_conseq:
  "yields P m Q E \<Longrightarrow> (\<And>s. P' s \<Longrightarrow> P s) \<Longrightarrow> (\<And>x s. Q x s \<Longrightarrow> Q' x s) \<Longrightarrow> (\<And>s. E s \<Longrightarrow> E' s) \<Longrightarrow>
   yields P' m Q' E'"
  by (rule yieldsI) (blast dest: yieldsD_ok, blast dest: yieldsD_err)

lemma yields_keeps: "keeps P m \<Longrightarrow> yields P m (\<lambda>_. P) P"
  by (rule yieldsI) (auto dest: keepsD)

lemma yields_frame:
  "yields P m Q E \<Longrightarrow> keeps F m \<Longrightarrow> yields (\<lambda>s. P s \<and> F s) m (\<lambda>x s. Q x s \<and> F s) (\<lambda>s. E s \<and> F s)"
  by (rule yieldsI) (auto dest: yieldsD_ok yieldsD_err keepsD)

lemma yields_try:
  assumes m: "yields P m Q E1" and ok: "\<And>x. yields (Q x) (f (Inr x)) R E"
    and err: "\<And>e. yields E1 (f (Inl e)) R E"
  shows "yields P (tryE m f) R E"
proof -
  have "case f r t of (Inl e, u) \<Rightarrow> E u | (Inr y, u) \<Rightarrow> R y u" if "P s" "m s = (r, t)" for s r t
  proof (cases r)
    case (Inl e)
    with that yieldsD_err [OF m] err [of e] show ?thesis by (simp add: yields_def)
  next
    case (Inr x)
    with that yieldsD_ok [OF m] ok [of x] show ?thesis by (simp add: yields_def)
  qed
  then show ?thesis unfolding yields_def tryE_def by (metis (no_types, lifting) old.prod.exhaust prod.case)
qed

lemma yields_check:
  "(V = Inr () \<Longrightarrow> yields P m Q E) \<Longrightarrow> (\<And>s. P s \<Longrightarrow> E s) \<Longrightarrow> yields P (bindE (liftE V) (\<lambda>_. m)) Q E"
  by (cases V) (auto simp: yields_def bindE_def)

lemma yields_if: "(b \<Longrightarrow> yields P m Q E) \<Longrightarrow> (\<not> b \<Longrightarrow> yields P n Q E) \<Longrightarrow> yields P (if b then m else n) Q E"
  by simp

lemma yields_ex: "(\<And>x. yields (P x) m Q E) \<Longrightarrow> yields (\<lambda>s. \<exists>x. P x s) m Q E"
  by (fastforce simp: yields_def)

lemma yields_given: "(B \<Longrightarrow> yields P m Q E) \<Longrightarrow> yields (\<lambda>s. P s \<and> B) m Q E"
  by (cases B) (simp_all add: yields_def)

lemma yields_given2: "(B \<Longrightarrow> yields P m Q E) \<Longrightarrow> yields (\<lambda>s. B \<and> P s) m Q E"
  by (cases B) (simp_all add: yields_def)

lemma yields_pairI:
  "(\<And>s e r s' e'. P (s, e) \<Longrightarrow> m (s, e) = (r, (s', e')) \<Longrightarrow>
     (case r of Inl x \<Rightarrow> E (s', e') | Inr x \<Rightarrow> Q x (s', e'))) \<Longrightarrow> yields P m Q E"
  unfolding yields_def by (fastforce split: prod.splits sum.splits)

section \<open>Lists\<close>

lemma filter_take_id: "\<forall>x\<in>set xs. P x \<Longrightarrow> filter P xs = xs"
  by (induction xs) auto

lemma distinct_map_inj: "distinct (map f xs) \<Longrightarrow> x \<in> set xs \<Longrightarrow> y \<in> set xs \<Longrightarrow> f x = f y \<Longrightarrow> x = y"
  by (auto simp: distinct_map dest: inj_onD)

section \<open>64-bit integers\<close>

definition wrap64 :: "int \<Rightarrow> int" where
  "wrap64 x = (x + 2 ^ 63) mod 2 ^ 64 - 2 ^ 63"

definition is_int64 :: "int \<Rightarrow> bool" where
  "is_int64 x \<longleftrightarrow> - (2 ^ 63) \<le> x \<and> x < 2 ^ 63"

definition max_int64 :: int where
  "max_int64 = 2 ^ 63 - 1"

lemma wrap64_id [simp]: "is_int64 x \<Longrightarrow> wrap64 x = x"
  by (simp add: wrap64_def is_int64_def)

lemma wrap64_range [simp]: "is_int64 (wrap64 x)"
  by (simp add: wrap64_def is_int64_def)

end
