(* ===== verification/GoStrings.thy ===== *)
theory GoStrings
  imports Prelude
begin

text \<open>
  What the program uses of Go's \<^verbatim>\<open>strings\<close>, \<^verbatim>\<open>path\<close>, \<^verbatim>\<open>strconv\<close> and
  \<^verbatim>\<open>unicode/utf8\<close> packages, on bytes.  Searches for a single byte return an
  \<open>option\<close> where Go returns an index or \<open>-1\<close>.
\<close>

abbreviation slash :: char where "slash \<equiv> CHR ''/''"
abbreviation dot :: char where "dot \<equiv> CHR ''.''"

definition byte :: "char \<Rightarrow> nat" where
  "byte c = of_char c"

lemma byte_less [simp]: "byte c < 256"
  by (simp add: byte_def)

lemma byte_inject [simp]: "byte a = byte b \<longleftrightarrow> a = b"
  by (simp add: byte_def)

section \<open>Prefixes, suffixes and searches\<close>

definition has_prefix :: "bytes \<Rightarrow> bytes \<Rightarrow> bool" where
  "has_prefix s p \<longleftrightarrow> take (length p) s = p"

definition has_suffix :: "bytes \<Rightarrow> bytes \<Rightarrow> bool" where
  "has_suffix s p \<longleftrightarrow> has_prefix (rev s) (rev p)"

definition cut_prefix :: "bytes \<Rightarrow> bytes \<Rightarrow> bytes option" where
  "cut_prefix s p = (if has_prefix s p then Some (drop (length p) s) else None)"

definition trim_prefix :: "bytes \<Rightarrow> bytes \<Rightarrow> bytes" where
  "trim_prefix s p = (if has_prefix s p then drop (length p) s else s)"

definition trim_suffix :: "bytes \<Rightarrow> bytes \<Rightarrow> bytes" where
  "trim_suffix s p = (if has_suffix s p then take (length s - length p) s else s)"

definition trim_char :: "char \<Rightarrow> bytes \<Rightarrow> bytes" where
  "trim_char c s = rev (dropWhile (\<lambda>x. x = c) (rev (dropWhile (\<lambda>x. x = c) s)))"

definition contains_char :: "bytes \<Rightarrow> char \<Rightarrow> bool" where
  "contains_char s c \<longleftrightarrow> c \<in> set s"

text \<open>\<open>strings.LastIndexByte\<close>, and \<open>strings.Cut\<close> at the first separator.\<close>

fun last_index :: "char \<Rightarrow> bytes \<Rightarrow> nat option" where
  "last_index c [] = None"
| "last_index c (x # xs) =
     (case last_index c xs of
        Some i \<Rightarrow> Some (Suc i)
      | None \<Rightarrow> if x = c then Some 0 else None)"

fun cut :: "char \<Rightarrow> bytes \<Rightarrow> (bytes \<times> bytes) option" where
  "cut c [] = None"
| "cut c (x # xs) =
     (if x = c then Some ([], xs)
      else case cut c xs of None \<Rightarrow> None | Some (a, b) \<Rightarrow> Some (x # a, b))"

lemma has_prefix_iff: "has_prefix s p \<longleftrightarrow> (\<exists>t. s = p @ t)"
  by (auto simp: has_prefix_def) (metis append_take_drop_id)

lemma has_prefix_append [simp]: "has_prefix (p @ t) p"
  by (simp add: has_prefix_def)

lemma has_prefix_Nil [simp]: "has_prefix s []"
  by (simp add: has_prefix_def)

lemma has_prefix_trans: "has_prefix s q \<Longrightarrow> has_prefix q p \<Longrightarrow> has_prefix s p"
  by (auto simp: has_prefix_iff)

lemma has_prefix_refl [simp]: "has_prefix s s"
  by (simp add: has_prefix_def)

lemma has_prefix_same_cases: "has_prefix s p \<Longrightarrow> has_prefix s q \<Longrightarrow> has_prefix p q \<or> has_prefix q p"
  by (auto simp: has_prefix_iff) (metis append_eq_append_conv2)

lemma has_suffix_iff: "has_suffix s p \<longleftrightarrow> (\<exists>t. s = t @ p)"
  by (auto simp: has_suffix_def has_prefix_iff) (metis rev_append rev_rev_ident)

lemma cut_prefix_append [simp]: "cut_prefix (p @ t) p = Some t"
  by (simp add: cut_prefix_def)

lemma cut_prefix_Some_iff: "cut_prefix s p = Some t \<longleftrightarrow> s = p @ t"
  by (auto simp: cut_prefix_def has_prefix_iff)

lemma trim_prefix_append [simp]: "trim_prefix (p @ t) p = t"
  by (simp add: trim_prefix_def)

lemma last_index_None_iff [simp]: "last_index c s = None \<longleftrightarrow> c \<notin> set s"
  by (induction s) (auto split: option.splits)

lemma last_index_append: "c \<notin> set b \<Longrightarrow> last_index c (a @ c # b) = Some (length a)"
proof (induction a)
  case Nil
  then have "last_index c b = None" by simp
  then show ?case by (simp del: last_index_None_iff)
qed simp

lemma last_index_SomeD:
  "last_index c s = Some i \<Longrightarrow> s = take i s @ c # drop (Suc i) s \<and> c \<notin> set (drop (Suc i) s) \<and> i < length s"
proof (induction s arbitrary: i)
  case (Cons x xs)
  then show ?case
    by (cases "last_index c xs") (auto split: if_splits)
qed simp

lemma cut_None_iff [simp]: "cut c s = None \<longleftrightarrow> c \<notin> set s"
  by (induction s) (auto split: option.splits)

lemma cut_append [simp]: "c \<notin> set a \<Longrightarrow> cut c (a @ c # b) = Some (a, b)"
  by (induction a) auto

lemma cut_SomeD: "cut c s = Some (a, b) \<Longrightarrow> s = a @ c # b \<and> c \<notin> set a"
  by (induction s arbitrary: a b) (auto split: if_splits option.splits)

section \<open>Splitting and joining\<close>

text \<open>\<open>strings.Split\<close> at a single byte: the empty string has one part, the empty one.\<close>

fun split_on :: "char \<Rightarrow> bytes \<Rightarrow> bytes list" where
  "split_on c [] = [[]]"
| "split_on c (x # xs) =
     (if x = c then [] # split_on c xs
      else case split_on c xs of [] \<Rightarrow> [[x]] | y # ys \<Rightarrow> (x # y) # ys)"

fun join_with :: "char \<Rightarrow> bytes list \<Rightarrow> bytes" where
  "join_with c [] = []"
| "join_with c [x] = x"
| "join_with c (x # xs) = x @ c # join_with c xs"

lemma split_on_not_Nil [simp]: "split_on c s \<noteq> []"
  by (induction s) (auto split: list.splits)

lemma join_split [simp]: "join_with c (split_on c s) = s"
proof (induction s)
  case (Cons x xs)
  then show ?case
    by (cases "split_on c xs") (auto intro: list.exhaust [of "tl (split_on c xs)"] elim: join_with.elims)
qed simp

lemma split_on_part_free: "p \<in> set (split_on c s) \<Longrightarrow> c \<notin> set p"
  by (induction s arbitrary: p) (auto split: if_splits list.splits)

lemma split_on_free: "c \<notin> set s \<Longrightarrow> split_on c s = [s]"
  by (induction s) auto

lemma split_on_append: "split_on c (a @ c # b) = split_on c a @ split_on c b"
  by (induction a) (auto split: list.splits)

lemma join_with_append:
  "xs \<noteq> [] \<Longrightarrow> ys \<noteq> [] \<Longrightarrow> join_with c (xs @ ys) = join_with c xs @ c # join_with c ys"
proof (induction xs)
  case (Cons x xs)
  then show ?case by (cases xs; cases ys) auto
qed simp

lemma split_join: "xs \<noteq> [] \<Longrightarrow> \<forall>x\<in>set xs. c \<notin> set x \<Longrightarrow> split_on c (join_with c xs) = xs"
proof (induction c xs rule: join_with.induct)
  case (3 c x y ys)
  then show ?case by (simp add: split_on_append split_on_free)
qed (auto simp: split_on_free)


section \<open>UTF-8\<close>

text \<open>
  \<open>utf8.DecodeRuneInString\<close>: the first code point and how many bytes it takes, or
  \<open>RuneError\<close> and one byte where the encoding is invalid (overlong forms, surrogates and
  values past the last code point included).
\<close>

abbreviation rune_error :: nat where "rune_error \<equiv> 0xFFFD"

definition cont :: "nat \<Rightarrow> bool" where
  "cont b \<longleftrightarrow> 0x80 \<le> b \<and> b \<le> 0xBF"

definition in_range :: "nat \<Rightarrow> nat \<Rightarrow> nat \<Rightarrow> bool" where
  "in_range lo hi b \<longleftrightarrow> lo \<le> b \<and> b \<le> hi"

text \<open>The range the second byte of a three and of a four byte sequence has to be in.\<close>

definition second3 :: "nat \<Rightarrow> nat \<Rightarrow> bool" where
  "second3 b0 b1 = (if b0 = 0xE0 then in_range 0xA0 0xBF b1
                    else if b0 = 0xED then in_range 0x80 0x9F b1 else cont b1)"

definition second4 :: "nat \<Rightarrow> nat \<Rightarrow> bool" where
  "second4 b0 b1 = (if b0 = 0xF0 then in_range 0x90 0xBF b1
                    else if b0 = 0xF4 then in_range 0x80 0x8F b1 else cont b1)"

text \<open>The code point of a sequence of two, three and four bytes.\<close>

definition rune2 :: "nat \<Rightarrow> nat \<Rightarrow> nat" where
  "rune2 b0 b1 = (b0 - 0xC0) * 64 + (b1 - 0x80)"

definition rune3 :: "nat \<Rightarrow> nat \<Rightarrow> nat \<Rightarrow> nat" where
  "rune3 b0 b1 b2 = ((b0 - 0xE0) * 64 + (b1 - 0x80)) * 64 + (b2 - 0x80)"

definition rune4 :: "nat \<Rightarrow> nat \<Rightarrow> nat \<Rightarrow> nat \<Rightarrow> nat" where
  "rune4 b0 b1 b2 b3 = (((b0 - 0xF0) * 64 + (b1 - 0x80)) * 64 + (b2 - 0x80)) * 64 + (b3 - 0x80)"

fun decode_tail :: "nat \<Rightarrow> nat list \<Rightarrow> nat \<times> nat" where
  "decode_tail b0 (b1 # bs) =
     (if in_range 0xC2 0xDF b0 \<and> cont b1 then (rune2 b0 b1, 2)
      else case bs of
        [] \<Rightarrow> (rune_error, 1)
      | b2 # cs \<Rightarrow>
         (if in_range 0xE0 0xEF b0 \<and> second3 b0 b1 \<and> cont b2
          then (rune3 b0 b1 b2, 3)
          else case cs of
            [] \<Rightarrow> (rune_error, 1)
          | b3 # _ \<Rightarrow>
             (if in_range 0xF0 0xF4 b0 \<and> second4 b0 b1 \<and> cont b2 \<and> cont b3
              then (rune4 b0 b1 b2 b3, 4)
              else (rune_error, 1))))"
| "decode_tail b0 [] = (rune_error, 1)"

definition decode_rune :: "bytes \<Rightarrow> nat \<times> nat" where
  "decode_rune s =
     (case s of
        [] \<Rightarrow> (rune_error, 0)
      | c # cs \<Rightarrow> if byte c < 0x80 then (byte c, 1) else decode_tail (byte c) (map byte (take 3 cs)))"

lemma decode_tail_size: "1 \<le> snd (decode_tail b bs)"
  by (cases bs) (auto split: list.splits)

lemma decode_rune_size: "s \<noteq> [] \<Longrightarrow> 1 \<le> snd (decode_rune s)"
  using decode_tail_size by (cases s) (auto simp: decode_rune_def)

text \<open>Go's \<open>for _, r := range s\<close>, and \<open>utf8.ValidString\<close>.\<close>

function runes :: "bytes \<Rightarrow> nat list" where
  "runes [] = []"
| "runes (c # cs) = fst (decode_rune (c # cs)) # runes (drop (snd (decode_rune (c # cs))) (c # cs))"
  by pat_completeness auto
termination
  using decode_rune_size by (relation "measure length") (fastforce simp: Suc_le_eq)+

function valid_utf8 :: "bytes \<Rightarrow> bool" where
  "valid_utf8 [] = True"
| "valid_utf8 (c # cs) =
     (decode_rune (c # cs) \<noteq> (rune_error, 1)
      \<and> valid_utf8 (drop (snd (decode_rune (c # cs))) (c # cs)))"
  by pat_completeness auto
termination
  using decode_rune_size by (relation "measure length") (fastforce simp: Suc_le_eq)+

text \<open>
  A valid multi-byte sequence decodes to a code point of at least \<open>0x80\<close>, and none of its
  bytes is below \<open>0x80\<close>: a search for ASCII runes and one for ASCII bytes find the same.
\<close>

lemma second3_arith: "in_range 0xE0 0xEF b0 \<Longrightarrow> second3 b0 b1 \<Longrightarrow> 2 \<le> (b0 - 0xE0) * 64 + (b1 - 0x80) \<and> 0x80 \<le> b1"
  by (auto simp: in_range_def cont_def second3_def split: if_splits)

lemma second4_arith: "in_range 0xF0 0xF4 b0 \<Longrightarrow> second4 b0 b1 \<Longrightarrow> 2 \<le> (b0 - 0xF0) * 64 + (b1 - 0x80) \<and> 0x80 \<le> b1"
  by (auto simp: in_range_def cont_def second4_def split: if_splits)

inductive multibyte :: "nat \<Rightarrow> nat list \<Rightarrow> nat \<Rightarrow> nat \<Rightarrow> bool" for b0 where
  two: "in_range 0xC2 0xDF b0 \<Longrightarrow> cont b1 \<Longrightarrow>
    multibyte b0 (b1 # bs) (rune2 b0 b1) 2"
| three: "in_range 0xE0 0xEF b0 \<Longrightarrow> second3 b0 b1 \<Longrightarrow> cont b2 \<Longrightarrow>
    multibyte b0 (b1 # b2 # bs) (rune3 b0 b1 b2) 3"
| four: "in_range 0xF0 0xF4 b0 \<Longrightarrow> second4 b0 b1 \<Longrightarrow> cont b2 \<Longrightarrow> cont b3 \<Longrightarrow>
    multibyte b0 (b1 # b2 # b3 # bs) (rune4 b0 b1 b2 b3) 4"

lemma decode_tail_multibyte:
  assumes "decode_tail b bs = (r, n)" "(r, n) \<noteq> (rune_error, 1)"
  shows "multibyte b bs r n"
proof (cases bs)
  case Nil
  with assms show ?thesis by simp
next
  case (Cons b1 bs1)
  show ?thesis
  proof (cases "in_range 0xC2 0xDF b \<and> cont b1")
    case True
    with assms Cons show ?thesis by (auto intro: multibyte.two)
  next
    case F2: False
    show ?thesis
    proof (cases bs1)
      case Nil
      with assms Cons F2 show ?thesis by simp
    next
      case C2: (Cons b2 bs2)
      show ?thesis
      proof (cases "in_range 0xE0 0xEF b \<and> second3 b b1 \<and> cont b2")
        case True
        with assms Cons F2 C2 multibyte.three [of b b1 b2 bs2] show ?thesis by auto
      next
        case False
        with assms Cons F2 C2 obtain b3 bs3 where "bs2 = b3 # bs3"
          by (auto split: list.splits)
        with False assms Cons F2 C2 multibyte.four [of b b1 b2 b3 bs3] show ?thesis
          by (auto split: if_splits)
      qed
    qed
  qed
qed

lemma six_bits: "2 \<le> x \<Longrightarrow> 0x80 \<le> x * 64 + (y :: nat)"
  and six_bits2: "0x80 \<le> x \<Longrightarrow> 0x80 \<le> x * 64 + (y :: nat)"
  by simp_all

lemma multibyte_facts:
  assumes "multibyte b bs r n"
  shows "0x80 \<le> r" "n \<le> Suc (length bs)" "\<forall>x\<in>set (take (n - 1) bs). 0x80 \<le> x" "2 \<le> n"
  using assms
proof (induction rule: multibyte.induct)
  case (two b1 bs)
  { case 1 from two have "2 \<le> b - 0xC0" "0x80 \<le> b1" by (auto simp: in_range_def cont_def)
    then show ?case unfolding rune2_def by linarith }
  { case 3 from two show ?case by (simp add: cont_def) }
next
  case (three b1 b2 bs)
  note s = second3_arith [OF three(1,2)]
  { case 1 show ?case unfolding rune3_def by (rule six_bits, rule conjunct1 [OF s]) }
  { case 3 from s three(3) show ?case by (simp add: cont_def eval_nat_numeral) }
next
  case (four b1 b2 b3 bs)
  note s = second4_arith [OF four(1,2)]
  { case 1 show ?case unfolding rune4_def by (rule six_bits2, rule six_bits, rule conjunct1 [OF s]) }
  { case 3 from s four(3,4) show ?case by (simp add: cont_def eval_nat_numeral) }
qed simp_all

lemmas decode_tail_cases = multibyte_facts [OF decode_tail_multibyte]

definition ctl :: "nat \<Rightarrow> bool" where
  "ctl r \<longleftrightarrow> r < 0x20 \<or> r = 0x7F"

lemma decode_rune_ascii: "byte c < 0x80 \<Longrightarrow> decode_rune (c # cs) = (byte c, 1)"
  by (simp add: decode_rune_def)

lemma decode_rune_multi:
  assumes "\<not> byte c < 0x80" "decode_rune (c # cs) = (r, n)" "(r, n) \<noteq> (rune_error, 1)"
  shows "0x80 \<le> r" "\<forall>x\<in>set (take n (c # cs)). 0x80 \<le> byte x" "n \<le> Suc (length cs)"
proof -
  from assms have t: "decode_tail (byte c) (map byte (take 3 cs)) = (r, n)" "0x80 \<le> byte c"
    by (auto simp: decode_rune_def)
  note d = decode_tail_cases [OF t(1) assms(3)]
  show "0x80 \<le> r" by (fact d(1))
  from d(2) show "n \<le> Suc (length cs)" by simp
  from d(2,4) obtain m where n: "n = Suc m" "m \<le> 3" by (cases n) auto
  with d(3) have "\<forall>x\<in>set (take m cs). 0x80 \<le> byte x"
    by (auto simp: take_map min_def split: if_splits)
  with n t(2) show "\<forall>x\<in>set (take n (c # cs)). 0x80 \<le> byte x" by auto
qed

lemma runes_ctl_iff:
  "valid_utf8 s \<Longrightarrow> (\<exists>r\<in>set (runes s). ctl r) \<longleftrightarrow> (\<exists>c\<in>set s. ctl (byte c))"
proof (induction s rule: runes.induct)
  case (2 c cs)
  obtain r n where rn: "decode_rune (c # cs) = (r, n)" by fastforce
  let ?rest = "drop n (c # cs)"
  from 2 rn have IH: "(\<exists>r\<in>set (runes ?rest). ctl r) \<longleftrightarrow> (\<exists>c\<in>set ?rest. ctl (byte c))"
    and ok: "(r, n) \<noteq> (rune_error, 1)" by auto
  show ?case
  proof (cases "byte c < 0x80")
    case True
    with rn have "r = byte c" "n = 1" by (auto simp: decode_rune_ascii)
    with rn IH show ?thesis by simp
  next
    case False
    note m = decode_rune_multi [OF False rn ok]
    from m have "\<not> ctl r" "\<not> (\<exists>x\<in>set (take n (c # cs)). ctl (byte x))"
      by (auto simp: ctl_def)
    moreover have "set (c # cs) = set (take n (c # cs)) \<union> set ?rest"
      by (metis append_take_drop_id set_append)
    ultimately show ?thesis using rn IH by auto
  qed
qed simp

text \<open>An ASCII byte ends whatever sequence comes before it.\<close>

lemma multibyte_decode: "multibyte b bs r n \<Longrightarrow> decode_tail b bs = (r, n)"
  by (induction rule: multibyte.induct) (auto simp: in_range_def)

lemma multibyte_append_iff:
  "n - 1 \<le> length bs \<Longrightarrow> multibyte b (bs @ ys) r n \<longleftrightarrow> multibyte b bs r n"
proof
  assume "multibyte b bs r n"
  then show "multibyte b (bs @ ys) r n"
    by cases (auto intro: multibyte.intros)
next
  assume n: "n - 1 \<le> length bs" and "multibyte b (bs @ ys) r n"
  from this(2) show "multibyte b bs r n"
  proof cases
    case (two b1 cs)
    with n show ?thesis by (cases bs) (auto intro: multibyte.two)
  next
    case (three b1 b2 cs)
    with n show ?thesis
      by (cases bs; cases "tl bs") (auto intro: multibyte.three)
  next
    case (four b1 b2 b3 cs)
    with n show ?thesis
      by (cases bs; cases "tl bs"; cases "tl (tl bs)") (auto intro: multibyte.four)
  qed
qed

lemma decode_rune_multibyte_iff:
  "\<not> byte c < 0x80 \<Longrightarrow> (decode_rune (c # cs) = (r, n) \<and> (r, n) \<noteq> (rune_error, 1)) \<longleftrightarrow>
     multibyte (byte c) (map byte (take 3 cs)) r n"
  using multibyte_decode [of "byte c" "map byte (take 3 cs)" r n]
    decode_tail_multibyte [of "byte c" "map byte (take 3 cs)" r n]
    multibyte_facts(4) [of "byte c" "map byte (take 3 cs)" r n]
  by (auto simp: decode_rune_def)

lemma decode_rune_ascii_after:
  assumes "byte a < 0x80"
  shows "(decode_rune (c # cs @ a # t) = (r, n) \<and> (r, n) \<noteq> (rune_error, 1)) \<longleftrightarrow>
    (decode_rune (c # cs) = (r, n) \<and> (r, n) \<noteq> (rune_error, 1))"
proof (cases "byte c < 0x80")
  case False
  let ?l = "map byte (take 3 (cs @ a # t))" and ?s = "map byte (take 3 cs)"
  have l: "?l = ?s @ map byte (take (3 - length cs) (a # t))" by simp
  have "multibyte (byte c) ?l r n \<longleftrightarrow> multibyte (byte c) ?s r n"
  proof (cases "n - 1 \<le> length ?s")
    case True
    then show ?thesis unfolding l by (rule multibyte_append_iff)
  next
    case big: False
    then have "\<not> multibyte (byte c) ?s r n" using multibyte_facts(2) by fastforce
    moreover have "\<not> multibyte (byte c) ?l r n"
    proof
      assume m: "multibyte (byte c) ?l r n"
      from multibyte_facts(2) [OF m] big have "length cs < n - 1" "length cs < 3"
        by auto
      then have "a \<in> set (take (n - 1) (take 3 (cs @ a # t)))"
        by (cases "n - 1 - length cs"; cases "3 - length cs") (auto simp: take_Cons')
      then have "byte a \<in> set (take (n - 1) ?l)"
        unfolding take_map set_map by (rule imageI)
      with multibyte_facts(3) [OF m] assms show False by (metis not_less)
    qed
    ultimately show ?thesis by blast
  qed
  then show ?thesis unfolding decode_rune_multibyte_iff [OF False] .
qed (simp add: decode_rune_ascii)

lemma valid_utf8_ascii_iff:
  "byte a < 0x80 \<Longrightarrow> valid_utf8 (s @ a # t) \<longleftrightarrow> valid_utf8 s \<and> valid_utf8 t"
proof (induction s rule: valid_utf8.induct)
  case (2 c cs)
  obtain r n where rn: "decode_rune (c # cs) = (r, n)" by fastforce
  obtain r' n' where rn': "decode_rune (c # cs @ a # t) = (r', n')" by fastforce
  show ?case
  proof (cases "(r, n) = (rune_error, 1)")
    case True
    with rn rn' decode_rune_ascii_after [OF 2(2), of c cs t r' n']
    have "(r', n') = (rune_error, 1)" by auto
    with True rn rn' show ?thesis by simp
  next
    case False
    with rn rn' decode_rune_ascii_after [OF 2(2), of c cs t r n] have eq: "r' = r" "n' = n" by auto
    have "n \<le> Suc (length cs)"
      using False rn decode_rune_multi(3) [of c cs r n] by (cases "byte c < 0x80") (auto simp: decode_rune_ascii)
    then have "drop n (c # cs @ a # t) = drop n (c # cs) @ a # t"
      by (metis Cons_eq_appendI drop_append diff_is_0_eq drop0 length_Cons)
    with 2 rn rn' False eq show ?thesis by auto
  qed
qed (simp add: decode_rune_ascii)

text \<open>Plain ASCII is valid UTF-8 and decodes byte by byte.\<close>

definition ascii :: "bytes \<Rightarrow> bool" where
  "ascii s \<longleftrightarrow> (\<forall>c\<in>set s. byte c < 0x80)"

lemma ascii_simps [simp]:
  "ascii []" "ascii (c # s) \<longleftrightarrow> byte c < 0x80 \<and> ascii s" "ascii (s @ t) \<longleftrightarrow> ascii s \<and> ascii t"
  by (auto simp: ascii_def)

lemma ascii_valid_utf8: "ascii s \<Longrightarrow> valid_utf8 s"
  by (induction s) (auto simp: decode_rune_ascii)

lemma ascii_runes: "ascii s \<Longrightarrow> runes s = map byte s"
  by (induction s) (auto simp: decode_rune_ascii)

end
