(* ===== verification/GoPath.thy ===== *)
theory GoPath
  imports GoStrings
begin

text \<open>
  Decimal integers as \<^verbatim>\<open>strconv\<close> prints and parses them, and the lexical operations
  of Go's \<^verbatim>\<open>path\<close> package.
\<close>

section \<open>strconv\<close>

fun digits :: "nat \<Rightarrow> bytes" where
  "digits n = (if n < 10 then [char_of (48 + n)] else digits (n div 10) @ [char_of (48 + n mod 10)])"

declare digits.simps [simp del]

definition itoa :: "int \<Rightarrow> bytes" where
  "itoa x = (if x < 0 then CHR ''-'' # digits (nat (- x)) else digits (nat x))"

definition digit_val :: "char \<Rightarrow> nat option" where
  "digit_val c = (if 48 \<le> byte c \<and> byte c \<le> 57 then Some (byte c - 48) else None)"

fun parse_digits :: "nat \<Rightarrow> bytes \<Rightarrow> nat option" where
  "parse_digits acc [] = Some acc"
| "parse_digits acc (c # cs) =
     (case digit_val c of None \<Rightarrow> None | Some d \<Rightarrow> parse_digits (acc * 10 + d) cs)"

definition parse_nat :: "bytes \<Rightarrow> nat option" where
  "parse_nat s = (if s = [] then None else parse_digits 0 s)"

text \<open>\<open>strconv.ParseInt(s, 10, 64)\<close>: an optional sign, digits, and the 64-bit range.\<close>

definition parse_int64 :: "bytes \<Rightarrow> int option" where
  "parse_int64 s =
     (let (neg, body) = (case s of [] \<Rightarrow> (False, [])
                         | c # cs \<Rightarrow> if c = CHR ''-'' then (True, cs)
                                    else if c = CHR ''+'' then (False, cs) else (False, s))
      in case parse_nat body of
           None \<Rightarrow> None
         | Some n \<Rightarrow> (let x = (if neg then - int n else int n)
                     in if is_int64 x then Some x else None))"

lemma byte_digit: "d < 10 \<Longrightarrow> byte (char_of (48 + d :: nat)) = 48 + d"
  by (simp add: byte_def)

lemma digit_val_digit [simp]: "d < 10 \<Longrightarrow> digit_val (char_of (48 + d :: nat)) = Some d"
  by (simp add: digit_val_def byte_digit)

lemma parse_digits_append:
  "parse_digits acc (xs @ ys) = (case parse_digits acc xs of None \<Rightarrow> None | Some a \<Rightarrow> parse_digits a ys)"
  by (induction xs arbitrary: acc) (auto split: option.splits)

lemma parse_digits_digits: "parse_digits 0 (digits n) = Some n"
proof (induction n rule: digits.induct)
  case (1 n)
  then show ?case
    by (cases "n < 10") (simp_all add: digits.simps [of n] parse_digits_append)
qed

lemma digits_not_Nil [simp]: "digits n \<noteq> []"
  by (subst digits.simps) simp

lemma digits_chars: "c \<in> set (digits n) \<Longrightarrow> 48 \<le> byte c \<and> byte c \<le> 57"
proof (induction n rule: digits.induct)
  case (1 n)
  show ?case
  proof (cases "n < 10")
    case True
    with 1 show ?thesis by (auto simp: digits.simps [of n] byte_digit)
  next
    case False
    with 1 have "c \<in> set (digits (n div 10)) \<or> c = char_of (48 + n mod 10)"
      by (auto simp: digits.simps [of n])
    with 1 False show ?thesis by (auto simp: byte_digit)
  qed
qed

lemma byte_sign: "byte CHR ''-'' = 45" "byte CHR ''+'' = 43"
  by (simp_all add: byte_def)

lemma parse_nat_digits [simp]: "parse_nat (digits n) = Some n"
  by (simp add: parse_nat_def parse_digits_digits)

lemma parse_itoa: "is_int64 x \<Longrightarrow> parse_int64 (itoa x) = Some x"
proof (cases "x < 0")
  case False
  assume x: "is_int64 x"
  obtain c cs where d: "digits (nat x) = c # cs" by (metis digits_not_Nil neq_Nil_conv)
  then have "48 \<le> byte c" using digits_chars [of c "nat x"] by simp
  then have "c \<noteq> CHR ''-''" "c \<noteq> CHR ''+''" by (auto simp: byte_sign)
  moreover from d have "parse_nat (c # cs) = Some (nat x)" by (metis parse_nat_digits)
  ultimately show ?thesis using x False d by (simp add: itoa_def parse_int64_def)
qed (simp add: itoa_def parse_int64_def)

lemma itoa_chars: "c \<in> set (itoa x) \<Longrightarrow> c = CHR ''-'' \<or> (48 \<le> byte c \<and> byte c \<le> 57)"
  by (auto simp: itoa_def digits_chars split: if_splits)

section \<open>path\<close>

definition base_name :: "bytes \<Rightarrow> bytes" where
  "base_name s = (case last_index slash s of None \<Rightarrow> s | Some i \<Rightarrow> drop (Suc i) s)"

text \<open>\<open>path.Ext\<close>: from the last dot of the last segment on.\<close>

definition path_ext :: "bytes \<Rightarrow> bytes" where
  "path_ext s = (let b = base_name s in case last_index dot b of None \<Rightarrow> [] | Some i \<Rightarrow> drop i b)"

text \<open>\<open>path.Clean\<close> as a pass over the segments, with the output kept in reverse.\<close>

fun clean_segs :: "bool \<Rightarrow> bytes list \<Rightarrow> bytes list \<Rightarrow> bytes list" where
  "clean_segs rooted out [] = rev out"
| "clean_segs rooted out (s # ss) =
     (if s = [] \<or> s = ''.'' then clean_segs rooted out ss
      else if s = ''..'' then
        (case out of
           p # ps \<Rightarrow> if p = ''..'' then clean_segs rooted (''..'' # out) ss else clean_segs rooted ps ss
         | [] \<Rightarrow> if rooted then clean_segs rooted [] ss else clean_segs rooted [''..''] ss)
      else clean_segs rooted (s # out) ss)"

definition path_clean :: "bytes \<Rightarrow> bytes" where
  "path_clean p =
     (let rooted = has_prefix p ''/''; segs = clean_segs rooted [] (split_on slash p)
      in if rooted then slash # join_with slash segs
         else if segs = [] then ''.'' else join_with slash segs)"

definition path_join :: "bytes \<Rightarrow> bytes \<Rightarrow> bytes" where
  "path_join a b =
     (if a = [] then (if b = [] then [] else path_clean b) else path_clean (a @ slash # b))"

definition path_dir :: "bytes \<Rightarrow> bytes" where
  "path_dir p = path_clean (case last_index slash p of None \<Rightarrow> [] | Some i \<Rightarrow> take (Suc i) p)"

text \<open>
  A segment that a rooted clean leaves: not empty, not a dot, and never \<open>..\<close>, because a
  climb above the root is dropped.
\<close>

definition plain_seg :: "bytes \<Rightarrow> bool" where
  "plain_seg s \<longleftrightarrow> s \<noteq> [] \<and> s \<noteq> ''.'' \<and> s \<noteq> ''..''"

lemma clean_segs_plain:
  "\<forall>s\<in>set out. plain_seg s \<Longrightarrow> s \<in> set (clean_segs True out ss) \<Longrightarrow> plain_seg s"
proof (induction "True" out ss rule: clean_segs.induct)
  case (2 out s' ss)
  show ?case
  proof (cases "s' = [] \<or> s' = ''.''")
    case True
    with 2 show ?thesis by simp
  next
    case False
    show ?thesis
    proof (cases "s' = ''..''")
      case True
      with 2 show ?thesis by (cases out) (auto simp: plain_seg_def split: if_splits)
    next
      case False
      with \<open>\<not> (s' = [] \<or> s' = ''.'')\<close> 2 show ?thesis by (simp add: plain_seg_def)
    qed
  qed
qed auto

lemma clean_segs_id:
  "\<forall>s\<in>set ss. plain_seg s \<Longrightarrow> clean_segs r out ss = rev out @ ss"
  by (induction ss arbitrary: out) (auto simp: plain_seg_def)

lemma set_clean_segs: "set (clean_segs True out ss) \<subseteq> set out \<union> set ss"
  by (induction "True" out ss rule: clean_segs.induct) (auto split: list.splits if_splits)

end
