(* ===== verification/DbFile.thy ===== *)
theory DbFile
  imports GoPath
begin

text \<open>
  \<^verbatim>\<open>internal/db/file.go\<close>: the file row, which paths it may be stored under, where a
  page of a listing resumes, and the range of paths a subtree occupies.  Times are
  nanoseconds since the epoch.
\<close>

section \<open>The row\<close>

record db_file =
  f_id :: int
  f_owner :: bytes
  f_path :: bytes
  f_blob :: bytes
  f_size :: int
  f_mtime :: int
  f_etag :: bytes
  f_mime :: bytes
  f_is_dir :: bool

definition no_file :: db_file where
  "no_file = \<lparr>f_id = 0, f_owner = [], f_path = [], f_blob = [], f_size = 0, f_mtime = 0,
     f_etag = [], f_mime = [], f_is_dir = False\<rparr>"

definition TimePrecision :: int where
  "TimePrecision = 1000000"

definition truncate_time :: "int \<Rightarrow> int" where
  "truncate_time t = t - t mod TimePrecision"

definition Normalize :: "db_file \<Rightarrow> db_file" where
  "Normalize f = f\<lparr>f_mtime := truncate_time (f_mtime f)\<rparr>"

lemma Normalize_simps [simp]:
  "f_id (Normalize f) = f_id f" "f_owner (Normalize f) = f_owner f" "f_path (Normalize f) = f_path f"
  "f_blob (Normalize f) = f_blob f" "f_size (Normalize f) = f_size f" "f_etag (Normalize f) = f_etag f"
  "f_mime (Normalize f) = f_mime f" "f_is_dir (Normalize f) = f_is_dir f"
  by (simp_all add: Normalize_def)

lemma truncate_time_idem [simp]: "truncate_time (truncate_time t) = truncate_time t"
  by (simp add: truncate_time_def TimePrecision_def mod_diff_left_eq [symmetric])

section \<open>Ordering and cursors\<close>

text \<open>\<open>FileSortKey\<close> is an \<open>int\<close> with three named values, and anything else is refused.\<close>

definition SortName :: int where "SortName = 0"
definition SortSize :: int where "SortSize = 1"
definition SortMTime :: int where "SortMTime = 2"

record file_order =
  o_by :: int
  o_desc :: bool

definition order_Validate :: "file_order \<Rightarrow> unit result" where
  "order_Validate o' = (if o_by o' = SortName \<or> o_by o' = SortSize \<or> o_by o' = SortMTime
                       then Inr () else Inl ErrOther)"

record cursor =
  c_is_dir :: bool
  c_path :: bytes
  c_size :: int
  c_mtime :: int

definition zero_cursor :: cursor where
  "zero_cursor = \<lparr>c_is_dir = False, c_path = [], c_size = 0, c_mtime = 0\<rparr>"

definition After :: "db_file \<Rightarrow> cursor" where
  "After f = \<lparr>c_is_dir = f_is_dir f, c_path = f_path f, c_size = f_size f, c_mtime = f_mtime f\<rparr>"

definition AtStart :: "cursor \<Rightarrow> bool" where
  "AtStart c \<longleftrightarrow> c_path c = []"

definition Groups :: "cursor \<Rightarrow> bool list" where
  "Groups c = (if \<not> AtStart c \<and> \<not> c_is_dir c then [False] else [True, False])"

definition ValidateLimit :: "int \<Rightarrow> unit result" where
  "ValidateLimit limit = (if limit \<le> 0 then Inl ErrOther else Inr ())"

section \<open>Paths\<close>

definition MaxPathLen :: nat where "MaxPathLen = 4096"

fun check_path_segments :: "bytes list \<Rightarrow> bool" where
  "check_path_segments [] = True"
| "check_path_segments (seg # segs) =
     (if seg = [] then False
      else if seg = ''.'' \<or> seg = ''..'' then False
      else check_path_segments segs)"

definition ValidatePath :: "bytes \<Rightarrow> unit result" where
  "ValidatePath path =
     (if path = [] then Inl ErrInvalidPath
      else if MaxPathLen < length path then Inl ErrInvalidPath
      else if \<not> valid_utf8 path then Inl ErrInvalidPath
      else if has_prefix path ''/'' \<or> has_suffix path ''/'' then Inl ErrInvalidPath
      else if list_ex (\<lambda>r. r < 0x20 \<or> r = 0x7F) (runes path) then Inl ErrInvalidPath
      else if \<not> check_path_segments (split_on slash path) then Inl ErrInvalidPath
      else Inr ())"

definition ValidateDir :: "bytes \<Rightarrow> unit result" where
  "ValidateDir dir = (if dir = [] then Inr () else ValidatePath dir)"

definition ParentOf :: "bytes \<Rightarrow> bytes" where
  "ParentOf path = (case last_index slash path of None \<Rightarrow> [] | Some i \<Rightarrow> take i path)"

definition ValidateMove :: "bytes \<Rightarrow> bytes \<Rightarrow> unit result" where
  "ValidateMove from to =
     (case ValidatePath from of Inl e \<Rightarrow> Inl e | Inr _ \<Rightarrow>
      case ValidatePath to of Inl e \<Rightarrow> Inl e | Inr _ \<Rightarrow>
        if from = to then Inl ErrConflict
        else if has_prefix to (from @ ''/'') then Inl ErrConflict
        else Inr ())"

text \<open>\<open>string(rune('/'+1))\<close> is the digit zero.\<close>

definition SubtreeRange :: "bytes \<Rightarrow> bytes \<times> bytes \<times> bool" where
  "SubtreeRange dir = (if dir = [] then ([], [], True) else (dir @ ''/'', dir @ ''0'', False))"

definition CopyName :: "bytes \<Rightarrow> int \<Rightarrow> bytes" where
  "CopyName name n =
     (if n \<le> 1 then name
      else (let ext = path_ext name
            in trim_suffix name ext @ '' ('' @ itoa n @ '')'' @ ext))"

subsection \<open>What a valid path is\<close>

definition valid_path :: "bytes \<Rightarrow> bool" where
  "valid_path p \<longleftrightarrow> ValidatePath p = Inr ()"

lemma ValidatePath_cases: "ValidatePath p = (if valid_path p then Inr () else Inl ErrInvalidPath)"
  by (simp add: valid_path_def ValidatePath_def)

lemma check_path_segments_iff: "check_path_segments segs \<longleftrightarrow> (\<forall>s\<in>set segs. plain_seg s)"
  by (induction segs) (auto simp: plain_seg_def)

lemma list_ex_ctl:
  "valid_utf8 p \<Longrightarrow> list_ex (\<lambda>r. r < 0x20 \<or> r = 0x7F) (runes p) \<longleftrightarrow> (\<exists>c\<in>set p. ctl (byte c))"
  using runes_ctl_iff [of p] by (simp add: list_ex_iff ctl_def)

lemma no_empty_segment:
  "[] \<notin> set (split_on slash p) \<Longrightarrow> p \<noteq> [] \<and> \<not> has_prefix p ''/'' \<and> \<not> has_suffix p ''/''"
proof -
  assume a: "[] \<notin> set (split_on slash p)"
  have "\<not> has_suffix p ''/''"
  proof
    assume "has_suffix p ''/''"
    then obtain t where "p = t @ slash # []" by (auto simp: has_suffix_iff)
    with a split_on_append [of slash t "[]"] show False by simp
  qed
  with a show ?thesis by (cases p) (auto simp: has_prefix_def)
qed

lemma valid_path_iff:
  "valid_path p \<longleftrightarrow>
     length p \<le> MaxPathLen \<and> valid_utf8 p \<and> (\<forall>c\<in>set p. \<not> ctl (byte c))
     \<and> (\<forall>s\<in>set (split_on slash p). plain_seg s)"
proof (cases "\<forall>s\<in>set (split_on slash p). plain_seg s")
  case True
  then have "[] \<notin> set (split_on slash p)" by (auto simp: plain_seg_def)
  from no_empty_segment [OF this] True show ?thesis
    by (auto simp: valid_path_def ValidatePath_def check_path_segments_iff list_ex_ctl)
next
  case False
  then show ?thesis by (auto simp: valid_path_def ValidatePath_def check_path_segments_iff)
qed

lemma valid_path_not_Nil [simp]: "\<not> valid_path []"
  by (simp add: valid_path_def ValidatePath_def)

subsection \<open>Parents and subtrees\<close>

definition under :: "bytes \<Rightarrow> bytes \<Rightarrow> bool" where
  "under d p \<longleftrightarrow> has_prefix p (d @ ''/'')"

lemma under_iff: "under d p \<longleftrightarrow> (\<exists>t. p = d @ slash # t)"
  by (auto simp: under_def has_prefix_iff)

lemma under_append [simp]: "under d (d @ slash # t)"
  by (auto simp: under_iff)

lemma under_length: "under d p \<Longrightarrow> length d < length p"
  by (auto simp: under_iff)

lemma not_under_self [simp]: "\<not> under p p"
  by (auto simp: under_iff)

lemma under_trans: "under a b \<Longrightarrow> under b c \<Longrightarrow> under a c"
  by (auto simp: under_iff)

lemma ParentOf_Nil_iff: "slash \<notin> set p \<Longrightarrow> ParentOf p = []"
  by (simp add: ParentOf_def last_index_None_iff [THEN iffD2])

lemma ParentOf_append: "slash \<notin> set b \<Longrightarrow> ParentOf (a @ slash # b) = a"
  by (simp add: ParentOf_def last_index_append)

lemma ParentOf_cases:
  obtains "slash \<notin> set p" "ParentOf p = []"
  | b where "p = ParentOf p @ slash # b" "slash \<notin> set b"
proof (cases "last_index slash p")
  case None
  then show ?thesis using that(1) ParentOf_Nil_iff by simp
next
  case (Some i)
  with last_index_SomeD [OF Some] show ?thesis
    by (intro that(2) [of "drop (Suc i) p"]) (auto simp: ParentOf_def)
qed

lemma ParentOf_under: "ParentOf p \<noteq> [] \<Longrightarrow> under (ParentOf p) p"
  by (rule ParentOf_cases [of p]) (auto simp: under_iff)

lemma ParentOf_shorter: "p \<noteq> [] \<Longrightarrow> length (ParentOf p) < length p"
proof (rule ParentOf_cases [of p])
  fix b assume "p = ParentOf p @ slash # b"
  then have "length p = length (ParentOf p) + Suc (length b)" by (metis length_append length_Cons)
  then show ?thesis by simp
qed simp

lemma under_ParentOf: "under d p \<Longrightarrow> ParentOf p = d \<or> under d (ParentOf p)"
proof -
  assume "under d p"
  then obtain t where p: "p = d @ slash # t" by (auto simp: under_iff)
  show ?thesis
  proof (cases "slash \<in> set t")
    case False
    with p show ?thesis by (simp add: ParentOf_append)
  next
    case True
    then obtain a b where "t = a @ slash # b" "slash \<notin> set b"
      by (metis split_list_last)
    then show ?thesis using p ParentOf_append [of b "d @ slash # a"] by (simp add: under_iff)
  qed
qed

lemma ParentOf_rebase:
  assumes "under from p"
  shows "ParentOf (to @ drop (length from) p) = to @ drop (length from) (ParentOf p)"
proof -
  from assms obtain t where p: "p = from @ slash # t" by (auto simp: under_iff)
  show ?thesis
  proof (cases "slash \<in> set t")
    case False
    with p show ?thesis by (simp add: ParentOf_append)
  next
    case True
    then obtain a b where "t = a @ slash # b" "slash \<notin> set b" by (metis split_list_last)
    with p ParentOf_append [of b "from @ slash # a"] ParentOf_append [of b "to @ slash # a"]
    show ?thesis by simp
  qed
qed

lemma split_ParentOf:
  assumes "ParentOf p \<noteq> []"
  obtains b where "split_on slash p = split_on slash (ParentOf p) @ [b]"
  using assms
  by (cases p rule: ParentOf_cases) (metis split_on_append split_on_free)+

text \<open>
  Cutting a valid path at a slash leaves a valid path: UTF-8 sequences never straddle an
  ASCII byte.
\<close>

lemma valid_path_ParentOf:
  assumes "valid_path p" "ParentOf p \<noteq> []"
  shows "valid_path (ParentOf p)"
proof -
  from assms(2) obtain b where p: "p = ParentOf p @ slash # b" by (cases p rule: ParentOf_cases) auto
  from assms(1) have v: "length p \<le> MaxPathLen" "valid_utf8 p" "\<forall>c\<in>set p. \<not> ctl (byte c)"
    "\<forall>s\<in>set (split_on slash p). plain_seg s"
    by (simp_all add: valid_path_iff)
  from p have "set (ParentOf p) \<subseteq> set p" "length (ParentOf p) \<le> length p"
    by (metis Un_upper1 set_append, metis le_add1 length_append)
  moreover have "valid_utf8 (ParentOf p)"
    using v(2) p valid_utf8_ascii_iff [of slash "ParentOf p" b] by (simp add: byte_def)
  moreover obtain b' where "split_on slash p = split_on slash (ParentOf p) @ [b']"
    using split_ParentOf [OF assms(2)] by blast
  ultimately show ?thesis using v by (auto simp: valid_path_iff)
qed

end
