(* ===== verification/SqlText.thy ===== *)
theory SqlText
  imports DbFile
begin

text \<open>
  The two SQL text functions the statements of \<^verbatim>\<open>internal/db/sqlite/sqlite.go\<close> rest
  on, as SQLite documents them, and the pattern \<^verbatim>\<open>internal/db/sqlutil\<close> builds for
  them.  \<open>substr\<close> counts the characters of a TEXT, not its bytes; \<open>LIKE\<close> folds the
  case of ASCII letters, and of those only.
\<close>

section \<open>substr\<close>

definition is_cont :: "char \<Rightarrow> bool" where
  "is_cont c \<longleftrightarrow> cont (byte c)"

text \<open>One UTF-8 character: a byte, and after a leading byte its continuation bytes.\<close>

definition skip_char :: "bytes \<Rightarrow> bytes" where
  "skip_char s =
     (case s of [] \<Rightarrow> [] | c # cs \<Rightarrow> if 0xC0 \<le> byte c then dropWhile is_cont cs else cs)"

fun skip_chars :: "nat \<Rightarrow> bytes \<Rightarrow> bytes" where
  "skip_chars 0 s = s"
| "skip_chars (Suc k) s = skip_chars k (skip_char s)"

text \<open>\<open>substr(s, y)\<close> for a start \<open>y\<close> of at least one.\<close>

definition sql_substr :: "bytes \<Rightarrow> nat \<Rightarrow> bytes" where
  "sql_substr s y = skip_chars (y - 1) s"

lemma skip_char_length: "length (skip_char s) \<le> length s - 1"
  by (cases s) (auto simp: skip_char_def length_dropWhile_le)

lemma skip_char_ascii [simp]: "byte c < 0x80 \<Longrightarrow> skip_char (c # cs) = cs"
  by (simp add: skip_char_def)

lemma skip_char_Nil [simp]: "skip_char [] = []"
  by (simp add: skip_char_def)

lemma skip_chars_Nil [simp]: "skip_chars k [] = []"
  by (induction k) auto

lemma skip_chars_ascii: "ascii d \<Longrightarrow> skip_chars (length d) (d @ t) = t"
  by (induction d) auto

lemma sql_substr_ascii: "ascii d \<Longrightarrow> sql_substr (d @ t) (length d + 1) = t"
  by (simp add: sql_substr_def skip_chars_ascii)

section \<open>LIKE with an escape\<close>

definition fold_case :: "char \<Rightarrow> char" where
  "fold_case c = (if 65 \<le> byte c \<and> byte c \<le> 90 then char_of (byte c + 32) else c)"

abbreviation like_escape :: char where "like_escape \<equiv> CHR 0x5C"

fun sql_like :: "bytes \<Rightarrow> bytes \<Rightarrow> bool" where
  "sql_like [] s = (s = [])"
| "sql_like (p # ps) s =
     (if p = like_escape then
        (case ps of [] \<Rightarrow> False
         | q # qs \<Rightarrow> (case s of [] \<Rightarrow> False | c # cs \<Rightarrow> fold_case q = fold_case c \<and> sql_like qs cs))
      else if p = CHR ''%'' then list_ex (sql_like ps) (suffixes s)
      else if p = CHR ''_'' then s \<noteq> [] \<and> sql_like ps (skip_char s)
      else (case s of [] \<Rightarrow> False | c # cs \<Rightarrow> fold_case p = fold_case c \<and> sql_like ps cs))"

declare sql_like.simps(2) [simp del]

definition like_literal :: "char \<Rightarrow> bytes" where
  "like_literal c =
     (if c = CHR ''%'' \<or> c = CHR ''_'' \<or> c = CHR 0x5C then [like_escape, c] else [c])"

text \<open>\<open>sqlutil.Under\<close>: everything beneath a directory.\<close>

definition Under :: "bytes \<Rightarrow> bytes" where
  "Under dir = concat (map like_literal (dir @ ''/'')) @ ''%''"

text \<open>\<open>sqlutil.Contains\<close>: a search term anywhere.\<close>

definition Contains :: "bytes \<Rightarrow> bytes" where
  "Contains term = ''%'' @ concat (map like_literal term) @ ''%''"

lemma sql_like_literal:
  "sql_like (like_literal l @ ps) s \<longleftrightarrow> (\<exists>c cs. s = c # cs \<and> fold_case l = fold_case c \<and> sql_like ps cs)"
  by (auto simp: like_literal_def sql_like.simps(2) split: list.splits)

lemma sql_like_any: "sql_like (CHR ''%'' # ps) s \<longleftrightarrow> (\<exists>a b. s = a @ b \<and> sql_like ps b)"
  by (fastforce simp: sql_like.simps(2) list_ex_iff suffix_def)

lemma sql_like_literals:
  "sql_like (concat (map like_literal l) @ ps) s \<longleftrightarrow>
     (\<exists>a b. s = a @ b \<and> map fold_case a = map fold_case l \<and> sql_like ps b)"
proof (induction l arbitrary: s)
  case (Cons x l)
  have "sql_like (concat (map like_literal (x # l)) @ ps) s \<longleftrightarrow>
    (\<exists>c a b. s = c # a @ b \<and> fold_case x = fold_case c \<and> map fold_case a = map fold_case l \<and> sql_like ps b)"
    using Cons.IH by (auto simp: sql_like_literal)
  also have "\<dots> \<longleftrightarrow> (\<exists>a b. s = a @ b \<and> map fold_case a = map fold_case (x # l) \<and> sql_like ps b)"
  proof
    assume "\<exists>c a b. s = c # a @ b \<and> fold_case x = fold_case c \<and> map fold_case a = map fold_case l \<and> sql_like ps b"
    then obtain c a b where "s = (c # a) @ b" "map fold_case (c # a) = map fold_case (x # l)" "sql_like ps b"
      by auto
    then show "\<exists>a b. s = a @ b \<and> map fold_case a = map fold_case (x # l) \<and> sql_like ps b" by blast
  next
    assume "\<exists>a b. s = a @ b \<and> map fold_case a = map fold_case (x # l) \<and> sql_like ps b"
    then obtain c a b where "s = c # a @ b" "fold_case c = fold_case x" "map fold_case a = map fold_case l"
      "sql_like ps b" by (auto simp: map_eq_Cons_conv)
    then show "\<exists>c a b. s = c # a @ b \<and> fold_case x = fold_case c \<and> map fold_case a = map fold_case l \<and> sql_like ps b"
      by metis
  qed
  finally show ?case .
qed simp

text \<open>What the pattern of a directory matches: its subtree, spelled in any case.\<close>

lemma sql_like_Under:
  "sql_like (Under d) p \<longleftrightarrow> (\<exists>a b. p = a @ b \<and> map fold_case a = map fold_case (d @ ''/''))"
  unfolding Under_def sql_like_literals sql_like_any by (auto intro: exI [of _ "[]"])

lemma under_sql_like: "under d p \<Longrightarrow> sql_like (Under d) p"
  unfolding sql_like_Under under_def has_prefix_iff by blast

lemma sql_like_Contains:
  "sql_like (Contains t) p \<longleftrightarrow>
     (\<exists>a m b. p = a @ m @ b \<and> map fold_case m = map fold_case t)"
  unfolding Contains_def append_Cons append_Nil sql_like_any sql_like_literals
  by (auto intro: exI [of _ "[]"]) 

end
