(* ===== verification/Sqlite.thy ===== *)
theory Sqlite
  imports SqlText
begin

text \<open>
  The metadata database on SQLite, \<^verbatim>\<open>internal/db/sqlite\<close>: the \<open>files\<close>, \<open>trash\<close> and
  \<open>uploads\<close> tables and the statements over them.  A table is the list of its rows, a
  \<open>SELECT\<close> filters it, an \<open>INSERT\<close> appends, an \<open>UPDATE\<close> rewrites the rows it
  selects one after the other and checks the unique index on \<open>(owner_id, path)\<close> at each.
  What the driver does when a statement cannot be run at all is the caller's business: see
  the fault schedule of theory \<open>World\<close>.
\<close>

section \<open>Tables\<close>

record row = db_file +
  parent_path :: bytes

record trashed = db_file +
  t_batch :: bytes
  t_deleted_at :: int

record upload =
  u_id :: bytes
  u_owner :: bytes
  u_path :: bytes
  u_size :: int
  u_received :: int
  u_blob :: bytes
  u_store :: bytes
  u_digest :: bytes
  u_mime :: bytes
  u_expires :: int

record database =
  files :: "row list"
  trash :: "trashed list"
  uploads :: "upload list"
  next_id :: int

definition empty_db :: database where
  "empty_db = \<lparr>files = [], trash = [], uploads = [], next_id = 1\<rparr>"

type_synonym 'a query = "(database, 'a) step"

text \<open>\<open>ScanFile\<close>: the columns of a file, without the derived parent.\<close>

definition scan_file :: "row \<Rightarrow> db_file" where
  "scan_file r = db_file.truncate r"

lemma scan_file_simps [simp]:
  "f_id (scan_file r) = f_id r" "f_owner (scan_file r) = f_owner r" "f_path (scan_file r) = f_path r"
  "f_blob (scan_file r) = f_blob r" "f_size (scan_file r) = f_size r" "f_mtime (scan_file r) = f_mtime r"
  "f_etag (scan_file r) = f_etag r" "f_mime (scan_file r) = f_mime r" "f_is_dir (scan_file r) = f_is_dir r"
  by (simp_all add: scan_file_def db_file.truncate_def)

definition new_row :: "db_file \<Rightarrow> bool \<Rightarrow> row" where
  "new_row f d =
     \<lparr>f_id = f_id f, f_owner = f_owner f, f_path = f_path f, f_blob = f_blob f, f_size = f_size f,
      f_mtime = truncate_time (f_mtime f), f_etag = f_etag f, f_mime = f_mime f, f_is_dir = d,
      parent_path = ParentOf (f_path f)\<rparr>"

text \<open>The unique index.\<close>

definition at_key :: "bytes \<Rightarrow> bytes \<Rightarrow> row \<Rightarrow> bool" where
  "at_key owner path r \<longleftrightarrow> f_owner r = owner \<and> f_path r = path"

definition lookup_file :: "database \<Rightarrow> bytes \<Rightarrow> bytes \<Rightarrow> row option" where
  "lookup_file d owner path = find (at_key owner path) (files d)"

section \<open>Files\<close>

definition PutFile :: "db_file \<Rightarrow> db_file query" where
  "PutFile f0 d =
     (case ValidatePath (f_path f0) of Inl e \<Rightarrow> (Inl e, d) | Inr _ \<Rightarrow>
      let f = Normalize f0
      in case lookup_file d (f_owner f) (f_path f) of
           None \<Rightarrow>
             (let g = f\<lparr>f_id := next_id d\<rparr>
              in (Inr g, d\<lparr>files := files d @ [new_row g False], next_id := next_id d + 1\<rparr>))
         | Some r \<Rightarrow>
             if f_is_dir r then (Inl ErrConflict, d)
             else (Inr (f\<lparr>f_id := f_id r\<rparr>),
                   d\<lparr>files := map (\<lambda>x. if at_key (f_owner f) (f_path f) x
                      then x\<lparr>f_blob := f_blob f, f_size := f_size f, f_mtime := truncate_time (f_mtime f),
                             f_etag := f_etag f, f_mime := f_mime f\<rparr>
                      else x) (files d)\<rparr>))"

definition CreateDir :: "bytes \<Rightarrow> bytes \<Rightarrow> int \<Rightarrow> db_file query" where
  "CreateDir owner path now d =
     (case ValidatePath path of Inl e \<Rightarrow> (Inl e, d) | Inr _ \<Rightarrow>
      let dir = Normalize (no_file\<lparr>f_owner := owner, f_path := path, f_mtime := now, f_is_dir := True\<rparr>)
      in case lookup_file d owner path of
           Some _ \<Rightarrow> (Inl ErrConflict, d)
         | None \<Rightarrow>
             (let g = dir\<lparr>f_id := next_id d\<rparr>
              in (Inr g, d\<lparr>files := files d @ [new_row g True], next_id := next_id d + 1\<rparr>)))"

definition FileByPath :: "bytes \<Rightarrow> bytes \<Rightarrow> db_file query" where
  "FileByPath owner path d =
     (case ValidatePath path of Inl e \<Rightarrow> (Inl e, d) | Inr _ \<Rightarrow>
      case lookup_file d owner path of
        None \<Rightarrow> (Inl ErrNotFound, d)
      | Some r \<Rightarrow> (Inr (scan_file r), d))"

text \<open>\<open>ORDER BY is_dir DESC, path\<close>, bytes compared as bytes.\<close>

definition children :: "database \<Rightarrow> bytes \<Rightarrow> bytes \<Rightarrow> row list" where
  "children d owner dir = filter (\<lambda>r. f_owner r = owner \<and> parent_path r = dir) (files d)"

definition ListFiles :: "bytes \<Rightarrow> bytes \<Rightarrow> db_file list query" where
  "ListFiles owner dir d =
     (case ValidateDir dir of Inl e \<Rightarrow> (Inl e, d) | Inr _ \<Rightarrow>
      (Inr (map scan_file (sort_key (\<lambda>r. (\<not> f_is_dir r, f_path r)) (children d owner dir))), d))"

text \<open>
  A page of one group: the key an order sorts by (the path breaks its ties), the row a cursor
  stands for, and the statement \<open>listPages\<close> picks for that order, with or without a
  position to resume from.
\<close>

definition order_key :: "int \<Rightarrow> int \<Rightarrow> int \<Rightarrow> bytes \<Rightarrow> int \<times> bytes" where
  "order_key by sz mt path =
     (if by = SortSize then sz else if by = SortMTime then mt else 0, path)"

definition row_key :: "file_order \<Rightarrow> ('a) db_file_scheme \<Rightarrow> int \<times> bytes" where
  "row_key ord f = order_key (o_by ord) (f_size f) (f_mtime f) (f_path f)"

definition cursor_key :: "file_order \<Rightarrow> cursor \<Rightarrow> int \<times> bytes" where
  "cursor_key ord c = order_key (o_by ord) (c_size c) (truncate_time (c_mtime c)) (c_path c)"

definition past :: "file_order \<Rightarrow> cursor \<Rightarrow> 'a db_file_scheme \<Rightarrow> bool" where
  "past ord c f =
     (AtStart c \<or> (if o_desc ord then row_key ord f < cursor_key ord c
                   else cursor_key ord c < row_key ord f))"

definition sort_rows :: "file_order \<Rightarrow> row list \<Rightarrow> row list" where
  "sort_rows ord rs = (if o_desc ord then rev (sort_key (row_key ord) rs) else sort_key (row_key ord) rs)"

definition list_page :: "database \<Rightarrow> file_order \<Rightarrow> bytes \<Rightarrow> bytes \<Rightarrow> bool \<Rightarrow> cursor \<Rightarrow> nat \<Rightarrow> row list" where
  "list_page d ord owner dir is_dir from limit =
     take limit (sort_rows ord
       (filter (\<lambda>r. f_is_dir r = is_dir \<and> past ord from r) (children d owner dir)))"

fun page_groups :: "database \<Rightarrow> file_order \<Rightarrow> bytes \<Rightarrow> bytes \<Rightarrow> cursor \<Rightarrow> int \<Rightarrow> row list \<Rightarrow> bool list \<Rightarrow> row list" where
  "page_groups d ord owner dir after limit out [] = out"
| "page_groups d ord owner dir after limit out (g # gs) =
     (let rest = limit - int (length out)
      in if rest \<le> 0 then out
         else (let from = (if AtStart after \<or> g \<noteq> c_is_dir after then zero_cursor else after)
               in page_groups d ord owner dir after limit
                    (out @ list_page d ord owner dir g from (nat rest)) gs))"

definition ListFilesPage :: "bytes \<Rightarrow> bytes \<Rightarrow> file_order \<Rightarrow> cursor \<Rightarrow> int \<Rightarrow> db_file list query" where
  "ListFilesPage owner dir ord after limit d =
     (case ValidateDir dir of Inl e \<Rightarrow> (Inl e, d) | Inr _ \<Rightarrow>
      case ValidateLimit limit of Inl e \<Rightarrow> (Inl e, d) | Inr _ \<Rightarrow>
      case order_Validate ord of Inl e \<Rightarrow> (Inl e, d) | Inr _ \<Rightarrow>
      (Inr (map scan_file (page_groups d ord owner dir after limit [] (Groups after))), d))"

text \<open>
  An \<open>UPDATE\<close> that may change the key: row by row, and it stops where the new key of a row
  is already in the index.
\<close>

definition same_key :: "row \<Rightarrow> row \<Rightarrow> bool" where
  "same_key r x \<longleftrightarrow> f_owner x = f_owner r \<and> f_path x = f_path r"

fun sql_update :: "(row \<Rightarrow> bool) \<Rightarrow> (row \<Rightarrow> row) \<Rightarrow> row list \<Rightarrow> row list \<Rightarrow> row list option" where
  "sql_update sel f done [] = Some done"
| "sql_update sel f done (r # rs) =
     (if sel r then
        (if list_ex (same_key (f r)) (done @ rs) then None
         else sql_update sel f (done @ [f r]) rs)
      else sql_update sel f (done @ [r]) rs)"

text \<open>\<open>sqlutil.CheckAffected\<close>: why a statement changed nothing.\<close>

definition CheckAffected :: "nat \<Rightarrow> database \<Rightarrow> bytes \<Rightarrow> bytes \<Rightarrow> unit result" where
  "CheckAffected n d owner path =
     (if 0 < n then Inr ()
      else case lookup_file d owner path of
        None \<Rightarrow> Inl ErrNotFound
      | Some r \<Rightarrow> if f_is_dir r then Inl ErrConflict else Inl ErrNotFound)"

definition move_one :: "bytes \<Rightarrow> row \<Rightarrow> row" where
  "move_one to r = r\<lparr>f_path := to, parent_path := ParentOf to\<rparr>"

definition move_tree :: "bytes \<Rightarrow> nat \<Rightarrow> row \<Rightarrow> row" where
  "move_tree to tail r =
     r\<lparr>f_path := to @ sql_substr (f_path r) tail, parent_path := to @ sql_substr (parent_path r) tail\<rparr>"

definition in_tree :: "bytes \<Rightarrow> bytes \<Rightarrow> row \<Rightarrow> bool" where
  "in_tree owner from r \<longleftrightarrow> f_owner r = owner \<and> sql_like (Under from) (f_path r)"

definition MoveFile :: "bytes \<Rightarrow> bytes \<Rightarrow> bytes \<Rightarrow> unit query" where
  "MoveFile owner from to d =
     (case ValidateMove from to of Inl e \<Rightarrow> (Inl e, d) | Inr _ \<Rightarrow>
      case sql_update (at_key owner from) (move_one to) [] (files d) of
        None \<Rightarrow> (Inl ErrConflict, d)
      | Some moved \<Rightarrow>
          (let d1 = d\<lparr>files := moved\<rparr>
           in case CheckAffected (length (filter (at_key owner from) (files d))) d1 owner from of
                Inl e \<Rightarrow> (Inl e, d1)
              | Inr _ \<Rightarrow>
                  (case sql_update (in_tree owner from) (move_tree to (length from + 1)) [] moved of
                     None \<Rightarrow> (Inl ErrConflict, d1)
                   | Some whole \<Rightarrow> (Inr (), d1\<lparr>files := whole\<rparr>))))"

definition DeleteFile :: "bytes \<Rightarrow> bytes \<Rightarrow> unit query" where
  "DeleteFile owner path d =
     (case ValidatePath path of Inl e \<Rightarrow> (Inl e, d) | Inr _ \<Rightarrow>
      let doomed = (\<lambda>r. at_key owner path r \<and> children d owner path = []);
          d1 = d\<lparr>files := filter (\<lambda>r. \<not> doomed r) (files d)\<rparr>
      in (CheckAffected (length (filter doomed (files d))) d1 owner path, d1))"

text \<open>Sums are 64-bit, but SQLite raises on overflow where Go would wrap.\<close>

definition sql_sum :: "int list \<Rightarrow> int result" where
  "sql_sum xs = (if is_int64 (sum_list xs) then Inr (sum_list xs) else Inl ErrOther)"

definition SubtreeSize :: "bytes \<Rightarrow> bytes \<Rightarrow> int query" where
  "SubtreeSize owner dir d =
     (case ValidateDir dir of Inl e \<Rightarrow> (Inl e, d) | Inr _ \<Rightarrow>
      case SubtreeRange dir of (from, to, whole) \<Rightarrow>
        (sql_sum (map f_size (filter (\<lambda>r. f_owner r = owner \<and> \<not> f_is_dir r
           \<and> (whole \<or> from \<le> f_path r \<and> f_path r < to)) (files d))), d))"

definition BlobKeys :: "bytes list query" where
  "BlobKeys d = (Inr (map f_blob (filter (\<lambda>r. \<not> f_is_dir r) (files d))), d)"

section \<open>The trash\<close>

text \<open>The \<open>id\<close> of the file is not a column of the trash, so a row reads back with none.\<close>

definition trash_row :: "bytes \<Rightarrow> int \<Rightarrow> db_file \<Rightarrow> trashed" where
  "trash_row batch at f =
     \<lparr>f_id = 0, f_owner = f_owner f, f_path = f_path f, f_blob = f_blob f, f_size = f_size f,
      f_mtime = truncate_time (f_mtime f), f_etag = f_etag f, f_mime = f_mime f, f_is_dir = f_is_dir f,
      t_batch = batch, t_deleted_at = truncate_time at\<rparr>"

text \<open>One of the inserts of \<open>Trash\<close>, which runs a statement per row.\<close>

definition InsertTrash :: "bytes \<Rightarrow> int \<Rightarrow> db_file \<Rightarrow> unit query" where
  "InsertTrash batch at f d = (Inr (), d\<lparr>trash := trash d @ [trash_row batch at f]\<rparr>)"

text \<open>A deletion summed up, and a page of them, newest first.\<close>

record trash_batch =
  b_id :: bytes
  b_root :: bytes
  b_files :: int
  b_bytes :: int
  b_deleted_at :: int

record trash_cursor =
  tc_deleted_at :: int
  tc_batch :: bytes

definition batch_of :: "trashed list \<Rightarrow> bytes \<Rightarrow> trash_batch" where
  "batch_of rows b =
     (let ts = filter (\<lambda>t. t_batch t = b) rows
      in \<lparr>b_id = b, b_root = Min (set (map f_path ts)),
          b_files = int (length (filter (\<lambda>t. \<not> f_is_dir t) ts)), b_bytes = sum_list (map f_size ts),
          b_deleted_at = Max (set (map t_deleted_at ts))\<rparr>)"

definition TrashBatches :: "bytes \<Rightarrow> trash_cursor \<Rightarrow> int \<Rightarrow> trash_batch list query" where
  "TrashBatches owner after limit d =
     (case ValidateLimit limit of Inl e \<Rightarrow> (Inl e, d) | Inr _ \<Rightarrow>
      let rows = filter (\<lambda>t. f_owner t = owner) (trash d);
          all = map (batch_of rows) (remdups (map t_batch rows));
          page = filter (\<lambda>b. tc_batch after = [] \<or>
                   (b_deleted_at b, b_id b) < (truncate_time (tc_deleted_at after), tc_batch after)) all
      in (Inr (take (nat limit) (rev (sort_key (\<lambda>b. (b_deleted_at b, b_id b)) page))), d))"

definition TrashedIn :: "bytes \<Rightarrow> bytes \<Rightarrow> trashed list query" where
  "TrashedIn owner batch d =
     (Inr (sort_key f_path (filter (\<lambda>t. f_owner t = owner \<and> t_batch t = batch) (trash d))), d)"

definition DeleteTrash :: "bytes \<Rightarrow> bytes \<Rightarrow> unit query" where
  "DeleteTrash owner batch d =
     (Inr (), d\<lparr>trash := filter (\<lambda>t. \<not> (f_owner t = owner \<and> t_batch t = batch)) (trash d)\<rparr>)"

definition TrashKeys :: "bytes list query" where
  "TrashKeys d = (Inr (map f_blob (filter (\<lambda>t. \<not> f_is_dir t) (trash d))), d)"

definition ExpiredTrash :: "int \<Rightarrow> trashed list query" where
  "ExpiredTrash before d =
     (Inr (sort_key t_deleted_at (filter (\<lambda>t. t_deleted_at t \<le> truncate_time before) (trash d))), d)"

definition TrashTotals :: "bytes \<Rightarrow> (int \<times> int) query" where
  "TrashTotals owner d =
     (let rows = filter (\<lambda>t. f_owner t = owner \<and> \<not> f_is_dir t) (trash d)
      in (case sql_sum (map f_size rows) of Inl e \<Rightarrow> Inl e | Inr s \<Rightarrow> Inr (int (length rows), s), d))"

section \<open>Uploads\<close>

definition PutUpload :: "upload \<Rightarrow> unit query" where
  "PutUpload u d =
     (case ValidatePath (u_path u) of Inl e \<Rightarrow> (Inl e, d) | Inr _ \<Rightarrow>
      (Inr (),
       if list_ex (\<lambda>x. u_id x = u_id u) (uploads d)
       then d\<lparr>uploads := map (\<lambda>x. if u_id x = u_id u
              then x\<lparr>u_received := u_received u, u_digest := u_digest u, u_expires := truncate_time (u_expires u)\<rparr>
              else x) (uploads d)\<rparr>
       else d\<lparr>uploads := uploads d @ [u\<lparr>u_expires := truncate_time (u_expires u)\<rparr>]\<rparr>))"

definition UploadByID :: "bytes \<Rightarrow> bytes \<Rightarrow> upload query" where
  "UploadByID owner uid d =
     (case find (\<lambda>u. u_id u = uid \<and> u_owner u = owner) (uploads d) of
        None \<Rightarrow> (Inl ErrNotFound, d)
      | Some u \<Rightarrow> (Inr u, d))"

definition DeleteUpload :: "bytes \<Rightarrow> bytes \<Rightarrow> unit query" where
  "DeleteUpload owner uid d =
     (Inr (), d\<lparr>uploads := filter (\<lambda>u. \<not> (u_id u = uid \<and> u_owner u = owner)) (uploads d)\<rparr>)"

definition ExpiredUploads :: "int \<Rightarrow> upload list query" where
  "ExpiredUploads now d =
     (Inr (sort_key u_expires (filter (\<lambda>u. u_expires u \<le> truncate_time now) (uploads d))), d)"

end
