(* ===== verification/FileTree.thy ===== *)
theory FileTree
  imports Sqlite
begin

text \<open>
  The \<open>files\<close> table as a tree: the invariant its rows satisfy (unique keys, derived parents,
  every parent a directory), what each statement does to the rows an owner can look up, and
  the repository contract of \<^verbatim>\<open>internal/db/db.go\<close> as a locale with SQLite as its
  interpretation.
\<close>

section \<open>The invariant\<close>

definition row_key_of :: "row \<Rightarrow> bytes \<times> bytes" where
  "row_key_of r = (f_owner r, f_path r)"

definition has_dir :: "row list \<Rightarrow> bytes \<Rightarrow> bytes \<Rightarrow> bool" where
  "has_dir fs owner p \<longleftrightarrow> list_ex (\<lambda>q. f_owner q = owner \<and> f_path q = p \<and> f_is_dir q) fs"

definition row_ok :: "row list \<Rightarrow> row \<Rightarrow> bool" where
  "row_ok fs r \<longleftrightarrow> valid_path (f_path r) \<and> parent_path r = ParentOf (f_path r)
     \<and> (parent_path r = [] \<or> has_dir fs (f_owner r) (parent_path r))"

definition rows_ok :: "row list \<Rightarrow> bool" where
  "rows_ok fs \<longleftrightarrow> distinct (map row_key_of fs) \<and> list_all (row_ok fs) fs"

definition ids_ok :: "database \<Rightarrow> bool" where
  "ids_ok d \<longleftrightarrow> distinct (map f_id (files d)) \<and> list_all (\<lambda>r. f_id r < next_id d) (files d)"

definition tree_ok :: "database \<Rightarrow> bool" where
  "tree_ok d \<longleftrightarrow> rows_ok (files d) \<and> ids_ok d"

definition parent_ok :: "database \<Rightarrow> bytes \<Rightarrow> bytes \<Rightarrow> bool" where
  "parent_ok d owner path \<longleftrightarrow> ParentOf path = [] \<or> has_dir (files d) owner (ParentOf path)"

text \<open>What an owner sees at a path.\<close>

definition view :: "database \<Rightarrow> bytes \<Rightarrow> bytes \<Rightarrow> db_file option" where
  "view d owner p = map_option scan_file (lookup_file d owner p)"

lemma has_dir_iff: "has_dir fs o' p \<longleftrightarrow> (\<exists>q\<in>set fs. f_owner q = o' \<and> f_path q = p \<and> f_is_dir q)"
  by (simp add: has_dir_def list_ex_iff)

lemma empty_tree_ok [simp]: "tree_ok empty_db"
  by (simp add: tree_ok_def rows_ok_def ids_ok_def empty_db_def)

lemma rows_okD:
  assumes "rows_ok fs" "r \<in> set fs"
  shows "valid_path (f_path r)" "parent_path r = ParentOf (f_path r)"
    "ParentOf (f_path r) \<noteq> [] \<Longrightarrow> has_dir fs (f_owner r) (ParentOf (f_path r))"
  using assms by (auto simp: rows_ok_def row_ok_def list_all_iff)

lemma rows_ok_unique:
  "rows_ok fs \<Longrightarrow> r \<in> set fs \<Longrightarrow> x \<in> set fs \<Longrightarrow> f_owner r = f_owner x \<Longrightarrow> f_path r = f_path x \<Longrightarrow> r = x"
  unfolding rows_ok_def using distinct_map_inj [of row_key_of fs r x] by (simp add: row_key_of_def)

lemma lookup_file_SomeD: "lookup_file d o' p = Some r \<Longrightarrow> r \<in> set (files d) \<and> f_owner r = o' \<and> f_path r = p"
  unfolding lookup_file_def by (auto simp: find_Some_iff at_key_def)

lemma lookup_file_None_iff: "lookup_file d o' p = None \<longleftrightarrow> (\<forall>r\<in>set (files d). \<not> at_key o' p r)"
  unfolding lookup_file_def by (auto simp: find_None_iff)

lemma lookup_file_Some_iff:
  "rows_ok (files d) \<Longrightarrow> lookup_file d o' p = Some r \<longleftrightarrow> r \<in> set (files d) \<and> at_key o' p r"
proof
  assume ok: "rows_ok (files d)" and r: "r \<in> set (files d) \<and> at_key o' p r"
  then obtain x where x: "lookup_file d o' p = Some x"
    using lookup_file_None_iff [of d o' p] by (cases "lookup_file d o' p") auto
  with r ok lookup_file_SomeD [OF x] show "lookup_file d o' p = Some r"
    using rows_ok_unique [OF ok, of r x] by (simp add: at_key_def)
qed (use lookup_file_SomeD in \<open>auto simp: at_key_def\<close>)

lemma view_Some_iff:
  "rows_ok (files d) \<Longrightarrow> view d o' p = Some f \<longleftrightarrow> (\<exists>r\<in>set (files d). at_key o' p r \<and> f = scan_file r)"
  by (auto simp: view_def lookup_file_Some_iff)

lemma view_None_iff: "view d o' p = None \<longleftrightarrow> (\<forall>r\<in>set (files d). \<not> at_key o' p r)"
  by (simp add: view_def lookup_file_None_iff)

text \<open>Every ancestor of a row is a directory of the same owner.\<close>

lemma ancestor_is_dir:
  assumes ok: "rows_ok fs"
  shows "r \<in> set fs \<Longrightarrow> under a (f_path r) \<Longrightarrow> a \<noteq> [] \<Longrightarrow> has_dir fs (f_owner r) a"
proof (induction "length (f_path r)" arbitrary: r rule: less_induct)
  case less
  let ?p = "ParentOf (f_path r)"
  from under_ParentOf [OF less.prems(2)] less.prems(3) have "?p \<noteq> []"
    by (auto simp: under_iff)
  with rows_okD(3) [OF ok less.prems(1)] obtain q where
    q: "q \<in> set fs" "f_owner q = f_owner r" "f_path q = ?p" "f_is_dir q"
    by (auto simp: has_dir_iff)
  from under_ParentOf [OF less.prems(2)] show ?case
  proof
    assume "?p = a"
    with q show ?thesis by (auto simp: has_dir_iff)
  next
    assume "under a ?p"
    moreover have "f_path r \<noteq> []"
      using rows_okD(1) [OF ok less.prems(1)] by (cases "f_path r = []") simp_all
    then have "length (f_path q) < length (f_path r)"
      using q(3) ParentOf_shorter [of "f_path r"] by simp
    ultimately show ?thesis using less.hyps [of q] q less.prems(3) by simp
  qed
qed

lemma lookup_under_absent:
  assumes "rows_ok fs" "\<not> has_dir fs o' a" "a \<noteq> []" "r \<in> set fs" "f_owner r = o'"
  shows "\<not> under a (f_path r)"
  using ancestor_is_dir [OF assms(1,4)] assms by auto

section \<open>Adding and rewriting one row\<close>

lemma rows_ok_snoc:
  assumes ok: "rows_ok fs" and fresh: "\<forall>x\<in>set fs. row_key_of x \<noteq> row_key_of r"
    and r: "row_ok (fs @ [r]) r"
  shows "rows_ok (fs @ [r])"
proof -
  have "row_ok (fs @ [r]) x" if "x \<in> set fs" for x
    using ok that by (auto simp: rows_ok_def row_ok_def list_all_iff has_dir_iff)
  with assms show ?thesis by (auto simp: rows_ok_def list_all_iff)
qed

lemma rows_ok_map_same:
  assumes ok: "rows_ok fs"
    and same: "\<And>r. r \<in> set fs \<Longrightarrow> f_owner (g r) = f_owner r \<and> f_path (g r) = f_path r
      \<and> parent_path (g r) = parent_path r \<and> f_is_dir (g r) = f_is_dir r"
  shows "rows_ok (map g fs)"
proof -
  have "map row_key_of (map g fs) = map row_key_of fs"
    using same by (simp add: row_key_of_def)
  moreover have "has_dir (map g fs) = has_dir fs"
    using same by (fastforce simp: has_dir_iff fun_eq_iff)
  ultimately show ?thesis
    using ok same unfolding rows_ok_def row_ok_def list_all_iff by (simp only: set_map) auto
qed

lemma rows_ok_filter:
  assumes ok: "rows_ok fs"
    and closed: "\<And>r x. r \<in> set fs \<Longrightarrow> \<not> P r \<Longrightarrow> x \<in> set fs \<Longrightarrow> P x \<Longrightarrow>
      \<not> (f_owner x = f_owner r \<and> parent_path x = f_path r)"
  shows "rows_ok (filter P fs)"
proof -
  have "row_ok (filter P fs) x" if x: "x \<in> set fs" "P x" for x
  proof (cases "parent_path x = []")
    case True
    with rows_okD [OF ok x(1)] show ?thesis by (simp add: row_ok_def)
  next
    case False
    with rows_okD [OF ok x(1)] obtain q where
      q: "q \<in> set fs" "f_owner q = f_owner x" "f_path q = parent_path x" "f_is_dir q"
      by (auto simp: has_dir_iff)
    with closed [of q x] x have "P q" by auto
    with q rows_okD [OF ok x(1)] show ?thesis by (auto simp: row_ok_def has_dir_iff)
  qed
  with ok show ?thesis by (auto simp: rows_ok_def list_all_iff distinct_map_filter)
qed

section \<open>PutFile, CreateDir, DeleteFile\<close>

lemma has_dir_append: "has_dir (fs @ [r]) o' p \<longleftrightarrow> has_dir fs o' p \<or> (f_owner r = o' \<and> f_path r = p \<and> f_is_dir r)"
  by (simp add: has_dir_def)

lemma add_row_tree_ok:
  assumes ok: "tree_ok d" and none: "lookup_file d (f_owner r) (f_path r) = None"
    and r: "valid_path (f_path r)" "parent_path r = ParentOf (f_path r)" "f_id r = next_id d"
    and par: "parent_ok d (f_owner r) (f_path r)"
  shows "tree_ok (d\<lparr>files := files d @ [r], next_id := next_id d + 1\<rparr>)"
proof -
  have "\<forall>x\<in>set (files d). row_key_of x \<noteq> row_key_of r"
    using none by (auto simp: lookup_file_None_iff at_key_def row_key_of_def)
  moreover have "row_ok (files d @ [r]) r"
    using r par by (auto simp: row_ok_def parent_ok_def has_dir_append)
  ultimately have "rows_ok (files d @ [r])"
    using ok rows_ok_snoc by (simp add: tree_ok_def)
  moreover have "ids_ok (d\<lparr>files := files d @ [r], next_id := next_id d + 1\<rparr>)"
    using ok r(3) by (auto simp: tree_ok_def ids_ok_def list_all_iff)
  ultimately show ?thesis by (simp add: tree_ok_def)
qed

lemma new_row_simps [simp]:
  "f_id (new_row f b) = f_id f" "f_owner (new_row f b) = f_owner f" "f_path (new_row f b) = f_path f"
  "f_blob (new_row f b) = f_blob f" "f_is_dir (new_row f b) = b" "f_size (new_row f b) = f_size f"
  "f_etag (new_row f b) = f_etag f" "f_mime (new_row f b) = f_mime f"
  "f_mtime (new_row f b) = truncate_time (f_mtime f)"
  "parent_path (new_row f b) = ParentOf (f_path f)"
  by (simp_all add: new_row_def)

lemma ValidatePath_Inr: "ValidatePath p = Inr u \<longleftrightarrow> valid_path p"
  by (simp add: valid_path_def)

lemma PutFile_tree_ok:
  assumes ok: "tree_ok d" and par: "parent_ok d (f_owner f) (f_path f)"
  shows "tree_ok (snd (PutFile f d))"
proof (cases "valid_path (f_path f)")
  case True
  show ?thesis
  proof (cases "lookup_file d (f_owner f) (f_path f)")
    case None
    with True show ?thesis
      using add_row_tree_ok [OF ok, of "new_row ((Normalize f)\<lparr>f_id := next_id d\<rparr>) False"] par
      by (simp add: PutFile_def Let_def ValidatePath_cases)
  next
    case (Some r)
    have "rows_ok (map (\<lambda>x. if at_key (f_owner f) (f_path f) x then x\<lparr>f_blob := b, f_size := s,
        f_mtime := t, f_etag := e, f_mime := m\<rparr> else x) (files d))" for b s t e m
      by (rule rows_ok_map_same) (use ok in \<open>auto simp: tree_ok_def\<close>)
    with True Some ok show ?thesis
      by (auto simp: PutFile_def Let_def ValidatePath_cases tree_ok_def ids_ok_def list_all_iff
          comp_def if_distrib cong: if_cong)
  qed
qed (use ok in \<open>simp add: PutFile_def ValidatePath_cases\<close>)

lemma CreateDir_tree_ok:
  assumes ok: "tree_ok d" and par: "parent_ok d owner path"
  shows "tree_ok (snd (CreateDir owner path now d))"
  using add_row_tree_ok [OF ok, of "new_row ((Normalize (no_file\<lparr>f_owner := owner, f_path := path,
    f_mtime := now, f_is_dir := True\<rparr>))\<lparr>f_id := next_id d\<rparr>) True"] ok par
  by (auto simp: CreateDir_def Let_def ValidatePath_cases split: option.splits)

lemma children_Nil_iff:
  "children d owner dir = [] \<longleftrightarrow> (\<forall>r\<in>set (files d). f_owner r = owner \<longrightarrow> parent_path r \<noteq> dir)"
  by (auto simp: children_def filter_empty_conv)

lemma ids_ok_filter: "ids_ok d \<Longrightarrow> ids_ok (d\<lparr>files := filter P (files d)\<rparr>)"
  by (auto simp: ids_ok_def list_all_iff distinct_map_filter)

lemma DeleteFile_tree_ok:
  assumes ok: "tree_ok d"
  shows "tree_ok (snd (DeleteFile owner path d))"
proof -
  have "rows_ok (filter (\<lambda>r. \<not> (at_key owner path r \<and> children d owner path = [])) (files d))"
    by (rule rows_ok_filter) (use ok in \<open>auto simp: tree_ok_def children_Nil_iff at_key_def\<close>)
  with ok show ?thesis
    by (auto simp: DeleteFile_def Let_def ValidatePath_cases tree_ok_def intro: ids_ok_filter)
qed

end
