(* ===== verification/FileMove.thy ===== *)
theory FileMove
  imports FileTree
begin

text \<open>
  \<open>MoveFile\<close> against its contract: the row and everything beneath it change their path and
  nothing else does.  The statement is faithful on the names its two SQL functions treat as
  bytes; the theory says which those are and shows what it does to the others.
\<close>

section \<open>An UPDATE that meets no key\<close>

lemma sql_update_ok:
  assumes "\<forall>r\<in>set rs. sel r \<longrightarrow> (\<forall>x\<in>set done \<union> set rs. \<not> same_key (g r) x)"
    and "distinct (map (\<lambda>r. row_key_of (g r)) (filter sel rs))"
  shows "sql_update sel g done rs = Some (done @ map (\<lambda>r. if sel r then g r else r) rs)"
  using assms
proof (induction rs arbitrary: "done")
  case (Cons r rs)
  show ?case
  proof (cases "sel r")
    case True
    have "\<not> list_ex (same_key (g r)) (done @ rs)"
      using Cons.prems(1) True by (auto simp: list_ex_iff)
    moreover have "\<forall>x\<in>set rs. sel x \<longrightarrow> \<not> same_key (g x) (g r)"
      using Cons.prems(2) True by (force simp: same_key_def row_key_of_def)
    then have "sql_update sel g (done @ [g r]) rs = Some ((done @ [g r]) @ map (\<lambda>r. if sel r then g r else r) rs)"
      using Cons.prems True by (intro Cons.IH) auto
    ultimately show ?thesis using True by simp
  next
    case False
    then have "sql_update sel g (done @ [r]) rs = Some ((done @ [r]) @ map (\<lambda>r. if sel r then g r else r) rs)"
      using Cons.prems by (intro Cons.IH) auto
    with False show ?thesis by simp
  qed
qed simp

lemma sql_update_unselected:
  "\<forall>r\<in>set rs. \<not> sel r \<Longrightarrow> sql_update sel g done rs = Some (done @ rs)"
  by (induction rs arbitrary: "done") auto

lemma sql_update_conflict:
  assumes "x \<in> set done \<union> set rs" "r \<in> set rs" "sel r" "same_key (g r) x" "\<not> sel x"
  shows "sql_update sel g done rs = None"
  using assms
proof (induction rs arbitrary: "done")
  case (Cons y rs)
  show ?case
  proof (cases "y = r")
    case True
    with Cons.prems have "x \<in> set done \<union> set rs" by auto
    with True Cons.prems show ?thesis by (auto simp: list_ex_iff)
  next
    case False
    show ?thesis
    proof (cases "x = y")
      case True
      with False Cons.prems Cons.IH [of "done @ [y]"] show ?thesis by simp
    next
      case ne: False
      with False Cons.prems Cons.IH [of "done @ [g y]"] Cons.IH [of "done @ [y]"] show ?thesis by auto
    qed
  qed
qed simp

section \<open>The abstract move\<close>

definition rebase :: "bytes \<Rightarrow> bytes \<Rightarrow> bytes \<Rightarrow> bytes" where
  "rebase from to p = to @ drop (length from) p"

definition rename_row :: "bytes \<Rightarrow> bytes \<Rightarrow> bytes \<Rightarrow> row \<Rightarrow> row" where
  "rename_row owner from to r =
     (if f_owner r = owner \<and> f_path r = from
      then r\<lparr>f_path := to, parent_path := ParentOf to\<rparr>
      else if f_owner r = owner \<and> under from (f_path r)
      then r\<lparr>f_path := rebase from to (f_path r), parent_path := rebase from to (parent_path r)\<rparr>
      else r)"

definition moved_view :: "(bytes \<Rightarrow> db_file option) \<Rightarrow> bytes \<Rightarrow> bytes \<Rightarrow> bytes \<Rightarrow> db_file option" where
  "moved_view v from to p =
     (if p = to \<or> under to p then map_option (\<lambda>f. f\<lparr>f_path := p\<rparr>) (v (rebase to from p))
      else if p = from \<or> under from p then None
      else v p)"

text \<open>
  When the statement is faithful: the pattern selects the subtree and nothing else, the prefix
  counts as many characters as bytes, and no path outgrows the limit.
\<close>

definition like_exact :: "database \<Rightarrow> bytes \<Rightarrow> bytes \<Rightarrow> bytes \<Rightarrow> bool" where
  "like_exact d owner from to \<longleftrightarrow>
     \<not> sql_like (Under from) to
     \<and> list_all (\<lambda>r. f_owner r = owner \<and> sql_like (Under from) (f_path r) \<longrightarrow> under from (f_path r)) (files d)"

definition move_fits :: "database \<Rightarrow> bytes \<Rightarrow> bytes \<Rightarrow> bytes \<Rightarrow> bool" where
  "move_fits d owner from to \<longleftrightarrow>
     list_all (\<lambda>r. f_owner r = owner \<and> under from (f_path r)
       \<longrightarrow> length (rebase from to (f_path r)) \<le> MaxPathLen) (files d)"

lemma rebase_under: "under from p \<Longrightarrow> under to (rebase from to p)"
  by (auto simp: under_iff rebase_def)

lemma rebase_self [simp]: "rebase from to from = to"
  by (simp add: rebase_def)

lemma rebase_back: "p = from \<or> under from p \<Longrightarrow> rebase to from (rebase from to p) = p"
  by (auto simp: under_iff rebase_def)

lemma ParentOf_rebase': "under from p \<Longrightarrow> ParentOf (rebase from to p) = rebase from to (ParentOf p)"
  by (simp add: rebase_def ParentOf_rebase)

lemma valid_path_rebase:
  assumes "valid_path to" "valid_path p" "under from p" "length (rebase from to p) \<le> MaxPathLen"
  shows "valid_path (rebase from to p)"
proof -
  from assms(3) obtain t where p: "p = from @ slash # t" by (auto simp: under_iff)
  with assms have len: "length (to @ slash # t) \<le> MaxPathLen" by (simp add: rebase_def)
  show ?thesis
    using assms(1,2) p len valid_utf8_ascii_iff [of slash "from" t] valid_utf8_ascii_iff [of slash to t]
    by (auto simp: valid_path_iff split_on_append rebase_def byte_def)
qed

lemma rename_row_simps [simp]:
  "f_owner (rename_row owner from to r) = f_owner r" "f_id (rename_row owner from to r) = f_id r"
  "f_is_dir (rename_row owner from to r) = f_is_dir r" "f_blob (rename_row owner from to r) = f_blob r"
  by (simp_all add: rename_row_def)

lemma rename_row_path:
  "f_path (rename_row owner from to r) =
     (if f_owner r = owner \<and> (f_path r = from \<or> under from (f_path r)) then rebase from to (f_path r)
      else f_path r)"
  by (auto simp: rename_row_def)

lemma rename_row_parent:
  "parent_path r = ParentOf (f_path r) \<Longrightarrow>
   parent_path (rename_row owner from to r) = ParentOf (f_path (rename_row owner from to r))"
  by (auto simp: rename_row_def ParentOf_rebase')

lemma scan_rename_row: "scan_file (rename_row owner from to r) = (scan_file r)\<lparr>f_path := f_path (rename_row owner from to r)\<rparr>"
  by (auto simp: rename_row_def scan_file_def db_file.truncate_def)

section \<open>The statement is the abstract move\<close>

lemma free_subtree:
  assumes "rows_ok (files d)" "lookup_file d owner to = None" "to \<noteq> []" "r \<in> set (files d)"
    "f_owner r = owner"
  shows "f_path r \<noteq> to \<and> \<not> under to (f_path r)"
proof -
  have "\<not> has_dir (files d) owner to"
    using assms(2) by (auto simp: lookup_file_None_iff has_dir_iff at_key_def)
  with lookup_under_absent [OF assms(1) _ assms(3-5)] assms(2,4,5) show ?thesis
    by (auto simp: lookup_file_None_iff at_key_def)
qed

lemma rename_keys_distinct:
  assumes ok: "rows_ok (files d)" and free: "lookup_file d owner to = None" and to: "to \<noteq> []"
  shows "distinct (map row_key_of (map (rename_row owner from to) (files d)))"
proof -
  have "inj_on (\<lambda>r. row_key_of (rename_row owner from to r)) (set (files d))"
  proof (rule inj_onI)
    fix r x assume r: "r \<in> set (files d)" and x: "x \<in> set (files d)"
      and eq: "row_key_of (rename_row owner from to r) = row_key_of (rename_row owner from to x)"
    have out: "f_path y \<noteq> rebase from to p"
      if "y \<in> set (files d)" "f_owner y = owner" "p = from \<or> under from p" for y p
      using free_subtree [OF ok free to that(1,2)] rebase_under that(3) by auto
    from eq have o': "f_owner r = f_owner x" and
      p: "f_path (rename_row owner from to r) = f_path (rename_row owner from to x)"
      by (simp_all add: row_key_of_def)
    let ?in = "\<lambda>y. f_owner y = owner \<and> (f_path y = from \<or> under from (f_path y))"
    have "f_path r = f_path x"
    proof (cases "?in r")
      case True
      then have "?in x" using p o' out [OF x, of "f_path r"] by (auto simp: rename_row_path split: if_splits)
      with True p have "rebase from to (f_path r) = rebase from to (f_path x)" by (simp add: rename_row_path)
      then show ?thesis using True \<open>?in x\<close> rebase_back by metis
    next
      case False
      then have "\<not> ?in x" using p o' out [OF r, of "f_path x"] by (auto simp: rename_row_path split: if_splits)
      with False p show ?thesis by (auto simp: rename_row_path)
    qed
    with o' rows_ok_unique [OF ok r x] show "r = x" by simp
  qed
  moreover have "distinct (files d)" using ok by (auto simp: rows_ok_def distinct_map)
  ultimately show ?thesis by (simp add: distinct_map comp_def)
qed

lemma move_tree_rename:
  assumes "ascii from" "under from (f_path x)" "parent_path x = ParentOf (f_path x)" "f_owner x = owner"
  shows "move_tree to (length from + 1) x = rename_row owner from to x"
proof -
  have cut: "sql_substr p (Suc (length from)) = drop (length from) p" if "p = from \<or> under from p" for p
    using that assms(1) sql_substr_ascii [of "from"] sql_substr_ascii [of "from" "[]"] by (auto simp: under_iff)
  have "f_path x \<noteq> from" using assms(2) by auto
  moreover have "sql_substr (f_path x) (Suc (length from)) = drop (length from) (f_path x)"
    "sql_substr (parent_path x) (Suc (length from)) = drop (length from) (parent_path x)"
    using assms(2,3) under_ParentOf [OF assms(2)] cut [of "f_path x"] cut [of "parent_path x"] by simp_all
  ultimately show ?thesis
    using assms(2,4) by (simp add: move_tree_def rename_row_def rebase_def)
qed

lemma distinct_map_selected:
  assumes "distinct (map k xs)" "\<And>x. x \<in> set xs \<Longrightarrow> P (g x) \<Longrightarrow> f (g x) = k x"
  shows "distinct (map f (filter P (map g xs)))"
proof -
  have "map f (filter P (map g xs)) = map k (filter (\<lambda>x. P (g x)) xs)"
    using assms(2) by (auto simp: filter_map comp_def)
  with assms(1) show ?thesis by (simp add: distinct_map_filter)
qed

theorem MoveFile_eq_rename:
  assumes ok: "tree_ok d" and vm: "ValidateMove from to = Inr ()"
    and src: "lookup_file d owner from = Some r" and dst: "lookup_file d owner to = None"
    and asc: "ascii from" and like: "like_exact d owner from to"
  shows "MoveFile owner from to d = (Inr (), d\<lparr>files := map (rename_row owner from to) (files d)\<rparr>)"
proof -
  let ?fs = "files d"
  let ?m = "map (\<lambda>x. if at_key owner from x then move_one to x else x) ?fs"
  from ok have rows: "rows_ok ?fs" by (simp add: tree_ok_def)
  from vm have v: "valid_path to" "from \<noteq> to" "\<not> under from to"
    by (auto simp: ValidateMove_def ValidatePath_cases under_def split: if_splits)
  then have to_ne: "to \<noteq> []" by auto
  note free = free_subtree [OF rows dst to_ne]
  from src rows have r: "r \<in> set ?fs" "at_key owner from r" by (auto simp: lookup_file_Some_iff)
  have keys: "distinct (map row_key_of (map (rename_row owner from to) ?fs))"
    by (rule rename_keys_distinct [OF rows dst to_ne])
  then have keys': "distinct (map (\<lambda>x. row_key_of (rename_row owner from to x)) ?fs)"
    by (simp add: comp_def)
  have one: "sql_update (at_key owner from) (move_one to) [] ?fs = Some ?m"
  proof -
    have "distinct (map (\<lambda>x. row_key_of (move_one to x)) (filter (at_key owner from) (map id ?fs)))"
      by (rule distinct_map_selected [OF keys'])
        (simp add: at_key_def move_one_def rename_row_def row_key_of_def)
    then show ?thesis
      using free by (subst sql_update_ok) (auto simp: at_key_def same_key_def move_one_def)
  qed
  have sel: "in_tree owner from x \<longleftrightarrow> f_owner x = owner \<and> under from (f_path x)" if "x \<in> set ?m" for x
    using that like v under_sql_like by (auto simp: in_tree_def like_exact_def list_all_iff move_one_def at_key_def)
  have tree: "sql_update (in_tree owner from) (move_tree to (length from + 1)) [] ?m
      = Some (map (rename_row owner from to) ?fs)"
  proof -
    have ren: "move_tree to (length from + 1) x = rename_row owner from to x"
      if "x \<in> set ?fs" "f_owner x = owner" "under from (f_path x)" for x
      using move_tree_rename [OF asc that(3) rows_okD(2) [OF rows that(1)] that(2)] .
    have pick: "(if at_key owner from x then move_one to x else x) = x \<and> x \<in> set ?fs
        \<and> f_owner x = owner \<and> under from (f_path x)"
      if "x \<in> set ?fs" "in_tree owner from (if at_key owner from x then move_one to x else x)" for x
      using that sel [of "if at_key owner from x then move_one to x else x"] v
      by (auto simp: move_one_def at_key_def split: if_splits)
    have "distinct (map (\<lambda>x. row_key_of (move_tree to (length from + 1) x)) (filter (in_tree owner from) ?m))"
    proof (rule distinct_map_selected [OF keys'])
      fix x assume x: "x \<in> set ?fs" "in_tree owner from (if at_key owner from x then move_one to x else x)"
      from pick [OF x] ren [of x] show "row_key_of (move_tree to (length from + 1)
        (if at_key owner from x then move_one to x else x)) = row_key_of (rename_row owner from to x)" by simp
    qed
    moreover have "\<not> same_key (move_tree to (length from + 1) x) y"
      if x: "x \<in> set ?m" "in_tree owner from x" and y: "y \<in> set ?m" for x y
    proof -
      from x(1) obtain z where z: "z \<in> set ?fs" "x = (if at_key owner from z then move_one to z else z)"
        by auto
      from pick [OF z(1)] x(2) z have x': "x \<in> set ?fs" "f_owner x = owner" "under from (f_path x)" by simp_all
      then have "under to (f_path (rename_row owner from to x))"
        by (simp add: rename_row_path rebase_under)
      moreover from y have "y \<in> set ?fs \<or> f_path y = to" by (auto simp: move_one_def)
      then have "f_owner y = owner \<longrightarrow> \<not> under to (f_path y)" using free by auto
      ultimately show ?thesis using ren [OF x'] x' by (auto simp: same_key_def)
    qed
    ultimately have "sql_update (in_tree owner from) (move_tree to (length from + 1)) [] ?m
      = Some ([] @ map (\<lambda>x. if in_tree owner from x then move_tree to (length from + 1) x else x) ?m)"
      by (intro sql_update_ok) auto
    also have "map (\<lambda>x. if in_tree owner from x then move_tree to (length from + 1) x else x) ?m
      = map (rename_row owner from to) ?fs"
    proof -
      have "(if in_tree owner from y then move_tree to (length from + 1) y else y) = rename_row owner from to x"
        if x: "x \<in> set ?fs" and y: "y = (if at_key owner from x then move_one to x else x)" for x y
      proof (cases "in_tree owner from y")
        case True
        with pick [OF x] ren [of x] y show ?thesis by simp
      next
        case False
        with x y sel [of y] show ?thesis
          by (auto simp: rename_row_def move_one_def at_key_def split: if_splits)
      qed
      then show ?thesis by simp
    qed
    finally show ?thesis by simp
  qed
  have "0 < length (filter (at_key owner from) ?fs)"
    using r by (auto simp: filter_empty_conv)
  with vm one tree show ?thesis by (simp add: MoveFile_def CheckAffected_def Let_def)
qed

section \<open>What the move does to the tree\<close>

lemma rename_tree_ok:
  assumes ok: "tree_ok d" and v: "valid_path to" "\<not> under from to" "from \<noteq> to"
    and dst: "lookup_file d owner to = None" and par: "parent_ok d owner to"
    and fits: "move_fits d owner from to"
  shows "tree_ok (d\<lparr>files := map (rename_row owner from to) (files d)\<rparr>)"
proof -
  let ?fs = "files d" and ?ren = "rename_row owner from to"
  from ok have rows: "rows_ok ?fs" and ids: "ids_ok d" by (simp_all add: tree_ok_def)
  from v have to_ne: "to \<noteq> []" by auto
  have dir: "has_dir (map ?ren ?fs) o' (if o' = owner \<and> (p = from \<or> under from p) then rebase from to p else p)"
    if "has_dir ?fs o' p" for o' p
    using that by (force simp: has_dir_iff rename_row_path)
  have "row_ok (map ?ren ?fs) (?ren r)" if r: "r \<in> set ?fs" for r
  proof -
    note rD = rows_okD [OF rows r]
    have "valid_path (f_path (?ren r))"
      using rD(1) v r fits valid_path_rebase [of to "f_path r" "from"]
      by (auto simp: rename_row_path move_fits_def list_all_iff)
    moreover have "ParentOf (f_path (?ren r)) = [] \<or> has_dir (map ?ren ?fs) (f_owner r) (ParentOf (f_path (?ren r)))"
    proof (cases "f_owner r = owner \<and> f_path r = from")
      case True
      then have "f_path (?ren r) = to" by (simp add: rename_row_path)
      moreover have "ParentOf to = [] \<or> ParentOf to \<noteq> from \<and> \<not> under from (ParentOf to)"
        using v ParentOf_under [of to] under_trans by blast
      ultimately show ?thesis
        using par True dir [of owner "ParentOf to"] by (auto simp: parent_ok_def)
    next
      case ne: False
      show ?thesis
      proof (cases "f_owner r = owner \<and> under from (f_path r)")
        case True
        then have eq: "ParentOf (f_path (?ren r)) = rebase from to (ParentOf (f_path r))"
          by (simp add: rename_row_path ParentOf_rebase')
        from True have "from \<noteq> [] \<or> has_prefix (f_path r) ''/''" by (auto simp: under_def)
        with rD(1) have "from \<noteq> []"
          by (auto simp: valid_path_def ValidatePath_def split: if_splits)
        with True under_ParentOf [of "from" "f_path r"] have "ParentOf (f_path r) \<noteq> []" by (auto simp: under_iff)
        with rD(3) True eq under_ParentOf [of "from" "f_path r"] dir [of owner "ParentOf (f_path r)"]
        show ?thesis by auto
      next
        case False
        with ne have eq: "f_path (?ren r) = f_path r" by (auto simp: rename_row_path)
        from ne False have "\<not> (f_owner r = owner \<and> (ParentOf (f_path r) = from \<or> under from (ParentOf (f_path r))))"
          if "ParentOf (f_path r) \<noteq> []"
          using that ParentOf_under [of "f_path r"] under_trans by blast
        with eq rD(3) dir [of "f_owner r" "ParentOf (f_path r)"] show ?thesis
          by (cases "ParentOf (f_path r) = []") (simp_all split: if_splits)
      qed
    qed
    ultimately show ?thesis using rename_row_parent [OF rD(2)] by (simp add: row_ok_def)
  qed
  with rename_keys_distinct [OF rows dst to_ne] have "rows_ok (map ?ren ?fs)"
    by (simp add: rows_ok_def list_all_iff)
  with ids show ?thesis by (simp add: tree_ok_def ids_ok_def list_all_iff comp_def)
qed

lemma rename_row_path_iff:
  assumes "f_owner r = owner" "f_path r \<noteq> to \<and> \<not> under to (f_path r)"
  shows "f_path (rename_row owner from to r) = p \<longleftrightarrow>
    (if p = to \<or> under to p then f_path r = rebase to from p
     else \<not> (p = from \<or> under from p) \<and> f_path r = p)"
proof (cases "f_path r = from \<or> under from (f_path r)")
  case True
  then have "f_path (rename_row owner from to r) = p \<longleftrightarrow> rebase from to (f_path r) = p"
    using assms by (simp add: rename_row_path)
  also have "\<dots> \<longleftrightarrow> (p = to \<or> under to p) \<and> f_path r = rebase to from p"
    using True rebase_back [of "f_path r" "from" to] rebase_back [of p to "from"] rebase_under [of "from" "f_path r" to]
    by auto
  finally show ?thesis using True by auto
next
  case False
  then have "f_path (rename_row owner from to r) = p \<longleftrightarrow> f_path r = p"
    by (simp add: rename_row_path)
  moreover have "p = to \<or> under to p \<Longrightarrow> f_path r \<noteq> rebase to from p"
    using False rebase_under [of to p "from"] by auto
  ultimately show ?thesis using assms False by auto
qed

lemma scan_same_path: "(scan_file r)\<lparr>f_path := f_path r\<rparr> = scan_file r"
  by (simp add: scan_file_def db_file.truncate_def)

lemma rename_view:
  assumes ok: "rows_ok (files d)" and ok': "rows_ok (map (rename_row owner from to) (files d))"
    and v: "\<not> under from to" "from \<noteq> to" "to \<noteq> []" and dst: "lookup_file d owner to = None"
  shows "view (d\<lparr>files := map (rename_row owner from to) (files d)\<rparr>) o' p =
    (if o' = owner then moved_view (view d owner) from to p else view d o' p)"
proof -
  let ?d = "d\<lparr>files := map (rename_row owner from to) (files d)\<rparr>"
  have ok2: "rows_ok (files ?d)" using ok' by simp
  note free = free_subtree [OF ok dst v(3)]
  have "view ?d o' p = Some f \<longleftrightarrow>
      (if o' = owner then moved_view (view d owner) from to p else view d o' p) = Some f" for f
  proof -
    have "view ?d o' p = Some f \<longleftrightarrow> (\<exists>r\<in>set (files d). f_owner r = o'
        \<and> f_path (rename_row owner from to r) = p \<and> f = (scan_file r)\<lparr>f_path := p\<rparr>)"
      unfolding view_Some_iff [OF ok2] by (auto simp: at_key_def scan_rename_row)
    also have "\<dots> \<longleftrightarrow> (if o' = owner then moved_view (view d owner) from to p else view d o' p) = Some f"
    proof (cases "o' = owner")
      case True
      have "(\<exists>r\<in>set (files d). f_owner r = o' \<and> f_path (rename_row owner from to r) = p \<and> f = (scan_file r)\<lparr>f_path := p\<rparr>)
        \<longleftrightarrow> (\<exists>r\<in>set (files d). f_owner r = owner \<and> (if p = to \<or> under to p then f_path r = rebase to from p
            else \<not> (p = from \<or> under from p) \<and> f_path r = p) \<and> f = (scan_file r)\<lparr>f_path := p\<rparr>)"
        using True by (intro bex_cong [OF refl]) (use rename_row_path_iff free in blast)
      moreover have "(if o' = owner then moved_view (view d owner) from to p else view d o' p) = Some f \<longleftrightarrow>
        (\<exists>r\<in>set (files d). f_owner r = owner \<and> (if p = to \<or> under to p then f_path r = rebase to from p
            else \<not> (p = from \<or> under from p) \<and> f_path r = p) \<and> f = (scan_file r)\<lparr>f_path := p\<rparr>)"
      proof (cases "p = to \<or> under to p")
        case True
        then have "moved_view (view d owner) from to p = Some f \<longleftrightarrow>
          (\<exists>g. view d owner (rebase to from p) = Some g \<and> f = g\<lparr>f_path := p\<rparr>)"
          by (auto simp: moved_view_def)
        with \<open>o' = owner\<close> True show ?thesis
          unfolding view_Some_iff [OF ok] at_key_def by auto
      next
        case False
        with \<open>o' = owner\<close> show ?thesis
          by (cases "p = from \<or> under from p")
            (auto simp: moved_view_def view_Some_iff [OF ok] at_key_def scan_same_path)
      qed
      ultimately show ?thesis by blast
    next
      case False
      then have still: "f_path (rename_row owner from to r) = f_path r" if "f_owner r = o'" for r
        using that by (simp add: rename_row_path)
      have "(\<exists>r\<in>set (files d). f_owner r = o' \<and> f_path (rename_row owner from to r) = p \<and> f = (scan_file r)\<lparr>f_path := p\<rparr>)
        \<longleftrightarrow> (\<exists>r\<in>set (files d). at_key o' p r \<and> f = scan_file r)"
        by (intro bex_cong [OF refl]) (use still scan_same_path in \<open>auto simp: at_key_def\<close>)
      with False show ?thesis by (simp add: view_Some_iff [OF ok])
    qed
    finally show ?thesis .
  qed
  then show ?thesis by (metis option.exhaust)
qed

section \<open>Where it stops\<close>

lemma MoveFile_occupied:
  assumes vm: "ValidateMove from to = Inr ()"
    and src: "lookup_file d owner from = Some r" and dst: "lookup_file d owner to = Some x"
  shows "MoveFile owner from to d = (Inl ErrConflict, d)"
proof -
  from vm have "from \<noteq> to" by (auto simp: ValidateMove_def split: sum.splits if_splits)
  then have "sql_update (at_key owner from) (move_one to) [] (files d) = None"
    using lookup_file_SomeD [OF src] lookup_file_SomeD [OF dst]
    by (intro sql_update_conflict [of x _ _ r]) (auto simp: at_key_def same_key_def move_one_def)
  with vm show ?thesis by (simp add: MoveFile_def)
qed

lemma MoveFile_missing:
  assumes vm: "ValidateMove from to = Inr ()" and src: "lookup_file d owner from = None"
  shows "MoveFile owner from to d = (Inl ErrNotFound, d)"
proof -
  from src have none: "\<forall>r\<in>set (files d). \<not> at_key owner from r"
    by (simp add: lookup_file_None_iff)
  then have "filter (at_key owner from) (files d) = []" by (simp add: filter_empty_conv)
  with vm src sql_update_unselected [OF none] show ?thesis
    by (simp add: MoveFile_def CheckAffected_def Let_def)
qed

lemma MoveFile_moves:
  assumes ok: "tree_ok d" and vm: "ValidateMove from to = Inr ()"
    and src: "view d owner from \<noteq> None" and dst: "view d owner to = None"
    and par: "parent_ok d owner to"
    and asc: "ascii from" and like: "like_exact d owner from to" and fits: "move_fits d owner from to"
  obtains d' where "MoveFile owner from to d = (Inr (), d')" "tree_ok d'"
    "\<And>o' p. view d' o' p = (if o' = owner then moved_view (view d owner) from to p else view d o' p)"
    "trash d' = trash d" "uploads d' = uploads d" "map f_blob (files d') = map f_blob (files d)"
proof -
  from src dst obtain r where r: "lookup_file d owner from = Some r" and none: "lookup_file d owner to = None"
    by (auto simp: view_def)
  from vm have v: "valid_path to" "\<not> under from to" "from \<noteq> to"
    by (auto simp: ValidateMove_def ValidatePath_cases under_def split: if_splits)
  let ?d = "d\<lparr>files := map (rename_row owner from to) (files d)\<rparr>"
  have ok': "tree_ok ?d" by (rule rename_tree_ok [OF ok v none par fits])
  have "view ?d o' p = (if o' = owner then moved_view (view d owner) from to p else view d o' p)" for o' p
    using ok ok' v none by (intro rename_view) (auto simp: tree_ok_def)
  with MoveFile_eq_rename [OF ok vm r none asc like] ok' show ?thesis
    by (intro that [of ?d]) (simp_all add: comp_def)
qed

section \<open>Examples\<close>

definition dir_at :: "int \<Rightarrow> bytes \<Rightarrow> row" where
  "dir_at i p = new_row (no_file\<lparr>f_id := i, f_owner := ''u'', f_path := p, f_is_dir := True\<rparr>) True"

definition file_at :: "int \<Rightarrow> bytes \<Rightarrow> bytes \<Rightarrow> row" where
  "file_at i p b = new_row (no_file\<lparr>f_id := i, f_owner := ''u'', f_path := p, f_blob := b\<rparr>) False"

definition sample_db :: database where
  "sample_db = \<lparr>files = [dir_at 1 ''a'', file_at 2 ''a/x.txt'' ''k1'', dir_at 3 ''a/s'', file_at 4 ''a/s/y'' ''k2'',
       dir_at 5 ''b'', file_at 6 ''ab'' ''k3''], trash = [], uploads = [], next_id = 7\<rparr>"

lemma sample_ok: "tree_ok sample_db"
  by code_simp

lemma sample_move:
  "map f_path (files (snd (MoveFile ''u'' ''a'' ''b/c'' sample_db)))
     = [''b/c'', ''b/c/x.txt'', ''b/c/s'', ''b/c/s/y'', ''b'', ''ab'']"
  by code_simp

text \<open>
  The three ways the statement leaves its contract.  A prefix with a multi-byte character is
  longer in bytes than in characters; a sibling whose name differs only in case matches the
  pattern; and nothing bounds the paths the move makes.
\<close>

definition accented :: bytes where
  "accented = ''m'' @ [CHR 0xC3, CHR 0xBA] @ ''sica''"

definition accented_db :: database where
  "accented_db = \<lparr>files = [dir_at 1 accented, file_at 2 (accented @ ''/one.mp3'') ''k1''],
     trash = [], uploads = [], next_id = 3\<rparr>"

definition cased_db :: database where
  "cased_db = \<lparr>files = [dir_at 1 ''photos'', dir_at 2 ''Photos'', file_at 3 ''Photos/x.jpg'' ''k1''],
     trash = [], uploads = [], next_id = 4\<rparr>"

definition long_name :: bytes where
  "long_name = replicate 4095 (CHR ''b'')"

definition deep_db :: database where
  "deep_db = \<lparr>files = [dir_at 1 ''a'', file_at 2 ''a/x'' ''k1''], trash = [], uploads = [], next_id = 3\<rparr>"

text \<open>
  Moving a directory whose name has a multi-byte character, on a sound tree, succeeds and
  breaks what is under it: the statement cuts as many characters as the prefix has bytes, so the
  child loses its slash and ends beside its directory, with a parent column that says otherwise.
\<close>
theorem move_accented:
  "tree_ok accented_db \<and> fst (MoveFile ''u'' accented ''music'' accented_db) = Inr ()
   \<and> map f_path (files (snd (MoveFile ''u'' accented ''music'' accented_db))) = [''music'', ''musicone.mp3'']
   \<and> map parent_path (files (snd (MoveFile ''u'' accented ''music'' accented_db))) = [[], ''music'']"
  by code_simp

text \<open>
  Moving a directory takes the children of a sibling with it when the two names differ only
  in the case of ASCII letters, because \<open>LIKE\<close> folds it.
\<close>
theorem move_cased:
  "tree_ok cased_db \<and> fst (MoveFile ''u'' ''photos'' ''old'' cased_db) = Inr ()
   \<and> map f_path (files (snd (MoveFile ''u'' ''photos'' ''old'' cased_db))) = [''old'', ''Photos'', ''old/x.jpg'']"
  by code_simp

lemma byte_b: "byte (CHR ''b'') = 98" by code_simp
lemma long_name_valid: "valid_path long_name"
proof -
  have "ascii long_name" by (simp add: long_name_def ascii_def byte_b)
  moreover have "split_on slash long_name = [long_name]" by (simp add: long_name_def split_on_free)
  moreover have "long_name \<noteq> ''.''" "long_name \<noteq> ''..''" by (auto dest!: arg_cong [of _ _ length] simp: long_name_def)
  ultimately show ?thesis
    by (simp add: valid_path_iff ascii_valid_utf8 MaxPathLen_def plain_seg_def long_name_def ctl_def byte_b)
qed

lemma long_name_Cons: "long_name = CHR ''b'' # replicate 4094 (CHR ''b'')"
  unfolding long_name_def by (simp add: numeral_eq_Suc)
lemma long_move_valid: "ValidateMove ''a'' long_name = Inr ()"
proof -
  have "ValidatePath ''a'' = Inr ()" by code_simp
  with long_name_valid show ?thesis by (simp add: ValidateMove_def ValidatePath_cases long_name_Cons has_prefix_def)
qed
lemma long_name_free: "lookup_file deep_db ''u'' long_name = None" 
  by (simp add: lookup_file_def deep_db_def long_name_Cons at_key_def dir_at_def file_at_def no_file_def)
lemma long_move_exact: "like_exact deep_db ''u'' ''a'' long_name" 
proof -
  have "fold_case (CHR ''a'') \<noteq> fold_case (CHR ''b'')" by code_simp
  moreover have "Under ''a'' = ''a/%''" by code_simp
  ultimately have "\<not> sql_like (Under ''a'') long_name" by (simp add: long_name_Cons sql_like.simps(2))
  moreover have "list_all (\<lambda>r. f_owner r = ''u'' \<and> sql_like (Under ''a'') (f_path r) \<longrightarrow> under ''a'' (f_path r)) (files deep_db)"
    by code_simp
  ultimately show ?thesis by (simp add: like_exact_def)
qed

section \<open>What callers rely on\<close>



text \<open>
  C19: A move that cannot be made changes nothing: from an entry that does not exist it is
  \<open>ErrNotFound\<close>, onto one that does it is \<open>ErrConflict\<close>.
\<close>
theorem move_refused:
  assumes "ValidateMove from to = Inr ()" "lookup_file d owner from = None \<or> lookup_file d owner to \<noteq> None"
  shows "MoveFile owner from to d =
    (Inl (if lookup_file d owner from = None then ErrNotFound else ErrConflict), d)"
  using MoveFile_missing [OF assms(1)] MoveFile_occupied [OF assms(1)] assms(2) by auto

lemma move_refused_witness:
  "MoveFile ''u'' ''a'' ''b'' sample_db = (Inl ErrConflict, sample_db)"
proof -
  have "ValidateMove ''a'' ''b'' = Inr ()"
    "lookup_file sample_db ''u'' ''a'' = None \<or> lookup_file sample_db ''u'' ''b'' \<noteq> None" by code_simp+
  from move_refused [OF this] show ?thesis by code_simp
qed

text \<open>
  C20: Nothing bounds the paths a move makes: where a row under the source would outgrow
  \<open>MaxPathLen\<close>, the move succeeds all the same and leaves a row, that same one, which is refused
  with \<open>ErrInvalidPath\<close> when it is looked up by its own path.
\<close>
theorem move_overlong:
  assumes "tree_ok d" "ValidateMove from to = Inr ()" "lookup_file d owner from \<noteq> None"
    "lookup_file d owner to = None" "ascii from" "like_exact d owner from to"
    and "r \<in> set (files d)" "f_owner r = owner" "under from (f_path r)"
    "MaxPathLen < length (rebase from to (f_path r))"
  shows "\<exists>d' r'. MoveFile owner from to d = (Inr (), d') \<and> r' \<in> set (files d') \<and> f_id r' = f_id r
    \<and> FileByPath owner (f_path r') d' = (Inl ErrInvalidPath, d')"
proof -
  obtain x where x: "lookup_file d owner from = Some x" using assms(3) by blast
  let ?r = "rename_row owner from to r"
  let ?d = "d\<lparr>files := map (rename_row owner from to) (files d)\<rparr>"
  from assms(9) have "f_path r \<noteq> from" by (auto simp: under_iff)
  with assms have r: "f_path ?r = rebase from to (f_path r)" "f_id ?r = f_id r" by (auto simp: rename_row_def)
  with assms(10) have "ValidatePath (f_path ?r) = Inl ErrInvalidPath" by (simp add: ValidatePath_def)
  with r MoveFile_eq_rename [OF assms(1,2) x assms(4,5,6)] assms(7) show ?thesis
    by (intro exI [of _ ?d] exI [of _ ?r]) (auto simp: FileByPath_def)
qed

lemma move_overlong_witness:
  "\<exists>d' r'. MoveFile ''u'' ''a'' long_name deep_db = (Inr (), d') \<and> r' \<in> set (files d') \<and> f_id r' = 2
    \<and> FileByPath ''u'' (f_path r') d' = (Inl ErrInvalidPath, d')"
proof -
  let ?r = "file_at 2 ''a/x'' ''k1''"
  have "tree_ok deep_db" "lookup_file deep_db ''u'' ''a'' \<noteq> None" "ascii ''a''" by code_simp+
  moreover have "?r \<in> set (files deep_db)" by (simp add: deep_db_def)
  moreover have "f_owner ?r = ''u''" "f_id ?r = 2" "f_path ?r = ''a/x''" "under ''a'' ''a/x''" by code_simp+
  ultimately show ?thesis
    using move_overlong [OF _ long_move_valid _ long_name_free _ long_move_exact, of ?r]
    by (simp add: rebase_def long_name_def MaxPathLen_def)
qed

end
