(* ===== verification/GoIO.thy ===== *)
theory GoIO
  imports Prelude
begin

text \<open>
  Readers as the code meets them: a list of chunks, one per call of \<open>Read\<close> that has room for
  it, then the end of the stream or a failure.  A reader may also report the end together
  with its last bytes (\<open>eager\<close>), or return nothing and no error (an empty chunk): the
  \<^verbatim>\<open>io.Reader\<close> contract allows both and \<^verbatim>\<open>internal/storage/size.go\<close> handles both.
\<close>

record reader =
  chunks :: "bytes list"
  failure :: "error option"
  eager :: bool

datatype status = More | AtEOF | Broken error

definition the_end :: "reader \<Rightarrow> status" where
  "the_end r = (case failure r of None \<Rightarrow> AtEOF | Some e \<Rightarrow> Broken e)"

definition content :: "reader \<Rightarrow> bytes" where
  "content r = concat (chunks r)"

definition of_bytes :: "bytes \<Rightarrow> reader" where
  "of_bytes d = \<lparr>chunks = [d], failure = None, eager = False\<rparr>"

lemma content_of_bytes [simp]: "content (of_bytes d) = d" "failure (of_bytes d) = None"
  by (simp_all add: of_bytes_def content_def)

text \<open>One \<open>Read\<close> into a buffer of \<open>k\<close> bytes.\<close>

definition read :: "nat \<Rightarrow> reader \<Rightarrow> bytes \<times> status \<times> reader" where
  "read k r =
     (case chunks r of
        [] \<Rightarrow> ([], the_end r, r)
      | c # cs \<Rightarrow>
          if length c \<le> k
          then (c, (if cs = [] \<and> eager r then the_end r else More), r\<lparr>chunks := cs\<rparr>)
          else (take k c, More, r\<lparr>chunks := drop k c # cs\<rparr>))"

lemma read_content: "read k r = (d, st, r') \<Longrightarrow> content r = d @ content r'"
  by (auto simp: read_def content_def split: list.splits if_splits)

lemma read_failure: "read k r = (d, st, r') \<Longrightarrow> failure r' = failure r"
  by (auto simp: read_def split: list.splits if_splits)

lemma read_end:
  "read k r = (d, st, r') \<Longrightarrow> st \<noteq> More \<Longrightarrow> content r' = [] \<and> st = the_end r \<and> chunks r' = []"
  by (auto simp: read_def content_def split: list.splits if_splits)

lemma read_length: "read k r = (d, st, r') \<Longrightarrow> length d \<le> k"
  by (auto simp: read_def split: list.splits if_splits)

text \<open>What shrinks with every call that has room for at least one byte.\<close>

definition pending :: "reader \<Rightarrow> nat" where
  "pending r = length (chunks r) + length (content r)"

lemma read_pending: "read k r = (d, More, r') \<Longrightarrow> 0 < k \<Longrightarrow> pending r' < pending r"
  by (auto simp: read_def pending_def content_def the_end_def split: list.splits if_splits option.splits)

lemma read_pending_le: "read k r = (d, st, r') \<Longrightarrow> pending r' \<le> pending r"
  by (auto simp: read_def pending_def content_def split: list.splits if_splits)

section \<open>io.ReadFull\<close>

text \<open>
  Reads until \<open>k\<close> bytes are there, or the reader ends.  The status is \<open>More\<close> when the
  buffer was filled, \<open>AtEOF\<close> for \<^verbatim>\<open>io.EOF\<close> and \<^verbatim>\<open>io.ErrUnexpectedEOF\<close> alike.
\<close>

function read_full :: "nat \<Rightarrow> reader \<Rightarrow> bytes \<times> status \<times> reader" where
  "read_full k r =
     (if k = 0 then ([], More, r)
      else case read k r of
        (d, st, r') \<Rightarrow>
          if length d = k then (d, More, r')
          else if st \<noteq> More then (d, st, r')
          else (case read_full (k - length d) r' of (d', st', r'') \<Rightarrow> (d @ d', st', r'')))"
  by pat_completeness auto
termination
  by (relation "measure (\<lambda>(k, r). pending r)") (auto dest: read_pending [OF sym])

declare read_full.simps [simp del]

lemma read_full_content:
  "read_full k r = (d, st, r') \<Longrightarrow>
     content r = d @ content r' \<and> failure r' = failure r \<and> length d \<le> k
     \<and> (st = More \<longrightarrow> length d = k) \<and> (st \<noteq> More \<longrightarrow> content r' = [] \<and> st = the_end r)"
proof (induction k r arbitrary: d st r' rule: read_full.induct)
  case (1 k r)
  show ?case
  proof (cases "k = 0")
    case True
    with "1.prems" have "(d, st, r') = ([], More, r)" by (simp add: read_full.simps [of 0 r])
    with True show ?thesis by simp
  next
    case False
    obtain d1 st1 r1 where rd: "read k r = (d1, st1, r1)" by (cases "read k r") auto
    note c = read_content [OF rd] read_failure [OF rd] read_length [OF rd]
    show ?thesis
    proof (cases "length d1 = k \<or> st1 \<noteq> More")
      case True
      have "(d, st, r') = (if length d1 = k then (d1, More, r1) else (d1, st1, r1))"
        using True False rd "1.prems" by (simp add: read_full.simps [of k r] split: if_splits)
      with True c read_end [OF rd] show ?thesis by (auto split: if_splits)
    next
      case F: False
      obtain d2 st2 r2 where rf: "read_full (k - length d1) r1 = (d2, st2, r2)"
        by (cases "read_full (k - length d1) r1") auto
      with False F rd "1.prems" have eqs: "d = d1 @ d2" "st = st2" "r' = r2"
        by (auto simp: read_full.simps [of k r])
      have "content r1 = d2 @ content r2 \<and> failure r2 = failure r1 \<and> length d2 \<le> k - length d1
        \<and> (st2 = More \<longrightarrow> length d2 = k - length d1)
        \<and> (st2 \<noteq> More \<longrightarrow> content r2 = [] \<and> st2 = the_end r1)"
        by (rule "1.IH" [OF False rd [symmetric] refl _ _ rf]) (use F in auto)
      with eqs c show ?thesis by (auto simp: the_end_def)
    qed
  qed
qed

section \<open>io.Copy\<close>

text \<open>
  Reads through a 32 KiB buffer to the end and returns what was written, with the failure
  when the stream broke.
\<close>

definition copy_buffer :: nat where
  "copy_buffer = 32768"

lemma copy_buffer_pos [simp]: "0 < copy_buffer"
  by (simp add: copy_buffer_def)

definition status_error :: "status \<Rightarrow> error option" where
  "status_error st = (case st of Broken e \<Rightarrow> Some e | _ \<Rightarrow> None)"

function io_copy :: "reader \<Rightarrow> bytes \<times> error option" where
  "io_copy r =
     (case read copy_buffer r of
        (d, st, r') \<Rightarrow>
          if st \<noteq> More then (d, status_error st)
          else (case io_copy r' of (d', e) \<Rightarrow> (d @ d', e)))"
  by pat_completeness auto
termination
  by (relation "measure pending") (auto dest: read_pending [OF sym])

declare io_copy.simps [simp del]

lemma io_copy_eq: "io_copy r = (content r, failure r)"
proof (induction r rule: io_copy.induct)
  case (1 r)
  obtain d st r' where rd: "read copy_buffer r = (d, st, r')" by (cases "read copy_buffer r") auto
  show ?case
  proof (cases "st = More")
    case True
    with 1 [OF rd [symmetric] refl] rd read_content [OF rd] read_failure [OF rd] show ?thesis
      by (simp add: io_copy.simps [of r])
  next
    case False
    with rd read_content [OF rd] read_end [OF rd] show ?thesis
      by (simp add: io_copy.simps [of r] status_error_def the_end_def split: option.splits)
  qed
qed

end
