(* ===== verification/StorageKey.thy ===== *)
theory StorageKey
  imports GoPath GoIO
begin

text \<open>
  The blob storage port, \<^verbatim>\<open>internal/storage\<close>: which keys it accepts
  (\<^verbatim>\<open>key.go\<close>), how a requested range becomes an offset and a length
  (\<^verbatim>\<open>range.go\<close>), and the reader that enforces a declared size (\<^verbatim>\<open>size.go\<close>).
\<close>

section \<open>Keys\<close>

definition MaxKeyLen :: nat where "MaxKeyLen = 1024"
definition MaxSegmentLen :: nat where "MaxSegmentLen = 255"

text \<open>The loop over the segments of \<open>ValidateKey\<close>; \<open>first\<close> is the flag of the same name.\<close>

fun check_segments :: "bool \<Rightarrow> bytes list \<Rightarrow> bool" where
  "check_segments first [] = True"
| "check_segments first (seg # segs) =
     (if seg = [] then False
      else if seg = ''.'' \<or> seg = ''..'' then False
      else if MaxSegmentLen < length seg then False
      else if first \<and> hd seg = dot then False
      else check_segments False segs)"

definition ValidateKey :: "bytes \<Rightarrow> unit result" where
  "ValidateKey key =
     (if key = [] then Inl ErrInvalidKey
      else if MaxKeyLen < length key then Inl ErrInvalidKey
      else if \<not> valid_utf8 key then Inl ErrInvalidKey
      else if has_prefix key ''/'' \<or> has_suffix key ''/'' then Inl ErrInvalidKey
      else if contains_char key (CHR 0x5C) then Inl ErrInvalidKey
      else if list_ex (\<lambda>r. r < 0x20 \<or> r = 0x7F) (runes key) then Inl ErrInvalidKey
      else if \<not> check_segments True (split_on slash key) then Inl ErrInvalidKey
      else Inr ())"

text \<open>The grammar its comment states: what a key is, read off the string itself.\<close>

definition key_grammar :: "bytes \<Rightarrow> bool" where
  "key_grammar key \<longleftrightarrow>
     (\<exists>segs. segs \<noteq> [] \<and> key = join_with slash segs
        \<and> (\<forall>s\<in>set segs. plain_seg s \<and> slash \<notin> set s \<and> length s \<le> MaxSegmentLen)
        \<and> hd (hd segs) \<noteq> dot)
     \<and> length key \<le> MaxKeyLen \<and> valid_utf8 key
     \<and> (\<forall>c\<in>set key. c \<noteq> CHR 0x5C \<and> \<not> ctl (byte c))"

lemma check_segments_iff:
  "check_segments first segs \<longleftrightarrow>
     (\<forall>s\<in>set segs. plain_seg s \<and> length s \<le> MaxSegmentLen)
     \<and> (first \<and> segs \<noteq> [] \<longrightarrow> hd (hd segs) \<noteq> dot)"
  by (induction first segs rule: check_segments.induct) (auto simp: plain_seg_def not_less)

lemma ValidateKey_ok_iff:
  "ValidateKey key = Inr () \<longleftrightarrow>
     key \<noteq> [] \<and> length key \<le> MaxKeyLen \<and> valid_utf8 key
     \<and> \<not> has_prefix key ''/'' \<and> \<not> has_suffix key ''/''
     \<and> (\<forall>c\<in>set key. c \<noteq> CHR 0x5C \<and> \<not> ctl (byte c))
     \<and> check_segments True (split_on slash key)"
proof (cases "valid_utf8 key")
  case True
  then have "list_ex (\<lambda>r. r < 0x20 \<or> r = 0x7F) (runes key) \<longleftrightarrow> \<not> (\<forall>c\<in>set key. \<not> ctl (byte c))"
    using runes_ctl_iff [of key] by (simp add: list_ex_iff ctl_def)
  with True show ?thesis
    unfolding ValidateKey_def contains_char_def by (simp add: not_less) blast
qed (simp add: ValidateKey_def)

lemma leading_slash_seg: "has_prefix key ''/'' \<Longrightarrow> [] \<in> set (split_on slash key)"
  by (cases key) (auto simp: has_prefix_def)

lemma trailing_slash_seg: "has_suffix key ''/'' \<Longrightarrow> [] \<in> set (split_on slash key)"
  by (auto simp: has_suffix_iff split_on_append)

lemma ValidateKey_iff_grammar: "ValidateKey key = Inr () \<longleftrightarrow> key_grammar key"
proof
  assume "ValidateKey key = Inr ()"
  then have v: "check_segments True (split_on slash key)" "length key \<le> MaxKeyLen"
    "valid_utf8 key" "\<forall>c\<in>set key. c \<noteq> CHR 0x5C \<and> \<not> ctl (byte c)"
    by (simp_all add: ValidateKey_ok_iff)
  then show "key_grammar key"
    unfolding key_grammar_def check_segments_iff
    by (intro conjI exI [of _ "split_on slash key"]) (auto dest: split_on_part_free)
next
  assume "key_grammar key"
  then obtain segs where s: "segs \<noteq> []" "key = join_with slash segs"
    "\<forall>s\<in>set segs. plain_seg s \<and> slash \<notin> set s \<and> length s \<le> MaxSegmentLen"
    "hd (hd segs) \<noteq> dot"
    and r: "length key \<le> MaxKeyLen" "valid_utf8 key"
    "\<forall>c\<in>set key. c \<noteq> CHR 0x5C \<and> \<not> ctl (byte c)"
    unfolding key_grammar_def by blast
  from s have sp: "split_on slash key = segs" by (simp add: split_join)
  with s(3) have "[] \<notin> set (split_on slash key)" by (auto simp: plain_seg_def)
  then have "key \<noteq> []" "\<not> has_prefix key ''/''" "\<not> has_suffix key ''/''"
    using leading_slash_seg trailing_slash_seg by (force, blast, blast)
  with s sp r show "ValidateKey key = Inr ()"
    by (simp add: ValidateKey_ok_iff check_segments_iff)
qed

text \<open>A key that passes is its own clean form: no cleaning can take it anywhere else.\<close>

lemma ValidateKey_clean: "ValidateKey key = Inr () \<Longrightarrow> path_clean key = key \<and> path_clean (slash # key) = slash # key"
proof -
  assume "ValidateKey key = Inr ()"
  then have v: "\<forall>s\<in>set (split_on slash key). plain_seg s" "\<not> has_prefix key ''/''" "key \<noteq> []"
    by (simp_all add: ValidateKey_ok_iff check_segments_iff)
  then have "clean_segs r [] (split_on slash key) = split_on slash key" for r
    using clean_segs_id [of "split_on slash key" r "[]"] by simp
  with v show ?thesis
    by (simp add: path_clean_def Let_def has_prefix_def [of "slash # key"])
qed

section \<open>Ranges\<close>

record range =
  rng_off :: int
  rng_n :: int
  rng_hasLen :: bool
  rng_suffix :: bool

definition All :: range where
  "All = \<lparr>rng_off = 0, rng_n = 0, rng_hasLen = False, rng_suffix = False\<rparr>"

definition From :: "int \<Rightarrow> range" where
  "From o' = \<lparr>rng_off = o', rng_n = 0, rng_hasLen = False, rng_suffix = False\<rparr>"

definition Slice :: "int \<Rightarrow> int \<Rightarrow> range" where
  "Slice o' n' = \<lparr>rng_off = o', rng_n = n', rng_hasLen = True, rng_suffix = False\<rparr>"

definition Suffix :: "int \<Rightarrow> range" where
  "Suffix n' = \<lparr>rng_off = 0, rng_n = n', rng_hasLen = True, rng_suffix = True\<rparr>"

definition Resolve :: "range \<Rightarrow> int \<Rightarrow> (int \<times> int) result" where
  "Resolve r sz =
     (if sz < 0 then Inl ErrInvalidRange
      else if rng_suffix r then
        (if rng_n r \<le> 0 then Inl ErrInvalidRange
         else if rng_n r \<ge> sz then Inr (0, sz)
         else Inr (wrap64 (sz - rng_n r), rng_n r))
      else if rng_off r < 0 then Inl ErrInvalidRange
      else if rng_off r > sz then Inl ErrInvalidRange
      else if \<not> rng_hasLen r then Inr (rng_off r, wrap64 (sz - rng_off r))
      else if rng_n r < 0 then Inl ErrInvalidRange
      else Inr (rng_off r, min (rng_n r) (wrap64 (sz - rng_off r))))"

lemma wrap64_diff [simp]: "0 \<le> b \<Longrightarrow> b \<le> a \<Longrightarrow> is_int64 a \<Longrightarrow> wrap64 (a - b) = a - b"
  by (simp add: is_int64_def)

lemma Resolve_bounds:
  "is_int64 sz \<Longrightarrow> Resolve r sz = Inr (o', n') \<Longrightarrow> 0 \<le> o' \<and> 0 \<le> n' \<and> o' + n' \<le> sz"
  by (auto simp: Resolve_def split: if_splits)

text \<open>What a range selects of the bytes of an object.\<close>

definition select :: "bytes \<Rightarrow> int \<times> int \<Rightarrow> bytes" where
  "select d w = take (nat (snd w)) (drop (nat (fst w)) d)"

definition fits64 :: "bytes \<Rightarrow> bool" where
  "fits64 d \<longleftrightarrow> is_int64 (int (length d))"

lemma select_All: "fits64 d \<Longrightarrow> Resolve All (int (length d)) = Inr w \<Longrightarrow> select d w = d"
  by (auto simp: Resolve_def All_def select_def fits64_def)

lemma select_From: "fits64 d \<Longrightarrow> Resolve (From o') (int (length d)) = Inr w \<Longrightarrow> select d w = drop (nat o') d"
  by (auto simp: Resolve_def From_def select_def fits64_def split: if_splits)

lemma select_Slice:
  "fits64 d \<Longrightarrow> Resolve (Slice o' n') (int (length d)) = Inr w \<Longrightarrow>
     select d w = take (nat n') (drop (nat o') d)"
  by (auto simp: Resolve_def Slice_def select_def fits64_def min_def split: if_splits)

lemma select_Suffix:
  "fits64 d \<Longrightarrow> Resolve (Suffix n') (int (length d)) = Inr w \<Longrightarrow>
     select d w = drop (length d - nat n') d"
  by (auto simp: Resolve_def Suffix_def select_def fits64_def nat_diff_distrib' split: if_splits)

lemma Resolve_From_ok: "0 \<le> o' \<Longrightarrow> o' \<le> sz \<Longrightarrow> Resolve (From o') sz = Inr (o', wrap64 (sz - o'))"
  by (simp add: Resolve_def From_def)

section \<open>The reader of a declared size\<close>

text \<open>
  \<open>exactReader\<close>: the state is how much of the declared size is left and the reader below.
  \<open>check_eof\<close> spends one byte proving that the stream is over.
\<close>

function check_eof :: "reader \<Rightarrow> status \<times> reader" where
  "check_eof r =
     (case read 1 r of
        (d, st, r') \<Rightarrow>
          if d \<noteq> [] then (Broken ErrSizeMismatch, r')
          else (case st of
                  AtEOF \<Rightarrow> (AtEOF, r')
                | Broken e \<Rightarrow> (Broken e, r')
                | More \<Rightarrow> check_eof r'))"
  by pat_completeness auto
termination
  by (relation "measure pending") (auto dest: read_pending [OF sym])

declare check_eof.simps [simp del]

definition exact_read :: "nat \<Rightarrow> nat \<Rightarrow> reader \<Rightarrow> bytes \<times> status \<times> nat \<times> reader" where
  "exact_read k left r =
     (if left = 0 then (case check_eof r of (st, r') \<Rightarrow> ([], st, 0, r'))
      else case read (min k left) r of
        (d, st, r') \<Rightarrow>
          (let left' = left - length d
           in if st = AtEOF \<and> 0 < left' then (d, Broken ErrSizeMismatch, left', r')
              else (d, st, left', r')))"

text \<open>\<open>io.Copy\<close> out of it, which is what a backend does with the body of a \<open>Put\<close>.\<close>

lemma check_eof_eq:
  "fst (check_eof r) = (if content r \<noteq> [] then Broken ErrSizeMismatch else the_end r)"
proof (induction r rule: check_eof.induct)
  case (1 r)
  obtain d st r' where rd: "read 1 r = (d, st, r')" by (cases "read 1 r") auto
  note c = read_content [OF rd] read_failure [OF rd]
  show ?case
  proof (cases "d \<noteq> []")
    case True
    with rd c show ?thesis by (simp add: check_eof.simps [of r])
  next
    case F: False
    show ?thesis
    proof (cases st)
      case More
      with "1.IH" [OF rd [symmetric] refl] F rd c show ?thesis
        by (simp add: check_eof.simps [of r] the_end_def)
    next
      case AtEOF
      with read_end [OF rd] have "the_end r = AtEOF" "content r' = []" by auto
      with AtEOF F rd c show ?thesis by (simp add: check_eof.simps [of r])
    next
      case (Broken e)
      with read_end [OF rd] have "the_end r = Broken e" "content r' = []" by auto
      with Broken F rd c show ?thesis by (simp add: check_eof.simps [of r])
    qed
  qed
qed

lemma check_eof_not_More: "fst (check_eof r) \<noteq> More"
  by (simp add: check_eof_eq the_end_def split: option.splits)

lemma exact_read_pending: "exact_read k left r = (d, More, left', r') \<Longrightarrow> 0 < k \<Longrightarrow> pending r' < pending r"
proof (cases "left = 0")
  case True
  assume "exact_read k left r = (d, More, left', r')"
  with True have "fst (check_eof r) = More"
    by (auto simp: exact_read_def split: prod.splits)
  then show ?thesis using check_eof_not_More by blast
next
  case False
  assume "exact_read k left r = (d, More, left', r')" "0 < k"
  with False show ?thesis
    using read_pending [of "min k left" r d r']
    by (auto simp: exact_read_def Let_def split: prod.splits if_splits)
qed

function exact_copy :: "nat \<Rightarrow> reader \<Rightarrow> bytes \<times> error option" where
  "exact_copy left r =
     (case exact_read copy_buffer left r of
        (d, st, left', r') \<Rightarrow>
          if st \<noteq> More then (d, status_error st)
          else (case exact_copy left' r' of (d', e) \<Rightarrow> (d @ d', e)))"
  by pat_completeness auto
termination
  by (relation "measure (\<lambda>(left, r). pending r)") (auto dest: exact_read_pending [OF sym])

declare exact_copy.simps [simp del]

definition exact_result :: "nat \<Rightarrow> bytes \<Rightarrow> error option \<Rightarrow> bytes \<times> error option" where
  "exact_result left d e =
     (if left < length d then (take left d, Some ErrSizeMismatch)
      else if e = None \<and> length d < left then (d, Some ErrSizeMismatch) else (d, e))"

lemma exact_copy_eq: "exact_copy left r = exact_result left (content r) (failure r)"
proof (induction left r rule: exact_copy.induct)
  case (1 left r)
  show ?case
  proof (cases "left = 0")
    case True
    obtain st r' where ce: "check_eof r = (st, r')" by fastforce
    with check_eof_eq [of r]
    have st: "st = (if content r \<noteq> [] then Broken ErrSizeMismatch else the_end r)" by simp
    with check_eof_not_More [of r] ce have "st \<noteq> More" by simp
    with True ce st show ?thesis
      by (auto simp: exact_copy.simps [of 0 r] exact_read_def exact_result_def status_error_def
          the_end_def split: option.splits)
  next
    case False
    obtain d st r' where rd: "read (min copy_buffer left) r = (d, st, r')"
      by (cases "read (min copy_buffer left) r") auto
    note c = read_content [OF rd] read_failure [OF rd] read_length [OF rd] read_end [OF rd]
    show ?thesis
    proof (cases "st = More")
      case True
      with False rd have er: "exact_read copy_buffer left r = (d, More, left - length d, r')"
        by (simp add: exact_read_def Let_def)
      from "1.IH" [OF er [symmetric] refl refl]
      have IH: "exact_copy (left - length d) r' = exact_result (left - length d) (content r') (failure r')"
        by simp
      have "exact_copy left r = (case exact_copy (left - length d) r' of (d', e) \<Rightarrow> (d @ d', e))"
        using er by (simp add: exact_copy.simps [of left r])
      with IH c show ?thesis by (auto simp: exact_result_def less_diff_conv2 less_diff_conv)
    next
      case F: False
      with c have d: "content r = d" "st = the_end r" by auto
      with F False rd c(3) show ?thesis
        by (auto simp: exact_copy.simps [of left r] exact_read_def Let_def exact_result_def
            status_error_def the_end_def split: option.splits)
    qed
  qed
qed

text \<open>\<open>io.Copy(f, storage.ExactReader(r, size))\<close>: a negative size is no size at all.\<close>

definition copy_sized :: "int \<Rightarrow> reader \<Rightarrow> bytes \<times> error option" where
  "copy_sized sz r = (if sz < 0 then io_copy r else exact_copy (nat sz) r)"

lemma copy_sized_ok_iff:
  "snd (copy_sized sz r) = None \<longleftrightarrow> failure r = None \<and> (0 \<le> sz \<longrightarrow> int (length (content r)) = sz)"
  by (auto simp: copy_sized_def io_copy_eq exact_copy_eq exact_result_def)

lemma copy_sized_ok: "copy_sized sz r = (d, None) \<Longrightarrow> d = content r"
  by (auto simp: copy_sized_def io_copy_eq exact_copy_eq exact_result_def split: if_splits)

section \<open>What callers rely on\<close>

text \<open>
  C13: \<open>ValidateKey\<close> accepts exactly the keys of the grammar its comment describes: non-empty
  segments that are not dots, none over the segment limit, the first not starting with a dot,
  valid UTF-8 with no control character and no backslash, within the key limit.
\<close>
theorem valid_key_grammar: "ValidateKey key = Inr () \<longleftrightarrow> key_grammar key"
  by (rule ValidateKey_iff_grammar)

text \<open>
  C14: A key that passes \<open>ValidateKey\<close> is its own clean form, relative and absolute: no
  cleaning of the path can take it out of the root or onto another key.
\<close>
theorem valid_key_stays:
  "ValidateKey key = Inr () \<Longrightarrow> path_clean key = key \<and> path_clean (slash # key) = slash # key"
  by (rule ValidateKey_clean)

lemma valid_key_stays_witness: "path_clean ''2024/01/a.jpg'' = ''2024/01/a.jpg''"
  using valid_key_stays [of "''2024/01/a.jpg''"] by code_simp

text \<open>
  C15: A range that \<open>Resolve\<close> accepts lies inside the object, and selects as many bytes as it
  says, whichever of the four ways it was asked for.
\<close>
theorem resolve_inside:
  assumes "fits64 d" "Resolve r (int (length d)) = Inr w"
  shows "0 \<le> fst w \<and> 0 \<le> snd w \<and> fst w + snd w \<le> int (length d) \<and> int (length (select d w)) = snd w"
proof -
  from assms have "0 \<le> fst w \<and> 0 \<le> snd w \<and> fst w + snd w \<le> int (length d)"
    using Resolve_bounds [of "int (length d)" r "fst w" "snd w"] by (simp add: fits64_def)
  then show ?thesis by (auto simp: select_def min_def)
qed

lemma resolve_inside_witness:
  "Resolve (Suffix 3) 5 = Inr (2, 3) \<and> int (length (select ''hello'' (2, 3))) = 3"
proof -
  have "fits64 ''hello''" "Resolve (Suffix 3) (int (length ''hello'')) = Inr (2, 3)" by code_simp+
  from resolve_inside [OF this] this show ?thesis by simp
qed

text \<open>
  C16: Copying out of an \<open>ExactReader\<close>, however the stream is cut into reads, is the reference:
  the whole stream and its own error when the length is the declared one, the bytes up to the
  limit and \<open>ErrSizeMismatch\<close> when there is more, and \<open>ErrSizeMismatch\<close> when it ends early.
\<close>
theorem exact_reader_copies: "exact_copy left r = exact_result left (content r) (failure r)"
  by (rule exact_copy_eq)

end
