(* ===== verification/Env.thy ===== *)
theory Env
  imports StorageKey
begin

text \<open>
  What the program asks of the machine it runs on: the clock, \<^verbatim>\<open>crypto/rand.Text\<close>, and
  whether a call into the kernel or the database goes through.  A schedule decides which calls
  fail and, for the ones that move bytes, how many had moved by then, so that a theorem that
  holds for every schedule holds for every failure.  A cancelled context is such a failure: it
  is only ever observed at a call.
\<close>

record env =
  faults :: "nat option list"
  now :: int
  texts :: "nat \<Rightarrow> bytes"
  drawn :: nat

definition calm :: "env \<Rightarrow> bool" where
  "calm e \<longleftrightarrow> list_all (\<lambda>f. f = None) (faults e)"

text \<open>The next entry of the schedule; past its end nothing fails.\<close>

definition draw_fault :: "env \<Rightarrow> nat option \<times> env" where
  "draw_fault e = (case faults e of [] \<Rightarrow> (None, e) | f # fs \<Rightarrow> (f, e\<lparr>faults := fs\<rparr>))"

text \<open>A call with nothing to do but fail.\<close>

definition attempt :: "('s \<times> env, unit) step" where
  "attempt = (\<lambda>(s, e). case draw_fault e of
     (None, e') \<Rightarrow> (Inr (), (s, e')) | (Some _, e') \<Rightarrow> (Inl ErrOther, (s, e')))"

definition rand_text :: "('s \<times> env, bytes) step" where
  "rand_text = (\<lambda>(s, e). (Inr (texts e (drawn e)), (s, e\<lparr>drawn := Suc (drawn e)\<rparr>)))"

text \<open>\<open>_ = f()\<close>: the result is thrown away, the effect is not.\<close>

definition best_effort :: "('s, 'a) step \<Rightarrow> ('s, unit) step" where
  "best_effort m = tryE m (\<lambda>_. retE ())"

text \<open>An error that carries no sentinel of the port: \<open>fmt.Errorf\<close> around the kernel's.\<close>

definition plain_error :: "('s, 'a) step \<Rightarrow> ('s, 'a) step" where
  "plain_error m s = (case m s of (Inl _, t) \<Rightarrow> (Inl ErrOther, t) | (Inr x, t) \<Rightarrow> (Inr x, t))"

text \<open>How an environment can change while a call runs: the clock is read once per operation.\<close>

definition env_step :: "env \<Rightarrow> env \<Rightarrow> bool" where
  "env_step e e' \<longleftrightarrow> now e' = now e \<and> texts e' = texts e \<and> drawn e \<le> drawn e'
     \<and> (calm e \<longrightarrow> calm e')"

lemma env_step_refl [simp]: "env_step e e"
  by (simp add: env_step_def)

lemma env_step_trans: "env_step a b \<Longrightarrow> env_step b c \<Longrightarrow> env_step a c"
  by (auto simp: env_step_def)

lemma draw_fault_step: "draw_fault e = (f, e') \<Longrightarrow> env_step e e'"
  by (auto simp: draw_fault_def env_step_def calm_def split: list.splits)

lemma draw_fault_calm: "calm e \<Longrightarrow> \<exists>e'. draw_fault e = (None, e') \<and> calm e' \<and> env_step e e'"
  by (auto simp: draw_fault_def env_step_def calm_def split: list.splits)

lemma attempt_cases:
  "attempt (s, e) = (r, (s', e')) \<Longrightarrow> s' = s \<and> env_step e e' \<and> (r = Inr () \<or> r = Inl ErrOther)"
  by (auto simp: attempt_def dest: draw_fault_step split: prod.splits option.splits)

lemma attempt_calm: "calm e \<Longrightarrow> \<exists>e'. attempt (s, e) = (Inr (), (s, e')) \<and> calm e' \<and> env_step e e'"
  using draw_fault_calm [of e] by (auto simp: attempt_def)

lemma rand_text_eq [simp]:
  "rand_text (s, e) = (Inr (texts e (drawn e)), (s, e\<lparr>drawn := Suc (drawn e)\<rparr>))"
  by (simp add: rand_text_def)

lemma env_step_drawn [simp]: "env_step e (e\<lparr>drawn := Suc (drawn e)\<rparr>)"
  by (simp add: env_step_def calm_def)

end
