(* ===== verification/StoragePort.thy ===== *)
theory StoragePort
  imports Env
begin

text \<open>
  The blob seam, \<^verbatim>\<open>internal/storage/storage.go\<close>: the \<open>Storage\<close> interface as a record of
  operations, which is what a Go interface value is, and the contract its comments state as a
  locale.  A driver interprets the locale; \<^verbatim>\<open>internal/files\<close> is proved against it.
\<close>

record object_info =
  i_key :: bytes
  i_size :: int
  i_mtime :: int

record 's port =
  port_put :: "bytes \<Rightarrow> reader \<Rightarrow> int \<Rightarrow> ('s \<times> env, object_info) step"
  port_get :: "bytes \<Rightarrow> range \<Rightarrow> ('s \<times> env, reader \<times> object_info) step"
  port_stat :: "bytes \<Rightarrow> ('s \<times> env, object_info) step"
  port_delete :: "bytes \<Rightarrow> ('s \<times> env, unit) step"
  port_free :: "('s \<times> env, int) step"
  port_list :: "bytes \<Rightarrow> 's \<times> env \<Rightarrow> (object_info list \<times> error option) \<times> ('s \<times> env)"
  port_start :: "bytes \<Rightarrow> ('s \<times> env, bytes) step"
  port_append :: "bytes \<Rightarrow> bytes \<Rightarrow> int \<Rightarrow> reader \<Rightarrow> 's \<times> env \<Rightarrow> (int \<times> nat \<times> error option) \<times> ('s \<times> env)"
  port_offset :: "bytes \<Rightarrow> bytes \<Rightarrow> ('s \<times> env, int) step"
  port_complete :: "bytes \<Rightarrow> bytes \<Rightarrow> ('s \<times> env, object_info) step"
  port_abort :: "bytes \<Rightarrow> bytes \<Rightarrow> ('s \<times> env, unit) step"

text \<open>\<open>Unlimited\<close>, what a store that cannot say answers to \<open>FreeSpace\<close>.\<close>

definition Unlimited :: int where
  "Unlimited = max_int64"

type_synonym objects = "bytes \<Rightarrow> (bytes \<times> int) option"

definition info_of :: "bytes \<Rightarrow> bytes \<times> int \<Rightarrow> object_info" where
  "info_of k ob = \<lparr>i_key = k, i_size = int (length (fst ob)), i_mtime = snd ob\<rparr>"

definition listing :: "objects \<Rightarrow> bytes \<Rightarrow> object_info set" where
  "listing ob pre = {info_of k x | k x. ob k = Some x \<and> has_prefix k pre}"

text \<open>
  The contract.  \<open>objs\<close> is what is visible under each key and \<open>ups\<close> what each upload has
  accepted.  A failed \<open>Put\<close> may have published (the error can come after the rename), but
  only the new bytes under its own key; a failed \<open>Delete\<close> may have deleted.  \<open>AppendUpload\<close>
  answers with an offset and, because its caller counts the reads of the body it passes, with how
  much of that body it read.
\<close>

locale storage_port =
  fixes P :: "'s port"
    and sound :: "'s \<Rightarrow> bool"
    and objs :: "'s \<Rightarrow> objects"
    and ups :: "'s \<Rightarrow> bytes \<Rightarrow> bytes option"
  assumes put_ok: "sound s \<Longrightarrow> port_put P k r n (s, e) = (Inr i, (s', e')) \<Longrightarrow>
      sound s' \<and> objs s' = (objs s)(k \<mapsto> (content r, now e)) \<and> ups s' = ups s
      \<and> i = info_of k (content r, now e) \<and> failure r = None
      \<and> (0 \<le> n \<longrightarrow> int (length (content r)) = n) \<and> ValidateKey k = Inr () \<and> env_step e e'"
    and put_err: "sound s \<Longrightarrow> port_put P k r n (s, e) = (Inl x, (s', e')) \<Longrightarrow>
      sound s' \<and> (objs s' = objs s \<or> objs s' = (objs s)(k \<mapsto> (content r, now e)))
      \<and> ups s' = ups s \<and> env_step e e'"
    and put_stream: "sound s \<Longrightarrow> port_put P k r n (s, e) = (y, (s', e')) \<Longrightarrow>
      failure r \<noteq> None \<or> 0 \<le> n \<and> int (length (content r)) \<noteq> n \<Longrightarrow> \<not> is_ok y \<and> objs s' = objs s"
    and get_ok: "sound s \<Longrightarrow> port_get P k g (s, e) = (Inr (r, i), (s', e')) \<Longrightarrow>
      s' = s \<and> env_step e e' \<and> (\<exists>ob w. objs s k = Some ob \<and> i = info_of k ob
        \<and> Resolve g (i_size i) = Inr w \<and> prefix (content r) (select (fst ob) w)
        \<and> (failure r = None \<longrightarrow> content r = select (fst ob) w))"
    and get_err: "sound s \<Longrightarrow> port_get P k g (s, e) = (Inl x, (s', e')) \<Longrightarrow> s' = s \<and> env_step e e'"
    and delete_ok: "sound s \<Longrightarrow> port_delete P k (s, e) = (Inr u, (s', e')) \<Longrightarrow>
      sound s' \<and> objs s' = (objs s)(k := None) \<and> ups s' = ups s \<and> env_step e e'"
    and delete_err: "sound s \<Longrightarrow> port_delete P k (s, e) = (Inl x, (s', e')) \<Longrightarrow>
      sound s' \<and> (objs s' = objs s \<or> objs s' = (objs s)(k := None)) \<and> ups s' = ups s \<and> env_step e e'"
    and free_same: "port_free P (s, e) = (fr, (s', e')) \<Longrightarrow> s' = s \<and> env_step e e'"
    and list_result: "sound s \<Longrightarrow> port_list P pre (s, e) = ((is, eo), (s', e')) \<Longrightarrow>
      s' = s \<and> env_step e e' \<and> distinct (map i_key is) \<and> set is \<subseteq> listing (objs s) pre
      \<and> (eo = None \<longrightarrow> set is = listing (objs s) pre)"
    and start_ok: "sound s \<Longrightarrow> port_start P k (s, e) = (Inr uid, (s', e')) \<Longrightarrow>
      sound s' \<and> objs s' = objs s \<and> ups s uid = None \<and> ups s' = (ups s)(uid \<mapsto> []) \<and> env_step e e'"
    and start_err: "sound s \<Longrightarrow> port_start P k (s, e) = (Inl x, (s', e')) \<Longrightarrow>
      sound s' \<and> objs s' = objs s \<and> (\<forall>u d. ups s u = Some d \<longrightarrow> ups s' u = Some d) \<and> env_step e e'"
    and append_result: "sound s \<Longrightarrow> port_append P k uid o' r (s, e) = ((m, nr, eo), (s', e')) \<Longrightarrow>
      sound s' \<and> objs s' = objs s \<and> (\<forall>u. u \<noteq> uid \<longrightarrow> ups s' u = ups s u) \<and> env_step e e'
      \<and> nr \<le> length (content r)
      \<and> (ups s' uid = ups s uid \<or> (\<exists>d t. ups s uid = Some d \<and> int (length d) = o'
            \<and> prefix t (content r) \<and> length t \<le> nr \<and> ups s' uid = Some (d @ t)
            \<and> (m = int (length d) \<or> m = int (length (d @ t)))))
      \<and> (eo = None \<longrightarrow> failure r = None \<and> (\<exists>d. ups s uid = Some d \<and> int (length d) = o'
            \<and> ups s' uid = Some (d @ content r) \<and> m = int (length (d @ content r)) \<and> nr = length (content r)))"
    and complete_ok: "sound s \<Longrightarrow> port_complete P k uid (s, e) = (Inr i, (s', e')) \<Longrightarrow>
      sound s' \<and> (\<exists>d t. ups s uid = Some d \<and> objs s' = (objs s)(k \<mapsto> (d, t)) \<and> i = info_of k (d, t))
      \<and> ups s' = (ups s)(uid := None) \<and> env_step e e'"
    and complete_err: "sound s \<Longrightarrow> port_complete P k uid (s, e) = (Inl x, (s', e')) \<Longrightarrow>
      sound s' \<and> env_step e e' \<and> (objs s' = objs s \<and> ups s' = ups s
        \<or> (\<exists>d t. ups s uid = Some d \<and> objs s' = (objs s)(k \<mapsto> (d, t)) \<and> ups s' = (ups s)(uid := None)))"
    and abort_result: "sound s \<Longrightarrow> port_abort P k uid (s, e) = (ab, (s', e')) \<Longrightarrow>
      sound s' \<and> objs s' = objs s \<and> (ups s' = ups s \<and> \<not> is_ok ab \<or> ups s' = (ups s)(uid := None)) \<and> env_step e e'"

text \<open>
  A store that names its uploads with \<^verbatim>\<open>rand.Text\<close>: whatever \<open>StartUpload\<close> leaves behind,
  failing or not, is under a text it drew.
\<close>

locale named_uploads = storage_port P sound objs ups
  for P :: "'s port" and sound :: "'s \<Rightarrow> bool" and objs :: "'s \<Rightarrow> objects" and ups :: "'s \<Rightarrow> bytes \<Rightarrow> bytes option" +
  assumes start_names: "sound s \<Longrightarrow> port_start P k (s, e) = (y, (s', e')) \<Longrightarrow> ups s' u \<noteq> None \<Longrightarrow>
      ups s u \<noteq> None \<or> (\<exists>i. drawn e \<le> i \<and> i < drawn e' \<and> u = texts e i)"

end
