(* ===== verification/Sha256.thy ===== *)
theory Sha256
  imports GoStrings "HOL-Library.Word"
begin

unbundle bit_operations_syntax

text \<open>
  SHA-256 as \<^verbatim>\<open>crypto/sha256\<close> computes it (FIPS 180-4), with the running state the
  resumable uploads of \<^verbatim>\<open>internal/files/upload.go\<close> save between two requests: the eight
  words, the bytes of an unfinished block, and the length so far.
\<close>

type_synonym word32 = "32 word"

definition round_constants :: "word32 list" where
  "round_constants =
    [1116352408, 1899447441, 3049323471, 3921009573, 961987163, 1508970993,
     2453635748, 2870763221, 3624381080, 310598401, 607225278, 1426881987,
     1925078388, 2162078206, 2614888103, 3248222580, 3835390401, 4022224774,
     264347078, 604807628, 770255983, 1249150122, 1555081692, 1996064986,
     2554220882, 2821834349, 2952996808, 3210313671, 3336571891, 3584528711,
     113926993, 338241895, 666307205, 773529912, 1294757372, 1396182291,
     1695183700, 1986661051, 2177026350, 2456956037, 2730485921, 2820302411,
     3259730800, 3345764771, 3516065817, 3600352804, 4094571909, 275423344,
     430227734, 506948616, 659060556, 883997877, 958139571, 1322822218,
     1537002063, 1747873779, 1955562222, 2024104815, 2227730452, 2361852424,
     2428436474, 2756734187, 3204031479, 3329325298]"

definition initial_hash :: "word32 list" where
  "initial_hash =
    [0x6a09e667, 0xbb67ae85, 0x3c6ef372, 0xa54ff53a, 0x510e527f, 0x9b05688c, 0x1f83d9ab, 0x5be0cd19]"

definition rotr :: "nat \<Rightarrow> word32 \<Rightarrow> word32" where
  "rotr n x = (drop_bit n x OR push_bit (32 - n) x)"

definition big_endian :: "bytes \<Rightarrow> word32" where
  "big_endian bs = of_nat (foldl (\<lambda>a c. a * 256 + byte c) 0 bs)"

fun words_of :: "nat \<Rightarrow> bytes \<Rightarrow> word32 list" where
  "words_of 0 bs = []"
| "words_of (Suc n) bs = big_endian (take 4 bs) # words_of n (drop 4 bs)"

text \<open>The message schedule: sixteen words of the block, then forty-eight from those before.\<close>

definition next_word :: "word32 list \<Rightarrow> word32" where
  "next_word w =
     (let n = length w; a = w ! (n - 2); b = w ! (n - 15);
          s1 = rotr 17 a XOR rotr 19 a XOR drop_bit 10 a;
          s0 = rotr 7 b XOR rotr 18 b XOR drop_bit 3 b
      in s1 + w ! (n - 7) + s0 + w ! (n - 16))"

fun extend :: "nat \<Rightarrow> word32 list \<Rightarrow> word32 list" where
  "extend 0 w = w"
| "extend (Suc n) w = extend n (w @ [next_word w])"

definition schedule :: "bytes \<Rightarrow> word32 list" where
  "schedule block = extend 48 (words_of 16 block)"

fun sha_round :: "word32 list \<Rightarrow> word32 \<times> word32 \<Rightarrow> word32 list" where
  "sha_round [a, b, c, d, e, f, g, h] (k, w) =
     (let t1 = h + (rotr 6 e XOR rotr 11 e XOR rotr 25 e) + ((e AND f) XOR (NOT e AND g)) + k + w;
          t2 = (rotr 2 a XOR rotr 13 a XOR rotr 22 a) + ((a AND b) XOR (a AND c) XOR (b AND c))
      in [t1 + t2, a, b, c, d + t1, e, f, g])"
| "sha_round s kw = s"

definition compress :: "word32 list \<Rightarrow> bytes \<Rightarrow> word32 list" where
  "compress h block = map2 (+) h (foldl sha_round h (zip round_constants (schedule block)))"

section \<open>The running digest\<close>

record digest =
  dg_h :: "word32 list"
  dg_x :: bytes
  dg_len :: nat

definition new_digest :: digest where
  "new_digest = \<lparr>dg_h = initial_hash, dg_x = [], dg_len = 0\<rparr>"

function absorb :: "word32 list \<Rightarrow> bytes \<Rightarrow> word32 list \<times> bytes" where
  "absorb h b = (if length b < 64 then (h, b) else absorb (compress h (take 64 b)) (drop 64 b))"
  by pat_completeness auto
termination
  by (relation "measure (\<lambda>(h, b). length b)") auto

declare absorb.simps [simp del]

definition digest_write :: "digest \<Rightarrow> bytes \<Rightarrow> digest" where
  "digest_write d p =
     (case absorb (dg_h d) (dg_x d @ p) of
        (h, x) \<Rightarrow> \<lparr>dg_h = h, dg_x = x, dg_len = (dg_len d + length p) mod 2 ^ 64\<rparr>)"

text \<open>\<open>Sum\<close>: a one bit, zeros up to eight bytes short of a block, and the length in bits.\<close>

definition be_bytes :: "nat \<Rightarrow> nat \<Rightarrow> bytes" where
  "be_bytes n v = map (\<lambda>i. char_of (v div 256 ^ (n - 1 - i))) [0..<n]"

definition padding :: "nat \<Rightarrow> bytes" where
  "padding len =
     CHR 0x80 # replicate ((119 - len mod 64) mod 64) (CHR 0x00) @ be_bytes 8 ((len * 8) mod 2 ^ 64)"

definition digest_sum :: "digest \<Rightarrow> bytes" where
  "digest_sum d =
     concat (map (\<lambda>w. be_bytes 4 (unat w)) (fst (absorb (dg_h d) (dg_x d @ padding (dg_len d)))))"

definition sha256 :: "bytes \<Rightarrow> bytes" where
  "sha256 m = digest_sum (digest_write new_digest m)"

text \<open>Hashing in pieces is hashing the whole: this is what lets a digest be saved and resumed.\<close>

lemma absorb_append:
  "absorb h (b @ c) = (case absorb h b of (h', b') \<Rightarrow> absorb h' (b' @ c))"
proof (induction h b rule: absorb.induct)
  case (1 h b)
  show ?case
  proof (cases "length b < 64")
    case True
    then show ?thesis by (simp add: absorb.simps [of h b])
  next
    case False
    then have "absorb h (b @ c) = absorb (compress h (take 64 b)) (drop 64 b @ c)"
      by (simp add: absorb.simps [of h "b @ c"])
    with 1 False show ?thesis by (simp add: absorb.simps [of h b])
  qed
qed

lemma digest_write_append: "digest_write d (p @ q) = digest_write (digest_write d p) q"
proof -
  have "((dg_len d + length p) mod 2 ^ 64 + length q) mod 2 ^ 64 = (dg_len d + length (p @ q)) mod 2 ^ 64"
    by (simp only: length_append mod_add_left_eq add.assoc)
  then show ?thesis
    using absorb_append [of "dg_h d" "dg_x d @ p" q] by (simp add: digest_write_def split: prod.splits)
qed

lemma digest_write_Nil: "length (dg_x d) < 64 \<Longrightarrow> dg_len d < 2 ^ 64 \<Longrightarrow> digest_write d [] = d"
  by (simp add: digest_write_def absorb.simps [of "dg_h d"])

text \<open>\<open>hex.EncodeToString\<close>.\<close>

definition hex_digit :: "nat \<Rightarrow> char" where
  "hex_digit n = (if n < 10 then char_of (48 + n) else char_of (87 + n))"

definition hex_encode :: "bytes \<Rightarrow> bytes" where
  "hex_encode bs = concat (map (\<lambda>c. [hex_digit (byte c div 16), hex_digit (byte c mod 16)]) bs)"

section \<open>Saving the digest\<close>

text \<open>
  \<open>MarshalBinary\<close> and \<open>UnmarshalBinary\<close> of \<^verbatim>\<open>crypto/sha256\<close>: a magic, the eight words, the
  unfinished block filled up with zeros, and the length.  How much of the block counts is the
  length modulo the block size.
\<close>

definition magic256 :: bytes where
  "magic256 = ''sha'' @ [CHR 0x03]"

definition marshal :: "digest \<Rightarrow> bytes" where
  "marshal d = magic256 @ concat (map (\<lambda>w. be_bytes 4 (unat w)) (dg_h d))
     @ dg_x d @ replicate (64 - length (dg_x d)) (CHR 0x00) @ be_bytes 8 (dg_len d)"

definition be_nat :: "bytes \<Rightarrow> nat" where
  "be_nat bs = foldl (\<lambda>a c. a * 256 + byte c) 0 bs"

definition unmarshal :: "bytes \<Rightarrow> digest option" where
  "unmarshal b =
     (if take 4 b \<noteq> magic256 \<or> length b \<noteq> 108 then None
      else (let len = be_nat (drop 100 b)
            in Some \<lparr>dg_h = words_of 8 (drop 4 b), dg_x = take (len mod 64) (drop 36 b), dg_len = len\<rparr>))"

definition digest_ok :: "digest \<Rightarrow> bool" where
  "digest_ok d \<longleftrightarrow> length (dg_h d) = 8 \<and> length (dg_x d) = dg_len d mod 64 \<and> dg_len d < 2 ^ 64"

lemma be_bytes_length [simp]: "length (be_bytes n v) = n"
  by (simp add: be_bytes_def)

lemma be_bytes_Suc: "be_bytes (Suc n) v = be_bytes n (v div 256) @ [char_of v]"
proof -
  have "map (\<lambda>i. char_of (v div 256 ^ (n - i))) [0..<n] = map (\<lambda>i. char_of (v div 256 div 256 ^ (n - 1 - i))) [0..<n]"
  proof (rule map_cong)
    fix i assume "i \<in> set [0..<n]"
    then have "n - i = Suc (n - 1 - i)" by auto
    then show "(char_of (v div 256 ^ (n - i)) :: char) = char_of (v div 256 div 256 ^ (n - 1 - i))"
      by (simp add: div_mult2_eq)
  qed simp
  then show ?thesis by (simp add: be_bytes_def)
qed

lemma be_nat_snoc: "be_nat (bs @ [c]) = be_nat bs * 256 + byte c"
  by (simp add: be_nat_def)

lemma be_nat_bytes: "v < 256 ^ n \<Longrightarrow> be_nat (be_bytes n v) = v"
proof (induction n arbitrary: v)
  case 0
  then show ?case by (simp add: be_nat_def be_bytes_def)
next
  case (Suc n)
  have "v div 256 < 256 ^ n" using Suc.prems by (simp add: less_mult_imp_div_less mult.commute)
  with Suc.IH show ?case by (simp add: be_bytes_Suc be_nat_snoc byte_def)
qed

lemma big_endian_bytes: "big_endian (be_bytes 4 (unat w)) = w"
proof -
  have "unat w < 2 ^ LENGTH(32)" by (rule unsigned_less)
  then have "unat w < 256 ^ 4" by simp
  then show ?thesis using be_nat_bytes [of "unat w" 4] by (simp add: big_endian_def be_nat_def)
qed

lemma words_of_concat:
  "words_of (length ws) (concat (map (\<lambda>w. be_bytes 4 (unat w)) ws) @ t) = ws"
  by (induction ws) (simp_all add: big_endian_bytes)

lemma unmarshal_marshal: "digest_ok d \<Longrightarrow> unmarshal (marshal d) = Some d"
proof -
  assume d: "digest_ok d"
  let ?h = "concat (map (\<lambda>w. be_bytes 4 (unat w)) (dg_h d))"
  let ?x = "dg_x d @ replicate (64 - length (dg_x d)) (CHR 0x00)"
  have hl: "length (concat (map (\<lambda>w. be_bytes 4 (unat w)) ws)) = 4 * length ws" for ws :: "word32 list"
    by (induction ws) auto
  from d have l: "length ?h = 32" "length ?x = 64" "dg_len d < 256 ^ 8"
    using hl [of "dg_h d"] by (simp_all add: digest_ok_def)
  have m: "marshal d = magic256 @ ?h @ ?x @ be_bytes 8 (dg_len d)" by (simp add: marshal_def)
  have "length magic256 = 4" by (simp add: magic256_def)
  with l have "take 4 (marshal d) = magic256" "length (marshal d) = 108"
    "drop 4 (marshal d) = ?h @ ?x @ be_bytes 8 (dg_len d)"
    "drop 36 (marshal d) = ?x @ be_bytes 8 (dg_len d)" "drop 100 (marshal d) = be_bytes 8 (dg_len d)"
    unfolding m by simp_all
  moreover have "words_of 8 (?h @ ?x @ be_bytes 8 (dg_len d)) = dg_h d"
    using words_of_concat [of "dg_h d"] d by (simp add: digest_ok_def)
  ultimately show ?thesis
    using d be_nat_bytes [OF l(3)] by (simp add: unmarshal_def Let_def digest_ok_def)
qed

section \<open>The hash as the code holds it\<close>

text \<open>
  \<open>hash.Hash\<close> through its saved form, which is how a digest crosses two requests.  The
  service is written over such a record, so that a small example can run on a small hash;
  \<open>sha256_hasher\<close> is the one the program uses.
\<close>

record hasher =
  hash_new :: bytes
  hash_write :: "bytes \<Rightarrow> bytes \<Rightarrow> bytes option"
  hash_sum :: "bytes \<Rightarrow> bytes option"

definition sha256_hasher :: hasher where
  "sha256_hasher =
     \<lparr>hash_new = marshal new_digest,
      hash_write = (\<lambda>s p. map_option (\<lambda>d. marshal (digest_write d p)) (unmarshal s)),
      hash_sum = (\<lambda>s. map_option digest_sum (unmarshal s))\<rparr>"

definition hash_of :: "hasher \<Rightarrow> bytes \<Rightarrow> bytes" where
  "hash_of H m = (case hash_write H (hash_new H) m of None \<Rightarrow> [] | Some s \<Rightarrow> the (hash_sum H s))"

text \<open>What the service relies on: the saved state of some bytes, written to, is that of more.\<close>

locale hash_state =
  fixes H :: hasher and after :: "bytes \<Rightarrow> bytes"
  assumes state_new: "hash_new H = after []"
    and state_write: "hash_write H (after a) b = Some (after (a @ b))"
    and state_sum: "hash_sum H (after a) = Some (hash_of H a)"
    and state_ne: "after a \<noteq> []"

definition sha_after :: "bytes \<Rightarrow> bytes" where
  "sha_after m = marshal (digest_write new_digest m)"

lemma compress_length: "length h = 8 \<Longrightarrow> length (compress h b) = 8"
proof -
  assume h: "length h = 8"
  have "length (sha_round s kw) = 8" if "length s = 8" for s kw
    using that by (cases "(s, kw)" rule: sha_round.cases) (auto simp: Let_def)
  then have "length (foldl sha_round s kws) = 8" if "length s = 8" for s kws
    using that by (induction kws arbitrary: s) auto
  with h show ?thesis by (simp add: compress_def)
qed

lemma absorb_ok:
  "length h = 8 \<Longrightarrow> absorb h b = (h', b') \<Longrightarrow> length h' = 8 \<and> length b' = length b mod 64"
proof (induction h b rule: absorb.induct)
  case (1 h b)
  show ?case
  proof (cases "length b < 64")
    case True
    with 1 show ?thesis by (simp add: absorb.simps [of h b])
  next
    case False
    with 1 compress_length have "length h' = 8 \<and> length b' = (length b - 64) mod 64"
      by (simp add: absorb.simps [of h b])
    with False show ?thesis by (simp add: le_mod_geq)
  qed
qed

lemma digest_write_ok: "digest_ok d \<Longrightarrow> digest_ok (digest_write d p)"
proof -
  assume d: "digest_ok d"
  obtain h x where a: "absorb (dg_h d) (dg_x d @ p) = (h, x)" by fastforce
  have "(dg_len d + length p) mod 2 ^ 64 mod 64 = (dg_len d + length p) mod 64"
    by (simp add: mod_mod_cancel)
  moreover have "(dg_len d mod 64 + length p) mod 64 = (dg_len d + length p) mod 64"
    by (rule mod_add_left_eq)
  ultimately show ?thesis
    using d a absorb_ok [OF _ a] by (simp add: digest_ok_def digest_write_def)
qed

lemma new_digest_ok: "digest_ok new_digest"
  by (simp add: digest_ok_def new_digest_def initial_hash_def)

interpretation sha: hash_state sha256_hasher sha_after
proof
  have ok: "digest_ok (digest_write new_digest a)" for a by (rule digest_write_ok [OF new_digest_ok])
  show new: "hash_new sha256_hasher = sha_after []"
    by (simp add: sha256_hasher_def sha_after_def digest_write_Nil new_digest_def)
  show w: "hash_write sha256_hasher (sha_after a) b = Some (sha_after (a @ b))" for a b
    using unmarshal_marshal [OF ok] by (simp add: sha256_hasher_def sha_after_def digest_write_append)
  show "hash_sum sha256_hasher (sha_after a) = Some (hash_of sha256_hasher a)" for a
    using unmarshal_marshal [OF ok] w [of "[]" a] new by (simp add: hash_of_def) (simp add: sha256_hasher_def sha_after_def)
  show "sha_after a \<noteq> []" for a
    by (simp add: sha_after_def marshal_def magic256_def)
qed

lemma hash_of_sha256: "hash_of sha256_hasher m = sha256 m"
  using sha.state_write [of "[]" m] sha.state_new unmarshal_marshal [OF digest_write_ok [OF new_digest_ok]]
  by (simp add: hash_of_def sha256_def) (simp add: sha256_hasher_def sha_after_def)

end
