(* ===== verification/Sniff.thy ===== *)
theory Sniff
  imports GoStrings
begin

text \<open>
  \<^verbatim>\<open>internal/sniff/sniff.go\<close>: what a file is from its first bytes.  Its fallback is
  \<^verbatim>\<open>net/http.DetectContentType\<close>, modelled here as the table of signatures that function
  walks in order.
\<close>

datatype kind = KindImage | KindVideo | KindAudio | KindOther

definition HeadSize :: nat where "HeadSize = 512"
definition tsPacket :: nat where "tsPacket = 188"

section \<open>http.DetectContentType\<close>

definition is_ws :: "char \<Rightarrow> bool" where
  "is_ws c \<longleftrightarrow> c \<in> {CHR 0x09, CHR 0x0A, CHR 0x0C, CHR 0x0D, CHR '' ''}"

text \<open>A signature compares the data, or the data after its leading white space.\<close>

datatype signature =
    HtmlSig bytes
  | MaskedSig bool "bool list" bytes bytes
  | ExactSig bytes bytes
  | Mp4Sig
  | TextSig

definition upper_like :: "char \<Rightarrow> char \<Rightarrow> bool" where
  "upper_like p d = (if 65 \<le> byte p \<and> byte p \<le> 90
     then d = p \<or> byte d = byte p + 32 else d = p)"

definition html_match :: "bytes \<Rightarrow> bytes \<Rightarrow> bool" where
  "html_match h d \<longleftrightarrow> length h < length d \<and> list_all2 upper_like h (take (length h) d)
     \<and> (d ! length h = CHR '' '' \<or> d ! length h = CHR ''>'')"

definition masked_match :: "bool list \<Rightarrow> bytes \<Rightarrow> bytes \<Rightarrow> bool" where
  "masked_match ms pat d \<longleftrightarrow> length pat \<le> length d
     \<and> list_all2 (\<lambda>(m, p) c. \<not> m \<or> p = c) (zip ms pat) (take (length pat) d)"

definition box_size :: "bytes \<Rightarrow> nat" where
  "box_size d = foldl (\<lambda>a c. a * 256 + byte c) 0 (take 4 d)"

definition mp4_match :: "bytes \<Rightarrow> bool" where
  "mp4_match d \<longleftrightarrow> 12 \<le> length d \<and> box_size d \<le> length d \<and> box_size d mod 4 = 0
     \<and> take 4 (drop 4 d) = ''ftyp''
     \<and> list_ex (\<lambda>st. 8 \<le> st \<and> st \<noteq> 12 \<and> st mod 4 = 0 \<and> take 3 (drop st d) = ''mp4'') [0..<box_size d]"

definition binary_byte :: "char \<Rightarrow> bool" where
  "binary_byte c \<longleftrightarrow> byte c \<le> 0x08 \<or> byte c = 0x0B \<or> (0x0E \<le> byte c \<and> byte c \<le> 0x1A)
     \<or> (0x1C \<le> byte c \<and> byte c \<le> 0x1F)"

fun sig_match :: "signature \<Rightarrow> bytes \<Rightarrow> bytes option" where
  "sig_match (HtmlSig h) d =
     (if html_match h (dropWhile is_ws d) then Some ''text/html; charset=utf-8'' else None)"
| "sig_match (MaskedSig skip ms pat ct) d =
     (if masked_match ms pat (if skip then dropWhile is_ws d else d) then Some ct else None)"
| "sig_match (ExactSig pat ct) d = (if has_prefix d pat then Some ct else None)"
| "sig_match Mp4Sig d = (if mp4_match d then Some ''video/mp4'' else None)"
| "sig_match TextSig d =
     (if list_ex binary_byte (dropWhile is_ws d) then None else Some ''text/plain; charset=utf-8'')"

abbreviation zeros :: "nat \<Rightarrow> bytes" where "zeros n \<equiv> replicate n (CHR 0x00)"
abbreviation all_of :: "bytes \<Rightarrow> bool list" where "all_of p \<equiv> map (\<lambda>_. True) p"
abbreviation form_mask :: "nat \<Rightarrow> bool list" where
  "form_mask n \<equiv> replicate 4 True @ replicate 4 False @ replicate n True"

definition sniffSignatures :: "signature list" where
  "sniffSignatures =
     map HtmlSig [''<!DOCTYPE HTML'', ''<HTML'', ''<HEAD'', ''<SCRIPT'', ''<IFRAME'', ''<H1'', ''<DIV'',
       ''<FONT'', ''<TABLE'', ''<A'', ''<STYLE'', ''<TITLE'', ''<B'', ''<BODY'', ''<BR'', ''<P'', ''<!--'']
     @ [MaskedSig True (all_of ''<?xml'') ''<?xml'' ''text/xml; charset=utf-8'',
        ExactSig ''%PDF-'' ''application/pdf'',
        ExactSig ''%!PS-Adobe-'' ''application/postscript'',
        MaskedSig False [True, True, False, False] [CHR 0xFE, CHR 0xFF, CHR 0x00, CHR 0x00] ''text/plain; charset=utf-16be'',
        MaskedSig False [True, True, False, False] [CHR 0xFF, CHR 0xFE, CHR 0x00, CHR 0x00] ''text/plain; charset=utf-16le'',
        MaskedSig False [True, True, True, False] [CHR 0xEF, CHR 0xBB, CHR 0xBF, CHR 0x00] ''text/plain; charset=utf-8'',
        ExactSig [CHR 0x00, CHR 0x00, CHR 0x01, CHR 0x00] ''image/x-icon'',
        ExactSig [CHR 0x00, CHR 0x00, CHR 0x02, CHR 0x00] ''image/x-icon'',
        ExactSig ''BM'' ''image/bmp'',
        ExactSig ''GIF87a'' ''image/gif'',
        ExactSig ''GIF89a'' ''image/gif'',
        MaskedSig False (form_mask 6) (''RIFF'' @ zeros 4 @ ''WEBPVP'') ''image/webp'',
        ExactSig ([CHR 0x89] @ ''PNG'' @ [CHR 0x0D, CHR 0x0A, CHR 0x1A, CHR 0x0A]) ''image/png'',
        ExactSig [CHR 0xFF, CHR 0xD8, CHR 0xFF] ''image/jpeg'',
        MaskedSig False (form_mask 4) (''FORM'' @ zeros 4 @ ''AIFF'') ''audio/aiff'',
        ExactSig ''ID3'' ''audio/mpeg'',
        ExactSig (''OggS'' @ zeros 1) ''application/ogg'',
        ExactSig (''MThd'' @ zeros 3 @ [CHR 0x06]) ''audio/midi'',
        MaskedSig False (form_mask 4) (''RIFF'' @ zeros 4 @ ''AVI '') ''video/avi'',
        MaskedSig False (form_mask 4) (''RIFF'' @ zeros 4 @ ''WAVE'') ''audio/wave'',
        Mp4Sig,
        ExactSig [CHR 0x1A, CHR 0x45, CHR 0xDF, CHR 0xA3] ''video/webm'',
        MaskedSig False (replicate 34 False @ [True, True]) (zeros 34 @ ''LP'') ''application/vnd.ms-fontobject'',
        ExactSig [CHR 0x00, CHR 0x01, CHR 0x00, CHR 0x00] ''font/ttf'',
        ExactSig ''OTTO'' ''font/otf'',
        ExactSig ''ttcf'' ''font/collection'',
        ExactSig ''wOFF'' ''font/woff'',
        ExactSig ''wOF2'' ''font/woff2'',
        ExactSig [CHR 0x1F, CHR 0x8B, CHR 0x08] ''application/x-gzip'',
        ExactSig (''PK'' @ [CHR 0x03, CHR 0x04]) ''application/zip'',
        ExactSig (''Rar!'' @ [CHR 0x1A, CHR 0x07, CHR 0x00]) ''application/x-rar-compressed'',
        ExactSig (''Rar!'' @ [CHR 0x1A, CHR 0x07, CHR 0x01, CHR 0x00]) ''application/x-rar-compressed'',
        ExactSig ([CHR 0x00] @ ''asm'') ''application/wasm'',
        TextSig]"

fun first_match :: "signature list \<Rightarrow> bytes \<Rightarrow> bytes" where
  "first_match [] d = ''application/octet-stream''"
| "first_match (s # ss) d = (case sig_match s d of Some ct \<Rightarrow> ct | None \<Rightarrow> first_match ss d)"

definition DetectContentType :: "bytes \<Rightarrow> bytes" where
  "DetectContentType d = first_match sniffSignatures (take 512 d)"

section \<open>Sniff\<close>

definition isISOBMFF :: "bytes \<Rightarrow> bool" where
  "isISOBMFF head \<longleftrightarrow> 12 \<le> length head \<and> take 4 (drop 4 head) = ''ftyp''"

definition fromBrand :: "bytes \<Rightarrow> (bytes \<times> kind) option" where
  "fromBrand head =
     (let brand = take 4 (drop 8 head)
      in if brand \<in> set [''heic'', ''heix'', ''heim'', ''heis'', ''hevc'', ''hevx'', ''mif1'', ''msf1'']
         then Some (''image/heic'', KindImage)
         else if brand \<in> set [''avif'', ''avis''] then Some (''image/avif'', KindImage)
         else if brand = ''qt  '' then Some (''video/quicktime'', KindVideo)
         else if brand \<in> set [''M4A '', ''M4B ''] then Some (''audio/mp4'', KindAudio)
         else if brand \<in> set [''isom'', ''iso2'', ''iso4'', ''iso5'', ''iso6'', ''mp41'', ''mp42'', ''avc1'', ''dash'', ''M4V '', ''M4VP'']
         then Some (''video/mp4'', KindVideo)
         else None)"

definition isTransportStream :: "bytes \<Rightarrow> bool" where
  "isTransportStream head \<longleftrightarrow> 2 * tsPacket < length head
     \<and> head ! 0 = CHR 0x47 \<and> head ! tsPacket = CHR 0x47 \<and> head ! (2 * tsPacket) = CHR 0x47"

definition isTIFF :: "bytes \<Rightarrow> bool" where
  "isTIFF head \<longleftrightarrow> has_prefix head (''II*'' @ [CHR 0x00]) \<or> has_prefix head (''MM'' @ [CHR 0x00] @ ''*'')"

definition bytes_contains :: "bytes \<Rightarrow> bytes \<Rightarrow> bool" where
  "bytes_contains s t \<longleftrightarrow> list_ex (\<lambda>u. has_prefix u t) (suffixes s)"

definition known :: "bytes \<Rightarrow> (bytes \<times> kind) option" where
  "known head =
     (if isISOBMFF head then fromBrand head
      else if has_prefix head [CHR 0x1A, CHR 0x45, CHR 0xDF, CHR 0xA3] then
        (if bytes_contains head ''webm'' then Some (''video/webm'', KindVideo)
         else Some (''video/x-matroska'', KindVideo))
      else if isTransportStream head then Some (''video/mp2t'', KindVideo)
      else if has_prefix head [CHR 0x00, CHR 0x00, CHR 0x01, CHR 0xBA] then Some (''video/mpeg'', KindVideo)
      else if has_prefix head ''fLaC'' then Some (''audio/flac'', KindAudio)
      else if has_prefix head ''OggS'' then Some (''audio/ogg'', KindAudio)
      else if isTIFF head then Some (''image/tiff'', KindImage)
      else None)"

definition looksLikeText :: "bytes \<Rightarrow> bool" where
  "looksLikeText head \<longleftrightarrow> \<not> contains_char head (CHR 0x00)
     \<and> list_ex (\<lambda>cut. valid_utf8 (take (length head - cut) head)) [0, 1, 2, 3]"

definition kindOfMIME :: "bytes \<Rightarrow> kind" where
  "kindOfMIME m =
     (if has_prefix m ''image/'' then KindImage
      else if has_prefix m ''audio/'' then KindAudio
      else if has_prefix m ''video/'' then KindVideo
      else KindOther)"

definition Sniff :: "bytes \<Rightarrow> bytes \<times> kind" where
  "Sniff head =
     (if head = [] then ([], KindOther)
      else case known head of Some r \<Rightarrow> r | None \<Rightarrow>
        (let detected = DetectContentType head
         in if detected = [] \<or> has_prefix detected ''application/octet-stream'' then ([], KindOther)
            else if has_prefix detected ''text/plain'' \<and> \<not> looksLikeText head then ([], KindOther)
            else (detected, kindOfMIME detected)))"

text \<open>What it answers is consistent: the kind is the one its MIME type names.\<close>

lemma known_kind: "known head = Some (m, k) \<Longrightarrow> kindOfMIME m = k \<and> m \<noteq> []"
  unfolding known_def fromBrand_def Let_def
  by (auto simp: kindOfMIME_def has_prefix_def split: if_splits)

lemma Sniff_kind: "Sniff head = (m, k) \<Longrightarrow> k = kindOfMIME m"
  using known_kind [of head m k]
  by (auto simp: Sniff_def Let_def kindOfMIME_def [of "[]"] has_prefix_def [of "[]"] split: if_splits option.splits)

end
