(* ===== verification/BlobKey.thy ===== *)
theory BlobKey
  imports Sniff StorageKey
begin

text \<open>
  \<^verbatim>\<open>internal/files/blobkey.go\<close>: the name of the object a write stores.  The date is the
  upload date in UTC, so the civil calendar of \<^verbatim>\<open>time.Time\<close> is modelled with it.
\<close>

section \<open>The date of a moment\<close>

text \<open>Nanoseconds since the epoch to a day, and a day to a year, a month and a day of it.\<close>

definition civil :: "int \<Rightarrow> int \<times> int \<times> int" where
  "civil days =
     (let z = days + 719468;
          era = z div 146097;
          doe = z mod 146097;
          yoe = (doe - doe div 1460 + doe div 36524 - doe div 146096) div 365;
          doy = doe - (365 * yoe + yoe div 4 - yoe div 100);
          mp = (5 * doy + 2) div 153;
          d = doy - (153 * mp + 2) div 5 + 1;
          m = (if mp < 10 then mp + 3 else mp - 9);
          y = yoe + era * 400
      in (if m \<le> 2 then y + 1 else y, m, d))"

definition date_of :: "int \<Rightarrow> int \<times> int \<times> int" where
  "date_of t = civil (t div 86400000000000)"

text \<open>For evaluation: a moment that is not known yet is left alone.\<close>

lemma date_of_code [code]:
  "date_of t = (if t < 0 then civil (t div 86400000000000) else civil (t div 86400000000000))"
  by (simp add: date_of_def)

text \<open>\<open>%04d\<close> and \<open>%02d\<close>.\<close>

definition pad_zeros :: "nat \<Rightarrow> int \<Rightarrow> bytes" where
  "pad_zeros w n = (let ds = itoa \<bar>n\<bar>; sign = (if n < 0 then ''-'' else [])
     in sign @ replicate (w - length sign - length ds) (CHR ''0'') @ ds)"

section \<open>Kinds and extensions\<close>

definition maxExtLen :: nat where "maxExtLen = 8"

definition kind_name :: "kind \<Rightarrow> bytes" where
  "kind_name k = (case k of KindImage \<Rightarrow> ''image'' | KindVideo \<Rightarrow> ''video'' | KindAudio \<Rightarrow> ''audio'' | KindOther \<Rightarrow> ''other'')"

definition byExtension :: "bytes \<Rightarrow> bytes option" where
  "byExtension ext =
     (if ext \<in> set [''jpg'', ''jpeg'', ''png'', ''gif'', ''webp'', ''heic'', ''heif'', ''avif'', ''tif'', ''tiff'',
        ''bmp'', ''svg'', ''dng'', ''cr2'', ''nef'', ''arw'', ''raf'', ''orf'', ''rw2''] then Some ''image''
      else if ext \<in> set [''mp4'', ''mov'', ''m4v'', ''mkv'', ''webm'', ''avi'', ''mpg'', ''mpeg'', ''3gp'', ''wmv'',
        ''flv'', ''ts''] then Some ''video''
      else if ext \<in> set [''mp3'', ''flac'', ''m4a'', ''aac'', ''ogg'', ''oga'', ''opus'', ''wav'', ''wma'', ''aiff'',
        ''aif'', ''ape''] then Some ''audio''
      else if ext \<in> set [''pdf'', ''epub'', ''txt'', ''md'', ''rtf'', ''csv'', ''doc'', ''docx'', ''xls'', ''xlsx'',
        ''ppt'', ''pptx'', ''odt'', ''ods'', ''odp''] then Some ''document''
      else None)"

definition kindOf :: "bytes \<Rightarrow> kind \<Rightarrow> bytes" where
  "kindOf ext sniffed =
     (case sniffed of
        KindImage \<Rightarrow> ''image'' | KindVideo \<Rightarrow> ''video'' | KindAudio \<Rightarrow> ''audio''
      | KindOther \<Rightarrow> (case byExtension ext of Some k \<Rightarrow> k | None \<Rightarrow> ''other''))"

text \<open>
  \<open>strings.ToLower\<close>, as far as it matters here: an extension with a byte that is not an ASCII
  letter or digit is dropped by the test that follows, so what counts is what lowers to ASCII:
  the capital letters, the dotted capital I (U+0130) and the Kelvin sign (U+212A).
\<close>

definition lower :: "char \<Rightarrow> char" where
  "lower c = (if 65 \<le> byte c \<and> byte c \<le> 90 then char_of (byte c + 32) else c)"

fun to_lower :: "bytes \<Rightarrow> bytes" where
  "to_lower [] = []"
| "to_lower (c # cs) =
     (if c = CHR 0xC4 \<and> has_prefix cs [CHR 0xB0] then CHR ''i'' # to_lower (drop 1 cs)
      else if c = CHR 0xE2 \<and> has_prefix cs [CHR 0x84, CHR 0xAA] then CHR ''k'' # to_lower (drop 2 cs)
      else lower c # to_lower cs)"

definition alnum :: "char \<Rightarrow> bool" where
  "alnum c \<longleftrightarrow> (97 \<le> byte c \<and> byte c \<le> 122) \<or> (48 \<le> byte c \<and> byte c \<le> 57)"

definition extensionOf :: "bytes \<Rightarrow> bytes" where
  "extensionOf name =
     (let ext = to_lower (trim_prefix (path_ext name) ''.'')
      in if ext = [] \<or> maxExtLen < length ext then []
         else if list_ex (\<lambda>c. \<not> alnum c) ext then [] else ext)"

definition newBlobKey :: "bytes \<Rightarrow> kind \<Rightarrow> int \<Rightarrow> bytes \<Rightarrow> bytes" where
  "newBlobKey name sniffed t text =
     (let ext = extensionOf name;
          key = (case date_of t of (y, m, d) \<Rightarrow>
                   kindOf ext sniffed @ ''/'' @ pad_zeros 4 y @ ''/'' @ pad_zeros 2 m @ ''/'' @ pad_zeros 2 d @ ''/'' @ text)
      in if ext \<noteq> [] then key @ ''.'' @ ext else key)"

text \<open>The random part of a key: its last segment up to the extension.\<close>

definition key_id :: "bytes \<Rightarrow> bytes" where
  "key_id k = takeWhile (\<lambda>c. c \<noteq> dot) (base_name k)"

text \<open>
  \<^verbatim>\<open>crypto/rand.Text\<close>: characters of the base32 alphabet, at least the 26 that hold 128 bits (its
  documentation leaves room for longer ones).
\<close>

definition base32 :: "char \<Rightarrow> bool" where
  "base32 c \<longleftrightarrow> (65 \<le> byte c \<and> byte c \<le> 90) \<or> (50 \<le> byte c \<and> byte c \<le> 55)"

definition is_text :: "bytes \<Rightarrow> bool" where
  "is_text t \<longleftrightarrow> 26 \<le> length t \<and> list_all base32 t"

lemma is_text_chars: "is_text t \<Longrightarrow> slash \<notin> set t \<and> dot \<notin> set t \<and> t \<noteq> []"
  by (auto simp: is_text_def list_all_iff base32_def byte_def)

lemma base_name_append: "slash \<notin> set b \<Longrightarrow> base_name (a @ slash # b) = b"
  by (simp add: base_name_def last_index_append)

lemma extensionOf_chars: "c \<in> set (extensionOf n) \<Longrightarrow> alnum c"
  by (auto simp: extensionOf_def Let_def list_ex_iff split: if_splits)

lemma extensionOf_length: "length (extensionOf n) \<le> maxExtLen"
  by (auto simp: extensionOf_def Let_def)

lemma alnum_not_slash: "alnum c \<Longrightarrow> c \<noteq> slash"
  by (auto simp: alnum_def byte_def)

lemma newBlobKey_shape:
  "\<exists>dir. newBlobKey n k t x = dir @ slash # x @ (if extensionOf n = [] then [] else dot # extensionOf n)"
  by (cases "date_of t") (auto simp: newBlobKey_def Let_def intro: exI [of _ "_ @ _"])

lemma key_id_newBlobKey:
  assumes "is_text x"
  shows "key_id (newBlobKey n k t x) = x"
proof -
  obtain dir where d: "newBlobKey n k t x = dir @ slash # x @ (if extensionOf n = [] then [] else dot # extensionOf n)"
    using newBlobKey_shape by blast
  have "slash \<notin> set (x @ (if extensionOf n = [] then [] else dot # extensionOf n))"
    using is_text_chars [OF assms] extensionOf_chars alnum_not_slash by auto
  then have "base_name (newBlobKey n k t x) = x @ (if extensionOf n = [] then [] else dot # extensionOf n)"
    unfolding d by (rule base_name_append)
  moreover have "takeWhile (\<lambda>c. c \<noteq> dot) (x @ y) = x" if "y = [] \<or> hd y = dot" for y
    using is_text_chars [OF assms] that by (cases y) (auto simp: takeWhile_append takeWhile_eq_all_conv)
  ultimately show ?thesis unfolding key_id_def by simp
qed

end
