(* ===== verification/World.thy ===== *)
theory World
  imports Sqlite StoragePort Sha256 BlobKey
begin

text \<open>
  What \<^verbatim>\<open>internal/files\<close> works on: the blob store behind its port, the database, the
  machine, and what the watcher has been told.  A query draws from the same schedule of
  failures as a kernel call; a transaction is a snapshot of the database that is put back when
  its function, or its commit, fails.
\<close>

record 's world =
  w_blobs :: 's
  w_db :: database
  w_env :: env
  w_told :: "db_file list"

text \<open>\<open>Service\<close>: the blob store it was given, and the hash its ETags are made with.\<close>

record 's service =
  svc_blobs :: "'s port"
  svc_hash :: hasher

type_synonym ('s, 'a) act = "('s world, 'a) step"

text \<open>A call on the blob store.\<close>

definition blob :: "('s \<times> env, 'a) step \<Rightarrow> ('s, 'a) act" where
  "blob m w = (case m (w_blobs w, w_env w) of (r, (s, e)) \<Rightarrow> (r, w\<lparr>w_blobs := s, w_env := e\<rparr>))"

definition blob_list :: "'s service \<Rightarrow> bytes \<Rightarrow> 's world \<Rightarrow> (object_info list \<times> error option) \<times> 's world" where
  "blob_list S pre w =
     (case port_list (svc_blobs S) pre (w_blobs w, w_env w) of
        (r, (s, e)) \<Rightarrow> (r, w\<lparr>w_blobs := s, w_env := e\<rparr>))"

text \<open>A call that touches nothing but may fail: \<open>ctx.Err()\<close>, the beginning of a transaction.\<close>

definition check :: "('s, unit) act" where
  "check w = (case draw_fault (w_env w) of
     (None, e) \<Rightarrow> (Inr (), w\<lparr>w_env := e\<rparr>) | (Some _, e) \<Rightarrow> (Inl ErrOther, w\<lparr>w_env := e\<rparr>))"

definition run_query :: "'a query \<Rightarrow> ('s, 'a) act" where
  "run_query q w = (case q (w_db w) of (r, d) \<Rightarrow> (r, w\<lparr>w_db := d\<rparr>))"

definition query :: "'a query \<Rightarrow> ('s, 'a) act" where
  "query q = bindE check (\<lambda>_. run_query q)"

text \<open>\<open>sqlutil.InTx\<close>.\<close>

definition Tx :: "('s, 'a) act \<Rightarrow> ('s, 'a) act" where
  "Tx f w0 = bindE check (\<lambda>_ w.
     case f w of
       (Inl x, w') \<Rightarrow> (Inl x, w'\<lparr>w_db := w_db w0\<rparr>)
     | (Inr y, w') \<Rightarrow>
         (case check w' of
            (Inl x, w'') \<Rightarrow> (Inl x, w''\<lparr>w_db := w_db w0\<rparr>)
          | (Inr _, w'') \<Rightarrow> (Inr y, w''))) w0"

definition rand_id :: "('s, bytes) act" where
  "rand_id w = (Inr (texts (w_env w) (drawn (w_env w))), w\<lparr>w_env := (w_env w)\<lparr>drawn := Suc (drawn (w_env w))\<rparr>\<rparr>)"

definition clock :: "('s, int) act" where
  "clock w = (Inr (now (w_env w)), w)"

definition written :: "db_file \<Rightarrow> ('s, unit) act" where
  "written f w = (Inr (), w\<lparr>w_told := w_told w @ [f]\<rparr>)"

fun foreach :: "('a \<Rightarrow> ('s, unit) act) \<Rightarrow> 'a list \<Rightarrow> ('s, unit) act" where
  "foreach f [] = retE ()"
| "foreach f (x # xs) = bindE (f x) (\<lambda>_. foreach f xs)"

end
