(* ===== verification/FilesService.thy ===== *)
theory FilesService
  imports World
begin

text \<open>
  The file layer, \<^verbatim>\<open>internal/files/files.go\<close> with the parts of \<^verbatim>\<open>collect.go\<close> it
  calls: a file is a row and a blob, the blob is written first and the row second, and a row
  goes before its blob does.
\<close>

section \<open>Reading\<close>

definition Stat_file :: "bytes \<Rightarrow> bytes \<Rightarrow> ('s, db_file) act" where
  "Stat_file owner path = query (FileByPath owner path)"

definition List_dir :: "bytes \<Rightarrow> bytes \<Rightarrow> ('s, db_file list) act" where
  "List_dir owner dir = query (ListFiles owner dir)"

text \<open>\<open>ListPage\<close> asks for one row more than is wanted, and throws it away.\<close>

definition ListPage :: "bytes \<Rightarrow> bytes \<Rightarrow> file_order \<Rightarrow> cursor \<Rightarrow> int \<Rightarrow> ('s, db_file list \<times> bool) act" where
  "ListPage owner dir ord after limit =
     bindE (liftE (ValidateLimit limit)) (\<lambda>_.
     bindE (query (ListFilesPage owner dir ord after (wrap64 (limit + 1)))) (\<lambda>rows.
     if limit < int (length rows) then retE (take (nat limit) rows, True) else retE (rows, False)))"

text \<open>
  The body of a stored file as \<open>storeBlob\<close> reads it back for a copy: nothing is fetched for
  an empty file, a failed \<open>Get\<close> is a read that fails, and reading stops at the size of the
  row, except that one read of the head may run past it.
\<close>

definition no_bytes :: reader where
  "no_bytes = \<lparr>chunks = [], failure = None, eager = False\<rparr>"

definition bounded :: "int \<Rightarrow> reader \<Rightarrow> reader" where
  "bounded sz r = (if int (length (content r)) \<le> sz then r
     else \<lparr>chunks = [take (max (nat sz) HeadSize) (content r)], failure = None, eager = False\<rparr>)"

definition OpenFile :: "'s service \<Rightarrow> db_file \<Rightarrow> ('s, reader) act" where
  "OpenFile S f =
     (if f_is_dir f then failE ErrConflict
      else if f_size f \<le> 0 then retE no_bytes
      else tryE (blob (port_get (svc_blobs S) (f_blob f) (From 0))) (\<lambda>r.
           case r of
             Inl x \<Rightarrow> retE \<lparr>chunks = [], failure = Some x, eager = False\<rparr>
           | Inr (body, _) \<Rightarrow> retE (bounded (f_size f) body)))"

definition Open :: "'s service \<Rightarrow> bytes \<Rightarrow> bytes \<Rightarrow> ('s, reader \<times> db_file) act" where
  "Open S owner path =
     bindE (query (FileByPath owner path)) (\<lambda>f.
     if f_is_dir f then failE ErrConflict
     else bindE (OpenFile S f) (\<lambda>body. retE (body, f)))"

section \<open>Writing\<close>

definition contentType :: "bytes \<Rightarrow> bytes \<Rightarrow> bytes" where
  "contentType declared sniffed =
     (if sniffed = [] then declared
      else if declared = [] \<or> declared = ''application/octet-stream'' then sniffed
      else declared)"

definition multi_reader :: "bytes \<Rightarrow> reader \<Rightarrow> reader" where
  "multi_reader head r = r\<lparr>chunks := head # chunks r\<rparr>"

definition etag :: "'s service \<Rightarrow> bytes \<Rightarrow> bytes" where
  "etag S d = hex_encode (hash_of (svc_hash S) d)"

text \<open>
  \<open>storeBlob\<close>.  The digest sees what passes the \<open>TeeReader\<close>, which is the whole body once
  \<open>Put\<close> has succeeded.
\<close>

definition storeBlob :: "'s service \<Rightarrow> bytes \<Rightarrow> bytes \<Rightarrow> reader \<Rightarrow> int \<Rightarrow> bytes \<Rightarrow> ('s, db_file) act" where
  "storeBlob S owner path body sz mimeType =
     bindE (liftE (ValidatePath path)) (\<lambda>_.
     case read_full HeadSize body of (head, st, rest) \<Rightarrow>
     case st of Broken x \<Rightarrow> failE x | _ \<Rightarrow>
     case Sniff head of (sniffedType, sniffedKind) \<Rightarrow>
     bindE clock (\<lambda>t.
     bindE rand_id (\<lambda>id.
     let key = newBlobKey path sniffedKind t id; whole = multi_reader head rest in
     bindE (blob (port_put (svc_blobs S) key whole sz)) (\<lambda>info.
     retE (no_file\<lparr>f_owner := owner, f_path := path, f_blob := key, f_size := i_size info,
       f_mtime := i_mtime info, f_etag := etag S (content whole),
       f_mime := contentType mimeType sniffedType\<rparr>)))))"

definition requireParent :: "bytes \<Rightarrow> bytes \<Rightarrow> ('s, unit) act" where
  "requireParent owner path =
     (let parent = ParentOf path
      in if parent = [] then retE ()
         else tryE (query (FileByPath owner parent)) (\<lambda>r.
              case r of
                Inl x \<Rightarrow> failE x
              | Inr f \<Rightarrow> if \<not> f_is_dir f then failE ErrConflict else retE ()))"

definition replace :: "db_file \<Rightarrow> ('s, db_file \<times> bytes) act" where
  "replace f =
     bindE (requireParent (f_owner f) (f_path f)) (\<lambda>_.
     tryE (query (FileByPath (f_owner f) (f_path f))) (\<lambda>r.
     bindE (case r of
              Inr old \<Rightarrow> retE (if f_is_dir old then [] else f_blob old)
            | Inl x \<Rightarrow> if x = ErrNotFound then retE [] else failE x) (\<lambda>superseded.
     bindE (query (PutFile f)) (\<lambda>stored.
     retE (stored, superseded)))))"

definition DerivedPrefix :: bytes where
  "DerivedPrefix = ''derived/''"

definition dropBlob :: "'s service \<Rightarrow> bytes \<Rightarrow> ('s, unit) act" where
  "dropBlob S key =
     bindE (blob (port_delete (svc_blobs S) key)) (\<lambda>_ w.
     case blob_list S (DerivedPrefix @ key @ ''/'') w of
       ((is, err), w1) \<Rightarrow>
         bindE (foreach (\<lambda>i. blob (port_delete (svc_blobs S) (i_key i))) is) (\<lambda>_.
         case err of Some x \<Rightarrow> failE x | None \<Rightarrow> retE ()) w1)"

definition drop_old :: "'s service \<Rightarrow> bytes \<Rightarrow> ('s, unit) act" where
  "drop_old S key = (if key = [] then retE () else best_effort (dropBlob S key))"

definition write_file :: "'s service \<Rightarrow> bytes \<Rightarrow> bytes \<Rightarrow> reader \<Rightarrow> int \<Rightarrow> bytes \<Rightarrow> ('s, db_file) act" where
  "write_file S owner path body sz mimeType =
     bindE (storeBlob S owner path body sz mimeType) (\<lambda>f.
     tryE (Tx (replace f)) (\<lambda>r.
     case r of
       Inl x \<Rightarrow> bindE (best_effort (blob (port_delete (svc_blobs S) (f_blob f)))) (\<lambda>_. failE x)
     | Inr (stored, superseded) \<Rightarrow> bindE (drop_old S superseded) (\<lambda>_. retE stored)))"

definition Write :: "'s service \<Rightarrow> bytes \<Rightarrow> bytes \<Rightarrow> reader \<Rightarrow> int \<Rightarrow> bytes \<Rightarrow> ('s, db_file) act" where
  "Write S owner path body sz mimeType =
     bindE (write_file S owner path body sz mimeType) (\<lambda>f.
     bindE (written f) (\<lambda>_. retE f))"

definition Reserve :: "'s service \<Rightarrow> bytes \<Rightarrow> bytes \<Rightarrow> bytes \<Rightarrow> ('s, db_file) act" where
  "Reserve S owner path mimeType = write_file S owner path no_bytes 0 mimeType"

section \<open>Names and directories\<close>

definition MaxCopies :: nat where "MaxCopies = 100"

fun try_names :: "(bytes \<Rightarrow> ('s, db_file) act) \<Rightarrow> bytes \<Rightarrow> int list \<Rightarrow> ('s, bytes) act" where
  "try_names stat target [] = failE ErrConflict"
| "try_names stat target (n # ns) =
     bindE check (\<lambda>_.
     let candidate = CopyName target n in
     tryE (stat candidate) (\<lambda>r.
     case r of
       Inl x \<Rightarrow> if x = ErrNotFound then retE candidate else failE x
     | Inr _ \<Rightarrow> try_names stat target ns))"

definition freeName :: "(bytes \<Rightarrow> ('s, db_file) act) \<Rightarrow> bytes \<Rightarrow> ('s, bytes) act" where
  "freeName stat target = try_names stat target (map int [1..<Suc MaxCopies])"

definition FreeName :: "bytes \<Rightarrow> bytes \<Rightarrow> ('s, bytes) act" where
  "FreeName owner target = freeName (Stat_file owner) target"

definition Mkdir :: "bytes \<Rightarrow> bytes \<Rightarrow> ('s, db_file) act" where
  "Mkdir owner path =
     bindE (liftE (ValidatePath path)) (\<lambda>_.
     Tx (bindE (requireParent owner path) (\<lambda>_.
         bindE clock (\<lambda>t.
         query (CreateDir owner path t)))))"

fun mkdir_walk :: "bytes \<Rightarrow> bytes \<Rightarrow> bytes list \<Rightarrow> ('s, unit) act" where
  "mkdir_walk owner walked [] = retE ()"
| "mkdir_walk owner walked (segment # segments) =
     (let walked' = path_join walked segment in
      tryE (Stat_file owner walked') (\<lambda>r.
      case r of
        Inr existing \<Rightarrow> if f_is_dir existing then mkdir_walk owner walked' segments else failE ErrConflict
      | Inl x \<Rightarrow>
          if x \<noteq> ErrNotFound then failE x
          else tryE (Mkdir owner walked') (\<lambda>m.
               case m of
                 Inl y \<Rightarrow> if y \<noteq> ErrConflict then failE y else mkdir_walk owner walked' segments
               | Inr _ \<Rightarrow> mkdir_walk owner walked' segments)))"

definition MkdirAll_dirs :: "bytes \<Rightarrow> bytes \<Rightarrow> ('s, unit) act" where
  "MkdirAll_dirs owner dir =
     (if dir = ''.'' \<or> dir = ''/'' \<or> dir = [] then retE () else mkdir_walk owner [] (split_on slash dir))"

section \<open>Moving and removing\<close>

definition Move :: "bytes \<Rightarrow> bytes \<Rightarrow> bytes \<Rightarrow> ('s, unit) act" where
  "Move owner from to =
     Tx (bindE (requireParent owner to) (\<lambda>_. query (MoveFile owner from to)))"

text \<open>
  \<open>removeTree\<close> recurses over the rows it finds, so it carries a bound on the depth; the paths
  of a sound tree grow at every level and cannot outgrow \<open>MaxPathLen\<close>.
\<close>

fun removeTree :: "nat \<Rightarrow> bytes \<Rightarrow> bytes \<Rightarrow> ('s, db_file list) act"
  and removeAll :: "nat \<Rightarrow> bytes \<Rightarrow> db_file list \<Rightarrow> ('s, db_file list) act" where
  "removeTree 0 owner path = failE ErrOther"
| "removeTree (Suc n) owner path =
     bindE (query (FileByPath owner path)) (\<lambda>f.
     bindE (if f_is_dir f
            then bindE (query (ListFiles owner path)) (removeAll n owner)
            else retE []) (\<lambda>rows.
     bindE (query (DeleteFile owner path)) (\<lambda>_.
     retE (rows @ [f]))))"
| "removeAll n owner [] = retE []"
| "removeAll n owner (child # cs) =
     bindE (removeTree n owner (f_path child)) (\<lambda>under.
     bindE (removeAll n owner cs) (\<lambda>rest.
     retE (under @ rest)))"

definition depth_bound :: nat where
  "depth_bound = Suc MaxPathLen"

definition Trash :: "bytes \<Rightarrow> db_file list \<Rightarrow> int \<Rightarrow> ('s, unit) act" where
  "Trash batch rows at = foreach (\<lambda>f. query (InsertTrash batch at f)) rows"

definition Remove :: "bytes \<Rightarrow> bytes \<Rightarrow> ('s, unit) act" where
  "Remove owner path =
     bindE rand_id (\<lambda>batch.
     Tx (bindE (removeTree depth_bound owner path) (\<lambda>rows.
         bindE clock (\<lambda>t.
         Trash batch rows t))))"

end
