(* ===== verification/Accounts.thy ===== *)
theory Accounts
  imports FileMove FilesService "HOL-Library.Multiset"
begin

text \<open>
  Which blobs the database answers for, as a multiset over the rows of \<open>files\<close> and
  \<open>trash\<close>, and what every statement does to it.  This needs of the \<open>files\<close> table only what
  its unique index enforces, so it also holds where the tree itself has been damaged.
\<close>

definition row_ref :: "'a db_file_scheme \<Rightarrow> (bytes \<times> int) multiset" where
  "row_ref f = (if f_is_dir f then {#} else {#(f_blob f, f_size f)#})"

definition rows_refs :: "'a db_file_scheme list \<Rightarrow> (bytes \<times> int) multiset" where
  "rows_refs fs = sum_list (map row_ref fs)"

definition refs :: "database \<Rightarrow> (bytes \<times> int) multiset" where
  "refs d = rows_refs (files d) + rows_refs (trash d)"

definition uniq :: "database \<Rightarrow> bool" where
  "uniq d \<longleftrightarrow> distinct (map row_key_of (files d))"

lemma rows_refs_simps [simp]:
  "rows_refs [] = {#}" "rows_refs (f # fs) = row_ref f + rows_refs fs"
  "rows_refs (xs @ ys) = rows_refs xs + rows_refs ys"
  by (simp_all add: rows_refs_def)

lemma rows_refs_mset: "mset xs = mset ys \<Longrightarrow> rows_refs xs = rows_refs ys"
  unfolding rows_refs_def by (metis mset_map sum_mset_sum_list)

lemma rows_refs_filter: "rows_refs fs = rows_refs (filter P fs) + rows_refs (filter (\<lambda>r. \<not> P r) fs)"
  by (induction fs) simp_all

lemma rows_refs_cong: "map row_ref xs = map row_ref ys \<Longrightarrow> rows_refs xs = rows_refs ys"
  by (simp add: rows_refs_def)

lemma uniq_filter_key:
  assumes "distinct (map row_key_of fs)" "r \<in> set fs" "at_key owner path r"
  shows "filter (at_key owner path) fs = [r]"
  using assms
proof (induction fs)
  case (Cons x fs)
  have key: "at_key owner path y \<Longrightarrow> row_key_of y = (owner, path)" for y
    by (simp add: at_key_def row_key_of_def)
  show ?case
  proof (cases "r = x")
    case True
    with Cons.prems key have "\<forall>y\<in>set fs. \<not> at_key owner path y"
      by (metis distinct.simps(2) image_eqI list.map(2) set_map)
    with True Cons.prems show ?thesis by (simp add: filter_empty_conv)
  next
    case False
    with Cons.prems have r: "r \<in> set fs" by simp
    with Cons.prems key have "\<not> at_key owner path x"
      by (metis distinct.simps(2) image_eqI list.map(2) set_map)
    with Cons r show ?thesis by simp
  qed
qed simp

lemma find_filter: "filter P xs = x # ys \<Longrightarrow> find P xs = Some x"
  by (induction xs) (auto split: if_splits)

section \<open>The statements\<close>

lemma PutFile_account:
  assumes u: "uniq d" and put: "PutFile f d = (r, d')"
  shows "uniq d' \<and> trash d' = trash d \<and> uploads d' = uploads d \<and>
    (case r of Inl _ \<Rightarrow> d' = d
     | Inr g \<Rightarrow> f_blob g = f_blob f \<and> f_size g = f_size f \<and> (case lookup_file d (f_owner f) (f_path f) of
         None \<Rightarrow> refs d' = refs d + {#(f_blob f, f_size f)#}
       | Some x \<Rightarrow> \<not> f_is_dir x \<and> refs d' + row_ref x = refs d + {#(f_blob f, f_size f)#}))"
proof (cases "valid_path (f_path f)")
  case False
  with u put show ?thesis by (auto simp: PutFile_def ValidatePath_cases)
next
  case valid: True
  show ?thesis
  proof (cases "lookup_file d (f_owner f) (f_path f)")
    case None
    with put valid have d': "d' = d\<lparr>files := files d @ [new_row ((Normalize f)\<lparr>f_id := next_id d\<rparr>) False], next_id := next_id d + 1\<rparr>"
      and r: "r = Inr ((Normalize f)\<lparr>f_id := next_id d\<rparr>)"
      by (auto simp: PutFile_def Let_def ValidatePath_cases)
    have "\<forall>x\<in>set (files d). row_key_of x \<noteq> (f_owner f, f_path f)"
      using None by (auto simp: lookup_file_None_iff at_key_def row_key_of_def)
    with u have "uniq d'" unfolding d' by (auto simp: uniq_def row_key_of_def)
    with None r show ?thesis unfolding d' by (simp add: refs_def row_ref_def)
  next
    case (Some x)
    show ?thesis
    proof (cases "f_is_dir x")
      case True
      with Some put valid u show ?thesis by (auto simp: PutFile_def Let_def ValidatePath_cases)
    next
      case False
      let ?g = "\<lambda>y. if at_key (f_owner f) (f_path f) y
        then y\<lparr>f_blob := f_blob f, f_size := f_size f, f_mtime := truncate_time (f_mtime (Normalize f)), f_etag := f_etag f, f_mime := f_mime f\<rparr>
        else y"
      from Some put valid False have d': "d' = d\<lparr>files := map ?g (files d)\<rparr>"
        and r: "r = Inr ((Normalize f)\<lparr>f_id := f_id x\<rparr>)"
        by (auto simp: PutFile_def Let_def ValidatePath_cases)
      have keys: "map row_key_of (map ?g (files d)) = map row_key_of (files d)"
        by (simp add: row_key_of_def)
      from lookup_file_SomeD [OF Some] have x: "x \<in> set (files d)" "at_key (f_owner f) (f_path f) x"
        by (auto simp: at_key_def)
      let ?K = "at_key (f_owner f) (f_path f)"
      have one: "filter ?K (files d) = [x]" using u x by (intro uniq_filter_key) (simp_all add: uniq_def)
      have "rows_refs (map ?g fs) + rows_refs (filter ?K fs) = rows_refs fs + rows_refs (map ?g (filter ?K fs))" for fs
        by (induction fs) (auto simp: algebra_simps)
      from this [of "files d"] have "rows_refs (map ?g (files d)) + row_ref x = rows_refs (files d) + {#(f_blob f, f_size f)#}"
        using x(2) False unfolding one by (simp add: row_ref_def)
      moreover have "uniq d'"
        using u keys unfolding d' uniq_def by (simp del: map_map map_eq_conv)
      ultimately show ?thesis
        using r Some False unfolding d' by (simp add: refs_def algebra_simps)
    qed
  qed
qed

lemma CreateDir_account:
  assumes u: "uniq d" and mk: "CreateDir owner path t d = (r, d')"
  shows "uniq d' \<and> trash d' = trash d \<and> uploads d' = uploads d \<and> refs d' = refs d"
proof (cases "valid_path path \<and> lookup_file d owner path = None")
  case True
  then have "\<forall>x\<in>set (files d). row_key_of x \<noteq> (owner, path)"
    by (auto simp: lookup_file_None_iff at_key_def row_key_of_def)
  with u mk True show ?thesis
    by (auto simp: CreateDir_def Let_def ValidatePath_cases uniq_def refs_def row_ref_def row_key_of_def no_file_def)
next
  case False
  with u mk show ?thesis by (auto simp: CreateDir_def Let_def ValidatePath_cases split: option.splits if_splits)
qed

lemma FileByPath_same: "snd (FileByPath owner path d) = d"
  and ListFiles_same: "snd (ListFiles owner path d) = d"
  and BlobKeys_same: "snd (BlobKeys d) = d"
  and TrashKeys_same: "snd (TrashKeys d) = d"
  and TrashedIn_same: "snd (TrashedIn owner b d) = d"
  and ExpiredTrash_same: "snd (ExpiredTrash t d) = d"
  and UploadByID_same: "snd (UploadByID owner b d) = d"
  and ExpiredUploads_same: "snd (ExpiredUploads t d) = d"
  and ListFilesPage_same: "snd (ListFilesPage owner path ord c n d) = d"
  by (simp_all add: FileByPath_def ListFiles_def BlobKeys_def TrashKeys_def TrashedIn_def ExpiredTrash_def
      UploadByID_def ExpiredUploads_def ListFilesPage_def split: sum.splits option.splits)

lemma FileByPath_ok: "FileByPath owner path d = (Inr f, d') \<longleftrightarrow>
    d' = d \<and> valid_path path \<and> (\<exists>r. lookup_file d owner path = Some r \<and> f = scan_file r)"
  by (auto simp: FileByPath_def ValidatePath_cases split: option.splits)

lemma FileByPath_none: "FileByPath owner path d = (Inl ErrNotFound, d') \<longleftrightarrow>
    d' = d \<and> valid_path path \<and> lookup_file d owner path = None"
  by (auto simp: FileByPath_def ValidatePath_cases split: option.splits)

lemma row_ref_scan [simp]: "row_ref (scan_file r) = row_ref r"
  by (simp add: row_ref_def)

lemma DeleteFile_account:
  assumes u: "uniq d" and del: "DeleteFile owner path d = (r, d')"
  shows "uniq d' \<and> trash d' = trash d \<and> uploads d' = uploads d \<and> set (files d') \<subseteq> set (files d)
    \<and> (case r of Inl _ \<Rightarrow> d' = d
       | Inr _ \<Rightarrow> \<exists>x. lookup_file d owner path = Some x \<and> refs d = refs d' + row_ref x)"
proof (cases "valid_path path")
  case False
  with u del show ?thesis by (auto simp: DeleteFile_def ValidatePath_cases)
next
  case valid: True
  let ?doomed = "\<lambda>r. at_key owner path r \<and> children d owner path = []"
  let ?d = "d\<lparr>files := filter (\<lambda>r. \<not> ?doomed r) (files d)\<rparr>"
  from del valid have d': "d' = ?d" and r: "r = CheckAffected (length (filter ?doomed (files d))) ?d owner path"
    by (auto simp: DeleteFile_def Let_def ValidatePath_cases)
  have "uniq ?d" using u by (auto simp: uniq_def distinct_map_filter)
  moreover have "?d = d" if "\<not> is_ok r"
  proof -
    from that r have "filter ?doomed (files d) = []"
      by (auto simp: CheckAffected_def split: if_splits option.splits)
    then have "filter (\<lambda>r. \<not> ?doomed r) (files d) = files d"
      by (intro filter_take_id) (auto simp: filter_empty_conv)
    then show ?thesis by simp
  qed
  moreover have "\<exists>x. lookup_file d owner path = Some x \<and> refs d = refs ?d + row_ref x" if "is_ok r"
  proof -
    from that r have "filter ?doomed (files d) \<noteq> []"
      by (auto simp: CheckAffected_def split: option.splits if_splits)
    then obtain x where x: "x \<in> set (files d)" "?doomed x" unfolding filter_empty_conv by blast
    with u have "filter (at_key owner path) (files d) = [x]" by (intro uniq_filter_key) (auto simp: uniq_def)
    with x have one: "filter ?doomed (files d) = [x]" by simp
    from rows_refs_filter [of "files d" "\<lambda>r. \<not> ?doomed r"] one
    have "rows_refs (files d) = rows_refs (filter (\<lambda>r. \<not> ?doomed r) (files d)) + row_ref x" by simp
    moreover have "lookup_file d owner path = Some x"
      using \<open>filter (at_key owner path) (files d) = [x]\<close> unfolding lookup_file_def by (rule find_filter)
    ultimately show ?thesis by (simp add: refs_def)
  qed
  ultimately show ?thesis using d' by (cases r) auto
qed

lemma sql_update_account:
  assumes ref: "\<And>r. row_ref (g r) = row_ref r"
  shows "sql_update sel g done rs = Some out \<Longrightarrow> distinct (map row_key_of (done @ rs)) \<Longrightarrow>
    distinct (map row_key_of out) \<and> map row_ref out = map row_ref (done @ rs)"
proof (induction rs arbitrary: "done")
  case (Cons r rs)
  show ?case
  proof (cases "sel r")
    case True
    with Cons.prems(1) have no: "\<not> list_ex (same_key (g r)) (done @ rs)"
      and run: "sql_update sel g (done @ [g r]) rs = Some out" by (auto split: if_splits)
    from no have "row_key_of (g r) \<notin> row_key_of ` (set done \<union> set rs)"
      by (auto simp: list_ex_iff same_key_def row_key_of_def)
    then have "row_key_of (g r) \<notin> set (map row_key_of done)" "row_key_of (g r) \<notin> set (map row_key_of rs)"
      by auto
    with Cons.prems(2) have "distinct (map row_key_of ((done @ [g r]) @ rs))" by simp
    from Cons.IH [OF run this] show ?thesis by (simp add: ref)
  next
    case False
    with Cons show ?thesis by simp
  qed
qed simp

lemma MoveFile_account:
  assumes u: "uniq d" and mv: "MoveFile owner from to d = (r, d')"
  shows "uniq d' \<and> trash d' = trash d \<and> uploads d' = uploads d \<and> refs d' = refs d"
proof -
  have acct: "uniq (d0\<lparr>files := out\<rparr>) \<and> refs (d0\<lparr>files := out\<rparr>) = refs d0"
    if "sql_update sel g [] (files d0) = Some out" "uniq d0" "\<And>r. row_ref (g r) = row_ref r" for d0 sel g out
  proof -
    from sql_update_account [OF that(3,1)] that(2)
    have "distinct (map row_key_of out)" "map row_ref out = map row_ref (files d0)"
      by (simp_all add: uniq_def)
    from this(1) rows_refs_cong [OF this(2)] show ?thesis by (simp add: uniq_def refs_def)
  qed
  have one: "row_ref (move_one to x) = row_ref x" for x by (simp add: move_one_def row_ref_def)
  have tree: "row_ref (move_tree to n x) = row_ref x" for x n by (simp add: move_tree_def row_ref_def)
  show ?thesis
  proof (cases "ValidateMove from to = Inr ()")
    case valid: True
    show ?thesis
    proof (cases "sql_update (at_key owner from) (move_one to) [] (files d)")
      case None
      with valid mv u show ?thesis by (simp add: MoveFile_def)
    next
      case (Some moved)
      let ?d1 = "d\<lparr>files := moved\<rparr>"
      note a1 = acct [OF Some u one]
      show ?thesis
      proof (cases "sql_update (in_tree owner from) (move_tree to (length from + 1)) [] moved")
        case None
        with valid mv Some a1 show ?thesis by (auto simp: MoveFile_def Let_def split: sum.splits)
      next
        case whole: (Some out)
        have "uniq (?d1\<lparr>files := out\<rparr>) \<and> refs (?d1\<lparr>files := out\<rparr>) = refs ?d1"
          by (rule acct [OF _ _ tree]) (use whole a1 in simp_all)
        with valid mv Some a1 whole show ?thesis by (auto simp: MoveFile_def Let_def split: sum.splits)
      qed
    qed
  next
    case False
    with mv u show ?thesis by (cases "ValidateMove from to") (auto simp: MoveFile_def)
  qed
qed

lemma InsertTrash_account:
  "InsertTrash b t f d = (r, d') \<Longrightarrow> uniq d' = uniq d \<and> files d' = files d \<and> uploads d' = uploads d \<and> refs d' = refs d + row_ref f"
  by (auto simp: InsertTrash_def uniq_def refs_def trash_row_def row_ref_def)

lemma DeleteTrash_account:
  assumes "TrashedIn owner b d = (Inr rows, d)" "DeleteTrash owner b d = (r, d')"
  shows "uniq d' = uniq d \<and> files d' = files d \<and> uploads d' = uploads d \<and> refs d = refs d' + rows_refs rows \<and> r = Inr ()"
proof -
  let ?P = "\<lambda>t. f_owner t = owner \<and> t_batch t = b"
  from assms have rows: "rows = sort_key f_path (filter ?P (trash d))"
    and d': "d' = d\<lparr>trash := filter (\<lambda>t. \<not> ?P t) (trash d)\<rparr>" "r = Inr ()"
    by (auto simp: TrashedIn_def DeleteTrash_def)
  have "rows_refs rows = rows_refs (filter ?P (trash d))"
    unfolding rows by (rule rows_refs_mset) simp
  with d' rows_refs_filter [of "trash d" ?P] show ?thesis
    by (simp add: uniq_def refs_def algebra_simps)
qed

section \<open>Accounting for an action\<close>

lemma check_cases:
  "check w = (r, w') \<Longrightarrow> \<exists>e. w' = w\<lparr>w_env := e\<rparr> \<and> env_step (w_env w) e \<and> (r = Inr () \<or> r = Inl ErrOther)"
  by (auto simp: check_def dest: draw_fault_step split: prod.splits option.splits)

lemma check_calm: "calm (w_env w) \<Longrightarrow> \<exists>e. check w = (Inr (), w\<lparr>w_env := e\<rparr>) \<and> calm e \<and> env_step (w_env w) e"
  using draw_fault_calm [of "w_env w"] by (auto simp: check_def)

lemma query_cases:
  assumes "query q w = (r, w')"
  obtains e where "env_step (w_env w) e" "w' = w\<lparr>w_env := e\<rparr>" "r = Inl ErrOther"
  | e d where "env_step (w_env w) e" "q (w_db w) = (r, d)" "w' = w\<lparr>w_env := e, w_db := d\<rparr>"
proof -
  obtain c w1 where c: "check w = (c, w1)" by fastforce
  from check_cases [OF c] obtain e where e: "w1 = w\<lparr>w_env := e\<rparr>" "env_step (w_env w) e"
    "c = Inr () \<or> c = Inl ErrOther" by blast
  show ?thesis
  proof (cases c)
    case (Inl x)
    with assms c e that(1) show ?thesis by (auto simp: query_def bindE_def)
  next
    case (Inr u)
    obtain y d where "q (w_db w) = (y, d)" by fastforce
    with assms c e Inr that(2) [of e d] show ?thesis by (auto simp: query_def bindE_def run_query_def)
  qed
qed

text \<open>
  \<open>accounts N m M\<close>: while \<open>m\<close> runs, the blob store does not change and nobody is told
  anything, and the database never answers for more than it did before with \<open>N\<close> besides;
  what of that is left over for the caller once \<open>m\<close> has returned \<open>x\<close> is \<open>M x\<close>.
\<close>

definition accounts :: "(bytes \<times> int) multiset \<Rightarrow> ('s, 'a) act \<Rightarrow> ('a \<Rightarrow> (bytes \<times> int) multiset) \<Rightarrow> bool" where
  "accounts N m M \<longleftrightarrow> (\<forall>w r w'. uniq (w_db w) \<longrightarrow> m w = (r, w') \<longrightarrow>
     w_blobs w' = w_blobs w \<and> env_step (w_env w) (w_env w') \<and> w_told w' = w_told w \<and> uniq (w_db w')
     \<and> set (uploads (w_db w')) \<subseteq> set (uploads (w_db w))
     \<and> (case r of Inl _ \<Rightarrow> refs (w_db w') \<subseteq># refs (w_db w) + N
        | Inr x \<Rightarrow> refs (w_db w') + M x \<subseteq># refs (w_db w) + N))"

lemma accountsI:
  "(\<And>w r w'. uniq (w_db w) \<Longrightarrow> m w = (r, w') \<Longrightarrow>
     w_blobs w' = w_blobs w \<and> env_step (w_env w) (w_env w') \<and> w_told w' = w_told w \<and> uniq (w_db w')
     \<and> set (uploads (w_db w')) \<subseteq> set (uploads (w_db w))
     \<and> (case r of Inl _ \<Rightarrow> refs (w_db w') \<subseteq># refs (w_db w) + N
        | Inr x \<Rightarrow> refs (w_db w') + M x \<subseteq># refs (w_db w) + N)) \<Longrightarrow> accounts N m M"
  unfolding accounts_def by blast

lemma accountsD:
  "accounts N m M \<Longrightarrow> uniq (w_db w) \<Longrightarrow> m w = (r, w') \<Longrightarrow>
     w_blobs w' = w_blobs w \<and> env_step (w_env w) (w_env w') \<and> w_told w' = w_told w \<and> uniq (w_db w')
     \<and> set (uploads (w_db w')) \<subseteq> set (uploads (w_db w))
     \<and> (case r of Inl _ \<Rightarrow> refs (w_db w') \<subseteq># refs (w_db w) + N
        | Inr x \<Rightarrow> refs (w_db w') + M x \<subseteq># refs (w_db w) + N)"
  unfolding accounts_def by blast

lemma sub_trans_left: "A \<subseteq># B + M \<Longrightarrow> B + M \<subseteq># C \<Longrightarrow> (A :: 'a multiset) \<subseteq># C"
  by (rule subset_mset.order_trans)

lemma accounts_try:
  assumes m: "accounts N m M" and ok: "\<And>x. accounts (M x) (f (Inr x)) K" and err: "\<And>e. accounts N (f (Inl e)) K"
    and same: "\<And>w e w'. m w = (Inl e, w') \<Longrightarrow> w_db w' = w_db w"
  shows "accounts N (tryE m f) K"
proof (rule accountsI)
  fix w r w' assume u: "uniq (w_db w)" and run: "tryE m f w = (r, w')"
  obtain y w1 where y: "m w = (y, w1)" by fastforce
  from run y have f: "f y w1 = (r, w')" by (simp add: tryE_def)
  note mm = accountsD [OF m u y]
  show "w_blobs w' = w_blobs w \<and> env_step (w_env w) (w_env w') \<and> w_told w' = w_told w \<and> uniq (w_db w')
     \<and> set (uploads (w_db w')) \<subseteq> set (uploads (w_db w))
     \<and> (case r of Inl _ \<Rightarrow> refs (w_db w') \<subseteq># refs (w_db w) + N | Inr x \<Rightarrow> refs (w_db w') + K x \<subseteq># refs (w_db w) + N)"
  proof (cases y)
    case (Inl e)
    with accountsD [OF err [of e], of w1 r w'] mm f same y show ?thesis
      by (auto split: sum.splits intro: env_step_trans)
  next
    case (Inr x)
    with accountsD [OF ok [of x], of w1 r w'] mm f show ?thesis
      by (auto split: sum.splits intro: env_step_trans sub_trans_left)
  qed
qed

lemma accounts_bind:
  assumes m: "accounts N m M" and f: "\<And>x. accounts (M x) (f x) K"
  shows "accounts N (bindE m f) K"
proof (rule accountsI)
  fix w r w' assume u: "uniq (w_db w)" and run: "bindE m f w = (r, w')"
  obtain y w1 where y: "m w = (y, w1)" by fastforce
  note mm = accountsD [OF m u y]
  show "w_blobs w' = w_blobs w \<and> env_step (w_env w) (w_env w') \<and> w_told w' = w_told w \<and> uniq (w_db w')
     \<and> set (uploads (w_db w')) \<subseteq> set (uploads (w_db w))
     \<and> (case r of Inl _ \<Rightarrow> refs (w_db w') \<subseteq># refs (w_db w) + N | Inr x \<Rightarrow> refs (w_db w') + K x \<subseteq># refs (w_db w) + N)"
  proof (cases y)
    case (Inl e)
    with mm run y show ?thesis by (auto simp: bindE_def)
  next
    case (Inr x)
    with run y have "f x w1 = (r, w')" by (simp add: bindE_def)
    with Inr accountsD [OF f [of x], of w1 r w'] mm show ?thesis
      by (auto split: sum.splits intro: env_step_trans sub_trans_left)
  qed
qed

lemma accounts_ret: "M x \<subseteq># N \<Longrightarrow> accounts N (retE x) M"
  and accounts_fail: "accounts N (failE e) M"
  and accounts_lift: "(\<And>x. r = Inr x \<Longrightarrow> M x \<subseteq># N) \<Longrightarrow> accounts N (liftE r) M"
  by (auto simp: accounts_def split: sum.splits)

lemma accounts_if: "(b \<Longrightarrow> accounts N m M) \<Longrightarrow> (\<not> b \<Longrightarrow> accounts N n M) \<Longrightarrow> accounts N (if b then m else n) M"
  by simp

lemma accounts_check: "accounts N check (\<lambda>_. N)"
  by (rule accountsI) (auto dest!: check_cases)

lemma accounts_clock: "accounts N clock (\<lambda>_. N)"
  by (rule accountsI) (auto simp: clock_def)

lemma accounts_query:
  assumes "\<And>d r d'. uniq d \<Longrightarrow> q d = (r, d') \<Longrightarrow> uniq d' \<and> set (uploads d') \<subseteq> set (uploads d) \<and>
     (case r of Inl _ \<Rightarrow> refs d' \<subseteq># refs d + N | Inr x \<Rightarrow> refs d' + M x \<subseteq># refs d + N)"
  shows "accounts N (query q) M"
proof (rule accountsI)
  fix w r w' assume u: "uniq (w_db w)" and q: "query q w = (r, w')"
  from q show "w_blobs w' = w_blobs w \<and> env_step (w_env w) (w_env w') \<and> w_told w' = w_told w \<and> uniq (w_db w')
     \<and> set (uploads (w_db w')) \<subseteq> set (uploads (w_db w))
     \<and> (case r of Inl _ \<Rightarrow> refs (w_db w') \<subseteq># refs (w_db w) + N | Inr x \<Rightarrow> refs (w_db w') + M x \<subseteq># refs (w_db w) + N)"
  proof (cases rule: query_cases)
    case (1 e)
    with u show ?thesis by simp
  next
    case (2 e d)
    with assms [OF u 2(2)] show ?thesis by (cases r) simp_all
  qed
qed

lemma accounts_look:
  assumes "\<And>d. snd (q d) = d"
  shows "accounts N (query q) (\<lambda>_. N)"
proof (rule accounts_query)
  fix d d' and r :: "error + 'a"
  assume "uniq d" "q d = (r, d')"
  moreover from this assms [of d] have "d' = d" by simp
  ultimately show "uniq d' \<and> set (uploads d') \<subseteq> set (uploads d) \<and>
     (case r of Inl _ \<Rightarrow> refs d' \<subseteq># refs d + N | Inr x \<Rightarrow> refs d' + N \<subseteq># refs d + N)"
    by (cases r) simp_all
qed

lemmas same_queries = FileByPath_same ListFiles_same TrashedIn_same BlobKeys_same TrashKeys_same
  ExpiredTrash_same UploadByID_same ExpiredUploads_same ListFilesPage_same

lemma query_look_same: "(\<And>d. snd (q d) = d) \<Longrightarrow> query q w = (r, w') \<Longrightarrow> w_db w' = w_db w"
  by (erule query_cases) (auto, metis snd_conv)

lemma accounts_CreateDir: "accounts N (query (CreateDir owner path t)) (\<lambda>_. N)"
  by (rule accounts_query) (auto dest: CreateDir_account split: sum.splits)

lemma accounts_MoveFile: "accounts N (query (MoveFile owner from to)) (\<lambda>_. N)"
  by (rule accounts_query) (auto dest: MoveFile_account split: sum.splits)

lemma accounts_requireParent: "accounts N (requireParent owner path) (\<lambda>_. N)"
  unfolding requireParent_def Let_def
  by (intro accounts_if accounts_ret accounts_try [OF accounts_look [OF FileByPath_same]])
    (auto intro!: accounts_fail accounts_ret dest: query_look_same [OF FileByPath_same] split: sum.splits)

lemma accounts_InsertTrash: "accounts (N + row_ref f) (query (InsertTrash b t f)) (\<lambda>_. N)"
  by (rule accounts_query) (auto dest: InsertTrash_account split: sum.splits simp: algebra_simps)

lemma accounts_Trash: "accounts (N + rows_refs rows) (Trash b rows t) (\<lambda>_. N)"
  unfolding Trash_def
proof (induction rows)
  case Nil
  then show ?case unfolding foreach.simps by (rule accounts_ret) simp
next
  case (Cons f fs)
  have "accounts ((N + rows_refs fs) + row_ref f) (query (InsertTrash b t f)) (\<lambda>_. N + rows_refs fs)"
    by (rule accounts_InsertTrash)
  with Cons show ?case
    by (simp only: foreach.simps rows_refs_simps) (rule accounts_bind, simp_all add: algebra_simps)
qed

section \<open>Removing a tree\<close>

definition shrinks :: "('s world) \<Rightarrow> db_file list result \<Rightarrow> 's world \<Rightarrow> bool" where
  "shrinks w r w' \<longleftrightarrow> w_blobs w' = w_blobs w \<and> env_step (w_env w) (w_env w') \<and> w_told w' = w_told w
     \<and> uniq (w_db w') \<and> set (files (w_db w')) \<subseteq> set (files (w_db w)) \<and> trash (w_db w') = trash (w_db w)
     \<and> uploads (w_db w') = uploads (w_db w)
     \<and> (case r of Inl _ \<Rightarrow> refs (w_db w') \<subseteq># refs (w_db w)
        | Inr rows \<Rightarrow> refs (w_db w) = refs (w_db w') + rows_refs rows)"

lemma shrinks_look:
  "(\<And>d. snd (q d) = d) \<Longrightarrow> query q w = (r, w') \<Longrightarrow> uniq (w_db w) \<Longrightarrow>
     w_blobs w' = w_blobs w \<and> env_step (w_env w) (w_env w') \<and> w_told w' = w_told w \<and> w_db w' = w_db w"
  by (erule query_cases) (auto, metis snd_conv)

lemma shrinks_err: "shrinks w (Inl e) w' \<Longrightarrow> shrinks w (Inl e') w'"
  by (simp add: shrinks_def)

lemma shrinks_trans:
  "shrinks w (Inr a) w1 \<Longrightarrow> shrinks w1 r w2 \<Longrightarrow> shrinks w (map_sum id (\<lambda>b. a @ b) r) w2"
  by (cases r) (auto simp: shrinks_def algebra_simps intro: env_step_trans subset_mset.order_trans)

lemma shrinks_refl: "uniq (w_db w) \<Longrightarrow> shrinks w (Inr []) w"
  by (simp add: shrinks_def)

lemma uniq_lookup_subset:
  assumes "uniq d" "set (files d') \<subseteq> set (files d)" "uniq d'"
    "lookup_file d owner path = Some r" "lookup_file d' owner path = Some x"
  shows "x = r"
proof -
  from lookup_file_SomeD [OF assms(4)] lookup_file_SomeD [OF assms(5)] assms(2)
  have "r \<in> set (files d)" "x \<in> set (files d)" "row_key_of r = row_key_of x"
    by (auto simp: row_key_of_def)
  with assms(1) show ?thesis unfolding uniq_def by (metis distinct_map_inj)
qed

lemma removeTree_shrinks:
  "uniq (w_db w) \<Longrightarrow> removeTree n owner path w = (r, w') \<Longrightarrow> shrinks w r w'"
  "uniq (w_db w) \<Longrightarrow> removeAll n owner cs w = (r, w') \<Longrightarrow> shrinks w r w'"
proof (induction n owner path and n owner cs arbitrary: w r w' and w r w' rule: removeTree_removeAll.induct)
  case (1 owner path)
  then show ?case by (auto simp: shrinks_def)
next
  case (2 n owner path)
  from "2.prems"(2) show ?case unfolding removeTree.simps
  proof (cases rule: bindE_cases)
    case (1 e)
    with shrinks_look [OF FileByPath_same 1(1) "2.prems"(1)] "2.prems"(1) show ?thesis by (simp add: shrinks_def)
  next
    case (2 f w1)
    note look = shrinks_look [OF FileByPath_same 2(1) "2.prems"(1)]
    from 2(1) have f: "\<exists>x. lookup_file (w_db w) owner path = Some x \<and> f = scan_file x"
      by (cases rule: query_cases) (auto simp: FileByPath_ok)
    from look "2.prems"(1) have u1: "uniq (w_db w1)" by simp
    let ?kids = "if f_is_dir f then bindE (query (ListFiles owner path)) (removeAll n owner) else retE []"
    have kids: "shrinks w1 r2 w2" if "?kids w1 = (r2, w2)" for r2 w2
    proof (cases "f_is_dir f")
      case True
      from that have "bindE (query (ListFiles owner path)) (removeAll n owner) w1 = (r2, w2)"
        by (simp only: True if_True)
      then show ?thesis
      proof (cases rule: bindE_cases)
        case (1 e)
        with shrinks_look [OF ListFiles_same 1(1) u1] u1 show ?thesis by (simp add: shrinks_def)
      next
        case ls: (2 cs w2')
        note l2 = shrinks_look [OF ListFiles_same ls(1) u1]
        with u1 have "uniq (w_db w2')" by simp
        from "2.IH" [OF True this ls(2)] l2 show ?thesis
          by (auto simp: shrinks_def intro: env_step_trans split: sum.splits)
      qed
    next
      case False
      with that u1 shrinks_refl show ?thesis by simp
    qed
    have up: "shrinks w r' w2" if "shrinks w1 r' w2" for r' w2
      using that look by (auto simp: shrinks_def intro: env_step_trans split: sum.splits)
    from 2(2) show ?thesis
    proof (cases rule: bindE_cases)
      case (1 e)
      with up [OF kids [OF 1(1)]] show ?thesis by simp
    next
      case k: (2 rows w2)
      note s2 = up [OF kids [OF k(1)]]
      from s2 have u2: "uniq (w_db w2)" by (simp add: shrinks_def)
      from k(2) show ?thesis
      proof (cases rule: bindE_cases)
        case (1 e)
        from 1(1) show ?thesis
        proof (cases rule: query_cases)
          case 1
          with s2 \<open>r = Inl e\<close> show ?thesis by (auto simp: shrinks_def intro: env_step_trans)
        next
          case (2 e' d)
          with DeleteFile_account [OF u2 2(2)] s2 \<open>r = Inl e\<close> show ?thesis
            by (auto simp: shrinks_def intro: env_step_trans)
        qed
      next
        case del: (2 v w3)
        from del(1) show ?thesis
        proof (cases rule: query_cases)
          case (2 e' d)
          from DeleteFile_account [OF u2 2(2)] obtain x where
            x: "lookup_file (w_db w2) owner path = Some x" "refs (w_db w2) = refs d + row_ref x"
            and dd: "uniq d" "set (files d) \<subseteq> set (files (w_db w2))" "trash d = trash (w_db w2)" "uploads d = uploads (w_db w2)" by auto
          from f obtain y where y: "lookup_file (w_db w) owner path = Some y" "f = scan_file y" by blast
          have "x = y"
            by (rule uniq_lookup_subset [OF "2.prems"(1) _ u2 y(1) x(1)]) (use s2 in \<open>simp add: shrinks_def\<close>)
          with del(2) 2 s2 x y dd show ?thesis
            by (auto simp: shrinks_def algebra_simps intro: env_step_trans)
        qed simp
      qed
    qed
  qed
next
  case (3 n owner)
  then show ?case by (auto simp: shrinks_refl)
next
  case (4 n owner child cs)
  from "4.prems"(2) show ?case unfolding removeAll.simps
  proof (cases rule: bindE_cases)
    case (1 e)
    with "4.IH"(1) [OF "4.prems"(1) 1(1)] show ?thesis by simp
  next
    case (2 under w1)
    note s1 = "4.IH"(1) [OF "4.prems"(1) 2(1)]
    then have u1: "uniq (w_db w1)" by (simp add: shrinks_def)
    from 2(2) show ?thesis
    proof (cases rule: bindE_cases)
      case (1 e)
      with shrinks_trans [OF s1 "4.IH"(2) [OF u1 1(1)]] show ?thesis by simp
    next
      case (2 rest w2)
      with shrinks_trans [OF s1 "4.IH"(2) [OF u1 2(1)]] show ?thesis by simp
    qed
  qed
qed

lemma accounts_removeTree: "accounts N (removeTree n owner path) (\<lambda>rows. N + rows_refs rows)"
proof (rule accountsI)
  fix w :: "'a world" and r w' assume u: "uniq (w_db w)" and run: "removeTree n owner path w = (r, w')"
  from removeTree_shrinks(1) [OF u run]
  show "w_blobs w' = w_blobs w \<and> env_step (w_env w) (w_env w') \<and> w_told w' = w_told w \<and> uniq (w_db w')
     \<and> set (uploads (w_db w')) \<subseteq> set (uploads (w_db w))
     \<and> (case r of Inl _ \<Rightarrow> refs (w_db w') \<subseteq># refs (w_db w) + N
        | Inr rows \<Rightarrow> refs (w_db w') + (N + rows_refs rows) \<subseteq># refs (w_db w) + N)"
    by (cases r) (auto simp: shrinks_def algebra_simps intro: subset_mset.add_increasing2 subset_mset.order_trans)
qed

section \<open>Transactions\<close>

lemma Tx_cases:
  assumes "Tx f w = (r, w')"
  obtains (unbegun) e where "env_step (w_env w) e" "w' = w\<lparr>w_env := e\<rparr>" "r = Inl ErrOther"
  | (rolled) e x w1 where "env_step (w_env w) e" "f (w\<lparr>w_env := e\<rparr>) = (Inl x, w1)"
      "w' = w1\<lparr>w_db := w_db w\<rparr>" "r = Inl x"
  | (uncommitted) e y w1 e' where "env_step (w_env w) e" "f (w\<lparr>w_env := e\<rparr>) = (Inr y, w1)"
      "env_step (w_env w1) e'" "w' = w1\<lparr>w_env := e', w_db := w_db w\<rparr>" "r = Inl ErrOther"
  | (committed) e y w1 e' where "env_step (w_env w) e" "f (w\<lparr>w_env := e\<rparr>) = (Inr y, w1)"
      "env_step (w_env w1) e'" "w' = w1\<lparr>w_env := e'\<rparr>" "r = Inr y"
proof -
  obtain c w0 where c: "check w = (c, w0)" by fastforce
  from check_cases [OF c] obtain e where e: "w0 = w\<lparr>w_env := e\<rparr>" "env_step (w_env w) e"
    "c = Inr () \<or> c = Inl ErrOther" by blast
  show ?thesis
  proof (cases c)
    case (Inl x)
    with assms c e that(1) show ?thesis by (auto simp: Tx_def bindE_def)
  next
    case (Inr u)
    obtain y w1 where f: "f w0 = (y, w1)" by fastforce
    show ?thesis
    proof (cases y)
      case (Inl x)
      with assms c e Inr f that(2) [of e x w1] show ?thesis by (auto simp: Tx_def bindE_def)
    next
      case y: (Inr z)
      obtain c' w2 where c': "check w1 = (c', w2)" by fastforce
      from check_cases [OF c'] obtain e' where e': "w2 = w1\<lparr>w_env := e'\<rparr>" "env_step (w_env w1) e'"
        "c' = Inr () \<or> c' = Inl ErrOther" by blast
      with assms c e Inr f y c' that(3) [of e z w1 e'] that(4) [of e z w1 e'] show ?thesis
        by (auto simp: Tx_def bindE_def)
    qed
  qed
qed

text \<open>A transaction that fails leaves the database as it was.\<close>

lemma Tx_error: "Tx f w = (Inl x, w') \<Longrightarrow> w_db w' = w_db w"
  by (erule Tx_cases) auto

lemma Tx_accounts:
  assumes "accounts N f M" "uniq (w_db w)" "Tx f w = (r, w')"
  shows "w_blobs w' = w_blobs w \<and> env_step (w_env w) (w_env w') \<and> w_told w' = w_told w \<and> uniq (w_db w')
     \<and> set (uploads (w_db w')) \<subseteq> set (uploads (w_db w))
     \<and> (case r of Inl _ \<Rightarrow> w_db w' = w_db w | Inr x \<Rightarrow> refs (w_db w') + M x \<subseteq># refs (w_db w) + N)"
  using assms(3)
proof (cases rule: Tx_cases)
  case unbegun
  with assms(2) show ?thesis by simp
next
  case (rolled e x w1)
  with accountsD [OF assms(1) _ rolled(2)] assms(2) show ?thesis by (auto intro: env_step_trans)
next
  case (uncommitted e y w1 e')
  with accountsD [OF assms(1) _ uncommitted(2)] assms(2) show ?thesis by (auto intro: env_step_trans)
next
  case (committed e y w1 e')
  with accountsD [OF assms(1) _ committed(2)] assms(2) show ?thesis by (auto intro: env_step_trans)
qed

text \<open>
  \<open>replace\<close>: the new blob goes in, and the one it reports comes out.
\<close>

lemma replace_account:
  assumes u: "uniq (w_db w)" and run: "replace f w = (r, w')"
  shows "w_blobs w' = w_blobs w \<and> env_step (w_env w) (w_env w') \<and> w_told w' = w_told w \<and> uniq (w_db w')
     \<and> set (uploads (w_db w')) \<subseteq> set (uploads (w_db w))
     \<and> (case r of Inl _ \<Rightarrow> w_db w' = w_db w
        | Inr (g, old) \<Rightarrow> f_blob g = f_blob f \<and> (\<exists>K. refs (w_db w') + K = refs (w_db w) + {#(f_blob f, f_size f)#}
             \<and> (old = [] \<or> (\<exists>n. K = {#(old, n)#}))))"
proof -
  have par: "w_blobs w1 = w_blobs w0 \<and> env_step (w_env w0) (w_env w1) \<and> w_told w1 = w_told w0 \<and> w_db w1 = w_db w0"
    if "requireParent (f_owner f) (f_path f) w0 = (y, w1)" "uniq (w_db w0)" for w0 y w1
  proof (cases "ParentOf (f_path f) = []")
    case True
    with that show ?thesis by (simp add: requireParent_def)
  next
    case False
    obtain z w2 where q: "query (FileByPath (f_owner f) (ParentOf (f_path f))) w0 = (z, w2)" by fastforce
    with that(1) False have "w1 = w2"
      by (auto simp: requireParent_def tryE_def split: sum.splits if_splits)
    with shrinks_look [OF FileByPath_same q that(2)] show ?thesis by simp
  qed
  from run show ?thesis unfolding replace_def
  proof (cases rule: bindE_cases)
    case (1 e)
    with par [OF 1(1) u] u show ?thesis by simp
  next
    case (2 v w1)
    note p1 = par [OF 2(1) u]
    obtain z w2 where q: "query (FileByPath (f_owner f) (f_path f)) w1 = (z, w2)" by fastforce
    have u1: "uniq (w_db w1)" using p1 u by simp
    note p2 = shrinks_look [OF FileByPath_same q u1]
    let ?sup = "case z of Inr old \<Rightarrow> retE (if f_is_dir old then [] else f_blob old)
            | Inl x \<Rightarrow> if x = ErrNotFound then retE [] else failE x"
    from 2(2) q have "bindE ?sup (\<lambda>superseded. bindE (query (PutFile f)) (\<lambda>stored. retE (stored, superseded))) w2 = (r, w')"
      by (simp add: tryE_def)
    then show ?thesis
    proof (cases rule: bindE_cases)
      case (1 e)
      with p1 p2 u show ?thesis by (auto split: sum.splits if_splits intro: env_step_trans)
    next
      case (2 sup w3)
      then have w3: "w3 = w2" by (auto split: sum.splits if_splits)
      have z: "z = Inl ErrNotFound \<and> sup = [] \<or> (\<exists>old. z = Inr old \<and> sup = (if f_is_dir old then [] else f_blob old))"
        using 2(1) by (auto split: sum.splits if_splits)
      have u2: "uniq (w_db w2)" using p2 u1 by simp
      from 2(2) w3 show ?thesis
      proof (cases rule: bindE_cases)
        case (1 e)
        from 1(1) w3 have "w_blobs w' = w_blobs w2 \<and> env_step (w_env w2) (w_env w') \<and> w_told w' = w_told w2 \<and> w_db w' = w_db w2"
        proof (cases rule: query_cases)
          case (2 e' d)
          with PutFile_account [OF u2, of f "Inl e" d] w3 show ?thesis by simp
        qed simp
        with 1 p1 p2 u show ?thesis by (auto intro: env_step_trans)
      next
        case put: (2 g w4)
        from put(1) show ?thesis
        proof (cases rule: query_cases)
          case (2 e' d)
          note pf = PutFile_account [OF u2 2(2) [unfolded w3]]
          have "\<exists>K. refs d + K = refs (w_db w2) + {#(f_blob f, f_size f)#} \<and> (sup = [] \<or> (\<exists>n. K = {#(sup, n)#}))"
          proof (cases "lookup_file (w_db w2) (f_owner f) (f_path f)")
            case None
            with q p2 have "\<not> (\<exists>old. z = Inr old)"
              by (auto elim!: query_cases simp: FileByPath_ok)
            with z None pf show ?thesis by (auto intro: exI [of _ "{#}"])
          next
            case (Some x)
            with pf have x: "\<not> f_is_dir x" "refs d + row_ref x = refs (w_db w2) + {#(f_blob f, f_size f)#}" by auto
            have "z = Inr old \<Longrightarrow> sup = f_blob x" for old
              using q p2 Some z x(1) by (auto elim!: query_cases simp: FileByPath_ok)
            moreover have "z \<noteq> Inl ErrNotFound"
              using q p2 Some by (auto elim!: query_cases simp: FileByPath_none)
            ultimately have "sup = f_blob x" using z by auto
            with x show ?thesis by (intro exI [of _ "row_ref x"]) (auto simp: row_ref_def)
          qed
          then obtain K where "refs d + K = refs (w_db w2) + {#(f_blob f, f_size f)#}"
            "sup = [] \<or> (\<exists>n. K = {#(sup, n)#})" by blast
          moreover have "env_step (w_env w) e'" using 2(1) w3 p1 p2 env_step_trans by metis
          moreover have "r = Inr (g, sup)" "w' = w2\<lparr>w_env := e', w_db := d\<rparr>" using 2(3) put(2) w3 by auto
          ultimately show ?thesis
            using pf p1 p2 by (simp add: exI [of _ K])
        qed simp
      qed
    qed
  qed
qed

lemma accounts_lifted: "accounts N (liftE r) (\<lambda>_. N)"
  by (rule accounts_lift) simp

lemma accounts_more: "accounts N m M \<Longrightarrow> N \<subseteq># N' \<Longrightarrow> accounts N' m M"
proof (rule accountsI)
  fix w r w' assume a: "accounts N m M" "N \<subseteq># N'" "uniq (w_db w)" "m w = (r, w')"
  from a(2) have "refs (w_db w) + N \<subseteq># refs (w_db w) + N'" by simp
  with accountsD [OF a(1,3,4)]
  show "w_blobs w' = w_blobs w \<and> env_step (w_env w) (w_env w') \<and> w_told w' = w_told w \<and> uniq (w_db w')
     \<and> set (uploads (w_db w')) \<subseteq> set (uploads (w_db w))
     \<and> (case r of Inl _ \<Rightarrow> refs (w_db w') \<subseteq># refs (w_db w) + N'
        | Inr x \<Rightarrow> refs (w_db w') + M x \<subseteq># refs (w_db w) + N')"
    by (cases r) (auto intro: subset_mset.order_trans)
qed

lemma keeps_query: "(\<And>d. I d \<Longrightarrow> I (snd (q d))) \<Longrightarrow> keeps (\<lambda>w. I (w_db w)) (query q)"
proof (rule keepsI)
  fix w :: "'b world" assume I: "\<And>d. I d \<Longrightarrow> I (snd (q d))" "I (w_db w)"
  obtain r w' where r: "query q w = (r, w')" by fastforce
  from r have "I (w_db w')"
  proof (cases rule: query_cases)
    case (2 e d)
    with I(1) [OF I(2)] show ?thesis by simp
  qed (use I in simp)
  with r show "I (w_db (snd (query q w)))" by simp
qed

lemma accounts_PutFile:
  assumes "\<not> f_is_dir f"
  shows "accounts (N + row_ref f) (query (PutFile f)) (\<lambda>_. N)"
proof (rule accounts_query)
  fix d d' r assume "uniq d" "PutFile f d = (r, d')"
  note a = PutFile_account [OF this]
  have "refs d' \<subseteq># refs d + row_ref f" if "r = Inr x" for x
  proof (cases "lookup_file d (f_owner f) (f_path f)")
    case None
    with a that assms show ?thesis by (simp add: row_ref_def)
  next
    case (Some y)
    with a that assms have "refs d' + row_ref y = refs d + row_ref f" by (auto simp: row_ref_def)
    then show ?thesis by (metis mset_subset_eq_add_left)
  qed
  with a show "uniq d' \<and> set (uploads d') \<subseteq> set (uploads d) \<and>
     (case r of Inl _ \<Rightarrow> refs d' \<subseteq># refs d + (N + row_ref f) | Inr x \<Rightarrow> refs d' + N \<subseteq># refs d + (N + row_ref f))"
    by (cases r) (auto simp: algebra_simps)
qed

end
