(* ===== verification/Disk.thy ===== *)
theory Disk
  imports StoragePort DbFile "HOL-Library.AList"
begin

text \<open>
  The disk backend, \<^verbatim>\<open>internal/storage/disk/disk.go\<close>, on a POSIX tree: paths relative to
  the root, each a directory or a regular file, and the kernel calls the code makes on them.
  Every call draws from the schedule first.  The root itself has no entry.
\<close>

section \<open>The tree and the calls on it\<close>

datatype node = Dir | Reg bytes int

type_synonym fs = "(bytes \<times> node) list"

record disk =
  tree :: fs
  avail :: int

definition tmpDir :: bytes where "tmpDir = ''.tmp''"
definition uploadDir :: bytes where "uploadDir = ''.uploads''"

text \<open>
  The calls, on the tree alone.  \<open>ErrObjectNotFound\<close> is what \<open>isNotFound\<close> recognises:
  \<^verbatim>\<open>ENOENT\<close> and \<^verbatim>\<open>ENOTDIR\<close>.
\<close>

definition fs_children :: "fs \<Rightarrow> bytes \<Rightarrow> bytes list" where
  "fs_children t p = filter (\<lambda>q. q \<noteq> [] \<and> ParentOf q = p) (map fst t)"

definition fs_remove :: "bytes \<Rightarrow> fs \<Rightarrow> unit result \<times> fs" where
  "fs_remove p t =
     (case map_of t p of
        None \<Rightarrow> (Inl ErrObjectNotFound, t)
      | Some (Reg d m) \<Rightarrow> (Inr (), AList.delete p t)
      | Some Dir \<Rightarrow> if fs_children t p = [] then (Inr (), AList.delete p t) else (Inl ErrOther, t))"

definition is_dir_at :: "fs \<Rightarrow> bytes \<Rightarrow> bool" where
  "is_dir_at t p \<longleftrightarrow> p = [] \<or> map_of t p = Some Dir"

definition fs_create :: "bytes \<Rightarrow> int \<Rightarrow> fs \<Rightarrow> unit result \<times> fs" where
  "fs_create p m t =
     (if \<not> is_dir_at t (ParentOf p) then (Inl ErrObjectNotFound, t)
      else case map_of t p of
        None \<Rightarrow> (Inr (), AList.update p (Reg [] m) t) | Some _ \<Rightarrow> (Inl ErrOther, t))"

definition fs_append :: "bytes \<Rightarrow> bytes \<Rightarrow> int \<Rightarrow> fs \<Rightarrow> fs" where
  "fs_append p d m t =
     (case map_of t p of Some (Reg d0 m0) \<Rightarrow> AList.update p (Reg (d0 @ d) m) t | _ \<Rightarrow> t)"

definition fs_rename :: "bytes \<Rightarrow> bytes \<Rightarrow> fs \<Rightarrow> unit result \<times> fs" where
  "fs_rename src dst t =
     (case map_of t src of
        Some (Reg d m) \<Rightarrow>
          (if \<not> is_dir_at t (ParentOf dst) then (Inl ErrObjectNotFound, t)
           else if map_of t dst = Some Dir then (Inl ErrOther, t)
           else (Inr (), AList.update dst (Reg d m) (AList.delete src t)))
      | Some Dir \<Rightarrow> (Inl ErrOther, t)
      | None \<Rightarrow> (Inl ErrObjectNotFound, t))"

text \<open>\<open>MkdirAll\<close> walks down the path it makes, one call each.\<close>

definition dir_chain :: "bytes \<Rightarrow> bytes list" where
  "dir_chain p = map (\<lambda>i. take i p) (filter (\<lambda>i. p ! i = slash) [0..<length p]) @ [p]"

definition fs_mkdir :: "bytes \<Rightarrow> fs \<Rightarrow> unit result \<times> fs" where
  "fs_mkdir p t =
     (case map_of t p of
        Some Dir \<Rightarrow> (Inr (), t)
      | Some (Reg _ _) \<Rightarrow> (Inl ErrObjectNotFound, t)
      | None \<Rightarrow> if is_dir_at t (ParentOf p) then (Inr (), AList.update p Dir t)
                else (Inl ErrObjectNotFound, t))"

type_synonym 'a disk_step = "(disk \<times> env, 'a) step"

definition sys :: "(fs \<Rightarrow> 'a result \<times> fs) \<Rightarrow> 'a disk_step" where
  "sys f = bindE attempt (\<lambda>_ (s, e). case f (tree s) of (r, t) \<Rightarrow> (r, (s\<lparr>tree := t\<rparr>, e)))"

fun mkdirs :: "bytes list \<Rightarrow> unit disk_step" where
  "mkdirs [] = retE ()"
| "mkdirs (p # ps) = bindE (sys (fs_mkdir p)) (\<lambda>_. mkdirs ps)"

definition MkdirAll :: "bytes \<Rightarrow> unit disk_step" where
  "MkdirAll p = mkdirs (dir_chain p)"

text \<open>A write that may stop after some bytes.\<close>

definition sys_write :: "bytes \<Rightarrow> bytes \<Rightarrow> unit disk_step" where
  "sys_write p d = (\<lambda>(s, e). case draw_fault e of
     (None, e') \<Rightarrow> (Inr (), (s\<lparr>tree := fs_append p d (now e) (tree s)\<rparr>, e'))
   | (Some k, e') \<Rightarrow> (Inl ErrOther, (s\<lparr>tree := fs_append p (take k d) (now e) (tree s)\<rparr>, e')))"

definition sys_stat :: "bytes \<Rightarrow> node disk_step" where
  "sys_stat p = sys (\<lambda>t. (case map_of t p of None \<Rightarrow> Inl ErrObjectNotFound | Some x \<Rightarrow> Inr x, t))"

section \<open>Objects\<close>

definition remove_quietly :: "bytes \<Rightarrow> unit disk_step" where
  "remove_quietly p = best_effort (sys (fs_remove p))"

definition fail_after :: "unit disk_step \<Rightarrow> error \<Rightarrow> 'a disk_step" where
  "fail_after m x = bindE m (\<lambda>_. failE x)"

text \<open>\<open>writeTemp\<close>: the copy, then the sync, then the close; the first failure is the one.\<close>

definition writeTemp :: "reader \<Rightarrow> int \<Rightarrow> bytes disk_step" where
  "writeTemp r sz =
     bindE rand_text (\<lambda>id.
     let name = tmpDir @ ''/'' @ id; (d, err) = copy_sized sz r in
     bindE (plain_error (\<lambda>s. sys (fs_create name (now (snd s))) s)) (\<lambda>_.
     tryE (bindE (sys_write name d) (\<lambda>_. case err of Some x \<Rightarrow> failE x | None \<Rightarrow> attempt)) (\<lambda>copied.
     tryE attempt (\<lambda>closed.
     case (copied, closed) of
       (Inl x, _) \<Rightarrow> fail_after (remove_quietly name) x
     | (Inr _, Inl x) \<Rightarrow> fail_after (remove_quietly name) x
     | _ \<Rightarrow> retE name))))"

definition Stat :: "bytes \<Rightarrow> object_info disk_step" where
  "Stat key =
     bindE (liftE (ValidateKey key)) (\<lambda>_.
     bindE attempt (\<lambda>_.
     bindE (sys_stat key) (\<lambda>x.
     case x of Dir \<Rightarrow> failE ErrObjectNotFound | Reg d m \<Rightarrow> retE (info_of key (d, m)))))"

definition make_parents :: "bytes \<Rightarrow> unit disk_step" where
  "make_parents key = (if path_dir key \<noteq> ''.'' then plain_error (MkdirAll (path_dir key)) else retE ())"

definition Put :: "bytes \<Rightarrow> reader \<Rightarrow> int \<Rightarrow> object_info disk_step" where
  "Put key r sz =
     bindE (liftE (ValidateKey key)) (\<lambda>_.
     bindE attempt (\<lambda>_.
     bindE (writeTemp r sz) (\<lambda>tmp.
     tryE (make_parents key) (\<lambda>made.
     case made of Inl x \<Rightarrow> fail_after (remove_quietly tmp) x | Inr _ \<Rightarrow>
     tryE (plain_error (sys (fs_rename tmp key))) (\<lambda>moved.
     case moved of Inl x \<Rightarrow> fail_after (remove_quietly tmp) x | Inr _ \<Rightarrow>
     Stat key)))))"

text \<open>
  \<open>Get\<close>: the reader is bounded to the resolved range, and a read may fail partway.
\<close>

definition sys_read :: "bytes \<Rightarrow> reader disk_step" where
  "sys_read d = (\<lambda>(s, e). case draw_fault e of
     (None, e') \<Rightarrow> (Inr (of_bytes d), (s, e'))
   | (Some k, e') \<Rightarrow> (Inr \<lparr>chunks = [take k d], failure = Some ErrOther, eager = False\<rparr>, (s, e')))"

definition Get :: "bytes \<Rightarrow> range \<Rightarrow> (reader \<times> object_info) disk_step" where
  "Get key rng =
     bindE (liftE (ValidateKey key)) (\<lambda>_.
     bindE attempt (\<lambda>_.
     bindE (sys_stat key) (\<lambda>x.
     bindE attempt (\<lambda>_.
     case x of Dir \<Rightarrow> failE ErrObjectNotFound
     | Reg d m \<Rightarrow>
         (let info = info_of key (d, m) in
          bindE (liftE (Resolve rng (i_size info))) (\<lambda>w.
          bindE (if 0 < fst w then attempt else retE ()) (\<lambda>_.
          bindE (sys_read (select d w)) (\<lambda>body. retE (body, info)))))))))"

text \<open>\<open>pruneParents\<close> stops at the first directory that will not go.\<close>

fun prune_chain :: "bytes list \<Rightarrow> unit disk_step" where
  "prune_chain [] = retE ()"
| "prune_chain (p # ps) =
     tryE (sys (fs_remove p)) (\<lambda>r. case r of Inl _ \<Rightarrow> retE () | Inr _ \<Rightarrow> prune_chain ps)"

definition pruneParents :: "bytes \<Rightarrow> unit disk_step" where
  "pruneParents dir = (if dir = ''.'' \<or> dir = ''/'' then retE () else prune_chain (rev (dir_chain dir)))"

definition Delete :: "bytes \<Rightarrow> unit disk_step" where
  "Delete key =
     bindE (liftE (ValidateKey key)) (\<lambda>_.
     bindE attempt (\<lambda>_.
     tryE (sys (fs_remove key)) (\<lambda>r.
     case r of
       Inl x \<Rightarrow> if x = ErrObjectNotFound then retE () else failE x
     | Inr _ \<Rightarrow> pruneParents (path_dir key))))"

definition FreeSpace :: "int disk_step" where
  "FreeSpace = bindE attempt (\<lambda>_ s. if avail (fst s) < 0 then retE Unlimited s else retE (avail (fst s)) s)"

section \<open>Listing\<close>

text \<open>
  The callback of \<open>WalkDir\<close> prunes the two reserved directories and every directory that is
  neither on the prefix's path nor under it.  \<open>walk\<close> is the order in which \<open>WalkDir\<close> reaches
  what is left: the entries of a directory by name, a directory before what it holds.
\<close>

definition skips :: "bytes \<Rightarrow> bytes \<Rightarrow> bool" where
  "skips pre p \<longleftrightarrow> p = tmpDir \<or> p = uploadDir
     \<or> (\<not> has_prefix (p @ ''/'') pre \<and> \<not> has_prefix pre (p @ ''/''))"

function walk :: "bytes \<Rightarrow> fs \<Rightarrow> bytes \<Rightarrow> (bytes \<times> node) list" where
  "walk pre t p =
     concat (map (\<lambda>q. case map_of t q of
         None \<Rightarrow> []
       | Some (Reg d m) \<Rightarrow> [(q, Reg d m)]
       | Some Dir \<Rightarrow> (q, Dir) # (if skips pre q then [] else walk pre t q))
     (sort (fs_children t p)))"
  by pat_completeness auto
termination
proof (relation "measure (\<lambda>(pre, t, p). sum_list (map length (map fst t)) - length p)", simp, clarsimp)
  fix t :: fs and p q
  assume "q \<in> set (fs_children t p)"
  then have q: "q \<in> set (map fst t)" "q \<noteq> []" "ParentOf q = p" by (auto simp: fs_children_def)
  then have "length p < length q" using ParentOf_shorter by auto
  moreover have "length q \<le> sum_list (map length (map fst t))"
    using q(1) by (intro member_le_sum_list) auto
  ultimately show "sum_list (map (length \<circ> fst) t) - length q < sum_list (map (length \<circ> fst) t) - length p"
    by (simp add: comp_def)
qed

declare walk.simps [simp del]

text \<open>
  The callback on each, with the call that can fail at it; an error ends the sequence and is
  the last thing yielded.
\<close>

fun run_walk :: "bytes \<Rightarrow> (bytes \<times> node) list \<Rightarrow> env \<Rightarrow> (object_info list \<times> error option) \<times> env" where
  "run_walk pre [] e = (([], None), e)"
| "run_walk pre ((p, x) # vs) e =
     (case draw_fault e of
        (Some _, e') \<Rightarrow> (([], Some ErrOther), e')
      | (None, e') \<Rightarrow>
          (case x of
             Dir \<Rightarrow> run_walk pre vs e'
           | Reg d m \<Rightarrow>
               if has_prefix p pre
               then (case run_walk pre vs e' of ((is, err), e'') \<Rightarrow> ((info_of p (d, m) # is, err), e''))
               else run_walk pre vs e'))"

definition List_objects :: "bytes \<Rightarrow> disk \<times> env \<Rightarrow> (object_info list \<times> error option) \<times> (disk \<times> env)" where
  "List_objects pre = (\<lambda>(s, e). case run_walk pre ((''.'', Dir) # walk pre (tree s) []) e of
     (r, e') \<Rightarrow> (r, (s, e')))"

section \<open>Uploads\<close>

definition uploadPath :: "bytes \<Rightarrow> bytes" where
  "uploadPath uid = uploadDir @ ''/'' @ uid"

definition StartUpload :: "bytes \<Rightarrow> bytes disk_step" where
  "StartUpload key =
     bindE (liftE (ValidateKey key)) (\<lambda>_.
     bindE attempt (\<lambda>_.
     bindE rand_text (\<lambda>uid.
     bindE (plain_error (\<lambda>s. sys (fs_create (uploadPath uid) (now (snd s))) s)) (\<lambda>_.
     bindE attempt (\<lambda>_.
     retE uid)))))"

definition UploadOffset :: "bytes \<Rightarrow> bytes \<Rightarrow> int disk_step" where
  "UploadOffset key uid =
     bindE (liftE (ValidateKey key)) (\<lambda>_.
     bindE attempt (\<lambda>_.
     bindE (sys_stat (uploadPath uid)) (\<lambda>x.
     case x of Reg d m \<Rightarrow> retE (int (length d)) | Dir \<Rightarrow> retE 0)))"

text \<open>Opening for writing, without creating.\<close>

definition sys_open :: "bytes \<Rightarrow> unit disk_step" where
  "sys_open p = sys (\<lambda>t. (case map_of t p of
     None \<Rightarrow> Inl ErrObjectNotFound | Some Dir \<Rightarrow> Inl ErrOther | Some (Reg _ _) \<Rightarrow> Inr (), t))"

text \<open>
  An append answers with an offset whether it fails or not.  What follows the copy is skipped
  by its failure, except for the close.
\<close>

definition append_file :: "bytes \<Rightarrow> reader \<Rightarrow> int disk_step" where
  "append_file p r =
     tryE (bindE (sys_write p (content r)) (\<lambda>_. case failure r of Some x \<Rightarrow> failE x | None \<Rightarrow> attempt)) (\<lambda>copied.
     tryE attempt (\<lambda>closed.
     case (copied, closed) of
       (Inl x, _) \<Rightarrow> failE x
     | (Inr _, Inl x) \<Rightarrow> failE x
     | _ \<Rightarrow> retE (int (length (content r)))))"

text \<open>How much of the body the copy reads: all of it, or up to the end of the buffer whose write failed.\<close>

function read_until :: "nat \<Rightarrow> reader \<Rightarrow> nat" where
  "read_until k r =
     (case read copy_buffer r of
        (d, st, r') \<Rightarrow> if k < length d \<or> st \<noteq> More then length d else length d + read_until (k - length d) r')"
  by pat_completeness auto
termination
  by (relation "measure (\<lambda>(k, r). pending r)") (auto dest: read_pending [OF sym])

declare read_until.simps [simp del]

definition body_read :: "reader \<Rightarrow> env \<Rightarrow> nat" where
  "body_read r e = (case fst (draw_fault e) of None \<Rightarrow> length (content r) | Some k \<Rightarrow> read_until k r)"

definition AppendUpload :: "bytes \<Rightarrow> bytes \<Rightarrow> int \<Rightarrow> reader \<Rightarrow> disk \<times> env \<Rightarrow> (int \<times> nat \<times> error option) \<times> (disk \<times> env)" where
  "AppendUpload key uid off r s0 =
     (case ValidateKey key of Inl x \<Rightarrow> ((0, 0, Some x), s0) | Inr _ \<Rightarrow>
      case attempt s0 of (Inl x, s1) \<Rightarrow> ((0, 0, Some x), s1) | (Inr _, s1) \<Rightarrow>
      case UploadOffset key uid s1 of (Inl x, s2) \<Rightarrow> ((0, 0, Some x), s2) | (Inr at, s2) \<Rightarrow>
      if at \<noteq> off then ((at, 0, Some ErrUploadOffset), s2)
      else case sys_open (uploadPath uid) s2 of (Inl x, s3) \<Rightarrow> ((at, 0, Some x), s3) | (Inr _, s3) \<Rightarrow>
      let n = body_read r (snd s3) in
      case append_file (uploadPath uid) r s3 of
        (Inr m, s4) \<Rightarrow> ((at + m, n, None), s4)
      | (Inl x, s4) \<Rightarrow>
          (case UploadOffset key uid s4 of
             (Inr got, s5) \<Rightarrow> ((got, n, Some x), s5)
           | (Inl _, s5) \<Rightarrow> ((at, n, Some x), s5)))"

definition CompleteUpload :: "bytes \<Rightarrow> bytes \<Rightarrow> object_info disk_step" where
  "CompleteUpload key uid =
     bindE (liftE (ValidateKey key)) (\<lambda>_.
     bindE attempt (\<lambda>_.
     bindE (make_parents key) (\<lambda>_.
     bindE (sys (fs_rename (uploadPath uid) key)) (\<lambda>_.
     Stat key))))"

definition AbortUpload :: "bytes \<Rightarrow> bytes \<Rightarrow> unit disk_step" where
  "AbortUpload key uid =
     bindE (liftE (ValidateKey key)) (\<lambda>_.
     bindE attempt (\<lambda>_.
     tryE (sys (fs_remove (uploadPath uid))) (\<lambda>r.
     case r of Inl x \<Rightarrow> if x = ErrObjectNotFound then retE () else failE x | Inr _ \<Rightarrow> retE ())))"

section \<open>Opening the store\<close>

text \<open>\<open>New\<close> on a root directory that is already there, and the sweep of what was interrupted.\<close>

fun sweep :: "bytes list \<Rightarrow> unit disk_step" where
  "sweep [] = retE ()"
| "sweep (p # ps) = bindE (sys (fs_remove p)) (\<lambda>_. sweep ps)"

definition sweepTemp :: "unit disk_step" where
  "sweepTemp = bindE attempt (\<lambda>_ s. sweep (sort (fs_children (tree (fst s)) tmpDir)) s)"

definition reserve_dir :: "bytes \<Rightarrow> unit disk_step" where
  "reserve_dir p = sys (\<lambda>t. case map_of t p of
     None \<Rightarrow> (Inr (), AList.update p Dir t) | Some _ \<Rightarrow> (Inr (), t))"

definition New :: "unit disk_step" where
  "New = bindE (reserve_dir tmpDir) (\<lambda>_. bindE (reserve_dir uploadDir) (\<lambda>_. sweepTemp))"

definition disk_port :: "disk port" where
  "disk_port = \<lparr>port_put = Put, port_get = Get, port_stat = Stat, port_delete = Delete,
     port_free = FreeSpace, port_list = List_objects, port_start = StartUpload,
     port_append = AppendUpload, port_offset = UploadOffset, port_complete = CompleteUpload,
     port_abort = AbortUpload\<rparr>"

end
