(* ===== verification/DiskPort.thy ===== *)
theory DiskPort
  imports Disk
begin

text \<open>
  The disk backend keeps the contract of the port: \<open>disk_port\<close> interprets the locale
  \<open>storage_port\<close>, with the regular files outside the reserved directories as its objects, and
  this for every schedule of failures.
\<close>

section \<open>Objects and uploads of a tree\<close>

definition reserved :: "bytes \<Rightarrow> bool" where
  "reserved k \<longleftrightarrow> k = tmpDir \<or> under tmpDir k \<or> k = uploadDir \<or> under uploadDir k"

definition disk_objs :: "disk \<Rightarrow> objects" where
  "disk_objs s k = (if reserved k then None
     else case map_of (tree s) k of Some (Reg d m) \<Rightarrow> Some (d, m) | _ \<Rightarrow> None)"

definition disk_ups :: "disk \<Rightarrow> bytes \<Rightarrow> bytes option" where
  "disk_ups s uid = (case map_of (tree s) (uploadPath uid) of Some (Reg d m) \<Rightarrow> Some d | _ \<Rightarrow> None)"

definition fs_ok :: "fs \<Rightarrow> bool" where
  "fs_ok t \<longleftrightarrow> distinct (map fst t) \<and> map_of t [] = None
     \<and> map_of t tmpDir = Some Dir \<and> map_of t uploadDir = Some Dir
     \<and> list_all (\<lambda>p. is_dir_at t (ParentOf p)) (map fst t)"

definition disk_ok :: "disk \<Rightarrow> bool" where
  "disk_ok s \<longleftrightarrow> fs_ok (tree s)"

definition empty_disk :: disk where
  "empty_disk = \<lparr>tree = [(tmpDir, Dir), (uploadDir, Dir)], avail = -1\<rparr>"

lemma empty_disk_ok: "disk_ok empty_disk"
  by code_simp

text \<open>The same on the map alone, which is what the proofs rest on.\<close>

definition map_ok :: "(bytes \<Rightarrow> node option) \<Rightarrow> bool" where
  "map_ok m \<longleftrightarrow> m [] = None \<and> m tmpDir = Some Dir \<and> m uploadDir = Some Dir
     \<and> (\<forall>p. m p \<noteq> None \<longrightarrow> ParentOf p = [] \<or> m (ParentOf p) = Some Dir)"

lemma fs_ok_iff: "fs_ok t \<longleftrightarrow> distinct (map fst t) \<and> map_ok (map_of t)"
  unfolding fs_ok_def map_ok_def list_all_iff is_dir_at_def map_of_eq_None_iff set_map by blast

lemma reserved_hd: "reserved k \<Longrightarrow> k \<noteq> [] \<and> hd k = dot"
  by (auto simp: reserved_def under_iff tmpDir_def uploadDir_def)

lemma reserved_upload [simp]: "reserved (uploadPath uid)" "reserved (tmpDir @ slash # x)"
  by (simp_all add: reserved_def uploadPath_def)

lemma tmp_not_upload [simp]: "tmpDir @ slash # x \<noteq> uploadPath uid" "uploadPath uid \<noteq> tmpDir @ slash # x"
  by (simp_all add: tmpDir_def uploadPath_def uploadDir_def)

lemma reserved_paths [simp]: "uploadPath uid \<noteq> tmpDir" "uploadPath uid \<noteq> uploadDir"
  "tmpDir @ slash # x \<noteq> tmpDir" "tmpDir @ slash # x \<noteq> uploadDir" "uploadPath uid \<noteq> []"
  "uploadPath a = uploadPath b \<longleftrightarrow> a = b"
  by (simp_all add: tmpDir_def uploadPath_def uploadDir_def)

lemma map_ok_child:
  "map_ok m \<Longrightarrow> m q \<noteq> None \<Longrightarrow> m p \<noteq> Some Dir \<Longrightarrow> p \<noteq> [] \<Longrightarrow> ParentOf q \<noteq> p"
  unfolding map_ok_def by auto

lemma fs_ok_parent: "fs_ok t \<Longrightarrow> map_of t p \<noteq> None \<Longrightarrow> is_dir_at t (ParentOf p)"
  unfolding fs_ok_iff map_ok_def is_dir_at_def by blast

lemma map_ok_put:
  assumes ok: "map_ok m" and p: "p \<noteq> []" "m p \<noteq> Some Dir" "ParentOf p = [] \<or> m (ParentOf p) = Some Dir"
  shows "map_ok (m(p \<mapsto> x))"
proof -
  have "p \<noteq> tmpDir" "p \<noteq> uploadDir" using ok p by (auto simp: map_ok_def)
  moreover have "ParentOf p \<noteq> p" using p(1) ParentOf_shorter [of p] by auto
  moreover have "m q \<noteq> None \<Longrightarrow> ParentOf q \<noteq> p" for q using map_ok_child [OF ok _ p(2,1)] .
  ultimately show ?thesis using ok p unfolding map_ok_def by (auto split: if_splits)
qed

lemma map_ok_drop:
  assumes ok: "map_ok m" and p: "p \<noteq> tmpDir" "p \<noteq> uploadDir"
    and free: "\<forall>q. m q \<noteq> None \<longrightarrow> ParentOf q \<noteq> p"
  shows "map_ok (m(p := None))"
  using assms unfolding map_ok_def by auto

lemma fs_ok_put:
  assumes "fs_ok t" "p \<noteq> []" "map_of t p \<noteq> Some Dir" "is_dir_at t (ParentOf p)"
  shows "fs_ok (AList.update p x t)"
  using assms map_ok_put [of "map_of t" p x]
  by (simp add: fs_ok_iff AList.update_conv' is_dir_at_def AList.distinct_update)

lemma fs_ok_drop:
  assumes "fs_ok t" "p \<noteq> tmpDir" "p \<noteq> uploadDir" "\<forall>q. map_of t q \<noteq> None \<longrightarrow> ParentOf q \<noteq> p"
  shows "fs_ok (AList.delete p t)"
  using assms map_ok_drop [of "map_of t" p]
  by (simp add: fs_ok_iff AList.delete_conv' AList.distinct_delete)

lemma fs_children_free:
  assumes "map_of t [] = None" "fs_children t p = []" "map_of t q \<noteq> None"
  shows "ParentOf q \<noteq> p"
proof -
  from assms(3) have "q \<in> fst ` set t" by (auto simp: map_of_eq_None_iff)
  moreover have "q \<noteq> []" using assms(1,3) by auto
  ultimately show ?thesis using assms(2) by (auto simp: fs_children_def filter_empty_conv)
qed

lemma fs_remove_cases:
  assumes ok: "fs_ok t" and rm: "fs_remove p t = (r, t')"
  obtains "t' = t" "r \<noteq> Inr ()" "r = Inl ErrObjectNotFound \<longrightarrow> map_of t p = None"
  | "r = Inr ()" "map_of t p \<noteq> None" "p \<noteq> []" "t' = AList.delete p t"
    "\<forall>q. map_of t q \<noteq> None \<longrightarrow> ParentOf q \<noteq> p"
proof (cases "r = Inr ()")
  case False
  with rm show ?thesis by (intro that(1)) (auto simp: fs_remove_def split: option.splits node.splits if_splits)
next
  case True
  from ok have ok': "map_ok (map_of t)" by (simp add: fs_ok_iff)
  then have none: "map_of t [] = None" by (simp add: map_ok_def)
  from rm True have c: "map_of t p \<noteq> None" "t' = AList.delete p t"
    "map_of t p = Some Dir \<Longrightarrow> fs_children t p = []"
    by (auto simp: fs_remove_def split: option.splits node.splits if_splits)
  with none have p: "p \<noteq> []" by auto
  then have "\<forall>q. map_of t q \<noteq> None \<longrightarrow> ParentOf q \<noteq> p"
    using map_ok_child [OF ok', of _ p] fs_children_free [OF none, of p] c(3) by blast
  with True c p that(2) show ?thesis by blast
qed

section \<open>Operations that leave the objects alone\<close>

text \<open>What an operation that publishes nothing keeps.\<close>

definition still :: "objects \<Rightarrow> (bytes \<Rightarrow> bytes option) \<Rightarrow> env \<Rightarrow> disk \<times> env \<Rightarrow> bool" where
  "still ob up e0 st = (disk_ok (fst st) \<and> disk_objs (fst st) = ob \<and> disk_ups (fst st) = up
     \<and> env_step e0 (snd st))"

lemma keeps_attempt [intro]: "keeps (still ob up e0) attempt"
  by (rule keeps_pairI) (auto simp: still_def dest!: attempt_cases intro: env_step_trans)

lemma keeps_rand [intro]: "keeps (still ob up e0) rand_text"
  by (rule keeps_pairI) (auto simp: still_def intro: env_step_trans)

lemma sys_cases:
  assumes "sys f (s, e) = (r, (s', e'))"
  obtains "env_step e e'" "s' = s" "r = Inl ErrOther"
  | t where "env_step e e'" "f (tree s) = (r, t)" "s' = s\<lparr>tree := t\<rparr>"
  using assms attempt_cases [of s e]
  by (auto simp: sys_def bindE_def split: prod.splits sum.splits)

lemma disk_objs_put:
  "disk_objs (s\<lparr>tree := AList.update p (Reg d m) t\<rparr>) =
     (if reserved p then disk_objs (s\<lparr>tree := t\<rparr>) else (disk_objs (s\<lparr>tree := t\<rparr>))(p \<mapsto> (d, m)))"
  by (auto simp: disk_objs_def fun_eq_iff AList.update_conv')

lemma disk_objs_dir:
  "map_of t p = None \<or> map_of t p = Some Dir \<Longrightarrow>
   disk_objs (s\<lparr>tree := AList.update p Dir t\<rparr>) = disk_objs (s\<lparr>tree := t\<rparr>)"
  by (auto simp: disk_objs_def fun_eq_iff AList.update_conv')

lemma disk_objs_drop:
  "disk_objs (s\<lparr>tree := AList.delete p t\<rparr>) =
     (if reserved p then disk_objs (s\<lparr>tree := t\<rparr>) else (disk_objs (s\<lparr>tree := t\<rparr>))(p := None))"
  by (auto simp: disk_objs_def fun_eq_iff AList.delete_conv')

lemma disk_ups_put:
  "disk_ups (s\<lparr>tree := AList.update (uploadPath uid) (Reg d m) t\<rparr>) = (disk_ups (s\<lparr>tree := t\<rparr>))(uid \<mapsto> d)"
  "(\<forall>uid. p \<noteq> uploadPath uid) \<Longrightarrow>
     disk_ups (s\<lparr>tree := AList.update p x t\<rparr>) = disk_ups (s\<lparr>tree := t\<rparr>)"
  by (auto simp: disk_ups_def fun_eq_iff AList.update_conv')

lemma disk_ups_dir:
  "map_of t p = None \<or> map_of t p = Some Dir \<Longrightarrow>
   disk_ups (s\<lparr>tree := AList.update p Dir t\<rparr>) = disk_ups (s\<lparr>tree := t\<rparr>)"
  by (auto simp: disk_ups_def fun_eq_iff AList.update_conv')

lemma disk_ups_drop:
  "disk_ups (s\<lparr>tree := AList.delete (uploadPath uid) t\<rparr>) = (disk_ups (s\<lparr>tree := t\<rparr>))(uid := None)"
  "(\<forall>uid. p \<noteq> uploadPath uid) \<Longrightarrow>
     disk_ups (s\<lparr>tree := AList.delete p t\<rparr>) = disk_ups (s\<lparr>tree := t\<rparr>)"
  by (auto simp: disk_ups_def fun_eq_iff AList.delete_conv')

lemma not_upload: "\<not> reserved p \<Longrightarrow> p \<noteq> uploadPath uid"
  by auto

text \<open>Making a directory, and removing an empty one or a temporary file.\<close>

lemma keeps_mkdir:
  assumes "p \<noteq> []"
  shows "keeps (still ob up e0) (sys (fs_mkdir p))"
proof (rule keeps_pairI)
  fix s e r s' e'
  assume st: "still ob up e0 (s, e)" and m: "sys (fs_mkdir p) (s, e) = (r, (s', e'))"
  from m show "still ob up e0 (s', e')"
  proof (cases rule: sys_cases)
    case 1
    with st show ?thesis by (auto simp: still_def intro: env_step_trans)
  next
    case (2 t)
    from 2(2) have "t = tree s \<or> t = AList.update p Dir (tree s) \<and> map_of (tree s) p = None \<and> is_dir_at (tree s) (ParentOf p)"
      by (auto simp: fs_mkdir_def split: option.splits node.splits if_splits)
    with 2 st assms show ?thesis
      by (auto simp: still_def disk_ok_def fs_ok_put disk_objs_dir disk_ups_dir intro: env_step_trans)
  qed
qed

lemma keeps_remove_dir:
  assumes "p \<noteq> tmpDir" "p \<noteq> uploadDir" "\<not> reserved p" "ob p = None"
  shows "keeps (still ob up e0) (sys (fs_remove p))"
proof (rule keeps_pairI)
  fix s e r s' e'
  assume st: "still ob up e0 (s, e)" and m: "sys (fs_remove p) (s, e) = (r, (s', e'))"
  from m show "still ob up e0 (s', e')"
  proof (cases rule: sys_cases)
    case 1
    with st show ?thesis by (auto simp: still_def intro: env_step_trans)
  next
    case (2 t)
    from st have ok: "fs_ok (tree s)" by (simp add: still_def disk_ok_def)
    from fs_remove_cases [OF ok 2(2)] show ?thesis
      using 2 st assms ok
      by cases (auto simp: still_def disk_ok_def fs_ok_drop disk_objs_drop disk_ups_drop(2)
          fun_upd_idem not_upload intro: env_step_trans)
  qed
qed

lemma keeps_remove_tmp: "keeps (still ob up e0) (sys (fs_remove (tmpDir @ slash # x)))"
proof (rule keeps_pairI)
  fix s e r s' e'
  assume st: "still ob up e0 (s, e)" and m: "sys (fs_remove (tmpDir @ slash # x)) (s, e) = (r, (s', e'))"
  from m show "still ob up e0 (s', e')"
  proof (cases rule: sys_cases)
    case 1
    with st show ?thesis by (auto simp: still_def intro: env_step_trans)
  next
    case (2 t)
    from st have ok: "fs_ok (tree s)" by (simp add: still_def disk_ok_def)
    from fs_remove_cases [OF ok 2(2)] show ?thesis
      using 2 st ok
      by cases (auto simp: still_def disk_ok_def fs_ok_drop disk_objs_drop disk_ups_drop(2) intro: env_step_trans)
  qed
qed

section \<open>Keys as paths\<close>

lemma valid_key_hd: "ValidateKey key = Inr () \<Longrightarrow> key \<noteq> [] \<and> hd key \<noteq> dot \<and> hd key \<noteq> slash"
proof -
  assume "ValidateKey key = Inr ()"
  then have v: "key \<noteq> []" "\<not> has_prefix key ''/''" "check_segments True (split_on slash key)"
    by (simp_all add: ValidateKey_ok_iff)
  then obtain c cs where key: "key = c # cs" and c: "c \<noteq> slash"
    by (cases key) (auto simp: has_prefix_def)
  from v(3) have "hd (hd (split_on slash key)) \<noteq> dot" by (cases "split_on slash key") (auto split: if_splits)
  with key c show ?thesis by (auto split: list.splits)
qed

lemma valid_key_not_reserved: "ValidateKey key = Inr () \<Longrightarrow> \<not> reserved key"
  using valid_key_hd reserved_hd by blast

lemma path_dir_key:
  assumes "ValidateKey key = Inr ()"
  shows "path_dir key = (if ParentOf key = [] then ''.'' else ParentOf key)"
proof (cases "last_index slash key")
  case None
  then have "path_dir key = path_clean []" "ParentOf key = []"
    by (simp_all only: path_dir_def ParentOf_def option.case)
  then show ?thesis by (simp add: path_clean_def has_prefix_def)
next
  case (Some i)
  from assms have v: "\<forall>s\<in>set (split_on slash key). plain_seg s" "\<not> has_prefix key ''/''"
    by (simp_all add: ValidateKey_ok_iff check_segments_iff)
  define a b where "a = take i key" and "b = drop (Suc i) key"
  have key: "key = a @ slash # b"
    unfolding a_def b_def by (rule conjunct1 [OF last_index_SomeD [OF Some]])
  have "i < length key"
    by (rule conjunct2 [OF conjunct2 [OF last_index_SomeD [OF Some]]])
  then have a: "length a = i" by (simp add: a_def)
  with key have cut: "take (Suc i) key = a @ [slash]" "take i key = a" by simp_all
  from key split_on_append [of slash a b] v(1) have plain: "\<forall>s\<in>set (split_on slash a). plain_seg s" by simp
  then have ne: "a \<noteq> []" by (cases "a = []") (simp_all add: plain_seg_def)
  moreover have "\<not> has_prefix (a @ [slash]) ''/''"
    using v(2) ne unfolding key by (cases a) (simp_all add: has_prefix_def)
  moreover have "clean_segs False [] (split_on slash (a @ [slash])) = split_on slash a"
  proof -
    have "split_on slash (a @ [slash]) = split_on slash a @ [[]]"
      using split_on_append [of slash a "[]"] by simp
    moreover have "clean_segs False out (ss @ [[]]) = rev out @ ss" if "\<forall>s\<in>set ss. plain_seg s" for out ss
      using that by (induction ss arbitrary: out) (auto simp: plain_seg_def)
    ultimately show ?thesis using plain by simp
  qed
  ultimately show ?thesis using Some cut
    by (simp add: path_dir_def path_clean_def ParentOf_def Let_def)
qed

lemma ParentOf_hd: "ParentOf k \<noteq> [] \<Longrightarrow> hd (ParentOf k) = hd k"
  by (cases k rule: ParentOf_cases) (auto, metis hd_append2)

lemma dir_chain_hd:
  assumes "p \<noteq> []" "hd p \<noteq> slash" "q \<in> set (dir_chain p)"
  shows "q \<noteq> [] \<and> hd q = hd p"
proof (cases "q = p")
  case False
  with assms(3) obtain i where i: "q = take i p" "i < length p" "p ! i = slash"
    by (auto simp: dir_chain_def)
  with assms have "0 < i" by (cases i) (auto simp: hd_conv_nth)
  with i assms(1) show ?thesis by (cases p; cases i) auto
qed (use assms in simp)

text \<open>What is made on the way to a key, and pruned on the way back, is neither an object nor reserved.\<close>

lemma key_chain:
  assumes "ValidateKey key = Inr ()" "ParentOf key \<noteq> []" "q \<in> set (dir_chain (ParentOf key))"
  shows "q \<noteq> []" "\<not> reserved q" "q \<noteq> tmpDir" "q \<noteq> uploadDir"
proof -
  from valid_key_hd [OF assms(1)] assms(2,3) dir_chain_hd [of "ParentOf key" q] ParentOf_hd [of key]
  have "q \<noteq> []" "hd q \<noteq> dot" by auto
  then show "q \<noteq> []" "\<not> reserved q" "q \<noteq> tmpDir" "q \<noteq> uploadDir"
    using reserved_hd by (auto simp: tmpDir_def uploadDir_def)
qed

section \<open>Put\<close>

lemma keeps_mkdirs: "[] \<notin> set ps \<Longrightarrow> keeps (still ob up e0) (mkdirs ps)"
  by (induction ps) (auto intro!: keeps_bind keeps_mkdir)

lemma keeps_plain [intro]: "keeps I m \<Longrightarrow> keeps I (plain_error m)"
  by (force simp: keeps_def plain_error_def split: prod.splits sum.splits)

lemma keeps_best_effort [intro]: "keeps I m \<Longrightarrow> keeps I (best_effort m)"
  by (auto simp: best_effort_def)

lemma keeps_make_parents: "ValidateKey key = Inr () \<Longrightarrow> keeps (still ob up e0) (make_parents key)"
  using key_chain(1) by (auto simp: make_parents_def MkdirAll_def path_dir_key intro!: keeps_plain keeps_mkdirs)

lemma keeps_quietly: "keeps (still ob up e0) (remove_quietly (tmpDir @ slash # x))"
  unfolding remove_quietly_def by (rule keeps_best_effort [OF keeps_remove_tmp])

lemma keeps_Stat: "keeps (still ob up e0) (Stat key)"
proof -
  have "keeps (still ob up e0) (sys_stat key)"
  proof (rule keeps_pairI)
    fix s e r s' e'
    assume "still ob up e0 (s, e)" "sys_stat key (s, e) = (r, (s', e'))"
    then show "still ob up e0 (s', e')"
      unfolding sys_stat_def by (elim sys_cases) (auto simp: still_def intro: env_step_trans)
  qed
  then show ?thesis
    unfolding Stat_def by (intro keeps_bind keeps_lift keeps_attempt) (auto split: node.splits)
qed

text \<open>The temporary file while it is filled.\<close>

definition temp_has :: "objects \<Rightarrow> (bytes \<Rightarrow> bytes option) \<Rightarrow> env \<Rightarrow> bytes \<Rightarrow> bytes \<Rightarrow> disk \<times> env \<Rightarrow> bool" where
  "temp_has ob up e0 x d st \<longleftrightarrow> still ob up e0 st
     \<and> map_of (tree (fst st)) (tmpDir @ slash # x) = Some (Reg d (now e0))"

lemma still_now: "still ob up e0 (s, e) \<Longrightarrow> now e = now e0"
  by (simp add: still_def env_step_def)

lemma yields_plain: "yields P m Q E \<Longrightarrow> yields P (plain_error m) Q E"
  unfolding yields_def plain_error_def by (force split: prod.splits sum.splits)

lemma create_temp:
  "yields (still ob up e0) (\<lambda>s. sys (fs_create (tmpDir @ slash # x) (now (snd s))) s)
     (\<lambda>_. temp_has ob up e0 x []) (still ob up e0)"
proof (rule yields_pairI)
  fix s e r s' e'
  assume st: "still ob up e0 (s, e)"
    and m: "sys (fs_create (tmpDir @ slash # x) (now (snd (s, e)))) (s, e) = (r, s', e')"
  from m show "case r of Inl a \<Rightarrow> still ob up e0 (s', e') | Inr a \<Rightarrow> temp_has ob up e0 x [] (s', e')"
  proof (cases rule: sys_cases)
    case 1
    with st show ?thesis by (auto simp: still_def intro: env_step_trans)
  next
    case (2 t)
    with st show ?thesis
      by (auto simp: fs_create_def still_def temp_has_def disk_ok_def fs_ok_put disk_objs_put disk_ups_put(2)
          AList.update_conv' env_step_def split: option.splits if_splits intro: env_step_trans)
  qed
qed

lemma append_temp:
  assumes "temp_has ob up e0 x d (s, e)" "env_step e e'"
  shows "temp_has ob up e0 x (d @ d') (s\<lparr>tree := fs_append (tmpDir @ slash # x) d' (now e) (tree s)\<rparr>, e')"
proof -
  let ?p = "tmpDir @ slash # x"
  from assms have t: "map_of (tree s) ?p = Some (Reg d (now e0))" "fs_ok (tree s)" "now e = now e0"
    by (auto simp: temp_has_def still_def disk_ok_def env_step_def)
  moreover have "is_dir_at (tree s) (ParentOf ?p)"
    by (rule fs_ok_parent [OF t(2)]) (simp only: t(1) option.distinct not_False_eq_True)
  ultimately show ?thesis
    using assms fs_ok_put [of "tree s" ?p]
    by (auto simp: temp_has_def still_def disk_ok_def fs_append_def disk_objs_put disk_ups_put(2)
        AList.update_conv' intro: env_step_trans)
qed

lemma write_temp:
  "yields (temp_has ob up e0 x []) (sys_write (tmpDir @ slash # x) d) (\<lambda>_. temp_has ob up e0 x d) (still ob up e0)"
  using append_temp [of ob up e0 x "[]"] draw_fault_step
  by (intro yields_pairI) (fastforce simp: sys_write_def temp_has_def split: prod.splits option.splits)

lemma attempt_temp: "yields (temp_has ob up e0 x d) attempt (\<lambda>_. temp_has ob up e0 x d) (temp_has ob up e0 x d)"
  by (rule yields_pairI) (auto simp: temp_has_def still_def dest!: attempt_cases split: sum.splits intro: env_step_trans)

lemma fail_after_temp:
  "yields (still ob up e0) (fail_after (remove_quietly (tmpDir @ slash # x)) er) R (still ob up e0)"
  unfolding fail_after_def by (rule yields_bind [OF yields_keeps [OF keeps_quietly] yields_fail])

lemma writeTemp_yields:
  "yields (still ob up e0) (writeTemp r sz)
     (\<lambda>name st. \<exists>x. name = tmpDir @ slash # x \<and> temp_has ob up e0 x (content r) st
        \<and> copy_sized sz r = (content r, None)) (still ob up e0)"
proof -
  obtain d err where c: "copy_sized sz r = (d, err)" by fastforce
  have d: "err = None \<Longrightarrow> d = content r" using c copy_sized_ok by blast
  have weak: "temp_has ob up e0 x d st \<Longrightarrow> still ob up e0 st" for x d st by (simp add: temp_has_def)
  have body: "yields (temp_has ob up e0 x [])
     (bindE (sys_write (tmpDir @ slash # x) d) (\<lambda>_. case err of Some x \<Rightarrow> failE x | None \<Rightarrow> attempt))
     (\<lambda>_ st. temp_has ob up e0 x d st \<and> err = None) (still ob up e0)" for x
    by (rule yields_bind [OF write_temp], cases err)
      (auto intro!: yields_fail intro: weak yields_conseq [OF attempt_temp])
  have "yields (\<lambda>st. temp_has ob up e0 x d st \<and> err = None) attempt
     (\<lambda>_ st. temp_has ob up e0 x d st \<and> err = None) (still ob up e0)" for x
    by (rule yields_pairI) (auto simp: temp_has_def still_def dest!: attempt_cases split: sum.splits intro: env_step_trans)
  note closed = this yields_keeps [OF keeps_attempt]
  show ?thesis
    unfolding writeTemp_def c prod.case Let_def append_Cons append_Nil
    apply (rule yields_bind [OF yields_keeps [OF keeps_rand]])
    apply (rule yields_bind [OF yields_plain [OF create_temp]])
    apply (rule yields_try [OF body])
     apply (rule yields_try [OF closed(1)])
      apply (auto intro!: yields_ret fail_after_temp simp: c d) [1]
     apply (auto intro!: fail_after_temp) [1]
    apply (rule yields_try [OF closed(2)])
     apply (auto intro!: fail_after_temp)
    done
qed

lemma keeps_conj: "keeps P m \<Longrightarrow> keeps Q m \<Longrightarrow> keeps (\<lambda>s. P s \<and> Q s) m"
  by (simp add: keeps_def)

lemma keeps_mkdir_file:
  "keeps (\<lambda>st. map_of (tree (fst st)) p0 = Some (Reg d t)) (sys (fs_mkdir p))"
  by (rule keeps_pairI, erule sys_cases)
    (auto simp: fs_mkdir_def AList.update_conv' split: option.splits node.splits if_splits)

lemma keeps_mkdirs_file: "keeps (\<lambda>st. map_of (tree (fst st)) p0 = Some (Reg d t)) (mkdirs ps)"
  by (induction ps) (simp_all only: mkdirs.simps keeps_ret keeps_bind keeps_mkdir_file)

lemma keeps_make_parents_file:
  "ValidateKey key = Inr () \<Longrightarrow>
   keeps (\<lambda>st. still ob up e0 st \<and> map_of (tree (fst st)) p0 = Some (Reg d t)) (make_parents key)"
  by (rule keeps_conj [OF keeps_make_parents])
    (auto simp: make_parents_def MkdirAll_def intro!: keeps_plain keeps_mkdirs_file)

lemma fs_rename_cases:
  assumes ok: "fs_ok t" and rn: "fs_rename src dst t = (r, t')"
    and p: "dst \<noteq> []" "src \<noteq> tmpDir" "src \<noteq> uploadDir"
  obtains "t' = t" "r \<noteq> Inr ()"
  | d m where "r = Inr ()" "map_of t src = Some (Reg d m)"
    "t' = AList.update dst (Reg d m) (AList.delete src t)" "fs_ok t'"
proof (cases "r = Inr ()")
  case False
  with rn show ?thesis by (intro that(1)) (auto simp: fs_rename_def split: option.splits node.splits if_splits)
next
  case True
  from rn True obtain d m where c: "map_of t src = Some (Reg d m)" "is_dir_at t (ParentOf dst)"
    "map_of t dst \<noteq> Some Dir" and t': "t' = AList.update dst (Reg d m) (AList.delete src t)"
    by (auto simp: fs_rename_def split: option.splits node.splits if_splits)
  from c(1) ok have src: "src \<noteq> []" by (auto simp: fs_ok_iff map_ok_def)
  have "\<forall>q. map_of t q \<noteq> None \<longrightarrow> ParentOf q \<noteq> src"
    using ok c(1) src map_ok_child [of "map_of t" _ src] by (auto simp: fs_ok_iff)
  with ok p have ok1: "fs_ok (AList.delete src t)" by (simp add: fs_ok_drop)
  have "fs_ok t'"
    unfolding t' by (rule fs_ok_put [OF ok1 p(1)]) (use c in \<open>auto simp: AList.delete_conv' is_dir_at_def\<close>)
  with True c t' that(2) show ?thesis by blast
qed

lemma publish_temp:
  assumes key: "ValidateKey key = Inr ()"
  shows "yields (temp_has ob up e0 x d) (sys (fs_rename (tmpDir @ slash # x) key))
     (\<lambda>_. still (ob(key \<mapsto> (d, now e0))) up e0) (still ob up e0)"
proof (rule yields_pairI)
  fix s e r s' e'
  assume st: "temp_has ob up e0 x d (s, e)" and m: "sys (fs_rename (tmpDir @ slash # x) key) (s, e) = (r, s', e')"
  from key have k: "key \<noteq> []" "\<not> reserved key" using valid_key_hd valid_key_not_reserved by blast+
  from st have ok: "fs_ok (tree s)" by (simp add: temp_has_def still_def disk_ok_def)
  from m show "case r of Inl a \<Rightarrow> still ob up e0 (s', e') | Inr a \<Rightarrow> still (ob(key \<mapsto> (d, now e0))) up e0 (s', e')"
  proof (cases rule: sys_cases)
    case 1
    with st show ?thesis by (auto simp: temp_has_def still_def intro: env_step_trans)
  next
    case (2 t)
    from fs_rename_cases [OF ok 2(2) k(1) reserved_paths(3,4)] show ?thesis
    proof cases
      case 1
      with 2 st show ?thesis
        by (cases r) (auto simp: temp_has_def still_def intro: env_step_trans)
    next
      case (2 d' m')
      with \<open>s' = _\<close> \<open>env_step e e'\<close> st k not_upload [OF k(2)] show ?thesis
        by (auto simp: temp_has_def still_def disk_ok_def disk_objs_put disk_objs_drop disk_ups_put(2)
            disk_ups_drop(2) intro: env_step_trans)
    qed
  qed
qed

lemma sys_stat_result:
  "sys_stat p (s, e) = (r, (s', e')) \<Longrightarrow> s' = s \<and> env_step e e'
     \<and> (\<forall>x. r = Inr x \<longrightarrow> map_of (tree s) p = Some x)"
  unfolding sys_stat_def by (erule sys_cases) (auto split: option.splits)

lemma Stat_yields:
  "yields (still ob up e0) (Stat key)
     (\<lambda>i st. still ob up e0 st \<and> (\<exists>x. ob key = Some x \<and> i = info_of key x)) (still ob up e0)"
proof (cases "ValidateKey key = Inr ()")
  case True
  have "yields (still ob up e0) (sys_stat key)
     (\<lambda>x st. still ob up e0 st \<and> map_of (tree (fst st)) key = Some x) (still ob up e0)"
    by (rule yields_pairI) (auto simp: still_def dest!: sys_stat_result split: sum.splits intro: env_step_trans)
  with True valid_key_not_reserved [OF True] show ?thesis
    unfolding Stat_def
    apply (intro yields_bind [where Q = "\<lambda>_. still ob up e0", OF yields_lift])
      apply simp_all
    apply (rule yields_bind [OF yields_keeps [OF keeps_attempt]])
    apply (rule yields_bind)
     apply assumption
    apply (auto split: node.splits intro!: yields_ret yields_fail simp: still_def disk_objs_def)
    done
next
  case False
  then show ?thesis unfolding Stat_def
    by (cases "ValidateKey key") (auto simp: yields_def bindE_def)
qed

text \<open>
  What a \<open>Put\<close> leaves when it fails: nothing under its key but what was there, or the new
  bytes, when it is the closing \<open>Stat\<close> that failed.
\<close>

definition published :: "objects \<Rightarrow> (bytes \<Rightarrow> bytes option) \<Rightarrow> env \<Rightarrow> bytes \<Rightarrow> bytes \<Rightarrow> disk \<times> env \<Rightarrow> bool" where
  "published ob up e0 key d st \<longleftrightarrow> still ob up e0 st \<or> still (ob(key \<mapsto> (d, now e0))) up e0 st"

lemma Put_yields:
  "yields (still ob up e0) (Put key r sz)
     (\<lambda>i st. still (ob(key \<mapsto> (content r, now e0))) up e0 st \<and> i = info_of key (content r, now e0)
        \<and> ValidateKey key = Inr () \<and> copy_sized sz r = (content r, None))
     (\<lambda>st. still ob up e0 st
        \<or> copy_sized sz r = (content r, None) \<and> still (ob(key \<mapsto> (content r, now e0))) up e0 st)"
  (is "yields ?P _ ?Q ?E")
proof (cases "ValidateKey key = Inr ()")
  case key: True
  let ?T = "\<lambda>x st. temp_has ob up e0 x (content r) st \<and> copy_sized sz r = (content r, None)"
  have temp: "temp_has ob up e0 x d st \<longleftrightarrow> still ob up e0 st \<and> map_of (tree (fst st)) (tmpDir @ slash # x) = Some (Reg d (now e0))"
    for x d st by (simp add: temp_has_def)
  have parents: "yields (?T x) (make_parents key) (\<lambda>_. ?T x) (still ob up e0)" for x
    by (rule yields_conseq [OF yields_keeps [OF keeps_conj [OF keeps_make_parents_file [OF key]
        keepsI [of "\<lambda>_. copy_sized sz r = (content r, None)"]]]]) (auto simp: temp)
  have rename: "yields (?T x) (plain_error (sys (fs_rename (tmpDir @ slash # x) key)))
     (\<lambda>_ st. still (ob(key \<mapsto> (content r, now e0))) up e0 st \<and> copy_sized sz r = (content r, None)) (still ob up e0)" for x
    by (rule yields_given, rule yields_conseq [OF yields_plain [OF publish_temp [OF key]]]) auto
  have fail: "yields (still ob up e0) (fail_after (remove_quietly (tmpDir @ slash # x)) er) ?Q ?E" for x er
    by (rule yields_conseq [OF fail_after_temp]) auto
  have last: "yields (\<lambda>st. still (ob(key \<mapsto> (content r, now e0))) up e0 st \<and> copy_sized sz r = (content r, None))
     (Stat key) ?Q ?E"
    by (rule yields_given, rule yields_conseq [OF Stat_yields]) (auto simp: key)
  have rest: "yields (?T x) (tryE (make_parents key) (\<lambda>made.
      case made of Inl er \<Rightarrow> fail_after (remove_quietly (tmpDir @ slash # x)) er | Inr _ \<Rightarrow>
      tryE (plain_error (sys (fs_rename (tmpDir @ slash # x) key))) (\<lambda>moved.
      case moved of Inl er \<Rightarrow> fail_after (remove_quietly (tmpDir @ slash # x)) er | Inr _ \<Rightarrow> Stat key))) ?Q ?E" for x
    by (rule yields_try [OF parents]) (auto intro!: yields_try [OF rename] fail last)
  have "yields (still ob up e0) (bindE attempt (\<lambda>_. bindE (writeTemp r sz) (\<lambda>tmp.
      tryE (make_parents key) (\<lambda>made.
      case made of Inl er \<Rightarrow> fail_after (remove_quietly tmp) er | Inr _ \<Rightarrow>
      tryE (plain_error (sys (fs_rename tmp key))) (\<lambda>moved.
      case moved of Inl er \<Rightarrow> fail_after (remove_quietly tmp) er | Inr _ \<Rightarrow> Stat key))))) ?Q ?E"
  proof (rule yields_bind)
    show "yields (still ob up e0) attempt (\<lambda>_. still ob up e0) ?E"
      by (rule yields_conseq [OF yields_keeps [OF keeps_attempt]]) auto
    fix u :: unit
    show "yields (still ob up e0) (bindE (writeTemp r sz) (\<lambda>tmp.
      tryE (make_parents key) (\<lambda>made.
      case made of Inl er \<Rightarrow> fail_after (remove_quietly tmp) er | Inr _ \<Rightarrow>
      tryE (plain_error (sys (fs_rename tmp key))) (\<lambda>moved.
      case moved of Inl er \<Rightarrow> fail_after (remove_quietly tmp) er | Inr _ \<Rightarrow> Stat key)))) ?Q ?E"
    proof (rule yields_bind)
      show "yields (still ob up e0) (writeTemp r sz) (\<lambda>name st. \<exists>x. name = tmpDir @ slash # x \<and> ?T x st) ?E"
        by (rule yields_conseq [OF writeTemp_yields]) auto
    qed (rule yields_ex, rule yields_given2, hypsubst, rule rest)
  qed
  with key show ?thesis unfolding Put_def by (auto simp: yields_def bindE_def)
next
  case False
  then show ?thesis unfolding Put_def
    by (cases "ValidateKey key") (auto simp: yields_def bindE_def)
qed

section \<open>Delete\<close>

lemma map_ok_ancestor:
  assumes ok: "map_ok m"
  shows "m p \<noteq> None \<Longrightarrow> under q p \<Longrightarrow> q \<noteq> [] \<Longrightarrow> m q = Some Dir"
proof (induction "length p" arbitrary: p rule: less_induct)
  case less
  from under_ParentOf [OF less.prems(2)] less.prems(3) have ne: "ParentOf p \<noteq> []" by (auto simp: under_iff)
  with ok less.prems(1) have dir: "m (ParentOf p) = Some Dir" by (auto simp: map_ok_def)
  from under_ParentOf [OF less.prems(2)] show ?case
  proof
    assume "under q (ParentOf p)"
    moreover have "p \<noteq> []" using less.prems(2) by (auto simp: under_iff)
    ultimately show ?thesis using less.hyps [of "ParentOf p"] ParentOf_shorter [of p] dir less.prems(3) by simp
  qed (use dir in simp)
qed

lemma dir_chain_under: "q \<in> set (dir_chain p) \<Longrightarrow> q = p \<or> under q p"
proof -
  assume "q \<in> set (dir_chain p)"
  then consider "q = p" | i where "q = take i p" "i < length p" "p ! i = slash"
    by (auto simp: dir_chain_def)
  then show ?thesis
  proof cases
    case (2 i)
    then have "p = q @ slash # drop (Suc i) p" by (metis id_take_nth_drop)
    then show ?thesis by (metis under_append)
  qed simp
qed

lemma keeps_prune:
  "\<forall>q\<in>set qs. q \<noteq> tmpDir \<and> q \<noteq> uploadDir \<and> \<not> reserved q \<and> ob q = None \<Longrightarrow>
   keeps (still ob up e0) (prune_chain qs)"
proof (induction qs)
  case (Cons q qs)
  then show ?case
    unfolding prune_chain.simps
    by (intro keeps_try keeps_remove_dir) (auto split: sum.splits intro: keeps_ret)
qed (simp only: prune_chain.simps keeps_ret)

lemma remove_key:
  assumes st: "still ob up e0 (s, e)" and key: "\<not> reserved key" "key \<noteq> tmpDir" "key \<noteq> uploadDir"
    and m: "sys (fs_remove key) (s, e) = (r, (s', e'))"
  shows "case r of Inr _ \<Rightarrow> still (ob(key := None)) up e0 (s', e') \<and> map_of (tree s) key \<noteq> None
     | Inl x \<Rightarrow> still ob up e0 (s', e') \<and> (x = ErrObjectNotFound \<longrightarrow> ob key = None)"
  using m
proof (cases rule: sys_cases)
  case 1
  with st show ?thesis by (auto simp: still_def intro: env_step_trans)
next
  case (2 t)
  from st have ok: "fs_ok (tree s)" by (simp add: still_def disk_ok_def)
  from fs_remove_cases [OF ok 2(2)] show ?thesis
  proof cases
    case 1
    with 2 st key show ?thesis
      by (cases r) (auto simp: still_def disk_objs_def intro: env_step_trans)
  next
    case del: 2
    with 2 st key ok show ?thesis
      by (auto simp: still_def disk_ok_def fs_ok_drop disk_objs_drop disk_ups_drop(2) not_upload
          intro: env_step_trans)
  qed
qed

lemma Delete_yields:
  "yields (still ob up e0) (Delete key) (\<lambda>_. still (ob(key := None)) up e0) (still ob up e0)"
proof (cases "ValidateKey key = Inr ()")
  case key: True
  from valid_key_not_reserved [OF key] have k: "\<not> reserved key" "key \<noteq> tmpDir" "key \<noteq> uploadDir"
    by (auto simp: reserved_def)
  have "yields (still ob up e0) (tryE (sys (fs_remove key)) (\<lambda>r. case r of
       Inl x \<Rightarrow> if x = ErrObjectNotFound then retE () else failE x
     | Inr _ \<Rightarrow> pruneParents (path_dir key))) (\<lambda>_. still (ob(key := None)) up e0) (still ob up e0)"
  proof (rule yields_pairI)
    fix s e y s' e'
    assume st: "still ob up e0 (s, e)" and run: "tryE (sys (fs_remove key)) (\<lambda>r. case r of
       Inl x \<Rightarrow> if x = ErrObjectNotFound then retE () else failE x
     | Inr _ \<Rightarrow> pruneParents (path_dir key)) (s, e) = (y, s', e')"
    obtain r s1 e1 where m: "sys (fs_remove key) (s, e) = (r, s1, e1)" by (metis prod_cases3)
    note rk = remove_key [OF st k m]
    show "case y of Inl x \<Rightarrow> still ob up e0 (s', e') | Inr x \<Rightarrow> still (ob(key := None)) up e0 (s', e')"
    proof (cases r)
      case (Inl x)
      with run m rk show ?thesis by (auto simp: tryE_def fun_upd_idem split: if_splits)
    next
      case (Inr u)
      with rk have st1: "still (ob(key := None)) up e0 (s1, e1)" and ex: "map_of (tree s) key \<noteq> None" by auto
      from st have mo: "map_ok (map_of (tree s))" by (simp add: still_def disk_ok_def fs_ok_iff)
      have "keeps (still (ob(key := None)) up e0) (pruneParents (path_dir key))"
      proof (cases "ParentOf key = []")
        case True
        then show ?thesis unfolding pruneParents_def path_dir_key [OF key] by (simp only: if_True simp_thms keeps_ret)
      next
        case False
        have "q \<noteq> tmpDir \<and> q \<noteq> uploadDir \<and> \<not> reserved q \<and> (ob(key := None)) q = None"
          if q: "q \<in> set (rev (dir_chain (ParentOf key)))" for q
        proof -
          from q have q': "q \<in> set (dir_chain (ParentOf key))" by simp
          note kc = key_chain [OF key False q']
          from dir_chain_under [OF q'] ParentOf_under [OF False] have "under q key"
            using under_trans by blast
          with map_ok_ancestor [OF mo ex] kc(1) have "map_of (tree s) q = Some Dir" by simp
          then have "disk_objs s q = None" by (simp add: disk_objs_def)
          with st kc show ?thesis by (auto simp: still_def)
        qed
        then have "keeps (still (ob(key := None)) up e0) (prune_chain (rev (dir_chain (ParentOf key))))"
          by (intro keeps_prune) blast
        moreover have "path_dir key = ParentOf key" using path_dir_key [OF key] False by simp
        ultimately show ?thesis unfolding pruneParents_def by (simp only: keeps_if keeps_ret)
      qed
      moreover from run m Inr have eq: "pruneParents (path_dir key) (s1, e1) = (y, s', e')"
        by (simp add: tryE_def)
      moreover have "\<exists>u. y = Inr u"
      proof -
        have "\<exists>u t. prune_chain qs st = (Inr u, t)" for qs st
          by (induction qs arbitrary: st) (auto simp: tryE_def split: prod.splits sum.splits)
        with eq show ?thesis unfolding pruneParents_def by (auto split: if_splits) (metis prod.inject)
      qed
      ultimately show ?thesis using st1 by (auto dest: keepsD)
    qed
  qed
  with key show ?thesis unfolding Delete_def
    by (intro yields_check yields_bind [OF yields_keeps [OF keeps_attempt]]) auto
next
  case False
  then show ?thesis unfolding Delete_def
    by (intro yields_check) auto
qed

section \<open>Get\<close>

text \<open>Operations that only look.\<close>

definition frozen :: "disk \<Rightarrow> env \<Rightarrow> disk \<times> env \<Rightarrow> bool" where
  "frozen s0 e0 st \<longleftrightarrow> fst st = s0 \<and> env_step e0 (snd st)"

lemma keeps_attempt_frozen [intro]: "keeps (frozen s0 e0) attempt"
  by (rule keeps_pairI) (auto simp: frozen_def dest!: attempt_cases intro: env_step_trans)

lemma stat_frozen:
  "yields (frozen s0 e0) (sys_stat p) (\<lambda>x st. frozen s0 e0 st \<and> map_of (tree s0) p = Some x) (frozen s0 e0)"
  by (rule yields_pairI) (auto simp: frozen_def dest!: sys_stat_result split: sum.splits intro: env_step_trans)

lemma read_frozen:
  "yields (frozen s0 e0) (sys_read d)
     (\<lambda>r st. frozen s0 e0 st \<and> prefix (content r) d \<and> (failure r = None \<longrightarrow> content r = d)) (frozen s0 e0)"
  by (rule yields_pairI)
    (auto simp: frozen_def sys_read_def content_def of_bytes_def take_is_prefix dest!: draw_fault_step
      split: prod.splits option.splits intro: env_step_trans)

lemma Get_yields:
  "yields (frozen s0 e0) (Get key g)
     (\<lambda>x st. frozen s0 e0 st \<and> (\<exists>ob w. disk_objs s0 key = Some ob \<and> snd x = info_of key ob
        \<and> Resolve g (i_size (snd x)) = Inr w \<and> prefix (content (fst x)) (select (fst ob) w)
        \<and> (failure (fst x) = None \<longrightarrow> content (fst x) = select (fst ob) w)))
     (frozen s0 e0)" (is "yields ?F _ ?Q ?F")
proof -
  have body: "yields ?F (case x of Dir \<Rightarrow> failE ErrObjectNotFound
     | Reg d m \<Rightarrow>
         (let info = info_of key (d, m) in
          bindE (liftE (Resolve g (i_size info))) (\<lambda>w.
          bindE (if 0 < fst w then attempt else retE ()) (\<lambda>_.
          bindE (sys_read (select d w)) (\<lambda>body. retE (body, info)))))) ?Q ?F"
    if key: "ValidateKey key = Inr ()" and x: "map_of (tree s0) key = Some x" for x
  proof (cases x)
    case (Reg d m)
    with valid_key_not_reserved [OF key] x have ob: "disk_objs s0 key = Some (d, m)"
      by (simp add: disk_objs_def)
    have opened: "yields ?F (if b then attempt else retE ()) (\<lambda>_. ?F) ?F" for b
      by (cases b) (auto intro: yields_keeps yields_ret)
    have "yields (\<lambda>st. ?F st \<and> Resolve g (i_size (info_of key (d, m))) = Inr w)
        (bindE (if 0 < fst w then attempt else retE ()) (\<lambda>_.
          bindE (sys_read (select d w)) (\<lambda>body. retE (body, info_of key (d, m))))) ?Q ?F" for w
      by (rule yields_given, rule yields_bind [OF opened], rule yields_bind [OF read_frozen], rule yields_ret)
        (use ob in auto)
    then show ?thesis
      unfolding Reg node.case Let_def
      by (rule yields_bind [rotated]) (rule yields_lift, auto)
  qed (simp add: yields_fail)
  show ?thesis
    unfolding Get_def
    by (rule yields_check, rule yields_bind [OF yields_keeps [OF keeps_attempt_frozen]],
        rule yields_bind [OF stat_frozen], rule yields_given,
        rule yields_bind [OF yields_keeps [OF keeps_attempt_frozen]], rule body) auto
qed

section \<open>Listing\<close>

lemma walk_step:
  "(q, x) \<in> set (walk pre t p) \<longleftrightarrow>
     (\<exists>c\<in>set (fs_children t p). map_of t c \<noteq> None \<and>
        ((q = c \<and> map_of t c = Some x) \<or> (map_of t c = Some Dir \<and> \<not> skips pre c \<and> (q, x) \<in> set (walk pre t c))))"
proof -
  have "set (walk pre t p) = (\<Union>c\<in>set (fs_children t p). set (case map_of t c of
         None \<Rightarrow> [] | Some (Reg d m) \<Rightarrow> [(c, Reg d m)]
       | Some Dir \<Rightarrow> (c, Dir) # (if skips pre c then [] else walk pre t c)))"
    by (simp add: walk.simps [of pre t p])
  moreover have "(q, x) \<in> set (case map_of t c of None \<Rightarrow> [] | Some (Reg d m) \<Rightarrow> [(c, Reg d m)]
       | Some Dir \<Rightarrow> (c, Dir) # (if skips pre c then [] else walk pre t c)) \<longleftrightarrow>
      map_of t c \<noteq> None \<and> ((q = c \<and> map_of t c = Some x)
        \<or> (map_of t c = Some Dir \<and> \<not> skips pre c \<and> (q, x) \<in> set (walk pre t c)))" for c
    by (cases "map_of t c") (auto split: node.splits)
  ultimately show ?thesis by auto
qed

lemma fs_children_iff: "c \<in> set (fs_children t p) \<longleftrightarrow> c \<in> fst ` set t \<and> c \<noteq> [] \<and> ParentOf c = p"
  by (auto simp: fs_children_def)

lemma in_children: "map_of t c = Some x \<Longrightarrow> c \<noteq> [] \<Longrightarrow> ParentOf c = p \<Longrightarrow> c \<in> set (fs_children t p)"
  by (simp add: fs_children_iff) (metis map_of_eq_None_iff option.distinct(1))

lemma walk_sound: "(q, x) \<in> set (walk pre t p) \<Longrightarrow> map_of t q = Some x \<and> q \<noteq> []"
proof (induction pre t p rule: walk.induct)
  case (1 pre t p)
  from "1.prems" obtain c where c: "c \<in> set (fs_children t p)"
    "q = c \<and> map_of t c = Some x \<or> map_of t c = Some Dir \<and> \<not> skips pre c \<and> (q, x) \<in> set (walk pre t c)"
    by (auto simp: walk_step [of q x pre t p])
  with "1.IH" [of c] show ?case by (auto simp: fs_children_iff)
qed

text \<open>A walk from a directory only reaches what is under it.\<close>

lemma walk_under: "(q, x) \<in> set (walk pre t p) \<Longrightarrow> p = [] \<or> under p q"
proof (induction pre t p rule: walk.induct)
  case (1 pre t p)
  show ?case
  proof (cases "p = []")
    case False
    from "1.prems" obtain c where c: "c \<in> set (fs_children t p)"
      "q = c \<or> map_of t c = Some Dir \<and> \<not> skips pre c \<and> (q, x) \<in> set (walk pre t c)"
      by (auto simp: walk_step [of q x pre t p])
    with False have "under p c" "c \<noteq> []" using ParentOf_under [of c] by (auto simp: fs_children_iff)
    with c "1.IH" [of c] show ?thesis using under_trans by auto
  qed simp
qed

text \<open>Nothing that matches the prefix is pruned.\<close>

lemma has_prefix_comparable: "has_prefix q a \<Longrightarrow> has_prefix q b \<Longrightarrow> has_prefix a b \<or> has_prefix b a"
  unfolding has_prefix_iff by (auto simp: append_eq_append_conv2)

lemma skips_never_hides:
  assumes "has_prefix q pre" "under a q" "\<not> reserved q"
  shows "\<not> skips pre a"
  using assms has_prefix_comparable [of q pre "a @ ''/''"]
  by (auto simp: skips_def reserved_def under_def)

lemma walk_extend:
  "(a, Dir) \<in> set (walk pre t p) \<Longrightarrow> \<not> skips pre a \<Longrightarrow> ParentOf c = a \<Longrightarrow> c \<noteq> [] \<Longrightarrow> map_of t c = Some x \<Longrightarrow>
   (c, x) \<in> set (walk pre t p)"
proof (induction pre t p rule: walk.induct)
  case (1 pre t p)
  have c: "c \<in> set (fs_children t a)" using 1 by (intro in_children) auto
  from "1.prems"(1) obtain b where b: "b \<in> set (fs_children t p)" "map_of t b = Some Dir"
    "a = b \<or> \<not> skips pre b \<and> (a, Dir) \<in> set (walk pre t b)"
    by (auto simp: walk_step [of a Dir pre t p])
  show ?case
  proof (cases "a = b")
    case True
    have "(c, x) \<in> set (walk pre t a)" using c 1 by (subst walk_step) auto
    with True b 1 show ?thesis by (subst walk_step) auto
  next
    case False
    with b have nb: "\<not> skips pre b" "(a, Dir) \<in> set (walk pre t b)" by auto
    from b(1) have "b \<in> set (sort (fs_children t p))" by simp
    from "1.IH" [OF this b(2) refl nb(1) nb(2)] 1 have "(c, x) \<in> set (walk pre t b)" by blast
    with b nb show ?thesis by (subst walk_step) auto
  qed
qed

lemma walk_complete:
  assumes ok: "map_ok (map_of t)" and q: "has_prefix q pre" "\<not> reserved q"
  shows "a = q \<or> under a q \<Longrightarrow> map_of t a = Some x \<Longrightarrow> (a, x) \<in> set (walk pre t [])"
proof (induction "length a" arbitrary: a x rule: less_induct)
  case less
  from less.prems(2) ok have ne: "a \<noteq> []" by (auto simp: map_ok_def)
  show ?case
  proof (cases "ParentOf a = []")
    case True
    with less.prems(2) ne have "a \<in> set (fs_children t [])" by (intro in_children) auto
    with less.prems(2) show ?thesis by (subst walk_step) auto
  next
    case False
    with ok less.prems(2) have dir: "map_of t (ParentOf a) = Some Dir" unfolding map_ok_def by blast
    from False less.prems(1) have up: "under (ParentOf a) q"
      using ParentOf_under [OF False] under_trans by blast
    with less.hyps [of "ParentOf a" Dir] ParentOf_shorter [OF ne] dir
    have "(ParentOf a, Dir) \<in> set (walk pre t [])" by blast
    from walk_extend [OF this skips_never_hides [OF q(1) up q(2)] refl ne less.prems(2)] show ?thesis .
  qed
qed

lemma sibling_unique:
  assumes "ParentOf c = ParentOf c'" "c \<noteq> []" "c' \<noteq> []" "k = c \<or> under c k" "k = c' \<or> under c' k"
  shows "c = c'"
proof -
  have no: "\<not> under a b" if "ParentOf a = ParentOf b" "a \<noteq> []" for a b
    using under_ParentOf [of a b] under_length [of a "ParentOf b"] ParentOf_shorter [of a] that by auto
  have pre: "has_prefix (k @ ''/'') (a @ ''/'')" if "k = a \<or> under a k" for a
    using that by (auto simp: under_iff has_prefix_iff)
  from pre [OF assms(4)] pre [OF assms(5)] have "has_prefix (c @ ''/'') (c' @ ''/'') \<or> has_prefix (c' @ ''/'') (c @ ''/'')"
    by (rule has_prefix_comparable)
  moreover have "a = b \<or> under b a" if "has_prefix (a @ ''/'') (b @ ''/'')" for a b
  proof -
    from that obtain t where "a @ ''/'' = (b @ ''/'') @ t" by (auto simp: has_prefix_iff)
    then show ?thesis by (cases t rule: rev_cases) (auto simp: under_iff)
  qed
  ultimately show ?thesis using no assms by metis
qed

lemma distinct_concat_map:
  assumes "distinct xs" "\<And>c. c \<in> set xs \<Longrightarrow> distinct (map fst (f c))"
    "\<And>c c' k. c \<in> set xs \<Longrightarrow> c' \<in> set xs \<Longrightarrow> k \<in> fst ` set (f c) \<Longrightarrow> k \<in> fst ` set (f c') \<Longrightarrow> c = c'"
  shows "distinct (map fst (concat (map f xs)))"
  using assms
proof (induction xs)
  case (Cons x xs)
  then have "distinct (map fst (concat (map f xs)))" by auto
  moreover have "False" if k: "k \<in> fst ` set (f x)" "k \<in> fst ` set (concat (map f xs))" for k
  proof -
    from k(2) obtain c where "c \<in> set xs" "k \<in> fst ` set (f c)" by auto
    with Cons.prems(3) [of x c k] k(1) Cons.prems(1) show False by auto
  qed
  then have "fst ` set (f x) \<inter> fst ` set (concat (map f xs)) = {}" by blast
  ultimately show ?case using Cons.prems(2) by (simp add: image_Un)
qed simp

lemma walk_distinct:
  assumes "distinct (map fst t)"
  shows "distinct (map fst (walk pre t p))"
  using assms
proof (induction pre t p rule: walk.induct)
  case (1 pre t p)
  let ?f = "\<lambda>q. case map_of t q of
         None \<Rightarrow> []
       | Some (Reg d m) \<Rightarrow> [(q, Reg d m)]
       | Some Dir \<Rightarrow> (q, Dir) # (if skips pre q then [] else walk pre t q)"
  have keys: "k = c \<or> under c k" if "k \<in> fst ` set (?f c)" "c \<in> set (fs_children t p)" for c k
  proof -
    from that(1) consider "k = c" | x where "(k, x) \<in> set (walk pre t c)"
      by (cases "map_of t c"; cases "the (map_of t c)") (auto split: if_splits)
    then show ?thesis using walk_under [of k _ pre t c] that(2) by cases (auto simp: fs_children_iff)
  qed
  have "distinct (map fst (concat (map ?f (sort (fs_children t p)))))"
  proof (rule distinct_concat_map)
    show "distinct (sort (fs_children t p))" using 1(2) by (simp add: fs_children_def)
  next
    fix c assume c: "c \<in> set (sort (fs_children t p))"
    show "distinct (map fst (?f c))"
    proof (cases "map_of t c = Some Dir \<and> \<not> skips pre c")
      case True
      have "c \<notin> fst ` set (walk pre t c)"
        using walk_under [of c _ pre t c] c by (auto simp: fs_children_iff)
      with True "1.IH" [OF c] 1(2) show ?thesis by auto
    qed (auto split: option.splits node.splits)
  next
    fix c c' k
    assume "c \<in> set (sort (fs_children t p))" "c' \<in> set (sort (fs_children t p))"
      "k \<in> fst ` set (?f c)" "k \<in> fst ` set (?f c')"
    then show "c = c'" using keys sibling_unique [of c c' k] by (auto simp: fs_children_iff)
  qed
  then show ?case by (subst walk.simps)
qed

lemma ParentOf_ne: "ParentOf c = p \<Longrightarrow> under a c \<Longrightarrow> a = p \<or> under a p"
  using under_ParentOf [of a c] by auto

lemma under_comparable: "under a q \<Longrightarrow> under b q \<Longrightarrow> a = b \<or> under a b \<or> under b a"
proof -
  assume "under a q" "under b q"
  then have "has_prefix (a @ ''/'') (b @ ''/'') \<or> has_prefix (b @ ''/'') (a @ ''/'')"
    unfolding under_def by (rule has_prefix_comparable)
  moreover have "a = b \<or> under b a" if "has_prefix (a @ ''/'') (b @ ''/'')" for a b
  proof -
    from that obtain t where "a @ ''/'' = (b @ ''/'') @ t" by (auto simp: has_prefix_iff)
    then show ?thesis by (cases t rule: rev_cases) (auto simp: under_iff)
  qed
  ultimately show ?thesis by blast
qed

lemma walk_unskipped:
  "(q, x) \<in> set (walk pre t p) \<Longrightarrow> under a q \<Longrightarrow> p = [] \<or> under p a \<Longrightarrow> a \<noteq> [] \<Longrightarrow> \<not> skips pre a"
proof (induction pre t p rule: walk.induct)
  case (1 pre t p)
  from "1.prems"(1) obtain c where c: "c \<in> set (fs_children t p)"
    "q = c \<or> map_of t c = Some Dir \<and> \<not> skips pre c \<and> (q, x) \<in> set (walk pre t c)"
    by (auto simp: walk_step [of q x pre t p])
  then have par: "ParentOf c = p" "c \<noteq> []" by (auto simp: fs_children_iff)
  have no: "\<not> under a c"
    using ParentOf_ne [OF par(1), of a] "1.prems"(3,4) under_trans [of a p a] by (auto simp: under_iff)
  with c "1.prems"(2) have d: "map_of t c = Some Dir" "\<not> skips pre c" "(q, x) \<in> set (walk pre t c)" by auto
  with walk_under [OF d(3)] par have "under c q" by simp
  from under_comparable [OF "1.prems"(2) this] no consider "a = c" | "under c a" by blast
  then show ?case
  proof cases
    case 2
    have "c \<in> set (sort (fs_children t p))" using c(1) by simp
    from "1.IH" [OF this d(1) refl d(2,3) "1.prems"(2)] 2 "1.prems"(4) show ?thesis by blast
  qed (use d in simp)
qed

lemma walk_not_reserved:
  "(q, Reg d m) \<in> set (walk pre t []) \<Longrightarrow> map_ok (map_of t) \<Longrightarrow> \<not> reserved q"
proof
  assume w: "(q, Reg d m) \<in> set (walk pre t [])" and ok: "map_ok (map_of t)" and "reserved q"
  moreover have "q \<noteq> tmpDir" "q \<noteq> uploadDir" using walk_sound [OF w] ok by (auto simp: map_ok_def)
  ultimately have "under tmpDir q \<or> under uploadDir q" by (simp add: reserved_def)
  moreover have "skips pre tmpDir" "skips pre uploadDir" "tmpDir \<noteq> []" "uploadDir \<noteq> []"
    by (simp_all add: skips_def) (simp_all add: tmpDir_def uploadDir_def)
  ultimately show False using walk_unskipped [OF w] by blast
qed

text \<open>What a walk yields, failures aside.\<close>

fun matching :: "bytes \<Rightarrow> (bytes \<times> node) list \<Rightarrow> object_info list" where
  "matching pre [] = []"
| "matching pre ((p, x) # vs) =
     (case x of Dir \<Rightarrow> matching pre vs
      | Reg d m \<Rightarrow> if has_prefix p pre then info_of p (d, m) # matching pre vs else matching pre vs)"

lemma run_walk_matching:
  "run_walk pre vs e = ((is, err), e') \<Longrightarrow>
     env_step e e' \<and> prefix is (matching pre vs) \<and> (err = None \<longrightarrow> is = matching pre vs)"
proof (induction pre vs e arbitrary: "is" err e' rule: run_walk.induct)
  case (2 pre p x vs e)
  obtain f e1 where f: "draw_fault e = (f, e1)" by fastforce
  note st = draw_fault_step [OF f]
  obtain is2 err2 e2 where rest: "run_walk pre vs e1 = ((is2, err2), e2)" by (metis prod.exhaust)
  show ?case
  proof (cases f)
    case None
    then show ?thesis
      using 2 f rest st env_step_trans [OF st] by (cases x) (auto split: if_splits)
  next
    case (Some k)
    with 2 f st show ?thesis by auto
  qed
qed simp

lemma matching_keys: "i \<in> set (matching pre vs) \<longleftrightarrow>
    (\<exists>p d m. (p, Reg d m) \<in> set vs \<and> has_prefix p pre \<and> i = info_of p (d, m))"
proof (induction pre vs rule: matching.induct)
  case (2 pre p x vs)
  show ?case
  proof (cases x)
    case Dir
    with 2 show ?thesis by simp
  next
    case (Reg d m)
    with 2 show ?thesis by (cases "has_prefix p pre") (simp_all, blast+)
  qed
qed simp

lemma matching_distinct: "distinct (map fst vs) \<Longrightarrow> distinct (map i_key (matching pre vs))"
proof (induction pre vs rule: matching.induct)
  case (2 pre p x vs)
  have "p \<notin> i_key ` set (matching pre vs)"
    using 2(4) by (auto simp: matching_keys info_of_def image_iff) (metis fst_conv image_eqI)
  with 2 show ?case by (cases x) (auto simp: info_of_def)
qed simp

lemma List_law:
  assumes ok: "disk_ok s" and run: "List_objects pre (s, e) = ((is, err), (s', e'))"
  shows "s' = s \<and> env_step e e' \<and> distinct (map i_key is) \<and> set is \<subseteq> listing (disk_objs s) pre
    \<and> (err = None \<longrightarrow> set is = listing (disk_objs s) pre)"
proof -
  let ?w = "(''.'', Dir) # walk pre (tree s) []"
  from ok have t: "distinct (map fst (tree s))" "map_ok (map_of (tree s))"
    by (simp_all add: disk_ok_def fs_ok_iff)
  from run have r: "run_walk pre ?w e = ((is, err), e')" and s': "s' = s"
    by (auto simp: List_objects_def split: prod.splits)
  note m = run_walk_matching [OF r]
  have mw: "matching pre ?w = matching pre (walk pre (tree s) [])" by simp
  have all: "set (matching pre ?w) = listing (disk_objs s) pre"
  proof (intro set_eqI iffI)
    fix i assume "i \<in> set (matching pre ?w)"
    then obtain p d m where p: "(p, Reg d m) \<in> set (walk pre (tree s) [])" "has_prefix p pre" "i = info_of p (d, m)"
      unfolding mw matching_keys by blast
    with walk_sound [OF p(1)] walk_not_reserved [OF p(1) t(2)]
    have "disk_objs s p = Some (d, m)" by (simp add: disk_objs_def)
    with p show "i \<in> listing (disk_objs s) pre" unfolding listing_def by blast
  next
    fix i assume "i \<in> listing (disk_objs s) pre"
    then obtain k x where k: "disk_objs s k = Some x" "has_prefix k pre" "i = info_of k x"
      unfolding listing_def by blast
    then obtain d m where "map_of (tree s) k = Some (Reg d m)" "x = (d, m)" "\<not> reserved k"
      by (auto simp: disk_objs_def split: if_splits option.splits node.splits)
    with walk_complete [OF t(2) k(2)] k show "i \<in> set (matching pre ?w)"
      unfolding mw matching_keys by blast
  qed
  have "distinct (map i_key (matching pre ?w))"
    unfolding mw by (rule matching_distinct [OF walk_distinct [OF t(1)]])
  with m have "distinct (map i_key is)" by (auto simp: prefix_def)
  moreover have "set is \<subseteq> set (matching pre ?w)" using m set_mono_prefix by blast
  ultimately show ?thesis using m all s' by auto
qed

section \<open>Uploads\<close>

lemma create_upload:
  "yields (still ob up e0) (\<lambda>s. sys (fs_create (uploadPath uid) (now (snd s))) s)
     (\<lambda>_ st. up uid = None \<and> still ob (up(uid \<mapsto> [])) e0 st) (still ob up e0)"
proof (rule yields_pairI)
  fix s e r s' e'
  assume st: "still ob up e0 (s, e)"
    and m: "sys (fs_create (uploadPath uid) (now (snd (s, e)))) (s, e) = (r, s', e')"
  from m show "case r of Inl a \<Rightarrow> still ob up e0 (s', e')
      | Inr a \<Rightarrow> up uid = None \<and> still ob (up(uid \<mapsto> [])) e0 (s', e')"
  proof (cases rule: sys_cases)
    case 1
    with st show ?thesis by (auto simp: still_def intro: env_step_trans)
  next
    case (2 t)
    show ?thesis
    proof (cases "r = Inr ()")
      case True
      with 2(2) have c: "map_of (tree s) (uploadPath uid) = None" "is_dir_at (tree s) (ParentOf (uploadPath uid))"
        "t = AList.update (uploadPath uid) (Reg [] (now e)) (tree s)"
        by (auto simp: fs_create_def split: option.splits if_splits)
      then have "disk_ups s uid = None" by (simp add: disk_ups_def)
      with c 2 st True show ?thesis
        by (auto simp: still_def disk_ok_def fs_ok_put disk_objs_put disk_ups_put(1) intro: env_step_trans)
    next
      case False
      with 2 st show ?thesis
        by (auto simp: fs_create_def still_def split: option.splits if_splits intro: env_step_trans)
    qed
  qed
qed

lemma StartUpload_yields:
  "yields (still ob up e0) (StartUpload key)
     (\<lambda>uid st. up uid = None \<and> still ob (up(uid \<mapsto> [])) e0 st)
     (\<lambda>st. \<exists>up'. still ob up' e0 st \<and> (\<forall>u d. up u = Some d \<longrightarrow> up' u = Some d))" (is "yields _ _ _ ?E")
proof -
  have weak: "still ob up e0 st \<Longrightarrow> ?E st" for st by blast
  have made: "yields (still ob up e0) (plain_error (\<lambda>s. sys (fs_create (uploadPath uid) (now (snd s))) s))
     (\<lambda>_ st. still ob (up(uid \<mapsto> [])) e0 st \<and> up uid = None) ?E" for uid
    by (rule yields_conseq [OF yields_plain [OF create_upload]]) (auto intro: weak)
  have closed: "yields (\<lambda>st. still ob (up(uid \<mapsto> [])) e0 st \<and> up uid = None) attempt
     (\<lambda>_ st. still ob (up(uid \<mapsto> [])) e0 st \<and> up uid = None) ?E" for uid
    by (rule yields_given, rule yields_conseq [OF yields_keeps [OF keeps_attempt]])
      (auto intro!: exI [of _ "up(uid \<mapsto> [])"])
  have look: "yields (still ob up e0) m (\<lambda>_. still ob up e0) ?E" if "keeps (still ob up e0) m" for m :: "'a disk_step"
    by (rule yields_conseq [OF yields_keeps [OF that]]) (auto intro: weak)
  show ?thesis
    unfolding StartUpload_def
    by (rule yields_check, rule yields_bind [OF look [OF keeps_attempt]],
        rule yields_bind [OF look [OF keeps_rand]], rule yields_bind [OF made],
        rule yields_bind [OF closed], rule yields_ret) (auto intro: weak)
qed

text \<open>The only upload a start can add is named by a text it drew.\<close>

lemma StartUpload_names:
  assumes ok: "disk_ok s" and run: "StartUpload key (s, e) = (y, (s', e'))" and new: "disk_ups s' u \<noteq> None"
  shows "disk_ups s u \<noteq> None \<or> (\<exists>i. drawn e \<le> i \<and> i < drawn e' \<and> u = texts e i)"
proof -
  obtain y1 s1 e1 where a: "attempt (s, e) = (y1, s1, e1)" by (metis prod_cases3)
  from attempt_cases [OF a] have a': "s1 = s" "env_step e e1" by auto
  let ?uid = "texts e1 (drawn e1)" and ?e = "e1\<lparr>drawn := Suc (drawn e1)\<rparr>" and ?ob = "disk_objs s" and ?up = "disk_ups s"
  let ?rest = "bindE (plain_error (\<lambda>s. sys (fs_create (uploadPath ?uid) (now (snd s))) s)) (\<lambda>_. bindE attempt (\<lambda>_. retE ?uid))"
  let ?E = "\<lambda>st. still ?ob ?up ?e st \<or> still ?ob (?up(?uid \<mapsto> [])) ?e st"
  have made: "yields (still ?ob ?up ?e) (plain_error (\<lambda>s. sys (fs_create (uploadPath ?uid) (now (snd s))) s))
     (\<lambda>_. still ?ob (?up(?uid \<mapsto> [])) ?e) ?E"
    by (rule yields_conseq [OF yields_plain [OF create_upload]]) auto
  have closed: "yields (still ?ob (?up(?uid \<mapsto> [])) ?e) attempt (\<lambda>_. still ?ob (?up(?uid \<mapsto> [])) ?e) ?E"
    by (rule yields_conseq [OF yields_keeps [OF keeps_attempt]]) auto
  have rest: "yields (still ?ob ?up ?e) ?rest (\<lambda>_. ?E) ?E"
    by (rule yields_bind [OF made], rule yields_bind [OF closed], rule yields_ret) auto
  have st: "still ?ob ?up ?e (s, ?e)" using ok by (simp add: still_def)
  show ?thesis
  proof (cases "ValidateKey key = Inr () \<and> is_ok y1")
    case True
    then obtain v where "y1 = Inr v" by (cases y1) auto
    with True run a a' have "?rest (s, ?e) = (y, (s', e'))" by (simp add: StartUpload_def bindE_def)
    with yieldsD_ok [OF rest st] yieldsD_err [OF rest st] have "?E (s', e')" by (cases y) auto
    then have "env_step ?e e'" "disk_ups s' = ?up \<or> disk_ups s' = ?up(?uid \<mapsto> [])" by (auto simp: still_def)
    then show ?thesis using new a'(2) by (auto simp: env_step_def split: if_splits intro!: exI [of _ "drawn e1"])
  next
    case False
    then have "s' = s" using run a a'
      by (cases "ValidateKey key"; cases y1) (auto simp: StartUpload_def bindE_def)
    with new show ?thesis by simp
  qed
qed

lemma publish_upload:
  assumes key: "ValidateKey key = Inr ()"
  shows "yields (still ob up e0) (sys (fs_rename (uploadPath uid) key))
     (\<lambda>_ st. \<exists>d t. up uid = Some d \<and> still (ob(key \<mapsto> (d, t))) (up(uid := None)) e0 st) (still ob up e0)"
proof (rule yields_pairI)
  fix s e r s' e'
  assume st: "still ob up e0 (s, e)" and m: "sys (fs_rename (uploadPath uid) key) (s, e) = (r, s', e')"
  from key have k: "key \<noteq> []" "\<not> reserved key" using valid_key_hd valid_key_not_reserved by blast+
  from st have ok: "fs_ok (tree s)" by (simp add: still_def disk_ok_def)
  from m show "case r of Inl a \<Rightarrow> still ob up e0 (s', e')
     | Inr a \<Rightarrow> \<exists>d t. up uid = Some d \<and> still (ob(key \<mapsto> (d, t))) (up(uid := None)) e0 (s', e')"
  proof (cases rule: sys_cases)
    case 1
    with st show ?thesis by (auto simp: still_def intro: env_step_trans)
  next
    case (2 t)
    from fs_rename_cases [OF ok 2(2) k(1) reserved_paths(1,2)] show ?thesis
    proof cases
      case 1
      with 2 st show ?thesis by (cases r) (auto simp: still_def intro: env_step_trans)
    next
      case (2 d' m')
      with st have "up uid = Some d'" by (auto simp: still_def disk_ups_def)
      with 2 \<open>s' = _\<close> \<open>env_step e e'\<close> st k not_upload [OF k(2)] show ?thesis
        by (auto simp: still_def disk_ok_def disk_objs_put disk_objs_drop disk_ups_put(2)
            disk_ups_drop(1) intro!: exI [of _ m'] intro: env_step_trans)
    qed
  qed
qed

lemma CompleteUpload_yields:
  "yields (still ob up e0) (CompleteUpload key uid)
     (\<lambda>i st. \<exists>d t. up uid = Some d \<and> still (ob(key \<mapsto> (d, t))) (up(uid := None)) e0 st \<and> i = info_of key (d, t))
     (\<lambda>st. still ob up e0 st \<or> (\<exists>d t. up uid = Some d \<and> still (ob(key \<mapsto> (d, t))) (up(uid := None)) e0 st))"
  (is "yields _ _ ?Q ?E")
proof -
  have look: "yields (still ob up e0) m (\<lambda>_. still ob up e0) ?E" if "keeps (still ob up e0) m" for m :: "'a disk_step"
    by (rule yields_conseq [OF yields_keeps [OF that]]) auto
  have mv: "yields (still ob up e0) (sys (fs_rename (uploadPath uid) key))
     (\<lambda>_ st. \<exists>d t. up uid = Some d \<and> still (ob(key \<mapsto> (d, t))) (up(uid := None)) e0 st) ?E"
    if "ValidateKey key = Inr ()"
    by (rule yields_conseq [OF publish_upload [OF that]]) auto
  have last: "yields (still (ob(key \<mapsto> (d, t))) (up(uid := None)) e0) (Stat key) ?Q ?E" if "up uid = Some d" for d t
    by (rule yields_conseq [OF Stat_yields]) (use that in auto)
  show ?thesis
    unfolding CompleteUpload_def
    by (rule yields_check, rule yields_bind [OF look [OF keeps_attempt]],
        rule yields_bind [OF look [OF keeps_make_parents]], assumption,
        rule yields_bind [OF mv], assumption, rule yields_ex, rule yields_ex, rule yields_given2, rule last) auto
qed

lemma AbortUpload_yields:
  "yields (still ob up e0) (AbortUpload key uid) (\<lambda>_. still ob (up(uid := None)) e0) (still ob up e0)"
proof -
  have "yields (still ob up e0) (tryE (sys (fs_remove (uploadPath uid))) (\<lambda>r. case r of
     Inl x \<Rightarrow> if x = ErrObjectNotFound then retE () else failE x | Inr _ \<Rightarrow> retE ()))
     (\<lambda>_. still ob (up(uid := None)) e0) (still ob up e0)"
  proof (rule yields_pairI)
    fix s e y s' e'
    assume st: "still ob up e0 (s, e)" and run: "tryE (sys (fs_remove (uploadPath uid))) (\<lambda>r. case r of
       Inl x \<Rightarrow> if x = ErrObjectNotFound then retE () else failE x | Inr _ \<Rightarrow> retE ()) (s, e) = (y, s', e')"
    obtain r s1 e1 where m: "sys (fs_remove (uploadPath uid)) (s, e) = (r, s1, e1)" by (metis prod_cases3)
    from st have ok: "fs_ok (tree s)" by (simp add: still_def disk_ok_def)
    from m have "case r of Inl x \<Rightarrow> still ob up e0 (s1, e1) \<and> (x = ErrObjectNotFound \<longrightarrow> up uid = None)
        | Inr _ \<Rightarrow> still ob (up(uid := None)) e0 (s1, e1)"
    proof (cases rule: sys_cases)
      case 1
      with st show ?thesis by (auto simp: still_def intro: env_step_trans)
    next
      case (2 t)
      from fs_remove_cases [OF ok 2(2)] show ?thesis
        using 2 st ok
        by cases (auto simp: still_def disk_ok_def fs_ok_drop disk_objs_drop disk_ups_drop(1) disk_ups_def
            split: sum.splits intro: env_step_trans)
    qed
    with run m show "case y of Inl x \<Rightarrow> still ob up e0 (s', e') | Inr x \<Rightarrow> still ob (up(uid := None)) e0 (s', e')"
      by (cases r) (auto simp: tryE_def fun_upd_idem split: if_splits)
  qed
  then show ?thesis
    unfolding AbortUpload_def by (intro yields_check yields_bind [OF yields_keeps [OF keeps_attempt]]) auto
qed

lemma read_until_bounds:
  "min k (length (content r)) \<le> read_until k r \<and> read_until k r \<le> length (content r)"
proof (induction k r rule: read_until.induct)
  case (1 k r)
  obtain d st r' where rd: "read copy_buffer r = (d, st, r')" by (metis prod_cases3)
  note c = read_content [OF rd]
  show ?case
  proof (cases "k < length d \<or> st \<noteq> More")
    case True
    then show ?thesis using c rd read_end [OF rd] by (auto simp: read_until.simps [of k r])
  next
    case False
    with 1 [OF rd [symmetric] refl False] have "min (k - length d) (length (content r')) \<le> read_until (k - length d) r'
      \<and> read_until (k - length d) r' \<le> length (content r')" by simp
    then show ?thesis using False c rd by (auto simp: read_until.simps [of k r])
  qed
qed

lemma body_read_le: "body_read r e \<le> length (content r)"
  using read_until_bounds by (auto simp: body_read_def split: option.splits)

lemma write_upload:
  assumes d: "up uid = Some d"
  shows "yields (\<lambda>st. still ob up e0 st \<and> body_read r (snd st) = n) (sys_write (uploadPath uid) (content r))
     (\<lambda>_ st. still ob (up(uid \<mapsto> d @ content r)) e0 st \<and> n = length (content r))
     (\<lambda>st. \<exists>t. (prefix t (content r) \<and> length t \<le> n) \<and> still ob (up(uid \<mapsto> d @ t)) e0 st)"
proof -
  have app: "still ob (up(uid \<mapsto> d @ t)) e0 (s\<lparr>tree := fs_append (uploadPath uid) t (now e) (tree s)\<rparr>, e')"
    if st: "still ob up e0 (s, e)" and e: "env_step e e'" for s e e' t
  proof -
    from st d obtain m where m: "map_of (tree s) (uploadPath uid) = Some (Reg d m)"
      by (auto simp: still_def disk_ups_def split: option.splits node.splits)
    moreover have "is_dir_at (tree s) (ParentOf (uploadPath uid))"
      by (rule fs_ok_parent) (use st in \<open>simp add: still_def disk_ok_def\<close>, simp only: m option.distinct not_False_eq_True)
    ultimately show ?thesis
      using st e fs_ok_put [of "tree s" "uploadPath uid"]
      by (auto simp: still_def disk_ok_def fs_append_def disk_objs_put disk_ups_put(1) intro: env_step_trans)
  qed
  show ?thesis
  proof (rule yields_pairI)
    fix s e y s' e'
    assume st: "still ob up e0 (s, e) \<and> body_read r (snd (s, e)) = n"
      and m: "sys_write (uploadPath uid) (content r) (s, e) = (y, s', e')"
    obtain f e1 where f: "draw_fault e = (f, e1)" by fastforce
    note step = draw_fault_step [OF f]
    show "case y of Inl x \<Rightarrow> \<exists>t. (prefix t (content r) \<and> length t \<le> n) \<and> still ob (up(uid \<mapsto> d @ t)) e0 (s', e')
        | Inr x \<Rightarrow> still ob (up(uid \<mapsto> d @ content r)) e0 (s', e') \<and> n = length (content r)"
    proof (cases f)
      case None
      with m f st app [OF conjunct1 [OF st] step, of "content r"] show ?thesis
        by (auto simp: sys_write_def body_read_def)
    next
      case (Some k)
      with st f have "length (take k (content r)) \<le> n" using read_until_bounds [of k r] by (simp add: body_read_def min.commute)
      with Some m f app [OF conjunct1 [OF st] step, of "take k (content r)"] show ?thesis
        by (auto simp: sys_write_def intro!: exI [of _ "take k (content r)"] take_is_prefix)
    qed
  qed
qed

lemma append_file_yields:
  assumes d: "up uid = Some d"
  shows "yields (\<lambda>st. still ob up e0 st \<and> body_read r (snd st) = n) (append_file (uploadPath uid) r)
     (\<lambda>m st. still ob (up(uid \<mapsto> d @ content r)) e0 st \<and> failure r = None \<and> m = int (length (content r)) \<and> n = length (content r))
     (\<lambda>st. \<exists>t. (prefix t (content r) \<and> length t \<le> n) \<and> still ob (up(uid \<mapsto> d @ t)) e0 st)" (is "yields _ _ ?Q ?E")
proof -
  let ?W = "\<lambda>st. still ob (up(uid \<mapsto> d @ content r)) e0 st \<and> n = length (content r)"
  have weak: "?W st \<Longrightarrow> ?E st" for st by auto
  have keep: "keeps ?E attempt"
  proof (rule keepsI)
    fix st assume "?E st"
    then obtain t where t: "prefix t (content r) \<and> length t \<le> n" "still ob (up(uid \<mapsto> d @ t)) e0 st" by blast
    moreover have "still ob (up(uid \<mapsto> d @ t)) e0 (snd (attempt st))"
      by (rule keeps_attempt [unfolded keeps_def, rule_format, OF t(2)])
    ultimately show "?E (snd (attempt st))" by blast
  qed
  have keepW: "yields ?W attempt (\<lambda>_. ?W) ?E"
    by (rule yields_given, rule yields_conseq [OF yields_keeps [OF keeps_attempt]]) auto
  have body: "yields (\<lambda>st. still ob up e0 st \<and> body_read r (snd st) = n) (bindE (sys_write (uploadPath uid) (content r))
      (\<lambda>_. case failure r of Some x \<Rightarrow> failE x | None \<Rightarrow> attempt))
     (\<lambda>_ st. ?W st \<and> failure r = None) ?E"
    by (rule yields_bind [OF write_upload [of up uid d, OF d]], cases "failure r")
      (auto intro!: yields_fail yields_conseq [OF keepW] intro: weak)
  have closed: "yields (\<lambda>st. ?W st \<and> failure r = None) attempt (\<lambda>_ st. ?W st \<and> failure r = None) ?E"
    by (rule yields_given, rule yields_conseq [OF keepW]) (auto intro: weak)
  show ?thesis
    unfolding append_file_def
    by (rule yields_try [OF body]; rule yields_try [OF closed] yields_try [OF yields_keeps [OF keep]])
      (auto intro!: yields_ret yields_fail)
qed

lemma UploadOffset_frozen:
  "yields (frozen s0 e0) (UploadOffset key uid)
     (\<lambda>n st. frozen s0 e0 st \<and> (\<forall>d. disk_ups s0 uid = Some d \<longrightarrow> n = int (length d))) (frozen s0 e0)"
proof -
  have "yields (\<lambda>st. frozen s0 e0 st \<and> map_of (tree s0) (uploadPath uid) = Some x)
     (case x of Reg d m \<Rightarrow> retE (int (length d)) | Dir \<Rightarrow> retE 0)
     (\<lambda>n st. frozen s0 e0 st \<and> (\<forall>d. disk_ups s0 uid = Some d \<longrightarrow> n = int (length d))) (frozen s0 e0)" for x
    by (cases x) (auto intro!: yields_ret simp: disk_ups_def)
  then show ?thesis
    unfolding UploadOffset_def
    by (intro yields_check yields_bind [OF yields_keeps [OF keeps_attempt_frozen]] yields_bind [OF stat_frozen]) auto
qed

lemma open_frozen:
  "yields (frozen s0 e0) (sys_open (uploadPath uid)) (\<lambda>_ st. frozen s0 e0 st \<and> disk_ups s0 uid \<noteq> None) (frozen s0 e0)"
proof (rule yields_pairI)
  fix s e r s' e'
  assume "frozen s0 e0 (s, e)" "sys_open (uploadPath uid) (s, e) = (r, s', e')"
  then show "case r of Inl x \<Rightarrow> frozen s0 e0 (s', e') | Inr x \<Rightarrow> frozen s0 e0 (s', e') \<and> disk_ups s0 uid \<noteq> None"
    unfolding sys_open_def
    by (elim sys_cases) (auto simp: frozen_def disk_ups_def split: option.splits node.splits intro: env_step_trans)
qed

lemma AppendUpload_law:
  assumes ok: "disk_ok s" and run: "AppendUpload key uid off r (s, e) = ((m, n, err), (s', e'))"
  shows "disk_ok s' \<and> disk_objs s' = disk_objs s \<and> (\<forall>u. u \<noteq> uid \<longrightarrow> disk_ups s' u = disk_ups s u) \<and> env_step e e'
    \<and> n \<le> length (content r)
    \<and> (disk_ups s' uid = disk_ups s uid \<or> (\<exists>d t. disk_ups s uid = Some d \<and> int (length d) = off
          \<and> prefix t (content r) \<and> length t \<le> n \<and> disk_ups s' uid = Some (d @ t)
          \<and> (m = int (length d) \<or> m = int (length (d @ t)))))
    \<and> (err = None \<longrightarrow> failure r = None \<and> (\<exists>d. disk_ups s uid = Some d \<and> int (length d) = off
          \<and> disk_ups s' uid = Some (d @ content r) \<and> m = int (length (d @ content r)) \<and> n = length (content r)))" (is ?goal)
proof -
  have same: ?goal if "s' = s" "env_step e e'" "err \<noteq> None" "n = 0"
    using that ok by auto
  have froz: "frozen s e (s, e)" by (simp add: frozen_def)
  obtain y1 s1 e1 where a: "attempt (s, e) = (y1, s1, e1)" by (metis prod_cases3)
  from keepsD [OF keeps_attempt_frozen froz a] have f1: "frozen s e (s1, e1)" .
  obtain y2 s2 e2 where u: "UploadOffset key uid (s1, e1) = (y2, s2, e2)" by (metis prod_cases3)
  have f2: "frozen s e (s2, e2)"
    using yieldsD_ok [OF UploadOffset_frozen f1] yieldsD_err [OF UploadOffset_frozen f1] u by (cases y2) auto
  obtain y3 s3 e3 where op: "sys_open (uploadPath uid) (s2, e2) = (y3, s3, e3)" by (metis prod_cases3)
  have f3: "frozen s e (s3, e3)"
    using yieldsD_ok [OF open_frozen f2] yieldsD_err [OF open_frozen f2] op by (cases y3) auto
  consider (early) "frozen s e (s', e')" "err \<noteq> None" "n = 0"
    | (late) v1 v3 where "ValidateKey key = Inr ()" "y1 = Inr v1" "y2 = Inr off" "y3 = Inr v3"
    using run a u op f1 f2 f3 froz by (cases "ValidateKey key"; cases y1; cases y2; cases y3)
      (auto simp: AppendUpload_def split: if_splits)
  then show ?thesis
  proof cases
    case early
    then show ?thesis by (intro same) (auto simp: frozen_def)
  next
    case late
    let ?n = "body_read r e3"
    from yieldsD_ok [OF open_frozen f2 op [unfolded late(4)]] obtain d where d: "disk_ups s uid = Some d" by auto
    with yieldsD_ok [OF UploadOffset_frozen f1 u [unfolded late(3)]] have off: "int (length d) = off" by auto
    from f3 ok have st: "still (disk_objs s) (disk_ups s) e (s3, e3) \<and> body_read r (snd (s3, e3)) = ?n"
      by (auto simp: still_def frozen_def)
    note A = append_file_yields [of "disk_ups s" uid d, OF d]
    obtain y4 s4 e4 where ap: "append_file (uploadPath uid) r (s3, e3) = (y4, s4, e4)" by (metis prod_cases3)
    show ?thesis
    proof (cases y4)
      case (Inr k)
      from yieldsD_ok [OF A st ap [unfolded Inr]]
      have "still (disk_objs s) ((disk_ups s)(uid \<mapsto> d @ content r)) e (s4, e4)" "failure r = None"
        "k = int (length (content r))" "?n = length (content r)" by auto
      moreover from run a u op ap late Inr have "m = off + k" "n = ?n" "err = None" "s' = s4" "e' = e4"
        by (auto simp: AppendUpload_def Let_def)
      ultimately show ?thesis using d off by (auto simp: still_def)
    next
      case (Inl x)
      from yieldsD_err [OF A st ap [unfolded Inl]]
      obtain t where t: "prefix t (content r)" "length t \<le> ?n"
        "still (disk_objs s) ((disk_ups s)(uid \<mapsto> d @ t)) e (s4, e4)" by blast
      have f4: "frozen s4 e4 (s4, e4)" by (simp add: frozen_def)
      obtain y5 s5 e5 where u2: "UploadOffset key uid (s4, e4) = (y5, s5, e5)" by (metis prod_cases3)
      have f5: "frozen s4 e4 (s5, e5)"
        using yieldsD_ok [OF UploadOffset_frozen f4] yieldsD_err [OF UploadOffset_frozen f4] u2 by (cases y5) auto
      from run a u op ap late Inl u2 have r': "err = Some x" "n = ?n" "s' = s5" "e' = e5"
        "m = (case y5 of Inr got \<Rightarrow> got | Inl _ \<Rightarrow> off)"
        by (auto simp: AppendUpload_def Let_def split: sum.splits)
      have "m = int (length d) \<or> m = int (length (d @ t))"
      proof (cases y5)
        case (Inr got)
        from t(3) have "disk_ups s4 uid = Some (d @ t)" by (simp add: still_def)
        with yieldsD_ok [OF UploadOffset_frozen f4 u2 [unfolded Inr]] r'(5) Inr show ?thesis by simp
      qed (use r'(5) off in simp)
      with r' f5 t d off body_read_le [of r e3] show ?thesis by (auto simp: still_def frozen_def intro: env_step_trans)
    qed
  qed
qed

section \<open>The disk is a storage port\<close>

lemma still_self: "disk_ok s \<Longrightarrow> still (disk_objs s) (disk_ups s) e (s, e)"
  by (simp add: still_def)

lemma frozen_self: "frozen s e (s, e)"
  by (simp add: frozen_def)

lemma FreeSpace_frozen: "keeps (frozen s0 e0) FreeSpace"
  unfolding FreeSpace_def
  by (intro keeps_bind keeps_attempt_frozen) (auto simp: keeps_def)

interpretation disk: storage_port disk_port disk_ok disk_objs disk_ups
proof
  show put_ok: "disk_ok s' \<and> disk_objs s' = (disk_objs s)(k \<mapsto> (content r, now e)) \<and> disk_ups s' = disk_ups s
      \<and> i = info_of k (content r, now e) \<and> failure r = None
      \<and> (0 \<le> n \<longrightarrow> int (length (content r)) = n) \<and> ValidateKey k = Inr () \<and> env_step e e'"
    if "disk_ok s" "port_put disk_port k r n (s, e) = (Inr i, (s', e'))" for s k r n e i s' e'
    using yieldsD_ok [OF Put_yields still_self [OF that(1)], of k r n e i "(s', e')"] that(2)
      copy_sized_ok_iff [of n r] by (auto simp: disk_port_def still_def)
  show put_err: "disk_ok s' \<and> (disk_objs s' = disk_objs s \<or> disk_objs s' = (disk_objs s)(k \<mapsto> (content r, now e)))
      \<and> disk_ups s' = disk_ups s \<and> env_step e e'"
    if "disk_ok s" "port_put disk_port k r n (s, e) = (Inl x, (s', e'))" for s k r n e x s' e'
    using yieldsD_err [OF Put_yields still_self [OF that(1)], of k r n e x "(s', e')"] that(2)
    by (auto simp: disk_port_def still_def)
  show "\<not> is_ok y \<and> disk_objs s' = disk_objs s"
    if "disk_ok s" "port_put disk_port k r n (s, e) = (y, (s', e'))"
      "failure r \<noteq> None \<or> 0 \<le> n \<and> int (length (content r)) \<noteq> n" for s k r n e y s' e'
  proof -
    from that(3) have "copy_sized n r \<noteq> (content r, None)"
      using copy_sized_ok_iff [of n r] by auto
    with yieldsD_err [OF Put_yields still_self [OF that(1)], of k r n e _ "(s', e')"]
      yieldsD_ok [OF Put_yields still_self [OF that(1)], of k r n e _ "(s', e')"] that(2)
    show ?thesis by (cases y) (auto simp: disk_port_def still_def)
  qed
  show "s' = s \<and> env_step e e' \<and> (\<exists>ob w. disk_objs s k = Some ob \<and> i = info_of k ob
        \<and> Resolve g (i_size i) = Inr w \<and> prefix (content r) (select (fst ob) w)
        \<and> (failure r = None \<longrightarrow> content r = select (fst ob) w))"
    if "port_get disk_port k g (s, e) = (Inr (r, i), (s', e'))" for s k g e r i s' e'
    using yieldsD_ok [OF Get_yields frozen_self, of k g s e "(r, i)" "(s', e')"] that
    by (auto simp: disk_port_def frozen_def)
  show "s' = s \<and> env_step e e'" if "port_get disk_port k g (s, e) = (Inl x, (s', e'))" for s k g e x s' e'
    using yieldsD_err [OF Get_yields frozen_self, of k g s e x "(s', e')"] that
    by (auto simp: disk_port_def frozen_def)
  show "disk_ok s' \<and> disk_objs s' = (disk_objs s)(k := None) \<and> disk_ups s' = disk_ups s \<and> env_step e e'"
    if "disk_ok s" "port_delete disk_port k (s, e) = (Inr u, (s', e'))" for s k e u s' e'
    using yieldsD_ok [OF Delete_yields still_self [OF that(1)], of k e u "(s', e')"] that(2)
    by (auto simp: disk_port_def still_def)
  show "disk_ok s' \<and> (disk_objs s' = disk_objs s \<or> disk_objs s' = (disk_objs s)(k := None))
      \<and> disk_ups s' = disk_ups s \<and> env_step e e'"
    if "disk_ok s" "port_delete disk_port k (s, e) = (Inl x, (s', e'))" for s k e x s' e'
    using yieldsD_err [OF Delete_yields still_self [OF that(1)], of k e x "(s', e')"] that(2)
    by (auto simp: disk_port_def still_def)
  show "s' = s \<and> env_step e e'" if "port_free disk_port (s, e) = (fr, (s', e'))" for s e fr s' e'
    using keepsD [OF FreeSpace_frozen frozen_self, of s e fr "(s', e')"] that
    by (auto simp: disk_port_def frozen_def)
  show "s' = s \<and> env_step e e' \<and> distinct (map i_key is) \<and> set is \<subseteq> listing (disk_objs s) pre
      \<and> (eo = None \<longrightarrow> set is = listing (disk_objs s) pre)"
    if "disk_ok s" "port_list disk_port pre (s, e) = ((is, eo), (s', e'))" for s pre e "is" eo s' e'
    using List_law [OF that(1)] that(2) by (simp add: disk_port_def)
  show "disk_ok s' \<and> disk_objs s' = disk_objs s \<and> disk_ups s uid = None \<and> disk_ups s' = (disk_ups s)(uid \<mapsto> []) \<and> env_step e e'"
    if "disk_ok s" "port_start disk_port k (s, e) = (Inr uid, (s', e'))" for s k e uid s' e'
    using yieldsD_ok [OF StartUpload_yields still_self [OF that(1)], of k e uid "(s', e')"] that(2)
    by (auto simp: disk_port_def still_def)
  show "disk_ok s' \<and> disk_objs s' = disk_objs s \<and> (\<forall>u d. disk_ups s u = Some d \<longrightarrow> disk_ups s' u = Some d) \<and> env_step e e'"
    if "disk_ok s" "port_start disk_port k (s, e) = (Inl x, (s', e'))" for s k e x s' e'
    using yieldsD_err [OF StartUpload_yields still_self [OF that(1)], of k e x "(s', e')"] that(2)
    by (auto simp: disk_port_def still_def)
  show "disk_ok s' \<and> disk_objs s' = disk_objs s \<and> (\<forall>u. u \<noteq> uid \<longrightarrow> disk_ups s' u = disk_ups s u) \<and> env_step e e'
    \<and> nr \<le> length (content r)
    \<and> (disk_ups s' uid = disk_ups s uid \<or> (\<exists>d t. disk_ups s uid = Some d \<and> int (length d) = o'
          \<and> prefix t (content r) \<and> length t \<le> nr \<and> disk_ups s' uid = Some (d @ t)
          \<and> (m = int (length d) \<or> m = int (length (d @ t)))))
    \<and> (eo = None \<longrightarrow> failure r = None \<and> (\<exists>d. disk_ups s uid = Some d \<and> int (length d) = o'
          \<and> disk_ups s' uid = Some (d @ content r) \<and> m = int (length (d @ content r)) \<and> nr = length (content r)))"
    if "disk_ok s" "port_append disk_port k uid o' r (s, e) = ((m, nr, eo), (s', e'))" for s k uid o' r e m nr eo s' e'
    by (rule AppendUpload_law [OF that(1)]) (use that(2) in \<open>simp add: disk_port_def\<close>)
  show "disk_ok s' \<and> (\<exists>d t. disk_ups s uid = Some d \<and> disk_objs s' = (disk_objs s)(k \<mapsto> (d, t)) \<and> i = info_of k (d, t))
      \<and> disk_ups s' = (disk_ups s)(uid := None) \<and> env_step e e'"
    if "disk_ok s" "port_complete disk_port k uid (s, e) = (Inr i, (s', e'))" for s k uid e i s' e'
    using yieldsD_ok [OF CompleteUpload_yields still_self [OF that(1)], of k uid e i "(s', e')"] that(2)
    by (auto simp: disk_port_def still_def)
  show "disk_ok s' \<and> env_step e e' \<and> (disk_objs s' = disk_objs s \<and> disk_ups s' = disk_ups s
        \<or> (\<exists>d t. disk_ups s uid = Some d \<and> disk_objs s' = (disk_objs s)(k \<mapsto> (d, t)) \<and> disk_ups s' = (disk_ups s)(uid := None)))"
    if "disk_ok s" "port_complete disk_port k uid (s, e) = (Inl x, (s', e'))" for s k uid e x s' e'
    using yieldsD_err [OF CompleteUpload_yields still_self [OF that(1)], of k uid e x "(s', e')"] that(2)
    by (auto simp: disk_port_def still_def)
  show "disk_ok s' \<and> disk_objs s' = disk_objs s \<and> (disk_ups s' = disk_ups s \<and> \<not> is_ok ab \<or> disk_ups s' = (disk_ups s)(uid := None)) \<and> env_step e e'"
    if "disk_ok s" "port_abort disk_port k uid (s, e) = (ab, (s', e'))" for s k uid e ab s' e'
    using yieldsD_err [OF AbortUpload_yields still_self [OF that(1)], of k uid e _ "(s', e')"]
      yieldsD_ok [OF AbortUpload_yields still_self [OF that(1)], of k uid e _ "(s', e')"] that(2)
    by (cases ab) (auto simp: disk_port_def still_def)
qed

text \<open>Its uploads are named by texts it draws, which is what keeps two of them apart.\<close>

interpretation disk: named_uploads disk_port disk_ok disk_objs disk_ups
  by unfold_locales (use StartUpload_names in \<open>simp add: disk_port_def\<close>)

end
