(* ===== verification/Sound.thy ===== *)
theory Sound
  imports Accounts DiskPort
begin

text \<open>
  The invariant \<^verbatim>\<open>internal/files\<close> exists for: every row, in the tree or in the trash, has
  its blob, of the size the row says, and no two rows share one; and an upload in progress holds
  a key that nothing uses yet.  It is kept by every operation on every schedule of failures, for
  any blob store that keeps the contract of the port.
\<close>

section \<open>The invariant\<close>

definition backed :: "objects \<Rightarrow> (bytes \<times> int) multiset \<Rightarrow> bool" where
  "backed ob R \<longleftrightarrow> (\<forall>k n. (k, n) \<in># R \<longrightarrow> (\<exists>d t. ob k = Some (d, t) \<and> int (length d) = n))"

definition keys_of :: "(bytes \<times> int) multiset \<Rightarrow> bytes multiset" where
  "keys_of R = image_mset fst R"

definition keys_ok :: "(bytes \<times> int) multiset \<Rightarrow> bool" where
  "keys_ok R \<longleftrightarrow> (\<forall>k. count (keys_of R) k \<le> 1) \<and> (\<forall>k \<in># keys_of R. \<not> has_prefix k DerivedPrefix)"

text \<open>
  The texts still to be drawn are texts, all different, and name no key there is: this is what
  128 bits of \<^verbatim>\<open>crypto/rand\<close> are for.
\<close>

definition fresh_ids :: "env \<Rightarrow> objects \<Rightarrow> (bytes \<times> int) multiset \<Rightarrow> bool" where
  "fresh_ids e ob R \<longleftrightarrow> (\<forall>i. is_text (texts e i)) \<and> inj (texts e)
     \<and> (\<forall>i k. drawn e \<le> i \<longrightarrow> key_id k = texts e i \<longrightarrow> ob k = None \<and> k \<notin># keys_of R)"

text \<open>
  A row of \<open>uploads\<close> was named before now; while the store still has its upload, nothing is
  stored under its key, no row points there, and no other upload has it.
\<close>

definition undrawn :: "env \<Rightarrow> bytes \<Rightarrow> bool" where
  "undrawn e x \<longleftrightarrow> (\<exists>i. drawn e \<le> i \<and> x = texts e i)"

definition upload_ok :: "env \<Rightarrow> objects \<Rightarrow> (bytes \<Rightarrow> bytes option) \<Rightarrow> (bytes \<times> int) multiset \<Rightarrow> upload \<Rightarrow> bool" where
  "upload_ok e ob up R u \<longleftrightarrow> \<not> has_prefix (u_blob u) DerivedPrefix
     \<and> \<not> undrawn e (key_id (u_blob u)) \<and> \<not> undrawn e (u_store u) \<and> \<not> undrawn e (u_id u)
     \<and> (up (u_store u) \<noteq> None \<longrightarrow> ob (u_blob u) = None \<and> u_blob u \<notin># keys_of R)"

definition apart :: "(bytes \<Rightarrow> bytes option) \<Rightarrow> upload set \<Rightarrow> bool" where
  "apart up U \<longleftrightarrow> (\<forall>u\<in>U. \<forall>v\<in>U. up (u_store u) \<noteq> None \<longrightarrow> up (u_store v) \<noteq> None \<longrightarrow>
     u_blob u = u_blob v \<or> u_store u = u_store v \<longrightarrow> u = v)"

definition uploads_ok :: "env \<Rightarrow> objects \<Rightarrow> (bytes \<Rightarrow> bytes option) \<Rightarrow> (bytes \<times> int) multiset \<Rightarrow> upload set \<Rightarrow> bool" where
  "uploads_ok e ob up R U \<longleftrightarrow> (\<forall>u\<in>U. upload_ok e ob up R u) \<and> apart up U"

definition safe_with ::
  "('s \<Rightarrow> bool) \<Rightarrow> ('s \<Rightarrow> objects) \<Rightarrow> ('s \<Rightarrow> bytes \<Rightarrow> bytes option) \<Rightarrow> (bytes \<times> int) multiset \<Rightarrow> 's world \<Rightarrow> bool" where
  "safe_with so obs up N w \<longleftrightarrow> so (w_blobs w) \<and> uniq (w_db w)
     \<and> backed (obs (w_blobs w)) (refs (w_db w) + N) \<and> keys_ok (refs (w_db w) + N)
     \<and> fresh_ids (w_env w) (obs (w_blobs w)) (refs (w_db w) + N)
     \<and> uploads_ok (w_env w) (obs (w_blobs w)) (up (w_blobs w)) (refs (w_db w) + N) (set (uploads (w_db w)))"

abbreviation safe :: "('s \<Rightarrow> bool) \<Rightarrow> ('s \<Rightarrow> objects) \<Rightarrow> ('s \<Rightarrow> bytes \<Rightarrow> bytes option) \<Rightarrow> 's world \<Rightarrow> bool" where
  "safe so obs up \<equiv> safe_with so obs up {#}"

lemma backed_mono: "backed ob R \<Longrightarrow> R' \<subseteq># R \<Longrightarrow> backed ob R'"
  by (auto simp: backed_def dest: mset_subset_eqD)

lemma keys_of_mono: "R' \<subseteq># R \<Longrightarrow> keys_of R' \<subseteq># keys_of R"
  unfolding keys_of_def by (rule image_mset_subseteq_mono)

lemma keys_ok_mono: "keys_ok R \<Longrightarrow> R' \<subseteq># R \<Longrightarrow> keys_ok R'"
  unfolding keys_ok_def by (meson keys_of_mono mset_subset_eqD mset_subset_eq_count order_trans)

lemma fresh_mono: "fresh_ids e ob R \<Longrightarrow> R' \<subseteq># R \<Longrightarrow> env_step e e' \<Longrightarrow> fresh_ids e' ob R'"
  unfolding fresh_ids_def env_step_def by (metis keys_of_mono mset_subset_eqD order_trans)

lemma fresh_less: "fresh_ids e ob R \<Longrightarrow> env_step e e' \<Longrightarrow> dom ob' \<subseteq> dom ob \<Longrightarrow> fresh_ids e' ob' R"
  unfolding fresh_ids_def env_step_def by (metis domIff in_mono order_trans)

lemma undrawn_step: "undrawn e' x \<Longrightarrow> env_step e e' \<Longrightarrow> undrawn e x"
  unfolding undrawn_def env_step_def by (metis order_trans)

lemma uploads_ok_mono:
  assumes "uploads_ok e ob up R U" "env_step e e'" "dom ob' \<subseteq> dom ob" "R' \<subseteq># R" "U' \<subseteq> U"
    and live: "\<And>u. u \<in> U' \<Longrightarrow> up' (u_store u) \<noteq> None \<Longrightarrow> up (u_store u) \<noteq> None"
  shows "uploads_ok e' ob' up' R' U'"
proof -
  have "upload_ok e' ob' up' R' u" if "u \<in> U'" for u
  proof -
    from that assms(1,5) have u: "upload_ok e ob up R u" by (auto simp: uploads_ok_def)
    have "ob' (u_blob u) = None \<and> u_blob u \<notin># keys_of R'" if "up' (u_store u) \<noteq> None"
      using u live [OF \<open>u \<in> U'\<close> that] assms(3) keys_of_mono [OF assms(4)]
      by (auto simp: upload_ok_def dest: mset_subset_eqD)
    with u show ?thesis using undrawn_step [OF _ assms(2)] by (auto simp: upload_ok_def)
  qed
  moreover have "apart up' U'" using assms(1,5) live unfolding uploads_ok_def apart_def by (meson subsetD)
  ultimately show ?thesis by (simp add: uploads_ok_def)
qed

lemma safe_with_mono:
  assumes "safe_with so obs up N w" "w_blobs w' = w_blobs w" "env_step (w_env w) (w_env w')" "uniq (w_db w')"
    "set (uploads (w_db w')) \<subseteq> set (uploads (w_db w))" "refs (w_db w') + M \<subseteq># refs (w_db w) + N"
  shows "safe_with so obs up M w'"
  using assms uploads_ok_mono [OF _ assms(3) order_refl assms(6,5)]
  by (auto simp: safe_with_def intro: backed_mono keys_ok_mono fresh_mono)

lemma safe_with_less: "safe_with so obs up N w \<Longrightarrow> M \<subseteq># N \<Longrightarrow> safe_with so obs up M w"
  by (rule safe_with_mono) (auto simp: safe_with_def)

lemma keys_of_simps [simp]: "keys_of {#} = {#}" "keys_of (A + B) = keys_of A + keys_of B"
  "keys_of (add_mset x A) = add_mset (fst x) (keys_of A)"
  by (simp_all add: keys_of_def)

lemma backed_upd: "backed ob R \<Longrightarrow> k \<notin># keys_of R \<Longrightarrow> backed (ob(k := v)) R"
  unfolding backed_def keys_of_def by force

section \<open>Transactions\<close>

text \<open>
  \<open>grants N m X\<close>: as \<open>accounts\<close>, with what is left over described by \<open>X\<close>.  Inside a
  transaction only success matters: its failure is rolled back.
\<close>

definition grants ::
  "(bytes \<times> int) multiset \<Rightarrow> ('s, 'a) act \<Rightarrow> ('a \<Rightarrow> (bytes \<times> int) multiset \<Rightarrow> bool) \<Rightarrow> bool" where
  "grants N m X \<longleftrightarrow> (\<forall>w r w'. uniq (w_db w) \<longrightarrow> m w = (r, w') \<longrightarrow>
     w_blobs w' = w_blobs w \<and> env_step (w_env w) (w_env w') \<and> w_told w' = w_told w
     \<and> (case r of Inl _ \<Rightarrow> True
        | Inr x \<Rightarrow> uniq (w_db w') \<and> set (uploads (w_db w')) \<subseteq> set (uploads (w_db w))
            \<and> (\<exists>M. X x M \<and> refs (w_db w') + M \<subseteq># refs (w_db w) + N)))"

lemma grantsD:
  "grants N m X \<Longrightarrow> uniq (w_db w) \<Longrightarrow> m w = (r, w') \<Longrightarrow>
     w_blobs w' = w_blobs w \<and> env_step (w_env w) (w_env w') \<and> w_told w' = w_told w
     \<and> (case r of Inl _ \<Rightarrow> True
        | Inr x \<Rightarrow> uniq (w_db w') \<and> set (uploads (w_db w')) \<subseteq> set (uploads (w_db w))
            \<and> (\<exists>M. X x M \<and> refs (w_db w') + M \<subseteq># refs (w_db w) + N))"
  unfolding grants_def by blast

lemma accounts_grants:
  assumes "accounts N m M"
  shows "grants N m (\<lambda>x K. K = M x)"
  unfolding grants_def
proof (intro allI impI)
  fix w w' and r :: "error + 'b" assume "uniq (w_db w)" "m w = (r, w')"
  from accountsD [OF assms this]
  show "w_blobs w' = w_blobs w \<and> env_step (w_env w) (w_env w') \<and> w_told w' = w_told w
     \<and> (case r of Inl _ \<Rightarrow> True
        | Inr x \<Rightarrow> uniq (w_db w') \<and> set (uploads (w_db w')) \<subseteq> set (uploads (w_db w))
            \<and> (\<exists>K. K = M x \<and> refs (w_db w') + K \<subseteq># refs (w_db w) + N))"
    by (cases r) auto
qed

lemma grants_bind:
  assumes m: "grants N m X" and f: "\<And>x M. X x M \<Longrightarrow> grants M (f x) Y"
  shows "grants N (bindE m f) Y"
  unfolding grants_def
proof (intro allI impI)
  fix w w' and r :: "error + 'c" assume u: "uniq (w_db w)" and run: "bindE m f w = (r, w')"
  obtain y w1 where y: "m w = (y, w1)" by fastforce
  note mm = grantsD [OF m u y]
  show "w_blobs w' = w_blobs w \<and> env_step (w_env w) (w_env w') \<and> w_told w' = w_told w
     \<and> (case r of Inl _ \<Rightarrow> True
        | Inr x \<Rightarrow> uniq (w_db w') \<and> set (uploads (w_db w')) \<subseteq> set (uploads (w_db w))
            \<and> (\<exists>K. Y x K \<and> refs (w_db w') + K \<subseteq># refs (w_db w) + N))"
  proof (cases y)
    case (Inl e)
    with mm run y show ?thesis by (auto simp: bindE_def)
  next
    case (Inr x)
    with mm obtain M where M: "X x M" "refs (w_db w1) + M \<subseteq># refs (w_db w) + N" "uniq (w_db w1)" by auto
    from run y Inr have "f x w1 = (r, w')" by (simp add: bindE_def)
    from grantsD [OF f [OF M(1)] M(3) this] mm Inr M(2) show ?thesis
      by (auto split: sum.splits intro: env_step_trans subset_mset.order_trans)
  qed
qed

lemma grants_look:
  assumes "\<And>d. snd (q d) = d" and "\<And>r. grants N (f r) X"
  shows "grants N (tryE (query q) f) X"
  unfolding grants_def
proof (intro allI impI)
  fix w w' and r :: "error + 'c" assume u: "uniq (w_db w)" and run: "tryE (query q) f w = (r, w')"
  obtain y w1 where y: "query q w = (y, w1)" by fastforce
  from run y have f: "f y w1 = (r, w')" by (simp add: tryE_def)
  have l: "w_blobs w1 = w_blobs w \<and> env_step (w_env w) (w_env w1) \<and> w_told w1 = w_told w \<and> w_db w1 = w_db w"
    using shrinks_look [OF assms(1) y u] .
  with u have "uniq (w_db w1)" by simp
  from grantsD [OF assms(2) this f] l
  show "w_blobs w' = w_blobs w \<and> env_step (w_env w) (w_env w') \<and> w_told w' = w_told w
     \<and> (case r of Inl _ \<Rightarrow> True
        | Inr x \<Rightarrow> uniq (w_db w') \<and> set (uploads (w_db w')) \<subseteq> set (uploads (w_db w))
            \<and> (\<exists>M. X x M \<and> refs (w_db w') + M \<subseteq># refs (w_db w) + N))"
    by (auto split: sum.splits intro: env_step_trans)
qed

lemma grants_fail: "grants N (failE e) X"
  by (simp add: grants_def)

lemma grants_ret: "X x M \<Longrightarrow> M \<subseteq># N \<Longrightarrow> grants N (retE x) X"
  by (auto simp: grants_def)

lemma Tx_grants:
  assumes "grants N m X"
  shows "yields (safe_with so obs up N) (Tx m) (\<lambda>x w. \<exists>M. X x M \<and> safe_with so obs up M w) (safe_with so obs up N)"
proof (rule yieldsI)
  fix w x w' assume w: "safe_with so obs up N w" "Tx m w = (Inr x, w')"
  then have u: "uniq (w_db w)" by (simp add: safe_with_def)
  from w(2) show "\<exists>M. X x M \<and> safe_with so obs up M w'"
  proof (cases rule: Tx_cases)
    case (committed e y w1 e')
    with grantsD [OF assms _ committed(2)] u
    obtain M where M: "X x M" "refs (w_db w1) + M \<subseteq># refs (w_db w) + N" "uniq (w_db w1)" "w_blobs w1 = w_blobs w"
      "set (uploads (w_db w1)) \<subseteq> set (uploads (w_db w))" "env_step e (w_env w1)" by auto
    have "safe_with so obs up M w'"
      by (rule safe_with_mono [OF w(1)]) (use M committed in \<open>auto intro: env_step_trans\<close>)
    with M show ?thesis by blast
  qed auto
next
  fix w x w' assume w: "safe_with so obs up N w" "Tx m w = (Inl x, w')"
  then have u: "uniq (w_db w)" by (simp add: safe_with_def)
  have db: "w_db w' = w_db w" by (rule Tx_error [OF w(2)])
  have "w_blobs w' = w_blobs w \<and> env_step (w_env w) (w_env w')"
    using w(2)
  proof (cases rule: Tx_cases)
    case (rolled e x w1)
    with grantsD [OF assms _ rolled(2)] u show ?thesis by (auto intro: env_step_trans)
  next
    case (uncommitted e y w1 e')
    with grantsD [OF assms _ uncommitted(2)] u show ?thesis by (auto intro: env_step_trans)
  qed auto
  with db u show "safe_with so obs up N w'" by (intro safe_with_mono [OF w(1)]) auto
qed

lemma Tx_safe:
  assumes "accounts N m M"
  shows "yields (safe_with so obs up N) (Tx m) (\<lambda>x. safe_with so obs up (M x)) (safe_with so obs up N)"
  by (rule yields_conseq [OF Tx_grants [OF accounts_grants [OF assms]]]) auto

lemma accounts_safe:
  assumes "accounts N m M"
  shows "yields (safe_with so obs up N) m (\<lambda>x. safe_with so obs up (M x)) (safe so obs up)"
proof (rule yieldsI)
  fix w x w' assume w: "safe_with so obs up N w" "m w = (Inr x, w')"
  with accountsD [OF assms _ w(2)] show "safe_with so obs up (M x) w'"
    by (intro safe_with_mono [OF w(1)]) (auto simp: safe_with_def)
next
  fix w x w' assume w: "safe_with so obs up N w" "m w = (Inl x, w')"
  with accountsD [OF assms _ w(2)] show "safe so obs up w'"
    by (intro safe_with_mono [OF w(1)]) (auto simp: safe_with_def)
qed

lemma look_safe:
  assumes "\<And>d. snd (q d) = d"
  shows "yields (safe_with so obs up N) (query q) (\<lambda>_. safe_with so obs up N) (safe_with so obs up N)"
proof (rule yields_keeps, rule keepsI)
  fix w assume w: "safe_with so obs up N w"
  obtain r w' where r: "query q w = (r, w')" by fastforce
  from accountsD [OF accounts_look [OF assms, of N] _ r] query_look_same [OF assms r] w
  show "safe_with so obs up N (snd (query q w))"
    unfolding r snd_conv by (intro safe_with_mono [OF w]) (auto simp: safe_with_def)
qed

lemma kindOf_cases: "kindOf e k \<in> {''image'', ''video'', ''audio'', ''document'', ''other''}"
  by (auto simp: kindOf_def byExtension_def split: kind.splits option.splits if_splits)

lemma newBlobKey_not_derived: "\<not> has_prefix (newBlobKey n k t x) DerivedPrefix"
proof -
  have "\<exists>rest. newBlobKey n k t x = kindOf (extensionOf n) k @ rest"
    by (cases "date_of t") (simp add: newBlobKey_def Let_def)
  then obtain rest where "newBlobKey n k t x = kindOf (extensionOf n) k @ rest" by blast
  with kindOf_cases [of "extensionOf n" k] show ?thesis by (auto simp: has_prefix_def DerivedPrefix_def)
qed

lemma fresh_put:
  assumes "fresh_ids e ob R" "env_step e e'" "\<not> undrawn e (key_id k)"
  shows "fresh_ids e' (ob(k := v)) (add_mset (k, n) R)"
  using assms unfolding fresh_ids_def env_step_def undrawn_def by (auto intro: order_trans)

text \<open>A key that can be published under: nothing is there, nothing points there, no live upload has it.\<close>

definition free_key ::
  "('s \<Rightarrow> objects) \<Rightarrow> ('s \<Rightarrow> bytes \<Rightarrow> bytes option) \<Rightarrow> (bytes \<times> int) multiset \<Rightarrow> bytes \<Rightarrow> 's world \<Rightarrow> bool" where
  "free_key obs up N k w \<longleftrightarrow> obs (w_blobs w) k = None \<and> k \<notin># keys_of (refs (w_db w) + N)
     \<and> \<not> has_prefix k DerivedPrefix \<and> \<not> undrawn (w_env w) (key_id k)
     \<and> (\<forall>u\<in>set (uploads (w_db w)). up (w_blobs w) (u_store u) \<noteq> None \<longrightarrow> u_blob u \<noteq> k)"

section \<open>Blobs\<close>

locale files_service = named_uploads "svc_blobs S" sound objs ups
  for S :: "'s service" and sound :: "'s \<Rightarrow> bool" and objs :: "'s \<Rightarrow> objects" and ups :: "'s \<Rightarrow> bytes \<Rightarrow> bytes option"
begin

abbreviation holds :: "(bytes \<times> int) multiset \<Rightarrow> 's world \<Rightarrow> bool" where
  "holds \<equiv> safe_with sound objs ups"

lemma holds_sound: "holds N w \<Longrightarrow> sound (w_blobs w)"
  by (simp add: safe_with_def)

text \<open>What a call that leaves fewer objects, and no more uploads, keeps.\<close>

lemma holds_fewer:
  assumes "holds N w" "sound s'" "env_step (w_env w) e'" "dom (objs s') \<subseteq> dom (objs (w_blobs w))"
    "backed (objs s') (refs (w_db w) + N)"
    and "\<And>u. u \<in> set (uploads (w_db w)) \<Longrightarrow> ups s' (u_store u) \<noteq> None \<Longrightarrow> ups (w_blobs w) (u_store u) \<noteq> None"
  shows "holds N (w\<lparr>w_blobs := s', w_env := e'\<rparr>)"
proof -
  have "uploads_ok e' (objs s') (ups s') (refs (w_db w) + N) (set (uploads (w_db w)))"
    by (rule uploads_ok_mono [OF _ assms(3,4) subset_mset.order_refl order_refl, of "ups (w_blobs w)"])
      (use assms(1,6) in \<open>auto simp: safe_with_def\<close>)
  with assms fresh_less [OF _ assms(3,4)] show ?thesis by (simp add: safe_with_def)
qed

text \<open>A call that leaves the objects as they are.\<close>

lemma holds_uploads:
  assumes "holds N w" "sound s'" "env_step (w_env w) e'" "objs s' = objs (w_blobs w)"
    and "\<And>u. u \<in> set (uploads (w_db w)) \<Longrightarrow> ups s' (u_store u) \<noteq> None \<Longrightarrow> ups (w_blobs w) (u_store u) \<noteq> None"
  shows "holds N (w\<lparr>w_blobs := s', w_env := e'\<rparr>)"
  by (rule holds_fewer [OF assms(1-3)]) (use assms in \<open>auto simp: safe_with_def\<close>)

lemma delete_safe:
  assumes "k \<notin># keys_of N"
  shows "yields (\<lambda>w. holds N w \<and> k \<notin># keys_of (refs (w_db w))) (blob (port_delete (svc_blobs S) k))
    (\<lambda>_ w. holds N w \<and> k \<notin># keys_of (refs (w_db w))) (holds N)"
proof -
  have main: "holds N (w\<lparr>w_blobs := s', w_env := e'\<rparr>)"
    if w: "holds N w" "k \<notin># keys_of (refs (w_db w))" and s: "sound s'" "env_step (w_env w) e'" "ups s' = ups (w_blobs w)"
      and o: "objs s' = objs (w_blobs w) \<or> objs s' = (objs (w_blobs w))(k := None)" for w s' e'
  proof (rule holds_fewer [OF w(1) s(1,2)])
    show "backed (objs s') (refs (w_db w) + N)"
      using o w assms backed_upd [of "objs (w_blobs w)" "refs (w_db w) + N" k None] by (auto simp: safe_with_def)
  qed (use o s in \<open>auto split: if_splits\<close>)
  show ?thesis
  proof (rule yieldsI)
    fix w x w' assume w: "holds N w \<and> k \<notin># keys_of (refs (w_db w))"
      "blob (port_delete (svc_blobs S) k) w = (Inr x, w')"
    obtain y s' e' where d: "port_delete (svc_blobs S) k (w_blobs w, w_env w) = (y, s', e')" by (metis prod_cases3)
    with w have "y = Inr x" "w' = w\<lparr>w_blobs := s', w_env := e'\<rparr>" by (auto simp: blob_def)
    with delete_ok [OF _ d [unfolded \<open>y = Inr x\<close>]] w main [of w s' e']
    show "holds N w' \<and> k \<notin># keys_of (refs (w_db w'))" by (auto dest: holds_sound)
  next
    fix w x w' assume w: "holds N w \<and> k \<notin># keys_of (refs (w_db w))"
      "blob (port_delete (svc_blobs S) k) w = (Inl x, w')"
    obtain y s' e' where d: "port_delete (svc_blobs S) k (w_blobs w, w_env w) = (y, s', e')" by (metis prod_cases3)
    with w have "y = Inl x" "w' = w\<lparr>w_blobs := s', w_env := e'\<rparr>" by (auto simp: blob_def)
    with delete_err [OF _ d [unfolded \<open>y = Inl x\<close>]] w main [of w s' e']
    show "holds N w'" by (auto dest: holds_sound)
  qed
qed

text \<open>A pending blob, and a derived object, can go.\<close>

lemma pending_not_ref:
  "holds (add_mset (k, n) N) w \<Longrightarrow> k \<notin># keys_of (refs (w_db w)) \<and> k \<notin># keys_of N"
proof -
  assume "holds (add_mset (k, n) N) w"
  then have "keys_ok (refs (w_db w) + add_mset (k, n) N)" by (simp add: safe_with_def)
  then have "count (keys_of (refs (w_db w) + add_mset (k, n) N)) k \<le> 1" unfolding keys_ok_def by blast
  then show ?thesis by (simp add: not_in_iff)
qed

lemma delete_pending:
  "yields (holds (add_mset (k, n) N)) (blob (port_delete (svc_blobs S) k))
    (\<lambda>_. holds N) (holds N)"
proof (cases "k \<in># keys_of N")
  case True
  then show ?thesis using pending_not_ref by (auto simp: yields_def)
next
  case False
  have "holds N w \<and> k \<notin># keys_of (refs (w_db w))" if "holds (add_mset (k, n) N) w" for w
    using that pending_not_ref [OF that] by (auto intro: safe_with_less)
  then show ?thesis by (rule yields_conseq [OF delete_safe [OF False]]) auto
qed

lemma derived_not_ref:
  "holds N w \<Longrightarrow> has_prefix k DerivedPrefix \<Longrightarrow> k \<notin># keys_of (refs (w_db w)) \<and> k \<notin># keys_of N"
  by (auto simp: safe_with_def keys_ok_def)

lemma delete_derived:
  assumes "has_prefix k DerivedPrefix"
  shows "yields (holds N) (blob (port_delete (svc_blobs S) k))
    (\<lambda>_. holds N) (holds N)"
proof (cases "k \<in># keys_of N")
  case True
  then show ?thesis using derived_not_ref [OF _ assms] by (auto simp: yields_def)
next
  case False
  then show ?thesis
    by (rule yields_conseq [OF delete_safe]) (auto simp: derived_not_ref [OF _ assms])
qed

lemma list_safe:
  assumes "holds N w" "blob_list S pre w = ((is, err), w')"
  shows "holds N w' \<and> w_db w' = w_db w \<and> (\<forall>i\<in>set is. i \<in> listing (objs (w_blobs w)) pre)
    \<and> objs (w_blobs w') = objs (w_blobs w) \<and> distinct (map i_key is)"
proof -
  obtain s' e' where l: "port_list (svc_blobs S) pre (w_blobs w, w_env w) = ((is, err), s', e')"
    and w': "w' = w\<lparr>w_blobs := s', w_env := e'\<rparr>"
    using assms(2) by (auto simp: blob_list_def split: prod.splits)
  from assms(1) have "sound (w_blobs w)" by (rule holds_sound)
  note r = list_result [OF this l]
  have "holds N w'"
    by (rule safe_with_mono [OF assms(1)]) (use r w' assms(1) in \<open>auto simp: safe_with_def\<close>)
  with r w' show ?thesis by (auto split: option.splits)
qed

lemma listing_prefix: "i \<in> listing ob pre \<Longrightarrow> has_prefix (i_key i) pre"
  by (auto simp: listing_def info_of_def)

lemma yields_foreach:
  "(\<And>x. x \<in> set xs \<Longrightarrow> yields I (f x) (\<lambda>_. I) I) \<Longrightarrow> yields I (foreach f xs) (\<lambda>_. I) I"
proof (induction xs)
  case (Cons x xs)
  then show ?case unfolding foreach.simps by (intro yields_bind) auto
qed (simp only: foreach.simps yields_ret)

lemma dropBlob_safe:
  "yields (holds (add_mset (k, n) N)) (dropBlob S k)
    (\<lambda>_. holds N) (holds N)"
proof -
  let ?I = "holds N"
  have rest: "yields ?I (\<lambda>w. case blob_list S (DerivedPrefix @ k @ ''/'') w of
       ((is, err), w1) \<Rightarrow>
         bindE (foreach (\<lambda>i. blob (port_delete (svc_blobs S) (i_key i))) is) (\<lambda>_.
         case err of Some x \<Rightarrow> failE x | None \<Rightarrow> retE ()) w1) (\<lambda>_. ?I) ?I"
  proof -
    have "case bindE (foreach (\<lambda>i. blob (port_delete (svc_blobs S) (i_key i))) is) (\<lambda>_.
         case err of Some x \<Rightarrow> failE x | None \<Rightarrow> retE ()) w1 of (Inl e, t) \<Rightarrow> ?I t | (Inr x, t) \<Rightarrow> ?I t"
      if w: "?I w" and l: "blob_list S (DerivedPrefix @ k @ ''/'') w = ((is, err), w1)" for w "is" err w1
    proof -
      note ls = list_safe [OF w l]
      have "has_prefix (i_key i) DerivedPrefix" if "i \<in> set is" for i
      proof -
        from that ls have "has_prefix (i_key i) (DerivedPrefix @ k @ ''/'')" using listing_prefix by blast
        then show ?thesis by (auto simp: has_prefix_iff)
      qed
      then have "yields ?I (foreach (\<lambda>i. blob (port_delete (svc_blobs S) (i_key i))) is) (\<lambda>_. ?I) ?I"
        by (intro yields_foreach delete_derived) auto
      then have "yields ?I (bindE (foreach (\<lambda>i. blob (port_delete (svc_blobs S) (i_key i))) is) (\<lambda>_.
         case err of Some x \<Rightarrow> failE x | None \<Rightarrow> retE ())) (\<lambda>_. ?I) ?I"
        by (rule yields_bind) (auto split: option.splits intro!: yields_fail yields_ret)
      then show ?thesis unfolding yields_def using ls by simp
    qed
    then show ?thesis unfolding yields_def by (metis (no_types, lifting) case_prod_conv surj_pair)
  qed
  show ?thesis unfolding dropBlob_def by (rule yields_bind [OF delete_pending rest])
qed

lemma yields_best: "yields P m (\<lambda>_. Q) Q \<Longrightarrow> yields P (best_effort m) (\<lambda>_. Q) Q"
  unfolding best_effort_def by (rule yields_try) (auto intro: yields_ret)

abbreviation fresh_key :: "(bytes \<times> int) multiset \<Rightarrow> bytes \<Rightarrow> 's world \<Rightarrow> bool" where
  "fresh_key \<equiv> free_key objs ups"

lemma rand_id_fresh:
  "yields (holds N) rand_id (\<lambda>x w. holds N w \<and> is_text x \<and> \<not> undrawn (w_env w) x
     \<and> (\<forall>k. key_id k = x \<longrightarrow> \<not> has_prefix k DerivedPrefix \<longrightarrow> fresh_key N k w)
     \<and> (\<forall>u\<in>set (uploads (w_db w)). u_id u \<noteq> x)) (holds N)"
proof (rule yieldsI)
  fix w x w' assume w: "holds N w" and r: "rand_id w = (Inr x, w')"
  let ?i = "drawn (w_env w)"
  from r have x: "x = texts (w_env w) ?i" and w': "w' = w\<lparr>w_env := (w_env w)\<lparr>drawn := Suc ?i\<rparr>\<rparr>"
    by (simp_all add: rand_id_def)
  have f: "fresh_ids (w_env w) (objs (w_blobs w)) (refs (w_db w) + N)"
    and u: "uploads_ok (w_env w) (objs (w_blobs w)) (ups (w_blobs w)) (refs (w_db w) + N) (set (uploads (w_db w)))"
    using w by (simp_all add: safe_with_def)
  have "inj (texts (w_env w))" using f by (simp add: fresh_ids_def)
  then have nu: "\<not> undrawn (w_env w') x" unfolding x w' undrawn_def by (auto dest: injD)
  have ud: "undrawn (w_env w) x" unfolding x undrawn_def by blast
  have "holds N w'" by (rule safe_with_mono [OF w]) (use w in \<open>auto simp: w' safe_with_def\<close>)
  moreover have "fresh_key N k w'" if k: "key_id k = x" "\<not> has_prefix k DerivedPrefix" for k
  proof -
    have "objs (w_blobs w) k = None \<and> k \<notin># keys_of (refs (w_db w) + N)"
      using f k(1) unfolding fresh_ids_def x by blast
    moreover have "u_blob v \<noteq> k" if "v \<in> set (uploads (w_db w))" for v
      using u that ud k(1) by (auto simp: uploads_ok_def upload_ok_def)
    ultimately show ?thesis using nu k unfolding free_key_def by (simp add: w')
  qed
  moreover have "\<forall>v\<in>set (uploads (w_db w')). u_id v \<noteq> x"
    using u ud by (auto simp: w' uploads_ok_def upload_ok_def)
  moreover have "is_text x" using f by (simp add: fresh_ids_def x)
  ultimately show "holds N w' \<and> is_text x \<and> \<not> undrawn (w_env w') x
     \<and> (\<forall>k. key_id k = x \<longrightarrow> \<not> has_prefix k DerivedPrefix \<longrightarrow> fresh_key N k w')
     \<and> (\<forall>u\<in>set (uploads (w_db w')). u_id u \<noteq> x)"
    using nu by blast
qed (simp add: rand_id_def)

text \<open>An object published under a fresh key, referenced or not.\<close>

lemma publish_holds:
  assumes w: "holds N w" and k: "objs (w_blobs w) k = None" "k \<notin># keys_of (refs (w_db w) + N)"
      "\<not> has_prefix k DerivedPrefix" "\<not> undrawn (w_env w) (key_id k)"
    and s: "sound s'" "env_step (w_env w) e'" and o: "objs s' = (objs (w_blobs w))(k \<mapsto> (d, t))"
    and u: "\<And>u. u \<in> set (uploads (w_db w)) \<Longrightarrow> ups s' (u_store u) \<noteq> None \<Longrightarrow>
      ups (w_blobs w) (u_store u) \<noteq> None \<and> u_blob u \<noteq> k"
  shows "holds (add_mset (k, int (length d)) N) (w\<lparr>w_blobs := s', w_env := e'\<rparr>)"
proof -
  let ?R = "refs (w_db w) + N"
  have "backed (objs s') (add_mset (k, int (length d)) ?R)"
    using w backed_upd [of "objs (w_blobs w)" ?R k "Some (d, t)"] k(2) unfolding o
    by (auto simp: safe_with_def backed_def)
  moreover have "keys_ok (add_mset (k, int (length d)) ?R)"
    using w k(2,3) unfolding safe_with_def keys_ok_def by (auto simp: not_in_iff)
  moreover have "fresh_ids e' (objs s') (add_mset (k, int (length d)) ?R)"
    unfolding o using w k(4) s(2) by (intro fresh_put [of "w_env w"]) (simp_all add: safe_with_def)
  moreover have "uploads_ok e' (objs s') (ups s') (add_mset (k, int (length d)) ?R) (set (uploads (w_db w)))"
  proof -
    have "uploads_ok e' (objs (w_blobs w)) (ups s') ?R (set (uploads (w_db w)))"
      by (rule uploads_ok_mono [OF _ s(2) order_refl subset_mset.order_refl order_refl, where up = "ups (w_blobs w)"])
        (use w u in \<open>auto simp: safe_with_def\<close>)
    with u show ?thesis unfolding uploads_ok_def upload_ok_def o by auto
  qed
  ultimately show ?thesis using w s by (simp add: safe_with_def)
qed

lemma put_holds:
  "yields (\<lambda>w. holds N w \<and> fresh_key N k w) (blob (port_put (svc_blobs S) k r n))
     (\<lambda>i. holds (add_mset (k, i_size i) N)) (holds N)"
proof (rule yieldsI)
  fix w i w' assume w: "holds N w \<and> fresh_key N k w" "blob (port_put (svc_blobs S) k r n) w = (Inr i, w')"
  then obtain s' e' where p: "port_put (svc_blobs S) k r n (w_blobs w, w_env w) = (Inr i, (s', e'))"
    and w': "w' = w\<lparr>w_blobs := s', w_env := e'\<rparr>" by (auto simp: blob_def split: prod.splits)
  from put_ok [OF holds_sound p] w publish_holds [of N w k s' e' "content r" "now (w_env w)"]
  show "holds (add_mset (k, i_size i) N) w'" by (auto simp: w' info_of_def free_key_def)
next
  fix w i w' assume w: "holds N w \<and> fresh_key N k w" "blob (port_put (svc_blobs S) k r n) w = (Inl i, w')"
  then obtain s' e' where p: "port_put (svc_blobs S) k r n (w_blobs w, w_env w) = (Inl i, (s', e'))"
    and w': "w' = w\<lparr>w_blobs := s', w_env := e'\<rparr>" by (auto simp: blob_def split: prod.splits)
  from put_err [OF holds_sound p] w have s: "sound s'" "ups s' = ups (w_blobs w)" "env_step (w_env w) e'"
    and "objs s' = objs (w_blobs w) \<or> objs s' = (objs (w_blobs w))(k \<mapsto> (content r, now (w_env w)))" by auto
  then show "holds N w'"
  proof (elim disjE)
    assume "objs s' = objs (w_blobs w)"
    with s w show ?thesis unfolding w' by (intro holds_fewer) (auto simp: safe_with_def)
  next
    assume "objs s' = (objs (w_blobs w))(k \<mapsto> (content r, now (w_env w)))"
    from publish_holds [OF _ _ _ _ _ s(1,3) this] w s(2)
    have "holds (add_mset (k, int (length (content r))) N) w'" unfolding w' by (simp add: free_key_def)
    then show ?thesis by (rule safe_with_less) simp
  qed
qed

lemma clock_holds: "yields (holds N) clock (\<lambda>_. holds N) (holds N)"
  by (simp add: yields_def clock_def)

lemma storeBlob_holds:
  "yields (holds N) (storeBlob S owner path body sz mimeType) (\<lambda>f w. holds (N + row_ref f) w \<and> \<not> f_is_dir f) (holds N)"
proof -
  have put: "yields (\<lambda>w. holds N w \<and> is_text x \<and> \<not> undrawn (w_env w) x
     \<and> (\<forall>k. key_id k = x \<longrightarrow> \<not> has_prefix k DerivedPrefix \<longrightarrow> fresh_key N k w) \<and> (\<forall>u\<in>set (uploads (w_db w)). u_id u \<noteq> x))
     (blob (port_put (svc_blobs S) (newBlobKey path kd t x) r sz))
     (\<lambda>i. holds (add_mset (newBlobKey path kd t x, i_size i) N)) (holds N)" for x kd t r
    by (rule yields_conseq [OF put_holds]) (auto simp: key_id_newBlobKey newBlobKey_not_derived)
  show ?thesis
    unfolding storeBlob_def Let_def
  proof (rule yields_check)
    have rest: "yields (holds N) (bindE clock (\<lambda>t. bindE rand_id (\<lambda>x.
        bindE (blob (port_put (svc_blobs S) (newBlobKey path kd t x) r sz)) (\<lambda>info. retE (F t x info)))))
        (\<lambda>f w. holds (N + row_ref f) w \<and> \<not> f_is_dir f) (holds N)"
      if "\<And>t x info. row_ref (F t x info) = {#(newBlobKey path kd t x, i_size info)#} \<and> \<not> f_is_dir (F t x info)" for F kd r
      using that by (intro yields_bind [OF clock_holds] yields_bind [OF rand_id_fresh] yields_bind [OF put] yields_ret) simp
    show "yields (holds N) (case read_full HeadSize body of (head, st, rest) \<Rightarrow>
       case st of Broken x \<Rightarrow> failE x | _ \<Rightarrow> case Sniff head of (sniffedType, sniffedKind) \<Rightarrow>
       bindE clock (\<lambda>t. bindE rand_id (\<lambda>x.
       bindE (blob (port_put (svc_blobs S) (newBlobKey path sniffedKind t x) (multi_reader head rest) sz)) (\<lambda>info.
       retE (no_file\<lparr>f_owner := owner, f_path := path, f_blob := newBlobKey path sniffedKind t x, f_size := i_size info,
         f_mtime := i_mtime info, f_etag := etag S (content (multi_reader head rest)),
         f_mime := contentType mimeType sniffedType\<rparr>)))))
       (\<lambda>f w. holds (N + row_ref f) w \<and> \<not> f_is_dir f) (holds N)"
      (is "yields _ ?body _ _")
    proof -
      obtain head st r where rf: "read_full HeadSize body = (head, st, r)" by (cases "read_full HeadSize body")
      obtain ty kd where sn: "Sniff head = (ty, kd)" by fastforce
      have ok: "yields (holds N) (bindE clock (\<lambda>t. bindE rand_id (\<lambda>x.
       bindE (blob (port_put (svc_blobs S) (newBlobKey path kd t x) (multi_reader head r) sz)) (\<lambda>info.
       retE (no_file\<lparr>f_owner := owner, f_path := path, f_blob := newBlobKey path kd t x, f_size := i_size info,
         f_mtime := i_mtime info, f_etag := etag S (content (multi_reader head r)),
         f_mime := contentType mimeType ty\<rparr>)))))
       (\<lambda>f w. holds (N + row_ref f) w \<and> \<not> f_is_dir f) (holds N)"
        by (rule rest) (simp add: row_ref_def no_file_def)
      show ?thesis
      proof (cases st)
        case (Broken x)
        then have "?body = failE x" by (simp only: rf prod.case status.case)
        then show ?thesis by (simp only:) (rule yields_fail)
      qed (simp_all only: rf sn prod.case status.case ok)
    qed
  qed
qed

end

end
