(* ===== verification/FilesCopy.thy ===== *)
theory FilesCopy
  imports FilesService
begin

text \<open>
  \<^verbatim>\<open>internal/files/copy.go\<close>: a copy writes every blob first and commits every row in one
  transaction at the end.
\<close>

record copy_step =
  cs_source :: db_file
  cs_path :: bytes

fun planCopy :: "nat \<Rightarrow> bytes \<Rightarrow> db_file \<Rightarrow> bytes \<Rightarrow> bool \<Rightarrow> ('s, copy_step list) act"
  and planAll :: "nat \<Rightarrow> bytes \<Rightarrow> bytes \<Rightarrow> db_file list \<Rightarrow> ('s, copy_step list) act" where
  "planCopy 0 owner source to recursive = failE ErrOther"
| "planCopy (Suc n) owner source to recursive =
     (let here = \<lparr>cs_source = source, cs_path = to\<rparr> in
      if \<not> f_is_dir source \<or> \<not> recursive then retE [here]
      else bindE (query (ListFiles owner (f_path source))) (\<lambda>children.
           bindE (planAll n owner to children) (\<lambda>deeper. retE (here # deeper))))"
| "planAll n owner to [] = retE []"
| "planAll n owner to (child # cs) =
     bindE (planCopy n owner child (to @ ''/'' @ base_name (f_path child)) True) (\<lambda>deeper.
     bindE (planAll n owner to cs) (\<lambda>rest. retE (deeper @ rest)))"

definition roomFor :: "'s service \<Rightarrow> copy_step list \<Rightarrow> ('s, unit) act" where
  "roomFor S plan =
     (let need = foldl (\<lambda>a st. wrap64 (a + f_size (cs_source st))) 0 plan in
      bindE (blob (port_free (svc_blobs S))) (\<lambda>free.
      if free < need then failE ErrNoSpace else retE ()))"

definition copyOne :: "'s service \<Rightarrow> bytes \<Rightarrow> copy_step \<Rightarrow> ('s, db_file) act" where
  "copyOne S owner st =
     bindE (OpenFile S (cs_source st)) (\<lambda>body.
     storeBlob S owner (cs_path st) body (f_size (cs_source st)) (f_mime (cs_source st)))"

text \<open>Giving up the blobs of rows that were never committed.\<close>

definition discard :: "'s service \<Rightarrow> db_file list \<Rightarrow> ('s, unit) act" where
  "discard S rows =
     foreach (\<lambda>f. if f_is_dir f then retE () else best_effort (blob (port_delete (svc_blobs S) (f_blob f)))) rows"

fun writeCopies :: "'s service \<Rightarrow> bytes \<Rightarrow> db_file list \<Rightarrow> copy_step list \<Rightarrow> ('s, db_file list) act" where
  "writeCopies S owner rows [] = retE rows"
| "writeCopies S owner rows (st # plan) =
     (if f_is_dir (cs_source st)
      then writeCopies S owner (rows @ [no_file\<lparr>f_owner := owner, f_path := cs_path st, f_is_dir := True\<rparr>]) plan
      else tryE (copyOne S owner st) (\<lambda>r.
           case r of
             Inl x \<Rightarrow> bindE (discard S rows) (\<lambda>_. failE x)
           | Inr row \<Rightarrow> writeCopies S owner (rows @ [row]) plan))"

fun insertCopies :: "bytes \<Rightarrow> db_file list \<Rightarrow> ('s, db_file list) act" where
  "insertCopies owner [] = retE []"
| "insertCopies owner (row # rows) =
     bindE (requireParent owner (f_path row)) (\<lambda>_.
     bindE (if f_is_dir row
            then bindE clock (\<lambda>t. bindE (query (CreateDir owner (f_path row) t)) (\<lambda>_. retE row))
            else query (PutFile row)) (\<lambda>stored.
     bindE (insertCopies owner rows) (\<lambda>rest. retE (stored # rest))))"

definition blobs_of :: "db_file list \<Rightarrow> bytes list" where
  "blobs_of rows = map f_blob (filter (\<lambda>f. \<not> f_is_dir f) rows)"

definition commitCopies :: "bytes \<Rightarrow> bytes \<Rightarrow> db_file list \<Rightarrow> ('s, bytes list \<times> db_file list) act" where
  "commitCopies owner to rows =
     Tx (tryE (query (FileByPath owner to)) (\<lambda>r.
         bindE (case r of
                  Inr _ \<Rightarrow> bindE (removeTree depth_bound owner to) (\<lambda>replaced. retE (blobs_of replaced))
                | Inl x \<Rightarrow> if x \<noteq> ErrNotFound then failE x else retE []) (\<lambda>orphaned.
         bindE (insertCopies owner rows) (\<lambda>stored.
         retE (orphaned, stored)))))"

definition Copy :: "'s service \<Rightarrow> bytes \<Rightarrow> bytes \<Rightarrow> bytes \<Rightarrow> bool \<Rightarrow> ('s, bool) act" where
  "Copy S owner from to recursive =
     bindE (liftE (ValidateMove from to)) (\<lambda>_.
     bindE (query (FileByPath owner from)) (\<lambda>source.
     tryE (query (FileByPath owner to)) (\<lambda>st.
     bindE (case st of
              Inr _ \<Rightarrow> retE False
            | Inl x \<Rightarrow> if x = ErrNotFound then retE True else failE x) (\<lambda>created.
     bindE (planCopy depth_bound owner source to recursive) (\<lambda>plan.
     bindE (roomFor S plan) (\<lambda>_.
     bindE (writeCopies S owner [] plan) (\<lambda>rows.
     tryE (commitCopies owner to rows) (\<lambda>committed.
     case committed of
       Inl x \<Rightarrow> bindE (discard S rows) (\<lambda>_. failE x)
     | Inr (orphaned, stored) \<Rightarrow>
         bindE (foreach (dropBlob S) orphaned) (\<lambda>_.
         bindE (foreach (\<lambda>f. if f_is_dir f then retE () else written f) stored) (\<lambda>_.
         retE created))))))))))"

end
