(* ===== verification/SoundFiles.thy ===== *)
theory SoundFiles
  imports Sound FilesCopy
begin

text \<open>
  The invariant of theory \<open>Sound\<close> under the operations of \<^verbatim>\<open>files.go\<close> and \<^verbatim>\<open>copy.go\<close>:
  writing, making directories, moving, removing and copying.
\<close>

lemma replace_grants:
  "grants {#(f_blob f, f_size f)#} (replace f)
     (\<lambda>(g, old) M. f_blob g = f_blob f \<and> (if old = [] then M = {#} else \<exists>n. M = {#(old, n)#}))"
  unfolding grants_def
proof (intro allI impI)
  fix w w' and r :: "error + db_file \<times> bytes" assume u: "uniq (w_db w)" and run: "replace f w = (r, w')"
  note a = replace_account [OF u run]
  show "w_blobs w' = w_blobs w \<and> env_step (w_env w) (w_env w') \<and> w_told w' = w_told w
     \<and> (case r of Inl _ \<Rightarrow> True
        | Inr x \<Rightarrow> uniq (w_db w') \<and> set (uploads (w_db w')) \<subseteq> set (uploads (w_db w))
            \<and> (\<exists>M. (case x of (g, old) \<Rightarrow> \<lambda>M. f_blob g = f_blob f \<and> (if old = [] then M = {#} else \<exists>n. M = {#(old, n)#})) M
                 \<and> refs (w_db w') + M \<subseteq># refs (w_db w) + {#(f_blob f, f_size f)#}))"
  proof (cases r)
    case (Inr x)
    obtain g old where x: "x = (g, old)" by fastforce
    with a Inr obtain K where K: "refs (w_db w') + K = refs (w_db w) + {#(f_blob f, f_size f)#}"
      "old = [] \<or> (\<exists>n. K = {#(old, n)#})" "f_blob g = f_blob f" by auto
    have "\<exists>M. (if old = [] then M = {#} else \<exists>n. M = {#(old, n)#})
        \<and> refs (w_db w') + M \<subseteq># refs (w_db w) + {#(f_blob f, f_size f)#}"
    proof (cases "old = []")
      case True
      then show ?thesis by (metis K(1) add_0_right mset_subset_eq_add_left)
    next
      case False
      with K show ?thesis by (metis subset_mset.order_refl)
    qed
    with a Inr x K(3) show ?thesis by auto
  qed (use a in auto)
qed

lemma keys_of_row: "keys_of (rows_refs rows) = mset (blobs_of rows)"
  by (induction rows) (auto simp: blobs_of_def row_ref_def)

lemma accounts_insertCopies: "accounts (N + rows_refs rows) (insertCopies owner rows) (\<lambda>_. N)"
proof (induction rows)
  case Nil
  then show ?case unfolding insertCopies.simps by (rule accounts_ret) simp
next
  case (Cons row rows)
  have put: "accounts (N + rows_refs (row # rows)) (if f_is_dir row
            then bindE clock (\<lambda>t. bindE (query (CreateDir owner (f_path row) t)) (\<lambda>_. retE row))
            else query (PutFile row)) (\<lambda>_. N + rows_refs rows)"
  proof (cases "f_is_dir row")
    case True
    then have "N + rows_refs (row # rows) = N + rows_refs rows" by (simp add: row_ref_def)
    with True show ?thesis
      by (simp only: if_True) (rule accounts_bind [OF accounts_clock], rule accounts_bind [OF accounts_CreateDir], rule accounts_ret, simp)
  next
    case False
    with accounts_PutFile [OF False, of "N + rows_refs rows"] show ?thesis by (simp add: algebra_simps)
  qed
  show ?case unfolding insertCopies.simps
    by (rule accounts_bind [OF accounts_requireParent], rule accounts_bind [OF put], rule accounts_bind [OF Cons],
        rule accounts_ret, simp)
qed

lemma commitCopies_grants:
  "grants (rows_refs rows) (tryE (query (FileByPath owner to)) (\<lambda>r.
         bindE (case r of
                  Inr _ \<Rightarrow> bindE (removeTree depth_bound owner to) (\<lambda>replaced. retE (blobs_of replaced))
                | Inl x \<Rightarrow> if x \<noteq> ErrNotFound then failE x else retE []) (\<lambda>orphaned.
         bindE (insertCopies owner rows) (\<lambda>stored.
         retE (orphaned, stored))))) (\<lambda>(orphaned, stored) M. keys_of M = mset orphaned)"
proof (rule grants_look [OF FileByPath_same])
  fix r :: "error + db_file"
  let ?X = "\<lambda>orphaned M. \<exists>K. M = rows_refs rows + K \<and> keys_of K = mset orphaned"
  have first: "grants (rows_refs rows) (case r of
                  Inr _ \<Rightarrow> bindE (removeTree depth_bound owner to) (\<lambda>replaced. retE (blobs_of replaced))
                | Inl x \<Rightarrow> if x \<noteq> ErrNotFound then failE x else retE []) ?X"
  proof (cases r)
    case (Inl x)
    then show ?thesis by (auto intro!: grants_fail grants_ret [of _ _ "rows_refs rows"])
  next
    case (Inr x)
    then show ?thesis unfolding Inr sum.case
      by (intro grants_bind [OF accounts_grants [OF accounts_removeTree]])
        (auto intro!: grants_ret [of _ _ "rows_refs rows + rows_refs _"] simp: keys_of_row)
  qed
  show "grants (rows_refs rows) (bindE (case r of
                  Inr _ \<Rightarrow> bindE (removeTree depth_bound owner to) (\<lambda>replaced. retE (blobs_of replaced))
                | Inl x \<Rightarrow> if x \<noteq> ErrNotFound then failE x else retE []) (\<lambda>orphaned.
         bindE (insertCopies owner rows) (\<lambda>stored. retE (orphaned, stored))))
      (\<lambda>(orphaned, stored) M. keys_of M = mset orphaned)"
  proof (rule grants_bind [OF first])
    fix orphaned M assume "?X orphaned M"
    then obtain K where K: "M = K + rows_refs rows" "keys_of K = mset orphaned" by (auto simp: add.commute)
    show "grants M (bindE (insertCopies owner rows) (\<lambda>stored. retE (orphaned, stored)))
      (\<lambda>(orphaned, stored) M. keys_of M = mset orphaned)"
      unfolding K(1) by (rule grants_bind [OF accounts_grants [OF accounts_insertCopies]])
        (auto intro!: grants_ret [of _ _ K] simp: K(2))
  qed
qed

context files_service
begin

lemma drop_old_holds:
  "yields (\<lambda>w. \<exists>M. (if k = [] then M = {#} else \<exists>n. M = {#(k, n)#}) \<and> holds M w) (drop_old S k) (\<lambda>_. holds {#}) (holds {#})"
proof (cases "k = []")
  case True
  then show ?thesis unfolding drop_old_def by (simp only: simp_thms if_True) (rule yields_ret, simp)
next
  case False
  have "yields (\<lambda>w. \<exists>n. holds {#(k, n)#} w) (best_effort (dropBlob S k)) (\<lambda>_. holds {#}) (holds {#})"
    by (rule yields_ex, rule yields_best, rule dropBlob_safe)
  with False show ?thesis unfolding drop_old_def
    by (simp only: if_False) (erule yields_conseq, auto)
qed

lemma give_up:
  "yields (holds {#(k, n)#}) (bindE (best_effort (blob (port_delete (svc_blobs S) k))) (\<lambda>_. failE x)) Q (holds {#})"
  by (rule yields_bind [OF yields_best [OF delete_pending]]) (rule yields_fail)

lemma write_file_holds:
  "yields (holds {#}) (write_file S owner path body sz mimeType) (\<lambda>_. holds {#}) (holds {#})"
  unfolding write_file_def
proof (rule yields_bind [OF storeBlob_holds], rule yields_given)
  fix f :: db_file assume nd: "\<not> f_is_dir f"
  then have ref: "{#} + row_ref f = {#(f_blob f, f_size f)#}" by (simp add: row_ref_def)
  show "yields (holds ({#} + row_ref f)) (tryE (Tx (replace f)) (\<lambda>r. case r of
       Inl x \<Rightarrow> bindE (best_effort (blob (port_delete (svc_blobs S) (f_blob f)))) (\<lambda>_. failE x)
     | Inr (stored, superseded) \<Rightarrow> bindE (drop_old S superseded) (\<lambda>_. retE stored))) (\<lambda>_. holds {#}) (holds {#})"
    unfolding ref
  proof (rule yields_try [OF Tx_grants [OF replace_grants]])
    fix x :: "db_file \<times> bytes"
    obtain g old where x: "x = (g, old)" by fastforce
    have "yields (\<lambda>w. \<exists>M. (if old = [] then M = {#} else \<exists>n. M = {#(old, n)#}) \<and> holds M w)
       (bindE (drop_old S old) (\<lambda>_. retE g)) (\<lambda>_. holds {#}) (holds {#})"
      by (rule yields_bind [OF drop_old_holds]) (rule yields_ret)
    then show "yields (\<lambda>w. \<exists>M. (case x of (g, old) \<Rightarrow> \<lambda>M. f_blob g = f_blob f \<and> (if old = [] then M = {#} else \<exists>n. M = {#(old, n)#})) M \<and> holds M w)
       (case Inr x of Inl x \<Rightarrow> bindE (best_effort (blob (port_delete (svc_blobs S) (f_blob f)))) (\<lambda>_. failE x)
        | Inr (stored, superseded) \<Rightarrow> bindE (drop_old S superseded) (\<lambda>_. retE stored)) (\<lambda>_. holds {#}) (holds {#})"
      unfolding x sum.case prod.case by (rule yields_conseq) auto
  next
    fix x show "yields (holds {#(f_blob f, f_size f)#}) (case Inl x of Inl x \<Rightarrow> bindE (best_effort (blob (port_delete (svc_blobs S) (f_blob f)))) (\<lambda>_. failE x)
        | Inr (stored, superseded) \<Rightarrow> bindE (drop_old S superseded) (\<lambda>_. retE stored)) (\<lambda>_. holds {#}) (holds {#})"
      unfolding sum.case by (rule give_up)
  qed
qed

lemma written_holds: "yields (holds N) (written f) (\<lambda>_. holds N) (holds N)"
  by (simp add: yields_def written_def safe_with_def)

lemma Write_holds: "yields (holds {#}) (Write S owner path body sz mimeType) (\<lambda>_. holds {#}) (holds {#})"
  unfolding Write_def
  by (rule yields_bind [OF write_file_holds], rule yields_bind [OF written_holds], rule yields_ret)

lemma Reserve_holds: "yields (holds {#}) (Reserve S owner path mimeType) (\<lambda>_. holds {#}) (holds {#})"
  unfolding Reserve_def by (rule write_file_holds)

lemma Mkdir_holds: "yields (holds N) (Mkdir owner path) (\<lambda>_. holds N) (holds N)"
  unfolding Mkdir_def
  by (rule yields_check, rule Tx_safe, rule accounts_bind [OF accounts_requireParent], rule accounts_bind [OF accounts_clock],
      rule accounts_CreateDir)

lemma mkdir_walk_holds: "yields (holds N) (mkdir_walk owner walked segs) (\<lambda>_. holds N) (holds N)"
proof (induction segs arbitrary: walked)
  case Nil
  then show ?case unfolding mkdir_walk.simps by (rule yields_ret)
next
  case (Cons seg segs)
  show ?case unfolding mkdir_walk.simps Let_def Stat_file_def
  proof (rule yields_try [OF look_safe [OF FileByPath_same]])
    fix x :: db_file
    show "yields (holds N) (case Inr x of Inr existing \<Rightarrow> if f_is_dir existing then mkdir_walk owner (path_join walked seg) segs else failE ErrConflict
      | Inl x \<Rightarrow> if x \<noteq> ErrNotFound then failE x else tryE (Mkdir owner (path_join walked seg)) (\<lambda>m.
               case m of Inl y \<Rightarrow> if y \<noteq> ErrConflict then failE y else mkdir_walk owner (path_join walked seg) segs
               | Inr _ \<Rightarrow> mkdir_walk owner (path_join walked seg) segs)) (\<lambda>_. holds N) (holds N)"
      using Cons.IH by (simp add: yields_fail)
  next
    fix x
    show "yields (holds N) (case Inl x of Inr existing \<Rightarrow> if f_is_dir existing then mkdir_walk owner (path_join walked seg) segs else failE ErrConflict
      | Inl x \<Rightarrow> if x \<noteq> ErrNotFound then failE x else tryE (Mkdir owner (path_join walked seg)) (\<lambda>m.
               case m of Inl y \<Rightarrow> if y \<noteq> ErrConflict then failE y else mkdir_walk owner (path_join walked seg) segs
               | Inr _ \<Rightarrow> mkdir_walk owner (path_join walked seg) segs)) (\<lambda>_. holds N) (holds N)"
      using Cons.IH by (auto intro!: yields_fail yields_try [OF Mkdir_holds])
  qed
qed

lemma MkdirAll_dirs_holds: "yields (holds N) (MkdirAll_dirs owner dir) (\<lambda>_. holds N) (holds N)"
  unfolding MkdirAll_dirs_def using mkdir_walk_holds by (auto intro!: yields_ret)

lemma Move_holds: "yields (holds N) (Move owner from to) (\<lambda>_. holds N) (holds N)"
  unfolding Move_def by (rule Tx_safe, rule accounts_bind [OF accounts_requireParent], rule accounts_MoveFile)

lemma rand_id_holds: "yields (holds N) rand_id (\<lambda>_. holds N) (holds N)"
  by (rule yields_conseq [OF rand_id_fresh]) auto

lemma Remove_holds: "yields (holds N) (Remove owner path) (\<lambda>_. holds N) (holds N)"
proof -
  have "yields (holds N) (Tx (bindE (removeTree depth_bound owner path) (\<lambda>rows.
         bindE clock (\<lambda>t. Trash batch rows t)))) (\<lambda>_. holds N) (holds N)" for batch
    by (rule Tx_safe, rule accounts_bind [OF accounts_removeTree], rule accounts_bind [OF accounts_clock], rule accounts_Trash)
  then show ?thesis unfolding Remove_def
    by (intro yields_bind [OF rand_id_holds])
qed

section \<open>Copies\<close>

lemma planCopy_holds:
  "yields (holds N) (planCopy n owner source to rec) (\<lambda>_. holds N) (holds N)"
  "yields (holds N) (planAll n owner to cs) (\<lambda>_. holds N) (holds N)"
proof (induction n owner source to rec and n owner to cs rule: planCopy_planAll.induct)
  case (2 n owner source to rec)
  have "yields (holds N) (bindE (query (ListFiles owner (f_path source))) (\<lambda>children.
           bindE (planAll n owner to children) (\<lambda>deeper. retE (\<lparr>cs_source = source, cs_path = to\<rparr> # deeper))))
       (\<lambda>_. holds N) (holds N)" if "\<not> (\<not> f_is_dir source \<or> \<not> rec)"
    by (rule yields_bind [OF look_safe [OF ListFiles_same]], rule yields_bind [OF "2"(1) [OF refl that]], rule yields_ret)
  then show ?case unfolding planCopy.simps Let_def by (auto intro!: yields_ret)
next
  case (4 n owner to child cs)
  show ?case unfolding planAll.simps
    by (rule yields_bind [OF "4"(1)], rule yields_bind [OF "4"(2)], rule yields_ret)
qed (simp_all only: planCopy.simps planAll.simps, (rule yields_fail yields_ret, assumption)+)

lemma holds_same: "holds N w \<Longrightarrow> env_step (w_env w) e' \<Longrightarrow> holds N (w\<lparr>w_env := e'\<rparr>)"
  by (rule safe_with_mono) (auto simp: safe_with_def)

lemma free_holds: "yields (holds N) (blob (port_free (svc_blobs S))) (\<lambda>_. holds N) (holds N)"
proof (rule yields_keeps, rule keepsI)
  fix w assume w: "holds N w"
  obtain r s' e' where "port_free (svc_blobs S) (w_blobs w, w_env w) = (r, s', e')" by (metis prod_cases3)
  with free_same [OF this] w show "holds N (snd (blob (port_free (svc_blobs S)) w))"
    by (simp add: blob_def holds_same)
qed

lemma get_holds: "yields (holds N) (blob (port_get (svc_blobs S) k g)) (\<lambda>_. holds N) (holds N)"
proof (rule yields_keeps, rule keepsI)
  fix w assume w: "holds N w"
  obtain r s' e' where g: "port_get (svc_blobs S) k g (w_blobs w, w_env w) = (r, s', e')" by (metis prod_cases3)
  have "s' = w_blobs w \<and> env_step (w_env w) e'"
  proof (cases r)
    case (Inl x)
    with get_err [OF holds_sound [OF w]] g show ?thesis by blast
  next
    case (Inr x)
    with get_ok [OF holds_sound [OF w]] g show ?thesis by (metis surj_pair)
  qed
  with g w show "holds N (snd (blob (port_get (svc_blobs S) k g) w))"
    by (simp add: blob_def holds_same)
qed

lemma OpenFile_holds: "yields (holds N) (OpenFile S f) (\<lambda>_. holds N) (holds N)"
  unfolding OpenFile_def
  by (auto intro!: yields_fail yields_ret yields_try [OF get_holds] split: sum.splits prod.splits)

lemma copyOne_holds: "yields (holds N) (copyOne S owner st) (\<lambda>f w. holds (N + row_ref f) w \<and> \<not> f_is_dir f) (holds N)"
  unfolding copyOne_def by (rule yields_bind [OF OpenFile_holds storeBlob_holds])

lemma discard_holds: "yields (holds (N + rows_refs rows)) (discard S rows) (\<lambda>_. holds N) (holds N)"
  unfolding discard_def
proof (induction rows)
  case Nil
  then show ?case unfolding foreach.simps by (rule yields_ret) simp
next
  case (Cons f fs)
  have "yields (holds (N + rows_refs (f # fs))) (if f_is_dir f then retE () else best_effort (blob (port_delete (svc_blobs S) (f_blob f))))
    (\<lambda>_. holds (N + rows_refs fs)) (holds N)"
  proof (cases "f_is_dir f")
    case True
    then show ?thesis by (simp only: if_True) (rule yields_ret, simp add: row_ref_def)
  next
    case False
    have "yields (holds (add_mset (f_blob f, f_size f) (N + rows_refs fs))) (best_effort (blob (port_delete (svc_blobs S) (f_blob f))))
      (\<lambda>_. holds (N + rows_refs fs)) (holds (N + rows_refs fs))"
      by (rule yields_best, rule delete_pending)
    with False show ?thesis
      by (simp only: if_False) (erule yields_conseq, auto simp: row_ref_def intro: safe_with_less)
  qed
  from yields_bind [OF this Cons] show ?case unfolding foreach.simps .
qed

lemma writeCopies_holds:
  "yields (holds (N + rows_refs rows)) (writeCopies S owner rows plan) (\<lambda>out. holds (N + rows_refs out)) (holds N)"
proof (induction plan arbitrary: rows)
  case Nil
  then show ?case unfolding writeCopies.simps by (rule yields_ret)
next
  case (Cons st plan)
  show ?case
  proof (cases "f_is_dir (cs_source st)")
    case True
    with Cons.IH [of "rows @ [no_file\<lparr>f_owner := owner, f_path := cs_path st, f_is_dir := True\<rparr>]"] show ?thesis
      by (simp add: row_ref_def)
  next
    case False
    have "yields (holds (N + rows_refs rows)) (tryE (copyOne S owner st) (\<lambda>r. case r of
             Inl x \<Rightarrow> bindE (discard S rows) (\<lambda>_. failE x)
           | Inr row \<Rightarrow> writeCopies S owner (rows @ [row]) plan)) (\<lambda>out. holds (N + rows_refs out)) (holds N)"
    proof (rule yields_try [OF copyOne_holds])
      fix f
      show "yields (\<lambda>w. holds (N + rows_refs rows + row_ref f) w \<and> \<not> f_is_dir f)
         (case Inr f of Inl x \<Rightarrow> bindE (discard S rows) (\<lambda>_. failE x) | Inr row \<Rightarrow> writeCopies S owner (rows @ [row]) plan)
         (\<lambda>out. holds (N + rows_refs out)) (holds N)"
        unfolding sum.case by (rule yields_conseq [OF Cons.IH]) (simp_all add: algebra_simps)
    next
      fix x
      show "yields (holds (N + rows_refs rows))
         (case Inl x of Inl x \<Rightarrow> bindE (discard S rows) (\<lambda>_. failE x) | Inr row \<Rightarrow> writeCopies S owner (rows @ [row]) plan)
         (\<lambda>out. holds (N + rows_refs out)) (holds N)"
        unfolding sum.case by (rule yields_bind [OF discard_holds]) (rule yields_fail)
    qed
    with False show ?thesis by simp
  qed
qed

lemma drop_all_holds:
  "yields (\<lambda>w. \<exists>M. keys_of M = mset ks \<and> holds (N + M) w) (foreach (dropBlob S) ks) (\<lambda>_. holds N) (holds N)"
proof (induction ks)
  case Nil
  then show ?case unfolding foreach.simps by (rule yields_ret) (auto simp: keys_of_def)
next
  case (Cons k ks)
  have "yields (\<lambda>w. \<exists>M. keys_of M = mset (k # ks) \<and> holds (N + M) w) (dropBlob S k)
     (\<lambda>_ w. \<exists>M. keys_of M = mset ks \<and> holds (N + M) w) (holds N)"
  proof (rule yields_ex, rule yields_given2)
    fix M assume "keys_of M = mset (k # ks)"
    then obtain x M' where M: "M = add_mset x M'" "fst x = k" "keys_of M' = mset ks"
      unfolding keys_of_def by (metis mset.simps(2) msed_map_invR)
    obtain n where x: "x = (k, n)" using M(2) by (cases x) auto
    show "yields (holds (N + M)) (dropBlob S k) (\<lambda>_ w. \<exists>M. keys_of M = mset ks \<and> holds (N + M) w) (holds N)"
      by (rule yields_conseq [OF dropBlob_safe [of k n "N + M'"]]) (use M(3) in \<open>auto simp: M(1) x intro: safe_with_less\<close>)
  qed
  from yields_bind [OF this Cons] show ?case unfolding foreach.simps .
qed

lemma told_holds: "yields (holds N) (foreach (\<lambda>f. if f_is_dir f then retE () else written f) fs) (\<lambda>_. holds N) (holds N)"
  by (rule yields_foreach) (auto intro: written_holds yields_ret)

lemma roomFor_holds: "yields (holds N) (roomFor S plan) (\<lambda>_. holds N) (holds N)"
  unfolding roomFor_def Let_def by (rule yields_bind [OF free_holds]) (auto intro!: yields_fail yields_ret)

lemma commit_holds:
  "yields (holds (rows_refs rows)) (tryE (commitCopies owner to rows) (\<lambda>committed.
     case committed of
       Inl x \<Rightarrow> bindE (discard S rows) (\<lambda>_. failE x)
     | Inr (orphaned, stored) \<Rightarrow>
         bindE (foreach (dropBlob S) orphaned) (\<lambda>_.
         bindE (foreach (\<lambda>f. if f_is_dir f then retE () else written f) stored) (\<lambda>_.
         retE created)))) (\<lambda>_. holds {#}) (holds {#})"
  unfolding commitCopies_def
proof (rule yields_try [OF Tx_grants [OF commitCopies_grants]])
  fix x :: "bytes list \<times> db_file list"
  obtain ks stored where x: "x = (ks, stored)" by fastforce
  have "yields (\<lambda>w. \<exists>M. keys_of M = mset ks \<and> holds ({#} + M) w) (bindE (foreach (dropBlob S) ks) (\<lambda>_.
         bindE (foreach (\<lambda>f. if f_is_dir f then retE () else written f) stored) (\<lambda>_. retE created)))
       (\<lambda>_. holds {#}) (holds {#})"
    by (rule yields_bind [OF drop_all_holds], rule yields_bind [OF told_holds], rule yields_ret)
  then show "yields (\<lambda>w. \<exists>M. (case x of (orphaned, stored) \<Rightarrow> \<lambda>M. keys_of M = mset orphaned) M \<and> holds M w)
     (case Inr x of Inl x \<Rightarrow> bindE (discard S rows) (\<lambda>_. failE x)
     | Inr (orphaned, stored) \<Rightarrow>
         bindE (foreach (dropBlob S) orphaned) (\<lambda>_.
         bindE (foreach (\<lambda>f. if f_is_dir f then retE () else written f) stored) (\<lambda>_. retE created)))
     (\<lambda>_. holds {#}) (holds {#})"
    by (simp add: x)
next
  fix x
  show "yields (holds (rows_refs rows))
     (case Inl x of Inl x \<Rightarrow> bindE (discard S rows) (\<lambda>_. failE x)
     | Inr (orphaned, stored) \<Rightarrow>
         bindE (foreach (dropBlob S) orphaned) (\<lambda>_.
         bindE (foreach (\<lambda>f. if f_is_dir f then retE () else written f) stored) (\<lambda>_. retE created)))
     (\<lambda>_. holds {#}) (holds {#})"
    unfolding sum.case using discard_holds [of "{#}" rows]
    by (intro yields_bind [of _ "discard S rows" "\<lambda>_. holds {#}"]) (auto intro: yields_fail)
qed

lemma Copy_holds: "yields (holds {#}) (Copy S owner from to rec) (\<lambda>_. holds {#}) (holds {#})"
proof -
  have rest: "yields (holds {#}) (bindE (planCopy depth_bound owner source to rec) (\<lambda>plan.
     bindE (roomFor S plan) (\<lambda>_.
     bindE (writeCopies S owner [] plan) (\<lambda>rows.
     tryE (commitCopies owner to rows) (\<lambda>committed.
     case committed of
       Inl x \<Rightarrow> bindE (discard S rows) (\<lambda>_. failE x)
     | Inr (orphaned, stored) \<Rightarrow>
         bindE (foreach (dropBlob S) orphaned) (\<lambda>_.
         bindE (foreach (\<lambda>f. if f_is_dir f then retE () else written f) stored) (\<lambda>_.
         retE created))))))) (\<lambda>_. holds {#}) (holds {#})" for source created
    using writeCopies_holds [of "{#}" "[]"] commit_holds
    by (intro yields_bind [OF planCopy_holds(1)] yields_bind [OF roomFor_holds]
        yields_bind [of _ "writeCopies _ _ _ _" "\<lambda>rows. holds (rows_refs rows)"]) auto
  have created: "yields (holds {#}) (case st of Inr _ \<Rightarrow> retE False | Inl x \<Rightarrow> if x = ErrNotFound then retE True else failE x)
     (\<lambda>_. holds {#}) (holds {#})" for st :: "error + db_file"
    by (cases st) (auto intro!: yields_ret yields_fail)
  show ?thesis unfolding Copy_def
    by (rule yields_check, rule yields_bind [OF look_safe [OF FileByPath_same]],
        rule yields_try [OF look_safe [OF FileByPath_same]]) (rule yields_bind [OF created rest])+
qed
end

end
