(* ===== verification/FilesTrash.thy ===== *)
theory FilesTrash
  imports FilesService "HOL-Library.AList"
begin

text \<open>
  \<^verbatim>\<open>internal/files/trash.go\<close> and \<^verbatim>\<open>adopt.go\<close>: destroying a deletion for good, putting
  one back, and filing rows for blobs that are already there.
\<close>

section \<open>Emptying\<close>

fun destroy_blobs :: "'s service \<Rightarrow> int \<Rightarrow> int \<Rightarrow> trashed list \<Rightarrow> 's world \<Rightarrow> (int \<times> int \<times> error option) \<times> 's world" where
  "destroy_blobs S n b [] w = ((n, b, None), w)"
| "destroy_blobs S n b (t # ts) w =
     (if f_is_dir t then destroy_blobs S n b ts w
      else case dropBlob S (f_blob t) w of
        (Inl x, w') \<Rightarrow> ((n, b, Some x), w')
      | (Inr _, w') \<Rightarrow> destroy_blobs S (n + 1) (wrap64 (b + f_size t)) ts w')"

definition take_batch :: "bytes \<Rightarrow> bytes \<Rightarrow> ('s, trashed list) act" where
  "take_batch owner batch =
     Tx (bindE (query (TrashedIn owner batch)) (\<lambda>rows.
         bindE (query (DeleteTrash owner batch)) (\<lambda>_. retE rows)))"

text \<open>How many files and bytes went, and the error that stopped it, if one did.\<close>

definition DestroyTrashed :: "'s service \<Rightarrow> bytes \<Rightarrow> bytes \<Rightarrow> 's world \<Rightarrow> (int \<times> int \<times> error option) \<times> 's world" where
  "DestroyTrashed S owner batch w =
     (case take_batch owner batch w of
        (Inl x, w1) \<Rightarrow> ((0, 0, Some x), w1)
      | (Inr rows, w1) \<Rightarrow> destroy_blobs S 0 0 rows w1)"

record emptied =
  em_batches :: int
  em_files :: int
  em_bytes :: int

fun empty_batches :: "'s service \<Rightarrow> emptied \<Rightarrow> (bytes \<times> bytes) list \<Rightarrow> 's world \<Rightarrow> (emptied \<times> error option) \<times> 's world" where
  "empty_batches S em [] w = ((em, None), w)"
| "empty_batches S em ((batch, owner) # bs) w =
     (case DestroyTrashed S owner batch w of
        ((n, b, err), w') \<Rightarrow>
          (let em' = em\<lparr>em_batches := em_batches em + 1, em_files := em_files em + n,
                        em_bytes := wrap64 (em_bytes em + b)\<rparr>
           in case err of Some x \<Rightarrow> ((em', Some x), w') | None \<Rightarrow> empty_batches S em' bs w'))"

text \<open>
  The batches come out of a Go map, in an order of their own: \<open>order\<close> is that order.  A batch
  is kept once, with the owner of its last row.
\<close>

definition batch_owners :: "trashed list \<Rightarrow> (bytes \<times> bytes) list" where
  "batch_owners ts = foldl (\<lambda>m t. AList.update (t_batch t) (f_owner t) m) [] ts"

definition EmptyTrash ::
  "'s service \<Rightarrow> ((bytes \<times> bytes) list \<Rightarrow> (bytes \<times> bytes) list) \<Rightarrow> int \<Rightarrow> 's world \<Rightarrow> (emptied \<times> error option) \<times> 's world" where
  "EmptyTrash S order before w =
     (case query (ExpiredTrash before) w of
        (Inl x, w1) \<Rightarrow> ((\<lparr>em_batches = 0, em_files = 0, em_bytes = 0\<rparr>, Some x), w1)
      | (Inr ts, w1) \<Rightarrow>
          empty_batches S \<lparr>em_batches = 0, em_files = 0, em_bytes = 0\<rparr> (order (batch_owners ts)) w1)"

section \<open>Putting a deletion back\<close>

function restoreParents :: "bytes \<Rightarrow> bytes \<Rightarrow> ('s, unit) act" where
  "restoreParents owner target =
     (let parent = ParentOf target in
      if parent = [] then retE ()
      else tryE (query (FileByPath owner parent)) (\<lambda>r.
           case r of
             Inr f \<Rightarrow> if f_is_dir f then retE () else failE ErrConflict
           | Inl x \<Rightarrow>
               if x \<noteq> ErrNotFound then failE x
               else bindE (restoreParents owner parent) (\<lambda>_.
                    bindE clock (\<lambda>t.
                    bindE (query (CreateDir owner parent t)) (\<lambda>_. retE ())))))"
  by pat_completeness auto
termination
proof (relation "measure (\<lambda>(owner, target). length target)", simp)
  fix target parent :: bytes and owner :: bytes
  assume "parent = ParentOf target" "parent \<noteq> []"
  then have "target \<noteq> []" by (auto simp: ParentOf_def)
  with \<open>parent = ParentOf target\<close> show "((owner, parent), owner, target) \<in> measure (\<lambda>(owner, target). length target)"
    using ParentOf_shorter by simp
qed

declare restoreParents.simps [simp del]

definition restored_row :: "bytes \<Rightarrow> bytes \<Rightarrow> trashed \<Rightarrow> db_file" where
  "restored_row from to t =
     (db_file.truncate t)\<lparr>f_id := 0, f_path := to @ trim_prefix (f_path t) from\<rparr>"

fun restoreRows :: "bytes \<Rightarrow> bytes \<Rightarrow> bytes \<Rightarrow> trashed list \<Rightarrow> ('s, db_file list) act" where
  "restoreRows owner from to [] = retE []"
| "restoreRows owner from to (t # ts) =
     (let row = restored_row from to t in
      if f_is_dir row
      then bindE clock (\<lambda>at.
           bindE (query (CreateDir owner (f_path row) at)) (\<lambda>_. restoreRows owner from to ts))
      else bindE (query (PutFile row)) (\<lambda>stored.
           bindE (restoreRows owner from to ts) (\<lambda>rest. retE (stored # rest))))"

definition Restore :: "bytes \<Rightarrow> bytes \<Rightarrow> ('s, db_file) act" where
  "Restore owner batch =
     (if owner = [] then failE ErrConflict
      else bindE (Tx (bindE (query (TrashedIn owner batch)) (\<lambda>rows.
             case rows of [] \<Rightarrow> failE ErrNotFound
             | t # _ \<Rightarrow>
                 (let from = f_path t in
                  bindE (freeName (\<lambda>p. query (FileByPath owner p)) from) (\<lambda>to.
                  bindE (restoreParents owner to) (\<lambda>_.
                  bindE (restoreRows owner from to rows) (\<lambda>restored.
                  bindE (query (FileByPath owner to)) (\<lambda>root.
                  bindE (query (DeleteTrash owner batch)) (\<lambda>_.
                  retE (root, restored)))))))))) (\<lambda>(root, restored).
           bindE (foreach written restored) (\<lambda>_. retE root)))"

section \<open>Adopting\<close>

fun adoptRows :: "bytes \<Rightarrow> int \<Rightarrow> int \<Rightarrow> db_file list \<Rightarrow> ('s, int \<times> int) act" where
  "adoptRows owner adopted skipped [] = retE (adopted, skipped)"
| "adoptRows owner adopted skipped (f0 # fs) =
     bindE (liftE (ValidatePath (f_path f0))) (\<lambda>_.
     let f = f0\<lparr>f_owner := owner\<rparr> in
     tryE (query (FileByPath owner (f_path f))) (\<lambda>r.
     case r of
       Inr _ \<Rightarrow> adoptRows owner adopted (skipped + 1) fs
     | Inl x \<Rightarrow>
         if x \<noteq> ErrNotFound then failE x
         else bindE (restoreParents owner (f_path f)) (\<lambda>_.
              bindE (if f_is_dir f
                     then bindE clock (\<lambda>t. query (CreateDir owner (f_path f) t))
                     else query (PutFile f)) (\<lambda>_.
              adoptRows owner (adopted + 1) skipped fs))))"

definition Adopt :: "bytes \<Rightarrow> db_file list \<Rightarrow> ('s, int \<times> int) act" where
  "Adopt owner rows =
     (if owner = [] then failE ErrConflict else Tx (adoptRows owner 0 0 rows))"

end
