(* ===== verification/SoundTrash.thy ===== *)
theory SoundTrash
  imports SoundFiles FilesTrash
begin

text \<open>
  The invariant of theory \<open>Sound\<close> under the operations of \<^verbatim>\<open>trash.go\<close> and \<^verbatim>\<open>adopt.go\<close>:
  destroying deletions, putting one back and adopting rows.
\<close>

text \<open>
  The shape \<open>DestroyTrashed\<close> and \<open>Restore\<close> share: the rows of a deletion are read, something
  is done with them that leaves the trash alone, and they go.
\<close>

lemma trash_cycle:
  fixes m :: "trashed list \<Rightarrow> ('s, 'a) act"
  assumes m: "\<And>rows. accounts (rows_refs rows) (m rows) K"
    and trash: "\<And>rows T. keeps (\<lambda>w. trash (w_db w) = T) (m rows)"
  shows "grants {#} (bindE (query (TrashedIn owner batch)) (\<lambda>rows.
         bindE (m rows) (\<lambda>x. bindE (query (DeleteTrash owner batch)) (\<lambda>_. retE x)))) (\<lambda>x M. M = K x)"
  unfolding grants_def
proof (intro allI impI)
  fix w w' :: "'s world" and r
  assume u: "uniq (w_db w)" and run: "bindE (query (TrashedIn owner batch)) (\<lambda>rows.
         bindE (m rows) (\<lambda>x. bindE (query (DeleteTrash owner batch)) (\<lambda>_. retE x))) w = (r, w')"
  show "w_blobs w' = w_blobs w \<and> env_step (w_env w) (w_env w') \<and> w_told w' = w_told w
     \<and> (case r of Inl _ \<Rightarrow> True
        | Inr x \<Rightarrow> uniq (w_db w') \<and> set (uploads (w_db w')) \<subseteq> set (uploads (w_db w))
            \<and> (\<exists>M. M = K x \<and> refs (w_db w') + M \<subseteq># refs (w_db w) + {#}))"
    using run
  proof (cases rule: bindE_cases)
    case (1 e)
    with shrinks_look [OF TrashedIn_same 1(1) u] show ?thesis by auto
  next
    case (2 rows w1)
    note l = shrinks_look [OF TrashedIn_same 2(1) u]
    from 2(1) have rows: "TrashedIn owner batch (w_db w) = (Inr rows, w_db w)"
      by (cases rule: query_cases) (auto simp: TrashedIn_def)
    from 2(2) show ?thesis
    proof (cases rule: bindE_cases)
      case (1 e)
      with accountsD [OF m _ 1(1)] l u show ?thesis by (auto intro: env_step_trans)
    next
      case (2 x w2)
      note a = accountsD [OF m _ 2(1)]
      from keepsD [OF trash refl 2(1)] l have t: "trash (w_db w2) = trash (w_db w)" by simp
      from 2(2) show ?thesis
      proof (cases rule: bindE_cases)
        case (1 e)
        from 1(1) have "w_blobs w' = w_blobs w2 \<and> env_step (w_env w2) (w_env w') \<and> w_told w' = w_told w2"
          by (cases rule: query_cases) auto
        with a l u 1(2) show ?thesis by (auto intro: env_step_trans)
      next
        case (2 y w3)
        from 2(1) have d: "w_blobs w3 = w_blobs w2 \<and> env_step (w_env w2) (w_env w3) \<and> w_told w3 = w_told w2"
          "DeleteTrash owner batch (w_db w2) = (Inr y, w_db w3)"
          by (cases rule: query_cases, auto simp: DeleteTrash_def)+
        from rows t have "TrashedIn owner batch (w_db w2) = (Inr rows, w_db w2)" by (simp add: TrashedIn_def)
        from DeleteTrash_account [OF this d(2)]
        have "uniq (w_db w3) = uniq (w_db w2)" "uploads (w_db w3) = uploads (w_db w2)"
          "refs (w_db w2) = refs (w_db w3) + rows_refs rows" by auto
        moreover from this a l u have "refs (w_db w3) + rows_refs rows + K x \<subseteq># refs (w_db w) + rows_refs rows" by simp
        then have "refs (w_db w3) + K x \<subseteq># refs (w_db w)"
          by (metis (no_types, lifting) add.assoc add.commute subset_mset.add_le_cancel_right)
        ultimately show ?thesis using 2(2) a d(1) l u by (auto intro: env_step_trans)
      qed
    qed
  qed
qed

lemma take_batch_grants:
  "grants {#} (bindE (query (TrashedIn owner batch)) (\<lambda>rows.
         bindE (query (DeleteTrash owner batch)) (\<lambda>_. retE rows))) (\<lambda>rows M. M = rows_refs rows)"
  using trash_cycle [of retE rows_refs owner batch] unfolding bindE_ret by (simp add: accounts_ret keeps_ret)

lemma accounts_try_names: "accounts N (try_names (\<lambda>p. query (FileByPath owner p)) target ns) (\<lambda>_. N)"
proof (induction ns)
  case Nil
  then show ?case unfolding try_names.simps by (rule accounts_fail)
next
  case (Cons n ns)
  show ?case unfolding try_names.simps Let_def
    by (rule accounts_bind [OF accounts_check], rule accounts_try [OF accounts_look [OF FileByPath_same]])
      (auto intro!: Cons accounts_ret accounts_fail dest: query_look_same [OF FileByPath_same])
qed

lemma accounts_restoreParents: "accounts N (restoreParents owner target :: ('s, unit) act) (\<lambda>_. N)"
proof (induction owner target rule: restoreParents.induct)
  case (1 owner target)
  show ?case
  proof (cases "ParentOf target = []")
    case True
    then show ?thesis by (subst restoreParents.simps) (simp add: accounts_ret)
  next
    case False
    have IH: "accounts N (restoreParents owner (ParentOf target) :: ('s, unit) act) (\<lambda>_. N)"
      by (rule "1.IH" [OF refl False]) simp_all
    show ?thesis
      apply (subst restoreParents.simps)
      apply (simp only: Let_def False if_False)
      apply (rule accounts_try [OF accounts_look [OF FileByPath_same]])
      by (auto intro!: accounts_fail accounts_ret accounts_bind [OF IH] accounts_bind [OF accounts_clock]
          accounts_bind [OF accounts_CreateDir] dest: query_look_same [OF FileByPath_same])
  qed
qed

lemma row_ref_restored: "row_ref (restored_row from to t) = row_ref t"
  by (simp add: row_ref_def restored_row_def db_file.truncate_def)

lemma accounts_restoreRows: "accounts (N + rows_refs ts) (restoreRows owner from to ts :: ('s, db_file list) act) (\<lambda>_. N)"
proof (induction ts)
  case Nil
  then show ?case unfolding restoreRows.simps by (rule accounts_ret) simp
next
  case (Cons t ts)
  let ?row = "restored_row from to t"
  show ?case
  proof (cases "f_is_dir ?row")
    case True
    then have "row_ref t = {#}" using row_ref_restored [of "from" to t] by (simp add: row_ref_def)
    with True show ?thesis unfolding restoreRows.simps Let_def
      by (auto intro!: Cons accounts_bind [OF accounts_clock] accounts_bind [OF accounts_CreateDir])
  next
    case False
    have "accounts (N + rows_refs (t # ts)) (query (PutFile ?row) :: ('s, db_file) act) (\<lambda>_. N + rows_refs ts)"
      using accounts_PutFile [OF False, of "N + rows_refs ts"] by (simp add: row_ref_restored algebra_simps)
    then have "accounts (N + rows_refs (t # ts)) (bindE (query (PutFile ?row)) (\<lambda>stored.
        bindE (restoreRows owner from to ts) (\<lambda>rest. retE (stored # rest))) :: ('s, db_file list) act) (\<lambda>_. N)"
      by (rule accounts_bind) (intro accounts_bind [OF Cons] accounts_ret, simp)
    with False show ?thesis by (simp add: Let_def)
  qed
qed

lemma accounts_adoptRows: "accounts (N + rows_refs fs) (adoptRows owner a s fs :: ('s, int \<times> int) act) (\<lambda>_. N)"
proof (induction fs arbitrary: a s)
  case Nil
  then show ?case unfolding adoptRows.simps by (rule accounts_ret) simp
next
  case (Cons f0 fs)
  let ?f = "f0\<lparr>f_owner := owner\<rparr>"
  have less: "accounts (N + rows_refs (f0 # fs)) (adoptRows owner a s fs :: ('s, int \<times> int) act) (\<lambda>_. N)" for a s
    by (rule accounts_more [OF Cons]) simp
  have put: "accounts (N + rows_refs (f0 # fs)) (if f_is_dir ?f
       then bindE clock (\<lambda>t. query (CreateDir owner (f_path ?f) t)) else query (PutFile ?f) :: ('s, db_file) act) (\<lambda>_. N + rows_refs fs)"
  proof (cases "f_is_dir ?f")
    case True
    then show ?thesis
      by (simp only: if_True) (rule accounts_bind [OF accounts_clock], rule accounts_more [OF accounts_CreateDir], simp)
  next
    case False
    from accounts_PutFile [OF False, of "N + rows_refs fs"] False show ?thesis by (simp add: algebra_simps row_ref_def)
  qed
  show ?case unfolding adoptRows.simps Let_def
  proof (rule accounts_bind [OF accounts_lifted], rule accounts_try [OF accounts_look [OF FileByPath_same]])
    fix x
    show "accounts (N + rows_refs (f0 # fs)) ((case Inr x of Inr _ \<Rightarrow> adoptRows owner a (s + 1) fs
       | Inl x \<Rightarrow> if x \<noteq> ErrNotFound then failE x else bindE (restoreParents owner (f_path ?f)) (\<lambda>_.
          bindE (if f_is_dir ?f then bindE clock (\<lambda>t. query (CreateDir owner (f_path ?f) t)) else query (PutFile ?f)) (\<lambda>_.
          adoptRows owner (a + 1) s fs))) :: ('s, int \<times> int) act) (\<lambda>_. N)"
      unfolding sum.case by (rule less)
  next
    fix x
    have "accounts (N + rows_refs (f0 # fs)) (bindE (restoreParents owner (f_path ?f)) (\<lambda>_.
          bindE (if f_is_dir ?f then bindE clock (\<lambda>t. query (CreateDir owner (f_path ?f) t)) else query (PutFile ?f)) (\<lambda>_.
          adoptRows owner (a + 1) s fs)) :: ('s, int \<times> int) act) (\<lambda>_. N)"
      by (rule accounts_bind [OF accounts_restoreParents], rule accounts_bind [OF put], rule Cons)
    then show "accounts (N + rows_refs (f0 # fs)) ((case Inl x of Inr _ \<Rightarrow> adoptRows owner a (s + 1) fs
       | Inl x \<Rightarrow> if x \<noteq> ErrNotFound then failE x else bindE (restoreParents owner (f_path ?f)) (\<lambda>_.
          bindE (if f_is_dir ?f then bindE clock (\<lambda>t. query (CreateDir owner (f_path ?f) t)) else query (PutFile ?f)) (\<lambda>_.
          adoptRows owner (a + 1) s fs))) :: ('s, int \<times> int) act) (\<lambda>_. N)"
      unfolding sum.case by (rule accounts_if [OF accounts_fail])
  qed (auto dest: query_look_same [OF FileByPath_same])
qed

text \<open>None of this touches the trash.\<close>

lemma PutFile_trash: "trash (snd (PutFile f d)) = trash d"
  by (simp add: PutFile_def Let_def split: sum.splits option.splits)

lemma CreateDir_trash: "trash (snd (CreateDir owner p t d)) = trash d"
  by (simp add: CreateDir_def Let_def split: sum.splits option.splits)

lemma keeps_trash_query: "(\<And>d. trash (snd (q d)) = trash d) \<Longrightarrow> keeps (\<lambda>w. trash (w_db w) = T) (query q)"
  by (rule keeps_query [of "\<lambda>d. trash d = T"]) simp

lemma keeps_trash_look: "(\<And>d. snd (q d) = d) \<Longrightarrow> keeps (\<lambda>w. trash (w_db w) = T) (query q)"
  by (rule keeps_trash_query) simp

lemma keeps_clock: "keeps P clock"
  by (simp add: keeps_def clock_def)

lemma keeps_check_db: "keeps (\<lambda>w. I (w_db w)) check"
  by (rule keepsI) (auto simp: check_def split: prod.splits option.splits)

lemmas keeps_trash = keeps_trash_look [OF FileByPath_same] keeps_trash_query [OF PutFile_trash]
  keeps_trash_query [OF CreateDir_trash] keeps_clock keeps_check_db [of "\<lambda>d. trash d = _"]

lemma keeps_trash_names: "keeps (\<lambda>w. trash (w_db w) = T) (try_names (\<lambda>p. query (FileByPath owner p)) target ns)"
  by (induction ns) (auto simp only: try_names.simps Let_def split: sum.splits if_splits
      intro!: keeps_bind keeps_try keeps_fail keeps_ret keeps_trash)

lemma keeps_trash_parents: "keeps (\<lambda>w. trash (w_db w) = T) (restoreParents owner target :: ('s, unit) act)"
proof (induction owner target rule: restoreParents.induct)
  case (1 owner target)
  show ?case
  proof (cases "ParentOf target = []")
    case True
    then show ?thesis by (subst restoreParents.simps) (simp add: keeps_ret)
  next
    case False
    have IH: "keeps (\<lambda>w. trash (w_db w) = T) (restoreParents owner (ParentOf target) :: ('s, unit) act)"
      by (rule "1.IH" [OF refl False]) simp_all
    show ?thesis
      by (subst restoreParents.simps) (auto simp only: Let_def split: sum.splits if_splits
        intro!: keeps_if keeps_bind keeps_try keeps_fail keeps_ret keeps_trash IH)
  qed
qed

lemma keeps_trash_rows: "keeps (\<lambda>w. trash (w_db w) = T) (restoreRows owner from to ts)"
  by (induction ts) (auto simp only: restoreRows.simps Let_def
      intro!: keeps_if keeps_bind keeps_fail keeps_ret keeps_trash)


lemma Restore_grants:
  "grants {#} (bindE (query (TrashedIn owner batch)) (\<lambda>rows.
             case rows of [] \<Rightarrow> failE ErrNotFound
             | t # _ \<Rightarrow>
                 (let from = f_path t in
                  bindE (freeName (\<lambda>p. query (FileByPath owner p)) from) (\<lambda>to.
                  bindE (restoreParents owner to) (\<lambda>_.
                  bindE (restoreRows owner from to rows) (\<lambda>restored.
                  bindE (query (FileByPath owner to)) (\<lambda>root.
                  bindE (query (DeleteTrash owner batch)) (\<lambda>_.
                  retE (root, restored)))))))) :: ('s, db_file \<times> db_file list) act) (\<lambda>_ M. M = {#})"
proof -
  let ?m = "\<lambda>rows. (case rows of [] \<Rightarrow> failE ErrNotFound
             | t # _ \<Rightarrow>
                  bindE (freeName (\<lambda>p. query (FileByPath owner p)) (f_path t)) (\<lambda>to.
                  bindE (restoreParents owner to) (\<lambda>_.
                  bindE (restoreRows owner (f_path t) to rows) (\<lambda>restored.
                  bindE (query (FileByPath owner to)) (\<lambda>root.
                  retE (root, restored)))))) :: ('s, db_file \<times> db_file list) act"
  have "accounts (rows_refs rows) (?m rows) (\<lambda>_. {#})" for rows :: "trashed list"
  proof (cases rows)
    case (Cons t ts)
    have r: "accounts (rows_refs rows) (restoreRows owner (f_path t) to rows) (\<lambda>_. {#})" for to
      using accounts_restoreRows [of "{#}" rows] by simp
    show ?thesis unfolding Cons list.case freeName_def
      by (fold Cons, rule accounts_bind [OF accounts_try_names], rule accounts_bind [OF accounts_restoreParents],
          rule accounts_bind [OF r], rule accounts_bind [OF accounts_look [OF FileByPath_same]], rule accounts_ret, simp)
  qed (simp add: accounts_fail)
  moreover have "keeps (\<lambda>w. trash (w_db w) = T) (?m rows)" for rows :: "trashed list" and T
    unfolding freeName_def
    by (cases rows) (auto simp only: list.case intro!: keeps_fail keeps_bind keeps_ret keeps_trash
        keeps_trash_names keeps_trash_parents keeps_trash_rows)
  ultimately have "grants {#} (bindE (query (TrashedIn owner batch)) (\<lambda>rows.
         bindE (?m rows) (\<lambda>x. bindE (query (DeleteTrash owner batch)) (\<lambda>_. retE x)))) (\<lambda>_ M. M = {#})"
    by (rule trash_cycle)
  moreover have "bindE (?m rows) (\<lambda>x. bindE (query (DeleteTrash owner batch)) (\<lambda>_. retE x)) =
     (case rows of [] \<Rightarrow> failE ErrNotFound | t # _ \<Rightarrow>
                 (let from = f_path t in
                  bindE (freeName (\<lambda>p. query (FileByPath owner p)) from) (\<lambda>to.
                  bindE (restoreParents owner to) (\<lambda>_.
                  bindE (restoreRows owner from to rows) (\<lambda>restored.
                  bindE (query (FileByPath owner to)) (\<lambda>root.
                  bindE (query (DeleteTrash owner batch)) (\<lambda>_.
                  retE (root, restored))))))))" for rows :: "trashed list"
    by (cases rows) (simp_all only: list.case Let_def bindE_assoc bindE_ret, rule ext, simp add: bindE_def)
  ultimately show ?thesis by (simp only:)
qed

context files_service
begin

lemma destroy_blobs_holds:
  "holds (N + rows_refs ts) w \<Longrightarrow> destroy_blobs S n b ts w = (r, w') \<Longrightarrow> holds N w'"
proof (induction ts arbitrary: n b w)
  case (Cons t ts)
  show ?case
  proof (cases "f_is_dir t")
    case True
    with Cons show ?thesis by (auto simp: row_ref_def)
  next
    case False
    note D = dropBlob_safe [of "f_blob t" "f_size t" "N + rows_refs ts"]
    from False Cons.prems(1) have pre: "holds (add_mset (f_blob t, f_size t) (N + rows_refs ts)) w" by (simp add: row_ref_def)
    obtain x w1 where x: "dropBlob S (f_blob t) w = (x, w1)" by fastforce
    show ?thesis
    proof (cases x)
      case (Inl e)
      with Cons.prems(2) x False have "w' = w1" by auto
      with yieldsD_err [OF D pre] x Inl show ?thesis by (auto intro: safe_with_less)
    next
      case (Inr u)
      with Cons.prems(2) x False have "destroy_blobs S (n + 1) (wrap64 (b + f_size t)) ts w1 = (r, w')" by auto
      with Cons.IH yieldsD_ok [OF D pre] x Inr show ?thesis by blast
    qed
  qed
qed simp

lemma DestroyTrashed_holds:
  assumes "holds {#} w" "DestroyTrashed S owner batch w = (r, w')"
  shows "holds {#} w'"
proof -
  note T = Tx_grants [OF take_batch_grants [of owner batch], folded take_batch_def]
  obtain x w1 where x: "take_batch owner batch w = (x, w1)" by fastforce
  show ?thesis
  proof (cases x)
    case (Inl e)
    with assms(2) x yieldsD_err [OF T assms(1)] show ?thesis by (auto simp: DestroyTrashed_def)
  next
    case (Inr rows)
    with x yieldsD_ok [OF T assms(1)] have "holds ({#} + rows_refs rows) w1" by auto
    moreover from assms(2) x Inr have "destroy_blobs S 0 0 rows w1 = (r, w')" by (simp add: DestroyTrashed_def)
    ultimately show ?thesis by (rule destroy_blobs_holds)
  qed
qed

lemma empty_batches_holds:
  "holds {#} w \<Longrightarrow> empty_batches S em bs w = (r, w') \<Longrightarrow> holds {#} w'"
proof (induction bs arbitrary: em w)
  case (Cons x bs)
  obtain batch owner where x: "x = (batch, owner)" by fastforce
  obtain n b err w1 where d: "DestroyTrashed S owner batch w = ((n, b, err), w1)" by (cases "DestroyTrashed S owner batch w") auto
  from DestroyTrashed_holds [OF Cons.prems(1) d] Cons d x show ?case
    by (auto simp: Let_def split: option.splits)
qed simp

lemma EmptyTrash_holds:
  assumes "holds {#} w" "EmptyTrash S order before w = (r, w')"
  shows "holds {#} w'"
proof -
  obtain x w1 where x: "query (ExpiredTrash before) w = (x, w1)" by fastforce
  have "holds {#} w1"
    using look_safe [OF ExpiredTrash_same [of before], of sound objs ups "{#}"] assms(1) x
    by (cases x) (auto dest: yieldsD_ok yieldsD_err)
  with assms(2) x empty_batches_holds show ?thesis
    by (cases x) (auto simp: EmptyTrash_def)
qed

lemma Restore_holds: "yields (holds {#}) (Restore owner batch) (\<lambda>_. holds {#}) (holds {#})"
proof (cases "owner = []")
  case True
  then show ?thesis unfolding Restore_def by (simp only: simp_thms if_True) (rule yields_fail)
next
  case False
  have told: "yields (holds {#}) (case x of (root, restored) \<Rightarrow> bindE (foreach written restored) (\<lambda>_. retE root)) (\<lambda>_. holds {#}) (holds {#})"
    for x :: "db_file \<times> db_file list"
    unfolding prod.case_eq_if by (rule yields_bind [OF yields_foreach [OF written_holds]]) (rule yields_ret)
  from False show ?thesis unfolding Restore_def
    by (simp only: if_False) (rule yields_bind [OF yields_conseq [OF Tx_grants [OF Restore_grants]] told], auto)
qed

lemma Adopt_holds: "yields (holds (rows_refs rows)) (Adopt owner rows) (\<lambda>_. holds {#}) (holds {#})"
proof (cases "owner = []")
  case True
  then show ?thesis unfolding Adopt_def by (simp only: simp_thms if_True) (rule yields_fail, auto intro: safe_with_less)
next
  case False
  have "yields (holds (rows_refs rows)) (Tx (adoptRows owner 0 0 rows)) (\<lambda>_. holds {#}) (holds (rows_refs rows))"
    using Tx_safe [OF accounts_adoptRows [of "{#}" rows]] by simp
  with False show ?thesis unfolding Adopt_def
    by (simp only: if_False) (erule yields_conseq, auto intro: safe_with_less)
qed
end

end
