(* ===== verification/Collect.thy ===== *)
theory Collect
  imports FilesService
begin

text \<open>
  \<^verbatim>\<open>internal/files/collect.go\<close>: the names of derived objects and the sweep.
\<close>

section \<open>Derived keys\<close>

definition DerivedGeneration :: int where "DerivedGeneration = 1"
definition generationPrefix :: bytes where "generationPrefix = ''g''"
definition CachePrefix :: bytes where "CachePrefix = ''cache-''"
definition BackupPrefix :: bytes where "BackupPrefix = ''backups/''"
definition CacheRetention :: int where "CacheRetention = 7 * 24 * 3600000000000"
definition DefaultGrace :: int where "DefaultGrace = 3600000000000"

text \<open>A name that is not one segment is a panic.\<close>

definition DerivedKey :: "bytes \<Rightarrow> bytes \<Rightarrow> bytes option" where
  "DerivedKey parent name =
     (if contains_char name slash then None
      else Some (DerivedPrefix @ parent @ ''/'' @ generationPrefix @ itoa DerivedGeneration @ ''-'' @ name))"

definition cached :: "bytes \<Rightarrow> bool" where
  "cached key = (case cut (CHR ''-'') (base_name key) of None \<Rightarrow> False | Some (_, rest) \<Rightarrow> has_prefix rest CachePrefix)"

definition staleGeneration :: "bytes \<Rightarrow> bool" where
  "staleGeneration key =
     (case cut_prefix (base_name key) generationPrefix of None \<Rightarrow> True
      | Some rest \<Rightarrow>
          (case cut (CHR ''-'') rest of None \<Rightarrow> True
           | Some (gen, _) \<Rightarrow>
               (case parse_int64 gen of None \<Rightarrow> True | Some g \<Rightarrow> g \<noteq> DerivedGeneration)))"

text \<open>The parent, empty for a key that names none, and whether the key is derived at all.\<close>

definition parentOf :: "bytes \<Rightarrow> bytes \<times> bool" where
  "parentOf key =
     (case cut_prefix key DerivedPrefix of None \<Rightarrow> ([], False)
      | Some rest \<Rightarrow>
          (case last_index slash rest of None \<Rightarrow> ([], True)
           | Some i \<Rightarrow> if i = 0 then ([], True) else (take i rest, True)))"

section \<open>The sweep\<close>

record collected =
  c_scanned :: int
  c_deleted :: int
  c_trashed :: int
  c_bytes :: int

definition no_collected :: collected where
  "no_collected = \<lparr>c_scanned = 0, c_deleted = 0, c_trashed = 0, c_bytes = 0\<rparr>"

text \<open>
  One pass over the listing: how much was scanned, the originals no row points at and the
  derived objects to judge once those are known; \<open>None\<close> where the index is empty and the
  store is not.
\<close>

record scan_state =
  s_scanned :: int
  s_orphans :: "db_file list"
  s_derived :: "object_info list"

fun scan :: "bytes list \<Rightarrow> int \<Rightarrow> scan_state \<Rightarrow> object_info list \<Rightarrow> scan_state \<times> bool" where
  "scan referenced cutoff st [] = (st, True)"
| "scan referenced cutoff st (i # is) =
     (if has_prefix (i_key i) BackupPrefix then scan referenced cutoff st is
      else
        (let st1 = st\<lparr>s_scanned := s_scanned st + 1\<rparr> in
         if referenced = [] then (st1, False)
         else if cutoff < i_mtime i then scan referenced cutoff st1 is
         else
           (case parentOf (i_key i) of (parent, derived) \<Rightarrow>
              if derived \<and> parent = [] then scan referenced cutoff st1 is
              else if derived then scan referenced cutoff (st1\<lparr>s_derived := s_derived st1 @ [i]\<rparr>) is
              else if i_key i \<notin> set referenced
              then scan referenced cutoff (st1\<lparr>s_orphans := s_orphans st1
                     @ [no_file\<lparr>f_blob := i_key i, f_size := i_size i, f_mtime := truncate_time (i_mtime i)\<rparr>]\<rparr>) is
              else scan referenced cutoff st1 is)))"

text \<open>Whether a derived object stays: its parent lives, its generation is this one, and it is no expired cache.\<close>

definition keep_derived :: "bytes list \<Rightarrow> int \<Rightarrow> object_info \<Rightarrow> bool" where
  "keep_derived referenced t i \<longleftrightarrow> fst (parentOf (i_key i)) \<in> set referenced
     \<and> \<not> staleGeneration (i_key i) \<and> \<not> (cached (i_key i) \<and> CacheRetention < t - i_mtime i)"

fun sweep_derived :: "'s service \<Rightarrow> bytes list \<Rightarrow> int \<Rightarrow> collected \<Rightarrow> object_info list \<Rightarrow> 's world \<Rightarrow> (collected \<times> error option) \<times> 's world" where
  "sweep_derived S referenced t c [] w = ((c, None), w)"
| "sweep_derived S referenced t c (i # is) w =
     (if keep_derived referenced t i then sweep_derived S referenced t c is w
      else case blob (port_delete (svc_blobs S) (i_key i)) w of
        (Inl x, w') \<Rightarrow> ((c, Some x), w')
      | (Inr _, w') \<Rightarrow>
          sweep_derived S referenced t
            (c\<lparr>c_deleted := c_deleted c + 1, c_bytes := wrap64 (c_bytes c + i_size i)\<rparr>) is w')"

definition Collect :: "'s service \<Rightarrow> int \<Rightarrow> 's world \<Rightarrow> (collected \<times> error option) \<times> 's world" where
  "Collect S olderThan w0 =
     (case query BlobKeys w0 of (Inl x, w1) \<Rightarrow> ((no_collected, Some x), w1) | (Inr live, w1) \<Rightarrow>
      case query TrashKeys w1 of (Inl x, w2) \<Rightarrow> ((no_collected, Some x), w2) | (Inr trashed, w2) \<Rightarrow>
      (let referenced = live @ trashed; t = now (w_env w2); cutoff = t - olderThan in
       case blob_list S [] w2 of ((is, err), w3) \<Rightarrow>
       case scan referenced cutoff \<lparr>s_scanned = 0, s_orphans = [], s_derived = []\<rparr> is of (st, filled) \<Rightarrow>
       (let c = no_collected\<lparr>c_scanned := s_scanned st\<rparr> in
        if \<not> filled then ((c, Some ErrEmptyIndex), w3)
        else case err of Some x \<Rightarrow> ((no_collected, Some x), w3) | None \<Rightarrow>
        if s_orphans st = [] then sweep_derived S referenced t c (s_derived st) w3
        else case bindE rand_id (\<lambda>batch. Trash batch (s_orphans st) t) w3 of
            (Inl x, w4) \<Rightarrow> ((c, Some x), w4)
          | (Inr _, w4) \<Rightarrow>
              sweep_derived S (referenced @ map f_blob (s_orphans st)) t
                (c\<lparr>c_trashed := int (length (s_orphans st))\<rparr>) (s_derived st) w4)))"

end
