(* ===== verification/SoundCollect.thy ===== *)
theory SoundCollect
  imports SoundTrash Collect
begin

text \<open>
  The invariant of theory \<open>Sound\<close> under the sweep of \<^verbatim>\<open>collect.go\<close>.
\<close>

lemma parentOf_derived: "snd (parentOf k) \<longleftrightarrow> has_prefix k DerivedPrefix"
  by (auto simp: parentOf_def cut_prefix_def has_prefix_def split: option.splits if_splits)

definition orphan_row :: "object_info \<Rightarrow> db_file" where
  "orphan_row i = no_file\<lparr>f_blob := i_key i, f_size := i_size i, f_mtime := truncate_time (i_mtime i)\<rparr>"

lemma scan_result:
  "scan referenced cutoff st is = (st', b) \<Longrightarrow>
     \<exists>os ds. s_orphans st' = s_orphans st @ map orphan_row os \<and> s_derived st' = s_derived st @ ds \<and> subseq os is
       \<and> (\<forall>i\<in>set os. i_key i \<notin> set referenced \<and> \<not> has_prefix (i_key i) DerivedPrefix)
       \<and> (\<forall>i\<in>set ds. i \<in> set is \<and> has_prefix (i_key i) DerivedPrefix)"
proof (induction "is" arbitrary: st)
  case (Cons i "is")
  let ?st = "st\<lparr>s_scanned := s_scanned st + 1\<rparr>"
  consider (skip) st0 where "scan referenced cutoff st0 is = (st', b)" "s_orphans st0 = s_orphans st" "s_derived st0 = s_derived st"
    | (stop) "st' = ?st"
    | (derived) st0 where "scan referenced cutoff st0 is = (st', b)" "s_orphans st0 = s_orphans st"
        "s_derived st0 = s_derived st @ [i]" "snd (parentOf (i_key i))"
    | (orphan) st0 where "scan referenced cutoff st0 is = (st', b)" "s_orphans st0 = s_orphans st @ [orphan_row i]"
        "s_derived st0 = s_derived st" "i_key i \<notin> set referenced" "\<not> snd (parentOf (i_key i))"
    using Cons.prems by (auto simp: Let_def orphan_row_def split: if_splits prod.splits)
  then show ?case
  proof cases
    case skip
    from Cons.IH [OF skip(1)] skip(2,3) show ?thesis by (metis list.set_intros(2) list_emb_Cons)
  next
    case stop
    then show ?thesis by (intro exI [of _ "[]"]) simp
  next
    case derived
    from Cons.IH [OF derived(1)] obtain os ds where
      "s_orphans st' = s_orphans st0 @ map orphan_row os" "s_derived st' = s_derived st0 @ ds" "subseq os is"
       "\<forall>i\<in>set os. i_key i \<notin> set referenced \<and> \<not> has_prefix (i_key i) DerivedPrefix"
       "\<forall>i\<in>set ds. i \<in> set is \<and> has_prefix (i_key i) DerivedPrefix" by blast
    with derived show ?thesis
      by (intro exI [of _ os] exI [of _ "i # ds"]) (auto simp: parentOf_derived list_emb_Cons)
  next
    case orphan
    from Cons.IH [OF orphan(1)] obtain os ds where
      "s_orphans st' = s_orphans st0 @ map orphan_row os" "s_derived st' = s_derived st0 @ ds" "subseq os is"
       "\<forall>i\<in>set os. i_key i \<notin> set referenced \<and> \<not> has_prefix (i_key i) DerivedPrefix"
       "\<forall>i\<in>set ds. i \<in> set is \<and> has_prefix (i_key i) DerivedPrefix" by blast
    with orphan show ?thesis
      by (intro exI [of _ "i # os"] exI [of _ ds]) (auto simp: parentOf_derived)
  qed
qed simp

lemma keys_of_rows: "set_mset (keys_of (rows_refs rows)) = set (map f_blob (filter (\<lambda>r. \<not> f_is_dir r) rows))"
  by (induction rows) (auto simp: row_ref_def)

lemma keys_of_refs:
  "BlobKeys d = (Inr live, d1) \<Longrightarrow> TrashKeys d = (Inr dead, d2) \<Longrightarrow> set_mset (keys_of (refs d)) = set (live @ dead)"
  by (auto simp: refs_def BlobKeys_def TrashKeys_def keys_of_rows)

context files_service
begin

text \<open>Rows for objects that are there and that nothing answers for.\<close>

lemma holds_rows:
  assumes w: "holds N w" and d: "distinct (map f_blob rows)"
    and r: "\<And>f. f \<in> set rows \<Longrightarrow> \<not> f_is_dir f \<and> \<not> has_prefix (f_blob f) DerivedPrefix
      \<and> f_blob f \<notin># keys_of (refs (w_db w) + N) \<and> (\<exists>x t. objs (w_blobs w) (f_blob f) = Some (x, t) \<and> int (length x) = f_size f)"
  shows "holds (N + rows_refs rows) w"
  using d r
proof (induction rows)
  case Nil
  with w show ?case by simp
next
  case (Cons f fs)
  let ?R = "refs (w_db w) + (N + rows_refs fs)"
  from Cons have IH: "holds (N + rows_refs fs) w" by simp
  from Cons.prems(2) [of f] obtain x t where f: "\<not> f_is_dir f" "\<not> has_prefix (f_blob f) DerivedPrefix"
    "f_blob f \<notin># keys_of (refs (w_db w) + N)" "objs (w_blobs w) (f_blob f) = Some (x, t)" "int (length x) = f_size f" by auto
  have "f_blob f \<notin> f_blob ` set fs" using Cons.prems(1) by simp
  then have nk: "f_blob f \<notin># keys_of ?R" using f(3) by (auto simp: keys_of_rows)
  have "backed (objs (w_blobs w)) (add_mset (f_blob f, f_size f) ?R)"
    using IH f(4,5) by (auto simp: safe_with_def backed_def)
  moreover have "keys_ok (add_mset (f_blob f, f_size f) ?R)"
    using IH nk f(2) unfolding safe_with_def keys_ok_def by (auto simp: not_in_iff)
  moreover have "fresh_ids (w_env w) (objs (w_blobs w)) (add_mset (f_blob f, f_size f) ?R)"
    using IH f(4) unfolding safe_with_def fresh_ids_def by auto
  moreover have "uploads_ok (w_env w) (objs (w_blobs w)) (ups (w_blobs w)) (add_mset (f_blob f, f_size f) ?R) (set (uploads (w_db w)))"
    using IH f(4) unfolding safe_with_def uploads_ok_def upload_ok_def by auto
  ultimately show ?case using IH f(1) by (simp add: safe_with_def row_ref_def)
qed

lemma sweep_holds:
  "holds N w \<Longrightarrow> (\<forall>i\<in>set is. has_prefix (i_key i) DerivedPrefix) \<Longrightarrow>
     sweep_derived S referenced t c is w = (r, w') \<Longrightarrow> holds N w'"
proof (induction "is" arbitrary: c w)
  case (Cons i "is")
  show ?case
  proof (cases "keep_derived referenced t i")
    case True
    with Cons show ?thesis by auto
  next
    case False
    obtain x w1 where x: "blob (port_delete (svc_blobs S) (i_key i)) w = (x, w1)" by fastforce
    from delete_derived [of "i_key i" N] Cons.prems(1,2) x have "holds N w1"
      by (cases x) (auto dest: yieldsD_ok yieldsD_err)
    with Cons False x show ?thesis by (cases x) auto
  qed
qed simp

lemma look_holds:
  assumes "\<And>d. snd (q d) = d" "holds N w" "query q w = (r, w')"
  shows "holds N w' \<and> w_db w' = w_db w"
  using yieldsD_ok [OF look_safe [OF assms(1)] assms(2)] yieldsD_err [OF look_safe [OF assms(1)] assms(2)]
    query_look_same [OF assms(1,3)] assms(3) by (cases r) auto

text \<open>The originals a scan finds unreferenced can all be taken into the trash.\<close>

lemma orphans_hold:
  assumes w: "holds {#} w" and refs: "set_mset (keys_of (refs (w_db w))) = set referenced"
    and l: "distinct (map i_key is)" "\<forall>i\<in>set is. i \<in> listing (objs (w_blobs w)) pre"
    and sc: "scan referenced cutoff \<lparr>s_scanned = 0, s_orphans = [], s_derived = []\<rparr> is = (st, filled)"
  shows "holds (rows_refs (s_orphans st)) w \<and> (\<forall>i\<in>set (s_derived st). has_prefix (i_key i) DerivedPrefix)"
proof -
  from scan_result [OF sc] obtain os where os: "s_orphans st = map orphan_row os" "subseq os is"
    "\<forall>i\<in>set os. i_key i \<notin> set referenced \<and> \<not> has_prefix (i_key i) DerivedPrefix"
    and dv: "\<forall>i\<in>set (s_derived st). has_prefix (i_key i) DerivedPrefix" by auto
  have "map f_blob (s_orphans st) = map i_key os" by (simp add: os(1) orphan_row_def)
  moreover have "distinct (map i_key os)"
    using subseq_map [OF os(2), of i_key] l(1) by (metis distinct_nthsI subseq_conv_nths)
  ultimately have "distinct (map f_blob (s_orphans st))" by simp
  then have "holds ({#} + rows_refs (s_orphans st)) w"
  proof (rule holds_rows [OF w])
    fix f assume "f \<in> set (s_orphans st)"
    then obtain i where i: "i \<in> set os" "f = orphan_row i" by (auto simp: os(1))
    with os(2) l(2) have "i \<in> listing (objs (w_blobs w)) pre" by (metis notin_set_nthsI subseq_conv_nths)
    with i os(3) refs show "\<not> f_is_dir f \<and> \<not> has_prefix (f_blob f) DerivedPrefix
        \<and> f_blob f \<notin># keys_of (refs (w_db w) + {#})
        \<and> (\<exists>x t. objs (w_blobs w) (f_blob f) = Some (x, t) \<and> int (length x) = f_size f)"
      by (auto simp: listing_def info_of_def orphan_row_def no_file_def)
  qed
  with dv show ?thesis by simp
qed

lemma trash_orphans_holds:
  "yields (holds (rows_refs rows)) (bindE rand_id (\<lambda>batch. Trash batch rows t)) (\<lambda>_. holds {#}) (holds {#})"
proof (rule yields_bind)
  show "yields (holds (rows_refs rows)) rand_id (\<lambda>_. holds (rows_refs rows)) (holds {#})"
    by (rule yields_conseq [OF rand_id_holds [of "rows_refs rows"]]) (auto intro: safe_with_less)
  show "yields (holds (rows_refs rows)) (Trash x rows t) (\<lambda>_. holds {#}) (holds {#})" for x
    using accounts_safe [OF accounts_Trash [of "{#}" rows x t]] by simp
qed

lemma Collect_holds:
  assumes w: "holds {#} w" and run: "Collect S olderThan w = (r, w')"
  shows "holds {#} w'"
proof -
  obtain x w1 where x: "query BlobKeys w = (x, w1)" by fastforce
  obtain y w2 where y: "query TrashKeys w1 = (y, w2)" by fastforce
  obtain "is" err w3 where l: "blob_list S [] w2 = ((is, err), w3)" by (metis surj_pair)
  note h1 = look_holds [OF BlobKeys_same w x]
  note h2 = look_holds [OF TrashKeys_same conjunct1 [OF h1] y]
  note h3 = list_safe [OF conjunct1 [OF h2] l]
  show ?thesis
  proof (cases x; cases y)
    fix live dead assume xy: "x = Inr live" "y = Inr dead"
    let ?ref = "live @ dead" and ?t = "now (w_env w2)"
    obtain st filled where sc: "scan ?ref (?t - olderThan) \<lparr>s_scanned = 0, s_orphans = [], s_derived = []\<rparr> is = (st, filled)"
      by fastforce
    obtain z w4 where z: "bindE rand_id (\<lambda>batch. Trash batch (s_orphans st) ?t) w3 = (z, w4)" by fastforce
    have "BlobKeys (w_db w3) = (Inr live, w_db w3)" "TrashKeys (w_db w3) = (Inr dead, w_db w3)"
      using x y xy h1 h2 h3 by (auto elim!: query_cases simp: BlobKeys_def TrashKeys_def)
    then have "set_mset (keys_of (refs (w_db w3))) = set ?ref" by (rule keys_of_refs)
    then have o: "holds (rows_refs (s_orphans st)) w3" "\<forall>i\<in>set (s_derived st). has_prefix (i_key i) DerivedPrefix"
      using orphans_hold [OF conjunct1 [OF h3] _ _ _ sc, of "[]"] h3 by auto
    from yieldsD_ok [OF trash_orphans_holds o(1)] yieldsD_err [OF trash_orphans_holds o(1)] z
    have h4: "holds {#} w4" by (cases z) auto
    from run x y xy l sc z h3 h4 sweep_holds [OF _ o(2)] show ?thesis
      by (auto simp: Collect_def Let_def split: if_splits option.splits sum.splits)
  qed (use run x y h1 h2 in \<open>auto simp: Collect_def\<close>)
qed
end

end
