(* ===== verification/FilesUpload.thy ===== *)
theory FilesUpload
  imports FilesService
begin

text \<open>
  \<^verbatim>\<open>internal/files/upload.go\<close>: a file that arrives in pieces.  The store holds the bytes, a row
  of \<open>uploads\<close> holds how far they go and the running hash, and completing it publishes the blob
  before the row of the file, as a write does.
\<close>

definition DefaultUploadTTL :: int where
  "DefaultUploadTTL = 12 * 3600000000000"

definition BeginUpload :: "'s service \<Rightarrow> bytes \<Rightarrow> bytes \<Rightarrow> int \<Rightarrow> bytes \<Rightarrow> ('s, upload) act" where
  "BeginUpload S owner path sz mimeType =
     bindE (liftE (ValidatePath path)) (\<lambda>_.
     bindE (Tx (requireParent owner path)) (\<lambda>_.
     bindE clock (\<lambda>t.
     bindE rand_id (\<lambda>x.
     let key = newBlobKey path KindOther t x in
     bindE (blob (port_start (svc_blobs S) key)) (\<lambda>storeID.
     bindE rand_id (\<lambda>uid.
     bindE clock (\<lambda>at.
     let u = \<lparr>u_id = uid, u_owner = owner, u_path = path, u_size = sz, u_received = 0, u_blob = key,
              u_store = storeID, u_digest = hash_new (svc_hash S), u_mime = mimeType,
              u_expires = at + DefaultUploadTTL\<rparr> in
     tryE (query (PutUpload u)) (\<lambda>r.
     case r of
       Inl e \<Rightarrow> bindE (best_effort (blob (port_abort (svc_blobs S) key storeID))) (\<lambda>_. failE e)
     | Inr _ \<Rightarrow> retE u))))))))"

definition Upload :: "bytes \<Rightarrow> bytes \<Rightarrow> ('s, upload) act" where
  "Upload owner uid = query (UploadByID owner uid)"

text \<open>The append itself, with what the counting reader saw.\<close>

definition blob_append ::
  "'s service \<Rightarrow> bytes \<Rightarrow> bytes \<Rightarrow> int \<Rightarrow> reader \<Rightarrow> ('s, int \<times> nat \<times> error option) act" where
  "blob_append S key storeID offset body w =
     (case port_append (svc_blobs S) key storeID offset body (w_blobs w, w_env w) of
        (r, (s, e)) \<Rightarrow> (Inr r, w\<lparr>w_blobs := s, w_env := e\<rparr>))"

text \<open>
  The hash after the chunk: empty once it is lost, and lost when the store does not have what
  was read.  \<open>None\<close> where the saved state cannot be restored.
\<close>

definition next_digest :: "hasher \<Rightarrow> upload \<Rightarrow> int \<Rightarrow> nat \<Rightarrow> bytes \<Rightarrow> bytes option" where
  "next_digest H u at n body =
     (if u_digest u = [] then Some []
      else case hash_write H (u_digest u) (take n body) of
        None \<Rightarrow> None
      | Some d \<Rightarrow> Some (if at \<noteq> wrap64 (u_received u + int n) then [] else d))"

text \<open>
  The upload as it now stands, and beside it the error of an append that failed: the row is
  saved either way.
\<close>

definition Append_upload ::
  "'s service \<Rightarrow> bytes \<Rightarrow> bytes \<Rightarrow> int \<Rightarrow> reader \<Rightarrow> ('s, upload \<times> error option) act" where
  "Append_upload S owner uid offset body =
     bindE (query (UploadByID owner uid)) (\<lambda>u.
     if u_digest u \<noteq> [] \<and> hash_write (svc_hash S) (u_digest u) [] = None then failE ErrOther
     else bindE (blob_append S (u_blob u) (u_store u) offset body) (\<lambda>(at, n, appendErr).
     case next_digest (svc_hash S) u at n (content body) of
       None \<Rightarrow> failE ErrOther
     | Some digest \<Rightarrow>
         bindE clock (\<lambda>t.
         let u' = u\<lparr>u_digest := digest, u_received := at, u_expires := t + DefaultUploadTTL\<rparr> in
         bindE (query (PutUpload u')) (\<lambda>_. retE (u', appendErr)))))"

definition uploadETag :: "'s service \<Rightarrow> upload \<Rightarrow> ('s, bytes) act" where
  "uploadETag S u =
     (if u_digest u \<noteq> [] then
        (case hash_sum (svc_hash S) (u_digest u) of None \<Rightarrow> failE ErrOther | Some h \<Rightarrow> retE (hex_encode h))
      else
        bindE (blob (port_get (svc_blobs S) (u_blob u) All)) (\<lambda>(body, _).
        case io_copy body of
          (d, Some e) \<Rightarrow> failE e
        | (d, None) \<Rightarrow> retE (etag S d)))"

definition uploadType :: "'s service \<Rightarrow> upload \<Rightarrow> ('s, bytes) act" where
  "uploadType S u =
     (if u_mime u \<noteq> [] \<and> u_mime u \<noteq> ''application/octet-stream'' then retE (u_mime u)
      else tryE (blob (port_get (svc_blobs S) (u_blob u) (Slice 0 (int HeadSize)))) (\<lambda>r.
           case r of
             Inl _ \<Rightarrow> retE (u_mime u)
           | Inr (body, _) \<Rightarrow> retE (contentType (u_mime u) (fst (Sniff (take HeadSize (content body)))))))"

definition Complete_upload :: "'s service \<Rightarrow> bytes \<Rightarrow> bytes \<Rightarrow> ('s, db_file) act" where
  "Complete_upload S owner uid =
     bindE (query (UploadByID owner uid)) (\<lambda>u.
     if 0 \<le> u_size u \<and> u_received u \<noteq> u_size u then failE ErrConflict
     else
       bindE (blob (port_complete (svc_blobs S) (u_blob u) (u_store u))) (\<lambda>info.
       bindE (uploadETag S u) (\<lambda>tag.
       bindE (uploadType S u) (\<lambda>mimeType.
       let f = no_file\<lparr>f_owner := owner, f_path := u_path u, f_blob := u_blob u, f_size := i_size info,
                 f_mtime := i_mtime info, f_etag := tag, f_mime := mimeType\<rparr> in
       tryE (Tx (bindE (replace f) (\<lambda>(stored, superseded).
                 bindE (query (DeleteUpload owner uid)) (\<lambda>_. retE (stored, superseded))))) (\<lambda>r.
       case r of
         Inl e \<Rightarrow> bindE (best_effort (blob (port_delete (svc_blobs S) (u_blob u)))) (\<lambda>_. failE e)
       | Inr (stored, superseded) \<Rightarrow>
           bindE (drop_old S superseded) (\<lambda>_.
           bindE (written stored) (\<lambda>_. retE stored)))))))"

definition Abort_upload :: "'s service \<Rightarrow> bytes \<Rightarrow> bytes \<Rightarrow> ('s, unit) act" where
  "Abort_upload S owner uid =
     tryE (query (UploadByID owner uid)) (\<lambda>r.
     case r of
       Inl e \<Rightarrow> if e = ErrNotFound then retE () else failE e
     | Inr u \<Rightarrow>
         bindE (blob (port_abort (svc_blobs S) (u_blob u) (u_store u))) (\<lambda>_.
         query (DeleteUpload owner uid)))"

text \<open>How many went, and what stopped the rest.\<close>

fun abort_expired :: "'s service \<Rightarrow> int \<Rightarrow> upload list \<Rightarrow> 's world \<Rightarrow> (int \<times> error option) \<times> 's world" where
  "abort_expired S n [] w = ((n, None), w)"
| "abort_expired S n (u # us) w =
     (case bindE (blob (port_abort (svc_blobs S) (u_blob u) (u_store u))) (\<lambda>_.
             query (DeleteUpload (u_owner u) (u_id u))) w of
        (Inl e, w') \<Rightarrow> ((n, Some e), w')
      | (Inr _, w') \<Rightarrow> abort_expired S (n + 1) us w')"

definition CollectUploads :: "'s service \<Rightarrow> int \<Rightarrow> 's world \<Rightarrow> (int \<times> error option) \<times> 's world" where
  "CollectUploads S t w =
     (case query (ExpiredUploads t) w of
        (Inl e, w1) \<Rightarrow> ((0, Some e), w1)
      | (Inr expired, w1) \<Rightarrow> abort_expired S 0 expired w1)"

end
