(* ===== verification/SoundUpload.thy ===== *)
theory SoundUpload
  imports SoundCollect FilesUpload
begin

text \<open>
  The invariant of theory \<open>Sound\<close> under the resumable uploads of \<^verbatim>\<open>upload.go\<close>: beginning,
  appending, completing, aborting and collecting them.
\<close>


lemma PutUpload_cases:
  assumes "PutUpload u d = (r, d')"
  obtains (refused) "d' = d"
  | (update) g where "d' = d\<lparr>uploads := map g (uploads d)\<rparr>" "\<exists>x\<in>set (uploads d). u_id x = u_id u"
      "\<And>x. u_id (g x) = u_id x \<and> u_blob (g x) = u_blob x \<and> u_store (g x) = u_store x"
      "\<And>x. g x = x \<or> u_id x = u_id u \<and> g x = x\<lparr>u_received := u_received u, u_digest := u_digest u, u_expires := truncate_time (u_expires u)\<rparr>"
  | (insert) "d' = d\<lparr>uploads := uploads d @ [u\<lparr>u_expires := truncate_time (u_expires u)\<rparr>]\<rparr>"
      "\<forall>x\<in>set (uploads d). u_id x \<noteq> u_id u"
proof (cases "ValidatePath (u_path u)")
  case (Inl e)
  with assms refused show ?thesis by (simp add: PutUpload_def)
next
  case (Inr v)
  let ?g = "\<lambda>x. if u_id x = u_id u then x\<lparr>u_received := u_received u, u_digest := u_digest u, u_expires := truncate_time (u_expires u)\<rparr> else x"
  show ?thesis
  proof (cases "\<exists>x\<in>set (uploads d). u_id x = u_id u")
    case True
    with assms Inr show ?thesis by (intro update [of ?g]) (auto simp: PutUpload_def list_ex_iff)
  next
    case False
    with assms Inr show ?thesis by (intro insert) (auto simp: PutUpload_def list_ex_iff)
  qed
qed

context files_service
begin

lemma keeps_blob: "(\<And>w r s e. F w \<Longrightarrow> m (w_blobs w, w_env w) = (r, (s, e)) \<Longrightarrow> F (w\<lparr>w_blobs := s, w_env := e\<rparr>)) \<Longrightarrow> keeps F (blob m)"
  by (rule keepsI) (auto simp: blob_def split: prod.splits)

text \<open>A row may be added for an upload that has just been started under a fresh key.\<close>

definition started :: "(bytes \<times> int) multiset \<Rightarrow> bytes \<Rightarrow> bytes \<Rightarrow> 's world \<Rightarrow> bool" where
  "started N k sid w \<longleftrightarrow> objs (w_blobs w) k = None \<and> k \<notin># keys_of (refs (w_db w) + N) \<and> \<not> has_prefix k DerivedPrefix
     \<and> \<not> undrawn (w_env w) (key_id k) \<and> \<not> undrawn (w_env w) sid
     \<and> (\<forall>u\<in>set (uploads (w_db w)). u_store u \<noteq> sid \<and> (ups (w_blobs w) (u_store u) \<noteq> None \<longrightarrow> u_blob u \<noteq> k))"

lemma start_holds:
  "yields (\<lambda>w. holds N w \<and> fresh_key N k w) (blob (port_start (svc_blobs S) k))
     (\<lambda>sid w. holds N w \<and> started N k sid w) (holds N)"
proof -
  have main: "holds N (w\<lparr>w_blobs := s', w_env := e'\<rparr>)
      \<and> (\<forall>u\<in>set (uploads (w_db w)). ups s' (u_store u) \<noteq> None \<longrightarrow> ups (w_blobs w) (u_store u) \<noteq> None)"
    if w: "holds N w" and p: "port_start (svc_blobs S) k (w_blobs w, w_env w) = (y, (s', e'))"
      and s: "sound s'" "env_step (w_env w) e'" "objs s' = objs (w_blobs w)" for w y s' e'
  proof -
    have live: "ups (w_blobs w) (u_store u) \<noteq> None" if "u \<in> set (uploads (w_db w))" "ups s' (u_store u) \<noteq> None" for u
      using start_names [OF holds_sound [OF w] p that(2)] that(1) w
      unfolding safe_with_def uploads_ok_def upload_ok_def undrawn_def by blast
    with holds_uploads [OF w s] show ?thesis by blast
  qed
  show ?thesis
  proof (rule yieldsI)
    fix w sid w' assume w: "holds N w \<and> fresh_key N k w" "blob (port_start (svc_blobs S) k) w = (Inr sid, w')"
    then obtain s' e' where p: "port_start (svc_blobs S) k (w_blobs w, w_env w) = (Inr sid, (s', e'))"
      and w': "w' = w\<lparr>w_blobs := s', w_env := e'\<rparr>" by (auto simp: blob_def split: prod.splits)
    from start_ok [OF holds_sound p] w have s: "sound s'" "env_step (w_env w) e'" "objs s' = objs (w_blobs w)"
      "ups (w_blobs w) sid = None" "ups s' sid = Some []" by auto
    note m = main [OF conjunct1 [OF w(1)] p s(1-3)]
    from start_names [OF holds_sound [OF conjunct1 [OF w(1)]] p, of sid] s obtain i where
      i: "drawn (w_env w) \<le> i" "i < drawn e'" "sid = texts (w_env w) i" by auto
    have "inj (texts (w_env w))" using w by (simp add: safe_with_def fresh_ids_def)
    with i s(2) have "\<not> undrawn e' sid" unfolding undrawn_def env_step_def by (auto dest: injD)
    moreover have "u_store u \<noteq> sid" if "u \<in> set (uploads (w_db w))" for u
      using that i w unfolding safe_with_def uploads_ok_def upload_ok_def undrawn_def by blast
    ultimately show "holds N w' \<and> started N k sid w'"
      using m w s undrawn_step [OF _ s(2)] unfolding w' started_def free_key_def by auto
  next
    fix w x w' assume w: "holds N w \<and> fresh_key N k w" "blob (port_start (svc_blobs S) k) w = (Inl x, w')"
    then obtain s' e' where p: "port_start (svc_blobs S) k (w_blobs w, w_env w) = (Inl x, (s', e'))"
      and w': "w' = w\<lparr>w_blobs := s', w_env := e'\<rparr>" by (auto simp: blob_def split: prod.splits)
    from start_err [OF holds_sound p] w main [OF conjunct1 [OF w(1)] p] show "holds N w'" by (auto simp: w')
  qed
qed

lemma keeps_started_rand: "keeps (started N k sid) rand_id"
proof (rule keepsI)
  fix w assume "started N k sid w"
  then show "started N k sid (snd (rand_id w))"
    unfolding started_def rand_id_def using undrawn_step [of "(w_env w)\<lparr>drawn := Suc (drawn (w_env w))\<rparr>" _ "w_env w"] by auto
qed

lemma abort_holds: "yields (holds N) (blob (port_abort (svc_blobs S) k sid)) (\<lambda>_. holds N) (holds N)"
proof (rule yields_keeps, rule keeps_blob)
  fix w r s' e' assume w: "holds N w" and p: "port_abort (svc_blobs S) k sid (w_blobs w, w_env w) = (r, (s', e'))"
  from abort_result [OF holds_sound [OF w] p] show "holds N (w\<lparr>w_blobs := s', w_env := e'\<rparr>)"
    by (intro holds_uploads [OF w]) (auto split: if_splits)
qed

lemma put_upload_holds:
  assumes w: "holds N w" and run: "query (PutUpload u) w = (r, w')"
    and u: "(\<exists>x\<in>set (uploads (w_db w)). u_id x = u_id u)
      \<or> started N (u_blob u) (u_store u) w \<and> \<not> undrawn (w_env w) (u_id u)"
  shows "holds N w'"
  using run
proof (cases rule: query_cases)
  case (1 e)
  with holds_same [OF w] show ?thesis by simp
next
  case (2 e d)
  have up: "uploads_ok e (objs (w_blobs w)) (ups (w_blobs w)) (refs (w_db w) + N) (set (uploads (w_db w)))"
    using holds_same [OF w 2(1)] by (simp add: safe_with_def)
  let ?ok = "uploads_ok e (objs (w_blobs w)) (ups (w_blobs w)) (refs (w_db w) + N)"
  from 2(2) have "uniq d \<and> refs d = refs (w_db w) \<and> ?ok (set (uploads d))"
  proof (cases rule: PutUpload_cases)
    case refused
    with w up show ?thesis by (simp add: safe_with_def)
  next
    case (update g)
    have "upload_ok e (objs (w_blobs w)) (ups (w_blobs w)) (refs (w_db w) + N) (g x) =
      upload_ok e (objs (w_blobs w)) (ups (w_blobs w)) (refs (w_db w) + N) x" for x
      using update(3) [of x] by (simp add: upload_ok_def)
    moreover have "apart (ups (w_blobs w)) (g ` U) " if "apart (ups (w_blobs w)) U" for U
      using that update(3) unfolding apart_def by (simp; metis)
    ultimately have "?ok (set (uploads d))" using up by (simp add: update(1) uploads_ok_def)
    with w update(1) show ?thesis by (simp add: safe_with_def uniq_def refs_def)
  next
    case insert
    with u have st: "started N (u_blob u) (u_store u) w" "\<not> undrawn (w_env w) (u_id u)" by auto
    let ?u = "u\<lparr>u_expires := truncate_time (u_expires u)\<rparr>"
    have "upload_ok e (objs (w_blobs w)) (ups (w_blobs w)) (refs (w_db w) + N) ?u"
      using st undrawn_step [OF _ 2(1)] by (auto simp: started_def upload_ok_def)
    moreover have "apart (ups (w_blobs w)) (insert ?u (set (uploads (w_db w))))"
      using up st(1) unfolding uploads_ok_def apart_def started_def by auto
    ultimately have "?ok (set (uploads d))" using up by (simp add: insert(1) uploads_ok_def)
    with w insert(1) show ?thesis by (simp add: safe_with_def uniq_def refs_def)
  qed
  with holds_same [OF w 2(1)] 2(3) show ?thesis by (simp add: safe_with_def)
qed

lemma BeginUpload_holds:
  "yields (holds N) (BeginUpload S owner path sz mimeType) (\<lambda>_. holds N) (holds N)"
proof -
  have put: "yields (\<lambda>w. (holds N w \<and> is_text x \<and> \<not> undrawn (w_env w) x
       \<and> (\<forall>k. key_id k = x \<longrightarrow> \<not> has_prefix k DerivedPrefix \<longrightarrow> fresh_key N k w)
       \<and> (\<forall>u\<in>set (uploads (w_db w)). u_id u \<noteq> x)) \<and> started N key sid w)
      (bindE clock (\<lambda>at. tryE (query (PutUpload (U at))) (\<lambda>r.
         case r of Inl e \<Rightarrow> bindE (best_effort (blob (port_abort (svc_blobs S) key sid))) (\<lambda>_. failE e) | Inr _ \<Rightarrow> retE (U at))))
      (\<lambda>_. holds N) (holds N)" if U: "\<And>at. u_id (U at) = x \<and> u_blob (U at) = key \<and> u_store (U at) = sid" for x key sid U
  proof -
    have q: "yields (\<lambda>w. (holds N w \<and> \<not> undrawn (w_env w) x) \<and> started N key sid w) (query (PutUpload (U at))) (\<lambda>_. holds N) (holds N)" for at
      using U [of at] put_upload_holds [of N _ "U at"] by (intro yieldsI) auto
    have gone: "yields (holds N) (bindE (best_effort (blob (port_abort (svc_blobs S) key sid))) (\<lambda>_. failE e)) (\<lambda>_ :: upload. holds N) (holds N)" for e
      by (rule yields_bind [OF yields_best [OF abort_holds]]) (rule yields_fail)
    have saved: "yields (\<lambda>w. (holds N w \<and> \<not> undrawn (w_env w) x) \<and> started N key sid w)
      (tryE (query (PutUpload (U at))) (\<lambda>r. case r of
           Inl e \<Rightarrow> bindE (best_effort (blob (port_abort (svc_blobs S) key sid))) (\<lambda>_. failE e) | Inr _ \<Rightarrow> retE (U at)))
      (\<lambda>_. holds N) (holds N)" for at
      by (rule yields_try [OF q]) (simp_all only: sum.case, rule yields_ret, assumption, rule gone)
    have "yields (\<lambda>w. (holds N w \<and> \<not> undrawn (w_env w) x) \<and> started N key sid w)
      (bindE clock (\<lambda>at. tryE (query (PutUpload (U at))) (\<lambda>r.
         case r of Inl e \<Rightarrow> bindE (best_effort (blob (port_abort (svc_blobs S) key sid))) (\<lambda>_. failE e) | Inr _ \<Rightarrow> retE (U at))))
      (\<lambda>_. holds N) (holds N)"
      by (rule yields_bind [OF _ saved]) (simp add: yields_def clock_def)
    then show ?thesis by (rule yields_conseq) auto
  qed
  have start: "yields (\<lambda>w. holds N w \<and> is_text x \<and> \<not> undrawn (w_env w) x
       \<and> (\<forall>k. key_id k = x \<longrightarrow> \<not> has_prefix k DerivedPrefix \<longrightarrow> fresh_key N k w) \<and> (\<forall>u\<in>set (uploads (w_db w)). u_id u \<noteq> x))
      (blob (port_start (svc_blobs S) (newBlobKey path KindOther t x)))
      (\<lambda>sid w. holds N w \<and> started N (newBlobKey path KindOther t x) sid w) (holds N)" for x t
    by (rule yields_conseq [OF start_holds]) (auto simp: key_id_newBlobKey newBlobKey_not_derived)
  have name: "yields (\<lambda>w. holds N w \<and> started N key sid w) rand_id (\<lambda>x w. (holds N w \<and> is_text x \<and> \<not> undrawn (w_env w) x
       \<and> (\<forall>k. key_id k = x \<longrightarrow> \<not> has_prefix k DerivedPrefix \<longrightarrow> fresh_key N k w)
       \<and> (\<forall>u\<in>set (uploads (w_db w)). u_id u \<noteq> x)) \<and> started N key sid w) (holds N)" for key sid
    by (rule yields_conseq [OF yields_frame [OF rand_id_fresh keeps_started_rand]]) auto
  show ?thesis unfolding BeginUpload_def Let_def
    by (rule yields_check, rule yields_bind [OF Tx_safe [OF accounts_requireParent]], rule yields_bind [OF clock_holds],
        rule yields_bind [OF rand_id_fresh], rule yields_bind [OF start], rule yields_bind [OF name], rule put) simp
qed

lemma upload_found:
  "yields (holds N) (query (UploadByID owner uid))
     (\<lambda>u w. holds N w \<and> u \<in> set (uploads (w_db w)) \<and> u_id u = uid \<and> u_owner u = owner) (holds N)"
proof (rule yieldsI)
  fix w u w' assume w: "holds N w" and q: "query (UploadByID owner uid) w = (Inr u, w')"
  have "u \<in> set (uploads (w_db w)) \<and> u_id u = uid \<and> u_owner u = owner"
    using q by (cases rule: query_cases) (auto simp: UploadByID_def find_Some_iff split: option.splits)
  with look_holds [OF UploadByID_same w q]
  show "holds N w' \<and> u \<in> set (uploads (w_db w')) \<and> u_id u = uid \<and> u_owner u = owner" by simp
qed (drule (1) look_holds [OF UploadByID_same], simp)

lemma append_holds:
  assumes w: "holds N w" and run: "blob_append S k sid off body w = (r, w')"
  shows "holds N w' \<and> w_db w' = w_db w"
proof -
  obtain m n eo s' e' where p: "port_append (svc_blobs S) k sid off body (w_blobs w, w_env w) = ((m, n, eo), (s', e'))"
    by (cases "port_append (svc_blobs S) k sid off body (w_blobs w, w_env w)") auto
  with run have w': "w' = w\<lparr>w_blobs := s', w_env := e'\<rparr>" by (simp add: blob_append_def)
  note a = append_result [OF holds_sound [OF w] p]
  have "ups (w_blobs w) x \<noteq> None" if "ups s' x \<noteq> None" for x
    using a that by (cases "x = sid") auto
  with a show ?thesis unfolding w' by (auto intro!: holds_uploads [OF w])
qed

lemma Append_upload_holds:
  "yields (holds N) (Append_upload S owner uid off body) (\<lambda>_. holds N) (holds N)"
  unfolding Append_upload_def
proof (rule yields_bind [OF upload_found])
  fix u :: upload
  let ?P = "\<lambda>w. holds N w \<and> (\<exists>x\<in>set (uploads (w_db w)). u_id x = u_id u)"
  have app: "yields ?P (blob_append S (u_blob u) (u_store u) off body) (\<lambda>_. ?P) (holds N)"
    using append_holds by (intro yieldsI) (metis, metis)
  have put: "yields ?P (query (PutUpload (u\<lparr>u_digest := d, u_received := at, u_expires := t\<rparr>))) (\<lambda>_. holds N) (holds N)" for d at t
    using put_upload_holds [of N _ "u\<lparr>u_digest := d, u_received := at, u_expires := t\<rparr>"] by (intro yieldsI) auto
  have clk: "yields ?P clock (\<lambda>_. ?P) (holds N)" by (simp add: yields_def clock_def)
  have rest: "yields ?P (case next_digest (svc_hash S) u at n (content body) of
       None \<Rightarrow> failE ErrOther
     | Some digest \<Rightarrow> bindE clock (\<lambda>t.
         let u' = u\<lparr>u_digest := digest, u_received := at, u_expires := t + DefaultUploadTTL\<rparr> in
         bindE (query (PutUpload u')) (\<lambda>_. retE (u', err)))) (\<lambda>_. holds N) (holds N)" for at n err
    unfolding Let_def
    by (cases "next_digest (svc_hash S) u at n (content body)")
      (simp_all only: option.case, rule yields_fail, simp, rule yields_bind [OF clk], rule yields_bind [OF put], rule yields_ret)
  have rest': "yields ?P (case x of (at, n, appendErr) \<Rightarrow> case next_digest (svc_hash S) u at n (content body) of
       None \<Rightarrow> failE ErrOther
     | Some digest \<Rightarrow> bindE clock (\<lambda>t.
         let u' = u\<lparr>u_digest := digest, u_received := at, u_expires := t + DefaultUploadTTL\<rparr> in
         bindE (query (PutUpload u')) (\<lambda>_. retE (u', appendErr)))) (\<lambda>_. holds N) (holds N)" for x
    by (cases x) (simp only: prod.case rest)
  have "yields ?P (if u_digest u \<noteq> [] \<and> hash_write (svc_hash S) (u_digest u) [] = None then failE ErrOther
     else bindE (blob_append S (u_blob u) (u_store u) off body) (\<lambda>(at, n, appendErr).
     case next_digest (svc_hash S) u at n (content body) of
       None \<Rightarrow> failE ErrOther
     | Some digest \<Rightarrow> bindE clock (\<lambda>t.
         let u' = u\<lparr>u_digest := digest, u_received := at, u_expires := t + DefaultUploadTTL\<rparr> in
         bindE (query (PutUpload u')) (\<lambda>_. retE (u', appendErr))))) (\<lambda>_. holds N) (holds N)"
    by (rule yields_if, rule yields_fail, simp, rule yields_bind [OF app rest'])
  then show "yields (\<lambda>w. holds N w \<and> u \<in> set (uploads (w_db w)) \<and> u_id u = uid \<and> u_owner u = owner)
     (if u_digest u \<noteq> [] \<and> hash_write (svc_hash S) (u_digest u) [] = None then failE ErrOther
     else bindE (blob_append S (u_blob u) (u_store u) off body) (\<lambda>(at, n, appendErr).
     case next_digest (svc_hash S) u at n (content body) of
       None \<Rightarrow> failE ErrOther
     | Some digest \<Rightarrow> bindE clock (\<lambda>t.
         let u' = u\<lparr>u_digest := digest, u_received := at, u_expires := t + DefaultUploadTTL\<rparr> in
         bindE (query (PutUpload u')) (\<lambda>_. retE (u', appendErr))))) (\<lambda>_. holds N) (holds N)"
    by (rule yields_conseq) auto
qed

lemma complete_holds:
  "yields (\<lambda>w. holds N w \<and> u \<in> set (uploads (w_db w))) (blob (port_complete (svc_blobs S) (u_blob u) (u_store u)))
     (\<lambda>i. holds (add_mset (u_blob u, i_size i) N)) (holds N)"
proof -
  have main: "holds (add_mset (u_blob u, int (length d)) N) (w\<lparr>w_blobs := s', w_env := e'\<rparr>)"
    if w: "holds N w" "u \<in> set (uploads (w_db w))" and s: "sound s'" "env_step (w_env w) e'"
      and d: "ups (w_blobs w) (u_store u) = Some d" "objs s' = (objs (w_blobs w))(u_blob u \<mapsto> (d, t))"
        "ups s' = (ups (w_blobs w))(u_store u := None)" for w s' e' d t
  proof -
    have ok: "upload_ok (w_env w) (objs (w_blobs w)) (ups (w_blobs w)) (refs (w_db w) + N) u"
      and ap: "apart (ups (w_blobs w)) (set (uploads (w_db w)))"
      using w by (auto simp: safe_with_def uploads_ok_def)
    have "ups (w_blobs w) (u_store v) \<noteq> None \<and> u_blob v \<noteq> u_blob u"
      if "v \<in> set (uploads (w_db w))" "ups s' (u_store v) \<noteq> None" for v
      using that w(2) d(1,3) ap unfolding apart_def by (auto split: if_splits)
    with ok d(1) show ?thesis by (intro publish_holds [OF w(1) _ _ _ _ s d(2)]) (auto simp: upload_ok_def)
  qed
  show ?thesis
  proof (rule yieldsI)
    fix w i w' assume w: "holds N w \<and> u \<in> set (uploads (w_db w))"
      "blob (port_complete (svc_blobs S) (u_blob u) (u_store u)) w = (Inr i, w')"
    then obtain s' e' where p: "port_complete (svc_blobs S) (u_blob u) (u_store u) (w_blobs w, w_env w) = (Inr i, (s', e'))"
      and w': "w' = w\<lparr>w_blobs := s', w_env := e'\<rparr>" by (auto simp: blob_def split: prod.splits)
    from complete_ok [OF holds_sound [OF conjunct1 [OF w(1)]] p] obtain d t where "sound s'" "env_step (w_env w) e'"
      "ups (w_blobs w) (u_store u) = Some d" "objs s' = (objs (w_blobs w))(u_blob u \<mapsto> (d, t))"
      "ups s' = (ups (w_blobs w))(u_store u := None)" "i = info_of (u_blob u) (d, t)" by auto
    with main [of w s' e' d t] w show "holds (add_mset (u_blob u, i_size i) N) w'"
      unfolding w' by (simp add: info_of_def)
  next
    fix w x w' assume w: "holds N w \<and> u \<in> set (uploads (w_db w))"
      "blob (port_complete (svc_blobs S) (u_blob u) (u_store u)) w = (Inl x, w')"
    then obtain s' e' where p: "port_complete (svc_blobs S) (u_blob u) (u_store u) (w_blobs w, w_env w) = (Inl x, (s', e'))"
      and w': "w' = w\<lparr>w_blobs := s', w_env := e'\<rparr>" by (auto simp: blob_def split: prod.splits)
    from complete_err [OF holds_sound [OF conjunct1 [OF w(1)]] p]
    consider "sound s'" "env_step (w_env w) e'" "objs s' = objs (w_blobs w)" "ups s' = ups (w_blobs w)"
      | d t where "sound s'" "env_step (w_env w) e'" "ups (w_blobs w) (u_store u) = Some d"
        "objs s' = (objs (w_blobs w))(u_blob u \<mapsto> (d, t))" "ups s' = (ups (w_blobs w))(u_store u := None)" by auto
    then show "holds N w'"
    proof cases
      case 1
      with w show ?thesis unfolding w' by (auto intro!: holds_uploads)
    next
      case (2 d t)
      from main [OF _ _ 2] w have "holds (add_mset (u_blob u, int (length d)) N) w'" unfolding w' by blast
      then show ?thesis by (rule safe_with_less) simp
    qed
  qed
qed

lemma uploadETag_holds: "yields (holds N) (uploadETag S u) (\<lambda>_. holds N) (holds N)"
  unfolding uploadETag_def
  by (auto intro!: yields_fail yields_ret yields_bind [OF get_holds] split: option.splits prod.splits)

lemma uploadType_holds: "yields (holds N) (uploadType S u) (\<lambda>_. holds N) (holds N)"
  unfolding uploadType_def
  by (auto intro!: yields_ret yields_try [OF get_holds] split: sum.splits prod.splits)

lemma accounts_DeleteUpload: "accounts N (query (DeleteUpload owner uid)) (\<lambda>_. N)"
  by (rule accounts_query) (auto simp: DeleteUpload_def uniq_def refs_def split: sum.splits)

lemma complete_grants:
  "grants {#(f_blob f, f_size f)#} (bindE (replace f) (\<lambda>(stored, superseded).
     bindE (query (DeleteUpload owner uid)) (\<lambda>_. retE (stored, superseded))))
     (\<lambda>(g, old) M. if old = [] then M = {#} else \<exists>n. M = {#(old, n)#})"
proof (rule grants_bind [OF replace_grants])
  fix x :: "db_file \<times> bytes" and M :: "(bytes \<times> int) multiset"
  assume x: "(case x of (g, old) \<Rightarrow> \<lambda>M. f_blob g = f_blob f \<and> (if old = [] then M = {#} else \<exists>n. M = {#(old, n)#})) M"
  show "grants M (case x of (stored, superseded) \<Rightarrow> bindE (query (DeleteUpload owner uid)) (\<lambda>_. retE (stored, superseded)))
     (\<lambda>(g, old) M. if old = [] then M = {#} else \<exists>n. M = {#(old, n)#})"
    using x by (cases x) (auto intro!: grants_bind [OF accounts_grants [OF accounts_DeleteUpload]] grants_ret [of _ _ M] split: if_splits)
qed

lemma finish_holds:
  "yields (holds {#(f_blob f, f_size f)#}) (tryE (Tx (bindE (replace f) (\<lambda>(stored, superseded).
                 bindE (query (DeleteUpload owner uid)) (\<lambda>_. retE (stored, superseded))))) (\<lambda>r.
       case r of
         Inl e \<Rightarrow> bindE (best_effort (blob (port_delete (svc_blobs S) (f_blob f)))) (\<lambda>_. failE e)
       | Inr (stored, superseded) \<Rightarrow>
           bindE (drop_old S superseded) (\<lambda>_.
           bindE (written stored) (\<lambda>_. retE stored)))) (\<lambda>_. holds {#}) (holds {#})"
proof (rule yields_try [OF Tx_grants [OF complete_grants]])
  fix x :: "db_file \<times> bytes"
  obtain g old where x: "x = (g, old)" by fastforce
  have "yields (\<lambda>w. \<exists>M. (if old = [] then M = {#} else \<exists>n. M = {#(old, n)#}) \<and> holds M w)
     (bindE (drop_old S old) (\<lambda>_. bindE (written g) (\<lambda>_. retE g))) (\<lambda>_. holds {#}) (holds {#})"
    by (rule yields_bind [OF drop_old_holds], rule yields_bind [OF written_holds], rule yields_ret)
  then show "yields (\<lambda>w. \<exists>M. (case x of (g, old) \<Rightarrow> \<lambda>M. if old = [] then M = {#} else \<exists>n. M = {#(old, n)#}) M \<and> holds M w)
     (case Inr x of Inl e \<Rightarrow> bindE (best_effort (blob (port_delete (svc_blobs S) (f_blob f)))) (\<lambda>_. failE e)
       | Inr (stored, superseded) \<Rightarrow> bindE (drop_old S superseded) (\<lambda>_. bindE (written stored) (\<lambda>_. retE stored)))
     (\<lambda>_. holds {#}) (holds {#})"
    unfolding x sum.case prod.case .
next
  fix e
  show "yields (holds {#(f_blob f, f_size f)#}) (case Inl e of Inl e \<Rightarrow> bindE (best_effort (blob (port_delete (svc_blobs S) (f_blob f)))) (\<lambda>_. failE e)
       | Inr (stored, superseded) \<Rightarrow> bindE (drop_old S superseded) (\<lambda>_. bindE (written stored) (\<lambda>_. retE stored)))
     (\<lambda>_. holds {#}) (holds {#})"
    unfolding sum.case by (rule give_up)
qed

lemma Complete_upload_holds:
  "yields (holds {#}) (Complete_upload S owner uid) (\<lambda>_. holds {#}) (holds {#})"
proof -
  have look: "yields (holds {#}) (query (UploadByID owner uid)) (\<lambda>u w. holds {#} w \<and> u \<in> set (uploads (w_db w))) (holds {#})"
    by (rule yields_conseq [OF upload_found]) auto
  have pend: "yields (holds {#(k, n)#}) m (\<lambda>_. holds {#(k, n)#}) (holds {#})"
    if "yields (holds {#(k, n)#}) m (\<lambda>_. holds {#(k, n)#}) (holds {#(k, n)#})" for k n and m :: "('s, 'x) act"
    by (rule yields_conseq [OF that]) (auto intro: safe_with_less)
  have fin: "yields (holds {#(k, n)#}) (tryE (Tx (bindE (replace f) (\<lambda>(stored, superseded).
                 bindE (query (DeleteUpload owner uid)) (\<lambda>_. retE (stored, superseded))))) (\<lambda>r.
       case r of
         Inl e \<Rightarrow> bindE (best_effort (blob (port_delete (svc_blobs S) k))) (\<lambda>_. failE e)
       | Inr (stored, superseded) \<Rightarrow>
           bindE (drop_old S superseded) (\<lambda>_.
           bindE (written stored) (\<lambda>_. retE stored)))) (\<lambda>_. holds {#}) (holds {#})" if "f_blob f = k" "f_size f = n" for f k n
    using finish_holds [of f owner uid] unfolding that .
  show ?thesis unfolding Complete_upload_def Let_def
    by (rule yields_bind [OF look], rule yields_if, rule yields_fail, simp,
        rule yields_bind [OF complete_holds], rule yields_bind [OF pend [OF uploadETag_holds]],
        rule yields_bind [OF pend [OF uploadType_holds]], rule fin) (simp_all add: no_file_def)
qed

lemma DeleteUpload_holds: "yields (holds N) (query (DeleteUpload owner uid)) (\<lambda>_. holds N) (holds N)"
proof (rule yields_keeps, rule keepsI)
  fix w assume w: "holds N w"
  obtain r w' where r: "query (DeleteUpload owner uid) w = (r, w')" by fastforce
  then have "w_blobs w' = w_blobs w \<and> env_step (w_env w) (w_env w') \<and> uniq (w_db w') = uniq (w_db w)
     \<and> refs (w_db w') = refs (w_db w) \<and> set (uploads (w_db w')) \<subseteq> set (uploads (w_db w))"
    by (cases rule: query_cases) (auto simp: DeleteUpload_def uniq_def refs_def)
  with w have "holds N w'" by (intro safe_with_mono [OF w]) (auto simp: safe_with_def)
  with r show "holds N (snd (query (DeleteUpload owner uid) w))" by simp
qed

lemma gone_holds:
  "yields (holds N) (bindE (blob (port_abort (svc_blobs S) k sid)) (\<lambda>_. query (DeleteUpload owner uid))) (\<lambda>_. holds N) (holds N)"
  by (rule yields_bind [OF abort_holds DeleteUpload_holds])

lemma Abort_upload_holds: "yields (holds N) (Abort_upload S owner uid) (\<lambda>_. holds N) (holds N)"
  unfolding Abort_upload_def
  by (rule yields_try [OF look_safe [OF UploadByID_same]])
    (simp_all only: sum.case, rule gone_holds, rule yields_if, rule yields_ret, simp, rule yields_fail)

lemma abort_expired_holds: "holds N w \<Longrightarrow> abort_expired S n us w = (r, w') \<Longrightarrow> holds N w'"
proof (induction us arbitrary: n w)
  case (Cons u us)
  obtain x w1 where x: "bindE (blob (port_abort (svc_blobs S) (u_blob u) (u_store u))) (\<lambda>_.
      query (DeleteUpload (u_owner u) (u_id u))) w = (x, w1)" by fastforce
  from yieldsD_ok [OF gone_holds Cons.prems(1)] yieldsD_err [OF gone_holds Cons.prems(1)] x
  have "holds N w1" by (cases x) auto
  with Cons x show ?case by (cases x) auto
qed simp

lemma CollectUploads_holds: "holds N w \<Longrightarrow> CollectUploads S t w = (r, w') \<Longrightarrow> holds N w'"
proof -
  assume w: "holds N w" and run: "CollectUploads S t w = (r, w')"
  obtain x w1 where x: "query (ExpiredUploads t) w = (x, w1)" by fastforce
  from look_holds [OF ExpiredUploads_same w x] run x show ?thesis
    by (cases x) (auto simp: CollectUploads_def intro: abort_expired_holds)
qed
end
end
