(* ===== verification/GoTime.thy ===== *)
theory GoTime
  imports BlobKey
begin

text \<open>
  What the program uses of \<^verbatim>\<open>time.Time\<close> beyond the date of theory \<open>BlobKey\<close>: the clock of a
  moment in UTC, \<open>Format\<close> with \<^verbatim>\<open>http.TimeFormat\<close> and with the layout of a backup's name, and
  \<open>Parse\<close> with the latter.  A moment is nanoseconds since the epoch.
\<close>

definition in_seconds :: "int \<Rightarrow> int" where
  "in_seconds t = t div 1000000000"

definition clock_of :: "int \<Rightarrow> int \<times> int \<times> int" where
  "clock_of t = (let s = in_seconds t mod 86400 in (s div 3600, s div 60 mod 60, s mod 60))"

text \<open>\<open>appendInt\<close> of \<^verbatim>\<open>time/format.go\<close>: the sign comes before the zeros.\<close>

definition append_int :: "int \<Rightarrow> nat \<Rightarrow> bytes" where
  "append_int n width =
     (let ds = digits (nat \<bar>n\<bar>) in (if n < 0 then ''-'' else []) @ replicate (width - length ds) (CHR ''0'') @ ds)"

definition short_days :: "bytes list" where
  "short_days = [''Sun'', ''Mon'', ''Tue'', ''Wed'', ''Thu'', ''Fri'', ''Sat'']"

definition short_months :: "bytes list" where
  "short_months = [''Jan'', ''Feb'', ''Mar'', ''Apr'', ''May'', ''Jun'', ''Jul'', ''Aug'', ''Sep'', ''Oct'', ''Nov'', ''Dec'']"

text \<open>The epoch was a Thursday.\<close>

definition weekday :: "int \<Rightarrow> nat" where
  "weekday t = nat ((in_seconds t div 86400 + 4) mod 7)"

definition http_time :: "int \<Rightarrow> bytes" where
  "http_time t =
     (case date_of t of (y, m, d) \<Rightarrow>
      case clock_of t of (hh, mm, ss) \<Rightarrow>
        short_days ! weekday t @ '', '' @ append_int d 2 @ '' '' @ short_months ! nat (m - 1) @ '' '' @ append_int y 4
          @ '' '' @ append_int hh 2 @ '':'' @ append_int mm 2 @ '':'' @ append_int ss 2 @ '' GMT'')"

text \<open>The layout \<^verbatim>\<open>20060102T150405Z\<close>, whose last letter is one and no zone.\<close>

definition stamp :: "int \<Rightarrow> bytes" where
  "stamp t =
     (case date_of t of (y, m, d) \<Rightarrow>
      case clock_of t of (hh, mm, ss) \<Rightarrow>
        append_int y 4 @ append_int m 2 @ append_int d 2 @ ''T'' @ append_int hh 2 @ append_int mm 2 @ append_int ss 2 @ ''Z'')"

lemma http_time_epoch: "http_time 0 = ''Thu, 01 Jan 1970 00:00:00 GMT''"
  and http_time_billion: "http_time 1000000000999999999 = ''Sun, 09 Sep 2001 01:46:40 GMT''"
  and stamp_billion: "stamp 1000000000000000000 = ''20010909T014640Z''"
  by (code_simp, code_simp, code_simp)

section \<open>Parsing\<close>

definition is_digit :: "char \<Rightarrow> bool" where
  "is_digit c \<longleftrightarrow> 48 \<le> byte c \<and> byte c \<le> 57"

text \<open>A field of exactly \<open>n\<close> digits.\<close>

definition field :: "nat \<Rightarrow> bytes \<Rightarrow> (int \<times> bytes) option" where
  "field n s =
     (if length s < n \<or> \<not> list_all is_digit (take n s) then None
      else map_option (\<lambda>v. (int v, drop n s)) (parse_digits 0 (take n s)))"

text \<open>
  A fraction after the seconds is read although the layout has none: a dot or a comma and at
  least one digit, of which nine count.
\<close>

definition fraction :: "bytes \<Rightarrow> int \<times> bytes" where
  "fraction s =
     (case s of
        c # d # _ \<Rightarrow>
          (if (c = CHR ''.'' \<or> c = CHR '','') \<and> is_digit d
           then (let ds = takeWhile is_digit (tl s); used = take 9 ds
                 in (case parse_digits 0 used of None \<Rightarrow> 0 | Some v \<Rightarrow> int v * 10 ^ (9 - length used), drop (Suc (length ds)) s))
           else (0, s))
      | _ \<Rightarrow> (0, s))"

definition leap :: "int \<Rightarrow> bool" where
  "leap y \<longleftrightarrow> y mod 4 = 0 \<and> (y mod 100 \<noteq> 0 \<or> y mod 400 = 0)"

definition days_in :: "int \<Rightarrow> int \<Rightarrow> int" where
  "days_in m y = (if m = 2 then (if leap y then 29 else 28) else if m \<in> {4, 6, 9, 11} then 30 else 31)"

text \<open>The day of a date, counted from the epoch: years begin in March.\<close>

definition days_of :: "int \<Rightarrow> int \<Rightarrow> int \<Rightarrow> int" where
  "days_of y m d =
     (let y' = (if m \<le> 2 then y - 1 else y);
          era = y' div 400;
          yoe = y' mod 400;
          doy = (153 * (if m > 2 then m - 3 else m + 9) + 2) div 5 + d - 1;
          doe = yoe * 365 + yoe div 4 - yoe div 100 + doy
      in era * 146097 + doe - 719468)"

definition parse_stamp :: "bytes \<Rightarrow> int option" where
  "parse_stamp s =
     Option.bind (field 4 s) (\<lambda>(y, s1).
     Option.bind (field 2 s1) (\<lambda>(m, s2).
     if m \<le> 0 \<or> 12 < m then None else
     Option.bind (field 2 s2) (\<lambda>(d, s3).
     Option.bind (cut_prefix s3 ''T'') (\<lambda>s4.
     Option.bind (field 2 s4) (\<lambda>(hh, s5).
     if 24 \<le> hh then None else
     Option.bind (field 2 s5) (\<lambda>(mm, s6).
     if 60 \<le> mm then None else
     Option.bind (field 2 s6) (\<lambda>(ss, s7).
     if 60 \<le> ss then None else
     case fraction s7 of (ns, s8) \<Rightarrow>
     if s8 \<noteq> ''Z'' then None
     else if d < 1 \<or> days_in m y < d then None
     else Some ((((days_of y m d * 24 + hh) * 60 + mm) * 60 + ss) * 1000000000 + ns))))))))"

lemma parse_stamp_billion: "parse_stamp ''20010909T014640Z'' = Some 1000000000000000000"
  and parse_stamp_fraction: "parse_stamp ''20010909T014640.5Z'' = Some 1000000000500000000"
  and parse_stamp_leap: "parse_stamp ''20240229T000000Z'' \<noteq> None \<and> parse_stamp ''20230229T000000Z'' = None"
  by (code_simp, code_simp, code_simp)

end
