(* ===== verification/BackupOps.thy ===== *)
theory BackupOps
  imports FilesTrash Collect GoTime
begin

text \<open>
  \<^verbatim>\<open>internal/files/backup.go\<close>: copies of the database in the blob store, each a file of the tree
  under a key that says when it was taken, the oldest destroyed when a new one has landed.  What
  the driver writes is an argument: \<open>dump\<close> is \<open>BackupTo\<close> as a function of the tables, and
  \<open>None\<close> for a driver that has none.  The scratch file it goes through is not part of the store.
\<close>

section \<open>Backups\<close>

definition BackupsKept :: nat where "BackupsKept = 7"
definition backupType :: bytes where "backupType = ''application/vnd.sqlite3''"

datatype backup_error = ErrNoBackup | BackupFailed error

record backup =
  bk_path :: bytes
  bk_key :: bytes
  bk_at :: int
  bk_size :: int

definition no_backup :: backup where
  "no_backup = \<lparr>bk_path = [], bk_key = [], bk_at = 0, bk_size = 0\<rparr>"

type_synonym dumper = "(database \<Rightarrow> bytes) option"

definition CanBackUp :: "dumper \<Rightarrow> bool" where
  "CanBackUp dump \<longleftrightarrow> dump \<noteq> None"

definition cut_suffix :: "bytes \<Rightarrow> bytes \<Rightarrow> bytes option" where
  "cut_suffix s suf = (if has_suffix s suf then Some (take (length s - length suf) s) else None)"

definition backupTime :: "bytes \<Rightarrow> int option" where
  "backupTime key =
     Option.bind (cut_prefix key BackupPrefix) (\<lambda>name.
     Option.bind (cut_suffix name ''.db'') parse_stamp)"

definition backup_of :: "db_file \<Rightarrow> backup option" where
  "backup_of f = (if f_is_dir f then None else
     map_option (\<lambda>at. \<lparr>bk_path = f_path f, bk_key = f_blob f, bk_at = at, bk_size = f_size f\<rparr>) (backupTime (f_blob f)))"

text \<open>
  Newest first.  \<^verbatim>\<open>slices.SortFunc\<close> may put two of the same moment in either order; here they
  stay in the order of the listing.
\<close>

definition Backups :: "bytes \<Rightarrow> bytes \<Rightarrow> ('s, backup list) act" where
  "Backups owner dir =
     tryE (query (ListFiles owner dir)) (\<lambda>r.
     case (case r of Inr rows \<Rightarrow> Inr rows | Inl e \<Rightarrow> if e = ErrNotFound then Inr [] else Inl e) of
       Inl e \<Rightarrow> failE e
     | Inr rows \<Rightarrow> retE (sort_key (\<lambda>b. - bk_at b) (List.map_filter backup_of rows)))"

section \<open>Taking one\<close>

text \<open>What ends up in the scratch file: the driver writes it, and it is opened and measured.\<close>

definition take_dump :: "(database \<Rightarrow> bytes) \<Rightarrow> ('s, bytes) act" where
  "take_dump dump =
     bindE rand_id (\<lambda>_.
     bindE check (\<lambda>_ w.
     bindE check (\<lambda>_.
     bindE check (\<lambda>_. retE (dump (w_db w)))) w))"

definition file_backup :: "db_file \<Rightarrow> ('s, db_file) act" where
  "file_backup row =
     Tx (bindE (restoreParents (f_owner row) (f_path row)) (\<lambda>_. query (PutFile row)))"

definition whole_second :: "int \<Rightarrow> int" where
  "whole_second t = t - t mod 1000000000"

definition backup_path :: "bytes \<Rightarrow> int \<Rightarrow> bytes" where
  "backup_path dir t = dir @ ''/'' @ stamp (whole_second t) @ ''.db''"

definition backup_key :: "int \<Rightarrow> bytes" where
  "backup_key t = BackupPrefix @ stamp (whole_second t) @ ''.db''"

text \<open>Up to the row being in: the backup is there or nothing is.\<close>

definition land_backup :: "'s service \<Rightarrow> (database \<Rightarrow> bytes) \<Rightarrow> bytes \<Rightarrow> bytes \<Rightarrow> int \<Rightarrow> ('s, backup) act" where
  "land_backup S dump owner dir t =
     (let path = backup_path dir t; key = backup_key t in
      bindE (liftE (ValidatePath path)) (\<lambda>_.
      bindE (take_dump dump) (\<lambda>data.
      bindE (blob (port_put (svc_blobs S) key (of_bytes data) (int (length data)))) (\<lambda>stored.
      let row = no_file\<lparr>f_owner := owner, f_path := path, f_blob := key, f_size := i_size stored,
                  f_mtime := i_mtime stored, f_etag := etag S data, f_mime := backupType\<rparr> in
      tryE (file_backup row) (\<lambda>r.
      case r of
        Inl e \<Rightarrow> bindE (best_effort (blob (port_delete (svc_blobs S) key))) (\<lambda>_. failE e)
      | Inr row' \<Rightarrow>
          bindE (written row') (\<lambda>_.
          retE \<lparr>bk_path = path, bk_key = key, bk_at = whole_second t, bk_size = i_size stored\<rparr>))))))"

definition rotate :: "'s service \<Rightarrow> bytes \<Rightarrow> bytes \<Rightarrow> ('s, unit) act" where
  "rotate S owner dir =
     bindE (Backups owner dir) (\<lambda>all.
     foreach (\<lambda>old. bindE (query (DeleteFile owner (bk_path old))) (\<lambda>_. dropBlob S (bk_key old))) (drop BackupsKept all))"

text \<open>Once the new one is in, it is returned whatever the rotation comes to.\<close>

definition BackUp ::
  "'s service \<Rightarrow> dumper \<Rightarrow> bytes \<Rightarrow> bytes \<Rightarrow> int \<Rightarrow> 's world \<Rightarrow> (backup \<times> backup_error option) \<times> 's world" where
  "BackUp S dump owner dir t w =
     (case dump of
        None \<Rightarrow> ((no_backup, Some ErrNoBackup), w)
      | Some d \<Rightarrow>
          (case land_backup S d owner dir t w of
             (Inl e, w1) \<Rightarrow> ((no_backup, Some (BackupFailed e)), w1)
           | (Inr b, w1) \<Rightarrow>
               (case rotate S owner dir w1 of
                  (Inl e, w2) \<Rightarrow> ((b, Some (BackupFailed e)), w2)
                | (Inr _, w2) \<Rightarrow> ((b, None), w2))))"

section \<open>After a restore\<close>

definition adoptable :: "bytes \<Rightarrow> bytes list \<Rightarrow> object_info \<Rightarrow> db_file option" where
  "adoptable dir claimed i =
     (if i_key i \<in> set claimed \<or> backupTime (i_key i) = None then None
      else Some (no_file\<lparr>f_path := dir @ ''/'' @ trim_prefix (i_key i) BackupPrefix, f_blob := i_key i,
                   f_size := i_size i, f_mtime := i_mtime i, f_mime := backupType\<rparr>))"

definition AdoptBackups :: "'s service \<Rightarrow> bytes \<Rightarrow> bytes \<Rightarrow> ('s, int) act" where
  "AdoptBackups S owner dir =
     bindE (query BlobKeys) (\<lambda>ks.
     bindE (query TrashKeys) (\<lambda>ts w.
     case blob_list S BackupPrefix w of
       ((is, Some e), w1) \<Rightarrow> (Inl e, w1)
     | ((is, None), w1) \<Rightarrow>
         (let rows = List.map_filter (adoptable dir (ks @ ts)) is in
          if rows = [] then (Inr 0, w1)
          else bindE (Adopt owner (sort_key f_path rows)) (\<lambda>(adopted, skipped). retE adopted) w1)))"

end
