(* ===== verification/RemoveTree.thy ===== *)
theory RemoveTree
  imports Accounts
begin

text \<open>
  What \<open>removeTree\<close> of \<^verbatim>\<open>internal/files/files.go\<close> does to a sound tree: it takes the
  entry and everything under it and nothing else, and when nothing fails the bound on its
  recursion is never met.
\<close>

section \<open>Pruning\<close>

abbreviation at_or_under :: "bytes \<Rightarrow> bytes \<Rightarrow> bool" where
  "at_or_under p q \<equiv> q = p \<or> under p q"

text \<open>Rows of one owner, under some paths, have gone, and everything else is as it was.\<close>

definition pruned :: "bytes \<Rightarrow> (bytes \<Rightarrow> bool) \<Rightarrow> database \<Rightarrow> database \<Rightarrow> bool" where
  "pruned owner R d d' \<longleftrightarrow>
     (\<exists>P. files d' = filter P (files d) \<and> (\<forall>x\<in>set (files d). \<not> P x \<longrightarrow> f_owner x = owner \<and> R (f_path x)))
     \<and> trash d' = trash d \<and> uploads d' = uploads d \<and> next_id d' = next_id d"

lemma pruned_refl [simp]: "pruned owner R d d"
  by (auto simp: pruned_def intro: exI [of _ "\<lambda>_. True"])

lemma pruned_trans: "pruned owner R d d1 \<Longrightarrow> pruned owner R d1 d2 \<Longrightarrow> pruned owner R d d2"
  unfolding pruned_def by (elim conjE exE, intro conjI exI [of _ "\<lambda>x. P x \<and> Pa x" for P Pa]) auto

lemma pruned_mono: "pruned owner R d d' \<Longrightarrow> (\<And>q. R q \<Longrightarrow> R' q) \<Longrightarrow> pruned owner R' d d'"
  unfolding pruned_def by blast

lemma pruned_subset: "pruned owner R d d' \<Longrightarrow> set (files d') \<subseteq> set (files d)"
  by (auto simp: pruned_def)

lemma pruned_keeps: "pruned owner R d d' \<Longrightarrow> x \<in> set (files d) \<Longrightarrow> \<not> (f_owner x = owner \<and> R (f_path x)) \<Longrightarrow> x \<in> set (files d')"
  by (auto simp: pruned_def)

lemma pruned_lookup:
  assumes p: "pruned owner R d d'" and ok: "rows_ok (files d)" "rows_ok (files d')" and o: "\<not> (o' = owner \<and> R q)"
  shows "lookup_file d' o' q = lookup_file d o' q"
proof (cases "lookup_file d o' q")
  case None
  with pruned_subset [OF p] have "lookup_file d' o' q = None" by (auto simp: lookup_file_None_iff)
  with None show ?thesis by simp
next
  case (Some r)
  with lookup_file_SomeD [OF Some] o have "r \<in> set (files d')" by (intro pruned_keeps [OF p]) auto
  with Some lookup_file_SomeD [OF Some] lookup_file_Some_iff [OF ok(2), of o' q r] show ?thesis
    by (simp add: at_key_def)
qed

lemma pruned_gone: "pruned owner R d d' \<Longrightarrow> lookup_file d o' q = None \<Longrightarrow> lookup_file d' o' q = None"
  using pruned_subset by (fastforce simp: lookup_file_None_iff)

lemma query_calm:
  assumes "calm (w_env w)"
  obtains e where "query q w = (fst (q (w_db w)), w\<lparr>w_env := e, w_db := snd (q (w_db w))\<rparr>)" "calm e"
  using check_calm [OF assms] by (auto simp: query_def run_query_def case_prod_beta)

text \<open>Nothing is under a path where nothing is.\<close>

lemma nothing_under:
  assumes ok: "rows_ok (files d)" and none: "lookup_file d owner p = None" and u: "under p q"
  shows "lookup_file d owner q = None"
proof (rule ccontr)
  assume "lookup_file d owner q \<noteq> None"
  then obtain r where r: "r \<in> set (files d)" "f_owner r = owner" "f_path r = q" using lookup_file_SomeD by blast
  have "p \<noteq> []"
  proof
    assume "p = []"
    with u r(3) rows_okD(1) [OF ok r(1)] show False
      by (auto simp: under_iff valid_path_def ValidatePath_def has_prefix_def split: if_splits)
  qed
  moreover have "\<not> has_dir (files d) owner p" using none by (auto simp: has_dir_iff lookup_file_None_iff at_key_def)
  ultimately show False using lookup_under_absent [OF ok] r u by blast
qed

section \<open>One statement\<close>

lemma DeleteFile_pruned:
  assumes ok: "tree_ok d" and del: "DeleteFile owner path d = (r, d')"
  shows "tree_ok d' \<and> pruned owner (\<lambda>q. q = path) d d'
     \<and> (is_ok r \<longrightarrow> (\<exists>x. lookup_file d owner path = Some x \<and> lookup_file d' owner path = None
          \<and> mset (files d) = add_mset x (mset (files d'))))"
proof -
  have ok': "tree_ok d'" using DeleteFile_tree_ok [OF ok, of owner path] del by simp
  show ?thesis
  proof (cases "valid_path path")
    case False
    with ok' del show ?thesis by (auto simp: DeleteFile_def ValidatePath_cases)
  next
    case valid: True
    let ?doomed = "\<lambda>r. at_key owner path r \<and> children d owner path = []"
    let ?d = "d\<lparr>files := filter (\<lambda>r. \<not> ?doomed r) (files d)\<rparr>"
    from del valid have d': "d' = ?d" and r: "r = CheckAffected (length (filter ?doomed (files d))) ?d owner path"
      by (auto simp: DeleteFile_def Let_def ValidatePath_cases)
    have "pruned owner (\<lambda>q. q = path) d d'"
      unfolding d' pruned_def by (intro conjI exI [of _ "\<lambda>r. \<not> ?doomed r"]) (auto simp: at_key_def)
    moreover have "\<exists>x. lookup_file d owner path = Some x \<and> lookup_file d' owner path = None
        \<and> mset (files d) = add_mset x (mset (files d'))" if "is_ok r"
    proof -
      from that r have "filter ?doomed (files d) \<noteq> []"
        by (auto simp: CheckAffected_def split: option.splits if_splits)
      then obtain x where x: "x \<in> set (files d)" "?doomed x" unfolding filter_empty_conv by blast
      from ok have "uniq d" by (simp add: tree_ok_def rows_ok_def uniq_def)
      with x have "filter (at_key owner path) (files d) = [x]" by (intro uniq_filter_key) (auto simp: uniq_def)
      moreover from this x have "filter ?doomed (files d) = [x]" by simp
      moreover have "mset (files d) = mset (filter ?doomed (files d)) + mset (filter (\<lambda>r. \<not> ?doomed r) (files d))"
        by (simp add: multiset_partition)
      moreover have "lookup_file d' owner path = None" using x unfolding d' by (auto simp: lookup_file_None_iff)
      ultimately show ?thesis using find_filter [of "at_key owner path" "files d" x "[]"]
        unfolding d' lookup_file_def by simp
    qed
    ultimately show ?thesis using ok' by blast
  qed
qed

text \<open>A directory with nothing under it, or a file, is deleted.\<close>

lemma DeleteFile_works:
  assumes "lookup_file d owner path \<noteq> None" "children d owner path = []" "valid_path path"
  shows "is_ok (fst (DeleteFile owner path d))"
proof -
  from assms(1) obtain x where "lookup_file d owner path = Some x" by blast
  with lookup_file_SomeD [OF this] have "x \<in> set (filter (at_key owner path) (files d))" by (auto simp: at_key_def)
  then have "filter (at_key owner path) (files d) \<noteq> []" by (metis empty_iff empty_set)
  with assms(2,3) show ?thesis by (simp add: DeleteFile_def Let_def ValidatePath_cases CheckAffected_def)
qed

section \<open>The recursion\<close>

definition beneath :: "db_file list \<Rightarrow> bytes \<Rightarrow> bool" where
  "beneath cs q \<longleftrightarrow> (\<exists>c\<in>set cs. at_or_under (f_path c) q)"

text \<open>
  The database after a removal that returned \<open>r\<close>: \<open>R\<close> says what may have gone; on success the
  entries asked for have, and the rows returned are the ones that went.
\<close>

definition removes ::
  "bytes \<Rightarrow> (bytes \<Rightarrow> bool) \<Rightarrow> bytes set \<Rightarrow> 's world \<Rightarrow> db_file list result \<Rightarrow> 's world \<Rightarrow> bool" where
  "removes owner R asked w r w' \<longleftrightarrow> w_blobs w' = w_blobs w \<and> w_told w' = w_told w
     \<and> tree_ok (w_db w') \<and> pruned owner R (w_db w) (w_db w')
     \<and> (\<forall>rows. r = Inr rows \<longrightarrow> (\<forall>p\<in>asked. lookup_file (w_db w') owner p = None)
          \<and> mset (map scan_file (files (w_db w))) = mset (map scan_file (files (w_db w'))) + mset rows)"

lemma look_world: "(\<And>d. snd (q d) = d) \<Longrightarrow> query q w = (r, w1) \<Longrightarrow>
    w_blobs w1 = w_blobs w \<and> w_told w1 = w_told w \<and> w_db w1 = w_db w"
  by (erule query_cases) (auto, metis snd_conv)

lemma removes_err: "removes owner R A w (Inl e) w' \<longleftrightarrow> w_blobs w' = w_blobs w \<and> w_told w' = w_told w
     \<and> tree_ok (w_db w') \<and> pruned owner R (w_db w) (w_db w')"
  by (simp add: removes_def)

lemma removes_from: "removes owner R A w1 r w' \<Longrightarrow> w_blobs w1 = w_blobs w \<and> w_told w1 = w_told w \<and> w_db w1 = w_db w \<Longrightarrow>
    removes owner R A w r w'"
  by (simp add: removes_def)

lemma removes_trans:
  assumes "removes owner R A w (Inr a) w1" "removes owner R B w1 r w2"
  shows "removes owner R (A \<union> B) w (map_sum id (\<lambda>b. a @ b) r) w2"
proof (cases r)
  case (Inl e)
  with assms show ?thesis by (auto simp: removes_def intro: pruned_trans)
next
  case (Inr b)
  with assms pruned_gone show ?thesis unfolding removes_def by (auto intro: pruned_trans)
qed

lemma children_under:
  assumes "tree_ok (w_db w)" "query (ListFiles owner path) w = (Inr cs, w1)" "c \<in> set cs" "path \<noteq> []"
  shows "lookup_file (w_db w) owner (f_path c) \<noteq> None \<and> ParentOf (f_path c) = path \<and> under path (f_path c)"
proof -
  from assms(2) have "ListFiles owner path (w_db w) = (Inr cs, w_db w)"
    by (cases rule: query_cases) (auto, metis ListFiles_same snd_conv)
  then have "set cs = scan_file ` set (children (w_db w) owner path)"
    by (auto simp: ListFiles_def split: sum.splits)
  with assms(3) obtain r where r: "r \<in> set (files (w_db w))" "f_owner r = owner" "parent_path r = path" "f_path c = f_path r"
    by (auto simp: children_def)
  from assms(1) r have "ParentOf (f_path r) = path" by (auto simp: tree_ok_def dest: rows_okD(2))
  with r assms(4) ParentOf_under [of "f_path r"] show ?thesis by (auto simp: lookup_file_None_iff at_key_def)
qed

lemma delete_removes:
  assumes ok: "tree_ok (w_db w)" and look: "lookup_file (w_db w) owner path = Some x \<or> \<not> is_ok r"
    and run: "bindE (query (DeleteFile owner path)) (\<lambda>_. retE [scan_file x]) w = (r, w')"
  shows "removes owner (at_or_under path) {path} w r w'"
  using run
proof (cases rule: bindE_cases)
  case (1 e)
  from 1(1) show ?thesis
  proof (cases rule: query_cases)
    case 1
    with ok \<open>r = Inl e\<close> show ?thesis by (simp add: removes_err)
  next
    case (2 e' d)
    with DeleteFile_pruned [OF ok 2(2)] \<open>r = Inl e\<close> show ?thesis by (auto simp: removes_err intro: pruned_mono)
  qed
next
  case (2 v w1)
  from 2(1) show ?thesis
  proof (cases rule: query_cases)
    case q: (2 e' d)
    with DeleteFile_pruned [OF ok q(2)] 2(2) look show ?thesis
      by (auto simp: removes_def intro: pruned_mono)
  qed simp
qed

lemma removeTree_removes:
  "tree_ok (w_db w) \<Longrightarrow> removeTree n owner path w = (r, w') \<Longrightarrow> removes owner (at_or_under path) {path} w r w'"
  "tree_ok (w_db w) \<Longrightarrow> removeAll n owner cs w = (r, w') \<Longrightarrow> removes owner (beneath cs) (f_path ` set cs) w r w'"
proof (induction n owner path and n owner cs arbitrary: w r w' and w r w' rule: removeTree_removeAll.induct)
  case (1 owner path)
  then show ?case by (auto simp: removes_def)
next
  case (2 n owner path)
  from "2.prems"(2) show ?case unfolding removeTree.simps
  proof (cases rule: bindE_cases)
    case (1 e)
    with look_world [OF FileByPath_same 1(1)] "2.prems"(1) show ?thesis by (simp add: removes_err)
  next
    case (2 f w1)
    note look = look_world [OF FileByPath_same 2(1)]
    from 2(1) obtain x where f: "lookup_file (w_db w) owner path = Some x" "f = scan_file x"
      and valid: "valid_path path" by (cases rule: query_cases) (auto simp: FileByPath_ok)
    from look "2.prems"(1) have ok1: "tree_ok (w_db w1)" by simp
    from valid have ne: "path \<noteq> []" by (auto simp: valid_path_def ValidatePath_def)
    let ?kids = "if f_is_dir f then bindE (query (ListFiles owner path)) (removeAll n owner) else retE []"
    have kids: "removes owner (\<lambda>q. under path q) {} w1 r2 w2" if run: "?kids w1 = (r2, w2)" for r2 w2
    proof (cases "f_is_dir f")
      case True
      from run have "bindE (query (ListFiles owner path)) (removeAll n owner) w1 = (r2, w2)"
        by (simp only: True if_True)
      then show ?thesis
      proof (cases rule: bindE_cases)
        case (1 e)
        with look_world [OF ListFiles_same 1(1)] ok1 show ?thesis by (simp add: removes_err)
      next
        case ls: (2 cs w2')
        note l2 = look_world [OF ListFiles_same ls(1)]
        with ok1 have "tree_ok (w_db w2')" by simp
        note rm = removes_from [OF "2.IH" [OF True this ls(2)] l2]
        have "under path q" if "beneath cs q" for q
          using that children_under [OF ok1 ls(1) _ ne] unfolding beneath_def by (auto intro: under_trans)
        with rm show ?thesis by (auto simp: removes_def intro: pruned_mono)
      qed
    next
      case False
      with run ok1 show ?thesis by (auto simp: removes_def)
    qed
    from 2(2) show ?thesis
    proof (cases rule: bindE_cases)
      case (1 e)
      with kids [OF 1(1)] look show ?thesis by (auto simp: removes_def intro: pruned_mono)
    next
      case k: (2 rows w2)
      note s2 = kids [OF k(1)]
      then have ok2: "tree_ok (w_db w2)" by (simp add: removes_def)
      have x2: "lookup_file (w_db w2) owner path = Some x"
        using pruned_lookup [of owner "under path" "w_db w1" "w_db w2" owner path] s2 ok1 ok2 f look
        by (simp add: removes_def tree_ok_def)
      obtain r3 w3 where r3': "bindE (query (DeleteFile owner path)) (\<lambda>_. retE [scan_file x]) w2 = (r3, w3)" by fastforce
      with k(2) f(2) have r3: "bindE (query (DeleteFile owner path)) (\<lambda>_. retE [scan_file x]) w2 = (r3, w')"
        and r: "r = map_sum id (\<lambda>b. rows @ b) r3"
        by (auto simp: bindE_def split: sum.splits prod.splits)
      have s2': "removes owner (at_or_under path) {} w (Inr rows) w2"
        using removes_from [OF s2 look] by (auto simp: removes_def intro: pruned_mono)
      from removes_trans [OF s2' delete_removes [OF ok2 _ r3]] x2 show ?thesis by (simp add: r)
    qed
  qed
next
  case (3 n owner)
  then show ?case by (auto simp: removes_def)
next
  case (4 n owner child cs)
  have mono: "removes owner (beneath (child # cs)) A w0 r0 w0'" if "removes owner R A w0 r0 w0'"
    "\<And>q. R q \<Longrightarrow> beneath (child # cs) q" for R A r0 and w0 w0' :: "'b world"
    using that by (auto simp: removes_def intro: pruned_mono)
  from "4.prems"(2) show ?case unfolding removeAll.simps
  proof (cases rule: bindE_cases)
    case (1 e)
    have "removes owner (beneath (child # cs)) {f_path child} w (Inl e) w'"
      by (rule mono [OF "4.IH"(1) [OF "4.prems"(1) 1(1)]]) (simp add: beneath_def)
    with 1 show ?thesis by (simp add: removes_err)
  next
    case (2 under w1)
    have s1: "removes owner (beneath (child # cs)) {f_path child} w (Inr under) w1"
      by (rule mono [OF "4.IH"(1) [OF "4.prems"(1) 2(1)]]) (simp add: beneath_def)
    then have ok1: "tree_ok (w_db w1)" by (simp add: removes_def)
    obtain r3 w3 where "removeAll n owner cs w1 = (r3, w3)" by fastforce
    with 2(2) have r3: "removeAll n owner cs w1 = (r3, w')" "r = map_sum id (\<lambda>b. under @ b) r3"
      by (auto simp: bindE_def split: sum.splits prod.splits)
    have "removes owner (beneath (child # cs)) (f_path ` set cs) w1 r3 w'"
      by (rule mono [OF "4.IH"(2) [OF ok1 r3(1)]]) (auto simp: beneath_def)
    from removes_trans [OF s1 this] show ?thesis by (simp add: r3(2))
  qed
qed

section \<open>When nothing fails\<close>

text \<open>
  Every level of the recursion is a longer path, and no path is longer than \<open>MaxPathLen\<close>, so
  \<open>n\<close> levels are enough at a path longer than \<open>MaxPathLen - n\<close>.
\<close>

definition siblings :: "bytes \<Rightarrow> db_file list \<Rightarrow> bool" where
  "siblings dir cs \<longleftrightarrow> distinct (map f_path cs) \<and> (\<forall>c\<in>set cs. ParentOf (f_path c) = dir \<and> f_path c \<noteq> [])"

lemma sibling_not_under: "ParentOf p = ParentOf q \<Longrightarrow> p \<noteq> [] \<Longrightarrow> \<not> under p q"
  using under_ParentOf [of p q] under_length [of p "ParentOf q"] ParentOf_shorter [of p] by fastforce

lemma removes_done:
  "removes owner R A w (Inr rows) w' \<Longrightarrow> tree_ok (w_db w') \<and> pruned owner R (w_db w) (w_db w') \<and> (\<forall>p\<in>A. lookup_file (w_db w') owner p = None)"
  by (simp add: removes_def)

lemma listed_siblings:
  assumes ok: "tree_ok d" and ls: "ListFiles owner path d = (Inr cs, d')"
  shows "distinct (map f_path cs)
    \<and> (\<forall>x\<in>set (files d). f_owner x = owner \<longrightarrow> parent_path x = path \<longrightarrow> f_path x \<in> f_path ` set cs)"
proof -
  let ?rs = "sort_key (\<lambda>r. (\<not> f_is_dir r, f_path r)) (children d owner path)"
  from ls have cs: "cs = map scan_file ?rs" by (auto simp: ListFiles_def split: sum.splits)
  have "distinct (map f_path (children d owner path))"
  proof -
    from ok have "distinct (map row_key_of (files d))" by (simp add: tree_ok_def rows_ok_def)
    then have "distinct (map row_key_of (children d owner path))" by (simp add: children_def distinct_map_filter)
    then show ?thesis by (auto simp: distinct_map inj_on_def row_key_of_def children_def)
  qed
  then have "distinct (map f_path ?rs)" by (simp add: distinct_map inj_on_def)
  then show ?thesis by (auto simp: cs comp_def children_def image_image)
qed

lemma file_no_children:
  assumes ok: "rows_ok (files d)" and x: "lookup_file d owner path = Some x" "\<not> f_is_dir x" and ne: "path \<noteq> []"
  shows "children d owner path = []"
proof -
  have False if y: "y \<in> set (files d)" "f_owner y = owner" "parent_path y = path" for y
  proof -
    from rows_okD [OF ok y(1)] y ne have "has_dir (files d) owner path" by auto
    then obtain z where z: "z \<in> set (files d)" "f_owner z = owner" "f_path z = path" "f_is_dir z"
      by (auto simp: has_dir_iff)
    from lookup_file_SomeD [OF x(1)] rows_ok_unique [OF ok z(1), of x] z x(2) show False by auto
  qed
  then show ?thesis by (auto simp: children_Nil_iff)
qed

lemma listed_gone:
  assumes ok: "tree_ok d" and ls: "ListFiles owner path d = (Inr cs, d)" and p: "pruned owner R d d'"
    and gone: "\<forall>p\<in>f_path ` set cs. lookup_file d' owner p = None"
  shows "children d' owner path = []"
proof -
  have False if y: "y \<in> set (files d')" "f_owner y = owner" "parent_path y = path" for y
  proof -
    from y(1) pruned_subset [OF p] have "y \<in> set (files d)" by blast
    with y listed_siblings [OF ok ls] have "f_path y \<in> f_path ` set cs" by simp
    with gone have "lookup_file d' owner (f_path y) = None" by blast
    with y show False by (auto simp: lookup_file_None_iff at_key_def)
  qed
  then show ?thesis by (auto simp: children_Nil_iff)
qed

lemma sibling_kept:
  assumes ok: "tree_ok d" "tree_ok d'" and sib: "siblings dir (child # cs)" and p: "pruned owner (at_or_under (f_path child)) d d'"
    and c: "c \<in> set cs"
  shows "lookup_file d' owner (f_path c) = lookup_file d owner (f_path c)"
proof -
  from c have "f_path c \<in> f_path ` set cs" by (rule imageI)
  with sib have "f_path c \<noteq> f_path child" unfolding siblings_def by (metis distinct.simps(2) list.simps(9) set_map)
  moreover have "ParentOf (f_path child) = ParentOf (f_path c)" "f_path child \<noteq> []"
    using sib c by (simp_all add: siblings_def)
  then have "\<not> under (f_path child) (f_path c)" by (rule sibling_not_under)
  ultimately show ?thesis using pruned_lookup [OF p] ok by (simp add: tree_ok_def)
qed

lemma delete_works:
  assumes "calm (w_env w)" "lookup_file (w_db w) owner path \<noteq> None" "children (w_db w) owner path = []" "valid_path path"
  obtains v w' where "query (DeleteFile owner path) w = (Inr v, w')" "calm (w_env w')"
proof -
  obtain v where v: "fst (DeleteFile owner path (w_db w)) = Inr v"
    using DeleteFile_works [OF assms(2-4)] by (cases "fst (DeleteFile owner path (w_db w))") auto
  obtain e where "query (DeleteFile owner path) w
      = (fst (DeleteFile owner path (w_db w)), w\<lparr>w_env := e, w_db := snd (DeleteFile owner path (w_db w))\<rparr>)" "calm e"
    by (rule query_calm [OF assms(1)])
  with v that show ?thesis by simp
qed

lemma removeTree_works:
  "tree_ok (w_db w) \<Longrightarrow> calm (w_env w) \<Longrightarrow> lookup_file (w_db w) owner path \<noteq> None \<Longrightarrow> MaxPathLen < n + length path \<Longrightarrow>
     \<exists>rows w'. removeTree n owner path w = (Inr rows, w') \<and> calm (w_env w')"
  "tree_ok (w_db w) \<Longrightarrow> calm (w_env w) \<Longrightarrow>
     \<forall>c\<in>set cs. lookup_file (w_db w) owner (f_path c) \<noteq> None \<and> MaxPathLen < n + length (f_path c) \<Longrightarrow> siblings dir cs \<Longrightarrow>
     \<exists>rows w'. removeAll n owner cs w = (Inr rows, w') \<and> calm (w_env w')"
proof (induction n owner path and n owner cs arbitrary: w and w dir rule: removeTree_removeAll.induct)
  case (1 owner path)
  then obtain r where "r \<in> set (files (w_db w))" "f_path r = path" using lookup_file_SomeD by blast
  with "1.prems"(1) have "valid_path path" by (auto simp: tree_ok_def dest: rows_okD(1))
  then have "length path \<le> MaxPathLen" by (auto simp: valid_path_def ValidatePath_def split: if_splits)
  with "1.prems"(4) show ?case by simp
next
  case (2 n owner path)
  from "2.prems"(3) obtain x where x: "lookup_file (w_db w) owner path = Some x" by blast
  with lookup_file_SomeD [OF x] "2.prems"(1) have valid: "valid_path path" by (auto simp: tree_ok_def dest: rows_okD(1))
  then have ne: "path \<noteq> []" by (auto simp: valid_path_def ValidatePath_def)
  let ?f = "scan_file x"
  obtain e where q: "query (FileByPath owner path) w = (Inr ?f, w\<lparr>w_env := e\<rparr>)" and e: "calm e"
    using query_calm [OF "2.prems"(2), of "FileByPath owner path"] x valid
    by (auto simp: FileByPath_def ValidatePath_cases)
  let ?w = "w\<lparr>w_env := e\<rparr>"
  let ?kids = "if f_is_dir ?f then bindE (query (ListFiles owner path)) (removeAll n owner) else retE []"
  have kids: "\<exists>rows w2. ?kids ?w = (Inr rows, w2) \<and> calm (w_env w2) \<and> lookup_file (w_db w2) owner path = Some x
      \<and> children (w_db w2) owner path = []"
  proof (cases "f_is_dir ?f")
    case True
    obtain cs where cs: "ListFiles owner path (w_db w) = (Inr cs, w_db w)"
      using valid ne by (auto simp: ListFiles_def ValidateDir_def ValidatePath_cases)
    obtain e2 where q2: "query (ListFiles owner path) ?w = (Inr cs, w\<lparr>w_env := e2\<rparr>)" and e2: "calm e2"
      using query_calm [of ?w "ListFiles owner path"] e cs by auto
    note ch = children_under [of ?w owner path cs "w\<lparr>w_env := e2\<rparr>", OF _ q2]
    have some: "lookup_file (w_db w) owner (f_path c) \<noteq> None \<and> ParentOf (f_path c) = path \<and> under path (f_path c)"
      if "c \<in> set cs" for c using ch [of c] that ne "2.prems"(1) by simp
    have "siblings path cs" using listed_siblings [OF "2.prems"(1) cs] some under_length by (fastforce simp: siblings_def)
    moreover have "\<forall>c\<in>set cs. MaxPathLen < n + length (f_path c)"
    proof
      fix c assume "c \<in> set cs"
      with some under_length have "length path < length (f_path c)" by blast
      with "2.prems"(4) show "MaxPathLen < n + length (f_path c)" by simp
    qed
    ultimately obtain rows w2 where rm: "removeAll n owner cs (w\<lparr>w_env := e2\<rparr>) = (Inr rows, w2)" "calm (w_env w2)"
      using "2.IH" [OF True, of "w\<lparr>w_env := e2\<rparr>" cs path] "2.prems"(1) e2 some by auto
    have "tree_ok (w_db (w\<lparr>w_env := e2\<rparr>))" using "2.prems"(1) by simp
    note gone = removes_done [OF removeTree_removes(2) [OF this rm(1), unfolded rm(1)]]
    have "\<not> at_or_under (f_path c) path" if "c \<in> set cs" for c
      using some [OF that] under_length [of path "f_path c"] under_length [of "f_path c" path] by auto
    then have "\<not> beneath cs path" by (auto simp: beneath_def)
    then have "lookup_file (w_db w2) owner path = Some x"
      using pruned_lookup [of owner "beneath cs" "w_db w" "w_db w2" owner path] gone x "2.prems"(1) by (simp add: tree_ok_def)
    moreover have "children (w_db w2) owner path = []"
      using listed_gone [OF "2.prems"(1) cs, of "beneath cs"] gone by simp
    ultimately show ?thesis using True q2 rm by auto
  next
    case False
    have "children (w_db w) owner path = []"
      using file_no_children [OF _ x _ ne] "2.prems"(1) False by (simp add: tree_ok_def)
    with False x e show ?thesis by simp
  qed
  then obtain rows w2 where k: "?kids ?w = (Inr rows, w2)" "calm (w_env w2)" "lookup_file (w_db w2) owner path \<noteq> None"
    "children (w_db w2) owner path = []" by auto
  obtain v w3 where "query (DeleteFile owner path) w2 = (Inr v, w3)" "calm (w_env w3)"
    using delete_works [OF k(2-4) valid] by blast
  with q k show ?case by (auto simp: bindE_def)
next
  case (3 n owner)
  then show ?case by simp
next
  case (4 n owner child cs)
  obtain rows w1 where r1: "removeTree n owner (f_path child) w = (Inr rows, w1)" "calm (w_env w1)"
    using "4.IH"(1) [of w] "4.prems" by auto
  note gone = removes_done [OF removeTree_removes(1) [OF "4.prems"(1) r1(1)]]
  have there: "lookup_file (w_db w1) owner (f_path c) \<noteq> None" if "c \<in> set cs" for c
    using sibling_kept [OF "4.prems"(1) _ "4.prems"(4) _ that] gone "4.prems"(3) that by simp
  have sib: "siblings dir cs" using "4.prems"(4) by (simp add: siblings_def)
  have "\<forall>c\<in>set cs. lookup_file (w_db w1) owner (f_path c) \<noteq> None \<and> MaxPathLen < n + length (f_path c)"
    using there "4.prems"(3) by simp
  from "4.IH"(2) [OF conjunct1 [OF gone] r1(2) this sib]
  obtain rest w2 where "removeAll n owner cs w1 = (Inr rest, w2)" "calm (w_env w2)" by blast
  with r1 show ?case by (simp add: bindE_def)
qed

end
