(* ===== verification/SoundBackup.thy ===== *)
theory SoundBackup
  imports SoundUpload BackupOps RemoveTree
begin

text \<open>
  Rows that come with their blobs keep the invariant: what an import hands to \<open>Adopt\<close>, the
  backups found after a restore, and a backup as it lands and the older ones as they go.
\<close>

section \<open>Adopting\<close>

text \<open>
  What \<open>Adopt\<close> asks of its caller, for the rows whose path is not taken yet, which are the ones
  it does not skip: the blob of every file is in the store, of the size the row says, under a key
  that no row has, no other of the rows and no derived object.
\<close>

definition untaken :: "database \<Rightarrow> bytes \<Rightarrow> db_file list \<Rightarrow> db_file list" where
  "untaken d owner rows = filter (\<lambda>f. lookup_file d owner (f_path f) = None) rows"

definition row_keys :: "database \<Rightarrow> bytes set" where
  "row_keys d = f_blob ` {r \<in> set (files d). \<not> f_is_dir r} \<union> f_blob ` {t \<in> set (trash d). \<not> f_is_dir t}"

definition offered :: "('s \<Rightarrow> objects) \<Rightarrow> db_file list \<Rightarrow> 's world \<Rightarrow> bool" where
  "offered obs rows w \<longleftrightarrow> distinct (map f_blob (filter (\<lambda>f. \<not> f_is_dir f) rows))
     \<and> (\<forall>f\<in>set rows. \<not> f_is_dir f \<longrightarrow> (\<exists>d t. obs (w_blobs w) (f_blob f) = Some (d, t) \<and> int (length d) = f_size f)
          \<and> f_blob f \<notin> row_keys (w_db w) \<and> \<not> has_prefix (f_blob f) DerivedPrefix)"

lemma offered_untaken: "offered obs rows w \<Longrightarrow> offered obs (untaken d owner rows) w"
proof -
  assume o: "offered obs rows w"
  have "filter (\<lambda>f. \<not> f_is_dir f) (untaken d owner rows)
      = filter (\<lambda>f. lookup_file d owner (f_path f) = None) (filter (\<lambda>f. \<not> f_is_dir f) rows)"
    by (simp add: untaken_def conj_commute)
  moreover have "distinct (map f_blob \<dots>)" by (rule distinct_map_filter) (use o in \<open>simp add: offered_def\<close>)
  ultimately have "distinct (map f_blob (filter (\<lambda>f. \<not> f_is_dir f) (untaken d owner rows)))" by simp
  then show ?thesis using o by (simp add: offered_def) (simp add: untaken_def)
qed

lemma keys_of_rows_mset: "keys_of (rows_refs xs) = mset (map f_blob (filter (\<lambda>x. \<not> f_is_dir x) xs))"
  by (induction xs) (auto simp: row_ref_def)

lemma keys_of_row_keys: "set_mset (keys_of (refs d)) = row_keys d"
  by (auto simp: refs_def keys_of_rows_mset row_keys_def image_iff)

lemma rows_refs_in: "(k, n) \<in># rows_refs xs \<Longrightarrow> \<exists>f\<in>set xs. \<not> f_is_dir f \<and> k = f_blob f \<and> n = f_size f"
  by (induction xs) (auto simp: row_ref_def split: if_splits)

lemma query_result: "query q w = (Inr x, w') \<Longrightarrow> (\<And>d. snd (q d) = d) \<Longrightarrow> fst (q (w_db w)) = Inr x \<and> w_db w' = w_db w"
  by (elim query_cases) (auto dest: arg_cong [of _ _ snd] simp: prod_eq_iff)

lemma distinct_count: "distinct xs \<Longrightarrow> count (mset xs) k \<le> 1"
  by (simp add: distinct_count_atmost_1)

lemma rows_refs_fewer: "(\<And>x. P x \<Longrightarrow> Q x) \<Longrightarrow> rows_refs (filter P xs) \<subseteq># rows_refs (filter Q xs)"
  by (induction xs) (auto intro: subset_mset.add_mono subset_mset.add_increasing)

text \<open>Rows come, and none goes: what was taken stays taken.\<close>

lemma taken_iff: "lookup_file d o' p \<noteq> None \<longleftrightarrow> (o', p) \<in> set (map row_key_of (files d))"
  by (auto simp: lookup_file_None_iff at_key_def row_key_of_def)

lemma CreateDir_taken: "lookup_file d o' p \<noteq> None \<Longrightarrow> lookup_file (snd (CreateDir owner path t d)) o' p \<noteq> None"
  by (auto simp: CreateDir_def Let_def lookup_file_None_iff split: sum.splits option.splits)

lemma PutFile_taken: "lookup_file d o' p \<noteq> None \<Longrightarrow> lookup_file (snd (PutFile f d)) o' p \<noteq> None"
proof -
  have "map row_key_of (map (\<lambda>x. if at_key a b x then x\<lparr>f_blob := k, f_size := n, f_mtime := t, f_etag := e, f_mime := m\<rparr> else x) xs)
      = map row_key_of xs" for a b k n t e m xs
    by (simp add: row_key_of_def)
  then show "lookup_file d o' p \<noteq> None \<Longrightarrow> ?thesis"
    unfolding taken_iff PutFile_def Let_def by (auto simp del: map_map set_map split: sum.splits option.splits)
qed

lemma keeps_taken_query: "(\<And>d. lookup_file d o' p \<noteq> None \<Longrightarrow> lookup_file (snd (q d)) o' p \<noteq> None) \<Longrightarrow>
    keeps (\<lambda>w. lookup_file (w_db w) o' p \<noteq> None) (query q)"
  by (rule keeps_query [of "\<lambda>d. lookup_file d o' p \<noteq> None"])

lemma keeps_taken_look: "(\<And>d. snd (q d) = d) \<Longrightarrow> keeps (\<lambda>w. lookup_file (w_db w) o' p \<noteq> None) (query q)"
  by (rule keeps_taken_query) simp

lemmas keeps_taken = keeps_taken_look [OF FileByPath_same] keeps_taken_query [OF PutFile_taken]
  keeps_taken_query [OF CreateDir_taken] keeps_clock

lemma keeps_taken_parents: "keeps (\<lambda>w. lookup_file (w_db w) o' p \<noteq> None) (restoreParents owner target :: ('s, unit) act)"
proof (induction owner target rule: restoreParents.induct)
  case (1 owner target)
  show ?case
  proof (cases "ParentOf target = []")
    case True
    then show ?thesis by (subst restoreParents.simps) (simp add: keeps_ret)
  next
    case False
    have IH: "keeps (\<lambda>w. lookup_file (w_db w) o' p \<noteq> None) (restoreParents owner (ParentOf target) :: ('s, unit) act)"
      by (rule "1.IH" [OF refl False]) simp_all
    show ?thesis
      by (subst restoreParents.simps) (auto simp only: Let_def split: sum.splits if_splits
        intro!: keeps_if keeps_bind keeps_try keeps_fail keeps_ret keeps_taken IH)
  qed
qed

text \<open>Filing one row, its parents first, takes what the row refers to and no more.\<close>

definition file_row :: "bytes \<Rightarrow> db_file \<Rightarrow> ('s, db_file) act" where
  "file_row owner f = bindE (restoreParents owner (f_path f)) (\<lambda>_.
     if f_is_dir f then bindE clock (\<lambda>t. query (CreateDir owner (f_path f) t)) else query (PutFile f))"

lemma accounts_file_row: "accounts (row_ref f) (file_row owner f) (\<lambda>_. {#})"
  unfolding file_row_def
proof (rule accounts_bind [OF accounts_restoreParents], rule accounts_if)
  assume d: "f_is_dir f"
  show "accounts (row_ref f) (bindE clock (\<lambda>t. query (CreateDir owner (f_path f) t))) (\<lambda>_. {#})"
    by (rule accounts_bind [OF accounts_clock], rule accounts_more [OF accounts_CreateDir]) simp
next
  assume "\<not> f_is_dir f"
  from accounts_PutFile [OF this, of "{#}"] show "accounts (row_ref f) (query (PutFile f)) (\<lambda>_. {#})" by simp
qed

lemma keeps_taken_row: "keeps (\<lambda>w. lookup_file (w_db w) o' p \<noteq> None) (file_row owner f)"
  unfolding file_row_def by (intro keeps_bind keeps_taken_parents keeps_if keeps_taken)

lemma adoptRows_Cons:
  assumes "adoptRows owner a s (f0 # fs) w = (Inr x, w')"
  obtains w1 a s where "w_db w1 = w_db w" "adoptRows owner a s fs w1 = (Inr x, w')"
  | w1 g w2 a where "w_db w1 = w_db w" "lookup_file (w_db w) owner (f_path f0) = None"
      "file_row owner (f0\<lparr>f_owner := owner\<rparr>) w1 = (Inr g, w2)" "adoptRows owner a s fs w2 = (Inr x, w')"
proof -
  obtain y w1 where q: "query (FileByPath owner (f_path f0)) w = (y, w1)" by fastforce
  have l: "w_db w1 = w_db w" using look_world [OF FileByPath_same q] by simp
  have valid: "ValidatePath (f_path f0) = Inr ()" using assms by (auto simp: bindE_def split: sum.splits prod.splits)
  show ?thesis
  proof (cases y)
    case (Inr g)
    then show ?thesis using assms q l valid that(1) by (auto simp: bindE_def tryE_def Let_def)
  next
    case (Inl e)
    then have run: "e = ErrNotFound \<and> bindE (file_row owner (f0\<lparr>f_owner := owner\<rparr>)) (\<lambda>_. adoptRows owner (a + 1) s fs) w1 = (Inr x, w')"
      using assms q valid by (auto simp: file_row_def bindE_assoc tryE_def Let_def split: if_splits)
    then have "lookup_file (w_db w) owner (f_path f0) = None"
      using q Inl valid by (elim query_cases) (auto simp: FileByPath_def split: option.splits)
    moreover from run obtain g w2 where "file_row owner (f0\<lparr>f_owner := owner\<rparr>) w1 = (Inr g, w2)"
      "adoptRows owner (a + 1) s fs w2 = (Inr x, w')" by (auto elim: bindE_okE)
    ultimately show ?thesis using l that(2) by blast
  qed
qed

lemma adoptRows_untaken:
  "uniq (w_db w) \<Longrightarrow> adoptRows owner a s fs w = (Inr x, w') \<Longrightarrow>
   refs (w_db w') \<subseteq># refs (w_db w) + rows_refs (untaken (w_db w) owner fs)"
proof (induction fs arbitrary: a s w)
  case (Cons f0 fs)
  from Cons.prems(2) show ?case
  proof (cases rule: adoptRows_Cons)
    case (1 w1 a s)
    with Cons.IH [of w1] Cons.prems(1) have "refs (w_db w') \<subseteq># refs (w_db w) + rows_refs (untaken (w_db w) owner fs)" by simp
    also have "\<dots> \<subseteq># refs (w_db w) + rows_refs (untaken (w_db w) owner (f0 # fs))" by (simp add: untaken_def)
    finally show ?thesis .
  next
    case (2 w1 g w2 a)
    have "row_ref (f0\<lparr>f_owner := owner\<rparr>) = row_ref f0" by (simp add: row_ref_def)
    with accountsD [OF accounts_file_row _ 2(3)] 2(1) Cons.prems(1)
    have w2: "uniq (w_db w2)" "refs (w_db w2) \<subseteq># refs (w_db w) + row_ref f0" by auto
    have "lookup_file (w_db w2) owner p \<noteq> None" if "lookup_file (w_db w) owner p \<noteq> None" for p
      using keepsD [OF keeps_taken_row _ 2(3), of owner p] that 2(1) by simp
    then have "rows_refs (untaken (w_db w2) owner fs) \<subseteq># rows_refs (untaken (w_db w) owner fs)"
      unfolding untaken_def by (intro rows_refs_fewer) blast
    with Cons.IH [OF w2(1) 2(4)] w2(2)
    have "refs (w_db w') \<subseteq># (refs (w_db w) + row_ref f0) + rows_refs (untaken (w_db w) owner fs)"
      by (meson subset_mset.add_mono subset_mset.order_trans)
    with 2(2) show ?thesis by (simp add: untaken_def algebra_simps)
  qed
qed simp

context files_service
begin

lemma offered_holds:
  assumes w: "holds {#} w" and o: "offered objs rows w"
  shows "holds (rows_refs rows) w"
proof -
  let ?R = "refs (w_db w)" and ?N = "rows_refs rows"
  have new: "k \<notin># keys_of ?R \<and> \<not> has_prefix k DerivedPrefix \<and> objs (w_blobs w) k \<noteq> None" if "k \<in># keys_of ?N" for k
    using that o unfolding keys_of_row_keys keys_of_rows_mset offered_def by auto
  have "backed (objs (w_blobs w)) (?R + ?N)"
    using w o by (auto simp: safe_with_def backed_def offered_def dest!: rows_refs_in)
  moreover have "count (keys_of (?R + ?N)) k \<le> 1" for k
  proof (cases "k \<in># keys_of ?N")
    case True
    then have "count (keys_of ?R) k = 0" using new by (simp add: not_in_iff)
    moreover have "count (keys_of ?N) k \<le> 1" using o unfolding keys_of_rows_mset offered_def by (intro distinct_count) simp
    ultimately show ?thesis by simp
  next
    case False
    then show ?thesis using w by (simp add: safe_with_def keys_ok_def not_in_iff)
  qed
  then have "keys_ok (?R + ?N)" using w new by (auto simp: safe_with_def keys_ok_def)
  moreover have "fresh_ids (w_env w) (objs (w_blobs w)) (?R + ?N)"
  proof -
    have f: "fresh_ids (w_env w) (objs (w_blobs w)) ?R" using w by (simp add: safe_with_def)
    have "objs (w_blobs w) k = None \<and> k \<notin># keys_of (?R + ?N)" if "drawn (w_env w) \<le> i" "key_id k = texts (w_env w) i" for i k
      using f that new [of k] unfolding fresh_ids_def by auto
    then show ?thesis using f unfolding fresh_ids_def by blast
  qed
  moreover have "uploads_ok (w_env w) (objs (w_blobs w)) (ups (w_blobs w)) (?R + ?N) (set (uploads (w_db w)))"
  proof -
    have u: "uploads_ok (w_env w) (objs (w_blobs w)) (ups (w_blobs w)) ?R (set (uploads (w_db w)))" using w by (simp add: safe_with_def)
    have "u_blob u \<notin># keys_of (?R + ?N)" if "u \<in> set (uploads (w_db w))" "ups (w_blobs w) (u_store u) \<noteq> None" for u
      using u that new [of "u_blob u"] unfolding uploads_ok_def upload_ok_def by auto
    then show ?thesis using u unfolding uploads_ok_def upload_ok_def by blast
  qed
  ultimately show ?thesis using w by (simp add: safe_with_def)
qed

lemma adopt_offered:
  assumes w: "holds {#} w" and o: "offered objs (untaken (w_db w) owner rows) w"
  shows "holds {#} (snd (Adopt owner rows w))"
proof (cases "owner = []")
  case False
  obtain r w' where t: "Tx (adoptRows owner 0 0 rows) w = (r, w')" by fastforce
  have u: "uniq (w_db w)" using w by (simp add: safe_with_def)
  from accounts_adoptRows [of "{#}" rows owner 0 0] have acc: "accounts (rows_refs rows) (adoptRows owner 0 0 rows) (\<lambda>_. {#})" by simp
  note A = Tx_accounts [OF acc u t]
  have "refs (w_db w') + {#} \<subseteq># refs (w_db w) + rows_refs (untaken (w_db w) owner rows)"
  proof (cases r)
    case (Inl e)
    then show ?thesis using A by simp
  next
    case (Inr x)
    from t Inr show ?thesis
      by (cases rule: Tx_cases) (use u in \<open>auto dest!: adoptRows_untaken [rotated]\<close>)
  qed
  then have "holds {#} w'" using A by (intro safe_with_mono [OF offered_holds [OF w o]]) auto
  with False t show ?thesis by (simp add: Adopt_def)
qed (use w in \<open>simp add: Adopt_def\<close>)

section \<open>Backups found in the store\<close>

lemma adoptable_offered:
  assumes w: "holds {#} w" and keys: "row_keys (w_db w) \<subseteq> set claimed"
    and i: "distinct (map i_key is)" "\<forall>i\<in>set is. i \<in> listing (objs (w_blobs w)) BackupPrefix"
  shows "offered objs (sort_key f_path (List.map_filter (adoptable dir claimed) is)) w"
proof -
  have blob: "f_blob f = i_key i \<and> \<not> f_is_dir f \<and> f_size f = i_size i \<and> i_key i \<notin> set claimed"
    if "adoptable dir claimed i = Some f" for i f
    using that by (auto simp: adoptable_def no_file_def split: if_splits)
  have "distinct (map f_blob (List.map_filter (adoptable dir claimed) xs)) \<and>
      set (map f_blob (List.map_filter (adoptable dir claimed) xs)) \<subseteq> set (map i_key xs)" if "distinct (map i_key xs)" for xs
    using that by (induction xs) (auto simp: List.map_filter_simps blob split: option.splits)
  then have d: "distinct (map f_blob (List.map_filter (adoptable dir claimed) is))" using i(1) by blast
  have "filter (\<lambda>f. \<not> f_is_dir f) (List.map_filter (adoptable dir claimed) is) = List.map_filter (adoptable dir claimed) is"
    by (rule filter_True) (auto simp: map_filter_def dest: blob)
  then have "distinct (map f_blob (filter (\<lambda>f. \<not> f_is_dir f) (sort_key f_path (List.map_filter (adoptable dir claimed) is))))"
    using d by (simp add: filter_sort distinct_map)
  moreover have "(\<exists>b t. objs (w_blobs w) (f_blob f) = Some (b, t) \<and> int (length b) = f_size f)
      \<and> f_blob f \<notin> row_keys (w_db w) \<and> \<not> has_prefix (f_blob f) DerivedPrefix"
    if "f \<in> set (List.map_filter (adoptable dir claimed) is)" for f
  proof -
    from that obtain i where a: "adoptable dir claimed i = Some f" "i \<in> set is" by (auto simp: map_filter_def)
    with i(2) obtain k x where x: "i = info_of k x" "objs (w_blobs w) k = Some x" "has_prefix k BackupPrefix"
      by (auto simp: listing_def)
    from x(3) have "\<not> has_prefix k DerivedPrefix"
      by (auto simp: has_prefix_iff BackupPrefix_def DerivedPrefix_def)
    with blob [OF a(1)] x keys show ?thesis by (cases x) (auto simp: info_of_def)
  qed
  ultimately show ?thesis by (simp add: offered_def)
qed

lemma AdoptBackups_holds: "holds {#} w \<Longrightarrow> holds {#} (snd (AdoptBackups S owner dir w))"
proof -
  assume w: "holds {#} w"
  obtain a w1 where a: "query BlobKeys w = (a, w1)" by fastforce
  have w1: "holds {#} w1"
    using a yieldsD_ok [OF look_safe [OF BlobKeys_same] w] yieldsD_err [OF look_safe [OF BlobKeys_same] w] by (cases a) auto
  show ?thesis
  proof (cases a)
    case (Inl e)
    then show ?thesis using a w1 by (simp add: AdoptBackups_def bindE_def)
  next
    case (Inr ks)
    obtain b w2 where b: "query TrashKeys w1 = (b, w2)" by fastforce
    have w2: "holds {#} w2"
      using b yieldsD_ok [OF look_safe [OF TrashKeys_same] w1] yieldsD_err [OF look_safe [OF TrashKeys_same] w1] by (cases b) auto
    show ?thesis
    proof (cases b)
      case (Inl e)
      then show ?thesis using a b \<open>a = Inr ks\<close> w2 by (simp add: AdoptBackups_def bindE_def)
    next
      case ts: (Inr ts)
      obtain "is" err w3 where l: "blob_list S BackupPrefix w2 = ((is, err), w3)" by (metis surj_pair)
      note w3 = list_safe [OF w2 l]
      let ?rows = "List.map_filter (adoptable dir (ks @ ts)) is"
      have k: "row_keys (w_db w3) \<subseteq> set (ks @ ts)" 
        using query_result [OF a [unfolded Inr] BlobKeys_same] query_result [OF b [unfolded ts] TrashKeys_same] w3
        by (auto simp: row_keys_def BlobKeys_def TrashKeys_def)
      have "offered objs (untaken (w_db w3) owner (sort_key f_path ?rows)) w3"
        using adoptable_offered [of w3 "ks @ ts" "is" dir] w3 k by (auto intro: offered_untaken)
      then have ad: "holds {#} (snd (Adopt owner (sort_key f_path ?rows) w3))" using adopt_offered w3 by blast
      have "snd (AdoptBackups S owner dir w) = (if err \<noteq> None \<or> ?rows = [] then w3 else snd (Adopt owner (sort_key f_path ?rows) w3))"
        using a b Inr ts l
        by (cases "Adopt owner (sort_key f_path ?rows) w3"; cases "fst (Adopt owner (sort_key f_path ?rows) w3)")
          (auto simp: AdoptBackups_def bindE_def Let_def split: option.splits)
      then show ?thesis using ad w3 by simp
    qed
  qed
qed

end

section \<open>What the backups of a folder are\<close>

definition listed :: "database \<Rightarrow> bytes \<Rightarrow> bytes \<Rightarrow> db_file list" where
  "listed d owner dir = map scan_file (sort_key (\<lambda>r. (\<not> f_is_dir r, f_path r)) (children d owner dir))"

definition all_backups :: "database \<Rightarrow> bytes \<Rightarrow> bytes \<Rightarrow> backup list" where
  "all_backups d owner dir = sort_key (\<lambda>b. - bk_at b) (List.map_filter backup_of (listed d owner dir))"

lemma Backups_result:
  assumes "Backups owner dir w = (Inr all, w')"
  shows "all = all_backups (w_db w) owner dir \<and> w_db w' = w_db w"
proof -
  obtain y w1 where q: "query (ListFiles owner dir) w = (y, w1)" by fastforce
  note l = look_world [OF ListFiles_same q]
  have other: "e \<noteq> ErrNotFound" if "y = Inl e" for e
    using q that by (cases rule: query_cases)
      (auto simp: ListFiles_def ValidateDir_def ValidatePath_def split: sum.splits if_splits)
  have rows: "rows = listed (w_db w) owner dir" if "y = Inr rows" for rows
    using q that by (cases rule: query_cases) (auto simp: ListFiles_def listed_def split: sum.splits)
  from assms q other rows l show ?thesis
    by (cases y) (auto simp: Backups_def tryE_def all_backups_def)
qed

lemma DeleteFile_files:
  assumes "DeleteFile owner path d = (Inr v, d')"
  shows "files d' = filter (\<lambda>r. \<not> at_key owner path r) (files d)"
proof -
  let ?doomed = "\<lambda>r. at_key owner path r \<and> children d owner path = []"
  from assms have valid: "valid_path path" by (auto simp: DeleteFile_def ValidatePath_cases split: if_splits)
  with assms have d': "files d' = filter (\<lambda>r. \<not> ?doomed r) (files d)"
    and ok: "CheckAffected (length (filter ?doomed (files d))) (d\<lparr>files := filter (\<lambda>r. \<not> ?doomed r) (files d)\<rparr>) owner path = Inr v"
    by (auto simp: DeleteFile_def Let_def ValidatePath_cases)
  from ok have "filter ?doomed (files d) \<noteq> []" by (auto simp: CheckAffected_def split: option.splits if_splits)
  then have "children d owner path = []" by (auto simp: filter_empty_conv)
  with d' show ?thesis by simp
qed

lemma filter_map_filter:
  "(\<And>x y. f x = Some y \<Longrightarrow> Q y = P x) \<Longrightarrow> filter Q (List.map_filter f xs) = List.map_filter f (filter P xs)"
  by (induction xs) (auto simp: List.map_filter_simps split: option.splits)

lemma all_backups_filter:
  assumes "files d' = filter (\<lambda>r. \<not> (f_owner r = owner \<and> f_path r \<in> K)) (files d)"
  shows "all_backups d' owner dir = filter (\<lambda>b. bk_path b \<notin> K) (all_backups d owner dir)"
proof -
  have "children d' owner dir = filter (\<lambda>r. f_path r \<notin> K) (children d owner dir)"
    unfolding children_def assms filter_filter by (rule filter_cong) auto
  then have "listed d' owner dir = filter (\<lambda>f. f_path f \<notin> K) (listed d owner dir)"
    by (simp add: listed_def filter_sort filter_map comp_def)
  moreover have "bk_path b \<notin> K \<longleftrightarrow> f_path f \<notin> K" if "backup_of f = Some b" for f b
    using that by (auto simp: backup_of_def split: if_splits)
  ultimately show ?thesis
    by (simp add: all_backups_def filter_sort filter_map_filter [of backup_of "\<lambda>b. bk_path b \<notin> K" "\<lambda>f. f_path f \<notin> K"])
qed

lemma all_backups_distinct:
  assumes "uniq d"
  shows "distinct (map bk_path (all_backups d owner dir))"
proof -
  have "distinct (map row_key_of (children d owner dir))"
    using assms by (simp add: uniq_def children_def distinct_map_filter)
  then have "distinct (map f_path (children d owner dir))"
    by (auto simp: distinct_map inj_on_def row_key_of_def children_def)
  then have "distinct (map f_path (listed d owner dir))"
    by (simp add: listed_def comp_def distinct_map inj_on_def)
  moreover have "distinct (map bk_path (List.map_filter backup_of fs))
      \<and> set (map bk_path (List.map_filter backup_of fs)) \<subseteq> set (map f_path fs)" if "distinct (map f_path fs)" for fs
    using that
  proof (induction fs)
    case (Cons f fs)
    then show ?case by (cases "backup_of f") (auto simp: List.map_filter_simps backup_of_def split: if_splits)
  qed (simp add: List.map_filter_simps)
  ultimately show ?thesis by (simp add: all_backups_def distinct_map inj_on_def)
qed

lemma keep_first: "distinct (map f xs) \<Longrightarrow> filter (\<lambda>x. f x \<notin> f ` set (drop n xs)) xs = take n xs"
proof -
  assume d: "distinct (map f xs)"
  have "f x \<notin> f ` set (drop n xs)" if "x \<in> set (take n xs)" for x
  proof
    assume "f x \<in> f ` set (drop n xs)"
    moreover have "f x \<in> f ` set (take n xs)" using that by simp
    moreover have "distinct (map f (take n xs) @ map f (drop n xs))" using d by (simp flip: map_append)
    ultimately show False by auto
  qed
  then have "filter (\<lambda>x. f x \<notin> f ` set (drop n xs)) (take n xs @ drop n xs) = take n xs"
    by (simp only: filter_append) (simp add: filter_empty_conv filter_id_conv)
  then show ?thesis by simp
qed

section \<open>A backup lands\<close>

context files_service
begin

lemma env_holds: "holds N w \<Longrightarrow> env_step (w_env w) e \<Longrightarrow> holds N (w\<lparr>w_env := e\<rparr>)"
  by (rule safe_with_mono [of _ _ _ N w]) (auto simp: safe_with_def)

lemma env_fresh: "fresh_key N k w \<Longrightarrow> env_step (w_env w) e \<Longrightarrow> fresh_key N k (w\<lparr>w_env := e\<rparr>)"
  by (auto simp: free_key_def dest: undrawn_step)

lemma take_dump_fresh:
  "yields (\<lambda>w. holds N w \<and> fresh_key N k w) (take_dump dump) (\<lambda>_ w. holds N w \<and> fresh_key N k w) (holds N)"
proof -
  let ?I = "\<lambda>w. holds N w \<and> fresh_key N k w"
  have c: "yields ?I check (\<lambda>_. ?I) (holds N)"
    by (rule yieldsI) (auto dest!: check_cases intro: env_holds env_fresh)
  have r: "yields ?I rand_id (\<lambda>_. ?I) (holds N)"
  proof (rule yieldsI)
    fix w x w' assume w: "?I w" "rand_id w = (Inr x, w')"
    then have "w' = w\<lparr>w_env := (w_env w)\<lparr>drawn := Suc (drawn (w_env w))\<rparr>\<rparr>" by (simp add: rand_id_def)
    moreover have "env_step (w_env w) ((w_env w)\<lparr>drawn := Suc (drawn (w_env w))\<rparr>)" by (auto simp: env_step_def calm_def)
    ultimately show "?I w'" using w env_holds env_fresh by blast
  qed (simp add: rand_id_def)
  have d: "yields ?I (\<lambda>w. bindE check (\<lambda>_. bindE check (\<lambda>_. retE (dump (w_db w)))) w) (\<lambda>_. ?I) (holds N)"
  proof -
    have "yields ?I (bindE check (\<lambda>_. bindE check (\<lambda>_. retE x))) (\<lambda>_. ?I) (holds N)" for x
      by (rule yields_bind [OF c], rule yields_bind [OF c], rule yields_ret)
    then show ?thesis unfolding yields_def by (intro allI) (rule spec)
  qed
  show ?thesis unfolding take_dump_def by (rule yields_bind [OF r], rule yields_bind [OF c], rule d)
qed

lemma file_backup_holds:
  assumes "\<not> f_is_dir row"
  shows "yields (holds (row_ref row)) (file_backup row) (\<lambda>_. holds {#}) (holds (row_ref row))"
proof -
  have "accounts (row_ref row) (bindE (restoreParents (f_owner row) (f_path row)) (\<lambda>_. query (PutFile row))) (\<lambda>_. {#})"
    using accounts_PutFile [OF assms, of "{#}"] by (intro accounts_bind [OF accounts_restoreParents]) simp
  then show ?thesis unfolding file_backup_def by (rule Tx_safe)
qed

lemma land_backup_holds:
  "yields (\<lambda>w. holds {#} w \<and> fresh_key {#} (backup_key t) w) (land_backup S dump owner dir t) (\<lambda>_. holds {#}) (holds {#})"
proof -
  let ?k = "backup_key t"
  define row where "row stored data = no_file\<lparr>f_owner := owner, f_path := backup_path dir t, f_blob := ?k, f_size := i_size stored,
                  f_mtime := i_mtime stored, f_etag := etag S data, f_mime := backupType\<rparr>" for stored :: object_info and data
  have ref: "row_ref (row stored data) = {#(?k, i_size stored)#}" "\<not> f_is_dir (row stored data)" for stored data
    by (simp_all add: row_def row_ref_def no_file_def)
  have put: "yields (\<lambda>w. holds {#} w \<and> fresh_key {#} ?k w) (blob (port_put (svc_blobs S) ?k r n))
     (\<lambda>i. holds {#(?k, i_size i)#}) (holds {#})" for r n
    by (rule put_holds)
  have tail: "yields (holds {#(?k, i_size stored)#}) (tryE (file_backup (row stored data)) (\<lambda>r.
      case r of
        Inl e \<Rightarrow> bindE (best_effort (blob (port_delete (svc_blobs S) ?k))) (\<lambda>_. failE e)
      | Inr row' \<Rightarrow> bindE (written row') (\<lambda>_. retE b))) (\<lambda>_. holds {#}) (holds {#})" for stored data and b :: backup
  proof (rule yields_try [OF file_backup_holds [OF ref(2), unfolded ref(1)]])
    fix x show "yields (holds {#}) (case Inr x of
        Inl e \<Rightarrow> bindE (best_effort (blob (port_delete (svc_blobs S) ?k))) (\<lambda>_. failE e)
      | Inr row' \<Rightarrow> bindE (written row') (\<lambda>_. retE b)) (\<lambda>_. holds {#}) (holds {#})"
      unfolding sum.case by (rule yields_bind [OF written_holds], rule yields_ret)
  next
    fix e show "yields (holds {#(?k, i_size stored)#}) (case Inl e of
        Inl e \<Rightarrow> bindE (best_effort (blob (port_delete (svc_blobs S) ?k))) (\<lambda>_. failE e)
      | Inr row' \<Rightarrow> bindE (written row') (\<lambda>_. retE b)) (\<lambda>_. holds {#}) (holds {#})"
      unfolding sum.case by (rule give_up)
  qed
  show ?thesis unfolding land_backup_def Let_def row_def [symmetric]
    by (rule yields_check, rule yields_bind [OF take_dump_fresh], rule yields_bind [OF put], rule tail) simp
qed

section \<open>The older ones go\<close>

lemma blob_db: "blob m w = (r, w') \<Longrightarrow> w_db w' = w_db w"
  by (auto simp: blob_def split: prod.splits)

lemma foreach_db: "(\<And>x w. w_db (snd (f x w)) = w_db w) \<Longrightarrow> w_db (snd (foreach f xs w)) = w_db w"
proof (induction xs arbitrary: w)
  case (Cons x xs)
  obtain r w1 where "f x w = (r, w1)" by fastforce
  with Cons.prems [of x w] Cons.IH [OF Cons.prems, of w1] show ?case by (cases r) (simp_all add: bindE_def)
qed simp

lemma dropBlob_db: "w_db (snd (dropBlob S k w)) = w_db w"
proof -
  have del: "w_db (snd (blob (port_delete (svc_blobs S) x) v)) = w_db v" for x v
    by (metis blob_db surj_pair snd_conv)
  have rest: "w_db (snd (case blob_list S pre v of ((is, err), w1) \<Rightarrow>
         bindE (foreach (\<lambda>i. blob (port_delete (svc_blobs S) (i_key i))) is) (\<lambda>_.
         case err of Some x \<Rightarrow> failE x | None \<Rightarrow> retE ()) w1)) = w_db v" for pre and v :: "'s world"
  proof -
    obtain "is" err w1 where l: "blob_list S pre v = ((is, err), w1)" by (metis surj_pair)
    then have "w_db w1 = w_db v" by (auto simp: blob_list_def split: prod.splits)
    moreover obtain r w2 where f: "foreach (\<lambda>i. blob (port_delete (svc_blobs S) (i_key i))) is w1 = (r, w2)" by fastforce
    moreover have "w_db w2 = w_db w1" using foreach_db [of "\<lambda>i. blob (port_delete (svc_blobs S) (i_key i))" "is" w1] del f by simp
    ultimately show ?thesis using l by (cases r) (auto simp: bindE_def split: option.splits)
  qed
  obtain r w1 where d: "blob (port_delete (svc_blobs S) k) w = (r, w1)" by fastforce
  with del [of k w] rest [of "DerivedPrefix @ k @ ''/''" w1] show ?thesis by (cases r) (simp_all add: dropBlob_def bindE_def)
qed

text \<open>The backups still to be destroyed are rows of the tree, each with the blob it is listed with.\<close>

definition to_go :: "database \<Rightarrow> bytes \<Rightarrow> backup list \<Rightarrow> bool" where
  "to_go d owner olds \<longleftrightarrow> distinct (map bk_path olds)
     \<and> (\<forall>b\<in>set olds. \<exists>x\<in>set (files d). at_key owner (bk_path b) x \<and> \<not> f_is_dir x \<and> f_blob x = bk_key b)"

lemma to_go_next:
  assumes "to_go d owner (b # olds)" and "files d' = filter (\<lambda>r. \<not> at_key owner (bk_path b) r) (files d)"
  shows "to_go d' owner olds"
proof -
  have "at_key owner (bk_path c) x \<Longrightarrow> \<not> at_key owner (bk_path b) x" if "c \<in> set olds" for c x
    using assms(1) imageI [OF that, of bk_path] by (auto simp: to_go_def at_key_def)
  with assms show ?thesis by (auto simp: to_go_def) blast
qed

lemma rotate_loop:
  "holds {#} w \<Longrightarrow> to_go (w_db w) owner olds \<Longrightarrow>
   holds {#} (snd (foreach (\<lambda>old. bindE (query (DeleteFile owner (bk_path old))) (\<lambda>_. dropBlob S (bk_key old))) olds w))"
proof (induction olds arbitrary: w)
  case (Cons b olds)
  let ?f = "\<lambda>old. bindE (query (DeleteFile owner (bk_path old))) (\<lambda>_. dropBlob S (bk_key old))"
  obtain r w1 where q: "query (DeleteFile owner (bk_path b)) w = (r, w1)" by fastforce
  have u: "uniq (w_db w)" using Cons.prems(1) by (simp add: safe_with_def)
  show ?case
  proof (cases r)
    case (Inl e)
    have "holds {#} w1" using q
    proof (cases rule: query_cases)
      case (1 e')
      then show ?thesis using env_holds Cons.prems(1) by blast
    next
      case (2 e' d)
      then have "d = w_db w" using DeleteFile_account [OF u, of owner "bk_path b" r d] Inl by auto
      then show ?thesis using 2 env_holds [OF Cons.prems(1)] by simp
    qed
    then show ?thesis using q Inl by (simp add: bindE_def)
  next
    case (Inr v)
    from q Inr obtain e d where d: "env_step (w_env w) e" "DeleteFile owner (bk_path b) (w_db w) = (Inr v, d)"
      "w1 = w\<lparr>w_env := e, w_db := d\<rparr>" by (cases rule: query_cases) auto
    obtain x where x: "lookup_file (w_db w) owner (bk_path b) = Some x" "refs (w_db w) = refs d + row_ref x"
      and dd: "uniq d" "uploads d = uploads (w_db w)" using DeleteFile_account [OF u d(2)] by auto
    from Cons.prems(2) obtain y where y: "y \<in> set (files (w_db w))" "at_key owner (bk_path b) y" "\<not> f_is_dir y" "f_blob y = bk_key b"
      by (auto simp: to_go_def)
    have "x \<in> set (files (w_db w))" "row_key_of x = row_key_of y"
      using lookup_file_SomeD [OF x(1)] y(2) by (auto simp: row_key_of_def at_key_def)
    then have "x = y" using u y(1) unfolding uniq_def by (metis distinct_map_inj)
    then have ref: "row_ref x = {#(bk_key b, f_size y)#}" using y by (simp add: row_ref_def)
    have "holds (add_mset (bk_key b, f_size y) {#}) w1"
      by (rule safe_with_mono [OF Cons.prems(1)]) (use d dd x(2) ref in auto)
    note drp = yieldsD_ok [OF dropBlob_safe this] yieldsD_err [OF dropBlob_safe this]
    obtain s w2 where s: "dropBlob S (bk_key b) w1 = (s, w2)" by fastforce
    then have w2: "dropBlob S (bk_key b) w1 = (s, w2)" "holds {#} w2" using drp by (cases s; simp)+
    have "w_db w2 = d" using dropBlob_db [of "bk_key b" w1] w2(1) d(3) by simp
    moreover have "files d = filter (\<lambda>r. \<not> at_key owner (bk_path b) r) (files (w_db w))" using d(2) by (rule DeleteFile_files)
    ultimately have "to_go (w_db w2) owner olds" using to_go_next [OF Cons.prems(2)] by simp
    from Cons.IH [OF w2(2) this] show ?thesis using q Inr w2 by (cases s) (simp_all add: bindE_def)
  qed
qed simp

lemma to_go_listed:
  assumes "uniq d"
  shows "to_go d owner (drop n (all_backups d owner dir))"
proof -
  have "\<exists>x\<in>set (files d). at_key owner (bk_path b) x \<and> \<not> f_is_dir x \<and> f_blob x = bk_key b" if "b \<in> set (all_backups d owner dir)" for b
    using that by (auto simp: all_backups_def map_filter_def listed_def children_def backup_of_def at_key_def split: if_splits)
  moreover have "distinct (map bk_path (drop n (all_backups d owner dir)))"
    using all_backups_distinct [OF assms] by (simp add: drop_map [symmetric])
  ultimately show ?thesis unfolding to_go_def by (meson in_set_dropD)
qed

lemma rotate_holds: "holds {#} w \<Longrightarrow> holds {#} (snd (rotate S owner dir w))"
proof -
  assume w: "holds {#} w"
  obtain r w1 where b: "Backups owner dir w = (r, w1)" by fastforce
  have "yields (holds {#}) (Backups owner dir) (\<lambda>_. holds {#}) (holds {#})"
    unfolding Backups_def
    by (rule yields_try [OF look_safe [OF ListFiles_same]]) (auto split: sum.splits if_splits intro!: yields_fail yields_ret)
  then have w1: "holds {#} w1" using b w by (cases r) (auto dest: yieldsD_ok yieldsD_err)
  show ?thesis
  proof (cases r)
    case (Inl e)
    then show ?thesis using b w1 by (simp add: rotate_def bindE_def)
  next
    case (Inr all)
    have "all = all_backups (w_db w1) owner dir" using Backups_result [OF b [unfolded Inr]] by simp
    moreover have "uniq (w_db w1)" using w1 by (simp add: safe_with_def)
    ultimately have "to_go (w_db w1) owner (drop BackupsKept all)" using to_go_listed by simp
    from rotate_loop [OF w1 this] show ?thesis using b Inr by (simp add: rotate_def bindE_def)
  qed
qed

lemma BackUp_holds:
  assumes "holds {#} w" and "fresh_key {#} (backup_key t) w"
  shows "holds {#} (snd (BackUp S dump owner dir t w))"
proof (cases dump)
  case (Some d)
  obtain r w1 where l: "land_backup S d owner dir t w = (r, w1)" by fastforce
  have w1: "holds {#} w1"
    using yieldsD_ok [OF land_backup_holds conjI [OF assms]] yieldsD_err [OF land_backup_holds conjI [OF assms]] l
    by (cases r) blast+
  obtain s w2 where "rotate S owner dir w1 = (s, w2)" by fastforce
  then show ?thesis using rotate_holds [OF w1, of owner dir] l w1 Some
    by (cases r; cases s) (simp_all add: BackUp_def)
qed (use assms in \<open>simp add: BackUp_def\<close>)

end

end
