(* ===== verification/System.thy ===== *)
theory System
  imports SoundBackup
begin

text \<open>
  The service as a whole: the operations of \<^verbatim>\<open>files.Service\<close> one after the other, on a disk
  store and an SQLite database that start empty, with any schedule of failures and any clock
  between two of them.
\<close>

section \<open>A service on a disk\<close>

definition disk_service :: "hasher \<Rightarrow> disk service" where
  "disk_service h = \<lparr>svc_blobs = disk_port, svc_hash = h\<rparr>"

lemma disk_service_simps [simp]: "svc_blobs (disk_service h) = disk_port" "svc_hash (disk_service h) = h"
  by (simp_all add: disk_service_def)

interpretation disk_files: files_service "disk_service h" disk_ok disk_objs disk_ups for h
  by (simp add: files_service_def disk.named_uploads_axioms)

section \<open>Sequences of operations\<close>

datatype op =
    OpWrite bytes bytes reader int bytes
  | OpReserve bytes bytes bytes
  | OpMkdir bytes bytes
  | OpMkdirAll bytes bytes
  | OpMove bytes bytes bytes
  | OpRemove bytes bytes
  | OpCopy bytes bytes bytes bool
  | OpDestroyTrashed bytes bytes
  | OpEmptyTrash "(bytes \<times> bytes) list \<Rightarrow> (bytes \<times> bytes) list" int
  | OpRestore bytes bytes
  | OpCollect int
  | OpBeginUpload bytes bytes int bytes
  | OpAppendUpload bytes bytes int reader
  | OpCompleteUpload bytes bytes
  | OpAbortUpload bytes bytes
  | OpCollectUploads int

fun exec :: "'s service \<Rightarrow> op \<Rightarrow> 's world \<Rightarrow> 's world" where
  "exec S (OpWrite owner path body sz mime) w = snd (Write S owner path body sz mime w)"
| "exec S (OpReserve owner path mime) w = snd (Reserve S owner path mime w)"
| "exec S (OpMkdir owner path) w = snd (Mkdir owner path w)"
| "exec S (OpMkdirAll owner dir) w = snd (MkdirAll_dirs owner dir w)"
| "exec S (OpMove owner from to) w = snd (Move owner from to w)"
| "exec S (OpRemove owner path) w = snd (Remove owner path w)"
| "exec S (OpCopy owner from to rec) w = snd (Copy S owner from to rec w)"
| "exec S (OpDestroyTrashed owner batch) w = snd (DestroyTrashed S owner batch w)"
| "exec S (OpEmptyTrash order before) w = snd (EmptyTrash S order before w)"
| "exec S (OpRestore owner batch) w = snd (Restore owner batch w)"
| "exec S (OpCollect olderThan) w = snd (Collect S olderThan w)"
| "exec S (OpBeginUpload owner path sz mime) w = snd (BeginUpload S owner path sz mime w)"
| "exec S (OpAppendUpload owner uid off body) w = snd (Append_upload S owner uid off body w)"
| "exec S (OpCompleteUpload owner uid) w = snd (Complete_upload S owner uid w)"
| "exec S (OpAbortUpload owner uid) w = snd (Abort_upload S owner uid w)"
| "exec S (OpCollectUploads t) w = snd (CollectUploads S t w)"

context files_service
begin

lemma yields_snd: "yields (holds {#}) m (\<lambda>_. holds {#}) (holds {#}) \<Longrightarrow> holds {#} w \<Longrightarrow> holds {#} (snd (m w))"
  by (cases "m w", cases "fst (m w)") (auto dest: yieldsD_ok yieldsD_err)

lemma exec_holds: "holds {#} w \<Longrightarrow> holds {#} (exec S op w)"
  by (cases op)
    (auto intro!: yields_snd [OF Write_holds] yields_snd [OF Reserve_holds] yields_snd [OF Mkdir_holds]
      yields_snd [OF MkdirAll_dirs_holds] yields_snd [OF Move_holds] yields_snd [OF Remove_holds] yields_snd [OF Copy_holds]
      yields_snd [OF Restore_holds] yields_snd [OF BeginUpload_holds] yields_snd [OF Append_upload_holds]
      yields_snd [OF Complete_upload_holds] yields_snd [OF Abort_upload_holds]
      DestroyTrashed_holds [OF _ surjective_pairing] EmptyTrash_holds [OF _ surjective_pairing]
      Collect_holds [OF _ surjective_pairing] CollectUploads_holds [OF _ surjective_pairing])

end

text \<open>
  The states the program can be in: it starts with nothing stored, every operation may run next,
  and between two of them the clock may move and the machine may start or stop failing.  Two
  operations store under keys they did not draw.  An import (\<open>Adopt\<close>) is handed rows by its
  caller: those it files are to have their blobs in the store already, under keys no row has.  A
  backup names its own key after the second it is taken in: that key is to be free, so no second
  backup in one second (\<open>Backup.backup_twice\<close> is what becomes of one).  What \<open>AdoptBackups\<close> finds
  by itself needs nothing of the kind.
\<close>

definition initial :: "disk world \<Rightarrow> bool" where
  "initial w \<longleftrightarrow> disk_ok (w_blobs w) \<and> disk_objs (w_blobs w) = Map.empty \<and> disk_ups (w_blobs w) = Map.empty
     \<and> w_db w = empty_db \<and> (\<forall>i. is_text (texts (w_env w) i)) \<and> inj (texts (w_env w))"

inductive reachable :: "hasher \<Rightarrow> disk world \<Rightarrow> bool" for h where
  start: "initial w \<Longrightarrow> reachable h w"
| operate: "reachable h w \<Longrightarrow> reachable h (exec (disk_service h) op w)"
| adopt: "reachable h w \<Longrightarrow> offered disk_objs (untaken (w_db w) owner rows) w \<Longrightarrow> reachable h (snd (Adopt owner rows w))"
| back_up: "reachable h w \<Longrightarrow> free_key disk_objs disk_ups {#} (backup_key t) w \<Longrightarrow>
    reachable h (snd (BackUp (disk_service h) dump owner dir t w))"
| adopt_backups: "reachable h w \<Longrightarrow> reachable h (snd (AdoptBackups (disk_service h) owner dir w))"
| meanwhile: "reachable h w \<Longrightarrow> reachable h (w\<lparr>w_env := (w_env w)\<lparr>faults := fs, now := t\<rparr>\<rparr>)"

lemma initial_safe: "initial w \<Longrightarrow> safe disk_ok disk_objs disk_ups w"
  by (auto simp: initial_def safe_with_def empty_db_def uniq_def refs_def backed_def keys_ok_def fresh_ids_def uploads_ok_def apart_def)

lemma reachable_safe: "reachable h w \<Longrightarrow> safe disk_ok disk_objs disk_ups w"
proof (induction rule: reachable.induct)
  case (start w)
  then show ?case by (rule initial_safe)
next
  case (operate w op)
  from disk_files.exec_holds [OF operate.IH] show ?case .
next
  case (adopt w owner rows)
  from disk_files.adopt_offered [OF adopt.IH adopt.hyps(2)] show ?case .
next
  case (back_up w t dump owner dir)
  from disk_files.BackUp_holds [OF back_up.IH back_up.hyps(2)] show ?case .
next
  case (adopt_backups w owner dir)
  from disk_files.AdoptBackups_holds [OF adopt_backups.IH] show ?case .
next
  case (meanwhile w fs t)
  then show ?case by (simp add: safe_with_def fresh_ids_def uploads_ok_def upload_ok_def undrawn_def)
qed

section \<open>What it promises\<close>

lemma count_le_1_distinct: "\<forall>k. count (mset xs) k \<le> 1 \<Longrightarrow> distinct xs"
proof (induction xs)
  case (Cons x xs)
  have "count (mset xs) k \<le> 1" for k
    using order_trans [OF mset_subset_eq_count [of "mset xs" "mset (x # xs)" k] spec [OF Cons.prems, of k]] by simp
  moreover have "x \<notin> set xs" using spec [OF Cons.prems, of x] by (simp add: count_mset_0_iff)
  ultimately show ?case using Cons.IH by simp
qed simp

lemma rows_refs_mem: "x \<in> set xs \<Longrightarrow> \<not> f_is_dir x \<Longrightarrow> (f_blob x, f_size x) \<in># rows_refs xs"
  by (induction xs) (auto simp: row_ref_def)



section \<open>A run\<close>

definition sample_text :: "nat \<Rightarrow> bytes" where
  "sample_text i = replicate 26 (CHR ''A'') @ replicate i (CHR ''B'')"

definition plain_hasher :: hasher where
  "plain_hasher = \<lparr>hash_new = ''#'', hash_write = (\<lambda>s p. Some (s @ p)), hash_sum = (\<lambda>s. Some (drop 1 s))\<rparr>"

definition start_world :: "disk world" where
  "start_world = \<lparr>w_blobs = empty_disk, w_db = empty_db,
     w_env = \<lparr>faults = [], now = 0, texts = sample_text, drawn = 0\<rparr>, w_told = []\<rparr>"

lemma start_initial: "initial start_world"
proof -
  have "is_text (sample_text i)" for i
    by (auto simp: is_text_def sample_text_def list_all_iff base32_def byte_def)
  moreover have "inj sample_text" by (auto simp: inj_def sample_text_def dest: arg_cong [of _ _ length])
  moreover have "disk_objs empty_disk = Map.empty" "disk_ups empty_disk = Map.empty"
    by (auto simp: fun_eq_iff disk_objs_def disk_ups_def empty_disk_def reserved_def uploadPath_def uploadDir_def tmpDir_def)
  ultimately show ?thesis using empty_disk_ok by (simp add: initial_def start_world_def)
qed

definition sample_run :: "disk world" where
  "sample_run = exec (disk_service plain_hasher) (OpWrite ''u'' ''a/x.txt'' (of_bytes ''hello'') 5 [])
     (exec (disk_service plain_hasher) (OpMkdir ''u'' ''a'') start_world)"

lemma sample_run_reachable: "reachable plain_hasher sample_run"
  unfolding sample_run_def by (intro reachable.operate reachable.start start_initial)

lemma sample_rows:
  "map (\<lambda>r. (f_path r, f_size r, f_is_dir r)) (files (w_db sample_run)) = [(''a'', 0, True), (''a/x.txt'', 5, False)]"
  by code_simp


text \<open>A first backup has its key to itself.\<close>

lemma first_backup_free: "free_key disk_objs disk_ups {#} (backup_key 1000000000) start_world"
proof -
  have k: "key_id (backup_key 1000000000) = ''19700101T000001Z''" "\<not> has_prefix (backup_key 1000000000) DerivedPrefix"
    by code_simp+
  have "hd (sample_text i) = CHR ''A''" for i by (simp add: sample_text_def)
  then have "''19700101T000001Z'' \<noteq> sample_text i" for i by (auto dest: arg_cong [of _ _ hd])
  then have "\<not> undrawn (w_env start_world) ''19700101T000001Z''" by (simp add: undrawn_def start_world_def)
  then show ?thesis using start_initial k
    by (simp add: free_key_def initial_def start_world_def empty_db_def refs_def)
qed

lemma first_backup_reachable: "reachable plain_hasher (snd (BackUp (disk_service plain_hasher) dump owner dir 1000000000 start_world))"
  by (rule reachable.back_up [OF reachable.start [OF start_initial] first_backup_free])


end
