(* ===== verification/FileStore.thy ===== *)
theory FileStore
  imports System RemoveTree
begin

text \<open>
  The file service as what it stands for: a map from an owner and a path to a directory or to
  the bytes of a file.  Which blob holds them, when it was written and what the failures on the
  way left behind is not in it; each operation of the service is shown to be one step of this map.
\<close>

section \<open>The abstract store\<close>

datatype entry = Directory | Contents bytes bytes bytes

type_synonym store = "bytes \<Rightarrow> bytes \<Rightarrow> entry option"

text \<open>A file is its bytes, its ETag and its content type.\<close>

definition entry_of :: "objects \<Rightarrow> 'a db_file_scheme \<Rightarrow> entry option" where
  "entry_of ob f =
     (if f_is_dir f then Some Directory
      else map_option (\<lambda>(d, t). Contents d (f_etag f) (f_mime f)) (ob (f_blob f)))"

definition store_of :: "objects \<Rightarrow> database \<Rightarrow> store" where
  "store_of ob d owner p = Option.bind (lookup_file d owner p) (entry_of ob)"

definition put_entry :: "store \<Rightarrow> bytes \<Rightarrow> bytes \<Rightarrow> entry \<Rightarrow> store" where
  "put_entry st owner p x = st(owner := (st owner)(p \<mapsto> x))"

text \<open>What a write of \<open>body\<close> with a declared type leaves behind.\<close>

definition written_entry :: "hasher \<Rightarrow> reader \<Rightarrow> bytes \<Rightarrow> entry" where
  "written_entry h body mimeType =
     Contents (content body) (hex_encode (hash_of h (content body)))
       (contentType mimeType (fst (Sniff (take HeadSize (content body)))))"

definition parent_there :: "store \<Rightarrow> bytes \<Rightarrow> bytes \<Rightarrow> bool" where
  "parent_there st owner path \<longleftrightarrow> ParentOf path = [] \<or> st owner (ParentOf path) = Some Directory"

lemma entry_of_dir: "entry_of ob f = Some Directory \<longleftrightarrow> f_is_dir f"
  by (auto simp: entry_of_def)

lemma entry_of_scan [simp]: "entry_of ob (scan_file r) = entry_of ob r"
  by (simp add: entry_of_def)

lemma put_entry_eq: "put_entry st owner p x o' q = (if o' = owner \<and> q = p then Some x else st o' q)"
  by (simp add: put_entry_def)

lemma store_of_dir: "store_of ob d owner p = Some Directory \<longleftrightarrow> (\<exists>r. lookup_file d owner p = Some r \<and> f_is_dir r)"
  by (auto simp: store_of_def entry_of_dir split: Option.bind_splits)

text \<open>Only the blobs of the rows matter.\<close>

lemma row_in_keys: "lookup_file d owner p = Some r \<Longrightarrow> \<not> f_is_dir r \<Longrightarrow> f_blob r \<in># keys_of (refs d)"
  using rows_refs_mem [of r "files d"] lookup_file_SomeD [of d owner p r]
  by (force simp: refs_def keys_of_def)

lemma store_of_cong:
  assumes "\<And>k. k \<in># keys_of (refs d) \<Longrightarrow> ob' k = ob k"
  shows "store_of ob' d = store_of ob d"
proof (intro ext)
  fix owner p
  show "store_of ob' d owner p = store_of ob d owner p"
    using assms [OF row_in_keys] by (auto simp: store_of_def entry_of_def split: Option.bind_splits)
qed

section \<open>What the statements do to it\<close>

lemma find_map_key:
  "(\<And>x. f_owner (g x) = f_owner x \<and> f_path (g x) = f_path x) \<Longrightarrow>
     find (at_key owner p) (map g xs) = map_option g (find (at_key owner p) xs)"
  by (induction xs) (auto simp: at_key_def)

lemma find_snoc: "find P (xs @ [x]) = (case find P xs of None \<Rightarrow> if P x then Some x else None | Some y \<Rightarrow> Some y)"
  by (induction xs) auto

lemma PutFile_store:
  assumes put: "PutFile f d = (Inr g, d')" and ob: "ob (f_blob f) = Some (b, t)"
  shows "store_of ob d' = put_entry (store_of ob d) (f_owner f) (f_path f) (Contents b (f_etag f) (f_mime f))
     \<and> store_of ob d (f_owner f) (f_path f) \<noteq> Some Directory \<and> valid_path (f_path f)"
proof -
  from put have valid: "valid_path (f_path f)" by (auto simp: PutFile_def ValidatePath_cases split: if_splits)
  show ?thesis
  proof (cases "lookup_file d (f_owner f) (f_path f)")
    case None
    with put valid have d': "d' = d\<lparr>files := files d @ [new_row ((Normalize f)\<lparr>f_id := next_id d\<rparr>) False], next_id := next_id d + 1\<rparr>"
      by (auto simp: PutFile_def Let_def ValidatePath_cases)
    with None valid ob show ?thesis
      by (auto simp: fun_eq_iff put_entry_eq store_of_def lookup_file_def find_snoc at_key_def entry_of_def split: option.splits)
  next
    case (Some x)
    let ?g = "\<lambda>y. if at_key (f_owner f) (f_path f) y
        then y\<lparr>f_blob := f_blob f, f_size := f_size f, f_mtime := truncate_time (f_mtime (Normalize f)), f_etag := f_etag f, f_mime := f_mime f\<rparr>
        else y"
    from Some put valid have x: "\<not> f_is_dir x" and d': "d' = d\<lparr>files := map ?g (files d)\<rparr>"
      by (auto simp: PutFile_def Let_def ValidatePath_cases split: if_splits)
    have look: "lookup_file d' o' q = map_option ?g (lookup_file d o' q)" for o' q
      unfolding lookup_file_def d' by (simp add: find_map_key)
    have "at_key (f_owner f) (f_path f) y \<longleftrightarrow> o' = f_owner f \<and> q = f_path f" if "lookup_file d o' q = Some y" for o' q y
      using lookup_file_SomeD [OF that] by (auto simp: at_key_def)
    with Some x valid ob show ?thesis
      by (auto simp: fun_eq_iff put_entry_eq store_of_def look entry_of_def split: Option.bind_splits)
  qed
qed

lemma CreateDir_store:
  assumes mk: "CreateDir owner path t d = (Inr g, d')"
  shows "store_of ob d' = put_entry (store_of ob d) owner path Directory \<and> store_of ob d owner path = None \<and> valid_path path"
proof -
  from mk have valid: "valid_path path" and none: "lookup_file d owner path = None"
    by (auto simp: CreateDir_def Let_def ValidatePath_cases split: if_splits option.splits)
  with mk have "\<exists>r. d' = d\<lparr>files := files d @ [r], next_id := next_id d + 1\<rparr> \<and> f_owner r = owner \<and> f_path r = path \<and> f_is_dir r"
    by (auto simp: CreateDir_def Let_def ValidatePath_cases no_file_def)
  then obtain r where "d' = d\<lparr>files := files d @ [r], next_id := next_id d + 1\<rparr>" "f_owner r = owner" "f_path r = path" "f_is_dir r"
    by blast
  with none valid show ?thesis
    by (auto simp: fun_eq_iff put_entry_eq store_of_def lookup_file_def find_snoc at_key_def entry_of_def split: option.splits)
qed

lemma requireParent_result:
  assumes "requireParent owner path w = (r, w')"
  shows "w_db w' = w_db w \<and> w_blobs w' = w_blobs w \<and> (r = Inr () \<longrightarrow> parent_there (store_of ob (w_db w)) owner path)"
proof (cases "ParentOf path = []")
  case True
  with assms show ?thesis by (auto simp: requireParent_def parent_there_def)
next
  case False
  obtain y w1 where q: "query (FileByPath owner (ParentOf path)) w = (y, w1)" by fastforce
  from query_look_same [OF FileByPath_same q] have "w_db w1 = w_db w" .
  moreover from q have "w_blobs w1 = w_blobs w" by (cases rule: query_cases) auto
  moreover have "store_of ob (w_db w) owner (ParentOf path) = Some Directory" if "y = Inr f" "f_is_dir f" for f
    using q that by (cases rule: query_cases) (auto simp: FileByPath_ok store_of_dir)
  ultimately show ?thesis using assms q False
    by (auto simp: requireParent_def parent_there_def tryE_def split: sum.splits if_splits)
qed

text \<open>The transaction of a write: the new row stands for the new bytes.\<close>

lemma replace_result:
  assumes run: "replace f w = (Inr (g, old), w')" and ob: "ob (f_blob f) = Some (b, t)"
  shows "store_of ob (w_db w') = put_entry (store_of ob (w_db w)) (f_owner f) (f_path f) (Contents b (f_etag f) (f_mime f))
     \<and> store_of ob (w_db w) (f_owner f) (f_path f) \<noteq> Some Directory \<and> parent_there (store_of ob (w_db w)) (f_owner f) (f_path f)
     \<and> valid_path (f_path f)"
proof -
  from run obtain w1 where p: "requireParent (f_owner f) (f_path f) w = (Inr (), w1)"
    and rest: "tryE (query (FileByPath (f_owner f) (f_path f))) (\<lambda>r.
     bindE (case r of
              Inr old \<Rightarrow> retE (if f_is_dir old then [] else f_blob old)
            | Inl x \<Rightarrow> if x = ErrNotFound then retE [] else failE x) (\<lambda>superseded.
     bindE (query (PutFile f)) (\<lambda>stored.
     retE (stored, superseded)))) w1 = (Inr (g, old), w')"
    unfolding replace_def by (auto elim: bindE_okE)
  obtain y w2 where q: "query (FileByPath (f_owner f) (f_path f)) w1 = (y, w2)" by fastforce
  note pr = requireParent_result [OF p, of ob]
  from pr query_look_same [OF FileByPath_same q] have db: "w_db w2 = w_db w" by simp
  from rest q obtain w3 where "query (PutFile f) w2 = (Inr g, w3)" "w' = w3"
    by (auto simp: tryE_def elim!: bindE_okE split: sum.splits if_splits)
  then have "PutFile f (w_db w) = (Inr g, w_db w')"
    using db by (auto elim: query_cases)
  from PutFile_store [where ob = ob, OF this ob] pr show ?thesis by simp
qed

section \<open>What the blob store keeps\<close>

context files_service
begin

text \<open>Nothing under the keys in \<open>K\<close> has changed.\<close>

definition guards :: "bytes set \<Rightarrow> objects \<Rightarrow> 's world \<Rightarrow> bool" where
  "guards K ob w \<longleftrightarrow> sound (w_blobs w) \<and> (\<forall>k\<in>K. objs (w_blobs w) k = ob k)"

lemma guards_delete:
  assumes "k \<notin> K"
  shows "keeps (guards K ob) (blob (port_delete (svc_blobs S) k))"
proof (rule keepsI)
  fix w assume w: "guards K ob w"
  obtain y s' e' where d: "port_delete (svc_blobs S) k (w_blobs w, w_env w) = (y, s', e')" by (metis prod_cases3)
  have "sound s' \<and> (objs s' = objs (w_blobs w) \<or> objs s' = (objs (w_blobs w))(k := None))"
    using w d delete_ok [of "w_blobs w" k "w_env w"] delete_err [of "w_blobs w" k "w_env w"]
    unfolding guards_def by (cases y) blast+
  with w assms d show "guards K ob (snd (blob (port_delete (svc_blobs S) k) w))"
    by (auto simp: guards_def blob_def)
qed

lemma keeps_best: "keeps P m \<Longrightarrow> keeps P (best_effort m)"
  unfolding best_effort_def by (intro keeps_try keeps_ret)

lemma keeps_foreach: "(\<And>x. x \<in> set xs \<Longrightarrow> keeps P (f x)) \<Longrightarrow> keeps P (foreach f xs)"
  by (induction xs) (auto intro!: keeps_bind keeps_ret)

lemma guards_list:
  assumes "guards K ob w" "blob_list S pre w = ((is, err), w')"
  shows "guards K ob w' \<and> (\<forall>i\<in>set is. has_prefix (i_key i) pre)"
proof -
  obtain s' e' where l: "port_list (svc_blobs S) pre (w_blobs w, w_env w) = ((is, err), s', e')"
    and w': "w' = w\<lparr>w_blobs := s', w_env := e'\<rparr>"
    using assms(2) by (auto simp: blob_list_def split: prod.splits)
  from assms(1) have "sound (w_blobs w)" by (simp add: guards_def)
  from list_result [OF this l] listing_prefix assms(1) w' show ?thesis by (auto simp: guards_def)
qed

lemma keeps_dropBlob:
  assumes first: "keeps P (blob (port_delete (svc_blobs S) k))"
    and listed: "\<And>w is err w'. P w \<Longrightarrow> blob_list S (DerivedPrefix @ k @ ''/'') w = ((is, err), w') \<Longrightarrow>
        P w' \<and> (\<forall>i\<in>set is. keeps P (blob (port_delete (svc_blobs S) (i_key i))))"
  shows "keeps P (dropBlob S k)"
  unfolding dropBlob_def
proof (rule keeps_bind [OF first], rule keepsI)
  fix w assume w: "P w"
  obtain "is" err w1 where l: "blob_list S (DerivedPrefix @ k @ ''/'') w = ((is, err), w1)" by (metis surj_pair)
  from listed [OF w l] have "keeps P (foreach (\<lambda>i. blob (port_delete (svc_blobs S) (i_key i))) is)"
    by (intro keeps_foreach) simp
  then have "keeps P (bindE (foreach (\<lambda>i. blob (port_delete (svc_blobs S) (i_key i))) is) (\<lambda>_.
         case err of Some x \<Rightarrow> failE x | None \<Rightarrow> retE ()))"
    by (rule keeps_bind) (auto simp: keeps_def split: option.splits)
  with listed [OF w l] l
  show "P (snd (case blob_list S (DerivedPrefix @ k @ ''/'') w of
       ((is, err), w1) \<Rightarrow>
         bindE (foreach (\<lambda>i. blob (port_delete (svc_blobs S) (i_key i))) is) (\<lambda>_.
         case err of Some x \<Rightarrow> failE x | None \<Rightarrow> retE ()) w1))"
    by (simp add: keeps_def)
qed

lemma guards_dropBlob:
  assumes "k \<notin> K" and "\<And>x. x \<in> K \<Longrightarrow> \<not> has_prefix x DerivedPrefix"
  shows "keeps (guards K ob) (dropBlob S k)"
proof (rule keeps_dropBlob [OF guards_delete [OF assms(1)]])
  fix w "is" err w' assume w: "guards K ob w" "blob_list S (DerivedPrefix @ k @ ''/'') w = ((is, err), w')"
  from guards_list [OF w] have "i_key i \<notin> K" if "i \<in> set is" for i
    using that assms(2) by (force simp: has_prefix_iff)
  with guards_list [OF w] show "guards K ob w' \<and> (\<forall>i\<in>set is. keeps (guards K ob) (blob (port_delete (svc_blobs S) (i_key i))))"
    by (blast intro: guards_delete)
qed

text \<open>What is gone stays gone, whatever is deleted next; and what \<open>dropBlob\<close> says it dropped is gone.\<close>

lemma gone_delete: "keeps (guards {x} Map.empty) (blob (port_delete (svc_blobs S) k))"
proof (cases "k = x")
  case True
  show ?thesis
  proof (rule keepsI)
    fix w assume w: "guards {x} Map.empty w"
    obtain y s' e' where d: "port_delete (svc_blobs S) k (w_blobs w, w_env w) = (y, s', e')" by (metis prod_cases3)
    have "sound s' \<and> (objs s' = objs (w_blobs w) \<or> objs s' = (objs (w_blobs w))(k := None))"
      using w d delete_ok [of "w_blobs w" k "w_env w"] delete_err [of "w_blobs w" k "w_env w"]
      unfolding guards_def by (cases y) blast+
    with w d True show "guards {x} Map.empty (snd (blob (port_delete (svc_blobs S) k) w))"
      by (auto simp: guards_def blob_def)
  qed
qed (simp add: guards_delete)

lemma gone_dropBlob: "keeps (guards {x} Map.empty) (dropBlob S k)"
  using guards_list by (intro keeps_dropBlob [OF gone_delete]) (blast intro: gone_delete)

lemma dropBlob_gone:
  assumes "sound (w_blobs w)" and "dropBlob S k w = (Inr u, w')"
  shows "guards {k} Map.empty w'"
proof -
  obtain y s' e' where d: "port_delete (svc_blobs S) k (w_blobs w, w_env w) = (y, s', e')" by (metis prod_cases3)
  then obtain v where v: "y = Inr v" using assms(2) by (cases y) (auto simp: dropBlob_def bindE_def blob_def)
  let ?w = "w\<lparr>w_blobs := s', w_env := e'\<rparr>"
  have gone: "guards {k} Map.empty ?w"
    using delete_ok [OF assms(1) d [unfolded v]] by (auto simp: guards_def)
  obtain "is" err w1 where l: "blob_list S (DerivedPrefix @ k @ ''/'') ?w = ((is, err), w1)" by (metis surj_pair)
  with d v assms(2) have "bindE (foreach (\<lambda>i. blob (port_delete (svc_blobs S) (i_key i))) is) (\<lambda>_.
         case err of Some x \<Rightarrow> failE x | None \<Rightarrow> retE ()) w1 = (Inr u, w')"
    by (simp add: dropBlob_def bindE_def blob_def)
  then obtain z where "foreach (\<lambda>i. blob (port_delete (svc_blobs S) (i_key i))) is w1 = (Inr z, w')"
    by (elim bindE_okE) (auto split: option.splits)
  moreover have "keeps (guards {k} Map.empty) (foreach (\<lambda>i. blob (port_delete (svc_blobs S) (i_key i))) is)"
    by (intro keeps_foreach gone_delete)
  moreover have "guards {k} Map.empty w1" using guards_list [OF gone l] by blast
  ultimately show ?thesis by (rule keepsD [rotated 2])
qed


text \<open>A blob is stored whole under a key of its own, or the blobs there were are as they were.\<close>

lemma read_full_head:
  "read_full n r = (head, st, rest) \<Longrightarrow> head = take n (content r) \<and> content (multi_reader head rest) = content r"
  using read_full_content [of n r head st rest]
  by (cases "st = More") (auto simp: multi_reader_def content_def)

lemma storeBlob_stores:
  assumes w: "holds {#} w" and run: "storeBlob S owner path body sz mimeType w = (r, w')"
  shows "w_db w' = w_db w \<and> guards (set_mset (keys_of (refs (w_db w)))) (objs (w_blobs w)) w'
     \<and> (case r of Inl _ \<Rightarrow> True
        | Inr f \<Rightarrow> f_owner f = owner \<and> f_path f = path \<and> f_etag f = etag S (content body)
            \<and> f_mime f = contentType mimeType (fst (Sniff (take HeadSize (content body))))
            \<and> (\<exists>t. objs (w_blobs w') (f_blob f) = Some (content body, t)))"
proof -
  let ?K = "set_mset (keys_of (refs (w_db w)))"
  have same: ?thesis if "w_db w' = w_db w" "w_blobs w' = w_blobs w" "\<not> is_ok r"
    using that holds_sound [OF w] by (auto simp: guards_def split: sum.splits)
  obtain head st rest where rf: "read_full HeadSize body = (head, st, rest)" by (cases "read_full HeadSize body")
  note hd = read_full_head [OF rf]
  obtain ty kd where sn: "Sniff head = (ty, kd)" by fastforce
  show ?thesis
  proof (cases "ValidatePath path = Inr () \<and> (\<forall>x. st \<noteq> Broken x)")
    case False
    with run rf show ?thesis
      by (intro same) (auto simp: storeBlob_def bindE_def split: sum.splits status.splits)
  next
    case True
    obtain id w1 where ri: "rand_id w = (Inr id, w1)" by (simp add: rand_id_def)
    let ?key = "newBlobKey path kd (now (w_env w)) id"
    from yieldsD_ok [OF rand_id_fresh w ri] have w1: "holds {#} w1" "fresh_key {#} ?key w1"
      using key_id_newBlobKey newBlobKey_not_derived by blast+
    from ri have eqs: "w_db w1 = w_db w" "w_blobs w1 = w_blobs w" by (auto simp: rand_id_def)
    from w1(2) eqs have fresh: "?key \<notin> ?K" by (simp add: free_key_def)
    obtain y s' e' where p: "port_put (svc_blobs S) ?key (multi_reader head rest) sz (w_blobs w1, w_env w1) = (y, s', e')"
      by (metis prod_cases3)
    then have b: "blob (port_put (svc_blobs S) ?key (multi_reader head rest) sz) w1 = (y, w1\<lparr>w_blobs := s', w_env := e'\<rparr>)"
      by (simp add: blob_def)
    have run': "(r, w') = (case y of Inl x \<Rightarrow> (Inl x, w1\<lparr>w_blobs := s', w_env := e'\<rparr>)
      | Inr info \<Rightarrow> (Inr (no_file\<lparr>f_owner := owner, f_path := path, f_blob := ?key, f_size := i_size info,
          f_mtime := i_mtime info, f_etag := etag S (content (multi_reader head rest)),
          f_mime := contentType mimeType ty\<rparr>), w1\<lparr>w_blobs := s', w_env := e'\<rparr>))"
      using True run rf sn ri b
      by (cases st; cases y) (auto simp: storeBlob_def bindE_def clock_def Let_def)
    show ?thesis
    proof (cases y)
      case (Inl x)
      with put_err [OF holds_sound [OF w1(1)] p [unfolded Inl]] run' eqs fresh show ?thesis by (auto simp: guards_def)
    next
      case (Inr info)
      with put_ok [OF holds_sound [OF w1(1)] p [unfolded Inr]] run' eqs fresh hd sn show ?thesis
        by (auto simp: guards_def)
    qed
  qed
qed

end

section \<open>Writing\<close>

context files_service
begin

abbreviation content_of :: "'s world \<Rightarrow> store" where
  "content_of w \<equiv> store_of (objs (w_blobs w)) (w_db w)"

lemma guards_content:
  "guards (set_mset (keys_of (refs (w_db w)))) (objs (w_blobs w)) w' \<Longrightarrow> w_db w' = w_db w \<Longrightarrow> content_of w' = content_of w"
  unfolding guards_def by (metis store_of_cong)

lemma guards_self: "sound (w_blobs w) \<Longrightarrow> guards K (objs (w_blobs w)) w"
  by (simp add: guards_def)

lemma best_effort_result: "best_effort m w = (Inr (), snd (m w))"
  by (cases "m w") (simp add: best_effort_def tryE_def)

lemma drop_old_content:
  assumes w: "holds M w" and M: "if old = [] then M = {#} else \<exists>n. M = {#(old, n)#}" and run: "drop_old S old w = (r, w')"
  shows "r = Inr () \<and> w_db w' = w_db w \<and> content_of w' = content_of w"
proof (cases "old = []")
  case True
  with run show ?thesis by (simp add: drop_old_def)
next
  case False
  with M w pending_not_ref have old: "old \<notin># keys_of (refs (w_db w))" by auto
  from w have plain: "\<And>x. x \<in># keys_of (refs (w_db w)) \<Longrightarrow> \<not> has_prefix x DerivedPrefix"
    by (auto simp: safe_with_def keys_ok_def)
  from False run have run': "r = Inr ()" "w' = snd (dropBlob S old w)"
    by (auto simp: drop_old_def best_effort_result)
  with keepsD [OF guards_dropBlob [OF old plain] guards_self [OF holds_sound [OF w]], of "fst (dropBlob S old w)" w']
  have "guards (set_mset (keys_of (refs (w_db w)))) (objs (w_blobs w)) w'" by simp
  with run' dropBlob_db [of old w] guards_content show ?thesis by simp
qed

text \<open>
  A transaction that files a row: what it commits is the row in its place, and the blob the row
  replaces is handed back.
\<close>

definition files_row :: "db_file \<Rightarrow> ('t, db_file \<times> bytes) act \<Rightarrow> bool" where
  "files_row f m \<longleftrightarrow>
     grants {#(f_blob f, f_size f)#} m (\<lambda>(g, old) M. if old = [] then M = {#} else \<exists>n. M = {#(old, n)#})
     \<and> (\<forall>ob b t v g old v'. ob (f_blob f) = Some (b, t) \<longrightarrow> m v = (Inr (g, old), v') \<longrightarrow>
          store_of ob (w_db v') = put_entry (store_of ob (w_db v)) (f_owner f) (f_path f) (Contents b (f_etag f) (f_mime f))
          \<and> store_of ob (w_db v) (f_owner f) (f_path f) \<noteq> Some Directory
          \<and> parent_there (store_of ob (w_db v)) (f_owner f) (f_path f))"

lemma files_row_grants: "files_row f m \<Longrightarrow>
    grants {#(f_blob f, f_size f)#} m (\<lambda>(g, old) M. if old = [] then M = {#} else \<exists>n. M = {#(old, n)#})"
  by (simp add: files_row_def)

lemma files_rowD:
  assumes "files_row f m" "ob (f_blob f) = Some (b, t)" "m v = (Inr (g, old), v')"
  shows "store_of ob (w_db v') = put_entry (store_of ob (w_db v)) (f_owner f) (f_path f) (Contents b (f_etag f) (f_mime f))
     \<and> store_of ob (w_db v) (f_owner f) (f_path f) \<noteq> Some Directory
     \<and> parent_there (store_of ob (w_db v)) (f_owner f) (f_path f)"
  using assms unfolding files_row_def by blast

lemma grants_mono:
  assumes m: "grants N m X" and XY: "\<And>x M. X x M \<Longrightarrow> Y x M"
  shows "grants N m Y"
  unfolding grants_def
proof (intro allI impI)
  fix w w' and r :: "error + 'b" assume "uniq (w_db w)" "m w = (r, w')"
  from grantsD [OF m this] XY
  show "w_blobs w' = w_blobs w \<and> env_step (w_env w) (w_env w') \<and> w_told w' = w_told w
     \<and> (case r of Inl _ \<Rightarrow> True
        | Inr x \<Rightarrow> uniq (w_db w') \<and> set (uploads (w_db w')) \<subseteq> set (uploads (w_db w))
            \<and> (\<exists>M. Y x M \<and> refs (w_db w') + M \<subseteq># refs (w_db w) + N))"
    by (cases r) (simp_all, blast)
qed

lemma replace_files: "files_row f (replace f)"
  unfolding files_row_def
proof (intro conjI allI impI)
  show "grants {#(f_blob f, f_size f)#} (replace f) (\<lambda>(g, old) M. if old = [] then M = {#} else \<exists>n. M = {#(old, n)#})"
    by (rule grants_mono [OF replace_grants]) auto
next
  fix ob :: objects and b t v g old v'
  assume "ob (f_blob f) = Some (b, t)" "replace f v = (Inr (g, old), v')"
  from replace_result [where ob = ob, OF this(2,1)]
  show "store_of ob (w_db v') = put_entry (store_of ob (w_db v)) (f_owner f) (f_path f) (Contents b (f_etag f) (f_mime f))"
    "store_of ob (w_db v) (f_owner f) (f_path f) \<noteq> Some Directory" "parent_there (store_of ob (w_db v)) (f_owner f) (f_path f)"
    by blast+
qed

lemma commit_content:
  assumes w: "holds (row_ref f) w" "\<not> f_is_dir f" and ob: "objs (w_blobs w) (f_blob f) = Some (b, t)"
    and m: "files_row f m" and run: "Tx m w = (Inr (g, old), w')"
  shows "content_of w' = put_entry (content_of w) (f_owner f) (f_path f) (Contents b (f_etag f) (f_mime f))
     \<and> content_of w (f_owner f) (f_path f) \<noteq> Some Directory \<and> parent_there (content_of w) (f_owner f) (f_path f)
     \<and> (\<exists>M. (if old = [] then M = {#} else \<exists>n. M = {#(old, n)#}) \<and> holds M w')"
proof -
  have ref: "row_ref f = {#(f_blob f, f_size f)#}" using w(2) by (simp add: row_ref_def)
  from yieldsD_ok [OF Tx_grants [OF files_row_grants [OF m]] w(1) [unfolded ref] run]
  have M: "\<exists>M. (if old = [] then M = {#} else \<exists>n. M = {#(old, n)#}) \<and> holds M w'" by auto
  from run show ?thesis
  proof (cases rule: Tx_cases)
    case (committed e y w1 e')
    from w(1) have "uniq (w_db (w\<lparr>w_env := e\<rparr>))" by (simp add: safe_with_def)
    from grantsD [OF files_row_grants [OF m] this committed(2)] have "w_blobs w1 = w_blobs w" by simp
    then have same: "content_of w' = store_of (objs (w_blobs w)) (w_db w1)" using committed(4) by simp
    from committed have y: "y = (g, old)" by simp
    from files_rowD [where ob = "objs (w_blobs w)", OF m ob committed(2) [unfolded y]] M
    show ?thesis unfolding same by simp
  qed auto
qed

lemma aborted_content:
  assumes w: "holds (row_ref f) w" "\<not> f_is_dir f" and m: "files_row f m" and run: "Tx m w = (Inl x, w1)"
    and gone: "best_effort (blob (port_delete (svc_blobs S) (f_blob f))) w1 = (r, w')"
  shows "content_of w' = content_of w"
proof -
  let ?K = "set_mset (keys_of (refs (w_db w)))"
  have u: "uniq (w_db w)" using w(1) by (simp add: safe_with_def)
  from w pending_not_ref have k: "f_blob f \<notin> ?K" by (auto simp: row_ref_def)
  have db: "w_db w1 = w_db w" by (rule Tx_error [OF run])
  have "w_blobs w1 = w_blobs w" using run
  proof (cases rule: Tx_cases)
    case (rolled e x w2)
    with grantsD [OF files_row_grants [OF m] _ rolled(2)] u show ?thesis by simp
  next
    case (uncommitted e y w2 e')
    with grantsD [OF files_row_grants [OF m] _ uncommitted(2)] u show ?thesis by simp
  qed auto
  then have g: "guards ?K (objs (w_blobs w)) w1" using holds_sound [OF w(1)] by (simp add: guards_def)
  obtain y w2 where d: "blob (port_delete (svc_blobs S) (f_blob f)) w1 = (y, w2)" by fastforce
  with gone have "w' = w2" by (simp add: best_effort_result)
  with keepsD [OF guards_delete [OF k] g d] blob_db [OF d] db guards_content show ?thesis by simp
qed

text \<open>How a write and a completed upload end.\<close>

lemma finish_content:
  assumes h: "holds (row_ref f) w" "\<not> f_is_dir f" and ob: "objs (w_blobs w) (f_blob f) = Some (b, t)"
    and m: "files_row f m"
    and rest: "\<And>g v. \<exists>v'. rest g v = (Inr g, v') \<and> w_db v' = w_db v \<and> w_blobs v' = w_blobs v"
    and run: "tryE (Tx m) (\<lambda>r. case r of
         Inl x \<Rightarrow> bindE (best_effort (blob (port_delete (svc_blobs S) (f_blob f)))) (\<lambda>_. failE x)
       | Inr (stored, superseded) \<Rightarrow> bindE (drop_old S superseded) (\<lambda>_. rest stored)) w = (r, w')"
  shows "case r of
       Inl _ \<Rightarrow> content_of w' = content_of w
     | Inr _ \<Rightarrow> content_of w' = put_entry (content_of w) (f_owner f) (f_path f) (Contents b (f_etag f) (f_mime f))
         \<and> content_of w (f_owner f) (f_path f) \<noteq> Some Directory \<and> parent_there (content_of w) (f_owner f) (f_path f)"
proof -
  obtain z w2 where tx: "Tx m w = (z, w2)" by fastforce
  show ?thesis
  proof (cases z)
    case (Inl x)
    with run tx have r: "r = Inl x" "best_effort (blob (port_delete (svc_blobs S) (f_blob f))) w2 = (Inr (), w')"
      by (auto simp: bindE_def tryE_def best_effort_result)
    from aborted_content [OF h m tx [unfolded Inl] r(2)] r(1) show ?thesis by simp
  next
    case z: (Inr p)
    obtain g old where p: "p = (g, old)" by fastforce
    note committed = commit_content [OF h ob m tx [unfolded z p]]
    then obtain M where M: "if old = [] then M = {#} else \<exists>n. M = {#(old, n)#}" "holds M w2" by blast
    obtain v w3 where d: "drop_old S old w2 = (v, w3)" by fastforce
    note dropped = drop_old_content [OF M(2,1) d]
    obtain w4 where w4: "rest g w3 = (Inr g, w4)" "w_db w4 = w_db w3" "w_blobs w4 = w_blobs w3" using rest by blast
    from run tx z p d dropped w4 have r: "r = Inr g" "w' = w4" by (auto simp: bindE_def tryE_def)
    have "content_of w4 = content_of w3" using w4 by simp
    also have "content_of w3 = content_of w2" using dropped by blast
    finally have "content_of w4 = content_of w2" .
    with committed show ?thesis by (simp only: r sum.case) blast
  qed
qed

lemma write_file_content:
  assumes w: "holds {#} w" and run: "write_file S owner path body sz mimeType w = (r, w')"
  shows "case r of
       Inl _ \<Rightarrow> content_of w' = content_of w
     | Inr f \<Rightarrow> content_of w' = put_entry (content_of w) owner path (written_entry (svc_hash S) body mimeType)
         \<and> content_of w owner path \<noteq> Some Directory \<and> parent_there (content_of w) owner path"
proof -
  obtain y w1 where st: "storeBlob S owner path body sz mimeType w = (y, w1)" by fastforce
  note stored = storeBlob_stores [OF w st]
  then have c1: "content_of w1 = content_of w" using guards_content by blast
  show ?thesis
  proof (cases y)
    case (Inl x)
    with run st c1 show ?thesis by (auto simp: write_file_def bindE_def)
  next
    case (Inr f)
    from yieldsD_ok [OF storeBlob_holds w st [unfolded Inr]] have h: "holds (row_ref f) w1" "\<not> f_is_dir f" by auto
    from stored Inr obtain t where f: "f_owner f = owner" "f_path f = path" "f_etag f = etag S (content body)"
      "f_mime f = contentType mimeType (fst (Sniff (take HeadSize (content body))))"
      "objs (w_blobs w1) (f_blob f) = Some (content body, t)" by auto
    from run st Inr have "tryE (Tx (replace f)) (\<lambda>r. case r of
         Inl x \<Rightarrow> bindE (best_effort (blob (port_delete (svc_blobs S) (f_blob f)))) (\<lambda>_. failE x)
       | Inr (stored, superseded) \<Rightarrow> bindE (drop_old S superseded) (\<lambda>_. retE stored)) w1 = (r, w')"
      by (simp add: write_file_def bindE_def)
    from finish_content [OF h f(5) replace_files, of "retE", OF _ this] c1 f
    show ?thesis by (cases r) (simp_all add: written_entry_def etag_def)
  qed
qed

lemma Write_content:
  assumes "holds {#} w" "Write S owner path body sz mimeType w = (r, w')"
  shows "case r of
       Inl _ \<Rightarrow> content_of w' = content_of w
     | Inr f \<Rightarrow> content_of w' = put_entry (content_of w) owner path (written_entry (svc_hash S) body mimeType)
         \<and> content_of w owner path \<noteq> Some Directory \<and> parent_there (content_of w) owner path"
proof -
  obtain y w1 where y: "write_file S owner path body sz mimeType w = (y, w1)" by fastforce
  with assms(2) have "(case y of Inl x \<Rightarrow> (Inl x, w1) | Inr f \<Rightarrow> (Inr f, w1\<lparr>w_told := w_told w1 @ [f]\<rparr>)) = (r, w')"
    by (auto simp: Write_def bindE_def written_def split: sum.splits)
  with write_file_content [OF assms(1) y] show ?thesis by (cases y) auto
qed

end

section \<open>Reading\<close>

context files_service
begin

lemma select_whole: "is_int64 (int (length d)) \<Longrightarrow> Resolve (From 0) (int (length d)) = Inr win \<Longrightarrow> select d win = d"
  by (auto simp: Resolve_def select_def From_def split: if_splits)

lemma OpenFile_reads:
  assumes w: "holds {#} w" and look: "lookup_file (w_db w) owner path = Some r"
    and run: "OpenFile S (scan_file r) w = (Inr body, w')" and i: "is_int64 (f_size r)"
  shows "\<exists>d. content_of w owner path = Some (Contents d (f_etag r) (f_mime r)) \<and> int (length d) = f_size r
     \<and> prefix (content body) d \<and> (failure body = None \<longrightarrow> content body = d)"
proof -
  from run have nd: "\<not> f_is_dir r" by (auto simp: OpenFile_def)
  with rows_refs_mem [of r "files (w_db w)"] lookup_file_SomeD [OF look]
  have "(f_blob r, f_size r) \<in># refs (w_db w)" by (simp add: refs_def)
  with w have "\<exists>d t. objs (w_blobs w) (f_blob r) = Some (d, t) \<and> int (length d) = f_size r"
    by (simp add: safe_with_def backed_def)
  then obtain d t where d: "objs (w_blobs w) (f_blob r) = Some (d, t)" "int (length d) = f_size r" by blast
  have c: "content_of w owner path = Some (Contents d (f_etag r) (f_mime r))"
    using look nd d by (simp add: store_of_def entry_of_def)
  show ?thesis
  proof (cases "f_size r \<le> 0")
    case True
    with d(2) have "length d = 0" by linarith
    then have "d = []" by simp
    with True d nd run c show ?thesis by (auto simp: OpenFile_def no_bytes_def content_def)
  next
    case False
    obtain y s' e' where g: "port_get (svc_blobs S) (f_blob r) (From 0) (w_blobs w, w_env w) = (y, s', e')" by (metis prod_cases3)
    then have "blob (port_get (svc_blobs S) (f_blob r) (From 0)) w = (y, w\<lparr>w_blobs := s', w_env := e'\<rparr>)"
      by (simp add: blob_def)
    with nd False have "fst (OpenFile S (scan_file r) w) = Inr (case y of Inl x \<Rightarrow> \<lparr>chunks = [], failure = Some x, eager = False\<rparr>
        | Inr (b, _) \<Rightarrow> bounded (f_size r) b)"
      by (cases y) (simp_all add: OpenFile_def split: prod.splits)
    with run have body: "body = (case y of Inl x \<Rightarrow> \<lparr>chunks = [], failure = Some x, eager = False\<rparr>
        | Inr (b, _) \<Rightarrow> bounded (f_size r) b)" by simp
    show ?thesis
    proof (cases y)
      case (Inl x)
      with body have "content body = []" "failure body \<noteq> None" by (simp_all add: content_def)
      with c d(2) show ?thesis by (intro exI [of _ d]) auto
    next
      case (Inr z)
      obtain b i where z: "z = (b, i)" by fastforce
      from get_ok [OF holds_sound [OF w] g [unfolded Inr z]] obtain ob win where
        ob: "objs (w_blobs w) (f_blob r) = Some ob" "i = info_of (f_blob r) ob" "Resolve (From 0) (i_size i) = Inr win"
          "prefix (content b) (select (fst ob) win)" "failure b = None \<longrightarrow> content b = select (fst ob) win"
        by (elim conjE exE) (rule that)
      from ob(1) d(1) have "ob = (d, t)" by simp
      with ob have win: "Resolve (From 0) (int (length d)) = Inr win" "prefix (content b) (select d win)"
          "failure b = None \<longrightarrow> content b = select d win" by (simp_all add: info_of_def)
      have "is_int64 (int (length d))" using i d(2) by simp
      then have "select d win = d" using win(1) by (rule select_whole)
      with win(2,3) have b: "prefix (content b) d" "failure b = None \<longrightarrow> content b = d" by simp_all
      then have "length (content b) \<le> length d" by (simp add: prefix_length_le)
      with d(2) have "int (length (content b)) \<le> f_size r" by simp
      then have "body = b" using body by (simp add: Inr z bounded_def)
      with b c d(2) show ?thesis by (intro exI [of _ d]) simp
    qed
  qed
qed

lemma Open_reads:
  assumes w: "holds {#} w" and run: "Open S owner path w = (Inr (body, f), w')" and i: "is_int64 (f_size f)"
  shows "\<exists>d. content_of w owner path = Some (Contents d (f_etag f) (f_mime f)) \<and> int (length d) = f_size f
     \<and> prefix (content body) d \<and> (failure body = None \<longrightarrow> content body = d)"
proof -
  obtain y w1 where q: "query (FileByPath owner path) w = (y, w1)" by fastforce
  note l = look_world [OF FileByPath_same q]
  from run q obtain w2 where y: "y = Inr f" and o: "OpenFile S f w1 = (Inr body, w2)"
    by (auto simp: Open_def bindE_def split: sum.splits prod.splits if_splits)
  from q y obtain r where r: "lookup_file (w_db w) owner path = Some r" "f = scan_file r"
    by (cases rule: query_cases) (auto simp: FileByPath_ok)
  from q have "env_step (w_env w) (w_env w1)" by (cases rule: query_cases) auto
  with w l have "holds {#} w1" by (intro safe_with_mono [OF w]) (auto simp: safe_with_def)
  from OpenFile_reads [OF this, of owner path r body w2] r o l i show ?thesis by simp
qed

end

section \<open>Directories and removal\<close>

text \<open>The store without an entry and what is under it.\<close>

definition drop_tree :: "store \<Rightarrow> bytes \<Rightarrow> bytes \<Rightarrow> store" where
  "drop_tree st owner path = (\<lambda>o' q. if o' = owner \<and> (q = path \<or> under path q) then None else st o' q)"

lemma Mkdir_result:
  assumes run: "Mkdir owner path w = (r, w')"
  shows "case r of
       Inl _ \<Rightarrow> w_db w' = w_db w \<and> w_blobs w' = w_blobs w
     | Inr _ \<Rightarrow> w_blobs w' = w_blobs w \<and> store_of ob (w_db w') = put_entry (store_of ob (w_db w)) owner path Directory
         \<and> store_of ob (w_db w) owner path = None \<and> parent_there (store_of ob (w_db w)) owner path"
proof -
  let ?m = "bindE (requireParent owner path) (\<lambda>_. bindE clock (\<lambda>t. query (CreateDir owner path t)))"
  have body: "w_blobs w2 = w_blobs w1 \<and> (case y of Inl _ \<Rightarrow> True
       | Inr _ \<Rightarrow> store_of ob (w_db w2) = put_entry (store_of ob (w_db w1)) owner path Directory
         \<and> store_of ob (w_db w1) owner path = None \<and> parent_there (store_of ob (w_db w1)) owner path)"
    if m: "?m w1 = (y, w2)" for w1 y w2
  proof -
    obtain p w3 where p: "requireParent owner path w1 = (p, w3)" by fastforce
    note pr = requireParent_result [OF p, of ob]
    show ?thesis
    proof (cases p)
      case (Inl e)
      with m p pr show ?thesis by auto
    next
      case (Inr u)
      with m p have q: "query (CreateDir owner path (now (w_env w3))) w3 = (y, w2)" by (simp add: bindE_def clock_def)
      from q show ?thesis
      proof (cases rule: query_cases)
        case (2 e d)
        with CreateDir_store [where ob = ob and d = "w_db w3"] pr Inr show ?thesis by (cases y) auto
      qed (use pr in auto)
    qed
  qed
  show ?thesis
  proof (cases "ValidatePath path")
    case (Inl e)
    with run show ?thesis by (auto simp: Mkdir_def bindE_def)
  next
    case (Inr u)
    with run have "Tx ?m w = (r, w')" by (simp add: Mkdir_def bindE_def)
    then show ?thesis
    proof (cases rule: Tx_cases)
      case (rolled e x w1)
      with body [OF rolled(2)] show ?thesis by simp
    next
      case (uncommitted e y w1 e')
      with body [OF uncommitted(2)] show ?thesis by simp
    next
      case (committed e y w1 e')
      with body [OF committed(2)] show ?thesis by simp
    qed auto
  qed
qed

lemma Trash_result:
  "Trash batch rows t w = (r, w') \<Longrightarrow> w_blobs w' = w_blobs w \<and> w_told w' = w_told w
     \<and> files (w_db w') = files (w_db w) \<and> uploads (w_db w') = uploads (w_db w) \<and> next_id (w_db w') = next_id (w_db w)
     \<and> (calm (w_env w) \<longrightarrow> calm (w_env w') \<and> r = Inr ())
     \<and> (r = Inr () \<longrightarrow> trash (w_db w') = trash (w_db w) @ map (trash_row batch t) rows)"
proof (induction rows arbitrary: w)
  case Nil
  then show ?case by (simp add: Trash_def)
next
  case (Cons f rows)
  obtain y w1 where q: "query (InsertTrash batch t f) w = (y, w1)" by fastforce
  have y: "calm (w_env w) \<Longrightarrow> calm (w_env w1) \<and> y = Inr ()"
  proof -
    assume "calm (w_env w)"
    then obtain e where "query (InsertTrash batch t f) w
        = (fst (InsertTrash batch t f (w_db w)), w\<lparr>w_env := e, w_db := snd (InsertTrash batch t f (w_db w))\<rparr>)" "calm e"
      by (rule query_calm)
    with q show ?thesis by (auto simp: InsertTrash_def)
  qed
  from q have w1: "w_blobs w1 = w_blobs w \<and> w_told w1 = w_told w \<and> files (w_db w1) = files (w_db w)
     \<and> uploads (w_db w1) = uploads (w_db w) \<and> next_id (w_db w1) = next_id (w_db w)
     \<and> (y = Inr () \<longrightarrow> trash (w_db w1) = trash (w_db w) @ [trash_row batch t f])"
    by (cases rule: query_cases) (auto simp: InsertTrash_def)
  show ?case
  proof (cases y)
    case (Inl e)
    with Cons.prems q y w1 show ?thesis by (auto simp: Trash_def bindE_def)
  next
    case (Inr u)
    with Cons.prems q have "Trash batch rows t w1 = (r, w')" by (simp add: Trash_def bindE_def)
    from Cons.IH [OF this] w1 y Inr show ?thesis by auto
  qed
qed

text \<open>What a removal does to the database, when it succeeds and that it does.\<close>

definition removed_tree :: "bytes \<Rightarrow> bytes \<Rightarrow> bytes \<Rightarrow> int \<Rightarrow> database \<Rightarrow> database \<Rightarrow> bool" where
  "removed_tree owner path batch t d d' \<longleftrightarrow> tree_ok d' \<and> lookup_file d' owner path = None
     \<and> pruned owner (at_or_under path) d (d'\<lparr>trash := trash d\<rparr>)
     \<and> (\<exists>rows. trash d' = trash d @ map (trash_row batch t) rows
          \<and> mset (map scan_file (files d)) = mset (map scan_file (files d')) + mset rows)"

lemma tree_ok_trash [simp]: "tree_ok (d\<lparr>trash := x\<rparr>) = tree_ok d"
  and lookup_file_trash [simp]: "lookup_file (d\<lparr>trash := x\<rparr>) = lookup_file d"
  by (simp_all add: tree_ok_def ids_ok_def lookup_file_def fun_eq_iff)

lemma tree_ok_files: "files d' = files d \<Longrightarrow> next_id d' = next_id d \<Longrightarrow> tree_ok d' = tree_ok d"
  by (simp add: tree_ok_def ids_ok_def)

lemma removal_body:
  assumes ok: "tree_ok (w_db w)"
    and run: "bindE (removeTree depth_bound owner path) (\<lambda>rows. bindE clock (\<lambda>t. Trash batch rows t)) w = (r, w')"
  shows "w_blobs w' = w_blobs w \<and> (r = Inr () \<longrightarrow> removed_tree owner path batch (now (w_env w)) (w_db w) (w_db w'))"
proof -
  obtain y w1 where rt: "removeTree depth_bound owner path w = (y, w1)" by fastforce
  note rm = removeTree_removes(1) [OF ok rt]
  from ok have u: "uniq (w_db w)" by (simp add: tree_ok_def rows_ok_def uniq_def)
  from removeTree_shrinks(1) [OF u rt] have now: "now (w_env w1) = now (w_env w)" by (simp add: shrinks_def env_step_def)
  show ?thesis
  proof (cases y)
    case (Inl e)
    with run rt rm show ?thesis by (auto simp: removes_def)
  next
    case (Inr rows)
    with run rt have t: "Trash batch rows (now (w_env w)) w1 = (r, w')" by (simp add: bindE_def clock_def now)
    note tr = Trash_result [OF t]
    have "removed_tree owner path batch (now (w_env w)) (w_db w) (w_db w')" if "r = Inr ()"
    proof -
      have "(w_db w')\<lparr>trash := trash (w_db w)\<rparr> = w_db w1"
        using tr rm by (intro database.equality) (simp_all add: removes_def pruned_def)
      moreover have "lookup_file (w_db w') owner path = lookup_file (w_db w1) owner path"
        using tr by (simp add: lookup_file_def)
      moreover have "tree_ok (w_db w')" using tree_ok_files [of "w_db w'" "w_db w1"] tr rm by (simp add: removes_def)
      ultimately show ?thesis using that tr rm Inr unfolding removed_tree_def by (auto simp: removes_def pruned_def)
    qed
    with tr rm show ?thesis by (simp add: removes_def)
  qed
qed

lemma Remove_result:
  assumes ok: "tree_ok (w_db w)" and run: "Remove owner path w = (r, w')"
  shows "w_blobs w' = w_blobs w \<and> (case r of Inl _ \<Rightarrow> w_db w' = w_db w
     | Inr _ \<Rightarrow> \<exists>batch. removed_tree owner path batch (now (w_env w)) (w_db w) (w_db w'))"
proof -
  let ?batch = "texts (w_env w) (drawn (w_env w))"
  let ?w = "w\<lparr>w_env := (w_env w)\<lparr>drawn := Suc (drawn (w_env w))\<rparr>\<rparr>"
  from run have "Tx (bindE (removeTree depth_bound owner path) (\<lambda>rows. bindE clock (\<lambda>t. Trash ?batch rows t))) ?w = (r, w')"
    by (simp add: Remove_def bindE_def rand_id_def)
  then show ?thesis
  proof (cases rule: Tx_cases)
    case (rolled e x w1)
    with removal_body [OF _ rolled(2)] ok show ?thesis by simp
  next
    case (uncommitted e y w1 e')
    with removal_body [OF _ uncommitted(2)] ok show ?thesis by simp
  next
    case (committed e y w1 e')
    then have "now e = now (w_env w)" by (simp add: env_step_def)
    with removal_body [OF _ committed(2)] ok committed show ?thesis by auto
  qed auto
qed

lemma removed_tree_store:
  assumes ok: "tree_ok d" and rm: "removed_tree owner path batch t d d'"
  shows "store_of ob d' = drop_tree (store_of ob d) owner path"
proof (intro ext)
  fix o' q
  let ?d = "d'\<lparr>trash := trash d\<rparr>"
  from rm have p: "pruned owner (at_or_under path) d ?d" and ok': "tree_ok ?d" and gone: "lookup_file d' owner path = None"
    by (simp_all add: removed_tree_def)
  show "store_of ob d' o' q = drop_tree (store_of ob d) owner path o' q"
  proof (cases "o' = owner \<and> at_or_under path q")
    case True
    then have "lookup_file d' o' q = None" using gone nothing_under [of ?d owner path q] ok' by (auto simp: tree_ok_def)
    with True show ?thesis by (simp add: drop_tree_def store_of_def)
  next
    case False
    with pruned_lookup [OF p _ _ False] ok ok' show ?thesis by (auto simp: drop_tree_def store_of_def tree_ok_def)
  qed
qed

lemma Remove_works:
  assumes ok: "tree_ok (w_db w)" and c: "calm (w_env w)" and there: "lookup_file (w_db w) owner path \<noteq> None"
  shows "fst (Remove owner path w) = Inr ()"
proof -
  let ?batch = "texts (w_env w) (drawn (w_env w))"
  let ?w = "w\<lparr>w_env := (w_env w)\<lparr>drawn := Suc (drawn (w_env w))\<rparr>\<rparr>"
  from c have "calm (w_env ?w)" by (simp add: calm_def)
  from check_calm [OF this] obtain e where e: "check ?w = (Inr (), ?w\<lparr>w_env := e\<rparr>)" "calm e" by blast
  let ?v = "?w\<lparr>w_env := e\<rparr>"
  have "tree_ok (w_db ?v)" "calm (w_env ?v)" "lookup_file (w_db ?v) owner path \<noteq> None" "MaxPathLen < depth_bound + length path"
    using ok e(2) there by (simp_all add: depth_bound_def)
  from removeTree_works(1) [OF this] obtain rows w1 where
    r: "removeTree depth_bound owner path ?v = (Inr rows, w1)" "calm (w_env w1)" by blast
  obtain y w2 where t: "Trash ?batch rows (now (w_env w1)) w1 = (y, w2)" by fastforce
  from Trash_result [OF t] r(2) have y: "y = Inr ()" "calm (w_env w2)" by simp_all
  from check_calm [OF y(2)] obtain e2 where "check w2 = (Inr (), w2\<lparr>w_env := e2\<rparr>)" by blast
  with e(1) r(1) t y show ?thesis by (simp add: Remove_def rand_id_def bindE_def Tx_def clock_def)
qed

section \<open>Uploads\<close>

text \<open>The upload a client means by an id.\<close>

definition upload_of :: "database \<Rightarrow> bytes \<Rightarrow> bytes \<Rightarrow> upload option" where
  "upload_of d owner uid = find (\<lambda>u. u_id u = uid \<and> u_owner u = owner) (uploads d)"

text \<open>What no chunk changes of an upload.\<close>

definition upload_target :: "upload \<Rightarrow> bytes \<times> bytes \<times> int" where
  "upload_target u = (u_store u, u_path u, u_size u)"

lemma find_map_upload:
  "(\<And>x. u_id (g x) = u_id x \<and> u_owner (g x) = u_owner x) \<Longrightarrow>
     find (\<lambda>u. u_id u = i \<and> u_owner u = o') (map g us) = map_option g (find (\<lambda>u. u_id u = i \<and> u_owner u = o') us)"
  by (induction us) auto

lemma PutUpload_targets:
  assumes "PutUpload u d = (r, d')" "list_ex (\<lambda>x. u_id x = u_id u) (uploads d)"
  shows "map_option upload_target (upload_of d' o' i) = map_option upload_target (upload_of d o' i)"
proof -
  let ?g = "\<lambda>x. if u_id x = u_id u then x\<lparr>u_received := u_received u, u_digest := u_digest u, u_expires := truncate_time (u_expires u)\<rparr> else x"
  from assms consider "d' = d" | "uploads d' = map ?g (uploads d)"
    by (auto simp: PutUpload_def split: sum.splits)
  then show ?thesis
  proof cases
    case 2
    then have "upload_of d' o' i = map_option ?g (upload_of d o' i)"
      unfolding upload_of_def by (simp add: find_map_upload)
    then show ?thesis by (cases "upload_of d o' i") (simp_all add: upload_target_def)
  qed simp
qed

lemma UploadByID_result: "UploadByID owner uid d = (case upload_of d owner uid of None \<Rightarrow> (Inl ErrNotFound, d) | Some u \<Rightarrow> (Inr u, d))"
  by (simp add: UploadByID_def upload_of_def)

lemma upload_look:
  assumes "query (UploadByID owner uid) w = (r, w')"
  shows "w_db w' = w_db w \<and> w_blobs w' = w_blobs w \<and> (\<forall>u. r = Inr u \<longrightarrow> upload_of (w_db w) owner uid = Some u \<and> u \<in> set (uploads (w_db w)))"
proof -
  from look_world [OF UploadByID_same assms] show ?thesis
    using assms by (auto elim!: query_cases simp: UploadByID_result upload_of_def find_Some_iff split: option.splits)
qed

context files_service
begin

lemma complete_files:
  "files_row f (bindE (replace f) (\<lambda>(stored, superseded).
     bindE (query (DeleteUpload owner uid)) (\<lambda>_. retE (stored, superseded))))" (is "files_row f ?m")
  unfolding files_row_def
proof (intro conjI allI impI)
  show "grants {#(f_blob f, f_size f)#} ?m (\<lambda>(g, old) M. if old = [] then M = {#} else \<exists>n. M = {#(old, n)#})"
    by (rule complete_grants)
next
  fix ob :: objects and b t v g old v'
  assume ob: "ob (f_blob f) = Some (b, t)" and run: "?m v = (Inr (g, old), v')"
  then obtain v1 where r: "replace f v = (Inr (g, old), v1)" and d: "\<exists>x. query (DeleteUpload owner uid) v1 = (Inr x, v')"
    by (auto elim!: bindE_okE split: prod.splits)
  from d have "files (w_db v') = files (w_db v1)" by (auto elim!: query_cases simp: DeleteUpload_def)
  then have "store_of ob (w_db v') = store_of ob (w_db v1)" by (simp add: fun_eq_iff store_of_def lookup_file_def)
  with replace_result [where ob = ob, OF r ob]
  show "store_of ob (w_db v') = put_entry (store_of ob (w_db v)) (f_owner f) (f_path f) (Contents b (f_etag f) (f_mime f))"
    "store_of ob (w_db v) (f_owner f) (f_path f) \<noteq> Some Directory" "parent_there (store_of ob (w_db v)) (f_owner f) (f_path f)"
    by simp_all
qed

lemma get_world:
  assumes "sound (w_blobs w)" "blob (port_get (svc_blobs S) k g) w = (r, w')"
  shows "w_db w' = w_db w \<and> w_blobs w' = w_blobs w"
proof -
  obtain y s' e' where p: "port_get (svc_blobs S) k g (w_blobs w, w_env w) = (y, s', e')" by (metis prod_cases3)
  have "s' = w_blobs w"
  proof (cases y)
    case (Inl x)
    with get_err [OF assms(1)] p show ?thesis by blast
  next
    case (Inr x)
    obtain body i where "x = (body, i)" by fastforce
    with get_ok [OF assms(1)] p Inr show ?thesis by blast
  qed
  with assms(2) p show ?thesis by (auto simp: blob_def)
qed

lemma uploadETag_world:
  assumes "sound (w_blobs w)" "uploadETag S u w = (r, w')"
  shows "w_db w' = w_db w \<and> w_blobs w' = w_blobs w"
proof (cases "u_digest u = []")
  case True
  obtain y w1 where g: "blob (port_get (svc_blobs S) (u_blob u) All) w = (y, w1)" by fastforce
  with True assms(2) have "w' = w1" by (auto simp: uploadETag_def bindE_def split: sum.splits prod.splits option.splits)
  with get_world [OF assms(1) g] show ?thesis by simp
qed (use assms(2) in \<open>auto simp: uploadETag_def split: option.splits\<close>)

lemma uploadType_world:
  assumes "sound (w_blobs w)" "uploadType S u w = (r, w')"
  shows "w_db w' = w_db w \<and> w_blobs w' = w_blobs w"
proof (cases "u_mime u \<noteq> [] \<and> u_mime u \<noteq> ''application/octet-stream''")
  case False
  obtain y w1 where g: "blob (port_get (svc_blobs S) (u_blob u) (Slice 0 (int HeadSize))) w = (y, w1)" by fastforce
  with False assms(2) have "w' = w1" by (auto simp: uploadType_def tryE_def split: sum.splits prod.splits)
  with get_world [OF assms(1) g] show ?thesis by simp
qed (use assms(2) in \<open>auto simp: uploadType_def\<close>)

text \<open>Publishing the bytes of an upload touches no blob a row names.\<close>

lemma complete_content:
  assumes w: "holds {#} w" and u: "u \<in> set (uploads (w_db w))"
    and run: "blob (port_complete (svc_blobs S) (u_blob u) (u_store u)) w = (r, w')"
  shows "w_db w' = w_db w \<and> content_of w' = content_of w
     \<and> (\<forall>i. r = Inr i \<longrightarrow> (\<exists>d t. ups (w_blobs w) (u_store u) = Some d \<and> objs (w_blobs w') (u_blob u) = Some (d, t)
          \<and> i_size i = int (length d)))"
proof -
  let ?K = "set_mset (keys_of (refs (w_db w)))"
  obtain y s' e' where p: "port_complete (svc_blobs S) (u_blob u) (u_store u) (w_blobs w, w_env w) = (y, s', e')" by (metis prod_cases3)
  with run have r: "r = y" and w': "w' = w\<lparr>w_blobs := s', w_env := e'\<rparr>" by (auto simp: blob_def)
  have fresh: "u_blob u \<notin> ?K" if "ups (w_blobs w) (u_store u) \<noteq> None"
    using w u that by (auto simp: safe_with_def uploads_ok_def upload_ok_def)
  have res: "sound s' \<and> (objs s' = objs (w_blobs w)
      \<or> (\<exists>d t. ups (w_blobs w) (u_store u) = Some d \<and> objs s' = (objs (w_blobs w))(u_blob u \<mapsto> (d, t))))
     \<and> (\<forall>i. y = Inr i \<longrightarrow> (\<exists>d t. ups (w_blobs w) (u_store u) = Some d \<and> objs s' (u_blob u) = Some (d, t)
          \<and> i_size i = int (length d)))"
  proof (cases y)
    case (Inl x)
    from complete_err [OF holds_sound [OF w] p [unfolded Inl]] Inl show ?thesis by blast
  next
    case (Inr i)
    from complete_ok [OF holds_sound [OF w] p [unfolded Inr]] Inr show ?thesis by (auto simp: info_of_def)
  qed
  then have g: "guards ?K (objs (w_blobs w)) w'" unfolding guards_def w' using fresh by auto
  have db: "w_db w' = w_db w" by (simp add: w')
  from guards_content [OF g db] db res r show ?thesis by (simp add: w')
qed

lemma Complete_upload_content:
  assumes w: "holds {#} w" and run: "Complete_upload S owner uid w = (r, w')"
  shows "case r of
       Inl _ \<Rightarrow> content_of w' = content_of w
     | Inr f \<Rightarrow> \<exists>u d tag mime. upload_of (w_db w) owner uid = Some u \<and> ups (w_blobs w) (u_store u) = Some d
         \<and> content_of w' = put_entry (content_of w) owner (u_path u) (Contents d tag mime)
         \<and> content_of w owner (u_path u) \<noteq> Some Directory \<and> parent_there (content_of w) owner (u_path u)"
proof -
  obtain y w1 where q: "query (UploadByID owner uid) w = (y, w1)" by fastforce
  note l = upload_look [OF q]
  show ?thesis
  proof (cases y)
    case (Inl e)
    with run q l show ?thesis by (auto simp: Complete_upload_def bindE_def)
  next
    case (Inr u)
    from l Inr have u: "upload_of (w_db w) owner uid = Some u" "u \<in> set (uploads (w_db w1))" by auto
    from yieldsD_ok [OF upload_found w q [unfolded Inr]] have h1: "holds {#} w1" by simp
    have c1: "content_of w1 = content_of w" using l by simp
    show ?thesis
    proof (cases "0 \<le> u_size u \<and> u_received u \<noteq> u_size u")
      case True
      with run q Inr c1 show ?thesis by (auto simp: Complete_upload_def bindE_def)
    next
      case False
      obtain z w2 where z: "blob (port_complete (svc_blobs S) (u_blob u) (u_store u)) w1 = (z, w2)" by fastforce
      note c2 = complete_content [OF h1 u(2) z]
      show ?thesis
      proof (cases z)
        case (Inl e)
        with run q Inr False z c1 c2 show ?thesis by (auto simp: Complete_upload_def bindE_def)
      next
        case zi: (Inr i)
        with c2 obtain d t where d: "ups (w_blobs w1) (u_store u) = Some d" "objs (w_blobs w2) (u_blob u) = Some (d, t)"
          "i_size i = int (length d)" by blast
        have h2: "holds {#(u_blob u, i_size i)#} w2"
          using yieldsD_ok [OF complete_holds [where u = u and N = "{#}"], OF conjI [OF h1 u(2)]] z zi by simp
        obtain tg w3 where tg: "uploadETag S u w2 = (tg, w3)" by fastforce
        note c3 = uploadETag_world [OF holds_sound [OF h2] tg]
        show ?thesis
        proof (cases tg)
          case (Inl e)
          with run q Inr False z zi tg c1 c2 c3 show ?thesis by (auto simp: Complete_upload_def bindE_def)
        next
          case ti: (Inr tag)
          from yieldsD_ok [OF uploadETag_holds h2 tg [unfolded ti]] have h3: "holds {#(u_blob u, i_size i)#} w3" .
          obtain ty w4 where ty: "uploadType S u w3 = (ty, w4)" by fastforce
          note c4 = uploadType_world [OF holds_sound [OF h3] ty]
          show ?thesis
          proof (cases ty)
            case (Inl e)
            with run q Inr False z zi tg ti ty c1 c2 c3 c4 show ?thesis by (auto simp: Complete_upload_def bindE_def)
          next
            case yi: (Inr mime)
            from yieldsD_ok [OF uploadType_holds h3 ty [unfolded yi]] have h4: "holds {#(u_blob u, i_size i)#} w4" .
            let ?f = "no_file\<lparr>f_owner := owner, f_path := u_path u, f_blob := u_blob u, f_size := i_size i,
                 f_mtime := i_mtime i, f_etag := tag, f_mime := mime\<rparr>"
            from h4 have "holds (row_ref ?f) w4" "\<not> f_is_dir ?f" by (simp_all add: row_ref_def no_file_def)
            moreover have "objs (w_blobs w4) (f_blob ?f) = Some (d, t)" using d(2) c3 c4 by simp
            moreover have fb: "f_blob ?f = u_blob u" by simp
            moreover from run q Inr False z zi tg ti ty yi
            have "tryE (Tx (bindE (replace ?f) (\<lambda>(stored, superseded).
                 bindE (query (DeleteUpload owner uid)) (\<lambda>_. retE (stored, superseded))))) (\<lambda>r. case r of
                 Inl e \<Rightarrow> bindE (best_effort (blob (port_delete (svc_blobs S) (f_blob ?f)))) (\<lambda>_. failE e)
               | Inr (stored, superseded) \<Rightarrow>
                   bindE (drop_old S superseded) (\<lambda>_. bindE (written stored) (\<lambda>_. retE stored))) w4 = (r, w')"
              unfolding fb by (simp add: Complete_upload_def bindE_def Let_def)
            moreover have "\<exists>v'. bindE (written g) (\<lambda>_. retE g) v = (Inr g, v') \<and> w_db v' = w_db v \<and> w_blobs v' = w_blobs v" for g v
              by (simp add: written_def bindE_def)
            ultimately have fin: "case r of Inl _ \<Rightarrow> content_of w' = content_of w4
               | Inr _ \<Rightarrow> content_of w' = put_entry (content_of w4) (f_owner ?f) (f_path ?f) (Contents d (f_etag ?f) (f_mime ?f))
                   \<and> content_of w4 (f_owner ?f) (f_path ?f) \<noteq> Some Directory \<and> parent_there (content_of w4) (f_owner ?f) (f_path ?f)"
              by (intro finish_content [OF _ _ _ complete_files])
            have "content_of w4 = content_of w2" using c3 c4 by simp
            also have "content_of w2 = content_of w1" using c2 by blast
            finally have "content_of w4 = content_of w" using c1 by (simp only:)
            moreover have "ups (w_blobs w) (u_store u) = Some d" using d(1) l by simp
            ultimately show ?thesis using fin u(1) by (cases r) auto
          qed
        qed
      qed
    qed
  qed
qed

text \<open>A chunk is appended where the upload ends, or it is not appended.\<close>

lemma save_result:
  assumes "(case next_digest (svc_hash S) u m n b of
         None \<Rightarrow> failE ErrOther
       | Some digest \<Rightarrow> bindE clock (\<lambda>t.
           let u' = u\<lparr>u_digest := digest, u_received := m, u_expires := t + DefaultUploadTTL\<rparr> in
           bindE (query (PutUpload u')) (\<lambda>_. retE (u', eo)))) w = (r, w')"
  shows "w_blobs w' = w_blobs w \<and> files (w_db w') = files (w_db w)
     \<and> (\<forall>u' e. r = Inr (u', e) \<longrightarrow> e = eo \<and> u_store u' = u_store u \<and> u_path u' = u_path u \<and> u_size u' = u_size u \<and> u_received u' = m)
     \<and> (list_ex (\<lambda>x. u_id x = u_id u) (uploads (w_db w)) \<longrightarrow>
          map_option upload_target (upload_of (w_db w') o' i) = map_option upload_target (upload_of (w_db w) o' i))"
proof (cases "next_digest (svc_hash S) u m n b")
  case None
  with assms show ?thesis by auto
next
  case (Some dg)
  let ?u = "u\<lparr>u_digest := dg, u_received := m, u_expires := now (w_env w) + DefaultUploadTTL\<rparr>"
  obtain z w3 where z: "query (PutUpload ?u) w = (z, w3)" by fastforce
  have w3: "w_blobs w3 = w_blobs w \<and> files (w_db w3) = files (w_db w)
     \<and> (list_ex (\<lambda>x. u_id x = u_id u) (uploads (w_db w)) \<longrightarrow>
          map_option upload_target (upload_of (w_db w3) o' i) = map_option upload_target (upload_of (w_db w) o' i))"
    using z
  proof (cases rule: query_cases)
    case (2 e d)
    moreover have "files d = files (w_db w)"
      using 2(2) by (auto simp: PutUpload_def split: sum.splits if_splits)
    ultimately show ?thesis using PutUpload_targets [OF 2(2), of o' i] by simp
  qed simp
  from assms Some z have "(r, w') = (case z of Inl e \<Rightarrow> (Inl e, w3) | Inr _ \<Rightarrow> (Inr (?u, eo), w3))"
    by (cases z) (simp_all add: bindE_def clock_def Let_def)
  with w3 show ?thesis by (cases z) simp_all
qed

lemma append_case:
  assumes h: "holds {#} w" and p: "port_append (svc_blobs S) k sid off body (w_blobs w, w_env w) = ((m, n, eo), (s', e'))"
  shows "objs s' = objs (w_blobs w)"
    and "eo = None \<Longrightarrow> \<exists>d. ups (w_blobs w) sid = Some d \<and> off = int (length d)
          \<and> ups s' sid = Some (d @ content body) \<and> m = int (length (d @ content body))"
    and "ups (w_blobs w) sid = Some d \<Longrightarrow> off \<noteq> int (length d) \<Longrightarrow> ups s' = ups (w_blobs w) \<and> eo \<noteq> None"
proof -
  note a = append_result [OF holds_sound [OF h] p]
  show "objs s' = objs (w_blobs w)" using a by blast
  show "\<exists>d. ups (w_blobs w) sid = Some d \<and> off = int (length d)
          \<and> ups s' sid = Some (d @ content body) \<and> m = int (length (d @ content body))" if "eo = None"
  proof -
    from a have "eo = None \<longrightarrow> failure body = None \<and> (\<exists>d. ups (w_blobs w) sid = Some d \<and> int (length d) = off
            \<and> ups s' sid = Some (d @ content body) \<and> m = int (length (d @ content body)) \<and> n = length (content body))"
      by (elim conjE)
    with that show ?thesis by (elim impE conjE exE) (simp, metis)
  qed
  show "ups s' = ups (w_blobs w) \<and> eo \<noteq> None" if d: "ups (w_blobs w) sid = Some d" "off \<noteq> int (length d)"
  proof -
    from a d have "ups s' sid = ups (w_blobs w) sid" "eo \<noteq> None" by auto
    moreover from a have "\<forall>u. u \<noteq> sid \<longrightarrow> ups s' u = ups (w_blobs w) u" by (elim conjE)
    ultimately show ?thesis by (metis ext)
  qed
qed

lemma Append_upload_content:
  assumes w: "holds {#} w" and run: "Append_upload S owner uid off body w = (r, w')"
  shows "objs (w_blobs w') = objs (w_blobs w) \<and> files (w_db w') = files (w_db w)"
    and "r = Inr (u', None) \<Longrightarrow> \<exists>u d. upload_of (w_db w) owner uid = Some u \<and> ups (w_blobs w) (u_store u) = Some d
          \<and> off = int (length d) \<and> ups (w_blobs w') (u_store u) = Some (d @ content body)
          \<and> u_store u' = u_store u \<and> u_path u' = u_path u \<and> u_size u' = u_size u \<and> u_received u' = int (length (d @ content body))"
    and "upload_of (w_db w) owner uid = Some v \<Longrightarrow> ups (w_blobs w) (u_store v) = Some d \<Longrightarrow> off \<noteq> int (length d) \<Longrightarrow>
          ups (w_blobs w') = ups (w_blobs w) \<and> r \<noteq> Inr (u', None)"
    and "map_option upload_target (upload_of (w_db w') owner uid) = map_option upload_target (upload_of (w_db w) owner uid)"
proof -
  obtain y w1 where q: "query (UploadByID owner uid) w = (y, w1)" by fastforce
  note l = upload_look [OF q]
  consider (early) "\<not> is_ok r" "w_blobs w' = w_blobs w1" "w_db w' = w_db w1"
    | (late) u m n eo s' e' where "y = Inr u" "holds {#} w1"
        "port_append (svc_blobs S) (u_blob u) (u_store u) off body (w_blobs w1, w_env w1) = ((m, n, eo), (s', e'))"
        "(case next_digest (svc_hash S) u m n (content body) of
           None \<Rightarrow> failE ErrOther
         | Some digest \<Rightarrow> bindE clock (\<lambda>t.
             let u' = u\<lparr>u_digest := digest, u_received := m, u_expires := t + DefaultUploadTTL\<rparr> in
             bindE (query (PutUpload u')) (\<lambda>_. retE (u', eo)))) (w1\<lparr>w_blobs := s', w_env := e'\<rparr>) = (r, w')"
  proof (cases y)
    case (Inl e)
    with run q show thesis by (intro early) (auto simp: Append_upload_def bindE_def)
  next
    case (Inr u)
    from yieldsD_ok [OF upload_found w q [unfolded Inr]] have h1: "holds {#} w1" by simp
    show thesis
    proof (cases "u_digest u \<noteq> [] \<and> hash_write (svc_hash S) (u_digest u) [] = None")
      case True
      with run q Inr show thesis by (intro early) (auto simp: Append_upload_def bindE_def)
    next
      case False
      obtain m n eo s' e' where p: "port_append (svc_blobs S) (u_blob u) (u_store u) off body (w_blobs w1, w_env w1) = ((m, n, eo), (s', e'))"
        by (cases "port_append (svc_blobs S) (u_blob u) (u_store u) off body (w_blobs w1, w_env w1)") auto
      show thesis
        by (rule late [OF Inr h1 p]) (use run q Inr False p in \<open>simp add: Append_upload_def bindE_def blob_append_def\<close>)
    qed
  qed
  then have all: "(objs (w_blobs w') = objs (w_blobs w) \<and> files (w_db w') = files (w_db w))
    \<and> (r = Inr (u', None) \<longrightarrow> (\<exists>u d. upload_of (w_db w) owner uid = Some u \<and> ups (w_blobs w) (u_store u) = Some d
          \<and> off = int (length d) \<and> ups (w_blobs w') (u_store u) = Some (d @ content body)
          \<and> u_store u' = u_store u \<and> u_path u' = u_path u \<and> u_size u' = u_size u \<and> u_received u' = int (length (d @ content body))))
    \<and> (upload_of (w_db w) owner uid = Some v \<longrightarrow> ups (w_blobs w) (u_store v) = Some d \<longrightarrow> off \<noteq> int (length d) \<longrightarrow>
          ups (w_blobs w') = ups (w_blobs w) \<and> r \<noteq> Inr (u', None))
    \<and> map_option upload_target (upload_of (w_db w') owner uid) = map_option upload_target (upload_of (w_db w) owner uid)"
  proof cases
    case early
    with l show ?thesis by auto
  next
    case (late u m n eo s' e')
    note sv = save_result [OF late(4), of owner uid] and ap = append_case [OF late(2,3)]
    from l late(1) have u: "upload_of (w_db w) owner uid = Some u" "w_blobs w1 = w_blobs w" "w_db w1 = w_db w" by auto
    have "\<exists>d. ups (w_blobs w) (u_store u) = Some d \<and> off = int (length d) \<and> ups (w_blobs w') (u_store u) = Some (d @ content body)
          \<and> u_store u' = u_store u \<and> u_path u' = u_path u \<and> u_size u' = u_size u \<and> u_received u' = int (length (d @ content body))"
      if r: "r = Inr (u', None)"
    proof -
      from sv r have e: "eo = None" "u_store u' = u_store u" "u_path u' = u_path u" "u_size u' = u_size u" "u_received u' = m" by auto
      from ap(2) [OF e(1)] sv u e(2-) show ?thesis by simp
    qed
    moreover have "ups (w_blobs w') = ups (w_blobs w) \<and> r \<noteq> Inr (u', None)"
      if d: "upload_of (w_db w) owner uid = Some v" "ups (w_blobs w) (u_store v) = Some d" "off \<noteq> int (length d)"
    proof -
      from d(1) u(1) have "v = u" by simp
      with d u(2) ap(3) [of d] have "ups s' = ups (w_blobs w)" "eo \<noteq> None" by simp_all
      with sv show ?thesis by auto
    qed
    moreover have "list_ex (\<lambda>x. u_id x = u_id u) (uploads (w_db w))"
      using l late(1) by (auto simp: list_ex_iff)
    ultimately show ?thesis using sv ap(1) u by simp
  qed
  show "objs (w_blobs w') = objs (w_blobs w) \<and> files (w_db w') = files (w_db w)" using all by blast
  show "\<exists>u d. upload_of (w_db w) owner uid = Some u \<and> ups (w_blobs w) (u_store u) = Some d
          \<and> off = int (length d) \<and> ups (w_blobs w') (u_store u) = Some (d @ content body)
          \<and> u_store u' = u_store u \<and> u_path u' = u_path u \<and> u_size u' = u_size u \<and> u_received u' = int (length (d @ content body))"
    if "r = Inr (u', None)" using all that by blast
  show "ups (w_blobs w') = ups (w_blobs w) \<and> r \<noteq> Inr (u', None)"
    if "upload_of (w_db w) owner uid = Some v" "ups (w_blobs w) (u_store v) = Some d" "off \<noteq> int (length d)"
    using all that by blast
  show "map_option upload_target (upload_of (w_db w') owner uid) = map_option upload_target (upload_of (w_db w) owner uid)"
    using all by blast
qed

end

section \<open>What a caller sees\<close>

definition shown :: "disk world \<Rightarrow> store" where
  "shown w = store_of (disk_objs (w_blobs w)) (w_db w)"

lemma Write_shown:
  assumes "reachable h w" and "Write (disk_service h) owner path body sz mimeType w = (r, w')"
  shows "case r of
       Inl _ \<Rightarrow> shown w' = shown w
     | Inr f \<Rightarrow> shown w' = put_entry (shown w) owner path (written_entry h body mimeType)
         \<and> shown w owner path \<noteq> Some Directory \<and> parent_there (shown w) owner path"
  using disk_files.Write_content [OF reachable_safe [OF assms(1)] assms(2)]
  by (cases r) (simp_all add: shown_def)

text \<open>
  C3: A write, on a disk, with any failures: when it reports an error the store is what it was,
  although a blob may have been written and the old one may be gone from under it; when it does
  not, the path shows exactly the bytes of the body, their digest and the type chosen for them,
  nothing else has changed, and the path was not a directory but stands in one.
\<close>
theorem write_refines:
  assumes "reachable h w" and "Write (disk_service h) owner path body sz mimeType w = (r, w')"
  shows "case r of
       Inl _ \<Rightarrow> shown w' = shown w
     | Inr f \<Rightarrow> shown w' = put_entry (shown w) owner path (written_entry h body mimeType)
         \<and> shown w owner path \<noteq> Some Directory \<and> parent_there (shown w) owner path"
  by (rule Write_shown [OF assms])

definition run_world :: "disk world" where
  "run_world = exec (disk_service plain_hasher) (OpMkdir ''u'' ''a'') start_world"

lemma run_world_reachable: "reachable plain_hasher run_world"
  unfolding run_world_def by (intro reachable.operate reachable.start start_initial)

definition run_write :: "db_file result \<times> disk world" where
  "run_write = Write (disk_service plain_hasher) ''u'' ''a/x.txt'' (of_bytes ''hello'') 5 [] run_world"

lemma run_write_ok: "is_ok (fst run_write)"
  by code_simp

lemma write_refines_witness:
  "shown (snd run_write) ''u'' ''a/x.txt'' = Some (written_entry plain_hasher (of_bytes ''hello'') [])
   \<and> shown (snd run_write) ''u'' ''a'' = Some Directory"
proof -
  obtain f where "fst run_write = Inr f" using run_write_ok by (cases "fst run_write") auto
  then obtain w' where f: "run_write = (Inr f, w')" by (metis prod.collapse)
  then have "Write (disk_service plain_hasher) ''u'' ''a/x.txt'' (of_bytes ''hello'') 5 [] run_world = (Inr f, w')"
    by (simp add: run_write_def)
  from write_refines [OF run_world_reachable this] have
    s: "shown w' = put_entry (shown run_world) ''u'' ''a/x.txt'' (written_entry plain_hasher (of_bytes ''hello'') [])"
    "parent_there (shown run_world) ''u'' ''a/x.txt''" by auto
  have "ParentOf ''a/x.txt'' = ''a''" by code_simp
  then have "shown w' ''u'' ''a'' = Some Directory"
    using s by (simp add: put_entry_eq parent_there_def)
  moreover have "shown w' ''u'' ''a/x.txt'' = Some (written_entry plain_hasher (of_bytes ''hello'') [])"
    using s(1) by (simp add: put_entry_eq)
  moreover have "snd run_write = w'" unfolding f by simp
  ultimately show ?thesis by simp
qed

text \<open>
  C4: What is read is what was written: opening a path right after a write to it, whatever fails
  meanwhile, gives a body that is the bytes written or a part of them from the start, and the
  whole unless it ends in an error; and the row that comes with it has their size and digest.
\<close>
theorem reads_written:
  assumes "reachable h w" and "Write (disk_service h) owner path body sz mimeType w = (Inr f, w1)"
    and "Open (disk_service h) owner path w1 = (Inr (got, g), w2)" and "is_int64 (f_size g)"
  shows "prefix (content got) (content body) \<and> (failure got = None \<longrightarrow> content got = content body)
     \<and> f_size g = int (length (content body)) \<and> f_etag g = hex_encode (hash_of h (content body))"
proof -
  have "w1 = exec (disk_service h) (OpWrite owner path body sz mimeType) w" using assms(2) by simp
  with assms(1) have "reachable h w1" by (metis reachable.operate)
  from disk_files.Open_reads [OF reachable_safe [OF this] assms(3,4)]
  obtain d where d: "shown w1 owner path = Some (Contents d (f_etag g) (f_mime g))" "int (length d) = f_size g"
    "prefix (content got) d" "failure got = None \<longrightarrow> content got = d" by (auto simp: shown_def)
  from Write_shown [OF assms(1,2)] d show ?thesis by (auto simp: put_entry_eq written_entry_def)
qed

definition run_open :: "(reader \<times> db_file) result \<times> disk world" where
  "run_open = Open (disk_service plain_hasher) ''u'' ''a/x.txt'' (snd run_write)"

lemma run_open_ok: "map_sum id (\<lambda>(b, g). (content b, failure b, f_size g)) (fst run_open) = Inr (''hello'', None, 5)"
  by code_simp

lemma reads_written_witness:
  "map_sum id (\<lambda>(b, g). (content b, f_etag g)) (fst run_open) = Inr (''hello'', hex_encode (hash_of plain_hasher ''hello''))"
proof -
  obtain f where "fst run_write = Inr f" using run_write_ok by (cases "fst run_write") auto
  then have w: "Write (disk_service plain_hasher) ''u'' ''a/x.txt'' (of_bytes ''hello'') 5 [] run_world = (Inr f, snd run_write)"
    by (metis prod.collapse run_write_def)
  obtain p w2 where o: "run_open = (p, w2)" by fastforce
  obtain got g where p: "p = Inr (got, g)" "failure got = None" "f_size g = 5"
    using run_open_ok unfolding o by (cases p) auto
  from o p have "Open (disk_service plain_hasher) ''u'' ''a/x.txt'' (snd run_write) = (Inr (got, g), w2)"
    by (simp add: run_open_def)
  from reads_written [OF run_world_reachable w this] p show ?thesis unfolding o by (simp add: is_int64_def)
qed

text \<open>
  C35: A directory that is made is a new entry of the store in a directory that was there, and
  nothing else; one that cannot be made changes nothing.
\<close>
theorem mkdir_refines:
  assumes "Mkdir owner path w = (r, w')"
  shows "case r of
       Inl _ \<Rightarrow> shown w' = shown w
     | Inr _ \<Rightarrow> shown w' = put_entry (shown w) owner path Directory
         \<and> shown w owner path = None \<and> parent_there (shown w) owner path"
  using Mkdir_result [OF assms, of "disk_objs (w_blobs w)"] by (cases r) (simp_all add: shown_def)

lemma mkdir_refines_witness:
  "shown (snd (Mkdir ''u'' ''a'' start_world)) = put_entry (shown start_world) ''u'' ''a'' Directory"
proof -
  obtain r w' where m: "Mkdir ''u'' ''a'' start_world = (r, w')" by fastforce
  have "is_ok (fst (Mkdir ''u'' ''a'' start_world))" by code_simp
  with m obtain f where "r = Inr f" by (cases r) auto
  with mkdir_refines [OF m] m show ?thesis by simp
qed

text \<open>
  C6: Removing an entry of a sound tree takes it and everything under it out of the store and
  leaves every other entry, of this owner and of the others, as it was; the rows that went, and
  no others, are in the trash, as one deletion; and a removal that reports an error changes
  nothing.
\<close>
theorem remove_refines:
  assumes "tree_ok (w_db w)" and "Remove owner path w = (r, w')"
  shows "w_blobs w' = w_blobs w \<and> (case r of
       Inl _ \<Rightarrow> w_db w' = w_db w
     | Inr _ \<Rightarrow> shown w' = drop_tree (shown w) owner path \<and> tree_ok (w_db w')
         \<and> (\<exists>batch rows. trash (w_db w') = trash (w_db w) @ map (trash_row batch (now (w_env w))) rows
              \<and> mset (map scan_file (files (w_db w))) = mset (map scan_file (files (w_db w'))) + mset rows))"
proof (cases r)
  case (Inl e)
  with Remove_result [OF assms] show ?thesis by simp
next
  case (Inr u)
  with Remove_result [OF assms] obtain batch where
    b: "w_blobs w' = w_blobs w" "removed_tree owner path batch (now (w_env w)) (w_db w) (w_db w')" by auto
  with removed_tree_store [OF assms(1) b(2), of "disk_objs (w_blobs w)"] Inr show ?thesis
    by (auto simp: shown_def removed_tree_def)
qed

text \<open>
  C7: In a sound tree (\<open>tree_ok\<close>: rows with one key each, valid paths, every parent a directory
  that is there) removing an entry that is there, while nothing fails, does succeed: the
  recursion ends within the bound it is given, however deep the tree, and no directory is found
  occupied once what is in it has been removed.  Every path of a sound tree is within
  \<open>MaxPathLen\<close>; a row that a move has left beyond it is outside this statement.
\<close>
theorem remove_succeeds:
  assumes "tree_ok (w_db w)" "calm (w_env w)" "lookup_file (w_db w) owner path \<noteq> None"
  shows "fst (Remove owner path w) = Inr ()"
  by (rule Remove_works [OF assms])

definition shelf_world :: "disk world" where
  "shelf_world = start_world\<lparr>w_db := sample_db\<rparr>"

lemma sample_there: "lookup_file sample_db ''u'' ''a'' \<noteq> None"
  by code_simp

lemma shelf_calm: "tree_ok (w_db shelf_world)" "calm (w_env shelf_world)" "lookup_file (w_db shelf_world) ''u'' ''a'' \<noteq> None"
  using sample_ok sample_there by (simp_all add: shelf_world_def start_world_def calm_def)

lemma remove_succeeds_witness: "fst (Remove ''u'' ''a'' shelf_world) = Inr ()"
  by (rule remove_succeeds [OF shelf_calm])

lemma remove_refines_witness:
  "shown (snd (Remove ''u'' ''a'' shelf_world)) = drop_tree (shown shelf_world) ''u'' ''a''"
proof -
  obtain r w' where m: "Remove ''u'' ''a'' shelf_world = (r, w')" by fastforce
  with Remove_works [OF shelf_calm] have "r = Inr ()" by simp
  with remove_refines [OF shelf_calm(1) m] m show ?thesis by simp
qed

end
