(* ===== verification/Reader.thy ===== *)
theory Reader
  imports FileStore
begin

text \<open>
  \<open>blobReader\<close> of \<^verbatim>\<open>internal/files/files.go\<close>: the body of a file as an
  \<^verbatim>\<open>io.ReadSeekCloser\<close> over the ranged reads of the blob store.  Nothing is fetched before
  the first read, and a seek elsewhere drops what is open.
\<close>

section \<open>The reader\<close>

record blob_reader =
  br_key :: bytes
  br_size :: int
  br_offset :: int
  br_body :: "reader option"

definition blobReader :: "db_file \<Rightarrow> blob_reader" where
  "blobReader f = \<lparr>br_key = f_blob f, br_size = f_size f, br_offset = 0, br_body = None\<rparr>"

text \<open>\<open>Read\<close> into a buffer of \<open>k\<close> bytes: the bytes, and how the read ended.\<close>

definition br_read :: "'s service \<Rightarrow> nat \<Rightarrow> blob_reader \<Rightarrow> 's world \<Rightarrow> (bytes \<times> status) \<times> blob_reader \<times> 's world" where
  "br_read S k b w =
     (if br_size b \<le> br_offset b then (([], AtEOF), b, w)
      else case (case br_body b of
                   Some body \<Rightarrow> (Inr body, w)
                 | None \<Rightarrow> (case blob (port_get (svc_blobs S) (br_key b) (From (br_offset b))) w of
                             (Inl e, w') \<Rightarrow> (Inl e, w') | (Inr (body, _), w') \<Rightarrow> (Inr body, w'))) of
             (Inl e, w') \<Rightarrow> (([], Broken e), b, w')
           | (Inr body, w') \<Rightarrow>
               (case read k body of (d, st, body') \<Rightarrow>
                  ((d, st), b\<lparr>br_body := Some body', br_offset := wrap64 (br_offset b + int (length d))\<rparr>, w')))"

text \<open>Closing what is open may fail, and is forgotten either way.\<close>

definition closeBody :: "blob_reader \<Rightarrow> 's world \<Rightarrow> unit result \<times> blob_reader \<times> 's world" where
  "closeBody b w =
     (case br_body b of
        None \<Rightarrow> (Inr (), b, w)
      | Some _ \<Rightarrow> (case check w of (r, w') \<Rightarrow> (r, b\<lparr>br_body := None\<rparr>, w')))"

definition SeekStart :: int where "SeekStart = 0"
definition SeekCurrent :: int where "SeekCurrent = 1"
definition SeekEnd :: int where "SeekEnd = 2"

definition br_seek :: "int \<Rightarrow> int \<Rightarrow> blob_reader \<Rightarrow> 's world \<Rightarrow> int result \<times> blob_reader \<times> 's world" where
  "br_seek offset whence b w =
     (let abs = (if whence = SeekStart then Some offset
                 else if whence = SeekCurrent then Some (wrap64 (br_offset b + offset))
                 else if whence = SeekEnd then Some (wrap64 (br_size b + offset))
                 else None)
      in case abs of
           None \<Rightarrow> (Inl ErrOther, b, w)
         | Some pos \<Rightarrow>
             if pos < 0 then (Inl ErrOther, b, w)
             else if pos \<noteq> br_offset b then
               (case closeBody b w of
                  (Inl e, b', w') \<Rightarrow> (Inl e, b', w')
                | (Inr _, b', w') \<Rightarrow> (Inr pos, b'\<lparr>br_offset := pos\<rparr>, w'))
             else (Inr pos, b, w))"

section \<open>What is read is what is there\<close>

text \<open>What is open is the blob from the position on, whole or up to a failure.\<close>

definition reads_on :: "bytes \<Rightarrow> blob_reader \<Rightarrow> bool" where
  "reads_on d b \<longleftrightarrow> 0 \<le> br_offset b \<and> br_size b = int (length d) \<and> is_int64 (br_size b)
     \<and> (\<forall>r. br_body b = Some r \<longrightarrow> br_offset b \<le> br_size b \<and> prefix (content r) (drop (nat (br_offset b)) d)
          \<and> (failure r = None \<longrightarrow> content r = drop (nat (br_offset b)) d))"

definition stored_at :: "'s world \<Rightarrow> ('s \<Rightarrow> objects) \<Rightarrow> bytes \<Rightarrow> bytes \<Rightarrow> bool" where
  "stored_at w obs k d \<longleftrightarrow> (\<exists>t. obs (w_blobs w) k = Some (d, t))"

lemma select_from: "is_int64 (int (length d)) \<Longrightarrow> 0 \<le> o' \<Longrightarrow> Resolve (From o') (int (length d)) = Inr win \<Longrightarrow>
    select d win = drop (nat o') d \<and> o' \<le> int (length d)"
  by (auto simp: Resolve_def select_def From_def split: if_splits)

lemma br_seek_reads_on:
  assumes "reads_on d b" "is_int64 offset" "br_seek offset whence b w = (r, b', w')"
  shows "reads_on d b' \<and> br_key b' = br_key b \<and> w_blobs w' = w_blobs w \<and> (\<forall>pos. r = Inr pos \<longrightarrow> br_offset b' = pos \<and> 0 \<le> pos)"
proof -
  have close: "w_blobs w2 = w_blobs w \<and> b2 = b\<lparr>br_body := None\<rparr>" if "closeBody b w = (x, b2, w2)" for x b2 w2
  proof -
    obtain y v where c: "check w = (y, v)" by fastforce
    from check_cases [OF c] have "w_blobs v = w_blobs w" by auto
    with c that show ?thesis by (cases "br_body b") (auto simp: closeBody_def)
  qed
  obtain x b2 w2 where c: "closeBody b w = (x, b2, w2)" by (metis prod_cases3)
  from assms close [OF c] c show ?thesis
    by (auto simp: br_seek_def reads_on_def Let_def split: if_splits option.splits sum.splits)
qed

lemma read_prefix:
  assumes "prefix (content r) x" "failure r = None \<longrightarrow> content r = x" "read k r = (d, st, r')"
  shows "d = take (length d) x" "prefix (content r') (drop (length d) x)" "failure r' = None \<longrightarrow> content r' = drop (length d) x"
    "st = AtEOF \<longrightarrow> d = x"
proof -
  have c: "content r = d @ content r'" and f: "failure r' = failure r"
    using read_content [OF assms(3)] read_failure [OF assms(3)] by auto
  from assms(1) c obtain z where x: "x = d @ content r' @ z" by (auto simp: prefix_def)
  show "d = take (length d) x" "prefix (content r') (drop (length d) x)" by (simp_all add: x)
  show "failure r' = None \<longrightarrow> content r' = drop (length d) x" using assms(2) c f by auto
  show "st = AtEOF \<longrightarrow> d = x"
    using read_end [OF assms(3)] assms(2) c by (auto simp: the_end_def split: option.splits)
qed

context files_service
begin

lemma br_read_on:
  assumes b: "reads_on d b" and w: "sound (w_blobs w)" "stored_at w objs (br_key b) d"
    and run: "br_read S k b w = ((got, st), b', w')"
  shows "reads_on d b' \<and> br_key b' = br_key b \<and> w_blobs w' = w_blobs w
     \<and> got = take (length got) (drop (nat (br_offset b)) d) \<and> br_offset b' = br_offset b + int (length got)
     \<and> (st = AtEOF \<longrightarrow> br_size b \<le> br_offset b + int (length got))"
proof (cases "br_size b \<le> br_offset b")
  case True
  with run b show ?thesis by (simp add: br_read_def)
next
  case False
  let ?rest = "drop (nat (br_offset b)) d"
  from b have sz: "br_size b = int (length d)" "is_int64 (br_size b)" "0 \<le> br_offset b" by (auto simp: reads_on_def)
  with False have off: "0 \<le> br_offset b" "br_offset b < int (length d)" "is_int64 (int (length d))" "br_size b = int (length d)"
    by simp_all
  have step: "reads_on d b' \<and> br_key b' = br_key b \<and> w_blobs w' = w_blobs w
     \<and> got = take (length got) ?rest \<and> br_offset b' = br_offset b + int (length got)
     \<and> (st = AtEOF \<longrightarrow> br_size b \<le> br_offset b + int (length got))"
    if body: "prefix (content r) ?rest" "failure r = None \<longrightarrow> content r = ?rest" "w_blobs v = w_blobs w"
      and rd: "read k r = (got, st, r')"
      and res: "b' = b\<lparr>br_body := Some r', br_offset := wrap64 (br_offset b + int (length got))\<rparr>" "w' = v" for r r' v
  proof -
    note rp = read_prefix [OF body(1,2) rd]
    have len: "length got \<le> length ?rest" using arg_cong [OF rp(1), of length] by simp
    with off have at: "br_offset b + int (length got) \<le> int (length d)" by simp
    with off have "wrap64 (br_offset b + int (length got)) = br_offset b + int (length got)" by (simp add: is_int64_def)
    moreover have "drop (nat (br_offset b + int (length got))) d = drop (length got) ?rest"
      using off by (simp add: nat_add_distrib add.commute)
    moreover have "st = AtEOF \<longrightarrow> int (length d) \<le> br_offset b + int (length got)"
      using rp(4) off by auto
    ultimately show ?thesis using b rp at off body(3) by (simp add: res reads_on_def)
  qed
  show ?thesis
  proof (cases "br_body b")
    case (Some r)
    obtain g s r' where rd: "read k r = (g, s, r')" by (metis prod_cases3)
    with run False Some have eqs: "got = g" "st = s" "b' = b\<lparr>br_body := Some r', br_offset := wrap64 (br_offset b + int (length g))\<rparr>" "w' = w"
      by (auto simp: br_read_def)
    have open_body: "prefix (content r) ?rest" "failure r = None \<longrightarrow> content r = ?rest" using b Some by (auto simp: reads_on_def)
    show ?thesis by (rule step [OF open_body, of w r']) (use rd eqs in simp_all)
  next
    case None
    obtain y s' e' where g: "port_get (svc_blobs S) (br_key b) (From (br_offset b)) (w_blobs w, w_env w) = (y, s', e')" by (metis prod_cases3)
    show ?thesis
    proof (cases y)
      case (Inl e)
      with run False None g have "got = []" "st = Broken e" "b' = b" "w' = w\<lparr>w_blobs := s', w_env := e'\<rparr>"
        by (auto simp: br_read_def blob_def)
      with get_err [OF w(1) g [unfolded Inl]] b show ?thesis by simp
    next
      case (Inr z)
      obtain r i where z: "z = (r, i)" by fastforce
      obtain g2 s2 r' where rd: "read k r = (g2, s2, r')" by (metis prod_cases3)
      from run False None g Inr z rd have res: "got = g2" "st = s2" "w' = w\<lparr>w_blobs := s', w_env := e'\<rparr>"
        "b' = b\<lparr>br_body := Some r', br_offset := wrap64 (br_offset b + int (length g2))\<rparr>"
        by (auto simp: br_read_def blob_def)
      from w(2) obtain t where d: "objs (w_blobs w) (br_key b) = Some (d, t)" by (auto simp: stored_at_def)
      from get_ok [OF w(1) g [unfolded Inr z]] d obtain win where win: "s' = w_blobs w"
        "Resolve (From (br_offset b)) (int (length d)) = Inr win" "prefix (content r) (select d win)"
        "failure r = None \<longrightarrow> content r = select d win" by (auto simp: info_of_def)
      from select_from [OF off(3,1) win(2)] have sel: "select d win = ?rest" by simp
      show ?thesis
        by (rule step [of r "w\<lparr>w_blobs := s', w_env := e'\<rparr>" r']) (use win rd res sel in simp_all)
    qed
  qed
qed

end

section \<open>Any sequence of reads and seeks\<close>

datatype access = Reading nat | Seeking int int

definition go_access :: "access \<Rightarrow> bool" where
  "go_access a = (case a of Reading k \<Rightarrow> True | Seeking offset whence \<Rightarrow> is_int64 offset)"

text \<open>Where each read began, what it gave and how it ended.\<close>

fun accesses :: "'s service \<Rightarrow> access list \<Rightarrow> blob_reader \<Rightarrow> 's world \<Rightarrow> (int \<times> bytes \<times> status) list" where
  "accesses S [] b w = []"
| "accesses S (Reading k # as) b w =
     (case br_read S k b w of ((d, st), b', w') \<Rightarrow> (br_offset b, d, st) # accesses S as b' w')"
| "accesses S (Seeking offset whence # as) b w =
     (case br_seek offset whence b w of (_, b', w') \<Rightarrow> accesses S as b' w')"

definition faithful :: "bytes \<Rightarrow> int \<times> bytes \<times> status \<Rightarrow> bool" where
  "faithful d x \<longleftrightarrow> (case x of (at, got, st) \<Rightarrow>
     0 \<le> at \<and> got = take (length got) (drop (nat at) d) \<and> (st = AtEOF \<longrightarrow> int (length d) \<le> at + int (length got)))"

context files_service
begin

lemma accesses_faithful:
  "reads_on d b \<Longrightarrow> sound (w_blobs w) \<Longrightarrow> stored_at w objs (br_key b) d \<Longrightarrow> list_all go_access as \<Longrightarrow>
     list_all (faithful d) (accesses S as b w)"
proof (induction as arbitrary: b w)
  case (Cons a as)
  show ?case
  proof (cases a)
    case (Reading k)
    obtain got st b' w' where r: "br_read S k b w = ((got, st), b', w')" by (metis surj_pair)
    note on = br_read_on [OF Cons.prems(1-3) r]
    have "0 \<le> br_offset b" "br_size b = int (length d)" using Cons.prems(1) by (auto simp: reads_on_def)
    with on have "faithful d (br_offset b, got, st)" by (simp add: faithful_def)
    moreover have "list_all (faithful d) (accesses S as b' w')"
      using Cons.IH [of b' w'] on Cons.prems by (simp add: stored_at_def)
    ultimately show ?thesis using Reading r by simp
  next
    case (Seeking offset whence)
    obtain r b' w' where s: "br_seek offset whence b w = (r, b', w')" by (metis prod_cases3)
    have "is_int64 offset" using Cons.prems(4) Seeking by (simp add: go_access_def)
    from br_seek_reads_on [OF Cons.prems(1) this s] Cons.IH [of b' w'] Cons.prems Seeking s
    show ?thesis by (simp add: stored_at_def)
  qed
qed simp

end

text \<open>
  C5: Whatever reads and seeks are made on the body of a file, in whatever order and with
  whatever failures, every read gives the bytes of the blob that stand at the reader's position,
  and the end is reported at the end of the file and nowhere before it.
\<close>
theorem reader_faithful:
  assumes "reachable h w" "lookup_file (w_db w) owner path = Some r" "\<not> f_is_dir r" "is_int64 (f_size r)"
    and "list_all go_access as"
  shows "\<exists>d. shown w owner path = Some (Contents d (f_etag r) (f_mime r))
     \<and> list_all (faithful d) (accesses (disk_service h) as (blobReader (scan_file r)) w)"
proof -
  note safe = reachable_safe [OF assms(1)]
  from assms(2,3) rows_refs_mem [of r "files (w_db w)"] lookup_file_SomeD [OF assms(2)]
  have "(f_blob r, f_size r) \<in># refs (w_db w)" by (simp add: refs_def)
  with safe have "\<exists>d t. disk_objs (w_blobs w) (f_blob r) = Some (d, t) \<and> int (length d) = f_size r"
    by (simp add: safe_with_def backed_def)
  then obtain d t where d: "disk_objs (w_blobs w) (f_blob r) = Some (d, t)" "int (length d) = f_size r" by blast
  have s: "shown w owner path = Some (Contents d (f_etag r) (f_mime r))"
    using assms(2,3) d(1) by (simp add: shown_def store_of_def entry_of_def)
  have "reads_on d (blobReader (scan_file r))" using d(2) assms(4) by (simp add: reads_on_def blobReader_def)
  moreover have "stored_at w disk_objs (br_key (blobReader (scan_file r))) d"
    using d(1) by (simp add: stored_at_def blobReader_def)
  ultimately have "list_all (faithful d) (accesses (disk_service h) as (blobReader (scan_file r)) w)"
    by (rule disk_files.accesses_faithful [OF _ disk_files.holds_sound [OF safe] _ assms(5)])
  with s show ?thesis by blast
qed

definition read_run :: "(int \<times> bytes \<times> status) list" where
  "read_run = (case lookup_file (w_db sample_run) ''u'' ''a/x.txt'' of None \<Rightarrow> []
     | Some r \<Rightarrow> accesses (disk_service plain_hasher)
         [Reading 2, Seeking 0 SeekEnd, Reading 4, Seeking 1 SeekStart, Reading 2, Seeking 1 SeekCurrent, Reading 9, Reading 9]
         (blobReader (scan_file r)) sample_run)"

lemma read_run_eq:
  "read_run = [(0, ''he'', More), (5, [], AtEOF), (1, ''el'', More), (4, ''o'', More), (5, [], AtEOF)]"
  by code_simp

lemma sample_row:
  "map_option (\<lambda>r. (f_is_dir r, f_size r)) (lookup_file (w_db sample_run) ''u'' ''a/x.txt'') = Some (False, 5)"
  by code_simp

lemma reader_faithful_witness:
  "\<exists>d e m. shown sample_run ''u'' ''a/x.txt'' = Some (Contents d e m) \<and> list_all (faithful d) read_run"
proof -
  obtain r where r: "lookup_file (w_db sample_run) ''u'' ''a/x.txt'' = Some r" "\<not> f_is_dir r" "f_size r = 5"
    using sample_row by auto
  have "list_all go_access [Reading 2, Seeking 0 SeekEnd, Reading 4, Seeking 1 SeekStart, Reading 2, Seeking 1 SeekCurrent, Reading 9, Reading 9]"
    by code_simp
  moreover have "is_int64 (f_size r)" using r(3) by (simp add: is_int64_def)
  ultimately show ?thesis
    using reader_faithful [OF sample_run_reachable r(1,2)] unfolding read_run_def r(1) option.case by blast
qed

end
