(* ===== verification/Backup.thy ===== *)
theory Backup
  imports FileStore
begin

text \<open>
  What the rotation of the backups keeps and what it destroys, rows and blobs, and the one way a
  backup loses its blob.
\<close>

section \<open>The rotation\<close>

lemma Backups_blobs: "Backups owner dir w = (r, w') \<Longrightarrow> w_blobs w' = w_blobs w"
proof -
  assume b: "Backups owner dir w = (r, w')"
  obtain y w1 where q: "query (ListFiles owner dir) w = (y, w1)" by fastforce
  with look_world [OF ListFiles_same q] b show ?thesis
    by (cases y) (auto simp: Backups_def tryE_def split: if_splits)
qed

context files_service
begin

abbreviation drop_backups :: "bytes \<Rightarrow> backup list \<Rightarrow> ('s, unit) act" where
  "drop_backups owner olds \<equiv> foreach (\<lambda>old. bindE (query (DeleteFile owner (bk_path old))) (\<lambda>_. dropBlob S (bk_key old))) olds"

lemma drop_backups_files:
  assumes "foreach (\<lambda>old. bindE (query (DeleteFile owner (bk_path old))) (\<lambda>_. dropBlob S (bk_key old))) olds w = (Inr v, w')"
  shows "files (w_db w') = filter (\<lambda>r. \<not> (f_owner r = owner \<and> f_path r \<in> bk_path ` set olds)) (files (w_db w))"
  using assms
proof (induction olds arbitrary: w)
  case Nil
  then show ?case by simp
next
  case (Cons old olds)
  then obtain x w1 w2 y where del: "query (DeleteFile owner (bk_path old)) w = (Inr x, w1)"
    and drp: "dropBlob S (bk_key old) w1 = (Inr y, w2)"
    and rest: "foreach (\<lambda>old. bindE (query (DeleteFile owner (bk_path old))) (\<lambda>_. dropBlob S (bk_key old))) olds w2 = (Inr v, w')"
    by (auto elim!: bindE_okE)
  from del have "files (w_db w1) = filter (\<lambda>r. \<not> at_key owner (bk_path old) r) (files (w_db w))"
    by (auto elim!: query_cases dest: DeleteFile_files)
  moreover have "w_db w2 = w_db w1" using dropBlob_db [of "bk_key old" w1] drp by simp
  ultimately show ?case using Cons.IH [OF rest] by (auto simp: at_key_def intro: filter_cong)
qed

lemma guards_query: "keeps (guards K ob) (query q)"
  by (rule keepsI, case_tac "query q s") (auto elim!: query_cases simp: guards_def)

lemma drop_backups_gone:
  assumes "sound (w_blobs w)" and "drop_backups owner olds w = (Inr v, w')" and "b \<in> set olds"
  shows "objs (w_blobs w') (bk_key b) = None"
  using assms
proof (induction olds arbitrary: w)
  case (Cons old olds)
  then obtain x w1 w2 y where del: "query (DeleteFile owner (bk_path old)) w = (Inr x, w1)"
    and drp: "dropBlob S (bk_key old) w1 = (Inr y, w2)" and rest: "drop_backups owner olds w2 = (Inr v, w')"
    by (auto elim!: bindE_okE)
  have "guards {} Map.empty w" using Cons.prems(1) by (simp add: guards_def)
  from keepsD [OF guards_query this del] have "sound (w_blobs w1)" by (simp add: guards_def)
  from dropBlob_gone [OF this drp] have gone: "guards {bk_key old} Map.empty w2" .
  show ?case
  proof (cases "b = old")
    case True
    have "keeps (guards {bk_key b} Map.empty) (drop_backups owner olds)"
      by (intro keeps_foreach keeps_bind guards_query gone_dropBlob)
    from keepsD [OF this _ rest] gone True show ?thesis by (simp add: guards_def)
  next
    case False
    with Cons.IH [OF _ rest] Cons.prems(3) gone show ?thesis by (simp add: guards_def)
  qed
qed simp

lemma drop_backups_kept:
  assumes "sound (w_blobs w)" and "drop_backups owner olds w = (r, w')" and "k \<notin> bk_key ` set olds" "\<not> has_prefix k DerivedPrefix"
  shows "objs (w_blobs w') k = objs (w_blobs w) k"
proof -
  have "keeps (guards {k} (objs (w_blobs w))) (drop_backups owner olds)"
    using assms(3,4) by (intro keeps_foreach keeps_bind guards_query guards_dropBlob) auto
  from keepsD [OF this _ assms(2)] assms(1) show ?thesis by (simp add: guards_def)
qed

end

text \<open>The keys of the backups, with no two rows sharing one.\<close>

definition own_blobs :: "database \<Rightarrow> bool" where
  "own_blobs d \<longleftrightarrow> distinct (map f_blob (filter (\<lambda>r. \<not> f_is_dir r) (files d)))"

lemma reachable_own: "reachable h w \<Longrightarrow> uniq (w_db w) \<and> own_blobs (w_db w) \<and> disk_ok (w_blobs w)"
proof -
  assume "reachable h w"
  then have w: "safe disk_ok disk_objs disk_ups w" by (rule reachable_safe)
  then have "\<forall>k. count (keys_of (refs (w_db w))) k \<le> 1" by (simp add: safe_with_def keys_ok_def)
  then have "distinct (map f_blob (filter (\<lambda>r. \<not> f_is_dir r) (files (w_db w)))
      @ map f_blob (filter (\<lambda>t. \<not> f_is_dir t) (trash (w_db w))))"
    unfolding refs_def keys_of_simps keys_of_rows_mset mset_append [symmetric] by (rule count_le_1_distinct)
  then show ?thesis using w by (simp add: own_blobs_def safe_with_def)
qed

lemma all_backups_from:
  assumes "b \<in> set (all_backups d owner dir)"
  obtains x where "x \<in> set (files d)" "f_owner x = owner" "f_path x = bk_path b" "\<not> f_is_dir x" "f_blob x = bk_key b"
    "has_prefix (bk_key b) BackupPrefix"
proof -
  from assms obtain x where x: "x \<in> set (children d owner dir)" "backup_of (scan_file x) = Some b"
    by (auto simp: all_backups_def map_filter_def listed_def split: option.splits)
  then have "f_owner x = owner" "f_path x = bk_path b" "\<not> f_is_dir x" "f_blob x = bk_key b" "backupTime (bk_key b) \<noteq> None"
    by (auto simp: children_def backup_of_def split: if_splits)
  moreover from this(5) have "has_prefix (bk_key b) BackupPrefix" by (auto simp: backupTime_def cut_prefix_def split: if_splits)
  ultimately show ?thesis using that [of x] x(1) by (simp add: children_def)
qed

lemma backup_keys_distinct:
  assumes "own_blobs d" and b: "b \<in> set (all_backups d owner dir)" and c: "c \<in> set (all_backups d owner dir)" and "bk_key b = bk_key c"
  shows "bk_path b = bk_path c"
proof -
  obtain x where x: "x \<in> set (files d)" "f_path x = bk_path b" "\<not> f_is_dir x" "f_blob x = bk_key b" using all_backups_from [OF b] .
  obtain y where y: "y \<in> set (files d)" "f_path y = bk_path c" "\<not> f_is_dir y" "f_blob y = bk_key c" using all_backups_from [OF c] .
  have "inj_on f_blob (set (filter (\<lambda>r. \<not> f_is_dir r) (files d)))" using assms(1) by (simp add: own_blobs_def distinct_map)
  from inj_onD [OF this, of x y] x y assms(4) show ?thesis by simp
qed

text \<open>
  C38: The rotation keeps the newest backups of the folder, seven of them, and destroys the
  others, rows and blobs: what is listed after it is the first part of what was listed before,
  newest first; no other file of anybody has gone; nothing is left under the key of a backup that
  was destroyed; and everything else in the store but derived objects is what it was, the blob of
  every backup that is kept in particular.  This is so in any state in which no two rows share a
  path or a blob, which every reachable one is.
\<close>
theorem backups_rotated:
  assumes "uniq (w_db w)" "own_blobs (w_db w)" "disk_ok (w_blobs w)"
    and "Backups owner dir w = (Inr all, w0)" and "rotate (disk_service h) owner dir w = (Inr (), w1)"
    and "Backups owner dir w1 = (Inr left, w2)"
  shows "left = take BackupsKept all \<and> sorted (map (\<lambda>b. - bk_at b) all)
     \<and> files (w_db w1) = filter (\<lambda>r. \<not> (f_owner r = owner \<and> f_path r \<in> bk_path ` set (drop BackupsKept all))) (files (w_db w))
     \<and> (\<forall>b\<in>set (drop BackupsKept all). disk_objs (w_blobs w1) (bk_key b) = None)
     \<and> (\<forall>k. k \<notin> bk_key ` set (drop BackupsKept all) \<longrightarrow> \<not> has_prefix k DerivedPrefix \<longrightarrow>
          disk_objs (w_blobs w1) k = disk_objs (w_blobs w) k)
     \<and> (\<forall>b\<in>set left. disk_objs (w_blobs w1) (bk_key b) = disk_objs (w_blobs w) (bk_key b))"
proof -
  have all: "all = all_backups (w_db w) owner dir" using Backups_result [OF assms(4)] by simp
  have left: "left = all_backups (w_db w1) owner dir" using Backups_result [OF assms(6)] by simp
  from assms(5) obtain found w3 where b: "Backups owner dir w = (Inr found, w3)"
    and f: "foreach (\<lambda>old. bindE (query (DeleteFile owner (bk_path old))) (\<lambda>_. dropBlob (disk_service h) (bk_key old)))
      (drop BackupsKept found) w3 = (Inr (), w1)"
    unfolding rotate_def by (elim bindE_okE)
  from b assms(4) have same: "found = all" by simp
  have w3: "w_db w3 = w_db w" "w_blobs w3 = w_blobs w" using Backups_result [OF b] Backups_blobs [OF b] by simp_all
  note f = f [unfolded same]
  have files: "files (w_db w1) = filter (\<lambda>r. \<not> (f_owner r = owner \<and> f_path r \<in> bk_path ` set (drop BackupsKept all))) (files (w_db w))"
    using disk_files.drop_backups_files [OF f] w3 by simp
  have "left = filter (\<lambda>b. bk_path b \<notin> bk_path ` set (drop BackupsKept all)) all"
    unfolding left all_backups_filter [OF files] by (simp add: all)
  also have "\<dots> = take BackupsKept all"
    using all_backups_distinct [OF assms(1)] unfolding all by (rule keep_first)
  finally have kept: "left = take BackupsKept all" .
  have gone: "disk_objs (w_blobs w1) (bk_key b) = None" if "b \<in> set (drop BackupsKept all)" for b
    using disk_files.drop_backups_gone [OF _ f that] assms(3) w3 by simp
  have stays: "disk_objs (w_blobs w1) k = disk_objs (w_blobs w) k"
    if "k \<notin> bk_key ` set (drop BackupsKept all)" "\<not> has_prefix k DerivedPrefix" for k
    using disk_files.drop_backups_kept [OF _ f that] assms(3) w3 by simp
  have same_blob: "disk_objs (w_blobs w1) (bk_key b) = disk_objs (w_blobs w) (bk_key b)" if "b \<in> set left" for b
  proof (rule stays)
    have "b \<in> set all" "bk_path b \<notin> bk_path ` set (drop BackupsKept all)"
      using that unfolding \<open>left = filter _ all\<close> by auto
    then have "bk_key b \<noteq> bk_key c" if "c \<in> set (drop BackupsKept all)" for c
      using backup_keys_distinct [OF assms(2), of b owner dir c] that in_set_dropD [OF that] unfolding all by blast
    then show "bk_key b \<notin> bk_key ` set (drop BackupsKept all)" by blast
    show "\<not> has_prefix (bk_key b) DerivedPrefix"
      using \<open>b \<in> set all\<close> unfolding all by (auto elim!: all_backups_from simp: has_prefix_iff BackupPrefix_def DerivedPrefix_def)
  qed
  have "sorted (map (\<lambda>b. - bk_at b) all)" unfolding all all_backups_def by simp
  with kept files show ?thesis by (intro conjI ballI allI impI) (assumption | erule same_blob gone | erule (1) stays)+
qed

definition old_name :: "nat \<Rightarrow> bytes" where
  "old_name i = ''1970010'' @ [''12345678'' ! i] @ ''T000000Z.db''"

definition old_key :: "nat \<Rightarrow> bytes" where
  "old_key i = BackupPrefix @ old_name i"

definition old_row :: "nat \<Rightarrow> row" where
  "old_row i = new_row (no_file\<lparr>f_id := int i, f_owner := ''u'', f_path := ''b/'' @ old_name i, f_blob := old_key i, f_size := 4\<rparr>) False"

text \<open>Eight of them, a day apart, each with its blob.\<close>

definition old_disk :: disk where
  "old_disk = \<lparr>tree = [(tmpDir, Dir), (uploadDir, Dir), (''backups'', Dir)]
     @ map (\<lambda>i. (old_key i, Reg ''data'' 0)) [0..<8], avail = - 1\<rparr>"

definition old_world :: "disk world" where
  "old_world = start_world\<lparr>w_blobs := old_disk, w_db := empty_db\<lparr>files := map old_row [0..<8], next_id := 8\<rparr>\<rparr>"

definition listed_times :: "'s world \<Rightarrow> error + int list" where
  "listed_times w = map_sum id (map (\<lambda>b. bk_at b div 86400000000000)) (fst (Backups ''u'' ''b'' w))"

definition stored_keys :: "disk world \<Rightarrow> bool list" where
  "stored_keys w = map (\<lambda>i. disk_objs (w_blobs w) (old_key i) \<noteq> None) [0, 7]"

lemma old_uniq: "uniq (w_db old_world)" "own_blobs (w_db old_world)"
proof -
  have "map row_key_of (files (w_db old_world)) = map (\<lambda>i. (''u'', f_path (old_row i))) [0..<8]"
    by (simp add: old_world_def row_key_of_def old_row_def comp_def)
  moreover have "distinct (map (\<lambda>i. f_path (old_row i)) [0..<8])" by code_simp
  ultimately show "uniq (w_db old_world)" by (simp add: uniq_def distinct_map inj_on_def)
  have "distinct (map f_blob (filter (\<lambda>r. \<not> f_is_dir r) (map old_row [0..<8])))" by code_simp
  then show "own_blobs (w_db old_world)" by (simp add: own_blobs_def old_world_def)
qed

lemma old_disk_ok: "disk_ok old_disk"
  by code_simp

lemma old_listed: "listed_times old_world = Inr [7, 6, 5, 4, 3, 2, 1, 0] \<and> stored_keys old_world = [True, True]"
  by code_simp

lemma old_rotated:
  "(case rotate (disk_service plain_hasher) ''u'' ''b'' old_world of (r, w) \<Rightarrow> (r, listed_times w)) = (Inr (), Inr [7, 6, 5, 4, 3, 2, 1])"
  by code_simp

lemma backups_rotated_witness:
  "\<exists>all left w1. length all = 8 \<and> rotate (disk_service plain_hasher) ''u'' ''b'' old_world = (Inr (), w1) \<and> left = take BackupsKept all
     \<and> fst (Backups ''u'' ''b'' w1) = Inr left \<and> stored_keys old_world = [True, True]
     \<and> disk_objs (w_blobs w1) (bk_key (all ! 7)) = None"
proof -
  obtain r w0 where l: "Backups ''u'' ''b'' old_world = (r, w0)" by fastforce
  with old_listed obtain all where all: "r = Inr all" "map (\<lambda>b. bk_at b div 86400000000000) all = [7, 6, 5, 4, 3, 2, 1, 0]"
    by (cases r) (simp_all add: listed_times_def)
  from arg_cong [OF all(2), of length] have len: "length all = 8" by simp
  obtain x w1 where rot: "rotate (disk_service plain_hasher) ''u'' ''b'' old_world = (x, w1)" by fastforce
  with old_rotated have x: "x = Inr ()" "listed_times w1 = Inr [7, 6, 5, 4, 3, 2, 1]" by simp_all
  obtain y w2 where b: "Backups ''u'' ''b'' w1 = (y, w2)" by fastforce
  with x(2) obtain left where left: "y = Inr left" by (cases y) (auto simp: listed_times_def)
  have ok: "disk_ok (w_blobs old_world)" using old_disk_ok by (simp add: old_world_def)
  note run = backups_rotated [OF old_uniq ok l [unfolded all(1)] rot [unfolded x(1)] b [unfolded left]]
  have "all ! 7 \<in> set (drop BackupsKept all)" using len by (auto simp: BackupsKept_def in_set_conv_nth intro!: exI [of _ 0])
  with run have "left = take BackupsKept all" "disk_objs (w_blobs w1) (bk_key (all ! 7)) = None" by blast+
  moreover have "fst (Backups ''u'' ''b'' w1) = Inr left" using b left by simp
  ultimately show ?thesis using rot x(1) len old_listed by blast
qed

section \<open>Two in one second\<close>

text \<open>What a backup's row says and what is under its key.\<close>

definition backup_seen :: "disk world \<Rightarrow> (bytes \<times> bytes option) list" where
  "backup_seen w = map (\<lambda>r. (f_path r, map_option fst (disk_objs (w_blobs w) (f_blob r)))) (filter (\<lambda>r. \<not> f_is_dir r) (files (w_db w)))"

definition copy_as :: "bytes \<Rightarrow> dumper" where
  "copy_as d = Some (\<lambda>_. d)"

definition twice :: "nat option list \<Rightarrow> (bool \<times> (bytes \<times> bytes option) list) \<times> (bool \<times> (bytes \<times> bytes option) list)" where
  "twice fs =
     (case BackUp (disk_service plain_hasher) (copy_as ''one'') ''u'' ''b'' 1000000000 start_world of ((_, e1), w1) \<Rightarrow>
      case BackUp (disk_service plain_hasher) (copy_as ''two'') ''u'' ''b'' 1500000000
             (w1\<lparr>w_env := (w_env w1)\<lparr>faults := fs\<rparr>\<rparr>) of ((_, e2), w2) \<Rightarrow>
        ((e1 = None, backup_seen w1), (e2 = None, backup_seen w2)))"

text \<open>
  Two backups begun in one second have one key.  When the transaction that files the second
  one fails, the blob it gives up is the one the first one's row names: the backup that was there
  and whole is a row with nothing behind it.  This is what a backup is kept from in
  \<open>reachable\<close> by its key being free.
\<close>
lemma backup_twice:
  "twice (replicate 15 None @ [Some 0]) =
     ((True, [(backup_path ''b'' 1000000000, Some ''one'')]), (False, [(backup_path ''b'' 1000000000, None)]))"
  by code_simp

end
