(* ===== verification/GoText.thy ===== *)
theory GoText
  imports GoStrings
begin

text \<open>
  \<open>strings.TrimSpace\<close> and \<open>strconv.Unquote\<close> as the header parsers of \<^verbatim>\<open>internal/dav\<close> and
  \<^verbatim>\<open>internal/tus\<close> use them.  A space is one of the code points of \<open>unicode.IsSpace\<close>, here by its
  encoding: no encoding of one ends inside another, so cutting one off an end of a string is
  what decoding the rune at that end does.
\<close>

definition spaces :: "bytes list" where
  "spaces = [[CHR 0x09], [CHR 0x0A], [CHR 0x0B], [CHR 0x0C], [CHR 0x0D], [CHR 0x20],
     [CHR 0xC2, CHR 0x85], [CHR 0xC2, CHR 0xA0], [CHR 0xE1, CHR 0x9A, CHR 0x80],
     [CHR 0xE2, CHR 0x80, CHR 0x80], [CHR 0xE2, CHR 0x80, CHR 0x81], [CHR 0xE2, CHR 0x80, CHR 0x82],
     [CHR 0xE2, CHR 0x80, CHR 0x83], [CHR 0xE2, CHR 0x80, CHR 0x84], [CHR 0xE2, CHR 0x80, CHR 0x85],
     [CHR 0xE2, CHR 0x80, CHR 0x86], [CHR 0xE2, CHR 0x80, CHR 0x87], [CHR 0xE2, CHR 0x80, CHR 0x88],
     [CHR 0xE2, CHR 0x80, CHR 0x89], [CHR 0xE2, CHR 0x80, CHR 0x8A], [CHR 0xE2, CHR 0x80, CHR 0xA8],
     [CHR 0xE2, CHR 0x80, CHR 0xA9], [CHR 0xE2, CHR 0x80, CHR 0xAF], [CHR 0xE2, CHR 0x81, CHR 0x9F],
     [CHR 0xE3, CHR 0x80, CHR 0x80]]"

function strip_front :: "bytes list \<Rightarrow> bytes \<Rightarrow> bytes" where
  "strip_front ps s =
     (case find (\<lambda>p. p \<noteq> [] \<and> has_prefix s p) ps of
        None \<Rightarrow> s | Some p \<Rightarrow> strip_front ps (drop (length p) s))"
  by pat_completeness auto
termination
  by (relation "measure (\<lambda>(ps, s). length s)") (auto simp: find_Some_iff has_prefix_iff)

declare strip_front.simps [simp del]

definition trim_space :: "bytes \<Rightarrow> bytes" where
  "trim_space s = rev (strip_front (map rev spaces) (rev (strip_front spaces s)))"

definition space_byte :: "char \<Rightarrow> bool" where
  "space_byte c \<longleftrightarrow> c \<in> set (concat spaces)"

lemma strip_front_id:
  assumes "s = [] \<or> (\<forall>p\<in>set ps. hd s \<notin> set p)"
  shows "strip_front ps s = s"
proof -
  have "\<not> (p \<noteq> [] \<and> has_prefix s p)" if "p \<in> set ps" for p
    using assms that by (cases p; cases s) (auto simp: has_prefix_def)
  then have "find (\<lambda>p. p \<noteq> [] \<and> has_prefix s p) ps = None" by (auto simp: find_None_iff)
  then show ?thesis by (simp add: strip_front.simps)
qed

text \<open>A string that neither begins nor ends with a byte of a space is left as it is.\<close>

lemma trim_space_id: "s = [] \<or> \<not> space_byte (hd s) \<and> \<not> space_byte (last s) \<Longrightarrow> trim_space s = s"
  by (subst trim_space_def, subst strip_front_id, (auto simp: space_byte_def)[1], subst strip_front_id)
    (auto simp: space_byte_def hd_rev)

section \<open>strconv.Unquote\<close>

definition unhex :: "char \<Rightarrow> nat option" where
  "unhex c =
     (let b = byte c in
      if 48 \<le> b \<and> b \<le> 57 then Some (b - 48)
      else if 97 \<le> b \<and> b \<le> 102 then Some (b - 87)
      else if 65 \<le> b \<and> b \<le> 70 then Some (b - 55) else None)"

fun hex_value :: "nat \<Rightarrow> bytes \<Rightarrow> nat option" where
  "hex_value acc [] = Some acc"
| "hex_value acc (c # cs) = (case unhex c of None \<Rightarrow> None | Some x \<Rightarrow> hex_value (acc * 16 + x) cs)"

definition valid_rune :: "nat \<Rightarrow> bool" where
  "valid_rune r \<longleftrightarrow> r < 0xD800 \<or> 0xDFFF < r \<and> r \<le> 0x10FFFF"

definition append_rune :: "nat \<Rightarrow> bytes" where
  "append_rune r0 =
     (let r = (if valid_rune r0 then r0 else rune_error) in
      if r < 0x80 then [char_of r]
      else if r < 0x800 then [char_of (0xC0 + r div 64), char_of (0x80 + r mod 64)]
      else if r < 0x10000 then [char_of (0xE0 + r div 4096), char_of (0x80 + r div 64 mod 64), char_of (0x80 + r mod 64)]
      else [char_of (0xF0 + r div 262144), char_of (0x80 + r div 4096 mod 64), char_of (0x80 + r div 64 mod 64),
            char_of (0x80 + r mod 64)])"

text \<open>The escape after a backslash: its bytes and what follows it.\<close>

definition hex_escape :: "nat \<Rightarrow> bytes \<Rightarrow> (nat \<times> bytes) option" where
  "hex_escape n s = (if length s < n then None
     else case hex_value 0 (take n s) of None \<Rightarrow> None | Some v \<Rightarrow> Some (v, drop n s))"

definition octal_escape :: "nat \<Rightarrow> bytes \<Rightarrow> (bytes \<times> bytes) option" where
  "octal_escape d s =
     (case s of
        a # b # rest \<Rightarrow>
          (let x = byte a; y = byte b; v = (d * 8 + (x - 48)) * 8 + (y - 48)
           in if x < 48 \<or> 55 < x \<or> y < 48 \<or> 55 < y \<or> 255 < v then None else Some ([char_of v], rest))
      | _ \<Rightarrow> None)"

definition escape :: "char \<Rightarrow> char \<Rightarrow> bytes \<Rightarrow> (bytes \<times> bytes) option" where
  "escape quote c s =
     (case map_of [(CHR ''a'', CHR 0x07), (CHR ''b'', CHR 0x08), (CHR ''f'', CHR 0x0C), (CHR ''n'', CHR 0x0A),
          (CHR ''r'', CHR 0x0D), (CHR ''t'', CHR 0x09), (CHR ''v'', CHR 0x0B), (CHR 0x5C, CHR 0x5C)] c of
        Some x \<Rightarrow> Some ([x], s)
      | None \<Rightarrow>
          if c = CHR ''x'' then (case hex_escape 2 s of None \<Rightarrow> None | Some (v, t) \<Rightarrow> Some ([char_of v], t))
          else if c = CHR ''u'' \<or> c = CHR ''U'' then
            (case hex_escape (if c = CHR ''u'' then 4 else 8) s of
               None \<Rightarrow> None | Some (v, t) \<Rightarrow> if valid_rune v then Some (append_rune v, t) else None)
          else if 48 \<le> byte c \<and> byte c \<le> 55 then octal_escape (byte c - 48) s
          else if (c = CHR 0x27 \<or> c = CHR 0x22) \<and> c = quote then Some ([c], s)
          else None)"

definition unquote_char :: "char \<Rightarrow> bytes \<Rightarrow> (bytes \<times> bytes) option" where
  "unquote_char quote s =
     (case s of
        [] \<Rightarrow> None
      | c # cs \<Rightarrow>
          if c = quote then None
          else if 0x80 \<le> byte c then (case decode_rune s of (r, n) \<Rightarrow> Some (append_rune r, drop n s))
          else if c \<noteq> CHR 0x5C then Some ([c], cs)
          else (case cs of [] \<Rightarrow> None | e # es \<Rightarrow> escape quote e es))"

lemma unquote_char_shrinks: "unquote_char q s = Some (b, t) \<Longrightarrow> length t < length s"
  using decode_rune_size [of s]
  by (auto simp: unquote_char_def escape_def hex_escape_def octal_escape_def Let_def
      split: list.splits if_splits prod.splits option.splits)

function unquote_body :: "char \<Rightarrow> bytes \<Rightarrow> bytes \<Rightarrow> (bytes \<times> bytes) option" where
  "unquote_body quote buf s =
     (case s of
        [] \<Rightarrow> None
      | c # cs \<Rightarrow>
          if c = quote then Some (buf, cs)
          else if c = CHR 0x0A then None
          else case unquote_char quote s of
                 None \<Rightarrow> None
               | Some (b, t) \<Rightarrow>
                   if quote = CHR 0x27 then
                     (case t of d # ds \<Rightarrow> if d = quote then Some (buf @ b, ds) else None | [] \<Rightarrow> None)
                   else unquote_body quote (buf @ b) t)"
  by pat_completeness auto
termination
  by (relation "measure (\<lambda>(quote, buf, s). length s)") (auto dest: unquote_char_shrinks)

definition unquote :: "bytes \<Rightarrow> bytes option" where
  "unquote s =
     (case s of
        quote # body \<Rightarrow>
          (if quote = CHR 0x60 then
             (case cut quote body of Some (a, []) \<Rightarrow> Some (filter (\<lambda>c. c \<noteq> CHR 0x0D) a) | _ \<Rightarrow> None)
           else if quote = CHR 0x22 \<or> quote = CHR 0x27 then
             (case unquote_body quote [] body of Some (a, []) \<Rightarrow> Some a | _ \<Rightarrow> None)
           else None)
      | [] \<Rightarrow> None)"

end
