(* ===== verification/Base64.thy ===== *)
theory Base64
  imports GoStrings
begin

text \<open>
  What the program uses of \<^verbatim>\<open>encoding/base64\<close>: \<open>RawURLEncoding\<close> for the signed cookies and
  links of \<^verbatim>\<open>internal/auth\<close>, \<open>StdEncoding\<close> for the metadata header of
  \<^verbatim>\<open>internal/tus\<close>.  Decoding skips line breaks anywhere, ignores the unused bits of a last
  group, and with padding wants it at the end and nowhere else.
\<close>

record encoding =
  alphabet :: bytes
  padded :: bool

definition letters :: bytes where
  "letters = ''ABCDEFGHIJKLMNOPQRSTUVWXYZabcdefghijklmnopqrstuvwxyz0123456789''"

definition RawURLEncoding :: encoding where
  "RawURLEncoding = \<lparr>alphabet = letters @ ''-_'', padded = False\<rparr>"

definition StdEncoding :: encoding where
  "StdEncoding = \<lparr>alphabet = letters @ ''+/'', padded = True\<rparr>"

fun index_of :: "bytes \<Rightarrow> char \<Rightarrow> nat option" where
  "index_of [] c = None"
| "index_of (x # xs) c = (if x = c then Some 0 else map_option Suc (index_of xs c))"

definition sextet :: "encoding \<Rightarrow> nat \<Rightarrow> char" where
  "sextet enc n = alphabet enc ! (n mod 64)"

definition pad :: "encoding \<Rightarrow> nat \<Rightarrow> bytes" where
  "pad enc n = (if padded enc then replicate n (CHR ''='') else [])"

fun encode64 :: "encoding \<Rightarrow> bytes \<Rightarrow> bytes" where
  "encode64 enc [] = []"
| "encode64 enc [a] =
     (let v = byte a * 16 in [sextet enc (v div 64), sextet enc v] @ pad enc 2)"
| "encode64 enc [a, b] =
     (let v = (byte a * 256 + byte b) * 4
      in [sextet enc (v div 4096), sextet enc (v div 64), sextet enc v] @ pad enc 1)"
| "encode64 enc (a # b # c # cs) =
     (let v = (byte a * 256 + byte b) * 256 + byte c
      in [sextet enc (v div 262144), sextet enc (v div 4096), sextet enc (v div 64), sextet enc v]
         @ encode64 enc cs)"

definition group :: "encoding \<Rightarrow> bytes \<Rightarrow> nat list option" where
  "group enc cs = (let vs = map (index_of (alphabet enc)) cs
     in if None \<in> set vs then None else Some (map the vs))"

definition bytes1 :: "nat list \<Rightarrow> bytes" where
  "bytes1 vs = [char_of ((vs ! 0 * 64 + vs ! 1) div 16)]"

definition bytes2 :: "nat list \<Rightarrow> bytes" where
  "bytes2 vs = (let v = ((vs ! 0 * 64 + vs ! 1) * 64 + vs ! 2) div 4 in [char_of (v div 256), char_of v])"

definition bytes3 :: "nat list \<Rightarrow> bytes" where
  "bytes3 vs = (let v = ((vs ! 0 * 64 + vs ! 1) * 64 + vs ! 2) * 64 + vs ! 3
     in [char_of (v div 65536), char_of (v div 256), char_of v])"

fun decode_groups :: "encoding \<Rightarrow> bytes \<Rightarrow> bytes option" where
  "decode_groups enc [] = Some []"
| "decode_groups enc (a # b # c # d # cs) =
     (case group enc [a, b, c, d] of
        Some vs \<Rightarrow> (case decode_groups enc cs of None \<Rightarrow> None | Some r \<Rightarrow> Some (bytes3 vs @ r))
      | None \<Rightarrow>
          (if \<not> padded enc \<or> cs \<noteq> [] then None
           else if c = CHR ''='' \<and> d = CHR ''='' then map_option bytes1 (group enc [a, b])
           else if d = CHR ''='' then map_option bytes2 (group enc [a, b, c])
           else None))"
| "decode_groups enc [a, b, c] = (if padded enc then None else map_option bytes2 (group enc [a, b, c]))"
| "decode_groups enc [a, b] = (if padded enc then None else map_option bytes1 (group enc [a, b]))"
| "decode_groups enc [a] = None"

definition decode64 :: "encoding \<Rightarrow> bytes \<Rightarrow> bytes option" where
  "decode64 enc s = decode_groups enc (filter (\<lambda>c. c \<noteq> CHR 0x0A \<and> c \<noteq> CHR 0x0D) s)"

section \<open>Decoding undoes encoding\<close>

definition proper :: "encoding \<Rightarrow> bool" where
  "proper enc \<longleftrightarrow> length (alphabet enc) = 64 \<and> distinct (alphabet enc)
     \<and> CHR ''='' \<notin> set (alphabet enc) \<and> CHR 0x0A \<notin> set (alphabet enc) \<and> CHR 0x0D \<notin> set (alphabet enc)"

lemma proper_encodings [simp]: "proper RawURLEncoding" "proper StdEncoding"
  by (code_simp, code_simp)

lemma index_of_nth: "distinct xs \<Longrightarrow> i < length xs \<Longrightarrow> index_of xs (xs ! i) = Some i"
  by (induction xs arbitrary: i) (auto simp: nth_Cons split: nat.splits)

lemma index_of_None: "index_of xs c = None \<longleftrightarrow> c \<notin> set xs"
  by (induction xs) auto

lemma sextet_value: "proper enc \<Longrightarrow> index_of (alphabet enc) (sextet enc n) = Some (n mod 64)"
  by (simp add: sextet_def proper_def index_of_nth)

lemma sextet_letter: "proper enc \<Longrightarrow> sextet enc n \<in> set (alphabet enc)"
  by (simp add: sextet_def proper_def)

lemma sextet_no_pad: "proper enc \<Longrightarrow> sextet enc n \<noteq> CHR ''=''"
  using sextet_letter [of enc n] by (auto simp: proper_def)

lemma group_sextets: "proper enc \<Longrightarrow> group enc (map (sextet enc) ns) = Some (map (\<lambda>n. n mod 64) ns)"
  by (simp add: group_def sextet_value comp_def image_iff)

lemma group_pad: "proper enc \<Longrightarrow> CHR ''='' \<in> set cs \<Longrightarrow> group enc cs = None"
proof -
  assume "proper enc" and c: "CHR ''='' \<in> set cs"
  then have "index_of (alphabet enc) (CHR ''='') = None" by (simp add: index_of_None proper_def)
  with c have "None \<in> set (map (index_of (alphabet enc)) cs)" by (metis image_eqI set_map)
  then show ?thesis by (simp only: group_def Let_def if_True)
qed

lemmas group_enc = group_sextets [of _ "[_, _]", simplified] group_sextets [of _ "[_, _, _]", simplified]
  group_sextets [of _ "[_, _, _, _]", simplified]

lemma char_of_byte [simp]: "char_of (byte c) = c"
  by (simp add: byte_def)

lemma char_of_eq_byte: "n mod 256 = byte c \<Longrightarrow> char_of n = c"
  by (metis char_of_byte char_of_mod_256)

lemma below_carry: "x < p \<Longrightarrow> y < q \<Longrightarrow> x * q + y < p * (q :: nat)"
proof -
  assume "x < p" "y < q"
  then have "x * q + y < Suc x * q" by simp
  also have "\<dots> \<le> p * q" using \<open>x < p\<close> by (intro mult_le_mono1) simp
  finally show ?thesis .
qed

lemma two_bytes: "byte a * 256 + byte b < 65536"
  using below_carry [of "byte a" 256 "byte b" 256] by simp

lemma three_bytes: "(byte a * 256 + byte b) * 256 + byte c < 16777216"
  using below_carry [OF two_bytes, of "byte c" 256] by simp

lemma six_mod: "(x :: nat) mod (64 * m) = x div m mod 64 * m + x mod m"
  by (metis mod_mult2_eq mult.commute)

lemma six_id: "n < 64 * m \<Longrightarrow> n div m mod 64 * m + n mod m = (n :: nat)"
  by (metis six_mod mod_less)

lemma mod_4096: "n mod 4096 = n div 64 mod 64 * 64 + n mod (64 :: nat)"
  and mod_262144: "n mod 262144 = n div 4096 mod 64 * 4096 + n mod (4096 :: nat)"
  using six_mod [of n 64] six_mod [of n 4096] by simp_all

lemma carry2: "a * 4096 + r = n \<Longrightarrow> r = b * 64 + c \<Longrightarrow> (a * 64 + b) * 64 + c = (n :: nat)"
  and carry3: "a * 262144 + q = n \<Longrightarrow> q = b * 4096 + r \<Longrightarrow> r = c * 64 + d \<Longrightarrow>
                ((a * 64 + b) * 64 + c) * 64 + d = (n :: nat)"
  by simp_all

text \<open>What a group of sextets decodes to, by the number they spell.\<close>

lemma bytes1_sextets: "n < 64 * 64 \<Longrightarrow> bytes1 [n div 64 mod 64, n mod 64] = [char_of (n div 16)]"
  by (simp only: bytes1_def nth_Cons_0 nth_Cons_Suc One_nat_def six_id)

lemma bytes2_sextets:
  "n < 64 * 4096 \<Longrightarrow> bytes2 [n div 4096 mod 64, n div 64 mod 64, n mod 64] = [char_of (n div 4 div 256), char_of (n div 4)]"
proof -
  assume n: "n < 64 * 4096"
  have "(n div 4096 mod 64 * 64 + n div 64 mod 64) * 64 + n mod 64 = n"
    by (rule carry2 [OF six_id [OF n] mod_4096])
  then show ?thesis by (simp only: bytes2_def Let_def nth_Cons_0 nth_Cons_Suc One_nat_def numeral_2_eq_2)
qed

lemma bytes3_sextets:
  "n < 64 * 262144 \<Longrightarrow> bytes3 [n div 262144 mod 64, n div 4096 mod 64, n div 64 mod 64, n mod 64]
     = [char_of (n div 65536), char_of (n div 256), char_of n]"
proof -
  assume n: "n < 64 * 262144"
  have "((n div 262144 mod 64 * 64 + n div 4096 mod 64) * 64 + n div 64 mod 64) * 64 + n mod 64 = n"
    by (rule carry3 [OF six_id [OF n] mod_262144 mod_4096])
  then show ?thesis
    by (simp only: bytes3_def Let_def nth_Cons_0 nth_Cons_Suc One_nat_def numeral_2_eq_2 numeral_3_eq_3)
qed

lemma last_byte [simp]: "(x * 256 + byte b) div 256 = x" "char_of (x * 256 + byte b) = b"
  by (simp, rule char_of_eq_byte, simp)

lemma decode_encode_groups: "proper enc \<Longrightarrow> decode_groups enc (encode64 enc s) = Some s"
proof (induction enc s rule: encode64.induct)
  case (2 enc a)
  define n where "n = byte a * 16"
  have "n < 64 * 64" "n div 16 = byte a" using byte_less [of a] unfolding n_def by linarith+
  then have "bytes1 [n div 64 mod 64, n mod 64] = [a]" by (simp only: bytes1_sextets char_of_byte)
  with 2 show ?case
    by (simp only: encode64.simps Let_def flip: n_def) (simp add: pad_def group_enc group_pad numeral_2_eq_2)
next
  case (3 enc a b)
  define n where "n = (byte a * 256 + byte b) * 4"
  have "n < 65536 * 4" unfolding n_def by (rule mult_strict_right_mono [OF two_bytes]) simp
  then have n: "n < 64 * 4096" by simp
  have "n div 4 = byte a * 256 + byte b" unfolding n_def by (rule nonzero_mult_div_cancel_right) simp
  then have "bytes2 [n div 4096 mod 64, n div 64 mod 64, n mod 64] = [a, b]"
    by (simp only: bytes2_sextets [OF n] last_byte char_of_byte)
  with 3 show ?case
    by (simp only: encode64.simps Let_def flip: n_def) (simp add: pad_def group_enc group_pad sextet_no_pad)
next
  case (4 enc a b c cs)
  define n where "n = (byte a * 256 + byte b) * 256 + byte c"
  have n: "n < 64 * 262144" using three_bytes [of a b c] unfolding n_def by simp
  have "n div 256 = byte a * 256 + byte b" "char_of n = c" unfolding n_def by (rule last_byte)+
  moreover have "n div 65536 = n div 256 div 256" by (simp add: div_mult2_eq)
  ultimately have "bytes3 [n div 262144 mod 64, n div 4096 mod 64, n div 64 mod 64, n mod 64] = [a, b, c]"
    by (simp only: bytes3_sextets [OF n] last_byte char_of_byte)
  moreover have "decode_groups enc (encode64 enc cs) = Some cs" using 4 by blast
  ultimately show ?case using 4(2)
    by (simp only: encode64.simps Let_def flip: n_def) (simp add: group_enc)
qed simp

lemma encode64_chars:
  "proper enc \<Longrightarrow> set (encode64 enc s) \<subseteq> set (alphabet enc) \<union> (if padded enc then {CHR ''=''} else {})"
  by (induction enc s rule: encode64.induct) (auto simp: Let_def pad_def sextet_letter)

lemma decode_encode: "proper enc \<Longrightarrow> decode64 enc (encode64 enc s) = Some s"
proof -
  assume p: "proper enc"
  have "filter (\<lambda>c. c \<noteq> CHR 0x0A \<and> c \<noteq> CHR 0x0D) (encode64 enc s) = encode64 enc s"
    using encode64_chars [OF p, of s] p by (intro filter_take_id) (auto simp: proper_def split: if_splits)
  with p show ?thesis by (simp add: decode64_def decode_encode_groups)
qed

lemma raw_alphabet: "dot \<notin> set (alphabet RawURLEncoding)" "\<not> padded RawURLEncoding"
  by (code_simp, code_simp)

lemma encode_no_dot: "dot \<notin> set (encode64 RawURLEncoding s)"
  using encode64_chars [of RawURLEncoding s] raw_alphabet by auto

end
