(* ===== verification/Tus.thy ===== *)
theory Tus
  imports FileStore GoTime GoText Base64
begin

text \<open>
  \<^verbatim>\<open>internal/tus/tus.go\<close>: resumable uploads over HTTP.  A handler takes what it reads of the
  request and the state of the file service and gives the answer and the state after it.
\<close>

section \<open>Requests and answers\<close>

text \<open>
  A header that is not there is the empty string, as \<^verbatim>\<open>http.Header.Get\<close> has it; \<open>t_gone\<close> says
  that the client has gone by the time an answer is due, so that an error without a sentinel is
  the one its context carries.
\<close>

record tus_request =
  t_method :: bytes
  t_url :: bytes
  t_user :: "bytes option"
  t_version :: bytes
  t_length :: bytes
  t_metadata :: bytes
  t_type :: bytes
  t_offset :: bytes
  t_body :: reader
  t_gone :: bool

text \<open>Code 0 is no answer at all; the message is that of \<^verbatim>\<open>http.Error\<close>.\<close>

record tus_answer =
  a_code :: int
  a_headers :: "(bytes \<times> bytes) list"
  a_message :: bytes

record tus_handler =
  h_prefix :: bytes
  h_collection :: bytes

definition Version :: bytes where "Version = ''1.0.0''"
definition extensions :: bytes where "extensions = ''creation,expiration,termination''"
definition offsetContentType :: bytes where "offsetContentType = ''application/offset+octet-stream''"

definition http_error :: "bytes \<Rightarrow> int \<Rightarrow> tus_answer" where
  "http_error msg code = \<lparr>a_code = code, a_headers = [], a_message = msg\<rparr>"

definition with_headers :: "(bytes \<times> bytes) list \<Rightarrow> tus_answer \<Rightarrow> tus_answer" where
  "with_headers hs a = a\<lparr>a_headers := hs @ a_headers a\<rparr>"

definition writeErr :: "tus_request \<Rightarrow> error \<Rightarrow> tus_answer" where
  "writeErr rq err =
     (if t_gone rq \<and> err = ErrOther then \<lparr>a_code = 0, a_headers = [], a_message = []\<rparr>
      else if err = ErrNotFound then http_error ''not found'' 404
      else if err = ErrUploadOffset \<or> err = ErrConflict then http_error ''the upload is not at that offset'' 409
      else if err = ErrInvalidPath then http_error ''that is not a path this server will store'' 400
      else http_error ''the upload failed'' 500)"

section \<open>The metadata header\<close>

definition metadata_pair :: "bytes \<Rightarrow> bytes \<times> bytes" where
  "metadata_pair pair = (case cut (CHR '' '') (trim_space pair) of None \<Rightarrow> (trim_space pair, []) | Some kv \<Rightarrow> kv)"

fun read_pairs :: "(bytes \<rightharpoonup> bytes) \<Rightarrow> bytes list \<Rightarrow> (bytes \<rightharpoonup> bytes)" where
  "read_pairs out [] = out"
| "read_pairs out (p # ps) =
     (case metadata_pair p of (key, value) \<Rightarrow>
        if key = [] then read_pairs out ps
        else case decode64 StdEncoding (trim_space value) of
               None \<Rightarrow> read_pairs out ps
             | Some decoded \<Rightarrow> read_pairs (out(key \<mapsto> decoded)) ps)"

definition parseMetadata :: "bytes \<Rightarrow> (bytes \<rightharpoonup> bytes)" where
  "parseMetadata header = read_pairs Map.empty (split_on (CHR '','') header)"

definition entry_at :: "(bytes \<rightharpoonup> bytes) \<Rightarrow> bytes \<Rightarrow> bytes" where
  "entry_at m k = (case m k of None \<Rightarrow> [] | Some v \<Rightarrow> v)"

section \<open>The handlers\<close>

definition NewHandler :: "bytes \<Rightarrow> bytes \<Rightarrow> tus_handler" where
  "NewHandler root filesPrefix =
     \<lparr>h_prefix = trim_suffix root ''/'', h_collection = trim_char slash filesPrefix\<rparr>"

definition tus_options :: tus_answer where
  "tus_options = \<lparr>a_code = 204, a_headers = [(''Tus-Version'', Version), (''Tus-Extension'', extensions)], a_message = []\<rparr>"

definition byte_count :: "bytes \<Rightarrow> int option" where
  "byte_count s = (case parse_int64 s of None \<Rightarrow> None | Some n \<Rightarrow> if n < 0 then None else Some n)"

definition tus_create :: "tus_handler \<Rightarrow> 's service \<Rightarrow> tus_request \<Rightarrow> 's world \<Rightarrow> tus_answer \<times> 's world" where
  "tus_create h S rq w =
     (case t_user rq of None \<Rightarrow> (http_error ''no authenticated user'' 401, w) | Some owner \<Rightarrow>
      case byte_count (t_length rq) of None \<Rightarrow> (http_error ''Upload-Length is required and must be a byte count'' 400, w) | Some len \<Rightarrow>
      let meta = parseMetadata (t_metadata rq); name = trim_char slash (entry_at meta ''filename'') in
      if name = [] then (http_error ''Upload-Metadata must carry a filename'' 400, w)
      else case cut_prefix name (h_collection h @ ''/'') of
        None \<Rightarrow> (http_error (''the filename is a path from the server root and goes under '' @ h_collection h @ ''/'') 400, w)
      | Some path \<Rightarrow>
          if path = [] then (http_error (''the filename is a path from the server root and goes under '' @ h_collection h @ ''/'') 400, w)
          else case BeginUpload S owner path len (entry_at meta ''filetype'') w of
            (Inl e, w') \<Rightarrow> (writeErr rq e, w')
          | (Inr u, w') \<Rightarrow>
              (\<lparr>a_code = 201, a_headers = [(''Location'', h_prefix h @ ''/'' @ u_id u), (''Upload-Expires'', http_time (u_expires u))],
                a_message = []\<rparr>, w'))"

definition tus_status :: "'s service \<Rightarrow> tus_request \<Rightarrow> bytes \<Rightarrow> 's world \<Rightarrow> tus_answer \<times> 's world" where
  "tus_status S rq uid w =
     (case t_user rq of None \<Rightarrow> (http_error ''no authenticated user'' 401, w) | Some owner \<Rightarrow>
      case Upload owner uid w of
        (Inl e, w') \<Rightarrow> (writeErr rq e, w')
      | (Inr u, w') \<Rightarrow>
          (\<lparr>a_code = 200, a_headers = [(''Cache-Control'', ''no-store''), (''Upload-Offset'', itoa (u_received u)),
              (''Upload-Length'', itoa (u_size u)), (''Upload-Expires'', http_time (u_expires u))], a_message = []\<rparr>, w'))"

definition appended :: "upload \<Rightarrow> tus_answer" where
  "appended u = \<lparr>a_code = 204, a_headers = [(''Upload-Offset'', itoa (u_received u)), (''Upload-Expires'', http_time (u_expires u))],
     a_message = []\<rparr>"

definition tus_patch :: "'s service \<Rightarrow> tus_request \<Rightarrow> bytes \<Rightarrow> 's world \<Rightarrow> tus_answer \<times> 's world" where
  "tus_patch S rq uid w =
     (case t_user rq of None \<Rightarrow> (http_error ''no authenticated user'' 401, w) | Some owner \<Rightarrow>
      if t_type rq \<noteq> offsetContentType then (http_error (''a chunk is '' @ offsetContentType) 415, w)
      else case byte_count (t_offset rq) of None \<Rightarrow> (http_error ''Upload-Offset is required and must be a byte count'' 400, w) | Some offset \<Rightarrow>
      case Append_upload S owner uid offset (t_body rq) w of
        (Inl e, w') \<Rightarrow> (writeErr rq e, w')
      | (Inr (u, Some e), w') \<Rightarrow> (writeErr rq e, w')
      | (Inr (u, None), w') \<Rightarrow>
          if u_received u = u_size u
          then (case Complete_upload S owner uid w' of
                  (Inl e, w'') \<Rightarrow> (writeErr rq e, w'')
                | (Inr _, w'') \<Rightarrow> (appended u, w''))
          else (appended u, w'))"

definition tus_terminate :: "'s service \<Rightarrow> tus_request \<Rightarrow> bytes \<Rightarrow> 's world \<Rightarrow> tus_answer \<times> 's world" where
  "tus_terminate S rq uid w =
     (case t_user rq of None \<Rightarrow> (http_error ''no authenticated user'' 401, w) | Some owner \<Rightarrow>
      case Upload owner uid w of
        (Inl e, w') \<Rightarrow> (writeErr rq e, w')
      | (Inr _, w') \<Rightarrow>
          (case Abort_upload S owner uid w' of
             (Inl e, w'') \<Rightarrow> (writeErr rq e, w'')
           | (Inr _, w'') \<Rightarrow> (\<lparr>a_code = 204, a_headers = [], a_message = []\<rparr>, w'')))"

definition tus_serve :: "tus_handler \<Rightarrow> 's service \<Rightarrow> tus_request \<Rightarrow> 's world \<Rightarrow> tus_answer \<times> 's world" where
  "tus_serve h S rq w =
     (if t_method rq = ''OPTIONS'' then (tus_options, w)
      else if t_version rq \<noteq> Version
      then (with_headers [(''Tus-Version'', Version)] (http_error (''this server speaks tus '' @ Version) 412), w)
      else let uid = trim_char slash (trim_prefix (t_url rq) (h_prefix h)) in
        if t_method rq = ''POST'' \<and> uid = [] then tus_create h S rq w
        else if uid = [] then
          (with_headers [(''Allow'', ''OPTIONS, POST'')] (http_error ''method not allowed on the creation endpoint'' 405), w)
        else if t_method rq = ''HEAD'' then tus_status S rq uid w
        else if t_method rq = ''PATCH'' then tus_patch S rq uid w
        else if t_method rq = ''DELETE'' then tus_terminate S rq uid w
        else (with_headers [(''Allow'', ''HEAD, PATCH, DELETE'')] (http_error ''method not allowed on an upload'' 405), w))"

text \<open>\<open>Handler\<close>: the version is announced on every answer.\<close>

definition tus_Handler :: "bytes \<Rightarrow> bytes \<Rightarrow> 's service \<Rightarrow> tus_request \<Rightarrow> 's world \<Rightarrow> tus_answer \<times> 's world" where
  "tus_Handler root filesPrefix S rq w =
     apfst (with_headers [(''Tus-Resumable'', Version)]) (tus_serve (NewHandler root filesPrefix) S rq w)"

section \<open>The metadata header, read back\<close>

definition good_key :: "bytes \<Rightarrow> bool" where
  "good_key k \<longleftrightarrow> k \<noteq> [] \<and> (\<forall>c\<in>set k. c \<noteq> CHR '','' \<and> \<not> space_byte c)"

definition print_pair :: "bytes \<times> bytes \<Rightarrow> bytes" where
  "print_pair = (\<lambda>(k, v). k @ CHR '' '' # encode64 StdEncoding v)"

definition print_metadata :: "(bytes \<times> bytes) list \<Rightarrow> bytes" where
  "print_metadata kvs = join_with (CHR '','') (map print_pair kvs)"

lemma space_is_space [simp]: "space_byte (CHR '' '')"
  by code_simp

lemma std_alphabet: "\<forall>c\<in>set (CHR ''='' # alphabet StdEncoding). \<not> space_byte c \<and> c \<noteq> CHR '',''"
  by code_simp

lemma std_chars: "c \<in> set (encode64 StdEncoding v) \<Longrightarrow> \<not> space_byte c \<and> c \<noteq> CHR '',''"
  using encode64_chars [of StdEncoding v] std_alphabet by (auto split: if_splits)

lemma encode64_empty: "encode64 enc v = [] \<longleftrightarrow> v = []"
  by (cases "(enc, v)" rule: encode64.cases) (simp_all add: Let_def)

lemma trim_last_space:
  assumes "k \<noteq> []" "\<not> space_byte (hd k)" "\<not> space_byte (last k)"
  shows "trim_space (k @ '' '') = k"
proof -
  have front: "strip_front spaces (k @ '' '') = k @ '' ''"
    using assms by (intro strip_front_id) (auto simp: space_byte_def)
  have "find (\<lambda>p. p \<noteq> [] \<and> has_prefix (CHR '' '' # rev k) p) (map rev spaces) = Some [CHR '' '']"
    by (simp add: spaces_def has_prefix_def)
  then have "strip_front (map rev spaces) (CHR '' '' # rev k) = strip_front (map rev spaces) (rev k)"
    by (subst strip_front.simps) simp
  also have "\<dots> = rev k" using assms by (intro strip_front_id) (auto simp: space_byte_def hd_rev)
  finally show ?thesis by (simp add: trim_space_def front)
qed

lemma good_keyD:
  assumes "good_key k"
  shows "k \<noteq> []" "\<not> space_byte (hd k)" "\<not> space_byte (last k)" "CHR '' '' \<notin> set k" "CHR '','' \<notin> set k"
  using assms hd_in_set [of k] last_in_set [of k] space_is_space unfolding good_key_def by blast+

lemma trim_pair:
  assumes k: "k \<noteq> []" "\<not> space_byte (hd k)" and e: "e \<noteq> []" "\<not> space_byte (last e)"
  shows "trim_space (k @ CHR '' '' # e) = k @ CHR '' '' # e"
  by (rule trim_space_id) (use assms in simp)

lemma metadata_pair_print:
  assumes "good_key k"
  shows "metadata_pair (print_pair (k, v)) = (k, encode64 StdEncoding v)"
proof (cases "v = []")
  case True
  then have "trim_space (print_pair (k, v)) = k" using trim_last_space good_keyD [OF assms] by (simp add: print_pair_def)
  moreover have "cut (CHR '' '') k = None" using good_keyD(4) [OF assms] by (rule cut_None_iff [THEN iffD2])
  ultimately show ?thesis using True by (simp add: metadata_pair_def del: cut_None_iff)
next
  case False
  define e where "e = encode64 StdEncoding v"
  from False have ne: "e \<noteq> []" by (simp add: e_def encode64_empty)
  then have "last e \<in> set (encode64 StdEncoding v)" by (simp add: e_def)
  then have "\<not> space_byte (last e)" using std_chars by blast
  with trim_pair [OF good_keyD(1,2) [OF assms] ne] have "trim_space (k @ CHR '' '' # e) = k @ CHR '' '' # e" by simp
  with good_keyD(4) [OF assms] show ?thesis by (simp add: metadata_pair_def print_pair_def e_def [symmetric])
qed

lemma read_pairs_print: "\<forall>(k, v)\<in>set kvs. good_key k \<Longrightarrow> read_pairs m (map print_pair kvs) = m ++ map_of (rev kvs)"
proof (induction kvs arbitrary: m)
  case (Cons kv kvs)
  obtain k v where kv: "kv = (k, v)" by fastforce
  with Cons.prems have k: "good_key k" by simp
  have "trim_space (encode64 StdEncoding v) = encode64 StdEncoding v"
    using std_chars by (intro trim_space_id) (metis hd_in_set last_in_set)
  with k Cons show ?case
    by (simp add: kv metadata_pair_print decode_encode good_key_def fun_eq_iff map_add_def split: option.splits)
qed simp

text \<open>
  C37: A metadata header written the way the protocol says, pairs of a key and its value in
  base64, is read as the map of those pairs, whatever the bytes of the values; of two pairs with
  one key the last counts.
\<close>
theorem tus_metadata_roundtrip:
  assumes "\<forall>(k, v)\<in>set kvs. good_key k"
  shows "parseMetadata (print_metadata kvs) = map_of (rev kvs)"
proof (cases "kvs = []")
  case True
  have "parseMetadata [] = Map.empty" by (simp add: parseMetadata_def metadata_pair_def trim_space_def strip_front_id)
  with True show ?thesis by (simp add: print_metadata_def)
next
  case False
  have "CHR '','' \<notin> set (print_pair (k, v))" if "good_key k" for k v
    using that std_chars by (auto simp: print_pair_def good_key_def)
  with assms have "split_on (CHR '','') (print_metadata kvs) = map print_pair kvs"
    unfolding print_metadata_def using False by (intro split_join) auto
  with read_pairs_print [OF assms, of Map.empty] show ?thesis by (simp add: parseMetadata_def)
qed

lemma tus_metadata_roundtrip_witness:
  "parseMetadata (print_metadata [(''filename'', ''files/a b.txt''), (''filetype'', [])]) ''filename'' = Some ''files/a b.txt''"
proof -
  have "\<forall>(k, v)\<in>set [(''filename'', ''files/a b.txt''), (''filetype'', [])]. good_key k" by code_simp
  from tus_metadata_roundtrip [OF this] show ?thesis by simp
qed

section \<open>What a request does\<close>

lemma writeErr_code: "a_code (writeErr rq e) \<in> {0, 404, 409, 400, 500}"
  by (simp add: writeErr_def http_error_def)

lemma writeErr_not_done: "a_code (writeErr rq e) \<noteq> 204"
  using writeErr_code [of rq e] by auto

text \<open>
  A request without the protocol's version, or without a user, is refused and does nothing:
  it is answered 412, 401 or 405 and the files, the uploads and the machine are as they were.
  Only the discovery request may come without either.
\<close>
theorem tus_stranger_refused:
  assumes "t_method rq \<noteq> ''OPTIONS''" and "t_version rq \<noteq> Version \<or> t_user rq = None"
  shows "snd (tus_Handler root filesPrefix S rq w) = w
     \<and> a_code (fst (tus_Handler root filesPrefix S rq w)) \<in> {412, 401, 405}"
  using assms by (auto simp: tus_Handler_def tus_serve_def Let_def with_headers_def http_error_def
      tus_create_def tus_status_def tus_patch_def tus_terminate_def apfst_def map_prod_def)

definition sample_tus :: tus_request where
  "sample_tus = \<lparr>t_method = ''PATCH'', t_url = ''/uploads/x'', t_user = None, t_version = Version, t_length = [], t_metadata = [],
     t_type = offsetContentType, t_offset = ''0'', t_body = of_bytes ''abc'', t_gone = False\<rparr>"

lemma tus_stranger_refused_witness:
  "snd (tus_Handler ''/uploads/'' ''/files/'' (disk_service plain_hasher) sample_tus start_world) = start_world"
proof -
  have "t_method sample_tus \<noteq> ''OPTIONS''" "t_version sample_tus \<noteq> Version \<or> t_user sample_tus = None"
    by (simp_all add: sample_tus_def)
  from tus_stranger_refused [OF this] show ?thesis by blast
qed

section \<open>Chunks\<close>

text \<open>A patch as the service sees it.\<close>

lemma tus_patch_cases:
  assumes "tus_patch S rq uid w = (a, w')" and "t_user rq = Some owner"
  obtains (malformed) "w' = w" "a_code a \<noteq> 204"
  | (failed) off r where "byte_count (t_offset rq) = Some off" "Append_upload S owner uid off (t_body rq) w = (r, w')"
      "\<forall>u. r \<noteq> Inr (u, None)" "a_code a \<noteq> 204"
  | (appended) off u where "byte_count (t_offset rq) = Some off" "Append_upload S owner uid off (t_body rq) w = (Inr (u, None), w')"
      "u_received u \<noteq> u_size u" "a = appended u"
  | (whole) off u w1 r where "byte_count (t_offset rq) = Some off" "Append_upload S owner uid off (t_body rq) w = (Inr (u, None), w1)"
      "u_received u = u_size u" "Complete_upload S owner uid w1 = (r, w')"
      "a = (case r of Inl e \<Rightarrow> writeErr rq e | Inr _ \<Rightarrow> appended u)"
proof (cases "t_type rq \<noteq> offsetContentType \<or> byte_count (t_offset rq) = None")
  case True
  with assms show thesis by (intro malformed) (auto simp: tus_patch_def http_error_def split: if_splits)
next
  case False
  then obtain off where off: "byte_count (t_offset rq) = Some off" by blast
  obtain r w1 where ap: "Append_upload S owner uid off (t_body rq) w = (r, w1)" by fastforce
  show thesis
  proof (cases "\<exists>u. r = Inr (u, None)")
    case True
    then obtain u where r: "r = Inr (u, None)" by blast
    obtain c w2 where c: "Complete_upload S owner uid w1 = (c, w2)" by fastforce
    show thesis
    proof (cases "u_received u = u_size u")
      case True
      with assms False off ap r c have "w' = w2" "a = (case c of Inl e \<Rightarrow> writeErr rq e | Inr _ \<Rightarrow> appended u)"
        by (auto simp: tus_patch_def split: sum.splits)
      with whole off ap r c True show thesis by simp
    next
      case no: False
      with assms False off ap r have "w' = w1" "a = appended u" by (auto simp: tus_patch_def)
      with appended off ap r no show thesis by simp
    qed
  next
    case no: False
    with assms False off ap have "w' = w1 \<and> (\<exists>e. a = writeErr rq e)"
      by (cases r) (auto simp: tus_patch_def split: option.splits prod.splits)
    with failed off ap no writeErr_not_done show thesis by auto
  qed
qed

lemma store_of_files: "files d' = files d \<Longrightarrow> store_of ob d' = store_of ob d"
  by (simp add: fun_eq_iff store_of_def lookup_file_def)

lemma appended_code [simp]: "a_code (appended u) = 204"
  by (simp add: appended_def)

text \<open>
  C36: A chunk is taken where the upload ends and nowhere else.  Answered 204, it began at the
  number of bytes the store had, and its bytes are after them: as the upload, while it is not
  yet as long as it said, and as the file, whole, once it is.  Answered otherwise, no file has
  changed; and at any other offset the answer is not 204 and the bytes of every upload are what
  they were.
\<close>
theorem tus_chunk:
  assumes "reachable h w" "t_user rq = Some owner" "upload_of (w_db w) owner uid = Some u"
    and "disk_ups (w_blobs w) (u_store u) = Some d" "tus_patch (disk_service h) rq uid w = (a, w')"
  shows "(a_code a = 204 \<longrightarrow> byte_count (t_offset rq) = Some (int (length d))
        \<and> (if int (length (d @ content (t_body rq))) = u_size u
           then \<exists>tag mime. shown w' = put_entry (shown w) owner (u_path u) (Contents (d @ content (t_body rq)) tag mime)
           else shown w' = shown w \<and> disk_ups (w_blobs w') (u_store u) = Some (d @ content (t_body rq))))
     \<and> (a_code a \<noteq> 204 \<longrightarrow> shown w' = shown w)
     \<and> (byte_count (t_offset rq) \<noteq> Some (int (length d)) \<longrightarrow> a_code a \<noteq> 204 \<and> disk_ups (w_blobs w') = disk_ups (w_blobs w))"
  using assms(5,2)
proof (cases rule: tus_patch_cases)
  case malformed
  then show ?thesis by simp
next
  case (failed off r)
  note ap = disk_files.Append_upload_content [OF reachable_safe [OF assms(1)] failed(2)]
  have "shown w' = shown w" using ap(1) store_of_files by (metis shown_def)
  with ap(3) [OF assms(3,4)] failed show ?thesis by auto
next
  case (appended off v)
  note ap = disk_files.Append_upload_content [OF reachable_safe [OF assms(1)] appended(2)]
  have "shown w' = shown w" using ap(1) store_of_files by (metis shown_def)
  with ap(2) [OF refl] appended assms(3,4) show ?thesis by auto
next
  case (whole off v w1 r)
  note ap = disk_files.Append_upload_content [OF reachable_safe [OF assms(1)] whole(2)]
  have w1: "w1 = exec (disk_service h) (OpAppendUpload owner uid off (t_body rq)) w" using whole(2) by simp
  have reach: "reachable h w1" unfolding w1 by (rule reachable.operate [OF assms(1)])
  have s1: "shown w1 = shown w" using ap(1) store_of_files by (metis shown_def)
  from ap(2) [OF refl] assms(3,4) have d: "off = int (length d)" "disk_ups (w_blobs w1) (u_store u) = Some (d @ content (t_body rq))"
    "int (length (d @ content (t_body rq))) = u_size u" using whole(3) by auto
  note co = disk_files.Complete_upload_content [OF reachable_safe [OF reach] whole(4)]
  show ?thesis
  proof (cases r)
    case (Inl e)
    with co whole(1,5) d writeErr_not_done s1 show ?thesis by (simp add: shown_def)
  next
    case (Inr f)
    with co obtain x b tag mime where x: "upload_of (w_db w1) owner uid = Some x" "disk_ups (w_blobs w1) (u_store x) = Some b"
      "shown w' = put_entry (shown w1) owner (u_path x) (Contents b tag mime)" by (auto simp: shown_def)
    from ap(4) x(1) assms(3) have "u_store x = u_store u" "u_path x = u_path u" by (simp_all add: upload_target_def)
    with x d s1 Inr whole(1,5) show ?thesis by auto
  qed
qed

section \<open>Runs\<close>

definition post :: "int \<Rightarrow> tus_request" where
  "post n = sample_tus\<lparr>t_method := ''POST'', t_url := ''/uploads/'', t_user := Some ''u'', t_length := itoa n,
     t_metadata := print_metadata [(''filename'', ''/files/x.txt'')]\<rparr>"

definition chunk :: "bytes \<Rightarrow> int \<Rightarrow> bytes \<Rightarrow> tus_request" where
  "chunk uid off d = sample_tus\<lparr>t_url := ''/uploads/'' @ uid, t_user := Some ''u'', t_offset := itoa off, t_body := of_bytes d\<rparr>"

abbreviation serve :: "tus_request \<Rightarrow> disk world \<Rightarrow> tus_answer \<times> disk world" where
  "serve \<equiv> tus_Handler ''/uploads/'' ''/files/'' (disk_service plain_hasher)"

lemma post_answer: "fst (serve (post 3) start_world) = \<lparr>a_code = 201,
    a_headers = [(''Tus-Resumable'', ''1.0.0''), (''Location'', ''/uploads/'' @ sample_text 2), (''Upload-Expires'', ''Thu, 01 Jan 1970 12:00:00 GMT'')],
    a_message = []\<rparr>"
  by code_simp

definition begun :: "disk world" where
  "begun = exec (disk_service plain_hasher) (OpBeginUpload ''u'' ''x.txt'' 3 []) start_world"

lemma begun_reachable: "reachable plain_hasher begun"
  unfolding begun_def by (intro reachable.operate reachable.start start_initial)

definition begun_upload :: upload where
  "begun_upload = the (upload_of (w_db begun) ''u'' (sample_text 2))"

lemma begun_seen:
  "(case BeginUpload (disk_service plain_hasher) ''u'' ''x.txt'' 3 [] start_world of (r, w) \<Rightarrow>
      case upload_of (w_db w) ''u'' (sample_text 2) of None \<Rightarrow> None
      | Some u \<Rightarrow> Some (u_size u, u_path u, disk_ups (w_blobs w) (u_store u))) = Some (3, ''x.txt'', Some [])"
  by code_simp

lemma begun_facts: "upload_of (w_db begun) ''u'' (sample_text 2) = Some begun_upload"
  "disk_ups (w_blobs begun) (u_store begun_upload) = Some []" "u_size begun_upload = 3" "u_path begun_upload = ''x.txt''"
proof -
  obtain r where "BeginUpload (disk_service plain_hasher) ''u'' ''x.txt'' 3 [] start_world = (r, begun)"
    by (simp add: begun_def) (metis surj_pair snd_conv)
  with begun_seen show "upload_of (w_db begun) ''u'' (sample_text 2) = Some begun_upload"
    "disk_ups (w_blobs begun) (u_store begun_upload) = Some []" "u_size begun_upload = 3" "u_path begun_upload = ''x.txt''"
    by (auto simp: begun_upload_def split: option.splits)
qed

definition chunk_run :: "tus_answer \<times> disk world" where
  "chunk_run = tus_patch (disk_service plain_hasher) (chunk (sample_text 2) 0 ''abc'') (sample_text 2) begun"

lemma chunk_code: "a_code (fst chunk_run) = 204"
  by code_simp

lemma tus_chunk_witness:
  "\<exists>tag mime. shown (snd chunk_run) ''u'' ''x.txt'' = Some (Contents ''abc'' tag mime)"
proof -
  have user: "t_user (chunk (sample_text 2) 0 ''abc'') = Some ''u''" by (simp add: chunk_def)
  have body: "content (t_body (chunk (sample_text 2) 0 ''abc'')) = ''abc''" by (simp add: chunk_def)
  have "tus_patch (disk_service plain_hasher) (chunk (sample_text 2) 0 ''abc'') (sample_text 2) begun = (fst chunk_run, snd chunk_run)"
    by (simp add: chunk_run_def)
  from tus_chunk [OF begun_reachable user begun_facts(1,2) this] chunk_code
  have "\<exists>tag mime. shown (snd chunk_run) = put_entry (shown begun) ''u'' ''x.txt'' (Contents ''abc'' tag mime)"
    using begun_facts(3,4) by (simp add: body)
  then show ?thesis by (auto simp: put_entry_eq)
qed

definition said :: "tus_answer \<Rightarrow> int \<times> bytes option \<times> bytes option" where
  "said a = (a_code a, map_of (a_headers a) ''Upload-Offset'', map_of (a_headers a) ''Upload-Length'')"

definition overshoot :: "(int \<times> bytes option \<times> bytes option) list \<times> db_file result \<times> row list" where
  "overshoot =
     (case serve (chunk (sample_text 2) 0 ''abcde'') begun of (a1, w1) \<Rightarrow>
      case serve ((chunk (sample_text 2) 0 [])\<lparr>t_method := ''HEAD''\<rparr>) w1 of (a2, w2) \<Rightarrow>
      case serve (chunk (sample_text 2) 5 []) w2 of (a3, w3) \<Rightarrow>
        ([said a1, said a2, said a3], fst (Complete_upload (disk_service plain_hasher) ''u'' (sample_text 2) w3), files (w_db w3)))"

text \<open>
  A chunk that is longer than what is left is taken whole and answered 204, and from then on
  the upload is longer than it said and can never become a file: here three bytes were announced
  and five sent; a client that asks is told offset 5 of 3, an empty chunk there is answered 204
  again, completing it is a conflict, and nothing is at the path.
\<close>
theorem tus_overshoot:
  "overshoot = ([(204, Some ''5'', None), (200, Some ''5'', Some ''3''), (204, Some ''5'', None)], Inl ErrConflict, [])"
  by code_simp

end
