(* ===== verification/IfHeader.thy ===== *)
theory IfHeader
  imports GoText
begin

text \<open>
  \<^verbatim>\<open>internal/dav/ifheader.go\<close>: the \<open>If\<close> header of RFC 4918, a disjunction of lists of
  conditions, each list with an optional resource tag and each condition a lock token or an
  entity tag, optionally negated.
\<close>

section \<open>The lexer\<close>

datatype token_type = ErrToken | EofToken | StrToken | NotToken | AngleToken | SquareToken | RuneToken char

definition blank :: "char \<Rightarrow> bool" where
  "blank c \<longleftrightarrow> c = CHR 0x09 \<or> c = CHR '' ''"

definition delimiter :: "char \<Rightarrow> bool" where
  "delimiter c \<longleftrightarrow> blank c \<or> c \<in> set ''()<>[]''"

definition quoted :: "token_type \<Rightarrow> char \<Rightarrow> bytes \<Rightarrow> token_type \<times> bytes \<times> bytes" where
  "quoted ty close s = (case cut close s of None \<Rightarrow> (ErrToken, [], []) | Some (a, b) \<Rightarrow> (ty, a, b))"

definition lex :: "bytes \<Rightarrow> token_type \<times> bytes \<times> bytes" where
  "lex s0 =
     (let s = dropWhile blank s0 in
      case s of
        [] \<Rightarrow> (EofToken, [], [])
      | c # cs \<Rightarrow>
          (let tokenStr = takeWhile (\<lambda>c. \<not> delimiter c) s; remaining = dropWhile (\<lambda>c. \<not> delimiter c) s
           in if tokenStr \<noteq> [] then
                (if tokenStr = ''Not'' then (NotToken, [], remaining) else (StrToken, tokenStr, remaining))
              else if c = CHR ''<'' then quoted AngleToken (CHR ''>'') cs
              else if c = CHR ''['' then quoted SquareToken (CHR '']'') cs
              else (RuneToken c, [], cs)))"

lemma length_dropWhile: "length (dropWhile P s) \<le> length s"
  by (induction s) auto

lemma lex_shrinks: "lex s = (ty, str, rest) \<Longrightarrow> ty \<noteq> ErrToken \<Longrightarrow> ty \<noteq> EofToken \<Longrightarrow> length rest < length s"
proof -
  assume l: "lex s = (ty, str, rest)" and ty: "ty \<noteq> ErrToken" "ty \<noteq> EofToken"
  show ?thesis
  proof (cases "dropWhile blank s")
    case Nil
    with l ty show ?thesis by (simp add: lex_def)
  next
    case (Cons c cs)
    have "length (c # cs) \<le> length s" using length_dropWhile [of blank s] Cons by simp
    moreover have "length (dropWhile (\<lambda>c. \<not> delimiter c) cs) \<le> length cs" by (rule length_dropWhile)
    moreover have "length rest \<le> length cs"
      using l ty Cons calculation(2) by (auto simp: lex_def Let_def quoted_def dest!: cut_SomeD split: if_splits option.splits)
    ultimately show ?thesis by simp
  qed
qed

section \<open>The parser\<close>

record Condition =
  Not :: bool
  Token :: bytes
  ETag :: bytes

record ifList =
  resourceTag :: bytes
  conditions :: "Condition list"

definition parseCondition :: "bytes \<Rightarrow> (Condition \<times> bytes) option" where
  "parseCondition s0 =
     (let (neg, tokenType, tokenStr, s) =
            (case lex s0 of (NotToken, _, s) \<Rightarrow> (True, lex s) | (ty, str, s) \<Rightarrow> (False, ty, str, s))
      in if tokenType = StrToken \<or> tokenType = AngleToken then Some (\<lparr>Not = neg, Token = tokenStr, ETag = []\<rparr>, s)
         else if tokenType = SquareToken then Some (\<lparr>Not = neg, Token = [], ETag = tokenStr\<rparr>, s)
         else None)"

lemma parseCondition_shrinks: "parseCondition s = Some (c, rest) \<Longrightarrow> length rest < length s"
proof -
  assume p: "parseCondition s = Some (c, rest)"
  obtain ty str t where l: "lex s = (ty, str, t)" by (metis prod.collapse)
  show ?thesis
  proof (cases "ty = NotToken")
    case True
    obtain ty' str' t' where l': "lex t = (ty', str', t')" by (metis prod.collapse)
    then have "length t < length s" using l True lex_shrinks by blast
    moreover have "length rest < length t"
      using p l l' True by (auto simp: parseCondition_def split: if_splits dest!: lex_shrinks)
    ultimately show ?thesis by simp
  next
    case False
    with p l show ?thesis
      by (auto simp: parseCondition_def split: if_splits token_type.splits dest!: lex_shrinks)
  qed
qed

text \<open>The loop of \<open>parseList\<close>, after its opening parenthesis.\<close>

function parse_conditions :: "Condition list \<Rightarrow> bytes \<Rightarrow> (Condition list \<times> bytes) option" where
  "parse_conditions cs s =
     (case lex s of (tokenType, _, remaining) \<Rightarrow>
      if tokenType = RuneToken (CHR '')'') then (if cs = [] then None else Some (cs, remaining))
      else case parseCondition s of None \<Rightarrow> None | Some (c, s') \<Rightarrow> parse_conditions (cs @ [c]) s')"
  by pat_completeness auto
termination
  by (relation "measure (\<lambda>(cs, s). length s)") (auto dest: parseCondition_shrinks)

declare parse_conditions.simps [simp del]

definition parseList :: "bytes \<Rightarrow> (ifList \<times> bytes) option" where
  "parseList s0 =
     (case lex s0 of (tokenType, _, s) \<Rightarrow>
      if tokenType \<noteq> RuneToken (CHR ''('') then None
      else map_option (\<lambda>(cs, remaining). (\<lparr>resourceTag = [], conditions = cs\<rparr>, remaining)) (parse_conditions [] s))"

lemma parse_conditions_shrinks: "parse_conditions cs s = Some (cs', rest) \<Longrightarrow> length rest < length s"
proof (induction cs s rule: parse_conditions.induct)
  case (1 cs s)
  obtain ty str t where l: "lex s = (ty, str, t)" by (metis prod.collapse)
  show ?case
  proof (cases "ty = RuneToken (CHR '')'')")
    case True
    with 1(2) l have "rest = t" by (subst (asm) parse_conditions.simps) (simp split: if_splits)
    with True l lex_shrinks show ?thesis by blast
  next
    case False
    with 1(2) l obtain c s' where "parseCondition s = Some (c, s')" "parse_conditions (cs @ [c]) s' = Some (cs', rest)"
      by (subst (asm) parse_conditions.simps) (auto split: option.splits)
    with 1(1) [OF l [symmetric]] False l parseCondition_shrinks show ?thesis by fastforce
  qed
qed

lemma parseList_shrinks: "parseList s = Some (l, rest) \<Longrightarrow> length rest < length s"
proof -
  assume p: "parseList s = Some (l, rest)"
  obtain ty str t where lx: "lex s = (ty, str, t)" by (metis prod.collapse)
  with p obtain cs where "ty = RuneToken (CHR ''('')" "parse_conditions [] t = Some (cs, rest)"
    by (auto simp: parseList_def split: if_splits)
  with lx parse_conditions_shrinks [of "[]" t] lex_shrinks show ?thesis by fastforce
qed

function parseNoTagLists :: "ifList list \<Rightarrow> bytes \<Rightarrow> ifList list option" where
  "parseNoTagLists h s =
     (case parseList s of
        None \<Rightarrow> None
      | Some (l, remaining) \<Rightarrow> if remaining = [] then Some (h @ [l]) else parseNoTagLists (h @ [l]) remaining)"
  by pat_completeness auto
termination
  by (relation "measure (\<lambda>(h, s). length s)") (auto dest: parseList_shrinks)

declare parseNoTagLists.simps [simp del]

text \<open>\<open>start\<close> is the loop's \<open>first\<close>, \<open>n\<close> the lists seen under the current tag.\<close>

function parseTaggedLists :: "bool \<Rightarrow> bytes \<Rightarrow> nat \<Rightarrow> ifList list \<Rightarrow> bytes \<Rightarrow> ifList list option" where
  "parseTaggedLists start tag n h s =
     (case lex s of (tokenType, tokenStr, remaining) \<Rightarrow>
      if tokenType = AngleToken then
        (if \<not> start \<and> n = 0 then None else parseTaggedLists False tokenStr 0 h remaining)
      else if tokenType = RuneToken (CHR ''('') then
        (case parseList s of
           None \<Rightarrow> None
         | Some (l, remaining') \<Rightarrow>
             (let h' = h @ [l\<lparr>resourceTag := tag\<rparr>]
              in if remaining' = [] then Some h' else parseTaggedLists False tag (Suc n) h' remaining'))
      else None)"
  by pat_completeness auto
termination
  by (relation "measure (\<lambda>(start, tag, n, h, s). length s)") (auto dest: parseList_shrinks dest!: sym [of _ "lex _"] lex_shrinks)

declare parseTaggedLists.simps [simp del]

definition parseIfHeader :: "bytes \<Rightarrow> ifList list option" where
  "parseIfHeader httpHeader =
     (let s = trim_space httpHeader in
      case lex s of (tokenType, _, _) \<Rightarrow>
      if tokenType = RuneToken (CHR ''('') then parseNoTagLists [] s
      else if tokenType = AngleToken then parseTaggedLists True [] 0 [] s
      else None)"

section \<open>Printing and parsing back\<close>

definition print_condition :: "Condition \<Rightarrow> bytes" where
  "print_condition c =
     (if Not c then ''Not '' else []) @
     (if Token c \<noteq> [] then CHR ''<'' # Token c @ ''>'' else CHR ''['' # ETag c @ '']'')"

definition print_list :: "ifList \<Rightarrow> bytes" where
  "print_list l =
     (if resourceTag l = [] then [] else CHR ''<'' # resourceTag l @ ''> '') @
     CHR ''('' # concat (map print_condition (conditions l)) @ '')''"

definition print_header :: "ifList list \<Rightarrow> bytes" where
  "print_header h = concat (map print_list h)"

text \<open>
  The headers there are: at least one list, in each at least one condition with a token or an
  entity tag, and either every list tagged or none.
\<close>

definition printable_condition :: "Condition \<Rightarrow> bool" where
  "printable_condition c \<longleftrightarrow> (Token c = [] \<or> ETag c = []) \<and> CHR ''>'' \<notin> set (Token c) \<and> CHR '']'' \<notin> set (ETag c)"

definition printable_list :: "ifList \<Rightarrow> bool" where
  "printable_list l \<longleftrightarrow> conditions l \<noteq> [] \<and> list_all printable_condition (conditions l) \<and> CHR ''>'' \<notin> set (resourceTag l)"

definition printable :: "ifList list \<Rightarrow> bool" where
  "printable h \<longleftrightarrow> h \<noteq> [] \<and> list_all printable_list h
     \<and> (list_all (\<lambda>l. resourceTag l = []) h \<or> list_all (\<lambda>l. resourceTag l \<noteq> []) h)"

lemma lex_paren [simp]:
  "lex (CHR ''('' # s) = (RuneToken (CHR ''(''), [], s)" "lex (CHR '')'' # s) = (RuneToken (CHR '')''), [], s)"
  by (simp_all add: lex_def delimiter_def blank_def)

lemma lex_blank [simp]: "lex (CHR '' '' # s) = lex s"
  by (simp add: lex_def blank_def)

lemma lex_angle [simp]: "CHR ''>'' \<notin> set t \<Longrightarrow> lex (CHR ''<'' # t @ CHR ''>'' # s) = (AngleToken, t, s)"
  by (simp add: lex_def delimiter_def blank_def quoted_def)

lemma lex_square [simp]: "CHR '']'' \<notin> set t \<Longrightarrow> lex (CHR ''['' # t @ CHR '']'' # s) = (SquareToken, t, s)"
  by (simp add: lex_def delimiter_def blank_def quoted_def)

lemma lex_not [simp]: "lex (CHR ''N'' # CHR ''o'' # CHR ''t'' # CHR '' '' # s) = (NotToken, [], CHR '' '' # s)"
  by (simp add: lex_def delimiter_def blank_def)

lemma parse_print_condition:
  assumes "printable_condition c"
  shows "parseCondition (print_condition c @ s) = Some (c, s)"
    and "fst (lex (print_condition c @ s)) \<noteq> RuneToken (CHR '')'')"
  using assms
  by (cases c; cases "Not c"; cases "Token c = []";
      auto simp: print_condition_def parseCondition_def printable_condition_def)+

lemma parse_print_conditions:
  "list_all printable_condition cs \<Longrightarrow> acc @ cs \<noteq> [] \<Longrightarrow>
   parse_conditions acc (concat (map print_condition cs) @ CHR '')'' # s) = Some (acc @ cs, s)"
proof (induction cs arbitrary: acc)
  case Nil
  then show ?case by (subst parse_conditions.simps) simp
next
  case (Cons c cs)
  let ?s = "concat (map print_condition cs) @ CHR '')'' # s"
  have "parse_conditions acc (print_condition c @ ?s) = parse_conditions (acc @ [c]) ?s"
    using Cons(2) parse_print_condition [of c ?s]
    by (subst parse_conditions.simps) (auto split: prod.splits)
  with Cons show ?case by simp
qed

lemma parse_print_untagged:
  "printable_list l \<Longrightarrow> resourceTag l = [] \<Longrightarrow> parseList (print_list l @ s) = Some (l, s)"
  using parse_print_conditions [of "conditions l" "[]" s]
  by (cases l) (auto simp: parseList_def print_list_def printable_list_def)

lemma print_list_not_Nil [simp]: "print_list l \<noteq> []"
  by (simp add: print_list_def)

lemma parse_print_NoTagLists:
  "h \<noteq> [] \<Longrightarrow> list_all printable_list h \<Longrightarrow> list_all (\<lambda>l. resourceTag l = []) h \<Longrightarrow>
   parseNoTagLists acc (print_header h) = Some (acc @ h)"
proof (induction h arbitrary: acc)
  case (Cons l h)
  then have "parseList (print_list l @ print_header h) = Some (l, print_header h)"
    by (intro parse_print_untagged) simp_all
  moreover have "print_header h = [] \<longleftrightarrow> h = []" by (cases h) (simp_all add: print_header_def)
  moreover have "h \<noteq> [] \<Longrightarrow> parseNoTagLists (acc @ [l]) (print_header h) = Some (acc @ l # h)"
    using Cons by simp
  moreover have "print_header (l # h) = print_list l @ print_header h" by (simp add: print_header_def)
  ultimately show ?case by (subst parseNoTagLists.simps) (cases "h = []"; simp)
qed simp

lemma parse_print_tagged_list:
  assumes "printable_list l" and "resourceTag l \<noteq> []" and "start \<or> n \<noteq> 0"
  shows "parseTaggedLists start tag n h (print_list l @ s) =
    (if s = [] then Some (h @ [l]) else parseTaggedLists False (resourceTag l) (Suc 0) (h @ [l]) s)"
proof -
  let ?u = "l\<lparr>resourceTag := []\<rparr>"
  have u: "printable_list ?u" "resourceTag ?u = []" using assms(1) by (simp_all add: printable_list_def)
  have p: "print_list l @ s = CHR ''<'' # resourceTag l @ CHR ''>'' # CHR '' '' # print_list ?u @ s"
    using assms(2) by (simp add: print_list_def)
  have "parseTaggedLists start tag n h (print_list l @ s)
      = parseTaggedLists False (resourceTag l) 0 h (CHR '' '' # print_list ?u @ s)"
    unfolding p using assms(1,3) by (subst parseTaggedLists.simps) (auto simp: printable_list_def)
  moreover have "parseList (CHR '' '' # print_list ?u @ s) = Some (?u, s)"
    using parse_print_untagged [OF u, of s] by (simp add: parseList_def)
  moreover have "fst (lex (CHR '' '' # print_list ?u @ s)) = RuneToken (CHR ''('')" by (simp add: print_list_def)
  ultimately show ?thesis
    by (subst (asm) (2) parseTaggedLists.simps) (auto split: prod.splits)
qed

lemma parse_print_TaggedLists:
  "h \<noteq> [] \<Longrightarrow> list_all printable_list h \<Longrightarrow> list_all (\<lambda>l. resourceTag l \<noteq> []) h \<Longrightarrow> start \<or> n \<noteq> 0 \<Longrightarrow>
   parseTaggedLists start tag n acc (print_header h) = Some (acc @ h)"
proof (induction h arbitrary: acc start n tag)
  case (Cons l h)
  have "print_header h = [] \<longleftrightarrow> h = []" by (cases h) (simp_all add: print_header_def)
  moreover have "print_header (l # h) = print_list l @ print_header h" by (simp add: print_header_def)
  moreover have "h \<noteq> [] \<Longrightarrow> parseTaggedLists False (resourceTag l) (Suc 0) (acc @ [l]) (print_header h) = Some (acc @ l # h)"
    using Cons by simp
  ultimately show ?case using Cons(2-) parse_print_tagged_list [of l start n tag acc "print_header h"]
    by (cases "h = []") simp_all
qed simp

lemma trim_print: "h \<noteq> [] \<Longrightarrow> trim_space (print_header h) = print_header h"
proof (rule trim_space_id)
  assume h: "h \<noteq> []"
  have "last (print_list l) = CHR '')''" "hd (print_list l @ s) \<in> {CHR ''('', CHR ''<''}" for l s
    by (simp_all add: print_list_def)
  moreover obtain l h' where "h = l # h'" using h by (cases h) auto
  moreover have "last (print_header h) = last (print_list (last h))"
    using h by (cases h rule: rev_cases) (simp_all add: print_header_def)
  ultimately have "last (print_header h) = CHR '')''" "hd (print_header h) \<in> {CHR ''('', CHR ''<''}"
    by (auto simp: print_header_def)
  moreover have "\<not> space_byte (CHR '')'')" "\<not> space_byte (CHR ''('')" "\<not> space_byte (CHR ''<'')" by code_simp+
  ultimately show "print_header h = [] \<or> \<not> space_byte (hd (print_header h)) \<and> \<not> space_byte (last (print_header h))"
    by auto
qed

text \<open>
  C23: The parser reads back every header there is: printing the lists of a header and parsing
  the result gives the lists.
\<close>

theorem if_header_roundtrip:
  assumes "printable h"
  shows "parseIfHeader (print_header h) = Some h"
proof (cases "list_all (\<lambda>l. resourceTag l = []) h")
  case True
  then obtain l h' where "h = l # h'" "resourceTag l = []" using assms by (cases h) (auto simp: printable_def)
  then have "fst (lex (print_header h)) = RuneToken (CHR ''('')" by (simp add: print_header_def print_list_def)
  with assms True show ?thesis
    by (auto simp: parseIfHeader_def Let_def trim_print printable_def parse_print_NoTagLists split: prod.splits)
next
  case False
  with assms have t: "list_all (\<lambda>l. resourceTag l \<noteq> []) h" by (simp add: printable_def)
  then obtain l h' where l: "h = l # h'" "resourceTag l \<noteq> []" using assms by (cases h) (auto simp: printable_def)
  with assms have "fst (lex (print_header h)) = AngleToken"
    by (simp add: print_header_def print_list_def printable_def printable_list_def)
  with assms t show ?thesis
    by (auto simp: parseIfHeader_def Let_def trim_print printable_def parse_print_TaggedLists split: prod.splits)
qed

theorem if_header_roundtrip_witness:
  "parseIfHeader ''<http://h/a> (<urn:x>Not [W])'' =
     Some [\<lparr>resourceTag = ''http://h/a'', conditions =
       [\<lparr>Not = False, Token = ''urn:x'', ETag = []\<rparr>, \<lparr>Not = True, Token = [], ETag = ''W''\<rparr>]\<rparr>]"
proof -
  let ?h = "[\<lparr>resourceTag = ''http://h/a'', conditions =
       [\<lparr>Not = False, Token = ''urn:x'', ETag = []\<rparr>, \<lparr>Not = True, Token = [], ETag = ''W''\<rparr>]\<rparr>]"
  have "printable ?h" by (simp add: printable_def printable_list_def printable_condition_def)
  moreover have "print_header ?h = ''<http://h/a> (<urn:x>Not [W])''"
    by (simp add: print_header_def print_list_def print_condition_def)
  ultimately show ?thesis using if_header_roundtrip [of ?h] by (simp only:)
qed

end
