(* ===== verification/Locks.thy ===== *)
theory Locks
  imports IfHeader FilesService
begin

text \<open>
  \<^verbatim>\<open>internal/dav/locks.go\<close> and \<^verbatim>\<open>memlocks.go\<close>: which writes a lock stops.  The storage of the
  locks is the \<open>LockSystem\<close> of \<^verbatim>\<open>golang.org/x/net/webdav\<close>, which is not part of this
  repository: it is an argument, a record of its four methods over a state of any type.  So is
  the reading of a URL by \<^verbatim>\<open>net/url\<close>, a function from a URL to its host and its path.
\<close>

section \<open>The lock system\<close>

datatype lock_error = ErrLocked | ErrLockForbidden | ErrNoSuchLock | ErrConfirmationFailed | LockFailure

record LockDetails =
  l_root :: bytes
  l_duration :: int
  l_owner :: bytes
  l_zero_depth :: bool

text \<open>The release a confirmation hands out is a function on the state.\<close>

record 'l xnet =
  x_create :: "int \<Rightarrow> LockDetails \<Rightarrow> 'l \<Rightarrow> (lock_error + bytes) \<times> 'l"
  x_refresh :: "int \<Rightarrow> bytes \<Rightarrow> int \<Rightarrow> 'l \<Rightarrow> (lock_error + LockDetails) \<times> 'l"
  x_unlock :: "int \<Rightarrow> bytes \<Rightarrow> 'l \<Rightarrow> lock_error option \<times> 'l"
  x_confirm :: "int \<Rightarrow> bytes \<Rightarrow> bytes \<Rightarrow> Condition list \<Rightarrow> 'l \<Rightarrow> (lock_error + ('l \<Rightarrow> 'l)) \<times> 'l"

record 'l lockSystem = "'l xnet" +
  ls_covers :: "int \<Rightarrow> bytes \<Rightarrow> bytes \<Rightarrow> 'l \<Rightarrow> bool \<times> 'l"

definition mem_Create :: "'l xnet \<Rightarrow> int \<Rightarrow> LockDetails \<Rightarrow> 'l \<Rightarrow> (lock_error + bytes) \<times> 'l" where
  "mem_Create x at details l = (if l_duration details \<le> 0 then (Inl ErrLockForbidden, l) else x_create x at details l)"

definition mem_Covers :: "'l xnet \<Rightarrow> int \<Rightarrow> bytes \<Rightarrow> bytes \<Rightarrow> 'l \<Rightarrow> bool \<times> 'l" where
  "mem_Covers x at token name l =
     (if token = [] \<or> name = [] then (False, l)
      else case x_confirm x at name [] [\<lparr>Not = False, Token = token, ETag = []\<rparr>] l of
             (Inl _, l') \<Rightarrow> (False, l')
           | (Inr release, l') \<Rightarrow> (True, release l'))"

definition memLocks :: "'l xnet \<Rightarrow> 'l lockSystem" where
  "memLocks x = \<lparr>x_create = mem_Create x, x_refresh = x_refresh x, x_unlock = x_unlock x, x_confirm = x_confirm x,
     ls_covers = mem_Covers x\<rparr>"

definition lockURIScheme :: bytes where
  "lockURIScheme = ''opaquelocktoken:''"

definition innerToken :: "bytes \<Rightarrow> bytes" where
  "innerToken token = (case cut_prefix token lockURIScheme of None \<Rightarrow> [] | Some rest \<Rightarrow> rest)"

definition opaque_Create :: "'l lockSystem \<Rightarrow> int \<Rightarrow> LockDetails \<Rightarrow> 'l \<Rightarrow> (lock_error + bytes) \<times> 'l" where
  "opaque_Create o' at details l =
     (case x_create o' at details l of
        (Inl e, l') \<Rightarrow> (Inl e, l') | (Inr token, l') \<Rightarrow> (Inr (lockURIScheme @ token), l'))"

definition opaque_Confirm ::
  "'l lockSystem \<Rightarrow> int \<Rightarrow> bytes \<Rightarrow> bytes \<Rightarrow> Condition list \<Rightarrow> 'l \<Rightarrow> (lock_error + ('l \<Rightarrow> 'l)) \<times> 'l" where
  "opaque_Confirm o' at name0 name1 cs =
     x_confirm o' at name0 name1 (map (\<lambda>c. c\<lparr>Token := innerToken (Token c)\<rparr>) cs)"

definition withOpaqueTokens :: "'l lockSystem \<Rightarrow> 'l lockSystem" where
  "withOpaqueTokens o' =
     \<lparr>x_create = opaque_Create o',
      x_refresh = (\<lambda>at token. x_refresh o' at (innerToken token)),
      x_unlock = (\<lambda>at token. x_unlock o' at (innerToken token)),
      x_confirm = opaque_Confirm o',
      ls_covers = (\<lambda>at token. ls_covers o' at (innerToken token))\<rparr>"

definition MemoryLocks :: "'l xnet \<Rightarrow> 'l lockSystem" where
  "MemoryLocks x = withOpaqueTokens (memLocks x)"

section \<open>Paths\<close>

text \<open>An error of the WebDAV layer is the status it is answered with.\<close>

definition toPath :: "bytes \<Rightarrow> nat + bytes" where
  "toPath name =
     (let p = trim_char slash (path_clean (slash # name)) in
      if p = [] then Inr []
      else case ValidatePath p of Inl _ \<Rightarrow> Inl 400 | Inr _ \<Rightarrow> Inr p)"

text \<open>
  \<open>fileSystem\<close>: the service behind it, the prefix it is mounted under, and what it calls outside
  the repository.
\<close>

record ('s, 'l) fileSystem =
  fs_files :: "'s service"
  fs_prefix :: bytes
  fs_locks :: "'l lockSystem"
  fs_parse_url :: "bytes \<Rightarrow> (bytes \<times> bytes) option"
  fs_mime_type :: "bytes \<Rightarrow> bytes"
  fs_unmarshal_lock :: "bytes \<Rightarrow> (bool \<times> bytes) option"

definition destPath :: "('s, 'l) fileSystem \<Rightarrow> bytes \<Rightarrow> nat + bytes" where
  "destPath f dest =
     (let p = (case fs_parse_url f dest of Some (_, path) \<Rightarrow> path | None \<Rightarrow> dest);
          trimmed = trim_prefix (path_clean (slash # p)) (fs_prefix f)
      in if trimmed = p \<and> fs_prefix f \<noteq> [] then Inl 502 else toPath trimmed)"

definition lockName :: "bytes \<Rightarrow> bytes" where
  "lockName p = slash # p"

definition lock_covers :: "bytes \<Rightarrow> bytes \<Rightarrow> bool" where
  "lock_covers name target =
     (if target = [] then False else if name = target \<or> name = ''/'' then True
      else has_prefix target (name @ ''/''))"

section \<open>Requests\<close>

record dav_request =
  d_method :: bytes
  d_user :: "bytes option"
  d_path :: bytes
  d_host :: bytes
  d_if :: bytes
  d_destination :: bytes
  d_lock_token :: bytes
  d_depth :: bytes
  d_body :: reader

definition dav_owner :: "dav_request \<Rightarrow> nat + bytes" where
  "dav_owner r = (case d_user r of Some u \<Rightarrow> if u \<noteq> [] then Inr u else Inl 401 | None \<Rightarrow> Inl 401)"

definition lockedMethods :: "bytes list" where
  "lockedMethods = [''PUT'', ''DELETE'', ''MKCOL'', ''MOVE'', ''COPY'', ''PROPPATCH'']"

definition lockedPaths :: "('s, 'l) fileSystem \<Rightarrow> dav_request \<Rightarrow> (bytes \<times> bytes) option" where
  "lockedPaths f r =
     (case toPath (d_path r) of
        Inl _ \<Rightarrow> None
      | Inr p \<Rightarrow>
          (let src = (if d_method r = ''COPY'' then [] else lockName p) in
           if d_method r = ''MOVE'' \<or> d_method r = ''COPY'' then
             (case destPath f (d_destination r) of Inl _ \<Rightarrow> None | Inr to \<Rightarrow> Some (src, lockName to))
           else Some (src, [])))"

definition tagged :: "('s, 'l) fileSystem \<Rightarrow> dav_request \<Rightarrow> bytes \<Rightarrow> bytes \<Rightarrow> bytes \<Rightarrow> bytes option" where
  "tagged f r tag src dst =
     (case fs_parse_url f tag of
        None \<Rightarrow> None
      | Some (host, path) \<Rightarrow>
          if host \<noteq> [] \<and> host \<noteq> d_host r then None
          else case toPath (trim_prefix path (fs_prefix f)) of
                 Inl _ \<Rightarrow> None
               | Inr p \<Rightarrow>
                   (let name = lockName p
                    in if \<not> lock_covers name src \<and> \<not> lock_covers name dst then None else Some name))"

section \<open>Taking and confirming locks\<close>

definition lockStatus :: "lock_error \<Rightarrow> nat" where
  "lockStatus e = (case e of ErrLocked \<Rightarrow> 423 | ErrLockForbidden \<Rightarrow> 403 | ErrNoSuchLock \<Rightarrow> 412 | _ \<Rightarrow> 500)"

definition briefLock :: int where
  "briefLock = 60000000000"

definition holdBriefly :: "'l lockSystem \<Rightarrow> int \<Rightarrow> bytes \<Rightarrow> 'l \<Rightarrow> (lock_error + bytes) \<times> 'l" where
  "holdBriefly ls at path =
     x_create ls at \<lparr>l_root = path, l_duration = briefLock, l_owner = [], l_zero_depth = True\<rparr>"

definition unlock_quietly :: "'l lockSystem \<Rightarrow> int \<Rightarrow> bytes \<Rightarrow> 'l \<Rightarrow> 'l" where
  "unlock_quietly ls at token l = (if token = [] then l else snd (x_unlock ls at token l))"

text \<open>A name that is not there is not held, and has the empty token.\<close>

definition hold_if :: "'l lockSystem \<Rightarrow> int \<Rightarrow> bytes \<Rightarrow> 'l \<Rightarrow> (lock_error + bytes) \<times> 'l" where
  "hold_if ls at path l = (if path = [] then (Inr [], l) else holdBriefly ls at path l)"

definition lockForTheRequest :: "'l lockSystem \<Rightarrow> int \<Rightarrow> bytes \<Rightarrow> bytes \<Rightarrow> 'l \<Rightarrow> (nat + ('l \<Rightarrow> 'l)) \<times> 'l" where
  "lockForTheRequest ls at src dst l =
     (case hold_if ls at src l of
        (Inl e, l1) \<Rightarrow> (Inl (lockStatus e), l1)
      | (Inr srcToken, l1) \<Rightarrow>
          (case hold_if ls at dst l1 of
             (Inl e, l2) \<Rightarrow> (Inl (lockStatus e), unlock_quietly ls at srcToken l2)
           | (Inr dstToken, l2) \<Rightarrow>
               (Inr (\<lambda>m. unlock_quietly ls at srcToken (unlock_quietly ls at dstToken m)), l2)))"

definition claimOneHoldTheOther ::
  "'l lockSystem \<Rightarrow> int \<Rightarrow> bytes \<Rightarrow> bytes \<Rightarrow> Condition list \<Rightarrow> 'l \<Rightarrow> ('l \<Rightarrow> 'l) option \<times> 'l" where
  "claimOneHoldTheOther ls at claimed free cs l =
     (case x_confirm ls at claimed [] cs l of
        (Inl _, l1) \<Rightarrow> (None, l1)
      | (Inr release, l1) \<Rightarrow>
          (case holdBriefly ls at free l1 of
             (Inl _, l2) \<Rightarrow> (None, release l2)
           | (Inr token, l2) \<Rightarrow> (Some (\<lambda>m. release (snd (x_unlock ls at token m))), l2)))"

definition claimTouched ::
  "'l lockSystem \<Rightarrow> int \<Rightarrow> bytes \<Rightarrow> bytes \<Rightarrow> Condition list \<Rightarrow> 'l \<Rightarrow> (lock_error + ('l \<Rightarrow> 'l)) \<times> 'l" where
  "claimTouched ls at src dst cs l =
     (case x_confirm ls at src dst cs l of
        (Inr release, l1) \<Rightarrow> (Inr release, l1)
      | (Inl e, l1) \<Rightarrow>
          if e \<noteq> ErrConfirmationFailed \<or> dst = [] then (Inl e, l1)
          else case claimOneHoldTheOther ls at src dst cs l1 of
            (Some release, l2) \<Rightarrow> (Inr release, l2)
          | (None, l2) \<Rightarrow>
              if src = [] then (Inl ErrConfirmationFailed, l2)
              else case claimOneHoldTheOther ls at dst src cs l2 of
                (Some release, l3) \<Rightarrow> (Inr release, l3)
              | (None, l3) \<Rightarrow> (Inl ErrConfirmationFailed, l3))"

definition claimable :: "Condition list \<Rightarrow> Condition list" where
  "claimable cs = filter (\<lambda>c. Token c \<noteq> [] \<and> \<not> Not c) cs"

definition etagIs :: "dav_request \<Rightarrow> bytes \<Rightarrow> bytes \<Rightarrow> 's world \<Rightarrow> bool \<times> 's world" where
  "etagIs r name tag w =
     (case dav_owner r of
        Inl _ \<Rightarrow> (False, w)
      | Inr owner \<Rightarrow>
          (case Stat_file owner (trim_prefix name ''/'') w of
             (Inl _, w') \<Rightarrow> (False, w')
           | (Inr file, w') \<Rightarrow> (f_etag file \<noteq> [] \<and> unquote tag = Some (f_etag file), w')))"

fun holds_all :: "'l lockSystem \<Rightarrow> dav_request \<Rightarrow> int \<Rightarrow> bytes \<Rightarrow> Condition list \<Rightarrow> 's world \<times> 'l \<Rightarrow> bool \<times> 's world \<times> 'l" where
  "holds_all ls r at name [] st = (True, st)"
| "holds_all ls r at name (c # cs) (w, l) =
     (if Token c = [] \<and> ETag c = [] then (False, (w, l))
      else case (if Token c \<noteq> [] then (case ls_covers ls at (Token c) name l of (ok, l') \<Rightarrow> (ok, (w, l')))
                 else (case etagIs r name (ETag c) w of (ok, w') \<Rightarrow> (ok, (w', l)))) of
        (ok, st) \<Rightarrow> if ok = Not c then (False, st) else holds_all ls r at name cs st)"

text \<open>The loop of \<open>confirmLocks\<close> over the lists of the header.\<close>

fun confirm_lists ::
  "('s, 'l) fileSystem \<Rightarrow> dav_request \<Rightarrow> int \<Rightarrow> bytes \<Rightarrow> bytes \<Rightarrow> bytes \<Rightarrow> ifList list \<Rightarrow>
   's world \<times> 'l \<Rightarrow> (nat + ('l \<Rightarrow> 'l)) \<times> 's world \<times> 'l" where
  "confirm_lists f r at requested src dst [] st = (Inl 412, st)"
| "confirm_lists f r at requested src dst (lst # rest) (w, l) =
     (case (if resourceTag lst \<noteq> [] then tagged f r (resourceTag lst) src dst else Some requested) of
        None \<Rightarrow> confirm_lists f r at requested src dst rest (w, l)
      | Some about \<Rightarrow>
          (case holds_all (fs_locks f) r at about (conditions lst) (w, l) of
             (False, st) \<Rightarrow> confirm_lists f r at requested src dst rest st
           | (True, (w1, l1)) \<Rightarrow>
               (case claimTouched (fs_locks f) at src dst (claimable (conditions lst)) l1 of
                  (Inr release, l2) \<Rightarrow> (Inr release, (w1, l2))
                | (Inl e, l2) \<Rightarrow>
                    if e \<noteq> ErrConfirmationFailed then (Inl 500, (w1, l2))
                    else case lockForTheRequest (fs_locks f) at src dst l2 of
                      (Inr release, l3) \<Rightarrow> (Inr release, (w1, l3))
                    | (Inl _, l3) \<Rightarrow> confirm_lists f r at requested src dst rest (w1, l3))))"

definition confirmLocks ::
  "('s, 'l) fileSystem \<Rightarrow> dav_request \<Rightarrow> bytes \<Rightarrow> bytes \<Rightarrow> 's world \<times> 'l \<Rightarrow> (nat + ('l \<Rightarrow> 'l)) \<times> 's world \<times> 'l" where
  "confirmLocks f r src dst st =
     (case st of (w, l) \<Rightarrow>
      let at = now (w_env w) in
      if d_if r = [] then (case lockForTheRequest (fs_locks f) at src dst l of (x, l') \<Rightarrow> (x, (w, l')))
      else case parseIfHeader (d_if r) of
        None \<Rightarrow> (Inl 400, (w, l))
      | Some parsed \<Rightarrow>
          (let requested = (case toPath (d_path r) of Inr p \<Rightarrow> lockName p | Inl _ \<Rightarrow> src)
           in confirm_lists f r at requested src dst parsed (w, l)))"

text \<open>\<open>enforceLocks\<close> around a handler: its answer, and what it did.\<close>

definition enforceLocks ::
  "('s, 'l) fileSystem \<Rightarrow> (dav_request \<Rightarrow> ('s world \<Rightarrow> nat \<times> 's world)) \<Rightarrow> dav_request \<Rightarrow>
   's world \<times> 'l \<Rightarrow> nat \<times> 's world \<times> 'l" where
  "enforceLocks f handler r st =
     (let serve = (\<lambda>(w, l). case handler r w of (status, w') \<Rightarrow> (status, (w', l))) in
      if d_method r \<notin> set lockedMethods then serve st
      else case dav_owner r of
        Inl _ \<Rightarrow> serve st
      | Inr _ \<Rightarrow>
          (case lockedPaths f r of
             None \<Rightarrow> serve st
           | Some (src, dst) \<Rightarrow>
               (case confirmLocks f r src dst st of
                  (Inl status, st') \<Rightarrow> (status, st')
                | (Inr release, st') \<Rightarrow>
                    (case serve st' of (status, (w, l)) \<Rightarrow> (status, (w, release l))))))"

section \<open>What a lock stops\<close>

text \<open>
  A live lock as the documentation of \<^verbatim>\<open>x/net/webdav\<close> describes one, the names it guards, and
  the promises of a \<open>LockSystem\<close> this package relies on: no two live locks guard one name; a
  lock is granted only where none stands, under a token no other has; unlocking takes away the
  lock of that token at most; and a confirmation takes none away, and succeeds only when every
  name it was given is guarded by a lock one of the conditions names.
\<close>

record lock_view =
  v_token :: bytes
  v_root :: bytes
  v_zero :: bool

definition guards :: "lock_view \<Rightarrow> bytes \<Rightarrow> bool" where
  "guards k n \<longleftrightarrow> v_root k = n \<or> \<not> v_zero k \<and> lock_covers (v_root k) n"

definition granted :: "bytes \<Rightarrow> LockDetails \<Rightarrow> lock_view" where
  "granted token d = \<lparr>v_token = token, v_root = l_root d, v_zero = l_zero_depth d\<rparr>"

definition view_laws :: "('l \<Rightarrow> bool) \<Rightarrow> ('l \<Rightarrow> int \<Rightarrow> lock_view set) \<Rightarrow> bool" where
  "view_laws good live \<longleftrightarrow> (\<forall>l at. good l \<longrightarrow>
     (\<forall>k\<in>live l at. v_token k \<noteq> []) \<and>
     (\<forall>k\<in>live l at. \<forall>k'\<in>live l at. \<forall>n. guards k n \<longrightarrow> guards k' n \<longrightarrow> k = k'))"

definition create_law :: "('l, 'z) xnet_scheme \<Rightarrow> ('l \<Rightarrow> bool) \<Rightarrow> ('l \<Rightarrow> int \<Rightarrow> lock_view set) \<Rightarrow> bool" where
  "create_law x good live \<longleftrightarrow> (\<forall>at d l r l'. good l \<longrightarrow> x_create x at d l = (r, l') \<longrightarrow> good l' \<and>
     (case r of
        Inl _ \<Rightarrow> live l' at = live l at
      | Inr token \<Rightarrow> token \<noteq> [] \<and> (\<forall>k\<in>live l at. \<not> guards k (l_root d) \<and> v_token k \<noteq> token)
                     \<and> live l' at = insert (granted token d) (live l at)))"

definition unlock_law :: "('l, 'z) xnet_scheme \<Rightarrow> ('l \<Rightarrow> bool) \<Rightarrow> ('l \<Rightarrow> int \<Rightarrow> lock_view set) \<Rightarrow> bool" where
  "unlock_law x good live \<longleftrightarrow> (\<forall>at token l e l'. good l \<longrightarrow> x_unlock x at token l = (e, l') \<longrightarrow>
     good l' \<and> {k \<in> live l at. v_token k \<noteq> token} \<subseteq> live l' at)"

definition confirm_law :: "('l, 'z) xnet_scheme \<Rightarrow> ('l \<Rightarrow> bool) \<Rightarrow> ('l \<Rightarrow> int \<Rightarrow> lock_view set) \<Rightarrow> bool" where
  "confirm_law x good live \<longleftrightarrow> (\<forall>at n0 n1 cs l r l'. good l \<longrightarrow> x_confirm x at n0 n1 cs l = (r, l') \<longrightarrow>
     good l' \<and> live l at \<subseteq> live l' at \<and>
     (case r of
        Inl _ \<Rightarrow> True
      | Inr release \<Rightarrow>
          (\<forall>m. good m \<longrightarrow> good (release m) \<and> live m at \<subseteq> live (release m) at) \<and>
          (\<forall>n\<in>{n0, n1} - {[]}. \<exists>k\<in>live l at. guards k n \<and> v_token k \<in> Token ` set cs)))"

definition lock_laws :: "('l, 'z) xnet_scheme \<Rightarrow> ('l \<Rightarrow> bool) \<Rightarrow> ('l \<Rightarrow> int \<Rightarrow> lock_view set) \<Rightarrow> bool" where
  "lock_laws x good live \<longleftrightarrow> view_laws good live \<and> create_law x good live \<and> unlock_law x good live \<and> confirm_law x good live"

lemma create_any:
  "lock_laws x good live \<Longrightarrow> good l \<Longrightarrow> x_create x at d l = (r, l') \<Longrightarrow> good l' \<and>
     (case r of
        Inl _ \<Rightarrow> live l' at = live l at
      | Inr token \<Rightarrow> token \<noteq> [] \<and> (\<forall>k\<in>live l at. \<not> guards k (l_root d) \<and> v_token k \<noteq> token)
                     \<and> live l' at = insert (granted token d) (live l at))"
  unfolding lock_laws_def create_law_def by blast

lemma create_err: "lock_laws x good live \<Longrightarrow> good l \<Longrightarrow> x_create x at d l = (Inl e, l') \<Longrightarrow>
    good l' \<and> live l' at = live l at"
  and create_ok: "lock_laws x good live \<Longrightarrow> good l \<Longrightarrow> x_create x at d l = (Inr token, l') \<Longrightarrow>
    good l' \<and> token \<noteq> [] \<and> (\<forall>k\<in>live l at. \<not> guards k (l_root d) \<and> v_token k \<noteq> token)
    \<and> live l' at = insert (granted token d) (live l at)"
  by (drule (2) create_any, simp)+

lemma confirm_all: "lock_laws x good live \<Longrightarrow> good l \<Longrightarrow> x_confirm x at n0 n1 cs l = (r, l') \<Longrightarrow>
     good l' \<and> live l at \<subseteq> live l' at \<and>
     (case r of
        Inl _ \<Rightarrow> True
      | Inr release \<Rightarrow>
          (\<forall>m. good m \<longrightarrow> good (release m) \<and> live m at \<subseteq> live (release m) at) \<and>
          (\<forall>n\<in>{n0, n1} - {[]}. \<exists>k\<in>live l at. guards k n \<and> v_token k \<in> Token ` set cs))"
  unfolding lock_laws_def confirm_law_def by blast

lemma confirm_any: "lock_laws x good live \<Longrightarrow> good l \<Longrightarrow> x_confirm x at n0 n1 cs l = (r, l') \<Longrightarrow>
    good l' \<and> live l at \<subseteq> live l' at"
  and confirm_ok: "lock_laws x good live \<Longrightarrow> good l \<Longrightarrow> x_confirm x at n0 n1 cs l = (Inr release, l') \<Longrightarrow>
    (\<forall>m. good m \<longrightarrow> good (release m) \<and> live m at \<subseteq> live (release m) at) \<and>
    (\<forall>n\<in>{n0, n1} - {[]}. \<exists>k\<in>live l at. guards k n \<and> v_token k \<in> Token ` set cs)"
  by (drule (2) confirm_all, simp)+

lemma unlock_any: "lock_laws x good live \<Longrightarrow> good l \<Longrightarrow> x_unlock x at token l = (e, l') \<Longrightarrow>
    good l' \<and> {k \<in> live l at. v_token k \<noteq> token} \<subseteq> live l' at"
  unfolding lock_laws_def unlock_law_def by metis

lemma exclusive: "lock_laws x good live \<Longrightarrow> good l \<Longrightarrow> k \<in> live l at \<Longrightarrow> k' \<in> live l at \<Longrightarrow>
    guards k n \<Longrightarrow> guards k' n \<Longrightarrow> k = k'"
  unfolding lock_laws_def view_laws_def by metis

subsection \<open>The tokens a client sees\<close>

definition outer :: "lock_view \<Rightarrow> lock_view" where
  "outer k = k\<lparr>v_token := lockURIScheme @ v_token k\<rparr>"

definition outer_live :: "('l \<Rightarrow> int \<Rightarrow> lock_view set) \<Rightarrow> 'l \<Rightarrow> int \<Rightarrow> lock_view set" where
  "outer_live live l at = outer ` live l at"

lemma guards_outer [simp]: "guards (outer k) n = guards k n"
  by (simp add: guards_def outer_def)

lemma v_token_outer [simp]: "v_token (outer k) = lockURIScheme @ v_token k"
  by (simp add: outer_def)

lemma inner_outer [simp]: "innerToken (lockURIScheme @ t) = t"
  by (simp add: innerToken_def)

lemma innerToken_eq: "innerToken s = t \<Longrightarrow> t \<noteq> [] \<Longrightarrow> s = lockURIScheme @ t"
  by (auto simp: innerToken_def cut_prefix_Some_iff split: option.splits)

lemma MemoryLocks_laws:
  assumes laws: "lock_laws x good live"
  shows "lock_laws (MemoryLocks x) good (outer_live live)"
  unfolding lock_laws_def
proof (intro conjI)
  show "view_laws good (outer_live live)"
    using laws by (fastforce simp: lock_laws_def view_laws_def outer_live_def)
  show "create_law (MemoryLocks x) good (outer_live live)"
    unfolding create_law_def
  proof (intro allI impI)
    fix at d l r l' assume g: "good l" and c: "x_create (MemoryLocks x) at d l = (r, l')"
    show "good l' \<and> (case r of Inl _ \<Rightarrow> outer_live live l' at = outer_live live l at
      | Inr token \<Rightarrow> token \<noteq> [] \<and> (\<forall>k\<in>outer_live live l at. \<not> guards k (l_root d) \<and> v_token k \<noteq> token)
          \<and> outer_live live l' at = insert (granted token d) (outer_live live l at))"
    proof (cases "l_duration d \<le> 0")
      case True
      with c g show ?thesis by (auto simp: MemoryLocks_def withOpaqueTokens_def memLocks_def opaque_Create_def mem_Create_def)
    next
      case False
      obtain r0 where r0: "x_create x at d l = (r0, l')" and r: "r = map_sum id (\<lambda>t. lockURIScheme @ t) r0"
        using c False by (cases "x_create x at d l")
          (auto simp: MemoryLocks_def withOpaqueTokens_def memLocks_def opaque_Create_def mem_Create_def split: sum.splits)
      show ?thesis
      proof (cases r0)
        case (Inl e)
        with create_err [OF laws g] r0 r show ?thesis by (auto simp: outer_live_def)
      next
        case (Inr t)
        have "outer (granted t d) = granted (lockURIScheme @ t) d" by (simp add: outer_def granted_def)
        with create_ok [OF laws g r0 [unfolded Inr]] Inr r show ?thesis by (auto simp: outer_live_def)
      qed
    qed
  qed
  show "unlock_law (MemoryLocks x) good (outer_live live)"
    unfolding unlock_law_def
  proof (intro allI impI)
    fix at token l e l' assume "good l" "x_unlock (MemoryLocks x) at token l = (e, l')"
    then have u: "good l'" "{k \<in> live l at. v_token k \<noteq> innerToken token} \<subseteq> live l' at"
      using unlock_any [OF laws] by (auto simp: MemoryLocks_def withOpaqueTokens_def memLocks_def)
    moreover have "v_token k = innerToken token \<Longrightarrow> k \<in> live l at \<Longrightarrow> v_token (outer k) = token" for k
    proof -
      assume k: "v_token k = innerToken token" "k \<in> live l at"
      then have "v_token k \<noteq> []" using laws \<open>good l\<close> by (auto simp: lock_laws_def view_laws_def)
      with k innerToken_eq [of token "v_token k"] show ?thesis by simp
    qed
    ultimately show "good l' \<and> {k \<in> outer_live live l at. v_token k \<noteq> token} \<subseteq> outer_live live l' at"
      by (force simp: outer_live_def)
  qed
  show "confirm_law (MemoryLocks x) good (outer_live live)"
    unfolding confirm_law_def
  proof (intro allI impI)
    fix at n0 n1 and cs :: "Condition list" and l r l'
    let ?cs = "map (\<lambda>c. c\<lparr>Token := innerToken (Token c)\<rparr>) cs"
    assume g: "good l" and "x_confirm (MemoryLocks x) at n0 n1 cs l = (r, l')"
    then have c: "x_confirm x at n0 n1 ?cs l = (r, l')"
      by (simp add: MemoryLocks_def withOpaqueTokens_def memLocks_def opaque_Confirm_def)
    have "\<exists>k\<in>outer_live live l at. guards k n \<and> v_token k \<in> Token ` set cs"
      if "\<exists>k\<in>live l at. guards k n \<and> v_token k \<in> Token ` set ?cs" for n
    proof -
      from that obtain k c where k: "k \<in> live l at" "guards k n" "c \<in> set cs" "innerToken (Token c) = v_token k" by auto
      moreover have "v_token k \<noteq> []" using laws g k by (auto simp: lock_laws_def view_laws_def)
      ultimately have "Token c = lockURIScheme @ v_token k" by (intro innerToken_eq)
      with k show ?thesis by (intro bexI [of _ "outer k"]) (auto simp: outer_live_def intro!: image_eqI [of _ _ c])
    qed
    moreover have "good l'" "outer_live live l at \<subseteq> outer_live live l' at"
      using confirm_any [OF laws g c] by (auto simp: outer_live_def)
    moreover have "(\<forall>m. good m \<longrightarrow> good (release m) \<and> outer_live live m at \<subseteq> outer_live live (release m) at) \<and>
          (\<forall>n\<in>{n0, n1} - {[]}. \<exists>k\<in>live l at. guards k n \<and> v_token k \<in> Token ` set ?cs)" if "r = Inr release" for release
      using confirm_ok [OF laws g c [unfolded that]] by (auto simp: outer_live_def)
    ultimately show "good l' \<and> outer_live live l at \<subseteq> outer_live live l' at \<and>
      (case r of Inl _ \<Rightarrow> True | Inr release \<Rightarrow>
        (\<forall>m. good m \<longrightarrow> good (release m) \<and> outer_live live m at \<subseteq> outer_live live (release m) at) \<and>
        (\<forall>n\<in>{n0, n1} - {[]}. \<exists>k\<in>outer_live live l at. guards k n \<and> v_token k \<in> Token ` set cs))"
      by (cases r) auto
  qed
qed

subsection \<open>A write that is let through\<close>

definition ahead :: "('l \<Rightarrow> bool) \<Rightarrow> ('l \<Rightarrow> int \<Rightarrow> lock_view set) \<Rightarrow> int \<Rightarrow> 'l \<Rightarrow> 'l \<Rightarrow> bool" where
  "ahead good live at l l' \<longleftrightarrow> good l \<longrightarrow> good l' \<and> live l at \<subseteq> live l' at"

lemma ahead_refl [simp]: "ahead good live at l l"
  and ahead_trans: "ahead good live at l m \<Longrightarrow> ahead good live at m n \<Longrightarrow> ahead good live at l n"
  by (auto simp: ahead_def)

text \<open>Nobody guards the name but with a token of the set.\<close>

definition free_for :: "('l \<Rightarrow> int \<Rightarrow> lock_view set) \<Rightarrow> int \<Rightarrow> bytes set \<Rightarrow> 'l \<Rightarrow> bytes \<Rightarrow> bool" where
  "free_for live at T l n \<longleftrightarrow> (n \<noteq> [] \<longrightarrow> (\<forall>k\<in>live l at. guards k n \<longrightarrow> v_token k \<in> T))"

lemma free_for_ahead: "free_for live at T m n \<Longrightarrow> good l \<Longrightarrow> ahead good live at l m \<Longrightarrow> free_for live at T l n"
  by (auto simp: free_for_def ahead_def)

lemma free_for_mono: "free_for live at T l n \<Longrightarrow> T \<subseteq> T' \<Longrightarrow> free_for live at T' l n"
  by (auto simp: free_for_def)

lemma confirm_ahead: "lock_laws x good live \<Longrightarrow> x_confirm x at n0 n1 cs l = (r, l') \<Longrightarrow> ahead good live at l l'"
  by (auto simp: ahead_def dest: confirm_any)

lemma confirm_free:
  assumes "lock_laws x good live" and "good l" and "x_confirm x at n0 n1 cs l = (Inr release, l')" and "n \<in> {n0, n1}"
  shows "free_for live at (Token ` set cs) l n"
  unfolding free_for_def
proof (intro impI ballI)
  fix k assume "n \<noteq> []" "k \<in> live l at" "guards k n"
  moreover obtain k' where "k' \<in> live l at" "guards k' n" "v_token k' \<in> Token ` set cs"
    using confirm_ok [OF assms(1-3)] assms(4) \<open>n \<noteq> []\<close> by blast
  ultimately show "v_token k \<in> Token ` set cs" using exclusive [OF assms(1,2)] by metis
qed

lemma release_ahead:
  "lock_laws x good live \<Longrightarrow> good l \<Longrightarrow> x_confirm x at n0 n1 cs l = (Inr release, l') \<Longrightarrow> ahead good live at m (release m)"
  by (auto simp: ahead_def dest: confirm_ok)

lemma hold_free:
  "lock_laws x good live \<Longrightarrow> good l \<Longrightarrow> holdBriefly x at n l = (Inr token, l') \<Longrightarrow> free_for live at {} l n"
  and hold_ahead: "lock_laws x good live \<Longrightarrow> holdBriefly x at n l = (r, l') \<Longrightarrow> ahead good live at l l'"
  unfolding holdBriefly_def ahead_def free_for_def
  by (fastforce dest: create_ok, cases r) (fastforce dest: create_err create_ok)+

text \<open>Letting a lock of one's own go leaves the others as they were.\<close>

lemma hold_unlock:
  assumes laws: "lock_laws x good live" and h: "holdBriefly x at n l = (Inr token, l1)"
    and m: "ahead good live at l1 m"
  shows "ahead good live at l (snd (x_unlock x at token m))"
  unfolding ahead_def
proof
  assume g: "good l"
  have c: "good l1" "token \<noteq> []" "\<forall>k\<in>live l at. v_token k \<noteq> token" "live l at \<subseteq> live l1 at"
    using create_ok [OF laws g h [unfolded holdBriefly_def]] by auto
  obtain e u where u: "x_unlock x at token m = (e, u)" by (cases "x_unlock x at token m")
  have "good m" "live l1 at \<subseteq> live m at" using m c by (auto simp: ahead_def)
  with unlock_any [OF laws \<open>good m\<close> u] c u
  show "good (snd (x_unlock x at token m)) \<and> live l at \<subseteq> live (snd (x_unlock x at token m)) at" by auto
qed

lemma lockForTheRequest_free:
  assumes laws: "lock_laws ls good live" and g: "good l" and r: "lockForTheRequest ls at src dst l = (r, l')"
  shows "ahead good live at l l'"
    and "r = Inr release \<Longrightarrow> free_for live at {} l src \<and> free_for live at {} l dst"
proof -
  have h: "ahead good live at l l1" "t = Inr u \<Longrightarrow> free_for live at {} l n"
    if "hold_if ls at n l = (t, l1)" "good l" for n l t l1 u
    using that hold_ahead [OF laws] hold_free [OF laws]
    by (auto simp: hold_if_def free_for_def split: if_splits)
  obtain t1 l1 where 1: "hold_if ls at src l = (t1, l1)" by (cases "hold_if ls at src l")
  obtain t2 l2 where 2: "hold_if ls at dst l1 = (t2, l2)" by (cases "hold_if ls at dst l1")
  have a: "ahead good live at l l1" using h(1) [OF 1 g] .
  with g have g1: "good l1" by (simp add: ahead_def)
  have u: "ahead good live at l (unlock_quietly ls at token l2)" if "t1 = Inr token" for token
    using that 1 hold_unlock [OF laws _ h(1) [OF 2 g1], of src l token] a h(1) [OF 2 g1]
    by (auto simp: unlock_quietly_def hold_if_def intro: ahead_trans split: if_splits)
  show "ahead good live at l l'"
    using r 1 2 a u h(1) [OF 2 g1]
    by (auto simp: lockForTheRequest_def split: sum.splits intro: ahead_trans)
  show "r = Inr release \<Longrightarrow> free_for live at {} l src \<and> free_for live at {} l dst"
    using r 1 2 h(2) [OF 1 g] h(2) [OF 2 g1] free_for_ahead [OF _ g a]
    by (auto simp: lockForTheRequest_def split: sum.splits)
qed

lemma claimOne_free:
  assumes laws: "lock_laws ls good live" and g: "good l"
    and r: "claimOneHoldTheOther ls at claimed free cs l = (r, l')"
  shows "ahead good live at l l'"
    and "r = Some release \<Longrightarrow> free_for live at (Token ` set cs) l claimed \<and> free_for live at (Token ` set cs) l free"
proof -
  obtain c l1 where c: "x_confirm ls at claimed [] cs l = (c, l1)" by (cases "x_confirm ls at claimed [] cs l")
  obtain t l2 where t: "holdBriefly ls at free l1 = (t, l2)" by (cases "holdBriefly ls at free l1")
  have a: "ahead good live at l l1" "ahead good live at l1 l2"
    using confirm_ahead [OF laws c] hold_ahead [OF laws t] .
  have g1: "good l1" using a g by (simp add: ahead_def)
  have rel: "ahead good live at m (rel m)" if "c = Inr rel" for rel m
    using release_ahead [OF laws g] c that by blast
  show "ahead good live at l l'"
    using r c t a rel by (auto simp: claimOneHoldTheOther_def split: sum.splits intro: ahead_trans)
  show "r = Some release \<Longrightarrow> free_for live at (Token ` set cs) l claimed \<and> free_for live at (Token ` set cs) l free"
    using r c t confirm_free [OF laws g, of at claimed "[]" cs _ l1 claimed] hold_free [OF laws g1, of at free _ l2]
      free_for_ahead [OF _ g a(1), of "{}" free] free_for_mono [of live at "{}" l free "Token ` set cs"]
    by (auto simp: claimOneHoldTheOther_def split: sum.splits)
qed

lemma claimTouched_free:
  assumes laws: "lock_laws ls good live" and g: "good l"
    and r: "claimTouched ls at src dst cs l = (r, l')"
  shows "ahead good live at l l'"
    and "r = Inr release \<Longrightarrow> free_for live at (Token ` set cs) l src \<and> free_for live at (Token ` set cs) l dst"
proof -
  obtain c l1 where c: "x_confirm ls at src dst cs l = (c, l1)" by (cases "x_confirm ls at src dst cs l")
  obtain o1 l2 where o1: "claimOneHoldTheOther ls at src dst cs l1 = (o1, l2)"
    by (cases "claimOneHoldTheOther ls at src dst cs l1")
  obtain o2 l3 where o2: "claimOneHoldTheOther ls at dst src cs l2 = (o2, l3)"
    by (cases "claimOneHoldTheOther ls at dst src cs l2")
  have a: "ahead good live at l l1" using confirm_ahead [OF laws c] .
  then have g1: "good l1" using g by (simp add: ahead_def)
  have b: "ahead good live at l1 l2" using claimOne_free(1) [OF laws g1 o1] .
  then have g2: "good l2" using g1 by (simp add: ahead_def)
  have d: "ahead good live at l2 l3" using claimOne_free(1) [OF laws g2 o2] .
  note ab = ahead_trans [OF a b] and abd = ahead_trans [OF ahead_trans [OF a b] d]
  show "ahead good live at l l'"
    using r c o1 o2 a ab abd by (auto simp: claimTouched_def split: sum.splits option.splits if_splits)
  show "r = Inr release \<Longrightarrow> free_for live at (Token ` set cs) l src \<and> free_for live at (Token ` set cs) l dst"
    using r c o1 o2 confirm_free [OF laws g, of at src dst cs _ l1] claimOne_free(2) [OF laws g1 o1]
      claimOne_free(2) [OF laws g2 o2] free_for_ahead [OF _ g a] free_for_ahead [OF _ g ab]
    by (auto simp: claimTouched_def split: sum.splits option.splits if_splits)
qed

lemma MemoryLocks_covers:
  assumes "lock_laws x good live" and "ls_covers (MemoryLocks x) at token name l = (b, l')"
  shows "ahead good (outer_live live) at l l'"
proof -
  have "ahead good live at l l'" if "good l"
  proof -
    obtain c l1 where c: "x_confirm x at name [] [\<lparr>Not = False, Token = innerToken token, ETag = []\<rparr>] l = (c, l1)"
      by (cases "x_confirm x at name [] [\<lparr>Not = False, Token = innerToken token, ETag = []\<rparr>] l")
    then have "l' = l \<or> l' = l1 \<or> (\<exists>rel. c = Inr rel \<and> l' = rel l1)"
      using assms(2) by (auto simp: MemoryLocks_def withOpaqueTokens_def memLocks_def mem_Covers_def split: if_splits sum.splits)
    with confirm_ahead [OF assms(1) c] release_ahead [OF assms(1) that] c show ?thesis
      by (auto intro: ahead_trans)
  qed
  then show ?thesis by (auto simp: ahead_def outer_live_def)
qed

lemma etagIs_env: "etagIs r name tag w = (b, w') \<Longrightarrow> now (w_env w') = now (w_env w) \<and> w_db w' = w_db w"
  by (auto simp: etagIs_def Stat_file_def query_def check_def run_query_def FileByPath_def bindE_def
      dest!: draw_fault_step simp: env_step_def split: sum.splits prod.splits option.splits list.splits if_splits)

lemma holds_all_ahead:
  assumes "\<And>at token name l b l'. ls_covers ls at token name l = (b, l') \<Longrightarrow> ahead good live at l l'"
  shows "holds_all ls r at name cs (w, l) = (b, (w', l')) \<Longrightarrow>
    ahead good live at l l' \<and> w_db w' = w_db w \<and> now (w_env w') = now (w_env w)"
proof (induction cs arbitrary: w l)
  case (Cons c cs)
  obtain ok w1 l1 where s: "(if Token c \<noteq> [] then (case ls_covers ls at (Token c) name l of (ok, l') \<Rightarrow> (ok, (w, l')))
      else (case etagIs r name (ETag c) w of (ok, w') \<Rightarrow> (ok, (w', l)))) = (ok, (w1, l1))" by (metis prod.collapse)
  then have a: "ahead good live at l l1 \<and> w_db w1 = w_db w \<and> now (w_env w1) = now (w_env w)"
    using assms by (auto split: if_splits prod.splits dest: etagIs_env)
  show ?case
  proof (cases "Token c = [] \<and> ETag c = [] \<or> ok = Not c")
    case True
    with Cons(2) s a show ?thesis by (auto split: if_splits)
  next
    case False
    then have "holds_all ls r at name cs (w1, l1) = (b, (w', l'))"
      using Cons(2) unfolding holds_all.simps s by (simp split: if_splits)
    from Cons(1) [OF this] a show ?thesis by (auto intro: ahead_trans)
  qed
qed simp

text \<open>The tokens a request submits: what its \<open>If\<close> header claims to hold.\<close>

definition claims :: "ifList list \<Rightarrow> bytes set" where
  "claims h = (\<Union>l\<in>set h. Token ` set (filter (\<lambda>c. \<not> Not c) (conditions l)))"

definition submitted :: "bytes \<Rightarrow> bytes set" where
  "submitted header = (case parseIfHeader header of None \<Rightarrow> {} | Some h \<Rightarrow> claims h)"

lemma confirm_lists_free:
  assumes laws: "lock_laws (fs_locks f) good live"
    and cov: "\<And>at token name l b l'. ls_covers (fs_locks f) at token name l = (b, l') \<Longrightarrow> ahead good live at l l'"
  shows "confirm_lists f r at requested src dst h (w, l) = (x, (w', l')) \<Longrightarrow> good l \<Longrightarrow>
    w_db w' = w_db w \<and> ahead good live at l l' \<and>
    (\<forall>release. x = Inr release \<longrightarrow> free_for live at (claims h) l src \<and> free_for live at (claims h) l dst)"
proof (induction h arbitrary: w l)
  case (Cons lst h)
  have mono: "free_for live at (claims h) m n \<Longrightarrow> free_for live at (claims (lst # h)) m n" for m n
    by (rule free_for_mono) (auto simp: claims_def)
  have later: ?case if "ahead good live at l m" "w_db v = w_db w" "confirm_lists f r at requested src dst h (v, m) = (x, (w', l'))" for v m
  proof -
    have "good m" using that(1) Cons(3) by (simp add: ahead_def)
    from Cons(1) [OF that(3) this] show ?thesis
      using that(1,2) mono free_for_ahead [OF _ Cons(3) that(1)] by (auto intro: ahead_trans)
  qed
  show ?case
  proof (cases "if resourceTag lst \<noteq> [] then tagged f r (resourceTag lst) src dst else Some requested")
    case None
    with Cons(2) show ?thesis by (intro later [of l w]) simp_all
  next
    case (Some about)
    obtain b w1 l1 where h1: "holds_all (fs_locks f) r at about (conditions lst) (w, l) = (b, (w1, l1))" by (metis prod.collapse)
    have a1: "ahead good live at l l1" "w_db w1 = w_db w" using holds_all_ahead [OF cov h1] by auto
    then have g1: "good l1" using Cons(3) by (simp add: ahead_def)
    obtain c l2 where c: "claimTouched (fs_locks f) at src dst (claimable (conditions lst)) l1 = (c, l2)"
      by (cases "claimTouched (fs_locks f) at src dst (claimable (conditions lst)) l1")
    have a2: "ahead good live at l1 l2" using claimTouched_free(1) [OF laws g1 c] .
    then have g2: "good l2" using g1 by (simp add: ahead_def)
    obtain q l3 where q: "lockForTheRequest (fs_locks f) at src dst l2 = (q, l3)"
      by (cases "lockForTheRequest (fs_locks f) at src dst l2")
    have a3: "ahead good live at l2 l3" using lockForTheRequest_free(1) [OF laws g2 q] .
    have sub: "Token ` set (claimable (conditions lst)) \<subseteq> claims (lst # h)" by (auto simp: claimable_def claims_def)
    note a12 = ahead_trans [OF a1(1) a2] and a123 = ahead_trans [OF ahead_trans [OF a1(1) a2] a3]
    consider "\<not> b" | rel where "b" "c = Inr rel" | e where "b" "c = Inl e" "e \<noteq> ErrConfirmationFailed"
      | rel where "b" "c = Inl ErrConfirmationFailed" "q = Inr rel"
      | e where "b" "c = Inl ErrConfirmationFailed" "q = Inl e" by (metis old.sum.exhaust)
    then show ?thesis
    proof cases
      case 1
      with Cons(2) Some h1 show ?thesis by (intro later [OF a1]) (simp split: if_splits)
    next
      case (2 rel)
      with Cons(2) Some h1 c have "x = Inr rel" "w' = w1" "l' = l2" by (auto split: if_splits)
      with claimTouched_free(2) [OF laws g1 c 2(2)] a12 a1 sub show ?thesis
        by (auto intro: free_for_mono [OF free_for_ahead [OF _ Cons(3) a1(1)]])
    next
      case (3 e)
      with Cons(2) Some h1 c a1 a12 show ?thesis by (auto split: if_splits)
    next
      case (4 rel)
      with Cons(2) Some h1 c q have "x = Inr rel" "w' = w1" "l' = l3" by (auto split: if_splits)
      with lockForTheRequest_free(2) [OF laws g2 q 4(3)] a123 a1 show ?thesis
        by (auto intro: free_for_mono [OF free_for_ahead [OF _ Cons(3) a12]])
    next
      case (5 e)
      with Cons(2) Some h1 c q show ?thesis by (intro later [OF a123 a1(2)]) (auto split: if_splits)
    qed
  qed
qed (auto)

lemma locks_enforced_raw:
  assumes "fs_locks f = MemoryLocks x" and "lock_laws x good live" and "good l"
    and "confirmLocks f r src dst (w, l) = (answer, (w', l'))"
  shows "w_db w' = w_db w \<and> (\<forall>release k n. answer = Inr release \<longrightarrow> k \<in> live l (now (w_env w)) \<longrightarrow>
     n \<in> {src, dst} - {[]} \<longrightarrow> guards k n \<longrightarrow> lockURIScheme @ v_token k \<in> submitted (d_if r))"
proof -
  let ?at = "now (w_env w)" and ?live = "outer_live live"
  have laws: "lock_laws (fs_locks f) good ?live" using MemoryLocks_laws [OF assms(2)] assms(1) by simp
  have cov: "ahead good ?live at l l'" if "ls_covers (fs_locks f) at token name l = (b, l')" for at token name l b l'
    using MemoryLocks_covers [OF assms(2)] that assms(1) by simp
  have "w_db w' = w_db w \<and> (\<forall>release. answer = Inr release \<longrightarrow>
      free_for ?live ?at (submitted (d_if r)) l src \<and> free_for ?live ?at (submitted (d_if r)) l dst)"
  proof (cases "d_if r = []")
    case True
    then obtain l2 where "lockForTheRequest (fs_locks f) ?at src dst l = (answer, l2)" "w' = w"
      using assms(4) by (auto simp: confirmLocks_def split: prod.splits)
    with lockForTheRequest_free(2) [OF laws assms(3) this(1)] show ?thesis
      using free_for_mono [of ?live ?at "{}" l] by auto
  next
    case False
    show ?thesis
    proof (cases "parseIfHeader (d_if r)")
      case None
      with False assms(4) show ?thesis by (auto simp: confirmLocks_def)
    next
      case (Some h)
      with False assms(4) obtain requested where
        "confirm_lists f r ?at requested src dst h (w, l) = (answer, (w', l'))"
        by (auto simp: confirmLocks_def Let_def)
      from confirm_lists_free [OF laws cov this assms(3)] Some show ?thesis by (auto simp: submitted_def)
    qed
  qed
  then show ?thesis by (auto simp: free_for_def outer_live_def)
qed

text \<open>
  C21: When the gate lets a write through, every live lock that guards the source or the
  destination path of the request, by being on it or of infinite depth on a collection above it,
  is one whose token the request's \<open>If\<close> header claims.  Locks on members of a collection that the
  write takes along are not among them.  Nothing else changes the database on the way.  This rests
  on the documented promises of the lock system underneath, and on nothing about how it keeps them.
\<close>

theorem locks_enforced:
  assumes "fs_locks f = MemoryLocks x" and "lock_laws x good live" and "good l"
    and "confirmLocks f r src dst (w, l) = (answer, (w', l'))"
  shows "w_db w' = w_db w \<and> (\<forall>release k n. answer = Inr release \<longrightarrow> k \<in> live l (now (w_env w)) \<longrightarrow>
     n \<in> {src, dst} - {[]} \<longrightarrow> guards k n \<longrightarrow> lockURIScheme @ v_token k \<in> submitted (d_if r))"
  by (rule locks_enforced_raw [OF assms])

end
