(* ===== verification/Dav.thy ===== *)
theory Dav
  imports Locks FilesCopy System
begin

text \<open>
  \<^verbatim>\<open>internal/dav/dav.go\<close>, \<^verbatim>\<open>lock.go\<close> and the small files beside them: what a WebDAV method
  does to the file service and which status it ends in.  The XML, the multistatus and the method
  dispatch belong to third-party libraries; the functions here are the backend those call and
  the handlers that run in front of them.
\<close>

section \<open>Errors and conditions\<close>

definition mapErr :: "error \<Rightarrow> nat" where
  "mapErr e =
     (case e of
        ErrNotFound \<Rightarrow> 404 | ErrObjectNotFound \<Rightarrow> 404 | ErrConflict \<Rightarrow> 409 | ErrInvalidPath \<Rightarrow> 400 | ErrInvalidKey \<Rightarrow> 400
      | ErrInvalidRange \<Rightarrow> 416 | ErrNoSpace \<Rightarrow> 507 | _ \<Rightarrow> 500)"

text \<open>
  A \<open>ConditionalMatch\<close> of the library: whether the header was there, whether it is the wildcard,
  and what it says of an entity tag, \<open>None\<close> where it cannot be read.
\<close>

record ConditionalMatch =
  cm_set :: bool
  cm_wildcard :: bool
  cm_match :: "bytes \<Rightarrow> bool option"

definition unset :: ConditionalMatch where
  "unset = \<lparr>cm_set = False, cm_wildcard = False, cm_match = (\<lambda>_. None)\<rparr>"

definition checkConditions :: "ConditionalMatch \<Rightarrow> ConditionalMatch \<Rightarrow> bytes \<Rightarrow> bool \<Rightarrow> nat option" where
  "checkConditions ifMatch ifNoneMatch tag exists =
     (let none = (if \<not> cm_set ifNoneMatch then None
                  else if cm_wildcard ifNoneMatch \<and> exists then Some 412
                  else if \<not> cm_wildcard ifNoneMatch \<and> exists then
                    (case cm_match ifNoneMatch tag of None \<Rightarrow> Some 400 | Some match \<Rightarrow> if match then Some 412 else None)
                  else None)
      in if none \<noteq> None then none
         else if \<not> cm_set ifMatch then None
         else if \<not> exists then Some 412
         else if \<not> cm_wildcard ifMatch then
           (case cm_match ifMatch tag of None \<Rightarrow> Some 400 | Some match \<Rightarrow> if \<not> match then Some 412 else None)
         else None)"

section \<open>The backend\<close>

type_synonym ('s, 'a) dav_act = "'s world \<Rightarrow> (nat + 'a) \<times> 's world"

definition fail_with :: "nat \<Rightarrow> ('s, 'a) dav_act" where
  "fail_with status w = (Inl status, w)"

definition return_ok :: "'a \<Rightarrow> ('s, 'a) dav_act" where
  "return_ok x w = (Inr x, w)"

definition and_then :: "('s, 'a) dav_act \<Rightarrow> ('a \<Rightarrow> ('s, 'b) dav_act) \<Rightarrow> ('s, 'b) dav_act" where
  "and_then m g w = (case m w of (Inl status, w') \<Rightarrow> (Inl status, w') | (Inr x, w') \<Rightarrow> g x w')"

text \<open>A service call whose error is turned into a status by \<open>h\<close>, and one that is inspected.\<close>

definition served :: "(error \<Rightarrow> nat) \<Rightarrow> ('s, 'a) act \<Rightarrow> ('s, 'a) dav_act" where
  "served h m w = (case m w of (Inl e, w') \<Rightarrow> (Inl (h e), w') | (Inr x, w') \<Rightarrow> (Inr x, w'))"

definition inspect :: "('s, 'a) act \<Rightarrow> ('a result \<Rightarrow> ('s, 'b) dav_act) \<Rightarrow> ('s, 'b) dav_act" where
  "inspect m g w = (case m w of (r, w') \<Rightarrow> g r w')"

definition lift :: "nat + 'a \<Rightarrow> ('s, 'a) dav_act" where
  "lift r w = (r, w)"

text \<open>The owner is read off the request's context after the path.\<close>

definition at_path :: "dav_request \<Rightarrow> bytes \<Rightarrow> (bytes \<Rightarrow> bytes \<Rightarrow> ('s, 'a) dav_act) \<Rightarrow> ('s, 'a) dav_act" where
  "at_path r name g =
     and_then (lift (toPath name)) (\<lambda>p. and_then (lift (dav_owner r)) (\<lambda>owner. g owner p))"

definition dav_Open :: "('s, 'l) fileSystem \<Rightarrow> dav_request \<Rightarrow> bytes \<Rightarrow> ('s, reader) dav_act" where
  "dav_Open f r name = at_path r name (\<lambda>owner p.
     and_then (served mapErr (Open (fs_files f) owner p)) (\<lambda>(body, _). return_ok body))"

record FileInfo =
  fi_path :: bytes
  fi_size :: int
  fi_mtime :: int
  fi_is_dir :: bool
  fi_mime :: bytes
  fi_etag :: bytes

definition toFileInfo :: "('s, 'l) fileSystem \<Rightarrow> db_file \<Rightarrow> FileInfo" where
  "toFileInfo f file =
     \<lparr>fi_path = fs_prefix f @ slash # f_path file, fi_size = f_size file, fi_mtime = f_mtime file,
      fi_is_dir = f_is_dir file, fi_mime = f_mime file, fi_etag = f_etag file\<rparr>"

definition dav_Stat :: "('s, 'l) fileSystem \<Rightarrow> dav_request \<Rightarrow> bytes \<Rightarrow> ('s, FileInfo) dav_act" where
  "dav_Stat f r name =
     and_then (lift (toPath name)) (\<lambda>p.
     if p = [] then return_ok \<lparr>fi_path = fs_prefix f @ ''/'', fi_size = 0, fi_mtime = - 62135596800000000000, fi_is_dir = True,
                        fi_mime = [], fi_etag = []\<rparr>
     else and_then (lift (dav_owner r)) (\<lambda>owner.
          and_then (served mapErr (Stat_file owner p)) (\<lambda>file. return_ok (toFileInfo f file))))"

text \<open>\<open>PUT\<close>.  A missing parent is a conflict.  The answer says whether the file is new.\<close>

definition dav_Create ::
  "('s, 'l) fileSystem \<Rightarrow> dav_request \<Rightarrow> bytes \<Rightarrow> reader \<Rightarrow> (ConditionalMatch \<times> ConditionalMatch) option \<Rightarrow> int \<Rightarrow>
   ('s, FileInfo \<times> bool) dav_act" where
  "dav_Create f r name body opts contentLength =
     at_path r name (\<lambda>owner p.
     inspect (Stat_file owner p) (\<lambda>st.
     let checked = (case st of
           Inl e \<Rightarrow> if e \<noteq> ErrNotFound then Some (mapErr e)
                    else (case opts of None \<Rightarrow> None | Some (m, n) \<Rightarrow> checkConditions m n [] False)
         | Inr existing \<Rightarrow> (case opts of None \<Rightarrow> None | Some (m, n) \<Rightarrow> checkConditions m n (f_etag existing) True))
     in case checked of Some status \<Rightarrow> fail_with status
        | None \<Rightarrow>
            and_then (served (\<lambda>e. if e = ErrNotFound then 409 else mapErr e)
                        (Write (fs_files f) owner p body contentLength (fs_mime_type f p))) (\<lambda>file.
            return_ok (toFileInfo f file, \<not> is_ok st))))"

definition dav_RemoveAll ::
  "('s, 'l) fileSystem \<Rightarrow> dav_request \<Rightarrow> bytes \<Rightarrow> (ConditionalMatch \<times> ConditionalMatch) option \<Rightarrow> ('s, unit) dav_act" where
  "dav_RemoveAll f r name opts =
     and_then (lift (toPath name)) (\<lambda>p.
     if p = [] then fail_with 403
     else and_then (lift (dav_owner r)) (\<lambda>owner.
       and_then
         (case opts of
            None \<Rightarrow> return_ok ()
          | Some (m, n) \<Rightarrow>
              if \<not> (cm_set m \<or> cm_set n) then return_ok ()
              else inspect (Stat_file owner p) (\<lambda>st.
                case (case st of
                        Inl e \<Rightarrow> if e \<noteq> ErrNotFound then Some (mapErr e) else checkConditions m n [] False
                      | Inr existing \<Rightarrow> checkConditions m n (f_etag existing) True) of
                  Some status \<Rightarrow> fail_with status | None \<Rightarrow> return_ok ()))
         (\<lambda>_. served mapErr (Remove owner p))))"

definition dav_Mkdir :: "('s, 'l) fileSystem \<Rightarrow> dav_request \<Rightarrow> bytes \<Rightarrow> ('s, unit) dav_act" where
  "dav_Mkdir f r name =
     at_path r name (\<lambda>owner p.
     and_then (served (\<lambda>e. if e = ErrConflict then 405 else if e = ErrNotFound then 409 else mapErr e) (Mkdir owner p))
       (\<lambda>_. return_ok ()))"

text \<open>\<open>MOVE\<close> clears an occupied destination first.  The answer says whether it was free.\<close>

definition dav_Move :: "('s, 'l) fileSystem \<Rightarrow> dav_request \<Rightarrow> bytes \<Rightarrow> bytes \<Rightarrow> bool \<Rightarrow> ('s, bool) dav_act" where
  "dav_Move f r name dest noOverwrite =
     and_then (lift (toPath name)) (\<lambda>from.
     and_then (lift (destPath f dest)) (\<lambda>to.
     and_then (lift (dav_owner r)) (\<lambda>owner.
     inspect (Stat_file owner to) (\<lambda>st.
     and_then
       (case st of
          Inr _ \<Rightarrow> if noOverwrite then fail_with 412 else served mapErr (Remove owner to)
        | Inl e \<Rightarrow> if e \<noteq> ErrNotFound then fail_with (mapErr e) else return_ok ())
       (\<lambda>_. and_then (served mapErr (Move owner from to)) (\<lambda>_. return_ok (\<not> is_ok st)))))))"

definition dav_Copy :: "('s, 'l) fileSystem \<Rightarrow> dav_request \<Rightarrow> bytes \<Rightarrow> bytes \<Rightarrow> bool \<Rightarrow> bool \<Rightarrow> ('s, bool) dav_act" where
  "dav_Copy f r name dest noOverwrite noRecursive =
     and_then (lift (toPath name)) (\<lambda>from.
     and_then (lift (destPath f dest)) (\<lambda>to.
     and_then (lift (dav_owner r)) (\<lambda>owner.
     inspect (Stat_file owner to) (\<lambda>st.
     and_then
       (case st of
          Inr _ \<Rightarrow> if noOverwrite then fail_with 412 else return_ok ()
        | Inl e \<Rightarrow> if e \<noteq> ErrNotFound then fail_with (mapErr e) else return_ok ())
       (\<lambda>_. served mapErr (Copy (fs_files f) owner from to (\<not> noRecursive)))))))"

section \<open>LOCK and UNLOCK\<close>

definition lockTimeout :: int where
  "lockTimeout = 3600000000000"

definition maxLockBody :: nat where
  "maxLockBody = 65536"

text \<open>\<open>io.ReadAll\<close> of an \<open>io.LimitReader\<close>.\<close>

fun read_limited :: "nat \<Rightarrow> reader \<Rightarrow> bytes list \<Rightarrow> bytes \<times> error option" where
  "read_limited n r [] = ([], if n = 0 then None else failure r)"
| "read_limited n r (c # cs) =
     (if n = 0 then ([], None)
      else if n < length c then (take n c, None)
      else if cs = [] \<and> eager r then (c, failure r)
      else case read_limited (n - length c) r cs of (d, e) \<Rightarrow> (c @ d, e))"

record response =
  resp_status :: nat
  lock_token :: bytes
  resp_body :: bytes

definition plain :: "nat \<Rightarrow> response" where
  "plain code = \<lparr>resp_status = code, lock_token = [], resp_body = []\<rparr>"

definition xml_char :: "nat \<Rightarrow> bool" where
  "xml_char r \<longleftrightarrow> r = 0x09 \<or> r = 0x0A \<or> r = 0x0D \<or> in_range 0x20 0xD7FF r \<or> in_range 0xE000 0xFFFD r \<or> in_range 0x10000 0x10FFFF r"

definition xml_rune :: "nat \<Rightarrow> nat \<Rightarrow> bytes \<Rightarrow> bytes" where
  "xml_rune r width raw =
     (if r = 0x22 then ''&#34;'' else if r = 0x27 then ''&#39;'' else if r = 0x26 then ''&amp;''
      else if r = 0x3C then ''&lt;'' else if r = 0x3E then ''&gt;'' else if r = 0x09 then ''&#x9;''
      else if r = 0x0A then ''&#xA;'' else if r = 0x0D then ''&#xD;''
      else if \<not> xml_char r \<or> r = rune_error \<and> width = 1 then [CHR 0xEF, CHR 0xBF, CHR 0xBD] else raw)"

function xmlEscape :: "bytes \<Rightarrow> bytes" where
  "xmlEscape [] = []"
| "xmlEscape (c # cs) =
     (let n = snd (decode_rune (c # cs))
      in xml_rune (fst (decode_rune (c # cs))) n (take n (c # cs)) @ xmlEscape (drop (snd (decode_rune (c # cs))) (c # cs)))"
  by pat_completeness auto
termination
  using decode_rune_size by (relation "measure length") (fastforce simp: Suc_le_eq)+

definition quote_mark :: bytes where
  "quote_mark = [CHR 0x22]"

definition lockDiscovery :: "bytes \<Rightarrow> bytes \<Rightarrow> bytes \<Rightarrow> bytes \<Rightarrow> bytes" where
  "lockDiscovery token href depth owner =
     ''<?xml version='' @ quote_mark @ ''1.0'' @ quote_mark @ '' encoding='' @ quote_mark @ ''UTF-8'' @ quote_mark @ ''?>'' @ [CHR 0x0A] @
     ''<D:prop xmlns:D='' @ quote_mark @ ''DAV:'' @ quote_mark @ ''><D:lockdiscovery><D:activelock>'' @
     ''<D:locktype><D:write/></D:locktype>'' @
     ''<D:lockscope><D:exclusive/></D:lockscope>'' @
     ''<D:depth>'' @ depth @ ''</D:depth>'' @
     (if owner \<noteq> [] then ''<D:owner>'' @ owner @ ''</D:owner>'' else []) @
     ''<D:timeout>Second-'' @ itoa (lockTimeout div 1000000000) @ ''</D:timeout>'' @
     ''<D:locktoken><D:href>'' @ token @ ''</D:href></D:locktoken>'' @
     ''<D:lockroot><D:href>'' @ xmlEscape href @ ''</D:href></D:lockroot>'' @
     ''</D:activelock></D:lockdiscovery></D:prop>''"

definition depthOf :: "dav_request \<Rightarrow> bytes" where
  "depthOf r = (if d_depth r = ''0'' then ''0'' else ''infinity'')"

definition first_token :: "bytes \<Rightarrow> bytes option" where
  "first_token header =
     (case parseIfHeader header of
        Some (lst # _) \<Rightarrow> (case conditions lst of c # _ \<Rightarrow> Some (Token c) | [] \<Rightarrow> None)
      | _ \<Rightarrow> None)"

definition refreshLock :: "('s, 'l) fileSystem \<Rightarrow> dav_request \<Rightarrow> 's world \<times> 'l \<Rightarrow> response \<times> 's world \<times> 'l" where
  "refreshLock f r st =
     (case st of (w, l) \<Rightarrow>
      case first_token (d_if r) of
        None \<Rightarrow> (plain 400, (w, l))
      | Some token \<Rightarrow>
          (case x_refresh (fs_locks f) (now (w_env w)) token lockTimeout l of
             (Inl e, l') \<Rightarrow> (plain (lockStatus e), (w, l'))
           | (Inr details, l') \<Rightarrow>
               (\<lparr>resp_status = 200, lock_token = ''<'' @ token @ ''>'',
                 resp_body = lockDiscovery token (fs_prefix f @ d_path r)
                   (if l_zero_depth details then ''0'' else ''infinity'') (l_owner details)\<rparr>, (w, l'))))"

definition handleLock :: "('s, 'l) fileSystem \<Rightarrow> dav_request \<Rightarrow> 's world \<times> 'l \<Rightarrow> response \<times> 's world \<times> 'l" where
  "handleLock f r st =
     (case st of (w, l) \<Rightarrow>
      case toPath (d_path r) of Inl _ \<Rightarrow> (plain 400, (w, l)) | Inr path \<Rightarrow>
      case read_limited maxLockBody (d_body r) (chunks (d_body r)) of (body, err) \<Rightarrow>
      if err \<noteq> None then (plain 400, (w, l))
      else if body = [] then refreshLock f r (w, l)
      else case fs_unmarshal_lock f body of None \<Rightarrow> (plain 400, (w, l)) | Some (shared, ownerXML) \<Rightarrow>
      if shared then (plain 501, (w, l))
      else case dav_owner r of Inl _ \<Rightarrow> (plain 401, (w, l)) | Inr owner \<Rightarrow>
      case Stat_file owner path w of (stat, w1) \<Rightarrow>
      let missing = (stat = Inl ErrNotFound) in
      if \<not> is_ok stat \<and> \<not> missing then (plain 500, (w1, l))
      else case x_create (fs_locks f) (now (w_env w1))
             \<lparr>l_root = lockName path, l_duration = lockTimeout, l_owner = ownerXML, l_zero_depth = (depthOf r = ''0'')\<rparr> l of
        (Inl e, l1) \<Rightarrow> (plain (lockStatus e), (w1, l1))
      | (Inr token, l1) \<Rightarrow>
          (let reply = (\<lambda>code. \<lparr>resp_status = code, lock_token = ''<'' @ token @ ''>'',
                 resp_body = lockDiscovery token (fs_prefix f @ d_path r) (depthOf r) ownerXML\<rparr>) in
           if \<not> missing then (reply 200, (w1, l1))
           else case Reserve (fs_files f) owner path (fs_mime_type f path) w1 of
             (Inr _, w2) \<Rightarrow> (reply 201, (w2, l1))
           | (Inl e, w2) \<Rightarrow>
               (plain (if e = ErrNotFound then 409 else 500), (w2, snd (x_unlock (fs_locks f) (now (w_env w2)) token l1)))))"

definition handleUnlock :: "('s, 'l) fileSystem \<Rightarrow> dav_request \<Rightarrow> 's world \<times> 'l \<Rightarrow> response \<times> 's world \<times> 'l" where
  "handleUnlock f r st =
     (case st of (w, l) \<Rightarrow>
      let token = trim_suffix (trim_prefix (d_lock_token r) ''<'') ''>'' in
      if token = [] then (plain 400, (w, l))
      else case x_unlock (fs_locks f) (now (w_env w)) token l of
        (None, l') \<Rightarrow> (plain 204, (w, l'))
      | (Some e, l') \<Rightarrow> (plain (if e = ErrNoSuchLock then 409 else lockStatus e), (w, l')))"

section \<open>Which paths a request can name\<close>

lemma trim_char_id: "s \<noteq> [] \<Longrightarrow> hd s \<noteq> c \<Longrightarrow> last s \<noteq> c \<Longrightarrow> trim_char c (c # s) = s"
proof -
  assume s: "s \<noteq> []" "hd s \<noteq> c" "last s \<noteq> c"
  then have "dropWhile (\<lambda>x. x = c) s = s" by (cases s) auto
  moreover have "dropWhile (\<lambda>x. x = c) (rev s) = rev s" using s by (cases s rule: rev_cases) auto
  ultimately show ?thesis by (simp add: trim_char_def)
qed

lemma join_ends:
  "segs \<noteq> [] \<Longrightarrow> \<forall>s\<in>set segs. s \<noteq> [] \<and> c \<notin> set s \<Longrightarrow>
   join_with c segs \<noteq> [] \<and> hd (join_with c segs) \<noteq> c \<and> last (join_with c segs) \<noteq> c"
proof (induction c segs rule: join_with.induct)
  case (2 c x)
  then show ?case by (cases x) (auto dest: last_in_set)
next
  case (3 c x y ys)
  then show ?case by (cases x) auto
qed simp

lemma path_clean_rooted: "path_clean (slash # name) = slash # join_with slash (clean_segs True [] (split_on slash (slash # name)))"
  by (simp add: path_clean_def has_prefix_def Let_def)

lemma toPath_split:
  obtains segs where "trim_char slash (path_clean (slash # name)) = join_with slash segs"
    "\<forall>s\<in>set segs. plain_seg s \<and> slash \<notin> set s"
proof -
  let ?segs = "clean_segs True [] (split_on slash (slash # name))"
  have p: "\<forall>s\<in>set ?segs. plain_seg s \<and> slash \<notin> set s"
    using clean_segs_plain [of "[]"] set_clean_segs [of "[]" "split_on slash (slash # name)"]
      split_on_part_free [of _ slash "slash # name"] by fastforce
  have "trim_char slash (slash # join_with slash ?segs) = join_with slash ?segs"
  proof (cases "?segs = []")
    case True
    then show ?thesis by (simp add: trim_char_def)
  next
    case False
    with p join_ends [OF False, of slash] show ?thesis by (intro trim_char_id) (auto simp: plain_seg_def)
  qed
  with p that [of ?segs] show thesis by (simp add: path_clean_rooted)
qed

text \<open>
  C32: Whatever a URL says, the path it is read as is the root or a valid storage path whose
  segments are all plain: no empty one, no dot and no step upwards.
\<close>

theorem to_path_plain:
  assumes "toPath name = Inr p" and "p \<noteq> []"
  shows "ValidatePath p = Inr () \<and> (\<forall>s\<in>set (split_on slash p). plain_seg s)"
proof -
  obtain segs where segs: "trim_char slash (path_clean (slash # name)) = join_with slash segs"
    "\<forall>s\<in>set segs. plain_seg s \<and> slash \<notin> set s" by (rule toPath_split)
  then have p: "p = join_with slash segs" "ValidatePath p = Inr ()"
    using assms by (auto simp: toPath_def Let_def split: if_splits sum.splits)
  have "segs \<noteq> []" using p assms(2) by auto
  then have "split_on slash p = segs" using segs p by (simp add: split_join)
  with p segs show ?thesis by simp
qed

theorem to_path_plain_witness:
  "ValidatePath ''etc/passwd'' = Inr () \<and> plain_seg ''etc'' \<and> plain_seg ''passwd''"
proof -
  have "toPath ''/a/../../etc/passwd'' = Inr ''etc/passwd''" by code_simp
  from to_path_plain [OF this] show ?thesis by simp
qed

section \<open>Conditional writes\<close>

lemma Stat_view:
  assumes "Stat_file owner p w = (st, w1)"
  shows "w_db w1 = w_db w" and "now (w_env w1) = now (w_env w)"
    and "st = Inr x \<Longrightarrow> view (w_db w) owner p = Some x" and "st = Inl ErrNotFound \<Longrightarrow> view (w_db w) owner p = None"
  using assms
  by (auto simp: Stat_file_def query_def check_def run_query_def bindE_def FileByPath_def view_def ValidatePath_cases env_step_def
      dest!: draw_fault_step split: prod.splits option.splits sum.splits if_splits)

lemma checkConditions_pass:
  assumes "checkConditions m n tag exists = None"
  shows "cm_set m \<Longrightarrow> exists \<and> (cm_wildcard m \<or> cm_match m tag = Some True)"
    and "cm_set n \<Longrightarrow> exists \<Longrightarrow> \<not> cm_wildcard n \<and> cm_match n tag = Some False"
  using assms by (auto simp: checkConditions_def Let_def split: if_splits option.splits)

text \<open>
  C31: A conditional \<open>PUT\<close> that succeeds found what it asked for: under \<open>If-Match\<close> a file whose
  tag matches, under \<open>If-None-Match\<close> none that does (none at all for the wildcard).  It reports
  the file as created exactly when there was none.
\<close>

theorem put_conditional:
  assumes "dav_Create f r name body (Some (m, n)) len w = (Inr (info, created), w')"
    and "toPath name = Inr p" and "dav_owner r = Inr owner"
  shows "(cm_set m \<longrightarrow> (\<exists>row. view (w_db w) owner p = Some row \<and> (cm_wildcard m \<or> cm_match m (f_etag row) = Some True)))
    \<and> (cm_set n \<longrightarrow> (\<forall>row. view (w_db w) owner p = Some row \<longrightarrow> \<not> cm_wildcard n \<and> cm_match n (f_etag row) = Some False))
    \<and> (created \<longleftrightarrow> view (w_db w) owner p = None)"
proof -
  obtain st w1 where st: "Stat_file owner p w = (st, w1)" by (cases "Stat_file owner p w")
  note run = assms(1) [unfolded dav_Create_def at_path_def and_then_def lift_def inspect_def assms(2,3) sum.case prod.case st Let_def]
  show ?thesis
  proof (cases st)
    case (Inl e)
    with run have e: "e = ErrNotFound" "checkConditions m n [] False = None"
      by (auto simp: fail_with_def split: if_splits option.splits)
    then have "view (w_db w) owner p = None" using Stat_view(4) [OF st] Inl by simp
    moreover have created using run Inl e by (auto simp: served_def return_ok_def split: prod.splits sum.splits)
    ultimately show ?thesis using checkConditions_pass [OF e(2)] by auto
  next
    case (Inr row)
    with run have c: "checkConditions m n (f_etag row) True = None" by (auto simp: fail_with_def split: option.splits)
    moreover have "view (w_db w) owner p = Some row" using Stat_view(3) [OF st] Inr by simp
    moreover have "\<not> created" using run Inr c by (auto simp: served_def return_ok_def split: prod.splits sum.splits)
    ultimately show ?thesis using checkConditions_pass [OF c] by auto
  qed
qed

section \<open>A lock system\<close>

text \<open>
  A small lock system that keeps the documented promises: it grants locks of depth zero, never
  expires one, and names them \<open>x\<close>, \<open>xx\<close> and so on.
\<close>

type_synonym shelf = "nat \<times> lock_view list"

definition book :: "shelf xnet" where
  "book =
     \<lparr>x_create = (\<lambda>at d (n, ks).
        if l_zero_depth d \<and> \<not> list_ex (\<lambda>k. v_root k = l_root d) ks
        then (Inr (replicate (Suc n) (CHR ''x'')), (Suc n, granted (replicate (Suc n) (CHR ''x'')) d # ks))
        else (Inl ErrLocked, (n, ks))),
      x_refresh = (\<lambda>at token len l. (Inl ErrNoSuchLock, l)),
      x_unlock = (\<lambda>at token (n, ks).
        (if list_ex (\<lambda>k. v_token k = token) ks then None else Some ErrNoSuchLock,
         (n, filter (\<lambda>k. v_token k \<noteq> token) ks))),
      x_confirm = (\<lambda>at n0 n1 cs (n, ks).
        if list_all (\<lambda>name. name = [] \<or> list_ex (\<lambda>k. v_root k = name \<and> list_ex (\<lambda>c. Token c = v_token k) cs) ks) [n0, n1]
        then (Inr (\<lambda>m. m), (n, ks)) else (Inl ErrConfirmationFailed, (n, ks)))\<rparr>"

definition shelved :: "shelf \<Rightarrow> bool" where
  "shelved s \<longleftrightarrow> (case s of (n, ks) \<Rightarrow> distinct (map v_root ks)
     \<and> (\<forall>k\<in>set ks. v_zero k \<and> (\<exists>m<n. v_token k = replicate (Suc m) (CHR ''x''))))"

definition on_shelf :: "shelf \<Rightarrow> int \<Rightarrow> lock_view set" where
  "on_shelf s at = set (snd s)"

lemma book_laws: "lock_laws book shelved on_shelf"
  unfolding lock_laws_def
proof (intro conjI)
  have "k = k'" if "shelved (n, ks)" "k \<in> set ks" "k' \<in> set ks" "guards k name" "guards k' name" for n ks k k' name
    using that distinct_map_inj [of v_root ks k k'] by (auto simp: shelved_def guards_def)
  then show "view_laws shelved on_shelf"
    by (fastforce simp: view_laws_def on_shelf_def shelved_def)
  show "create_law book shelved on_shelf"
    unfolding create_law_def
  proof (intro allI impI)
    fix at d l r and l' :: shelf
    assume s: "shelved l" and c: "x_create book at d l = (r, l')"
    obtain n ks where l: "l = (n, ks)" by (cases l)
    show "shelved l' \<and> (case r of Inl _ \<Rightarrow> on_shelf l' at = on_shelf l at
      | Inr token \<Rightarrow> token \<noteq> [] \<and> (\<forall>k\<in>on_shelf l at. \<not> guards k (l_root d) \<and> v_token k \<noteq> token)
          \<and> on_shelf l' at = insert (granted token d) (on_shelf l at))"
    proof (cases "l_zero_depth d \<and> \<not> list_ex (\<lambda>k. v_root k = l_root d) ks")
      case True
      then have r: "r = Inr (replicate (Suc n) (CHR ''x''))" "l' = (Suc n, granted (replicate (Suc n) (CHR ''x'')) d # ks)"
        using c l by (simp_all add: book_def)
      have "v_token k \<noteq> replicate (Suc n) (CHR ''x'')" if k: "k \<in> set ks" for k
      proof -
        obtain m where "m < n" "v_token k = replicate (Suc m) (CHR ''x'')"
          using s k unfolding l shelved_def by (auto simp del: replicate_Suc)
        then show ?thesis by (metis Suc_inject length_replicate less_irrefl)
      qed
      moreover have "shelved l'" using s True unfolding r l
        by (auto simp: shelved_def granted_def list_ex_iff intro: less_SucI)
      moreover have "\<not> guards k (l_root d)" if "k \<in> set ks" for k
        using s True that l by (auto simp: shelved_def guards_def list_ex_iff)
      ultimately show ?thesis unfolding r l by (simp add: on_shelf_def)
    next
      case False
      with c l s show ?thesis by (auto simp: book_def on_shelf_def)
    qed
  qed
  show "unlock_law book shelved on_shelf"
    by (auto simp: unlock_law_def book_def shelved_def on_shelf_def distinct_map_filter split: prod.splits)
  have "\<exists>k\<in>set ks. guards k n \<and> v_token k \<in> Token ` set cs"
    if "list_ex (\<lambda>k. v_root k = n \<and> list_ex (\<lambda>c. Token c = v_token k) cs) ks" for n :: bytes and cs ks
    using that by (auto simp: list_ex_iff guards_def image_iff dest: sym)
  then show "confirm_law book shelved on_shelf"
    by (auto simp: confirm_law_def book_def on_shelf_def split: if_splits)
qed

definition sample_fs :: "(disk, shelf) fileSystem" where
  "sample_fs = \<lparr>fs_files = disk_service plain_hasher, fs_prefix = ''/dav'', fs_locks = MemoryLocks book,
     fs_parse_url = (\<lambda>u. Some ([], u)), fs_mime_type = (\<lambda>_. ''text/plain''), fs_unmarshal_lock = (\<lambda>_. Some (False, []))\<rparr>"

definition sample_request :: "bytes \<Rightarrow> bytes \<Rightarrow> bytes \<Rightarrow> dav_request" where
  "sample_request method path header =
     \<lparr>d_method = method, d_user = Some ''u'', d_path = path, d_host = ''h'', d_if = header, d_destination = [],
      d_lock_token = [], d_depth = [], d_body = no_bytes\<rparr>"

definition sample_shelf :: shelf where
  "sample_shelf = (1, [\<lparr>v_token = ''x'', v_root = ''/a'', v_zero = True\<rparr>])"

lemma sample_shelved: "shelved sample_shelf"
  by (auto simp: shelved_def sample_shelf_def)

theorem locks_enforced_witness:
  "lockURIScheme @ ''x'' \<in> submitted ''(<opaquelocktoken:x>)''"
proof -
  let ?r = "sample_request ''PUT'' ''/a'' ''(<opaquelocktoken:x>)''"
  have ok: "(case fst (confirmLocks sample_fs ?r ''/a'' [] (start_world, sample_shelf)) of Inl _ \<Rightarrow> False | Inr _ \<Rightarrow> True)"
    by code_simp
  obtain release st where "confirmLocks sample_fs ?r ''/a'' [] (start_world, sample_shelf) = (Inr release, st)"
    using ok by (cases "confirmLocks sample_fs ?r ''/a'' [] (start_world, sample_shelf)") (auto split: sum.splits)
  moreover obtain w' l' where "st = (w', l')" by (cases st)
  ultimately have run: "confirmLocks sample_fs ?r ''/a'' [] (start_world, sample_shelf) = (Inr release, (w', l'))" by simp
  have "fs_locks sample_fs = MemoryLocks book" by (simp add: sample_fs_def)
  from locks_enforced [OF this book_laws sample_shelved run]
  have "\<forall>k n. k \<in> on_shelf sample_shelf (now (w_env start_world)) \<longrightarrow> n \<in> {''/a'', []} - {[]} \<longrightarrow> guards k n \<longrightarrow>
      lockURIScheme @ v_token k \<in> submitted (d_if ?r)" by blast
  from this [rule_format, of "\<lparr>v_token = ''x'', v_root = ''/a'', v_zero = True\<rparr>" "''/a''"] show ?thesis
    by (simp add: on_shelf_def sample_shelf_def guards_def sample_request_def)
qed

lemma lockForTheRequest_status: "lockForTheRequest ls at src dst l = (Inl status, l') \<Longrightarrow> status \<in> {403, 412, 423, 500}"
  by (auto simp: lockForTheRequest_def lockStatus_def split: prod.splits sum.splits lock_error.splits)

lemma confirm_lists_status:
  "confirm_lists f r at requested src dst h st = (Inl status, st') \<Longrightarrow> status \<in> {412, 500}"
  by (induction f r at requested src dst h st rule: confirm_lists.induct)
    (auto split: option.splits prod.splits bool.splits sum.splits if_splits)

lemma confirmLocks_status: "confirmLocks f r src dst st = (Inl status, st') \<Longrightarrow> status \<in> {400, 403, 412, 423, 500}"
  by (auto simp: confirmLocks_def Let_def dest!: lockForTheRequest_status confirm_lists_status
      split: prod.splits if_splits option.splits)

text \<open>
  C22: A write to something another client has locked is refused: while a lock guards the path a
  method writes, and the request does not claim its token, the method's handler does not run,
  the database stays as it is and the answer is an error.
\<close>

theorem locked_write_refused:
  assumes "fs_locks f = MemoryLocks x" and "lock_laws x good live" and "good l"
    and "d_method r \<in> set lockedMethods" and "dav_owner r = Inr owner" and "lockedPaths f r = Some (src, dst)"
    and "k \<in> live l (now (w_env w))" and "n \<in> {src, dst} - {[]}" and "guards k n"
    and "lockURIScheme @ v_token k \<notin> submitted (d_if r)"
  shows "fst (enforceLocks f handler r (w, l)) \<in> {400, 403, 412, 423, 500}
    \<and> w_db (fst (snd (enforceLocks f handler r (w, l)))) = w_db w
    \<and> enforceLocks f handler r (w, l) = enforceLocks f handler' r (w, l)"
proof -
  obtain answer w' l' where run: "confirmLocks f r src dst (w, l) = (answer, (w', l'))" by (metis prod.collapse)
  note e = locks_enforced_raw [OF assms(1-3) run]
  with assms(7-10) obtain status where "answer = Inl status" by (cases answer) blast+
  with run e confirmLocks_status [of f r src dst "(w, l)" status] assms(4-6) show ?thesis
    by (auto simp: enforceLocks_def Let_def)
qed

theorem locked_write_refused_witness:
  "fst (enforceLocks sample_fs (\<lambda>r w. (201, w)) (sample_request ''PUT'' ''/a'' []) (start_world, sample_shelf))
     \<in> {400, 403, 412, 423, 500}"
proof -
  let ?k = "\<lparr>v_token = ''x'', v_root = ''/a'', v_zero = True\<rparr>" and ?r = "sample_request ''PUT'' ''/a'' []"
  have p: "lockedPaths sample_fs ?r = Some (''/a'', [])" by code_simp
  have "fs_locks sample_fs = MemoryLocks book" "?k \<in> on_shelf sample_shelf (now (w_env start_world))"
    "d_method ?r \<in> set lockedMethods" "dav_owner ?r = Inr ''u''" "''/a'' \<in> {''/a'', []} - {[]}" "guards ?k ''/a''"
    "lockURIScheme @ v_token ?k \<notin> submitted (d_if ?r)"
    by (simp_all add: sample_fs_def on_shelf_def sample_shelf_def sample_request_def lockedMethods_def dav_owner_def
        guards_def submitted_def) code_simp
  from locked_write_refused [OF this(1) book_laws sample_shelved this(3,4) p this(2,5,6,7)] show ?thesis by blast
qed

theorem put_conditional_witness:
  "view (w_db start_world) ''u'' ''x.txt'' = None"
proof -
  let ?n = "\<lparr>cm_set = True, cm_wildcard = True, cm_match = (\<lambda>_. None)\<rparr>"
  let ?r = "sample_request ''PUT'' ''/x.txt'' []"
  let ?run = "dav_Create sample_fs ?r ''/x.txt'' (of_bytes ''hello'') (Some (unset, ?n)) 5 start_world"
  have ok: "(case fst ?run of Inl _ \<Rightarrow> False | Inr (_, created) \<Rightarrow> created)" by code_simp
  obtain y w' where run: "?run = (y, w')" by (cases ?run)
  with ok obtain info where "y = Inr (info, True)" by (cases y) auto
  with run have "?run = (Inr (info, True), w')" by simp
  moreover have "toPath ''/x.txt'' = Inr ''x.txt''" by code_simp
  moreover have "dav_owner ?r = Inr ''u''" by (simp add: dav_owner_def sample_request_def)
  ultimately show ?thesis using put_conditional by blast
qed

section \<open>Where the methods go wrong\<close>

text \<open>
  Only the paths of the request are looked at: a lock that another client has on a file does
  not stop a \<open>DELETE\<close> of the folder it is in, which passes the gate without a token and takes the
  locked file along.  The lock is still there afterwards.
\<close>

definition member_shelf :: shelf where
  "member_shelf = (1, [\<lparr>v_token = ''x'', v_root = ''/a/x.txt'', v_zero = True\<rparr>])"

definition delete_handler :: "dav_request \<Rightarrow> disk world \<Rightarrow> nat \<times> disk world" where
  "delete_handler r w = (case dav_RemoveAll sample_fs r (d_path r) None w of (x, w') \<Rightarrow> (case x of Inl s \<Rightarrow> s | Inr _ \<Rightarrow> 204, w'))"

lemma member_lock_passed:
  "(case enforceLocks sample_fs delete_handler (sample_request ''DELETE'' ''/a'' []) (sample_run, member_shelf) of
      (status, (w, l)) \<Rightarrow> (status, map f_path (files (w_db w)), map v_root (snd l))) = (204, [], [''/a/x.txt''])"
  and member_lock_there:
  "shelved member_shelf \<and> guards (hd (snd member_shelf)) ''/a/x.txt'' \<and> \<not> guards (hd (snd member_shelf)) ''/a''"
  by (code_simp, simp add: shelved_def member_shelf_def guards_def)


text \<open>
  The guard that keeps a destination inside the collection compares a cleaned path with the
  one it came from, so a destination in another collection passes it when it is not written
  cleanly, and is read as a path of this one.
\<close>

theorem destination_outside:
  "destPath sample_fs ''/music/x'' = Inl 502 \<and> destPath sample_fs ''/music//x'' = Inr ''music/x''"
  by code_simp

definition moved_onto_itself :: "bytes \<Rightarrow> (nat + bool) \<times> disk world" where
  "moved_onto_itself dest = dav_Move sample_fs (sample_request ''MOVE'' [] []) ''/a/x.txt'' dest False sample_run"

lemma onto_itself:
  "(case moved_onto_itself ''/dav/a/x.txt'' of (x, w) \<Rightarrow> (x, map f_path (files (w_db w)), map f_path (trash (w_db w))))
     = (Inl 409, [''a''], [''a/x.txt''])"
  and onto_parent:
  "(case moved_onto_itself ''/dav/a'' of (x, w) \<Rightarrow> (x, map f_path (files (w_db w)), map f_path (trash (w_db w))))
     = (Inl 404, [], [''a/x.txt'', ''a''])"
  by (code_simp, code_simp)

text \<open>
  A \<open>MOVE\<close> onto the collection above what it moves (or, past the lock gate, onto itself) ends
  in an error, and what it was to move is in the trash.
\<close>

theorem move_onto_itself:
  "(\<exists>w. moved_onto_itself ''/dav/a/x.txt'' = (Inl 409, w) \<and> map f_path (files (w_db w)) = [''a''])
   \<and> (\<exists>w. moved_onto_itself ''/dav/a'' = (Inl 404, w) \<and> files (w_db w) = [])"
  using onto_itself onto_parent by (auto split: prod.splits)

end
