(* ===== verification/Auth.thy ===== *)
theory Auth
  imports Sha256 BlobKey
begin

unbundle bit_operations_syntax

text \<open>
  \<^verbatim>\<open>internal/auth\<close>: the one user the server is configured with, the throttle on wrong guesses,
  and the handlers that let a request through on a cookie or on Basic credentials.  A time is an
  integer of nanoseconds since the epoch, a Go \<open>time.Time\<close> whose zero value is
  \<open>zero_time\<close>.
\<close>

datatype auth_error =
    ErrUnauthorized | ErrTooManyAttempts | ErrTokenUnsupported | ErrSessionInvalid | ErrShareInvalid
  | ErrCrossSite | CtxErr

section \<open>Credentials\<close>

record Credentials =
  Username :: bytes
  Password :: bytes

definition Configured :: "Credentials \<Rightarrow> bool" where
  "Configured c \<longleftrightarrow> Username c \<noteq> [] \<and> Password c \<noteq> []"

text \<open>\<open>Validate\<close>: whether the configuration is refused.\<close>

definition Validate :: "Credentials \<Rightarrow> bool" where
  "Validate c = (if Username c = [] \<and> Password c = [] then True
     else if Username c = [] then False else if Password c = [] then False else True)"

text \<open>\<open>subtle.ConstantTimeCompare\<close> on two digests is equality; the digests are of equal length.\<close>

definition sameSecret :: "bytes \<Rightarrow> bytes \<Rightarrow> bool" where
  "sameSecret given configured \<longleftrightarrow> sha256 given = sha256 configured"

definition Credentials_Verify :: "Credentials \<Rightarrow> bytes \<Rightarrow> bytes \<Rightarrow> auth_error option" where
  "Credentials_Verify c username password =
     (if \<not> Configured c then Some ErrUnauthorized
      else let sameUser = sameSecret username (Username c); samePassword = sameSecret password (Password c)
           in if \<not> sameUser \<or> \<not> samePassword then Some ErrUnauthorized else None)"

text \<open>MD5 (RFC 1321), which OpenSubsonic's token is defined by.\<close>

definition md5_constants :: "word32 list" where
  "md5_constants =
    [3614090360, 3905402710, 606105819, 3250441966, 4118548399, 1200080426,
     2821735955, 4249261313, 1770035416, 2336552879, 4294925233, 2304563134,
     1804603682, 4254626195, 2792965006, 1236535329, 4129170786, 3225465664,
     643717713, 3921069994, 3593408605, 38016083, 3634488961, 3889429448,
     568446438, 3275163606, 4107603335, 1163531501, 2850285829, 4243563512,
     1735328473, 2368359562, 4294588738, 2272392833, 1839030562, 4259657740,
     2763975236, 1272893353, 4139469664, 3200236656, 681279174, 3936430074,
     3572445317, 76029189, 3654602809, 3873151461, 530742520, 3299628645,
     4096336452, 1126891415, 2878612391, 4237533241, 1700485571, 2399980690,
     4293915773, 2240044497, 1873313359, 4264355552, 2734768916, 1309151649,
     4149444226, 3174756917, 718787259, 3951481745]"

definition md5_shifts :: "nat list" where
  "md5_shifts = concat (map (\<lambda>r. concat (replicate 4 r)) [[7, 12, 17, 22], [5, 9, 14, 20], [4, 11, 16, 23], [6, 10, 15, 21]])"

definition little_endian :: "bytes \<Rightarrow> word32" where
  "little_endian bs = big_endian (rev bs)"

fun le_words :: "nat \<Rightarrow> bytes \<Rightarrow> word32 list" where
  "le_words 0 bs = []"
| "le_words (Suc n) bs = little_endian (take 4 bs) # le_words n (drop 4 bs)"

definition md5_step :: "word32 list \<Rightarrow> word32 \<times> word32 \<times> word32 \<times> word32 \<Rightarrow> nat \<Rightarrow> word32 \<times> word32 \<times> word32 \<times> word32" where
  "md5_step m s i =
     (case s of (a, b, c, d) \<Rightarrow>
      let (f, g) = (if i < 16 then ((b AND c) OR (NOT b AND d), i)
                    else if i < 32 then ((d AND b) OR (NOT d AND c), (5 * i + 1) mod 16)
                    else if i < 48 then (b XOR c XOR d, (3 * i + 5) mod 16)
                    else (c XOR (b OR NOT d), (7 * i) mod 16));
          x = a + f + md5_constants ! i + m ! g; n = md5_shifts ! i
      in (d, b + (push_bit n x OR drop_bit (32 - n) x), b, c))"

definition md5_block :: "word32 \<times> word32 \<times> word32 \<times> word32 \<Rightarrow> bytes \<Rightarrow> word32 \<times> word32 \<times> word32 \<times> word32" where
  "md5_block h block =
     (case foldl (md5_step (le_words 16 block)) h [0..<64] of (a', b', c', d') \<Rightarrow>
      case h of (a, b, c, d) \<Rightarrow> (a + a', b + b', c + c', d + d'))"

fun blocks :: "nat \<Rightarrow> bytes \<Rightarrow> bytes list" where
  "blocks 0 s = []"
| "blocks (Suc n) s = take 64 s # blocks n (drop 64 s)"

definition md5_padding :: "nat \<Rightarrow> bytes" where
  "md5_padding len =
     CHR 0x80 # replicate ((119 - len mod 64) mod 64) (CHR 0x00) @ rev (be_bytes 8 ((len * 8) mod 2 ^ 64))"

definition md5 :: "bytes \<Rightarrow> bytes" where
  "md5 s = (let p = s @ md5_padding (length s) in
     case foldl md5_block (0x67452301, 0xefcdab89, 0x98badcfe, 0x10325476) (blocks (length p div 64) p) of
       (a, b, c, d) \<Rightarrow> concat (map (\<lambda>w. rev (be_bytes 4 (unat w))) [a, b, c, d]))"

text \<open>\<open>to_lower\<close> lowers what can become one of the digits of \<open>want\<close>.\<close>

definition Credentials_VerifyToken :: "Credentials \<Rightarrow> bytes \<Rightarrow> bytes \<Rightarrow> bytes \<Rightarrow> auth_error option" where
  "Credentials_VerifyToken c username token salt =
     (if \<not> Configured c \<or> salt = [] then Some ErrUnauthorized
      else let want = hex_encode (md5 (Password c @ salt));
               sameUser = sameSecret username (Username c); sameToken = sameSecret (to_lower token) want
           in if \<not> sameUser \<or> \<not> sameToken then Some ErrUnauthorized else None)"

section \<open>The throttle\<close>

definition second :: int where "second = 1000000000"
definition zero_time :: int where "zero_time = - 62135596800 * second"

text \<open>\<open>Time.Sub\<close>, which saturates.\<close>

definition time_sub :: "int \<Rightarrow> int \<Rightarrow> int" where
  "time_sub a b = max (- (2 ^ 63)) (min (2 ^ 63 - 1) (a - b))"

record ThrottleConfig =
  Every :: int
  Burst :: int
  MaxWait :: int

definition DefaultThrottle :: ThrottleConfig where
  "DefaultThrottle = \<lparr>Every = second, Burst = 3, MaxWait = 2 * second\<rparr>"

definition reserve :: "ThrottleConfig \<Rightarrow> int \<Rightarrow> int \<Rightarrow> int option \<times> int" where
  "reserve cfg next at =
     (let earliest = at + wrap64 (wrap64 (- (Burst cfg - 1)) * Every cfg);
          next1 = (if next < earliest then earliest else next);
          wait = time_sub next1 at
      in if MaxWait cfg < wait then (None, next1)
         else (Some (if wait < 0 then 0 else wait), next1 + Every cfg))"

text \<open>
  \<open>delay\<close>: the answer to a verification that ended with \<open>err\<close>, the moment it is given, and the
  next slot.  \<open>cancelled\<close> says the context ends before the wait does.
\<close>

definition delay :: "ThrottleConfig \<Rightarrow> int \<Rightarrow> bool \<Rightarrow> auth_error option \<Rightarrow> int \<Rightarrow> (auth_error option \<times> int) \<times> int" where
  "delay cfg at cancelled err next =
     (case err of
        None \<Rightarrow> ((None, at), next)
      | Some e \<Rightarrow>
          (case reserve cfg next at of
             (None, next') \<Rightarrow> ((Some ErrTooManyAttempts, at), next')
           | (Some wait, next') \<Rightarrow>
               if cancelled then ((Some CtxErr, at), next') else ((Some e, at + wait), next')))"

definition NewThrottle :: int where
  "NewThrottle = zero_time"

definition Throttle_Verify ::
  "ThrottleConfig \<Rightarrow> Credentials \<Rightarrow> int \<Rightarrow> bool \<Rightarrow> bytes \<Rightarrow> bytes \<Rightarrow> int \<Rightarrow> (auth_error option \<times> int) \<times> int" where
  "Throttle_Verify cfg c at cancelled username password next =
     delay cfg at cancelled (Credentials_Verify c username password) next"

definition Throttle_VerifyToken ::
  "ThrottleConfig \<Rightarrow> Credentials \<Rightarrow> int \<Rightarrow> bool \<Rightarrow> bytes \<Rightarrow> bytes \<Rightarrow> bytes \<Rightarrow> int \<Rightarrow> (auth_error option \<times> int) \<times> int" where
  "Throttle_VerifyToken cfg c at cancelled username token salt next =
     delay cfg at cancelled (Credentials_VerifyToken c username token salt) next"

text \<open>
  A login attempt with either scheme, and what a run of them answers: for every attempt that
  was judged and found wrong, the moment its answer was given.
\<close>

datatype attempt =
    Guess (a_at: int) (a_gone: bool) bytes bytes
  | TokenGuess (a_at: int) (a_gone: bool) bytes bytes bytes

definition try_login :: "ThrottleConfig \<Rightarrow> Credentials \<Rightarrow> attempt \<Rightarrow> int \<Rightarrow> (auth_error option \<times> int) \<times> int" where
  "try_login cfg c a next =
     (case a of
        Guess at gone u p \<Rightarrow> Throttle_Verify cfg c at gone u p next
      | TokenGuess at gone u tok salt \<Rightarrow> Throttle_VerifyToken cfg c at gone u tok salt next)"

fun rejections :: "ThrottleConfig \<Rightarrow> Credentials \<Rightarrow> attempt list \<Rightarrow> int \<Rightarrow> int list" where
  "rejections cfg c [] next = []"
| "rejections cfg c (a # as) next =
     (case try_login cfg c a next of ((err, t), next') \<Rightarrow>
        (if err = Some ErrUnauthorized then [t] else []) @ rejections cfg c as next')"

text \<open>
  The configurations the arithmetic is meant for: a positive spacing, at least one free guess,
  and a burst whose length fits a \<open>Duration\<close>.
\<close>

definition sane :: "ThrottleConfig \<Rightarrow> bool" where
  "sane cfg \<longleftrightarrow> 0 < Every cfg \<and> 1 \<le> Burst cfg \<and> Burst cfg * Every cfg < 2 ^ 63 \<and> MaxWait cfg < 2 ^ 63 - 1
     \<and> 0 \<le> MaxWait cfg"

lemma sane_burst:
  assumes "sane cfg"
  shows "wrap64 (wrap64 (- (Burst cfg - 1)) * Every cfg) = - (Burst cfg - 1) * Every cfg"
proof -
  have e: "1 \<le> Every cfg" and b: "1 \<le> Burst cfg" and m: "Burst cfg * Every cfg < 2 ^ 63"
    using assms by (auto simp: sane_def)
  have "Burst cfg \<le> Burst cfg * Every cfg"
    using mult_left_mono [OF e, of "Burst cfg"] b by simp
  with b m have "is_int64 (- (Burst cfg - 1))" unfolding is_int64_def by linarith
  moreover have "(Burst cfg - 1) * Every cfg \<le> Burst cfg * Every cfg" using e by (intro mult_right_mono) auto
  moreover have "0 \<le> (Burst cfg - 1) * Every cfg" using b e by (intro mult_nonneg_nonneg) auto
  ultimately have "is_int64 (- (Burst cfg - 1))" "is_int64 (- (Burst cfg - 1) * Every cfg)"
    using m unfolding is_int64_def minus_mult_left [symmetric] by linarith+
  then show ?thesis by simp
qed

lemma reserve_eq:
  assumes "sane cfg"
  shows "reserve cfg next at =
    (let slot = max next (at - (Burst cfg - 1) * Every cfg) in
     if MaxWait cfg < time_sub slot at then (None, slot)
     else (Some (max 0 (time_sub slot at)), slot + Every cfg))"
proof -
  have "(if next < at + wrap64 (wrap64 (- (Burst cfg - 1)) * Every cfg)
         then at + wrap64 (wrap64 (- (Burst cfg - 1)) * Every cfg) else next)
      = max next (at - (Burst cfg - 1) * Every cfg)"
    by (simp only: sane_burst [OF assms] max_def) (auto simp: algebra_simps)
  then show ?thesis unfolding reserve_def Let_def by (simp add: max_def)
qed

text \<open>What a granted slot is: at or after the one before, and no more than the burst behind the clock.\<close>

lemma reserve_granted:
  assumes "sane cfg" and "reserve cfg next at = (Some wait, next')"
  obtains slot where "next \<le> slot" "next' = slot + Every cfg" "at - (Burst cfg - 1) * Every cfg \<le> slot"
    "at + wait = max at slot" "0 \<le> wait" "wait \<le> MaxWait cfg"
proof -
  define slot where "slot = max next (at - (Burst cfg - 1) * Every cfg)"
  have w: "\<not> MaxWait cfg < time_sub slot at" "wait = max 0 (time_sub slot at)" "next' = slot + Every cfg"
    using assms(2) unfolding reserve_eq [OF assms(1)] Let_def slot_def by (auto split: if_splits)
  have "slot \<ge> at - (Burst cfg - 1) * Every cfg" by (simp add: slot_def)
  moreover have "(Burst cfg - 1) * Every cfg < 2 ^ 63"
    using assms(1) by (simp add: sane_def left_diff_distrib)
  ultimately have "time_sub slot at = slot - at"
    using w(1) assms(1) by (auto simp: time_sub_def sane_def max_def min_def split: if_splits)
  moreover have "next \<le> slot" "at - (Burst cfg - 1) * Every cfg \<le> slot" by (simp_all add: slot_def)
  ultimately show thesis
    using w assms(1) by (intro that [of slot]) (auto simp: sane_def max_def)
qed

lemma reserve_refused:
  assumes "sane cfg" and "reserve cfg next at = (None, next')"
  shows "at + MaxWait cfg < next"
proof -
  define lag where "lag = (Burst cfg - 1) * Every cfg"
  have "0 \<le> lag" "0 \<le> MaxWait cfg" using assms(1) by (auto simp: sane_def lag_def)
  moreover have "MaxWait cfg < time_sub (max next (at - lag)) at"
    using assms(2) unfolding reserve_eq [OF assms(1)] Let_def lag_def by (auto split: if_splits)
  ultimately show ?thesis
    using assms(1) by (auto simp: time_sub_def min_def max_def sane_def split: if_splits)
qed

lemma reserve_moves_on: "sane cfg \<Longrightarrow> reserve cfg next at = (r, next') \<Longrightarrow> next \<le> next'"
  by (auto simp: reserve_def Let_def sane_def split: if_splits)

lemma rejection_slots:
  assumes "sane cfg"
  shows "\<exists>slots. length slots = length (rejections cfg c as next)
     \<and> (\<forall>s\<in>set slots. next \<le> s) \<and> sorted_wrt (\<lambda>x y. x + Every cfg \<le> y) slots
     \<and> list_all2 (\<lambda>s t. s \<le> t \<and> t \<le> s + (Burst cfg - 1) * Every cfg) slots (rejections cfg c as next)"
proof (induction as arbitrary: "next")
  case (Cons a as)
  obtain err t next' where tr: "try_login cfg c a next = ((err, t), next')" by (metis prod.collapse)
  obtain at gone e where d: "delay cfg at gone e next = ((err, t), next')" and er: "e = None \<or> e = Some ErrUnauthorized"
    using tr by (auto simp: try_login_def Throttle_Verify_def Throttle_VerifyToken_def Credentials_Verify_def
        Credentials_VerifyToken_def Let_def split: attempt.splits if_splits)
  obtain slots where slots: "length slots = length (rejections cfg c as next')" "\<forall>s\<in>set slots. next' \<le> s"
    "sorted_wrt (\<lambda>x y. x + Every cfg \<le> y) slots"
    "list_all2 (\<lambda>s t. s \<le> t \<and> t \<le> s + (Burst cfg - 1) * Every cfg) slots (rejections cfg c as next')"
    using Cons by blast
  show ?case
  proof (cases "err = Some ErrUnauthorized")
    case True
    with d er obtain wait where r: "reserve cfg next at = (Some wait, next')" "t = at + wait"
      by (auto simp: delay_def split: option.splits prod.splits if_splits)
    obtain slot where slot: "next \<le> slot" "next' = slot + Every cfg" "at - (Burst cfg - 1) * Every cfg \<le> slot"
      "at + wait = max at slot" using reserve_granted [OF assms r(1)] by metis
    moreover have "0 \<le> (Burst cfg - 1) * Every cfg" "0 < Every cfg" using assms by (auto simp: sane_def)
    ultimately have "list_all2 (\<lambda>s t. s \<le> t \<and> t \<le> s + (Burst cfg - 1) * Every cfg) (slot # slots) (t # rejections cfg c as next')"
      using slots(4) r(2) by auto
    moreover have "\<forall>s\<in>set (slot # slots). next \<le> s" "sorted_wrt (\<lambda>x y. x + Every cfg \<le> y) (slot # slots)"
      using slot slots \<open>0 < Every cfg\<close> by force+
    ultimately show ?thesis using tr True slots(1) by (intro exI [of _ "slot # slots"]) simp
  next
    case False
    have "next \<le> next'"
      using d reserve_moves_on [OF assms] by (auto simp: delay_def split: option.splits prod.splits if_splits)
    with False tr slots show ?thesis by (intro exI [of _ slots]) fastforce
  qed
qed simp

lemma spaced_count:
  assumes "0 < d" and "sorted_wrt (\<lambda>x y. x + d \<le> y) xs" and "\<forall>x\<in>set xs. lo \<le> x \<and> x \<le> hi"
  shows "int (length xs) \<le> (hi - lo) div d + 1 \<or> xs = []"
  using assms(2,3)
proof (induction xs rule: rev_induct)
  case (snoc x xs)
  have "lo + d * int (length xs) \<le> x" if "sorted_wrt (\<lambda>x y. x + d \<le> y) (xs @ [x])" "\<forall>x\<in>set (xs @ [x]). lo \<le> x" for xs x
    using that
  proof (induction xs arbitrary: x rule: rev_induct)
    case (snoc y ys)
    then have "lo + d * int (length ys) \<le> y" by (simp add: sorted_wrt_append)
    with snoc(2) show ?case by (auto simp: sorted_wrt_append algebra_simps)
  qed simp
  from this [of xs x] snoc(2,3) have "d * int (length xs) \<le> hi - lo" by auto
  then have "int (length xs) \<le> (hi - lo) div d" using assms(1)
    by (metis nonzero_mult_div_cancel_left order_less_irrefl zdiv_mono1)
  then show ?case by simp
qed simp

lemma sorted_wrt_map_filter: "sorted_wrt R (map f xs) \<Longrightarrow> sorted_wrt R (map f (filter P xs))"
  by (induction xs) auto

text \<open>
  C24: The throttle bounds what can be learnt by guessing, however the guesses are timed and
  whichever of the two schemes each uses: in any window of length \<open>W\<close> at most
  \<open>Burst + W / Every\<close> wrong guesses are told that they are wrong.
\<close>

theorem throttle_rate:
  assumes "sane cfg" and "0 \<le> W"
  shows "int (length (filter (\<lambda>t. a \<le> t \<and> t \<le> a + W) (rejections cfg c as next)))
           \<le> Burst cfg + W div Every cfg"
proof -
  let ?d = "Every cfg" and ?ts = "rejections cfg c as next" and ?win = "\<lambda>t. a \<le> t \<and> t \<le> a + W"
  have d: "0 < ?d" and b: "1 \<le> Burst cfg" using assms by (auto simp: sane_def)
  obtain slots where slots: "length slots = length ?ts" "sorted_wrt (\<lambda>x y. x + ?d \<le> y) slots"
    "list_all2 (\<lambda>s t. s \<le> t \<and> t \<le> s + (Burst cfg - 1) * ?d) slots ?ts"
    using rejection_slots [OF assms(1), of c as "next"] by blast
  define qs where "qs = filter (\<lambda>p. ?win (snd p)) (zip slots ?ts)"
  have qs: "map snd qs = filter ?win ?ts"
    using slots(1) filter_map [of ?win snd "zip slots ?ts"] by (simp add: qs_def comp_def)
  have "sorted_wrt (\<lambda>x y. x + ?d \<le> y) (map fst qs)"
    using sorted_wrt_map_filter [of _ fst "zip slots ?ts"] slots(1,2) by (simp add: qs_def)
  moreover have "\<forall>s\<in>set (map fst qs). a - (Burst cfg - 1) * ?d \<le> s \<and> s \<le> a + W"
  proof
    fix s assume "s \<in> set (map fst qs)"
    then obtain t where "(s, t) \<in> set (zip slots ?ts)" "?win t" by (auto simp: qs_def)
    with slots(3) have "s \<le> t" "t \<le> s + (Burst cfg - 1) * ?d" by (auto simp: list_all2_iff)
    with \<open>?win t\<close> show "a - (Burst cfg - 1) * ?d \<le> s \<and> s \<le> a + W" by linarith
  qed
  ultimately have "int (length qs) \<le> (W + (Burst cfg - 1) * ?d) div ?d + 1 \<or> qs = []"
    using spaced_count [OF d, of "map fst qs" "a - (Burst cfg - 1) * ?d" "a + W"] by (simp add: algebra_simps)
  moreover have "(W + (Burst cfg - 1) * ?d) div ?d = W div ?d + (Burst cfg - 1)" using d by simp
  moreover have "0 \<le> W div ?d" using assms(2) d by (simp add: pos_imp_zdiv_nonneg_iff)
  ultimately have "int (length qs) \<le> Burst cfg + W div ?d" using b by auto
  then show ?thesis by (simp flip: qs)
qed

theorem throttle_rate_witness:
  "sane DefaultThrottle
   \<and> int (length (filter (\<lambda>t. 0 \<le> t \<and> t \<le> 0 + 10 * second)
        (rejections DefaultThrottle \<lparr>Username = ''ada'', Password = ''tea''\<rparr>
           (replicate 100 (Guess 0 False ''ada'' ''coffee'')) NewThrottle))) \<le> 13"
proof -
  have "sane DefaultThrottle" "0 \<le> 10 * second" by code_simp+
  moreover have "Burst DefaultThrottle + (10 * second) div Every DefaultThrottle = 13" by code_simp
  ultimately show ?thesis
    using throttle_rate [of DefaultThrottle "10 * second" 0 "\<lparr>Username = ''ada'', Password = ''tea''\<rparr>"
        "replicate 100 (Guess 0 False ''ada'' ''coffee'')" NewThrottle] by (simp only: refl)
qed

text \<open>
  C34: A wrong guess is never held longer than \<open>MaxWait\<close>, and one that is turned away unjudged
  would have had to wait longer than that.
\<close>

theorem throttle_wait:
  assumes "sane cfg" and "delay cfg at cancelled (Some e) next = ((err, t), next')"
  shows "at \<le> t \<and> t \<le> at + MaxWait cfg
    \<and> (e \<noteq> ErrTooManyAttempts \<and> err = Some ErrTooManyAttempts \<longrightarrow> at + MaxWait cfg < next)"
proof (cases "reserve cfg next at")
  case (Pair r n)
  show ?thesis
  proof (cases r)
    case None
    then have "at + MaxWait cfg < next" using reserve_refused [OF assms(1)] Pair by blast
    with assms Pair None show ?thesis by (auto simp: delay_def sane_def)
  next
    case (Some wait)
    with assms(2) Pair have "t = at \<or> t = at + wait" "err = Some CtxErr \<or> err = Some e"
      by (auto simp: delay_def split: if_splits)
    moreover have "0 \<le> wait" "wait \<le> MaxWait cfg"
      using reserve_granted [OF assms(1) Pair [unfolded Some]] by metis+
    ultimately show ?thesis by auto
  qed
qed

theorem throttle_wait_witness:
  "delay DefaultThrottle 0 False (Some ErrUnauthorized) (5 * second) = ((Some ErrTooManyAttempts, 0), 5 * second)
   \<and> 0 + MaxWait DefaultThrottle < 5 * second"
proof -
  have "sane DefaultThrottle" by code_simp
  moreover have d: "delay DefaultThrottle 0 False (Some ErrUnauthorized) (5 * second)
      = ((Some ErrTooManyAttempts, 0), 5 * second)" by code_simp
  ultimately show ?thesis using throttle_wait [OF _ d] by simp
qed

text \<open>
  A correct password is answered at once and leaves the queue as it was, however many wrong
  guesses are waiting in it.
\<close>

theorem throttle_success:
  assumes "Configured c"
  shows "Throttle_Verify cfg c at cancelled (Username c) (Password c) next = ((None, at), next)"
  using assms by (simp add: Throttle_Verify_def Credentials_Verify_def delay_def sameSecret_def)

theorem throttle_success_witness:
  "Throttle_Verify DefaultThrottle \<lparr>Username = ''ada'', Password = ''tea''\<rparr> 0 False ''ada'' ''tea'' (100 * second)
   = ((None, 0), 100 * second)"
  using throttle_success [of "\<lparr>Username = ''ada'', Password = ''tea''\<rparr>" DefaultThrottle 0 False "100 * second"]
  by (simp add: Configured_def)

end
