(* ===== verification/Tokens.thy ===== *)
theory Tokens
  imports Auth Base64
begin

unbundle bit_operations_syntax

text \<open>
  \<^verbatim>\<open>session.go\<close>, \<^verbatim>\<open>share.go\<close>, \<^verbatim>\<open>browser.go\<close> and \<^verbatim>\<open>basic.go\<close> of
  \<^verbatim>\<open>internal/auth\<close>: the signed values that stand in for a password, and the handlers that let
  a request through on one.  Nothing is stored, so everything rests on what a value says and on
  the signature over it.
\<close>

section \<open>Signatures\<close>

text \<open>HMAC (RFC 2104) over SHA-256.\<close>

definition mask :: "nat \<Rightarrow> bytes \<Rightarrow> bytes" where
  "mask n = map (\<lambda>c. char_of (byte c XOR n))"

definition hmac_sha256 :: "bytes \<Rightarrow> bytes \<Rightarrow> bytes" where
  "hmac_sha256 key msg =
     (let k = (if 64 < length key then sha256 key else key); k0 = k @ replicate (64 - length k) (CHR 0x00)
      in sha256 (mask 0x5c k0 @ sha256 (mask 0x36 k0 @ msg)))"

definition raw_url :: "bytes \<Rightarrow> bytes" where
  "raw_url = encode64 RawURLEncoding"

definition from_url :: "bytes \<Rightarrow> bytes option" where
  "from_url = decode64 RawURLEncoding"

text \<open>\<open>Time.Unix\<close>, and \<open>time.Unix(sec, 0)\<close>, whose seconds since year one wrap.\<close>

definition unix :: "int \<Rightarrow> int" where
  "unix t = t div second"

definition time_unix :: "int \<Rightarrow> int" where
  "time_unix s = (wrap64 (s + 62135596800) - 62135596800) * second"

section \<open>Sessions\<close>

definition DefaultSessionTTL :: int where "DefaultSessionTTL = 14 * 24 * 3600 * second"
definition sessionRenewEvery :: int where "sessionRenewEvery = 24 * 3600 * second"
definition sessionVersion :: bytes where "sessionVersion = ''s1''"

record Sessions =
  s_key :: bytes
  s_ttl :: int

definition NewSessions :: "Credentials \<Rightarrow> int \<Rightarrow> Sessions" where
  "NewSessions c ttl =
     \<lparr>s_key = hmac_sha256 (Password c) (''stratus web session v1'' @ CHR 0x00 # Username c), s_ttl = ttl\<rparr>"

definition sign_session :: "Sessions \<Rightarrow> bytes \<Rightarrow> bytes" where
  "sign_session s payload = hmac_sha256 (s_key s) payload"

definition Sessions_Issue :: "Sessions \<Rightarrow> bytes \<Rightarrow> int \<Rightarrow> bytes \<times> int" where
  "Sessions_Issue s username at =
     (let expires = at + s_ttl s;
          payload = join_with dot [sessionVersion, raw_url username, itoa (unix expires)]
      in (payload @ dot # raw_url (sign_session s payload), expires))"

definition parse_session :: "Sessions \<Rightarrow> bytes \<Rightarrow> int \<Rightarrow> auth_error + bytes \<times> int" where
  "parse_session s value at =
     (case split_on dot value of
        [version, name64, unix10, sig64] \<Rightarrow>
          (if version \<noteq> sessionVersion then Inl ErrSessionInvalid
           else case from_url name64 of None \<Rightarrow> Inl ErrSessionInvalid | Some name \<Rightarrow>
           case parse_int64 unix10 of None \<Rightarrow> Inl ErrSessionInvalid | Some u \<Rightarrow>
           case from_url sig64 of None \<Rightarrow> Inl ErrSessionInvalid | Some sig \<Rightarrow>
           if sig \<noteq> sign_session s (join_with dot [version, name64, unix10]) then Inl ErrSessionInvalid
           else if \<not> at < time_unix u then Inl ErrSessionInvalid
           else Inr (name, time_unix u))
      | _ \<Rightarrow> Inl ErrSessionInvalid)"

definition Sessions_Verify :: "Sessions \<Rightarrow> bytes \<Rightarrow> int \<Rightarrow> auth_error + bytes" where
  "Sessions_Verify s value at = map_sum id fst (parse_session s value at)"

definition Renew :: "Sessions \<Rightarrow> bytes \<Rightarrow> int \<Rightarrow> (bytes \<times> int) option" where
  "Renew s value at =
     (case parse_session s value at of
        Inl _ \<Rightarrow> None
      | Inr (username, until) \<Rightarrow>
          if time_sub at (until - s_ttl s) < sessionRenewEvery then None
          else Some (Sessions_Issue s username at))"

section \<open>Shares\<close>

definition shareVersion :: bytes where "shareVersion = ''k1''"
definition shareFile :: bytes where "shareFile = ''f''"
definition shareSubtree :: bytes where "shareSubtree = ''d''"

record Share =
  Owner :: bytes
  Root :: bytes
  Subtree :: bool

definition NewShares :: "Credentials \<Rightarrow> bytes" where
  "NewShares c = hmac_sha256 (Password c) (''stratus share link v1'' @ CHR 0x00 # Username c)"

definition sign_share :: "bytes \<Rightarrow> bytes \<Rightarrow> bytes" where
  "sign_share key payload = hmac_sha256 key payload"

definition Shares_Issue :: "bytes \<Rightarrow> bytes \<Rightarrow> bytes \<Rightarrow> bool \<Rightarrow> int \<Rightarrow> bytes" where
  "Shares_Issue key owner path subtree expires =
     (let shape = (if subtree then shareSubtree else shareFile);
          deadline = (if expires \<noteq> zero_time then unix expires else 0);
          payload = join_with dot [shareVersion, raw_url owner, raw_url path, shape, itoa deadline]
      in payload @ dot # raw_url (sign_share key payload))"

definition share_covers :: "bytes \<Rightarrow> bytes \<Rightarrow> bytes \<Rightarrow> bool" where
  "share_covers shared shape path \<longleftrightarrow>
     (if path = shared then True else shape = shareSubtree \<and> has_prefix path (shared @ ''/''))"

definition Shares_Verify :: "bytes \<Rightarrow> bytes \<Rightarrow> bytes \<Rightarrow> int \<Rightarrow> auth_error + Share" where
  "Shares_Verify key token path at =
     (case split_on dot token of
        [version, owner64, root64, shape, unix10, sig64] \<Rightarrow>
          (if version \<noteq> shareVersion then Inl ErrShareInvalid
           else case from_url owner64 of None \<Rightarrow> Inl ErrShareInvalid | Some owner \<Rightarrow>
           case from_url root64 of None \<Rightarrow> Inl ErrShareInvalid | Some root \<Rightarrow>
           case parse_int64 unix10 of None \<Rightarrow> Inl ErrShareInvalid | Some deadline \<Rightarrow>
           case from_url sig64 of None \<Rightarrow> Inl ErrShareInvalid | Some sig \<Rightarrow>
           if sig \<noteq> sign_share key (join_with dot [version, owner64, root64, shape, unix10]) then Inl ErrShareInvalid
           else if deadline \<noteq> 0 \<and> \<not> at < time_unix deadline then Inl ErrShareInvalid
           else if \<not> share_covers root shape path then Inl ErrShareInvalid
           else Inr \<lparr>Owner = owner, Root = root, Subtree = (shape = shareSubtree)\<rparr>)
      | _ \<Rightarrow> Inl ErrShareInvalid)"

section \<open>Requests\<close>

text \<open>
  What the handlers read of a request: the user already on its context, its session cookie, the
  \<open>Sec-Fetch-Site\<close> header (empty when absent) and its Basic credentials.
\<close>

record request =
  r_user :: "bytes option"
  r_cookie :: "bytes option"
  r_fetch_site :: bytes
  r_basic :: "(bytes \<times> bytes) option"

definition User :: "request \<Rightarrow> bytes option" where
  "User r = (case r_user r of Some u \<Rightarrow> if u \<noteq> [] then Some u else None | None \<Rightarrow> None)"

definition sameOrigin :: "request \<Rightarrow> bool" where
  "sameOrigin r \<longleftrightarrow> r_fetch_site r = ''same-origin'' \<or> r_fetch_site r = ''none''"

definition crossSite :: "request \<Rightarrow> bool" where
  "crossSite r \<longleftrightarrow> r_fetch_site r \<noteq> [] \<and> \<not> sameOrigin r"

definition FromCookie :: "Sessions \<Rightarrow> request \<Rightarrow> int \<Rightarrow> auth_error + bytes" where
  "FromCookie s r at = (case r_cookie r of None \<Rightarrow> Inl ErrSessionInvalid | Some v \<Rightarrow> Sessions_Verify s v at)"

text \<open>\<open>Session\<close>: the request it hands on.\<close>

definition Session :: "Sessions \<Rightarrow> int \<Rightarrow> request \<Rightarrow> request" where
  "Session s at r =
     (if User r = None \<and> sameOrigin r
      then (case FromCookie s r at of Inl _ \<Rightarrow> r | Inr username \<Rightarrow> r\<lparr>r_user := Some username\<rparr>)
      else r)"

text \<open>A verifier keeps a state, which for the throttle is its next slot.\<close>

type_synonym 'st verifier = "bytes \<Rightarrow> bytes \<Rightarrow> 'st \<Rightarrow> auth_error option \<times> 'st"

definition throttled :: "ThrottleConfig \<Rightarrow> Credentials \<Rightarrow> int \<Rightarrow> bool \<Rightarrow> int verifier" where
  "throttled cfg c at gone username password next =
     (case Throttle_Verify cfg c at gone username password next of ((err, _), next') \<Rightarrow> (err, next'))"

definition BasicUser :: "'st verifier \<Rightarrow> request \<Rightarrow> 'st \<Rightarrow> (bytes \<times> bool \<times> auth_error option) \<times> 'st" where
  "BasicUser v r st =
     (case r_basic r of
        None \<Rightarrow> (([], False, None), st)
      | Some (username, password) \<Rightarrow>
          if crossSite r then (([], True, Some ErrCrossSite), st)
          else (case v username password st of
                  (Some e, st') \<Rightarrow> (([], True, Some e), st')
                | (None, st') \<Rightarrow> ((username, True, None), st')))"

datatype answer = Served request | Unauthorized | TooManyRequests | Forbidden

definition Basic :: "'st verifier \<Rightarrow> request \<Rightarrow> 'st \<Rightarrow> answer \<times> 'st" where
  "Basic v r st =
     (if User r \<noteq> None then (Served r, st)
      else case BasicUser v r st of ((username, sent, err), st') \<Rightarrow>
        (if \<not> sent then (Unauthorized, st')
         else if err = Some ErrTooManyAttempts then (TooManyRequests, st')
         else if err = Some ErrCrossSite then (Forbidden, st')
         else if err \<noteq> None then (Unauthorized, st')
         else (Served (r\<lparr>r_user := Some username\<rparr>), st')))"

text \<open>The chain a page's request goes through: the cookie first, the password behind it.\<close>

definition let_in :: "Sessions \<Rightarrow> int \<Rightarrow> 'st verifier \<Rightarrow> request \<Rightarrow> 'st \<Rightarrow> answer \<times> 'st" where
  "let_in s at v r st = Basic v (Session s at r) st"

section \<open>What a signed value says\<close>

lemma from_raw_url [simp]: "from_url (raw_url s) = Some s"
  by (simp add: from_url_def raw_url_def decode_encode)

lemma raw_url_no_dot [simp]: "dot \<notin> set (raw_url s)"
  by (simp add: raw_url_def encode_no_dot)

lemma itoa_no_dot [simp]: "dot \<notin> set (itoa n)"
  using itoa_chars [of dot n] by (auto simp: byte_def)

lemma split_signed:
  "xs \<noteq> [] \<Longrightarrow> \<forall>x\<in>set xs. dot \<notin> set x \<Longrightarrow> dot \<notin> set g \<Longrightarrow>
   split_on dot (join_with dot xs @ dot # g) = xs @ [g]"
  by (simp add: split_on_append split_join split_on_free)

lemma constants_no_dot [simp]:
  "dot \<notin> set sessionVersion" "dot \<notin> set shareVersion" "dot \<notin> set shareFile" "dot \<notin> set shareSubtree"
  by (simp_all add: sessionVersion_def shareVersion_def shareFile_def shareSubtree_def)

lemma time_unix_exact: "is_int64 (s + 62135596800) \<Longrightarrow> time_unix s = s * second"
  by (simp add: time_unix_def)

lemma unix_floor: "unix t * second = t - t mod second"
  by (simp add: unix_def second_def minus_mod_eq_div_mult)

lemma split_issued_session:
  "split_on dot (fst (Sessions_Issue s u at))
   = [sessionVersion, raw_url u, itoa (unix (at + s_ttl s)),
      raw_url (sign_session s (join_with dot [sessionVersion, raw_url u, itoa (unix (at + s_ttl s))]))]"
  unfolding Sessions_Issue_def Let_def fst_conv by (subst split_signed) simp_all

lemma parse_issued:
  assumes "is_int64 (unix (at + s_ttl s))"
  shows "parse_session s (fst (Sessions_Issue s u at)) at' =
    (if at' < time_unix (unix (at + s_ttl s)) then Inr (u, time_unix (unix (at + s_ttl s)))
     else Inl ErrSessionInvalid)"
  by (simp add: parse_session_def split_issued_session parse_itoa [OF assms])

text \<open>
  C30: A session names whoever it was issued to until the second its lifetime ends in begins,
  and from then on it is invalid.
\<close>

theorem session_lasts:
  assumes "is_int64 (unix (at + s_ttl s))" and "is_int64 (unix (at + s_ttl s) + 62135596800)"
  shows "Sessions_Verify s (fst (Sessions_Issue s user at)) at' =
    (if at' < (at + s_ttl s) - (at + s_ttl s) mod second then Inr user else Inl ErrSessionInvalid)"
  by (simp add: Sessions_Verify_def parse_issued [OF assms(1)] time_unix_exact [OF assms(2)] unix_floor)

theorem session_lasts_witness:
  "Sessions_Verify (NewSessions \<lparr>Username = ''ada'', Password = ''tea''\<rparr> DefaultSessionTTL)
     (fst (Sessions_Issue (NewSessions \<lparr>Username = ''ada'', Password = ''tea''\<rparr> DefaultSessionTTL) ''ada'' 5)) second
   = Inr ''ada''"
proof -
  let ?s = "NewSessions \<lparr>Username = ''ada'', Password = ''tea''\<rparr> DefaultSessionTTL"
  have "s_ttl ?s = DefaultSessionTTL" by (simp add: NewSessions_def)
  moreover have "is_int64 (unix (5 + DefaultSessionTTL))" "is_int64 (unix (5 + DefaultSessionTTL) + 62135596800)"
    "second < (5 + DefaultSessionTTL) - (5 + DefaultSessionTTL) mod second" by code_simp+
  ultimately show ?thesis using session_lasts [of 5 ?s "''ada''" second] by simp
qed

text \<open>
  C29: Nothing a cookie claims is believed unsigned: a value that verifies is made of exactly
  four parts, the last of which decodes to the signature, under this key, of the three before
  it; those name the user and a moment still to come.
\<close>

theorem session_signed:
  assumes "Sessions_Verify s value at = Inr user"
  shows "\<exists>name exp sig expires. value = join_with dot [sessionVersion, name, exp] @ dot # sig
     \<and> from_url sig = Some (hmac_sha256 (s_key s) (join_with dot [sessionVersion, name, exp]))
     \<and> from_url name = Some user \<and> parse_int64 exp = Some expires \<and> at < time_unix expires"
proof -
  obtain t where "parse_session s value at = Inr (user, t)"
    using assms by (cases "parse_session s value at") (auto simp: Sessions_Verify_def)
  then obtain name exp sig where v: "split_on dot value = [sessionVersion, name, exp, sig]"
    and r: "from_url sig = Some (sign_session s (join_with dot [sessionVersion, name, exp]))"
      "from_url name = Some user" "\<exists>x. parse_int64 exp = Some x \<and> at < time_unix x"
    by (auto simp: parse_session_def split: list.splits option.splits if_splits)
  have "value = join_with dot [sessionVersion, name, exp] @ dot # sig"
    using arg_cong [OF v, of "join_with dot"] by simp
  with r show ?thesis by (auto simp: sign_session_def)
qed

theorem session_signed_witness:
  "\<exists>value name exp sig. value = join_with dot [sessionVersion, name, exp] @ dot # sig
     \<and> from_url sig = Some (hmac_sha256 [] (join_with dot [sessionVersion, name, exp])) \<and> from_url name = Some ''ada''"
proof -
  let ?s = "\<lparr>s_key = [], s_ttl = 2 * second\<rparr>"
  have "is_int64 (unix (2 * second))" "0 < time_unix (unix (2 * second))" by code_simp+
  then have "Sessions_Verify ?s (fst (Sessions_Issue ?s ''ada'' 0)) 0 = Inr ''ada''"
    by (simp add: Sessions_Verify_def parse_issued)
  from session_signed [OF this] show ?thesis by auto
qed

text \<open>
  A use renews a session once it is a day old: it gets a fresh value for the same name that
  lasts a whole lifetime from now.  Before that nothing is sent, and an invalid one stays so.
\<close>

theorem session_renewed:
  assumes "is_int64 (unix (at + s_ttl s))" and "is_int64 (unix (at + s_ttl s) + 62135596800)"
    and "is_int64 (at' - (at - (at + s_ttl s) mod second))"
  shows "Renew s (fst (Sessions_Issue s user at)) at' =
    (if at' < (at + s_ttl s) - (at + s_ttl s) mod second \<and> sessionRenewEvery \<le> at' - (at - (at + s_ttl s) mod second)
     then Some (Sessions_Issue s user at') else None)"
proof -
  have t: "time_unix (unix (at + s_ttl s)) = (at + s_ttl s) - (at + s_ttl s) mod second"
    by (simp add: time_unix_exact [OF assms(2)] unix_floor)
  have "time_unix (unix (at + s_ttl s)) - s_ttl s = at - (at + s_ttl s) mod second"
    unfolding t by simp
  moreover have "time_sub at' (at - (at + s_ttl s) mod second) = at' - (at - (at + s_ttl s) mod second)"
    using assms(3) unfolding time_sub_def is_int64_def by linarith
  ultimately show ?thesis
    unfolding Renew_def parse_issued [OF assms(1)] by (auto simp: t)
qed

theorem session_renewed_witness:
  "Renew \<lparr>s_key = ''k'', s_ttl = DefaultSessionTTL\<rparr>
     (fst (Sessions_Issue \<lparr>s_key = ''k'', s_ttl = DefaultSessionTTL\<rparr> ''ada'' 0)) (2 * sessionRenewEvery)
   = Some (Sessions_Issue \<lparr>s_key = ''k'', s_ttl = DefaultSessionTTL\<rparr> ''ada'' (2 * sessionRenewEvery))"
proof -
  have "is_int64 (unix (0 + DefaultSessionTTL))" "is_int64 (unix (0 + DefaultSessionTTL) + 62135596800)"
    "is_int64 (2 * sessionRenewEvery - (0 - (0 + DefaultSessionTTL) mod second))"
    "2 * sessionRenewEvery < (0 + DefaultSessionTTL) - (0 + DefaultSessionTTL) mod second
     \<and> sessionRenewEvery \<le> 2 * sessionRenewEvery - (0 - (0 + DefaultSessionTTL) mod second)" by code_simp+
  then show ?thesis
    using session_renewed [of 0 "\<lparr>s_key = ''k'', s_ttl = DefaultSessionTTL\<rparr>" "2 * sessionRenewEvery" "''ada''"]
    by simp
qed

section \<open>What a link reaches\<close>

definition deadline_of :: "int \<Rightarrow> int" where
  "deadline_of expires = (if expires \<noteq> zero_time then unix expires else 0)"

lemma split_issued_share:
  "split_on dot (Shares_Issue key owner root subtree expires)
   = [shareVersion, raw_url owner, raw_url root, if subtree then shareSubtree else shareFile, itoa (deadline_of expires),
      raw_url (sign_share key (join_with dot [shareVersion, raw_url owner, raw_url root,
        if subtree then shareSubtree else shareFile, itoa (deadline_of expires)]))]"
  unfolding Shares_Issue_def Let_def deadline_of_def [symmetric] by (subst split_signed) simp_all

lemma share_covers_iff:
  "share_covers root (if subtree then shareSubtree else shareFile) path \<longleftrightarrow>
     path = root \<or> subtree \<and> (\<exists>rest. path = root @ slash # rest)"
  by (auto simp: share_covers_def shareSubtree_def shareFile_def has_prefix_iff)

text \<open>
  C28: A link reaches the path it was issued for and, when it is a folder's, what is under that
  path and nothing beside it, until its deadline; a link with no deadline has none.
\<close>

theorem share_reaches:
  assumes "is_int64 (deadline_of expires)" and "is_int64 (deadline_of expires + 62135596800)"
  shows "Shares_Verify key (Shares_Issue key owner root subtree expires) path at =
    (if (deadline_of expires = 0 \<or> at < expires - expires mod second)
        \<and> (path = root \<or> subtree \<and> (\<exists>rest. path = root @ slash # rest))
     then Inr \<lparr>Owner = owner, Root = root, Subtree = subtree\<rparr> else Inl ErrShareInvalid)"
proof -
  have "deadline_of expires \<noteq> 0 \<Longrightarrow> time_unix (deadline_of expires) = expires - expires mod second"
    using time_unix_exact [OF assms(2)] unix_floor [of expires] by (auto simp: deadline_of_def split: if_splits)
  moreover have "(if subtree then shareSubtree else shareFile) = shareSubtree \<longleftrightarrow> subtree"
    by (simp add: shareSubtree_def shareFile_def)
  ultimately show ?thesis
    by (auto simp: Shares_Verify_def split_issued_share parse_itoa [OF assms(1)] share_covers_iff simp del: split_paired_Ex)
qed

theorem share_reaches_witness:
  "Shares_Verify ''k'' (Shares_Issue ''k'' ''ada'' ''album'' True zero_time) ''album2'' 7 = Inl ErrShareInvalid
   \<and> Shares_Verify ''k'' (Shares_Issue ''k'' ''ada'' ''album'' True zero_time) ''album/one'' 7
     = Inr \<lparr>Owner = ''ada'', Root = ''album'', Subtree = True\<rparr>"
proof -
  have "deadline_of zero_time = 0" "is_int64 0" "is_int64 (0 + 62135596800)" by code_simp+
  then show ?thesis
    using share_reaches [of zero_time "''k''" "''ada''" "''album''" True _ 7] by simp
qed

section \<open>Who is let in\<close>

lemma cross_site_not_same: "crossSite r \<Longrightarrow> \<not> sameOrigin r"
  by (simp add: crossSite_def)

lemma Session_cross_site: "crossSite r \<Longrightarrow> Session s at r = r"
  by (simp add: Session_def cross_site_not_same)

text \<open>
  C33: A request another site started is let in neither on the cookie nor on the password the
  browser attached to it, and costs nothing of the throttle.
\<close>

theorem cross_site_refused:
  assumes "crossSite r" and "User r = None"
  shows "let_in s at v r st = (if r_basic r = None then Unauthorized else Forbidden, st)"
  using assms by (auto simp: let_in_def Session_cross_site Basic_def BasicUser_def split: option.splits)

theorem cross_site_refused_witness:
  "let_in \<lparr>s_key = ''k'', s_ttl = second\<rparr> 0 (throttled DefaultThrottle \<lparr>Username = ''ada'', Password = ''tea''\<rparr> 0 False)
     \<lparr>r_user = None, r_cookie = None, r_fetch_site = ''cross-site'', r_basic = Some (''ada'', ''tea'')\<rparr> NewThrottle
   = (Forbidden, NewThrottle)"
  using cross_site_refused [of "\<lparr>r_user = None, r_cookie = None, r_fetch_site = ''cross-site'',
      r_basic = Some (''ada'', ''tea'')\<rparr>" "\<lparr>s_key = ''k'', s_ttl = second\<rparr>" 0
      "throttled DefaultThrottle \<lparr>Username = ''ada'', Password = ''tea''\<rparr> 0 False" NewThrottle]
  by (simp add: crossSite_def sameOrigin_def User_def)

lemma throttled_ok:
  "throttled cfg c at gone u p next = (None, next') \<Longrightarrow> Credentials_Verify c u p = None"
  by (auto simp: throttled_def Throttle_Verify_def delay_def split: option.splits prod.splits if_splits)

text \<open>
  C27: Whoever is served was either there before, or is named by a cookie that verifies on a
  request of this origin, or gave this server's user name and password (up to a collision of
  SHA-256) on a request no other site started.
\<close>

theorem served_is_known:
  assumes "let_in s at (throttled cfg c at gone) r next = (Served r', next')"
  shows "(r' = r \<and> User r \<noteq> None)
    \<or> (\<exists>u v. r' = r\<lparr>r_user := Some u\<rparr> \<and> sameOrigin r \<and> r_cookie r = Some v \<and> Sessions_Verify s v at = Inr u)
    \<or> (\<exists>u p. r' = r\<lparr>r_user := Some u\<rparr> \<and> \<not> crossSite r \<and> r_basic r = Some (u, p)
        \<and> Configured c \<and> sha256 u = sha256 (Username c) \<and> sha256 p = sha256 (Password c))"
proof (cases "User (Session s at r) = None")
  case False
  then have "r' = Session s at r" using assms by (simp add: let_in_def Basic_def)
  with False show ?thesis
    by (auto simp: Session_def FromCookie_def split: if_splits sum.splits option.splits)
next
  case True
  let ?r = "Session s at r"
  obtain u p where u: "r_basic ?r = Some (u, p)" "\<not> crossSite ?r" "throttled cfg c at gone u p next = (None, next')"
      "r' = ?r\<lparr>r_user := Some u\<rparr>"
    using assms True by (auto simp: let_in_def Basic_def BasicUser_def split: option.splits prod.splits if_splits)
  have same: "r_basic ?r = r_basic r" "crossSite ?r = crossSite r" "?r\<lparr>r_user := Some u\<rparr> = r\<lparr>r_user := Some u\<rparr>"
    by (auto simp: Session_def crossSite_def sameOrigin_def split: sum.splits)
  have "Credentials_Verify c u p = None" using throttled_ok [OF u(3)] .
  then have "Configured c" "sha256 u = sha256 (Username c)" "sha256 p = sha256 (Password c)"
    by (auto simp: Credentials_Verify_def sameSecret_def Let_def split: if_splits)
  with u same show ?thesis by auto
qed

theorem served_is_known_witness:
  "\<exists>r'. let_in \<lparr>s_key = ''k'', s_ttl = second\<rparr> 0
     (throttled DefaultThrottle \<lparr>Username = ''ada'', Password = ''tea''\<rparr> 0 False)
     \<lparr>r_user = None, r_cookie = None, r_fetch_site = [], r_basic = Some (''ada'', ''tea'')\<rparr> 0 = (Served r', 0)
   \<and> r_user r' = Some ''ada''"
proof -
  let ?c = "\<lparr>Username = ''ada'', Password = ''tea''\<rparr>"
  let ?r = "\<lparr>r_user = None, r_cookie = None, r_fetch_site = [], r_basic = Some (''ada'', ''tea'')\<rparr>"
  have "Credentials_Verify ?c ''ada'' ''tea'' = None"
    by (simp add: Credentials_Verify_def Configured_def sameSecret_def)
  then have l: "let_in \<lparr>s_key = ''k'', s_ttl = second\<rparr> 0 (throttled DefaultThrottle ?c 0 False) ?r 0
      = (Served (?r\<lparr>r_user := Some ''ada''\<rparr>), 0)"
    by (simp add: let_in_def Basic_def BasicUser_def Session_def sameOrigin_def crossSite_def User_def
        throttled_def Throttle_Verify_def delay_def)
  with served_is_known [OF l] show ?thesis by auto
qed

end
