(* ===== verification/SyncSpec.thy ===== *)
theory SyncSpec
  imports Prelude
begin

text \<open>
  What a collection that is synchronised by token promises, without its tables: a counter every
  write moves, the members with the token each was last written at, and the deletions that are
  still remembered.  A client keeps a copy of the members and the token it was last answered
  with; \<open>behind\<close> says that the copy is right up to what has been stamped since.  Calendars and
  address books refine this: theory \<open>SyncTables\<close>.
\<close>

section \<open>The collection\<close>

text \<open>
  \<open>live\<close>: name to entity tag and token; \<open>dead\<close>: name to token and time of deletion;
  \<open>forgotten\<close>: the token up to which deletions are no longer remembered.
\<close>

record coll =
  counter :: int
  forgotten :: int
  live :: "bytes \<rightharpoonup> bytes \<times> int"
  dead :: "bytes \<rightharpoonup> int \<times> int"

definition a_write :: "bytes \<Rightarrow> bytes \<Rightarrow> coll \<Rightarrow> coll" where
  "a_write n tag C = C\<lparr>counter := counter C + 1, live := (live C)(n \<mapsto> (tag, counter C + 1)),
     dead := (dead C)(n := None)\<rparr>"

definition a_erase :: "bytes \<Rightarrow> int \<Rightarrow> coll \<Rightarrow> coll" where
  "a_erase n at C = C\<lparr>counter := counter C + 1, live := (live C)(n := None),
     dead := (dead C)(n \<mapsto> (counter C + 1, at))\<rparr>"

definition expired :: "int \<Rightarrow> coll \<Rightarrow> bytes set" where
  "expired before C = {n. \<exists>t at. dead C n = Some (t, at) \<and> at < before}"

definition a_forget :: "int \<Rightarrow> coll \<Rightarrow> coll" where
  "a_forget before C =
     (if expired before C = {} then C
      else C\<lparr>forgotten := Max ((\<lambda>n. fst (the (dead C n))) ` expired before C),
             dead := dead C |` (- expired before C)\<rparr>)"

text \<open>What is there, and the token of the last change to a name, 0 for none remembered.\<close>

definition present :: "coll \<Rightarrow> bytes \<Rightarrow> bytes option" where
  "present C n = map_option fst (live C n)"

definition stamped :: "coll \<Rightarrow> bytes \<Rightarrow> int" where
  "stamped C n = (case live C n of Some (_, t) \<Rightarrow> t
     | None \<Rightarrow> (case dead C n of Some (t, _) \<Rightarrow> t | None \<Rightarrow> 0))"

text \<open>
  A sound collection at time \<open>T\<close>: tokens are bounded by the counter, deletions carry distinct
  tokens in the order of their times, none later than now, all above what has been forgotten.
\<close>

definition coll_ok :: "int \<Rightarrow> coll \<Rightarrow> bool" where
  "coll_ok T C \<longleftrightarrow> 0 \<le> forgotten C \<and> forgotten C \<le> counter C \<and> finite (dom (dead C))
     \<and> (\<forall>n tag t. live C n = Some (tag, t) \<longrightarrow> 0 < t \<and> t \<le> counter C)
     \<and> (\<forall>n t at. dead C n = Some (t, at) \<longrightarrow> forgotten C < t \<and> t \<le> counter C \<and> at \<le> T \<and> live C n = None)
     \<and> (\<forall>n m t u at bt. dead C n = Some (t, at) \<and> dead C m = Some (u, bt) \<and> n \<noteq> m \<and> t \<le> u \<longrightarrow> t \<noteq> u \<and> at \<le> bt)"

lemma coll_okD:
  assumes "coll_ok T C"
  shows "0 \<le> forgotten C" "forgotten C \<le> counter C" "finite (dom (dead C))"
    and "live C n = Some (tag, t) \<Longrightarrow> 0 < t \<and> t \<le> counter C"
    and "dead C n = Some (t, at) \<Longrightarrow> forgotten C < t \<and> t \<le> counter C \<and> at \<le> T \<and> live C n = None"
    and "dead C n = Some (t, at) \<Longrightarrow> dead C m = Some (u, bt) \<Longrightarrow> n \<noteq> m \<Longrightarrow> t \<le> u \<Longrightarrow> t < u \<and> at \<le> bt"
  using assms unfolding coll_ok_def by (blast, blast, blast, blast, blast, (fastforce simp: order_less_le))

lemma coll_ok_later: "coll_ok T C \<Longrightarrow> T \<le> T' \<Longrightarrow> coll_ok T' C"
  unfolding coll_ok_def by (meson order_trans)

lemma empty_coll_ok: "coll_ok T \<lparr>counter = 0, forgotten = 0, live = Map.empty, dead = Map.empty\<rparr>"
  by (simp add: coll_ok_def)

lemma coll_okI:
  assumes "0 \<le> forgotten C" "forgotten C \<le> counter C" "finite (dom (dead C))"
    and "\<And>n tag t. live C n = Some (tag, t) \<Longrightarrow> 0 < t \<and> t \<le> counter C"
    and "\<And>n t at. dead C n = Some (t, at) \<Longrightarrow> forgotten C < t \<and> t \<le> counter C \<and> at \<le> T \<and> live C n = None"
    and "\<And>n m t u at bt. dead C n = Some (t, at) \<Longrightarrow> dead C m = Some (u, bt) \<Longrightarrow> n \<noteq> m \<Longrightarrow> t \<le> u \<Longrightarrow> t < u \<and> at \<le> bt"
  shows "coll_ok T C"
  using assms unfolding coll_ok_def by (intro conjI) (blast | metis order_less_le)+

lemma a_write_ok: 
  assumes "coll_ok T C"
  shows "coll_ok T (a_write n tag C)"
proof -
  note D = coll_okD [OF assms]
  show ?thesis
  proof (rule coll_okI)
    fix a b t u at bt
    assume "dead (a_write n tag C) a = Some (t, at)" "dead (a_write n tag C) b = Some (u, bt)" "a \<noteq> b" "t \<le> u"
    then show "t < u \<and> at \<le> bt"
      by (intro D(6)) (auto simp: a_write_def split: if_splits)
  qed (use D(1-3) in \<open>auto simp: a_write_def split: if_splits dest!: D(4) D(5)\<close>)
qed

lemma a_erase_ok:
  assumes "coll_ok T C"
  shows "coll_ok T (a_erase n T C)"
proof -
  note D = coll_okD [OF assms]
  show ?thesis
  proof (rule coll_okI)
    fix a b t u at bt
    assume "dead (a_erase n T C) a = Some (t, at)" "dead (a_erase n T C) b = Some (u, bt)" "a \<noteq> b" "t \<le> u"
    then show "t < u \<and> at \<le> bt"
      by (auto simp: a_erase_def split: if_splits dest: D(5) dest!: D(6) [rotated 2])
  qed (use D(1-3) in \<open>auto simp: a_erase_def split: if_splits dest!: D(4) D(5)\<close>)
qed

text \<open>
  Forgetting raises the mark: what is left was deleted no earlier than what goes, so it carries
  a higher token.  This is where the order of the times counts.
\<close>

lemma forget_marks:
  assumes ok: "coll_ok T C" and ne: "expired before C \<noteq> {}"
  defines "M \<equiv> Max ((\<lambda>n. fst (the (dead C n))) ` expired before C)"
  shows "\<exists>n at. dead C n = Some (M, at) \<and> at < before"
    and "\<And>n t at. dead C n = Some (t, at) \<Longrightarrow> at < before \<Longrightarrow> t \<le> M"
    and "\<And>n t at. dead C n = Some (t, at) \<Longrightarrow> \<not> at < before \<Longrightarrow> M < t"
proof -
  have fin: "finite (expired before C)"
    using coll_okD(3) [OF ok] by (rule rev_finite_subset) (auto simp: expired_def)
  have "M \<in> (\<lambda>n. fst (the (dead C n))) ` expired before C"
    unfolding M_def using fin ne by (intro Max_in) auto
  then show ex: "\<exists>n at. dead C n = Some (M, at) \<and> at < before"
    by (fastforce simp: expired_def)
  show "t \<le> M" if "dead C n = Some (t, at)" "at < before" for n t at
  proof -
    have "t \<in> (\<lambda>n. fst (the (dead C n))) ` expired before C"
      using that by (force simp: expired_def image_iff)
    then show ?thesis unfolding M_def using fin by (intro Max_ge) auto
  qed
  show "M < t" if "dead C n = Some (t, at)" "\<not> at < before" for n t at
  proof -
    obtain m bt where m: "dead C m = Some (M, bt)" "bt < before" using ex by blast
    then have "n \<noteq> m" using that by auto
    with coll_okD(6) [OF ok that(1) m(1)] that(2) m(2) show ?thesis by force
  qed
qed

lemma a_forget_ok:
  assumes ok: "coll_ok T C"
  shows "coll_ok T (a_forget before C)"
proof (cases "expired before C = {}")
  case True
  with ok show ?thesis by (simp add: a_forget_def)
next
  case False
  note marks = forget_marks [OF ok False] and D = coll_okD [OF ok]
  let ?M = "Max ((\<lambda>n. fst (the (dead C n))) ` expired before C)"
  have kept: "(dead C |` (- expired before C)) n = Some (t, at) \<longleftrightarrow> dead C n = Some (t, at) \<and> \<not> at < before" for n t at
    by (auto simp: restrict_map_def expired_def)
  obtain m bt where m: "dead C m = Some (?M, bt)" using marks(1) by blast
  have "finite (dom (dead C |` (- expired before C)))" using D(3) by (simp add: dom_restrict)
  moreover have "0 \<le> ?M" "?M \<le> counter C" using D(1) D(5) [OF m] by auto
  ultimately show ?thesis
    using False D(4) D(5) D(6) marks(3)
    unfolding coll_ok_def a_forget_def by (simp add: kept) (smt (verit))
qed

section \<open>A copy and its token\<close>

definition behind :: "int \<Rightarrow> (bytes \<rightharpoonup> bytes) \<Rightarrow> coll \<Rightarrow> bool" where
  "behind t m C \<longleftrightarrow> 0 \<le> t \<and> t \<le> counter C \<and> (t = 0 \<longrightarrow> m = Map.empty)
     \<and> (0 < t \<and> t < forgotten C \<or> (\<forall>n. m n = present C n \<or> t < stamped C n))"

lemma changed_simps [simp]:
  "present (a_write n tag C) k = (if k = n then Some tag else present C k)"
  "stamped (a_write n tag C) k = (if k = n then counter C + 1 else stamped C k)"
  "counter (a_write n tag C) = counter C + 1" "forgotten (a_write n tag C) = forgotten C"
  "present (a_erase n at C) k = (if k = n then None else present C k)"
  "stamped (a_erase n at C) k = (if k = n then counter C + 1 else stamped C k)"
  "counter (a_erase n at C) = counter C + 1" "forgotten (a_erase n at C) = forgotten C"
  by (simp_all add: a_write_def a_erase_def present_def stamped_def split: option.split)

lemma behind_start: "coll_ok T C \<Longrightarrow> behind 0 Map.empty C"
  using coll_okD(1,2) [of T C] by (auto simp: behind_def present_def stamped_def split: option.splits dest: coll_okD(4))

lemma behind_write: "behind t m C \<Longrightarrow> behind t m (a_write n tag C)"
  by (auto simp: behind_def)

lemma behind_erase: "behind t m C \<Longrightarrow> behind t m (a_erase n at C)"
  by (auto simp: behind_def)

lemma behind_forget:
  assumes ok: "coll_ok T C" and b: "behind t m C"
  shows "behind t m (a_forget before C)"
proof (cases "expired before C = {}")
  case True
  with b show ?thesis by (simp add: a_forget_def)
next
  case False
  note marks = forget_marks [OF ok False]
  let ?M = "Max ((\<lambda>n. fst (the (dead C n))) ` expired before C)"
  have fc: "forgotten (a_forget before C) = ?M" "live (a_forget before C) = live C"
    "counter (a_forget before C) = counter C" "dead (a_forget before C) = dead C |` (- expired before C)"
    using False by (simp_all add: a_forget_def)
  show ?thesis
  proof (cases "0 < t \<and> t < ?M")
    case True
    with b show ?thesis by (auto simp: behind_def fc)
  next
    case outside: False
    have up: "forgotten C < ?M" using marks(1) coll_okD(5) [OF ok] by blast
    have all: "m n = present C n \<or> t < stamped C n" for n
      using b outside up by (auto simp: behind_def)
    have "m n = present (a_forget before C) n \<or> t < stamped (a_forget before C) n" for n
    proof (cases "live C n = None \<and> (\<exists>u at. dead C n = Some (u, at) \<and> at < before)")
      case True
      then obtain u at where u: "dead C n = Some (u, at)" "at < before" "live C n = None" by blast
      then have "0 < u" "u \<le> ?M" using coll_okD(1,5) [OF ok] marks(2) by fastforce+
      then have "t = 0 \<or> u \<le> t" using outside b by (auto simp: behind_def)
      then have "m n = None" using b all [of n] u by (auto simp: behind_def stamped_def present_def)
      then show ?thesis using u by (simp add: present_def fc)
    next
      case kept: False
      have "present (a_forget before C) n = present C n" by (simp add: present_def fc)
      moreover have "stamped (a_forget before C) n = stamped C n"
        using kept by (auto simp: stamped_def fc restrict_map_def expired_def split: option.splits)
      ultimately show ?thesis using all [of n] by simp
    qed
    then show ?thesis using b by (auto simp: behind_def fc)
  qed
qed

section \<open>Changes while an answer is put together\<close>

text \<open>What other requests may do to the collection meanwhile: write members and delete them.\<close>

inductive moves_on :: "coll \<Rightarrow> coll \<Rightarrow> bool" where
  same: "moves_on C C"
| wrote: "moves_on C D \<Longrightarrow> moves_on C (a_write n tag D)"
| erased: "moves_on C D \<Longrightarrow> live D n \<noteq> None \<Longrightarrow> moves_on C (a_erase n at D)"

lemma moves_on_trans: "moves_on D E \<Longrightarrow> moves_on C D \<Longrightarrow> moves_on C E"
  by (induction rule: moves_on.induct) (auto intro: moves_on.intros)

lemma moves_on_counter: "moves_on C D \<Longrightarrow> counter C \<le> counter D \<and> forgotten D = forgotten C"
  by (induction rule: moves_on.induct) auto

text \<open>A name is as it was, or carries a stamp above the counter there was.\<close>

lemma moves_on_name:
  "moves_on C D \<Longrightarrow> present D n = present C n \<and> stamped D n = stamped C n \<or> counter C < stamped D n"
proof (induction rule: moves_on.induct)
  case (wrote C D k tag)
  then show ?case using moves_on_counter [OF wrote(1)] by auto
next
  case (erased C D k at)
  then show ?case using moves_on_counter [OF erased(1)] by auto
qed simp

lemma moves_on_behind: "moves_on C D \<Longrightarrow> behind t m C \<Longrightarrow> behind t m D"
  by (induction rule: moves_on.induct) (auto intro: behind_write behind_erase)

section \<open>An answer and what a client makes of it\<close>

text \<open>A feed is a list of names, each with its entity tag or, deleted, without.\<close>

definition apply_feed :: "(bytes \<times> bytes option) list \<Rightarrow> (bytes \<rightharpoonup> bytes) \<Rightarrow> (bytes \<rightharpoonup> bytes)" where
  "apply_feed xs m = fold (\<lambda>(n, r) m. m(n := r)) xs m"

lemma apply_feed_simps [simp]:
  "apply_feed [] m = m"
  "apply_feed ((n, r) # xs) m = apply_feed xs (m(n := r))"
  by (simp_all add: apply_feed_def)

lemma apply_feed_other: "n \<notin> fst ` set xs \<Longrightarrow> apply_feed xs m n = m n"
  by (induction xs arbitrary: m) auto

lemma apply_feed_named: "n \<in> fst ` set xs \<Longrightarrow> \<exists>r. (n, r) \<in> set xs \<and> apply_feed xs m n = r"
proof (induction xs arbitrary: m)
  case (Cons x xs)
  obtain k r where x: "x = (k, r)" by (cases x)
  show ?case
  proof (cases "n \<in> fst ` set xs")
    case True
    then obtain v where "(n, v) \<in> set xs" "apply_feed xs (m(k := r)) n = v" using Cons.IH [of "m(k := r)"] by blast
    then show ?thesis unfolding x by (simp del: fun_upd_apply)
  next
    case False
    then show ?thesis using Cons.prems x apply_feed_other [of n xs "m(k := r)"] by auto
  qed
qed simp

text \<open>The copy is right up to what was stamped after its token.\<close>

definition current :: "int \<Rightarrow> (bytes \<rightharpoonup> bytes) \<Rightarrow> coll \<Rightarrow> bool" where
  "current t m C \<longleftrightarrow> 0 \<le> t \<and> t \<le> counter C \<and> (t = 0 \<longrightarrow> m = Map.empty)
     \<and> (\<forall>n. m n = present C n \<or> t < stamped C n)"

lemma current_behind: "current t m C \<Longrightarrow> behind t m C"
  by (simp add: current_def behind_def)

lemma behind_current: "behind t m C \<Longrightarrow> t = 0 \<or> forgotten C \<le> t \<Longrightarrow> current t m C"
  by (auto simp: current_def behind_def)

lemma stamped_bound: "coll_ok T C \<Longrightarrow> 0 \<le> stamped C n \<and> stamped C n \<le> counter C"
  using coll_okD(1,2) [of T C]
  by (auto simp: stamped_def split: option.splits dest: coll_okD(4,5))

text \<open>With nothing stamped after the token, it is right.\<close>

lemma current_exact: "current (counter C) m C \<Longrightarrow> coll_ok T C \<Longrightarrow> m = present C"
  by (rule ext) (meson current_def stamped_bound leD)

text \<open>
  The answer: the changes are read in \<open>C2\<close>, each member a little later, and the token is at
  least the counter read first, at most the counter of \<open>C2\<close>.  A member gone by the time it is
  read is left out.
\<close>

lemma feed_catches_up:
  assumes cur: "current since m C1" and on: "moves_on C1 C2" and E: "moves_on C2 E"
    and t: "counter C1 \<le> t" "t \<le> counter C2" "t = 0 \<Longrightarrow> xs = []"
    and gone: "\<And>n. (n, None) \<in> set xs \<Longrightarrow> present C2 n = None"
    and there: "\<And>n tag. (n, Some tag) \<in> set xs \<Longrightarrow> \<exists>D. moves_on C2 D \<and> moves_on D E \<and> present D n = Some tag"
    and rest: "\<And>n. n \<notin> fst ` set xs \<Longrightarrow> stamped C2 n \<le> since \<or> since = 0 \<and> present C2 n = None
        \<or> present C2 n \<noteq> None \<and> (\<exists>D. moves_on C2 D \<and> moves_on D E \<and> present D n = None)"
  shows "current t (apply_feed xs m) E"
proof -
  have later: "present E n = present D n \<or> t < stamped E n" if "moves_on C2 D" "moves_on D E" for D n
    using moves_on_name [OF that(2), of n] moves_on_counter [OF that(1)] t(2) by auto
  have "apply_feed xs m n = present E n \<or> t < stamped E n" for n
  proof (cases "n \<in> fst ` set xs")
    case True
    then obtain r where r: "(n, r) \<in> set xs" "apply_feed xs m n = r" using apply_feed_named by blast
    show ?thesis
    proof (cases r)
      case None
      with gone [of n] r later [OF same E, of n] show ?thesis by auto
    next
      case (Some tag)
      then obtain D where "moves_on C2 D" "moves_on D E" "present D n = Some tag" using there r by blast
      with later [of D n] r Some show ?thesis by auto
    qed
  next
    case False
    have m: "apply_feed xs m n = m n" by (rule apply_feed_other [OF False])
    consider (old) "stamped C2 n \<le> since" | (first) "since = 0" "present C2 n = None"
      | (missed) D where "present C2 n \<noteq> None" "moves_on C2 D" "moves_on D E" "present D n = None"
      using rest [OF False] by metis
    then show ?thesis
    proof cases
      case old
      then have "m n = present C2 n"
        using cur moves_on_name [OF on, of n] unfolding current_def by force
      then show ?thesis using m later [OF same E, of n] by auto
    next
      case first
      then show ?thesis using m cur later [OF same E, of n] by (auto simp: current_def)
    next
      case missed
      have "counter C2 < stamped D n" using moves_on_name [OF missed(2), of n] missed(1,4) by auto
      moreover have "stamped E n = stamped D n \<or> counter D < stamped E n"
        using moves_on_name [OF missed(3), of n] by auto
      ultimately have "t < stamped E n" using moves_on_counter [OF missed(2)] t(2) by auto
      then show ?thesis by simp
    qed
  qed
  moreover have "apply_feed xs m = Map.empty" if "t = 0"
    using that t cur unfolding current_def by auto
  moreover have "0 \<le> t" using t(1) cur by (auto simp: current_def)
  ultimately show ?thesis using moves_on_counter [OF E] t(2) by (auto simp: current_def)
qed

end
