(* ===== verification/Tables.thy ===== *)
theory Tables
  imports Env
begin

text \<open>
  Tables of their own and what runs over them: a statement may fail, a transaction is put back
  when its function or its commit fails, and between two calls outside a transaction other
  requests may have committed anything.  What they commit is part of the state, one entry for
  each of our calls, so that a theorem that holds for all of them holds for every interleaving.
  Transactions exclude each other, \<open>_txlock=immediate\<close> in \<^verbatim>\<open>sqlite.go\<close>.
\<close>

record 'd tables =
  t_rows :: 'd
  t_env :: env
  t_others :: "('d \<times> int \<Rightarrow> 'd \<times> int) list"

type_synonym ('d, 'a) repo = "('d tables, 'a) step"

definition moment :: "'d tables \<Rightarrow> 'd \<times> int" where
  "moment w = (t_rows w, now (t_env w))"

text \<open>The next thing other requests commit; the clock goes on meanwhile.\<close>

definition meanwhile :: "'d tables \<Rightarrow> 'd tables" where
  "meanwhile w = (case t_others w of [] \<Rightarrow> w | g # gs \<Rightarrow>
     (case g (moment w) of (d, t) \<Rightarrow>
        w\<lparr>t_rows := d, t_env := (t_env w)\<lparr>now := t\<rparr>, t_others := gs\<rparr>))"

definition t_check :: "('d, unit) repo" where
  "t_check w = (case draw_fault (t_env w) of
     (None, e) \<Rightarrow> (Inr (), w\<lparr>t_env := e\<rparr>) | (Some _, e) \<Rightarrow> (Inl ErrOther, w\<lparr>t_env := e\<rparr>))"

definition run_stmt :: "('d, 'a) step \<Rightarrow> ('d, 'a) repo" where
  "run_stmt q w = (case q (t_rows w) of (r, d) \<Rightarrow> (r, w\<lparr>t_rows := d\<rparr>))"

text \<open>A statement inside a transaction, and one on its own.\<close>

definition stmt :: "('d, 'a) step \<Rightarrow> ('d, 'a) repo" where
  "stmt q = bindE t_check (\<lambda>_. run_stmt q)"

definition ask :: "('d, 'a) step \<Rightarrow> ('d, 'a) repo" where
  "ask q w = stmt q (meanwhile w)"

text \<open>\<open>sqlutil.InTx\<close>.\<close>

definition rolled_back :: "'d tables \<Rightarrow> ('d, 'a) repo \<Rightarrow> ('d, 'a) repo" where
  "rolled_back w0 m w = (case m w of
     (Inl x, w') \<Rightarrow> (Inl x, w'\<lparr>t_rows := t_rows w0\<rparr>) | (Inr y, w') \<Rightarrow> (Inr y, w'))"

definition in_tx :: "('d, 'a) repo \<Rightarrow> ('d, 'a) repo" where
  "in_tx f w0 = (let w = meanwhile w0 in
     bindE t_check (\<lambda>_. rolled_back w (bindE f (\<lambda>y. bindE t_check (\<lambda>_. retE y)))) w)"

definition t_clock :: "('d, int) repo" where
  "t_clock w = (Inr (now (t_env w)), w)"

section \<open>What a request does to the tables\<close>

text \<open>
  The client of this interface is a proof about requests: \<open>R\<close> relates the tables and the time
  before to those after.  If everything the others commit is in \<open>R\<close>, and each of our own
  statements and transactions is, then so is the whole request.
\<close>

definition inner :: "('d, 'a) repo \<Rightarrow> bool" where
  "inner m \<longleftrightarrow> (\<forall>w r w'. m w = (r, w') \<longrightarrow> t_others w' = t_others w \<and> now (t_env w') = now (t_env w))"

lemma innerD: "inner m \<Longrightarrow> m w = (r, w') \<Longrightarrow> t_others w' = t_others w \<and> now (t_env w') = now (t_env w)"
  by (simp add: inner_def)

lemma innerI: "(\<And>w r w'. m w = (r, w') \<Longrightarrow> t_others w' = t_others w \<and> now (t_env w') = now (t_env w)) \<Longrightarrow> inner m"
  by (simp add: inner_def)

lemma inner_ret [intro]: "inner (retE x)" and inner_fail [intro]: "inner (failE e)"
  and inner_lift [intro]: "inner (liftE r)" and inner_clock [intro]: "inner t_clock"
  by (auto intro!: innerI simp: t_clock_def)

lemma t_check_rows:
  assumes "t_check w = (r, w')"
  shows "t_rows w' = t_rows w \<and> t_others w' = t_others w \<and> now (t_env w') = now (t_env w)"
proof -
  obtain f e where f: "draw_fault (t_env w) = (f, e)" by (cases "draw_fault (t_env w)")
  with assms draw_fault_step [OF f] show ?thesis
    by (auto simp: t_check_def env_step_def split: option.splits)
qed

lemma inner_check [intro]: "inner t_check"
  unfolding inner_def using t_check_rows by metis

lemma inner_bind [intro]:
  assumes m: "inner m" and f: "\<And>x. inner (f x)"
  shows "inner (bindE m f)"
proof (rule innerI)
  fix w r w'
  assume "bindE m f w = (r, w')"
  then show "t_others w' = t_others w \<and> now (t_env w') = now (t_env w)"
    by (rule bindE_cases) (auto dest!: innerD [OF m] innerD [OF f])
qed

lemma inner_try [intro]: "inner m \<Longrightarrow> (\<And>x. inner (f x)) \<Longrightarrow> inner (tryE m f)"
  unfolding inner_def tryE_def by (fastforce split: prod.splits)

lemma inner_stmt [intro]: "inner (stmt q)"
  unfolding stmt_def
  by (intro inner_bind inner_check) (auto intro!: innerI simp: run_stmt_def split: prod.splits)

lemma inner_if [intro]: "inner m \<Longrightarrow> inner n \<Longrightarrow> inner (if b then m else n)"
  by simp

lemma stmt_cases:
  assumes "stmt q w = (r, w')"
  obtains "r = Inl ErrOther" "t_rows w' = t_rows w" | "q (t_rows w) = (r, t_rows w')"
  using assms
  by (auto simp: stmt_def t_check_def run_stmt_def bindE_def split: prod.splits option.splits sum.splits)

lemma stmt_ok: "stmt q w = (Inr x, w') \<Longrightarrow> q (t_rows w) = (Inr x, t_rows w')"
  by (erule stmt_cases) auto

locale history =
  fixes R :: "'d \<times> int \<Rightarrow> 'd \<times> int \<Rightarrow> bool"
  assumes R_refl [simp]: "R x x"
    and R_trans: "R x y \<Longrightarrow> R y z \<Longrightarrow> R x z"
begin

definition tame :: "'d tables \<Rightarrow> bool" where
  "tame w \<longleftrightarrow> (\<forall>g\<in>set (t_others w). \<forall>x. R x (g x))"

definition follows :: "('d, 'a) repo \<Rightarrow> bool" where
  "follows m \<longleftrightarrow> (\<forall>w r w'. tame w \<longrightarrow> m w = (r, w') \<longrightarrow> R (moment w) (moment w') \<and> tame w')"

lemma followsD: "follows m \<Longrightarrow> tame w \<Longrightarrow> m w = (r, w') \<Longrightarrow> R (moment w) (moment w') \<and> tame w'"
  by (auto simp: follows_def)

lemma tame_meanwhile: "tame w \<Longrightarrow> R (moment w) (moment (meanwhile w)) \<and> tame (meanwhile w)"
  by (auto simp: tame_def meanwhile_def moment_def split: list.splits prod.splits) (metis)

lemma follows_ret: "follows (retE x)" and follows_fail: "follows (failE e)"
  and follows_lift: "follows (liftE r)" and follows_clock: "follows t_clock"
  by (simp_all add: follows_def t_clock_def)

lemma follows_bind:
  assumes m: "follows m" and f: "\<And>x. follows (f x)"
  shows "follows (bindE m f)"
  unfolding follows_def
proof (intro allI impI)
  fix w r w'
  assume "tame w" "bindE m f w = (r, w')"
  from this(2) show "R (moment w) (moment w') \<and> tame w'"
    by (rule bindE_cases) (use \<open>tame w\<close> in \<open>blast dest: followsD [OF m] followsD [OF f] intro: R_trans\<close>)+
qed

lemma follows_try:
  assumes m: "follows m" and f: "\<And>x. follows (f x)"
  shows "follows (tryE m f)"
  unfolding follows_def
proof (intro allI impI)
  fix w r w'
  assume w: "tame w" and t: "tryE m f w = (r, w')"
  obtain x u where u: "m w = (x, u)" by (cases "m w")
  with t have "f x u = (r, w')" by simp
  with followsD [OF m w u] followsD [OF f] show "R (moment w) (moment w') \<and> tame w'" by (blast intro: R_trans)
qed

lemma follows_if: "follows m \<Longrightarrow> follows n \<Longrightarrow> follows (if b then m else n)"
  by simp

lemma tame_inner: "inner m \<Longrightarrow> m w = (r, w') \<Longrightarrow> tame w \<Longrightarrow> tame w'"
  by (auto simp: tame_def dest: innerD)

lemma follows_ask:
  assumes "\<And>d r d' t. q d = (r, d') \<Longrightarrow> R (d, t) (d', t)"
  shows "follows (ask q)"
  unfolding follows_def
proof (intro allI impI)
  fix w r w'
  assume w: "tame w" and m: "ask q w = (r, w')"
  let ?v = "meanwhile w"
  have s: "stmt q ?v = (r, w')" using m by (simp add: ask_def)
  have "R (moment ?v) (moment w')"
    using s by (rule stmt_cases) (use assms innerD [OF inner_stmt s] in \<open>auto simp: moment_def\<close>)
  with tame_meanwhile [OF w] tame_inner [OF inner_stmt s] R_trans
  show "R (moment w) (moment w') \<and> tame w'" by blast
qed

lemma follows_tx:
  assumes f: "inner f" and ok: "\<And>w y w'. f w = (Inr y, w') \<Longrightarrow> R (moment w) (moment w')"
  shows "follows (in_tx f)"
  unfolding follows_def
proof (intro allI impI)
  fix w r w'
  assume w: "tame w" and m: "in_tx f w = (r, w')"
  let ?v = "meanwhile w" and ?body = "bindE f (\<lambda>y. bindE t_check (\<lambda>_. retE y))"
  have body: "inner ?body" using f by blast
  have same: "tame w' \<and> now (t_env w') = now (t_env ?v)" "R (moment ?v) (moment w')"
  proof -
    from m obtain c u where c: "t_check ?v = (c, u)" "(\<exists>e. c = Inl e \<and> r = Inl e \<and> w' = u) \<or> (c = Inr () \<and> rolled_back ?v ?body u = (r, w'))"
      unfolding in_tx_def Let_def by (cases "t_check ?v") (auto simp: bindE_def split: sum.splits)
    note u = t_check_rows [OF c(1)]
    obtain b z where b: "?body u = (b, z)" by (cases "?body u")
    note z = innerD [OF body b]
    have R_ok: "R (moment u) (moment z)" if "b = Inr y" for y
    proof -
      from b that obtain y' v where "f u = (Inr y', v)" "t_check v = (Inr (), z)"
        by (auto elim!: bindE_okE)
      then show ?thesis using ok t_check_rows [of v "Inr ()" z] by (metis moment_def)
    qed
    from c(2) show "tame w' \<and> now (t_env w') = now (t_env ?v)"
      using u z b tame_meanwhile [OF w]
      by (auto simp: rolled_back_def tame_def split: sum.splits)
    from c(2) show "R (moment ?v) (moment w')"
      using u z b R_ok
      by (cases b) (auto simp: rolled_back_def moment_def split: sum.splits)
  qed
  then show "R (moment w) (moment w') \<and> tame w'" using tame_meanwhile [OF w] R_trans by blast
qed

lemmas follows_intros = follows_ret follows_fail follows_lift follows_clock follows_bind follows_try
  follows_if follows_ask follows_tx

end

end
