(* ===== verification/SyncTables.thy ===== *)
theory SyncTables
  imports SyncSpec Tables DbFile
begin

text \<open>
  The tables of \<^verbatim>\<open>internal/db/sqlite/calendars.go\<close> and \<^verbatim>\<open>contacts.go\<close>: a table of
  collections, one of their members and one of deletions, with the statements over them.  The
  two files are the same statements over two sets of tables, so the statements are stated once,
  over the columns both have; a calendar adds its colour and what it holds, a calendar object
  the component it is.  The second half shows that the statements refine theory \<open>SyncSpec\<close>.
\<close>

section \<open>Rows\<close>

record collection =
  col_id :: int
  col_owner :: bytes
  col_name :: bytes
  col_display :: bytes
  col_description :: bytes
  col_token :: int
  col_pruned :: int
  col_created :: int

record calendar = collection +
  col_color :: bytes
  col_components :: bytes

type_synonym address_book = collection

record item =
  it_collection :: int
  it_name :: bytes
  it_uid :: bytes
  it_data :: bytes
  it_etag :: bytes
  it_token :: int
  it_changed :: int

record cal_object = item +
  it_component :: bytes

type_synonym contact = item

record tombstone =
  tb_collection :: int
  tb_name :: bytes
  tb_token :: int
  tb_deleted :: int

record change =
  ch_name :: bytes
  ch_token :: int
  ch_deleted :: bool

record ('c, 'o) sync_db =
  colls :: "'c collection_scheme list"
  items :: "'o item_scheme list"
  tombs :: "tombstone list"
  next_coll :: int

type_synonym calendar_db = "(unit calendar_ext, unit cal_object_ext) sync_db"
type_synonym contact_db = "(unit, unit) sync_db"

definition empty_sync :: "('c, 'o) sync_db" where
  "empty_sync = \<lparr>colls = [], items = [], tombs = [], next_coll = 1\<rparr>"

text \<open>\<open>Holds\<close>, and the two \<open>Normalize\<close>.\<close>

definition Holds :: "calendar \<Rightarrow> bytes \<Rightarrow> bool" where
  "Holds c component \<longleftrightarrow> component \<in> set (split_on (CHR 0x2C) (col_components c))"

definition norm_coll :: "'c collection_scheme \<Rightarrow> 'c collection_scheme" where
  "norm_coll c = c\<lparr>col_created := truncate_time (col_created c)\<rparr>"

definition norm_item :: "'o item_scheme \<Rightarrow> 'o item_scheme" where
  "norm_item o' = o'\<lparr>it_changed := truncate_time (it_changed o')\<rparr>"

section \<open>Statements over the collections\<close>

definition named :: "bytes \<Rightarrow> bytes \<Rightarrow> 'c collection_scheme \<Rightarrow> bool" where
  "named owner name c \<longleftrightarrow> col_owner c = owner \<and> col_name c = name"

definition create_coll :: "'c collection_scheme \<Rightarrow> (('c, 'o) sync_db, 'c collection_scheme) step" where
  "create_coll c0 d =
     (let c = (norm_coll c0)\<lparr>col_id := next_coll d, col_token := 0, col_pruned := 0\<rparr>
      in if list_ex (named (col_owner c) (col_name c)) (colls d) then (Inl ErrConflict, d)
         else (Inr c, d\<lparr>colls := colls d @ [c], next_coll := next_coll d + 1\<rparr>))"

definition owned_colls :: "bytes \<Rightarrow> (('c, 'o) sync_db, 'c collection_scheme list) step" where
  "owned_colls owner d = (Inr (sort_key col_name (filter (\<lambda>c. col_owner c = owner) (colls d))), d)"

definition coll_by_name :: "bytes \<Rightarrow> bytes \<Rightarrow> (('c, 'o) sync_db, 'c collection_scheme) step" where
  "coll_by_name owner name d =
     (case find (named owner name) (colls d) of None \<Rightarrow> (Inl ErrNotFound, d) | Some c \<Rightarrow> (Inr c, d))"

text \<open>\<open>UPDATE \<dots> WHERE owner_id = ? AND name = ?\<close>, with what is set as an argument.\<close>

definition update_coll ::
  "('c collection_scheme \<Rightarrow> 'c collection_scheme) \<Rightarrow> bytes \<Rightarrow> bytes \<Rightarrow> (('c, 'o) sync_db, unit) step" where
  "update_coll sets owner name d =
     (let d1 = d\<lparr>colls := map (\<lambda>c. if named owner name c then sets c else c) (colls d)\<rparr>
      in if list_ex (named owner name) (colls d) then (Inr (), d1) else (Inl ErrNotFound, d1))"

text \<open>The members and the deletions go with the row, by cascade.\<close>

definition delete_coll :: "bytes \<Rightarrow> bytes \<Rightarrow> (('c, 'o) sync_db, unit) step" where
  "delete_coll owner name d =
     (let gone = map col_id (filter (named owner name) (colls d));
          d1 = d\<lparr>colls := filter (\<lambda>c. \<not> named owner name c) (colls d),
                 items := filter (\<lambda>o'. it_collection o' \<notin> set gone) (items d),
                 tombs := filter (\<lambda>t. tb_collection t \<notin> set gone) (tombs d)\<rparr>
      in if gone = [] then (Inl ErrNotFound, d1) else (Inr (), d1))"

section \<open>Statements over the members\<close>

definition at_item :: "int \<Rightarrow> bytes \<Rightarrow> 'o item_scheme \<Rightarrow> bool" where
  "at_item i n o' \<longleftrightarrow> it_collection o' = i \<and> it_name o' = n"

definition at_tomb :: "int \<Rightarrow> bytes \<Rightarrow> tombstone \<Rightarrow> bool" where
  "at_tomb i n t \<longleftrightarrow> tb_collection t = i \<and> tb_name t = n"

definition coll_items :: "int \<Rightarrow> (('c, 'o) sync_db, 'o item_scheme list) step" where
  "coll_items i d = (Inr (sort_key it_name (filter (\<lambda>o'. it_collection o' = i) (items d))), d)"

definition item_by_name :: "int \<Rightarrow> bytes \<Rightarrow> (('c, 'o) sync_db, 'o item_scheme) step" where
  "item_by_name i n d =
     (case find (at_item i n) (items d) of None \<Rightarrow> (Inl ErrNotFound, d) | Some o' \<Rightarrow> (Inr o', d))"

text \<open>\<open>UPDATE \<dots> SET sync_token = sync_token + 1 \<dots> RETURNING sync_token\<close>.\<close>

definition next_token :: "int \<Rightarrow> (('c, 'o) sync_db, int) step" where
  "next_token i d =
     (case find (\<lambda>c. col_id c = i) (colls d) of
        None \<Rightarrow> (Inl ErrNotFound, d)
      | Some c \<Rightarrow> (Inr (col_token c + 1),
          d\<lparr>colls := map (\<lambda>x. if col_id x = i then x\<lparr>col_token := col_token x + 1\<rparr> else x) (colls d)\<rparr>))"

definition put_item :: "'o item_scheme \<Rightarrow> (('c, 'o) sync_db, 'o item_scheme) step" where
  "put_item o0 = (let i = it_collection o0; n = it_name o0 in
     bindE (next_token i) (\<lambda>token d.
       let o' = (norm_item o0)\<lparr>it_token := token\<rparr> in
       if list_ex (\<lambda>x. it_collection x = i \<and> it_uid x = it_uid o' \<and> it_name x \<noteq> n) (items d)
       then (Inl ErrConflict, d)
       else (Inr o', d\<lparr>items := (if list_ex (at_item i n) (items d)
                                then map (\<lambda>x. if at_item i n x then o' else x) (items d)
                                else items d @ [o']),
                       tombs := filter (\<lambda>t. \<not> at_tomb i n t) (tombs d)\<rparr>)))"

definition delete_item :: "int \<Rightarrow> bytes \<Rightarrow> int \<Rightarrow> (('c, 'o) sync_db, unit) step" where
  "delete_item i n at d0 =
     (let d = d0\<lparr>items := filter (\<lambda>o'. \<not> at_item i n o') (items d0)\<rparr>
      in if \<not> list_ex (at_item i n) (items d0) then (Inl ErrNotFound, d)
         else bindE (next_token i) (\<lambda>token d.
           let t = \<lparr>tb_collection = i, tb_name = n, tb_token = token, tb_deleted = truncate_time at\<rparr> in
           (Inr (), d\<lparr>tombs := (if list_ex (at_tomb i n) (tombs d)
                               then map (\<lambda>x. if at_tomb i n x then t else x) (tombs d)
                               else tombs d @ [t])\<rparr>)) d)"

text \<open>Members first, deletions second, then \<open>ORDER BY 2\<close>, the token.\<close>

definition changes_since :: "int \<Rightarrow> int \<Rightarrow> (('c, 'o) sync_db, change list) step" where
  "changes_since i since d =
     (Inr (sort_key ch_token
        (map (\<lambda>o'. \<lparr>ch_name = it_name o', ch_token = it_token o', ch_deleted = False\<rparr>)
           (filter (\<lambda>o'. it_collection o' = i \<and> since < it_token o') (items d))
         @ map (\<lambda>t. \<lparr>ch_name = tb_name t, ch_token = tb_token t, ch_deleted = True\<rparr>)
           (filter (\<lambda>t. tb_collection t = i \<and> since < tb_token t) (tombs d)))), d)"

text \<open>
  The mark of every collection that has something to forget is set to the highest token it
  forgets, whatever the mark was.
\<close>

definition doomed_tokens :: "int \<Rightarrow> tombstone list \<Rightarrow> int \<Rightarrow> int list" where
  "doomed_tokens before ts i = map tb_token (filter (\<lambda>t. tb_collection t = i \<and> tb_deleted t < before) ts)"

definition prune_tombs :: "int \<Rightarrow> (('c, 'o) sync_db, nat) step" where
  "prune_tombs before0 d =
     (let before = truncate_time before0 in
      (Inr (length (filter (\<lambda>t. tb_deleted t < before) (tombs d))),
       d\<lparr>colls := map (\<lambda>c. case doomed_tokens before (tombs d) (col_id c) of
                           [] \<Rightarrow> c | ts \<Rightarrow> c\<lparr>col_pruned := Max (set ts)\<rparr>) (colls d),
         tombs := filter (\<lambda>t. \<not> tb_deleted t < before) (tombs d)\<rparr>))"

section \<open>The two drivers\<close>

definition CreateCalendar :: "calendar \<Rightarrow> (calendar_db, calendar) step" where
  "CreateCalendar = create_coll"

definition Calendars_of :: "bytes \<Rightarrow> (calendar_db, calendar list) step" where
  "Calendars_of = owned_colls"

definition CalendarByName :: "bytes \<Rightarrow> bytes \<Rightarrow> (calendar_db, calendar) step" where
  "CalendarByName = coll_by_name"

definition UpdateCalendar :: "calendar \<Rightarrow> (calendar_db, unit) step" where
  "UpdateCalendar c = update_coll (\<lambda>x. x\<lparr>col_display := col_display c, col_description := col_description c,
     col_color := col_color c\<rparr>) (col_owner c) (col_name c)"

definition DeleteCalendar :: "bytes \<Rightarrow> bytes \<Rightarrow> (calendar_db, unit) step" where
  "DeleteCalendar = delete_coll"

definition CalendarObjects :: "int \<Rightarrow> (calendar_db, cal_object list) step" where
  "CalendarObjects = coll_items"

definition CalendarObject :: "int \<Rightarrow> bytes \<Rightarrow> (calendar_db, cal_object) step" where
  "CalendarObject = item_by_name"

definition PutCalendarObject :: "cal_object \<Rightarrow> (calendar_db, cal_object) step" where
  "PutCalendarObject = put_item"

definition DeleteCalendarObject :: "int \<Rightarrow> bytes \<Rightarrow> int \<Rightarrow> (calendar_db, unit) step" where
  "DeleteCalendarObject = delete_item"

definition CalendarChanges :: "int \<Rightarrow> int \<Rightarrow> (calendar_db, change list) step" where
  "CalendarChanges = changes_since"

definition PruneCalendarTombstones :: "int \<Rightarrow> (calendar_db, nat) step" where
  "PruneCalendarTombstones = prune_tombs"

definition CreateAddressBook :: "address_book \<Rightarrow> (contact_db, address_book) step" where
  "CreateAddressBook = create_coll"

definition AddressBooks_of :: "bytes \<Rightarrow> (contact_db, address_book list) step" where
  "AddressBooks_of = owned_colls"

definition AddressBookByName :: "bytes \<Rightarrow> bytes \<Rightarrow> (contact_db, address_book) step" where
  "AddressBookByName = coll_by_name"

definition UpdateAddressBook :: "address_book \<Rightarrow> (contact_db, unit) step" where
  "UpdateAddressBook b = update_coll (\<lambda>x. x\<lparr>col_display := col_display b, col_description := col_description b\<rparr>)
     (col_owner b) (col_name b)"

definition DeleteAddressBook :: "bytes \<Rightarrow> bytes \<Rightarrow> (contact_db, unit) step" where
  "DeleteAddressBook = delete_coll"

definition Contacts_in :: "int \<Rightarrow> (contact_db, contact list) step" where
  "Contacts_in = coll_items"

definition Contact_by :: "int \<Rightarrow> bytes \<Rightarrow> (contact_db, contact) step" where
  "Contact_by = item_by_name"

definition PutContact :: "contact \<Rightarrow> (contact_db, contact) step" where
  "PutContact = put_item"

definition DeleteContact :: "int \<Rightarrow> bytes \<Rightarrow> int \<Rightarrow> (contact_db, unit) step" where
  "DeleteContact = delete_item"

definition ContactChanges :: "int \<Rightarrow> int \<Rightarrow> (contact_db, change list) step" where
  "ContactChanges = changes_since"

definition PruneContactTombstones :: "int \<Rightarrow> (contact_db, nat) step" where
  "PruneContactTombstones = prune_tombs"

lemmas calendar_driver = CreateCalendar_def Calendars_of_def CalendarByName_def UpdateCalendar_def
  DeleteCalendar_def CalendarObjects_def CalendarObject_def PutCalendarObject_def
  DeleteCalendarObject_def CalendarChanges_def PruneCalendarTombstones_def

lemmas contact_driver = CreateAddressBook_def AddressBooks_of_def AddressBookByName_def UpdateAddressBook_def
  DeleteAddressBook_def Contacts_in_def Contact_by_def PutContact_def DeleteContact_def
  ContactChanges_def PruneContactTombstones_def

section \<open>What the tables stand for\<close>

definition live_of :: "'o item_scheme list \<Rightarrow> int \<Rightarrow> bytes \<Rightarrow> (bytes \<times> int) option" where
  "live_of os i n = map_option (\<lambda>o'. (it_etag o', it_token o')) (find (at_item i n) os)"

definition dead_of :: "tombstone list \<Rightarrow> int \<Rightarrow> bytes \<Rightarrow> (int \<times> int) option" where
  "dead_of ts i n = map_option (\<lambda>t. (tb_token t, tb_deleted t)) (find (at_tomb i n) ts)"

definition coll_of :: "('c, 'o) sync_db \<Rightarrow> int \<Rightarrow> coll option" where
  "coll_of d i = map_option (\<lambda>c. \<lparr>counter = col_token c, forgotten = col_pruned c,
     live = live_of (items d) i, dead = dead_of (tombs d) i\<rparr>) (find (\<lambda>c. col_id c = i) (colls d))"

text \<open>Keys are unique, members and deletions belong to a collection, and each collection is sound.\<close>

definition sync_ok :: "int \<Rightarrow> ('c, 'o) sync_db \<Rightarrow> bool" where
  "sync_ok T d \<longleftrightarrow>
     distinct (map col_id (colls d)) \<and> list_all (\<lambda>c. col_id c < next_coll d) (colls d)
     \<and> distinct (map (\<lambda>c. (col_owner c, col_name c)) (colls d))
     \<and> distinct (map (\<lambda>o'. (it_collection o', it_name o')) (items d))
     \<and> distinct (map (\<lambda>o'. (it_collection o', it_uid o')) (items d))
     \<and> list_all (\<lambda>o'. it_collection o' \<in> col_id ` set (colls d)) (items d)
     \<and> distinct (map (\<lambda>t. (tb_collection t, tb_name t)) (tombs d))
     \<and> list_all (\<lambda>t. tb_collection t \<in> col_id ` set (colls d)) (tombs d)
     \<and> (\<forall>i C. coll_of d i = Some C \<longrightarrow> coll_ok (truncate_time T) C)"

lemma sync_okD:
  assumes "sync_ok T d"
  shows "distinct (map col_id (colls d))" "c \<in> set (colls d) \<Longrightarrow> col_id c < next_coll d"
    "distinct (map (\<lambda>c. (col_owner c, col_name c)) (colls d))"
    "distinct (map (\<lambda>o'. (it_collection o', it_name o')) (items d))"
    "distinct (map (\<lambda>o'. (it_collection o', it_uid o')) (items d))"
    "o' \<in> set (items d) \<Longrightarrow> it_collection o' \<in> col_id ` set (colls d)"
    "distinct (map (\<lambda>t. (tb_collection t, tb_name t)) (tombs d))"
    "t \<in> set (tombs d) \<Longrightarrow> tb_collection t \<in> col_id ` set (colls d)"
    "coll_of d i = Some C \<Longrightarrow> coll_ok (truncate_time T) C"
  using assms unfolding sync_ok_def list_all_iff by blast+

lemma sync_okI:
  assumes "distinct (map col_id (colls d))" "\<And>c. c \<in> set (colls d) \<Longrightarrow> col_id c < next_coll d"
    "distinct (map (\<lambda>c. (col_owner c, col_name c)) (colls d))"
    "distinct (map (\<lambda>o'. (it_collection o', it_name o')) (items d))"
    "distinct (map (\<lambda>o'. (it_collection o', it_uid o')) (items d))"
    "\<And>o'. o' \<in> set (items d) \<Longrightarrow> it_collection o' \<in> col_id ` set (colls d)"
    "distinct (map (\<lambda>t. (tb_collection t, tb_name t)) (tombs d))"
    "\<And>t. t \<in> set (tombs d) \<Longrightarrow> tb_collection t \<in> col_id ` set (colls d)"
    "\<And>i C. coll_of d i = Some C \<Longrightarrow> coll_ok (truncate_time T) C"
  shows "sync_ok T d"
  using assms unfolding sync_ok_def list_all_iff by blast

text \<open>Rows of collections rewritten in place.\<close>

lemma sync_ok_rewrite:
  assumes ok: "sync_ok T d"
    and f: "\<And>c. col_id (f c) = col_id c \<and> col_owner (f c) = col_owner c \<and> col_name (f c) = col_name c"
    and same: "items d' = items d" "tombs d' = tombs d" "next_coll d' = next_coll d" "colls d' = map f (colls d)"
    and good: "\<And>i C. coll_of d' i = Some C \<Longrightarrow> coll_ok (truncate_time T) C"
  shows "sync_ok T d'"
proof -
  have ids: "map col_id (colls d') = map col_id (colls d)"
    and names: "map (\<lambda>c. (col_owner c, col_name c)) (colls d') = map (\<lambda>c. (col_owner c, col_name c)) (colls d)"
    using f by (simp_all add: same)
  have im: "col_id ` set (colls d') = col_id ` set (colls d)"
    using ids by (metis list.set_map)
  note D = sync_okD [OF ok]
  show ?thesis
    by (rule sync_okI) (use D(1,3,4,5,6,7,8) good im ids names in \<open>auto simp: same(1-3)\<close>,
      use D(2) f in \<open>auto simp: same\<close>)
qed

lemma empty_sync_ok: "sync_ok T empty_sync"
  by (simp add: sync_ok_def empty_sync_def coll_of_def)

lemma truncate_time_mono: "s \<le> t \<Longrightarrow> truncate_time s \<le> truncate_time t"
proof -
  assume "s \<le> t"
  then have "TimePrecision * (s div TimePrecision) \<le> TimePrecision * (t div TimePrecision)"
    by (simp add: zdiv_mono1 TimePrecision_def)
  then show ?thesis by (simp add: truncate_time_def minus_mod_eq_mult_div)
qed

lemma sync_ok_later: "sync_ok T d \<Longrightarrow> T \<le> T' \<Longrightarrow> sync_ok T' d"
  unfolding sync_ok_def using coll_ok_later truncate_time_mono by blast

text \<open>Finding the row of a key.\<close>

lemma find_map_if:
  "(\<And>x. Q x \<Longrightarrow> P (f x) = P x) \<Longrightarrow>
   find P (map (\<lambda>x. if Q x then f x else x) xs) = map_option (\<lambda>x. if Q x then f x else x) (find P xs)"
  by (induction xs) auto

lemma find_map_keep: "(\<And>x. P (f x) = P x) \<Longrightarrow> find P (map f xs) = map_option f (find P xs)"
  by (induction xs) auto

lemma find_filter_out: "(\<And>x. x \<in> set xs \<Longrightarrow> P x \<Longrightarrow> Q x) \<Longrightarrow> find P (filter Q xs) = find P xs"
  by (induction xs) auto

lemma find_filter_gone: "(\<And>x. P x \<Longrightarrow> \<not> Q x) \<Longrightarrow> find P (filter Q xs) = None"
  by (induction xs) auto

lemma find_append: "find P (xs @ [x]) = (case find P xs of None \<Rightarrow> if P x then Some x else None | Some y \<Rightarrow> Some y)"
  by (induction xs) auto

lemma find_none_iff: "find P xs = None \<longleftrightarrow> \<not> list_ex P xs"
  by (induction xs) auto

lemma find_someD: "find P xs = Some x \<Longrightarrow> P x \<and> x \<in> set xs"
  by (induction xs) (auto split: if_splits)

lemma find_unique:
  assumes d: "distinct (map k xs)" and k: "\<And>x y. P x \<Longrightarrow> P y \<Longrightarrow> k x = k y"
    and x: "x \<in> set xs" "P x"
  shows "find P xs = Some x"
proof -
  obtain y where y: "find P xs = Some y" using x by (metis find_None_iff option.exhaust)
  have "k x = k y" using k [OF x(2)] find_someD [OF y] by blast
  moreover have "inj_on k (set xs)" using d by (simp add: distinct_map)
  ultimately show ?thesis using y x(1) find_someD [OF y] by (simp add: inj_on_eq_iff)
qed

lemma coll_of_None: "coll_of d i = None \<longleftrightarrow> i \<notin> col_id ` set (colls d)"
  by (auto simp: coll_of_def find_None_iff)

text \<open>A collection nobody has a row for has no members and no deletions.\<close>

lemma unknown_empty:
  assumes "sync_ok T d" "i \<notin> col_id ` set (colls d)"
  shows "live_of (items d) i = Map.empty" "dead_of (tombs d) i = Map.empty"
  using sync_okD(6,8) [OF assms(1)] assms(2)
  by (auto simp: live_of_def dead_of_def fun_eq_iff find_None_iff at_item_def at_tomb_def)

section \<open>The statements refine the specification\<close>

lemma create_coll_refines:
  assumes ok: "sync_ok T d" and c: "create_coll c0 d = (Inr c, d')"
  shows "coll_of d' = (coll_of d)(col_id c \<mapsto> \<lparr>counter = 0, forgotten = 0, live = Map.empty, dead = Map.empty\<rparr>)"
    and "sync_ok T d'" and "coll_of d (col_id c) = None" and "col_id c = next_coll d"
    and "find (named (col_owner c0) (col_name c0)) (colls d') = Some c"
proof -
  have eq: "c = (norm_coll c0)\<lparr>col_id := next_coll d, col_token := 0, col_pruned := 0\<rparr>"
    "d' = d\<lparr>colls := colls d @ [c], next_coll := next_coll d + 1\<rparr>"
    and free: "\<not> list_ex (named (col_owner c0) (col_name c0)) (colls d)"
    using c by (auto simp: create_coll_def Let_def norm_coll_def split: if_splits)
  have new: "next_coll d \<notin> col_id ` set (colls d)" using sync_okD(2) [OF ok] by force
  then show none: "coll_of d (col_id c) = None" by (simp add: eq coll_of_None)
  show id: "col_id c = next_coll d" by (simp add: eq)
  have owner: "col_owner c = col_owner c0" "col_name c = col_name c0" by (simp_all add: eq norm_coll_def)
  have nf: "find (\<lambda>c. col_id c = next_coll d) (colls d) = None"
    using new by (auto simp: find_None_iff image_iff)
  show colls': "coll_of d' = (coll_of d)(col_id c \<mapsto> \<lparr>counter = 0, forgotten = 0, live = Map.empty, dead = Map.empty\<rparr>)"
  proof (rule ext)
    fix i
    show "coll_of d' i = ((coll_of d)(col_id c \<mapsto> \<lparr>counter = 0, forgotten = 0, live = Map.empty, dead = Map.empty\<rparr>)) i"
      using unknown_empty [OF ok new] nf
      by (auto simp: coll_of_def eq(2) find_append id) (simp_all add: eq(1) split: option.split)
  qed
  have "(col_owner c, col_name c) \<notin> (\<lambda>c. (col_owner c, col_name c)) ` set (colls d)"
    using free by (auto simp: list_ex_iff named_def owner)
  then have "distinct (map (\<lambda>c. (col_owner c, col_name c)) (colls d'))"
    using sync_okD(3) [OF ok] by (simp add: eq(2))
  moreover have "coll_ok (truncate_time T) C" if "coll_of d' i = Some C" for i C
    using that sync_okD(9) [OF ok] empty_coll_ok by (auto simp: colls' split: if_splits)
  moreover have "distinct (map col_id (colls d'))"
    using sync_okD(1) [OF ok] new by (simp add: eq(2) id)
  moreover have "col_id x < next_coll d'" if "x \<in> set (colls d')" for x
    using that sync_okD(2) [OF ok, of x] id by (auto simp: eq(2))
  ultimately show "sync_ok T d'"
    using sync_okD(4-8) [OF ok] by (intro sync_okI) (auto simp: eq(2))
  show "find (named (col_owner c0) (col_name c0)) (colls d') = Some c"
    using free by (simp add: eq(2) find_append find_none_iff [symmetric] named_def owner)
qed

text \<open>What a statement may set: anything but the keys and the counters.\<close>

definition keyless :: "('c collection_scheme \<Rightarrow> 'c collection_scheme) \<Rightarrow> bool" where
  "keyless f \<longleftrightarrow> (\<forall>c. col_id (f c) = col_id c \<and> col_owner (f c) = col_owner c \<and> col_name (f c) = col_name c
     \<and> col_token (f c) = col_token c \<and> col_pruned (f c) = col_pruned c)"

lemma update_coll_refines:
  assumes ok: "sync_ok T d" and f: "keyless f" and u: "update_coll f owner name d = (r, d')"
  shows "coll_of d' = coll_of d" "sync_ok T d'" "next_coll d' = next_coll d"
proof -
  have eq: "d' = d\<lparr>colls := map (\<lambda>c. if named owner name c then f c else c) (colls d)\<rparr>"
    using u by (auto simp: update_coll_def Let_def split: if_splits)
  show colls': "coll_of d' = coll_of d"
    using f by (auto simp: coll_of_def eq fun_eq_iff find_map_if keyless_def option.map_comp comp_def intro!: map_option_cong)
  show "sync_ok T d'"
    by (rule sync_ok_rewrite [OF ok, where f = "\<lambda>c. if named owner name c then f c else c"])
      (use f sync_okD(9) [OF ok] colls' in \<open>auto simp: eq keyless_def\<close>)
  show "next_coll d' = next_coll d" by (simp add: eq)
qed

lemma delete_coll_refines:
  assumes ok: "sync_ok T d" and del: "delete_coll owner name d = (r, d')"
  shows "coll_of d' i = (if \<exists>c\<in>set (colls d). named owner name c \<and> col_id c = i then None else coll_of d i)"
    and "sync_ok T d'" and "next_coll d' = next_coll d"
proof -
  let ?gone = "col_id ` {c \<in> set (colls d). named owner name c}"
  have eq: "d' = d\<lparr>colls := filter (\<lambda>c. \<not> named owner name c) (colls d),
      items := filter (\<lambda>o'. it_collection o' \<notin> ?gone) (items d),
      tombs := filter (\<lambda>t. tb_collection t \<notin> ?gone) (tombs d)\<rparr>"
  proof -
    have "d' = snd (delete_coll owner name d)" using del by simp
    also have "\<dots> = d\<lparr>colls := filter (\<lambda>c. \<not> named owner name c) (colls d),
      items := filter (\<lambda>o'. it_collection o' \<notin> ?gone) (items d),
      tombs := filter (\<lambda>t. tb_collection t \<notin> ?gone) (tombs d)\<rparr>"
      by (simp only: delete_coll_def Let_def if_distrib [where f = snd] snd_conv if_cancel set_map set_filter)
    finally show ?thesis .
  qed
  show "next_coll d' = next_coll d" by (simp add: eq)
  have keep: "col_id b \<noteq> col_id c"
    if "c \<in> set (colls d)" "\<not> named owner name c" "b \<in> set (colls d)" "named owner name b" for b c
    using sync_okD(1) [OF ok] that unfolding distinct_map by (blast dest: inj_onD)
  have left: "coll_of d' i = (if i \<in> ?gone then None else coll_of d i)" for i
  proof (cases "i \<in> ?gone")
    case True
    then have "i \<notin> col_id ` set (colls d')" using keep unfolding eq by (auto simp: image_iff)
    then show ?thesis using True by (simp add: coll_of_None)
  next
    case False
    have "find (\<lambda>c. col_id c = i) (colls d') = find (\<lambda>c. col_id c = i) (colls d)"
      unfolding eq using False by (auto intro!: find_filter_out)
    moreover have "live_of (items d') i = live_of (items d) i" "dead_of (tombs d') i = dead_of (tombs d) i"
      using False by (auto simp: eq live_of_def dead_of_def fun_eq_iff at_item_def at_tomb_def
          intro!: arg_cong [where f = "map_option g" for g] find_filter_out)
    ultimately show ?thesis using False by (simp add: coll_of_def)
  qed
  show "coll_of d' i = (if \<exists>c\<in>set (colls d). named owner name c \<and> col_id c = i then None else coll_of d i)"
    by (subst left) (auto simp: image_iff)
  note D = sync_okD [OF ok]
  have members: "x \<in> col_id ` set (colls d')" if "x \<in> col_id ` set (colls d)" "x \<notin> ?gone" for x
    using that by (auto simp: eq)
  show "sync_ok T d'"
  proof (rule sync_okI)
    show "it_collection o' \<in> col_id ` set (colls d')" if "o' \<in> set (items d')" for o'
      using that D(6) members by (auto simp: eq)
    show "tb_collection t \<in> col_id ` set (colls d')" if "t \<in> set (tombs d')" for t
      using that D(8) members by (auto simp: eq)
    show "coll_ok (truncate_time T) C" if "coll_of d' i = Some C" for i C
      using that left D(9) by (auto split: if_splits)
  qed (use D(1-5,7) in \<open>auto simp: eq distinct_map_filter\<close>)
qed

lemma next_token_cases:
  assumes "next_token i d = (r, d')"
  obtains "coll_of d i = None" "r = Inl ErrNotFound" "d' = d"
  | C where "coll_of d i = Some C" "r = Inr (counter C + 1)"
      "d' = d\<lparr>colls := map (\<lambda>x. if col_id x = i then x\<lparr>col_token := col_token x + 1\<rparr> else x) (colls d)\<rparr>"
  using assms by (auto simp: next_token_def coll_of_def split: option.splits)

text \<open>Counting up and changing members or deletions of the one collection.\<close>

lemma coll_of_counted:
  assumes C: "coll_of d i = Some C"
    and cols: "colls d' = map (\<lambda>x. if col_id x = i then x\<lparr>col_token := col_token x + 1\<rparr> else x) (colls d)"
    and live: "\<And>j. j \<noteq> i \<Longrightarrow> live_of (items d') j = live_of (items d) j"
    and dead: "\<And>j. j \<noteq> i \<Longrightarrow> dead_of (tombs d') j = dead_of (tombs d) j"
  shows "coll_of d' = (coll_of d)(i \<mapsto> C\<lparr>counter := counter C + 1, live := live_of (items d') i, dead := dead_of (tombs d') i\<rparr>)"
proof (rule ext)
  fix j
  have find: "find (\<lambda>c. col_id c = j) (colls d')
      = map_option (\<lambda>x. if col_id x = i then x\<lparr>col_token := col_token x + 1\<rparr> else x) (find (\<lambda>c. col_id c = j) (colls d))"
    unfolding cols by (rule find_map_if) simp
  show "coll_of d' j = ((coll_of d)(i \<mapsto> C\<lparr>counter := counter C + 1, live := live_of (items d') i, dead := dead_of (tombs d') i\<rparr>)) j"
  proof (cases "j = i")
    case True
    obtain z where z: "find (\<lambda>c. col_id c = i) (colls d) = Some z" using C by (auto simp: coll_of_def)
    then have "col_id z = i" by (rule find_someD [THEN conjunct1])
    then have "C = \<lparr>counter = col_token z, forgotten = col_pruned z, live = live_of (items d) i, dead = dead_of (tombs d) i\<rparr>"
      and "find (\<lambda>c. col_id c = i) (colls d') = Some (z\<lparr>col_token := col_token z + 1\<rparr>)"
      using C find unfolding True by (simp_all add: coll_of_def z)
    then show ?thesis unfolding True by (simp add: coll_of_def)
  next
    case False
    have "find (\<lambda>c. col_id c = j) (colls d') = find (\<lambda>c. col_id c = j) (colls d)"
    proof (cases "find (\<lambda>c. col_id c = j) (colls d)")
      case (Some z)
      then have "col_id z = j" by (rule find_someD [THEN conjunct1])
      then show ?thesis using find Some False by simp
    qed (simp add: find)
    then show ?thesis using False by (simp add: coll_of_def live dead)
  qed
qed

lemma sync_ok_counted:
  assumes ok: "sync_ok T d"
    and cols: "colls d' = map (\<lambda>x. if col_id x = i then x\<lparr>col_token := col_token x + 1\<rparr> else x) (colls d)"
    and nxt: "next_coll d' = next_coll d"
    and i: "distinct (map (\<lambda>o'. (it_collection o', it_name o')) (items d'))"
      "distinct (map (\<lambda>o'. (it_collection o', it_uid o')) (items d'))"
      "\<And>o'. o' \<in> set (items d') \<Longrightarrow> it_collection o' \<in> col_id ` set (colls d)"
      "distinct (map (\<lambda>t. (tb_collection t, tb_name t)) (tombs d'))"
      "\<And>t. t \<in> set (tombs d') \<Longrightarrow> tb_collection t \<in> col_id ` set (colls d)"
    and good: "\<And>j C. coll_of d' j = Some C \<Longrightarrow> coll_ok (truncate_time T) C"
  shows "sync_ok T d'"
proof -
  have ids: "map col_id (colls d') = map col_id (colls d)"
    and names: "map (\<lambda>c. (col_owner c, col_name c)) (colls d') = map (\<lambda>c. (col_owner c, col_name c)) (colls d)"
    by (simp_all add: cols comp_def if_distrib [where f = col_id] if_distrib [where f = col_owner] if_distrib [where f = col_name] cong: if_cong)
  have im: "col_id ` set (colls d') = col_id ` set (colls d)" using ids by (metis list.set_map)
  show ?thesis
    by (rule sync_okI) (use sync_okD(1,3) [OF ok] ids names im i good in auto,
      use sync_okD(2) [OF ok] in \<open>auto simp: cols nxt\<close>)
qed

text \<open>No two members of a collection have one UID after a write that found none under another name.\<close>

lemma put_uids_distinct:
  assumes names: "distinct (map (\<lambda>o'. (it_collection o', it_name o')) os)"
    and uids: "distinct (map (\<lambda>o'. (it_collection o', it_uid o')) os)"
    and free: "\<not> list_ex (\<lambda>x. it_collection x = i \<and> it_uid x = u \<and> it_name x \<noteq> n) os"
    and key: "it_collection o' = i" "it_name o' = n" "it_uid o' = u"
  shows "distinct (map (\<lambda>o'. (it_collection o', it_uid o'))
     (if list_ex (at_item i n) os then map (\<lambda>x. if at_item i n x then o' else x) os else os @ [o']))"
proof (cases "list_ex (at_item i n) os")
  case False
  then have "(i, u) \<notin> (\<lambda>o'. (it_collection o', it_uid o')) ` set os"
    using free by (auto simp: list_ex_iff at_item_def)
  then show ?thesis using uids False by (simp add: key)
next
  case True
  let ?f = "\<lambda>x. if at_item i n x then o' else x"
  have "inj_on (\<lambda>x. (it_collection (?f x), it_uid (?f x))) (set os)"
  proof (rule inj_onI)
    fix x y
    assume x: "x \<in> set os" and y: "y \<in> set os" and eq: "(it_collection (?f x), it_uid (?f x)) = (it_collection (?f y), it_uid (?f y))"
    have same: "x = y" if "at_item i n x" "at_item i n y"
      using names that x y unfolding distinct_map by (auto simp: at_item_def dest: inj_onD)
    have other: "at_item i n z" if "z \<in> set os" "it_collection z = i" "it_uid z = u" for z
      using free that by (auto simp: list_ex_iff at_item_def)
    have plain: "x = y" if "it_collection x = it_collection y" "it_uid x = it_uid y"
      using uids that x y unfolding distinct_map by (auto dest: inj_onD)
    show "x = y" using eq same other [OF x] other [OF y] plain by (auto simp: key split: if_splits)
  qed
  moreover have "distinct os" using names by (simp add: distinct_map)
  ultimately show ?thesis using True by (simp add: distinct_map comp_def del: if_distrib)
qed

lemma put_item_refines:
  assumes ok: "sync_ok T d" and put: "put_item o0 d = (Inr o', d')"
  obtains C where "coll_of d (it_collection o0) = Some C"
    and "coll_of d' = (coll_of d)(it_collection o0 \<mapsto> a_write (it_name o0) (it_etag o0) C)"
    and "sync_ok T d'" and "next_coll d' = next_coll d"
    and "o' = (norm_item o0)\<lparr>it_token := counter C + 1\<rparr>"
proof -
  let ?i = "it_collection o0" and ?n = "it_name o0"
  obtain token d1 where n: "next_token ?i d = (Inr token, d1)"
    using put unfolding put_item_def Let_def by (auto elim!: bindE_okE)
  obtain C where C: "coll_of d ?i = Some C" "token = counter C + 1"
      "d1 = d\<lparr>colls := map (\<lambda>x. if col_id x = ?i then x\<lparr>col_token := col_token x + 1\<rparr> else x) (colls d)\<rparr>"
    using n by (auto elim: next_token_cases)
  let ?new = "if list_ex (at_item ?i ?n) (items d) then map (\<lambda>x. if at_item ?i ?n x then o' else x) (items d)
     else items d @ [o']"
  have o': "o' = (norm_item o0)\<lparr>it_token := token\<rparr>"
    and uid: "\<not> list_ex (\<lambda>x. it_collection x = ?i \<and> it_uid x = it_uid o0 \<and> it_name x \<noteq> ?n) (items d)"
    and d': "d' = d1\<lparr>items := ?new, tombs := filter (\<lambda>t. \<not> at_tomb ?i ?n t) (tombs d)\<rparr>"
    using put n by (auto simp: put_item_def Let_def bindE_def norm_item_def C(3) split: if_splits)
  have key: "it_collection o' = ?i" "it_name o' = ?n" "it_uid o' = it_uid o0" "it_etag o' = it_etag o0" "it_token o' = token"
    by (simp_all add: o' norm_item_def)
  note D = sync_okD [OF ok]
  have live: "live_of (items d') j = (if j = ?i then (live_of (items d) ?i)(?n \<mapsto> (it_etag o0, token)) else live_of (items d) j)" for j
  proof (rule ext)
    fix m
    show "live_of (items d') j m = (if j = ?i then (live_of (items d) ?i)(?n \<mapsto> (it_etag o0, token)) else live_of (items d) j) m"
    proof (cases "list_ex (at_item ?i ?n) (items d)")
      case True
      then have "items d' = map (\<lambda>x. if at_item ?i ?n x then o' else x) (items d)" by (simp add: d')
      moreover have "find (at_item j m) (map (\<lambda>x. if at_item ?i ?n x then o' else x) (items d))
          = map_option (\<lambda>x. if at_item ?i ?n x then o' else x) (find (at_item j m) (items d))"
        by (rule find_map_if) (auto simp: at_item_def key)
      moreover obtain x where "find (at_item ?i ?n) (items d) = Some x" using True find_none_iff by blast
      ultimately show ?thesis
        using find_someD [of "at_item j m" "items d"] find_someD [of "at_item ?i ?n" "items d"]
        by (cases "find (at_item j m) (items d)") (auto simp: live_of_def at_item_def key)
    next
      case False
      then have "items d' = items d @ [o']" "find (at_item ?i ?n) (items d) = None" by (simp_all add: d' find_none_iff)
      then show ?thesis by (auto simp: live_of_def find_append at_item_def key split: option.split)
    qed
  qed
  have dead: "dead_of (tombs d') j = (if j = ?i then (dead_of (tombs d) ?i)(?n := None) else dead_of (tombs d) j)" for j
  proof (rule ext)
    fix m
    have "find (at_tomb j m) (filter (\<lambda>t. \<not> at_tomb ?i ?n t) (tombs d))
        = (if j = ?i \<and> m = ?n then None else find (at_tomb j m) (tombs d))"
      by (auto intro!: find_filter_out find_filter_gone simp: at_tomb_def)
    then show "dead_of (tombs d') j m = (if j = ?i then (dead_of (tombs d) ?i)(?n := None) else dead_of (tombs d) j) m"
      by (simp add: dead_of_def d')
  qed
  have Cd: "live C = live_of (items d) ?i" "dead C = dead_of (tombs d) ?i" using C(1) by (auto simp: coll_of_def)
  have abs: "coll_of d' = (coll_of d)(?i \<mapsto> a_write ?n (it_etag o0) C)"
  proof -
    have cols: "colls d' = map (\<lambda>x. if col_id x = ?i then x\<lparr>col_token := col_token x + 1\<rparr> else x) (colls d)"
      by (simp add: d' C(3))
    show ?thesis by (subst coll_of_counted [OF C(1) cols]) (simp_all add: live dead a_write_def Cd C(2))
  qed
  have good: "coll_ok (truncate_time T) B" if "coll_of d' j = Some B" for j B
    using that D(9) a_write_ok [OF D(9) [OF C(1)]] by (auto simp: abs split: if_splits)
  have old: "x = o'" if "x \<in> set (items d')" "x \<notin> set (items d)" for x
    using that by (auto simp: d' split: if_splits)
  have names: "distinct (map (\<lambda>o'. (it_collection o', it_name o')) (items d'))"
  proof (cases "list_ex (at_item ?i ?n) (items d)")
    case True
    then have "map (\<lambda>o'. (it_collection o', it_name o')) (items d') = map (\<lambda>o'. (it_collection o', it_name o')) (items d)"
      by (auto simp: d' at_item_def key)
    then show ?thesis using D(4) by simp
  next
    case False
    then show ?thesis using D(4) by (auto simp: d' at_item_def key list_ex_iff)
  qed
  have uids: "distinct (map (\<lambda>o'. (it_collection o', it_uid o')) (items d'))"
    using put_uids_distinct [OF D(4,5) uid key(1-3)] by (simp add: d')
  have im: "?i \<in> col_id ` set (colls d)" using C(1) coll_of_None [of d ?i] by auto
  have owned: "it_collection x \<in> col_id ` set (colls d)" if "x \<in> set (items d')" for x
    using D(6) [of x] old [OF that] im key(1) by metis
  have "sync_ok T d'"
    by (rule sync_ok_counted [OF ok _ _ names uids owned _ _ good])
      (use D(7,8) in \<open>auto simp: d' C(3) distinct_map_filter\<close>)
  then show ?thesis using that C abs by (simp add: d' C(3) o')
qed

lemma dead_put:
  assumes "t = \<lparr>tb_collection = i, tb_name = n, tb_token = k, tb_deleted = at\<rparr>"
  defines "ts' \<equiv> \<lambda>ts. if list_ex (at_tomb i n) ts then map (\<lambda>x. if at_tomb i n x then t else x) ts else ts @ [t]"
  shows "dead_of (ts' ts) j = (if j = i then (dead_of ts i)(n \<mapsto> (k, at)) else dead_of ts j)"
    and "map (\<lambda>t. (tb_collection t, tb_name t)) (ts' ts)
       = (if list_ex (at_tomb i n) ts then map (\<lambda>t. (tb_collection t, tb_name t)) ts
          else map (\<lambda>t. (tb_collection t, tb_name t)) ts @ [(i, n)])"
proof -
  have t: "tb_collection t = i" "tb_name t = n" "tb_token t = k" "tb_deleted t = at" by (simp_all add: assms(1))
  show "dead_of (ts' ts) j = (if j = i then (dead_of ts i)(n \<mapsto> (k, at)) else dead_of ts j)"
  proof (rule ext)
    fix m
    show "dead_of (ts' ts) j m = (if j = i then (dead_of ts i)(n \<mapsto> (k, at)) else dead_of ts j) m"
    proof (cases "list_ex (at_tomb i n) ts")
      case True
      then have "ts' ts = map (\<lambda>x. if at_tomb i n x then t else x) ts" by (simp add: ts'_def)
      moreover have "find (at_tomb j m) (map (\<lambda>x. if at_tomb i n x then t else x) ts)
          = map_option (\<lambda>x. if at_tomb i n x then t else x) (find (at_tomb j m) ts)"
        by (rule find_map_if) (auto simp: at_tomb_def t)
      moreover obtain x where "find (at_tomb i n) ts = Some x" using True find_none_iff by blast
      ultimately show ?thesis
        using find_someD [of "at_tomb j m" ts] find_someD [of "at_tomb i n" ts]
        by (cases "find (at_tomb j m) ts") (auto simp: dead_of_def at_tomb_def t)
    next
      case False
      then have "ts' ts = ts @ [t]" "find (at_tomb i n) ts = None" by (simp_all add: ts'_def find_none_iff)
      then show ?thesis by (auto simp: dead_of_def find_append at_tomb_def t split: option.split)
    qed
  qed
  show "map (\<lambda>t. (tb_collection t, tb_name t)) (ts' ts)
       = (if list_ex (at_tomb i n) ts then map (\<lambda>t. (tb_collection t, tb_name t)) ts
          else map (\<lambda>t. (tb_collection t, tb_name t)) ts @ [(i, n)])"
    by (auto simp: ts'_def t at_tomb_def)
qed

lemma delete_item_refines:
  assumes ok: "sync_ok T d" and del: "delete_item i n T d = (Inr u, d')"
  obtains C where "coll_of d i = Some C" and "live C n \<noteq> None"
    and "coll_of d' = (coll_of d)(i \<mapsto> a_erase n (truncate_time T) C)"
    and "sync_ok T d'" and "next_coll d' = next_coll d"
proof -
  let ?d = "d\<lparr>items := filter (\<lambda>o'. \<not> at_item i n o') (items d)\<rparr>"
  have there: "list_ex (at_item i n) (items d)"
    using del by (auto simp: delete_item_def Let_def split: if_splits)
  obtain token d1 where tk: "next_token i ?d = (Inr token, d1)"
    using del there unfolding delete_item_def Let_def by (auto elim!: bindE_okE)
  obtain C0 where C0: "coll_of ?d i = Some C0" "token = counter C0 + 1"
      "d1 = ?d\<lparr>colls := map (\<lambda>x. if col_id x = i then x\<lparr>col_token := col_token x + 1\<rparr> else x) (colls ?d)\<rparr>"
    using tk by (auto elim: next_token_cases)
  then obtain C where C: "coll_of d i = Some C" "counter C = counter C0" by (auto simp: coll_of_def)
  define t where "t = \<lparr>tb_collection = i, tb_name = n, tb_token = token, tb_deleted = truncate_time T\<rparr>"
  have d': "d' = d1\<lparr>tombs := (if list_ex (at_tomb i n) (tombs d) then map (\<lambda>x. if at_tomb i n x then t else x) (tombs d)
      else tombs d @ [t])\<rparr>"
    using del there tk by (auto simp: delete_item_def Let_def bindE_def C0(3) t_def)
  note D = sync_okD [OF ok] and dead = dead_put [OF t_def]
  have live: "live_of (items d') j = (if j = i then (live_of (items d) i)(n := None) else live_of (items d) j)" for j
  proof (rule ext)
    fix m
    have "find (at_item j m) (filter (\<lambda>o'. \<not> at_item i n o') (items d))
        = (if j = i \<and> m = n then None else find (at_item j m) (items d))"
      by (auto intro!: find_filter_out find_filter_gone simp: at_item_def)
    then show "live_of (items d') j m = (if j = i then (live_of (items d) i)(n := None) else live_of (items d) j) m"
      by (simp add: live_of_def d' C0(3))
  qed
  have Cd: "live C = live_of (items d) i" "dead C = dead_of (tombs d) i" using C(1) by (auto simp: coll_of_def)
  have abs: "coll_of d' = (coll_of d)(i \<mapsto> a_erase n (truncate_time T) C)"
  proof -
    have cols: "colls d' = map (\<lambda>x. if col_id x = i then x\<lparr>col_token := col_token x + 1\<rparr> else x) (colls d)"
      and dead': "dead_of (tombs d') j = (if j = i then (dead_of (tombs d) i)(n \<mapsto> (token, truncate_time T)) else dead_of (tombs d) j)" for j
      by (simp_all add: d' C0(3) dead(1))
    show ?thesis by (subst coll_of_counted [OF C(1) cols]) (simp_all add: live dead' C0(2) a_erase_def Cd C(2))
  qed
  have good: "coll_ok (truncate_time T) B" if "coll_of d' j = Some B" for j B
    using that D(9) a_erase_ok [OF D(9) [OF C(1)]] by (auto simp: abs split: if_splits)
  have im: "i \<in> col_id ` set (colls d)" using C(1) coll_of_None [of d i] by auto
  have tombs: "distinct (map (\<lambda>t. (tb_collection t, tb_name t)) (tombs d'))"
    using D(7) by (simp add: d' dead(2)) (auto simp: list_ex_iff at_tomb_def)
  have "tb_collection x \<in> col_id ` set (colls d)" if "x \<in> set (tombs d')" for x
    using that D(8) im by (auto simp: d' t_def split: if_splits)
  then have "sync_ok T d'"
    using D(4,5,6)
    by (intro sync_ok_counted [OF ok, of d' i] tombs good) (auto simp: d' C0(3) distinct_map_filter)
  moreover have "live C n \<noteq> None" using there find_none_iff [of "at_item i n" "items d"] by (auto simp: Cd live_of_def)
  ultimately show ?thesis using that C abs by (simp add: d' C0(3))
qed

lemma prune_tombs_refines:
  assumes ok: "sync_ok T d" and pr: "prune_tombs before d = (r, d')"
  shows "coll_of d' i = map_option (a_forget (truncate_time before)) (coll_of d i)"
    and "sync_ok T d'" and "next_coll d' = next_coll d"
proof -
  let ?b = "truncate_time before"
  define f where "f c = (case doomed_tokens ?b (tombs d) (col_id c) of [] \<Rightarrow> c | ts \<Rightarrow> c\<lparr>col_pruned := Max (set ts)\<rparr>)" for c :: "'a collection_scheme"
  have d': "d' = d\<lparr>colls := map f (colls d), tombs := filter (\<lambda>t. \<not> tb_deleted t < ?b) (tombs d)\<rparr>"
    using pr by (auto simp: prune_tombs_def Let_def f_def [abs_def])
  have f: "col_id (f c) = col_id c \<and> col_owner (f c) = col_owner c \<and> col_name (f c) = col_name c \<and> col_token (f c) = col_token c" for c
    by (simp add: f_def split: list.split)
  note D = sync_okD [OF ok]
  have uniq: "find (at_tomb i n) (tombs d) = Some t \<longleftrightarrow> t \<in> set (tombs d) \<and> at_tomb i n t" for i n t
    using find_unique [OF D(7), of "at_tomb i n" t] find_someD [of "at_tomb i n" "tombs d" t] by (auto simp: at_tomb_def)
  have refines: "coll_of d' i = map_option (a_forget ?b) (coll_of d i)" for i
  proof (cases "find (\<lambda>c. col_id c = i) (colls d)")
    case None
    have "find (\<lambda>c. col_id c = i) (map f (colls d)) = map_option f (find (\<lambda>c. col_id c = i) (colls d))"
      using f by (intro find_map_keep) simp
    then show ?thesis using None by (simp add: coll_of_def d')
  next
    case (Some c)
    have id: "col_id c = i" using find_someD [OF Some] by blast
    have found: "find (\<lambda>c. col_id c = i) (map f (colls d)) = Some (f c)"
      using f Some by (subst find_map_keep) simp_all
    define C where "C = \<lparr>counter = col_token c, forgotten = col_pruned c, live = live_of (items d) i, dead = dead_of (tombs d) i\<rparr>"
    have C: "coll_of d i = Some C" by (simp add: coll_of_def Some C_def)
    have dC: "dead C n = Some (k, at) \<longleftrightarrow> (\<exists>t\<in>set (tombs d). at_tomb i n t \<and> tb_token t = k \<and> tb_deleted t = at)" for n k at
      using uniq by (auto simp: C_def dead_of_def)
    have tokens: "set (doomed_tokens ?b (tombs d) i) = (\<lambda>n. fst (the (dead C n))) ` expired ?b C"
    proof (intro equalityI subsetI)
      fix k assume "k \<in> set (doomed_tokens ?b (tombs d) i)"
      then obtain t where t: "t \<in> set (tombs d)" "tb_collection t = i" "tb_deleted t < ?b" "k = tb_token t"
        by (auto simp: doomed_tokens_def)
      then have "dead C (tb_name t) = Some (k, tb_deleted t)" using dC by (auto simp: at_tomb_def)
      then show "k \<in> (\<lambda>n. fst (the (dead C n))) ` expired ?b C" using t(3) by (force simp: expired_def)
    next
      fix k assume "k \<in> (\<lambda>n. fst (the (dead C n))) ` expired ?b C"
      then obtain n at where "dead C n = Some (k, at)" "at < ?b" by (auto simp: expired_def)
      then show "k \<in> set (doomed_tokens ?b (tombs d) i)" using dC by (auto simp: doomed_tokens_def at_tomb_def)
    qed
    have left: "dead_of (filter (\<lambda>t. \<not> tb_deleted t < ?b) (tombs d)) i = dead C |` (- expired ?b C)"
    proof (rule ext)
      fix n
      show "dead_of (filter (\<lambda>t. \<not> tb_deleted t < ?b) (tombs d)) i n = (dead C |` (- expired ?b C)) n"
      proof (cases "find (at_tomb i n) (tombs d)")
        case None
        then have "find (at_tomb i n) (filter (\<lambda>t. \<not> tb_deleted t < ?b) (tombs d)) = None"
          by (auto simp: find_None_iff)
        then show ?thesis using None by (simp add: dead_of_def C_def restrict_map_def)
      next
        case (Some t)
        have only: "x = t" if "x \<in> set (tombs d)" "at_tomb i n x" for x using uniq [of i n x] Some that by simp
        have t: "t \<in> set (tombs d)" "at_tomb i n t" using find_someD [OF Some] by auto
        have keys: "distinct (map (\<lambda>t. (tb_collection t, tb_name t)) (filter (\<lambda>t. \<not> tb_deleted t < ?b) (tombs d)))"
          using D(7) by (simp add: distinct_map_filter)
        have kept: "find (at_tomb i n) (filter (\<lambda>t. \<not> tb_deleted t < ?b) (tombs d)) = Some t" if "\<not> tb_deleted t < ?b"
          by (rule find_unique [OF keys]) (use t that in \<open>auto simp: at_tomb_def\<close>)
        have "find (at_tomb i n) (filter (\<lambda>t. \<not> tb_deleted t < ?b) (tombs d)) = None" if "tb_deleted t < ?b"
          using only that by (auto simp: find_None_iff)
        with kept have "find (at_tomb i n) (filter (\<lambda>t. \<not> tb_deleted t < ?b) (tombs d)) = (if tb_deleted t < ?b then None else Some t)"
          by simp
        then show ?thesis using Some by (simp add: dead_of_def C_def restrict_map_def expired_def)
      qed
    qed
    have after: "coll_of d' i = Some \<lparr>counter = col_token (f c), forgotten = col_pruned (f c),
        live = live_of (items d) i, dead = dead C |` (- expired ?b C)\<rparr>"
      by (simp add: coll_of_def d' found left)
    show ?thesis
    proof (cases "expired ?b C = {}")
      case True
      then have "doomed_tokens ?b (tombs d) i = []" using tokens by simp
      then show ?thesis using True id
        by (simp add: after C a_forget_def restrict_map_def f_def) (simp add: C_def)
    next
      case False
      then obtain k ks where ks: "doomed_tokens ?b (tombs d) i = k # ks" using tokens by (cases "doomed_tokens ?b (tombs d) i") auto
      then have "col_pruned (f c) = Max ((\<lambda>n. fst (the (dead C n))) ` expired ?b C)" "col_token (f c) = col_token c"
        using id by (simp_all add: f_def tokens [symmetric])
      then show ?thesis using False by (simp add: after C a_forget_def) (simp add: C_def)
    qed
  qed
  then show "coll_of d' i = map_option (a_forget ?b) (coll_of d i)" .
  have "map col_id (colls d') = map col_id (colls d)" using f by (simp add: d')
  then have im: "col_id ` set (colls d') = col_id ` set (colls d)" by (metis list.set_map)
  show "sync_ok T d'"
  proof (rule sync_okI)
    show "coll_ok (truncate_time T) C" if "coll_of d' j = Some C" for j C
      using that refines D(9) a_forget_ok by fastforce
  qed (use D f im in \<open>auto simp: d' distinct_map_filter comp_def\<close>)
  show "next_coll d' = next_coll d" by (simp add: d')
qed

end
