(* ===== verification/SyncHistory.thy ===== *)
theory SyncHistory
  imports SyncTables
begin

text \<open>
  Everything requests can commit to the tables of theory \<open>SyncTables\<close>, as a step relation, and
  what it keeps: the tables stay sound, identifiers are not used twice, and a client's copy
  stays right up to what was stamped after its token.
\<close>

section \<open>Steps\<close>

text \<open>
  A deletion is stamped with the time it is made at.  In a \<open>quiet\<close> history no collection is
  deleted and no deletion forgotten.
\<close>

inductive sync_step :: "bool \<Rightarrow> ('c, 'o) sync_db \<times> int \<Rightarrow> ('c, 'o) sync_db \<times> int \<Rightarrow> bool" for quiet where
  tick: "T \<le> T' \<Longrightarrow> sync_step quiet (d, T) (d, T')"
| creates: "create_coll c d = (Inr x, d') \<Longrightarrow> sync_step quiet (d, T) (d', T)"
| updates: "keyless f \<Longrightarrow> update_coll f owner name d = (r, d') \<Longrightarrow> sync_step quiet (d, T) (d', T)"
| puts: "put_item o0 d = (Inr o', d') \<Longrightarrow> sync_step quiet (d, T) (d', T)"
| erases: "delete_item i n T d = (Inr u, d') \<Longrightarrow> sync_step quiet (d, T) (d', T)"
| deletes: "\<not> quiet \<Longrightarrow> delete_coll owner name d = (r, d') \<Longrightarrow> sync_step quiet (d, T) (d', T)"
| prunes: "\<not> quiet \<Longrightarrow> prune_tombs before d = (r, d') \<Longrightarrow> sync_step quiet (d, T) (d', T)"

inductive_cases sync_stepE: "sync_step quiet (d, T) (d', T')"
lemmas step_cases = sync_stepE [consumes 1, case_names tick creates updates puts erases deletes prunes]

definition sync_runs :: "bool \<Rightarrow> ('c, 'o) sync_db \<times> int \<Rightarrow> ('c, 'o) sync_db \<times> int \<Rightarrow> bool" where
  "sync_runs quiet = (sync_step quiet)\<^sup>*\<^sup>*"

interpretation runs: history "sync_runs quiet" for quiet
  by unfold_locales (auto simp: sync_runs_def)

lemma runs_one: "sync_step quiet x y \<Longrightarrow> sync_runs quiet x y"
  by (simp add: sync_runs_def)

text \<open>A quiet history is a history.\<close>

lemma quiet_step: "sync_step True x y \<Longrightarrow> sync_step False x y"
  by (induction rule: sync_step.induct) (auto intro: sync_step.intros)

lemma quiet_runs: "sync_runs True x y \<Longrightarrow> sync_runs False x y"
  unfolding sync_runs_def by (induction rule: rtranclp_induct) (auto intro: rtranclp.rtrancl_into_rtrancl quiet_step)

lemma runs_induct [consumes 1, case_names start step]:
  assumes "sync_runs quiet (d, T) (d', T')"
    and "P d T"
    and "\<And>d1 T1 d2 T2. sync_runs quiet (d, T) (d1, T1) \<Longrightarrow> sync_step quiet (d1, T1) (d2, T2) \<Longrightarrow> P d1 T1 \<Longrightarrow> P d2 T2"
  shows "P d' T'"
  using assms unfolding sync_runs_def by (rule rtranclp_induct2)

section \<open>What every step keeps\<close>

lemma step_ok:
  assumes "sync_step quiet (d, T) (d', T')" "sync_ok T d"
  shows "sync_ok T' d' \<and> T \<le> T' \<and> next_coll d \<le> next_coll d'"
  using assms
proof (cases rule: step_cases)
  case (creates c x)
  moreover have "next_coll d' = next_coll d + 1"
    using creates(2) by (auto simp: create_coll_def Let_def split: if_splits)
  ultimately show ?thesis using create_coll_refines(2) [OF assms(2) creates(2)] by simp
next
  case (puts o0 o')
  have "sync_ok T d'" "next_coll d' = next_coll d" using put_item_refines [OF assms(2) puts(2)] by metis+
  then show ?thesis using puts(1) by simp
next
  case (erases i n)
  have "sync_ok T d'" "next_coll d' = next_coll d" using delete_item_refines [OF assms(2) erases(2)] by metis+
  then show ?thesis using erases(1) by simp
next
  case tick
  then show ?thesis using sync_ok_later [OF assms(2)] by simp
next
  case (updates f owner name r)
  then show ?thesis using update_coll_refines(2,3) [OF assms(2) updates(2,3)] by simp
next
  case (deletes owner name r)
  then show ?thesis using delete_coll_refines(2,3) [OF assms(2) deletes(3)] by simp
next
  case (prunes before r)
  then show ?thesis using prune_tombs_refines(2,3) [OF assms(2) prunes(3)] by simp
qed

text \<open>One collection across a step: gone, new, or changed as the specification has it.\<close>

lemma step_coll:
  assumes st: "sync_step quiet (d, T) (d', T')" and ok: "sync_ok T d"
  shows "coll_of d' i = coll_of d i
    \<or> coll_of d' i = None \<and> \<not> quiet
    \<or> coll_of d i = None \<and> next_coll d \<le> i
    \<or> (\<exists>C. coll_of d i = Some C \<and>
        ((\<exists>n tag. coll_of d' i = Some (a_write n tag C))
         \<or> (\<exists>n at. live C n \<noteq> None \<and> coll_of d' i = Some (a_erase n at C))
         \<or> (\<exists>b. coll_of d' i = Some (a_forget b C) \<and> \<not> quiet)))"
  using st
proof (cases rule: step_cases)
  case (creates c x)
  with create_coll_refines [OF ok creates(2)] show ?thesis by auto
next
  case (updates f owner name r)
  with update_coll_refines [OF ok updates(2,3)] show ?thesis by auto
next
  case (puts o0 o')
  obtain C where "coll_of d (it_collection o0) = Some C"
    "coll_of d' = (coll_of d)(it_collection o0 \<mapsto> a_write (it_name o0) (it_etag o0) C)"
    using put_item_refines [OF ok puts(2)] by metis
  then show ?thesis by auto
next
  case (erases j n)
  obtain C where "coll_of d j = Some C" "live C n \<noteq> None"
    "coll_of d' = (coll_of d)(j \<mapsto> a_erase n (truncate_time T) C)"
    using delete_item_refines [OF ok erases(2)] by metis
  then have "coll_of d' i = coll_of d i \<or> coll_of d i = Some C \<and> live C n \<noteq> None
      \<and> coll_of d' i = Some (a_erase n (truncate_time T) C)" by (cases "i = j") simp_all
  then show ?thesis by blast
next
  case (deletes owner name r)
  with delete_coll_refines(1) [OF ok deletes(3), of i] show ?thesis by (auto split: if_splits)
next
  case (prunes before r)
  with prune_tombs_refines(1) [OF ok prunes(3), of i] show ?thesis by (cases "coll_of d i") auto
qed auto

lemma runs_ok:
  assumes "sync_runs quiet (d, T) (d', T')" "sync_ok T d"
  shows "sync_ok T' d' \<and> T \<le> T' \<and> next_coll d \<le> next_coll d'"
  using assms(1)
proof (induction rule: runs_induct)
  case (step d1 T1 d2 T2)
  then show ?case using step_ok [of quiet d1 T1 d2 T2] by auto
qed (simp add: assms(2))

text \<open>An identifier that was given and is gone is not given again.\<close>

lemma runs_gone:
  assumes "sync_runs quiet (d, T) (d', T')" "sync_ok T d" "coll_of d i = None" "i < next_coll d"
  shows "coll_of d' i = None"
  using assms(1)
proof (induction rule: runs_induct)
  case (step d1 T1 d2 T2)
  from runs_ok [OF step(1) assms(2)] have "sync_ok T1 d1" "next_coll d \<le> next_coll d1" by auto
  with step_coll [OF step(2), of i] step(3) assms(4) show ?case by auto
qed (simp add: assms(3))

text \<open>A copy stays right up to what is stamped after its token.\<close>

lemma runs_behind:
  assumes "sync_runs quiet (d, T) (d', T')" "sync_ok T d" "coll_of d i = Some C" "behind t m C"
  shows "coll_of d' i = None \<or> (\<exists>C'. coll_of d' i = Some C' \<and> behind t m C')"
  using assms(1)
proof (induction rule: runs_induct)
  case (step d1 T1 d2 T2)
  from runs_ok [OF step(1) assms(2)] have ok: "sync_ok T1 d1" and n: "next_coll d \<le> next_coll d1" by auto
  have "i \<in> col_id ` set (colls d)" using assms(3) coll_of_None [of d i] by auto
  then have i: "i < next_coll d1" using sync_okD(2) [OF assms(2)] n by fastforce
  from step(3) show ?case
  proof
    assume "coll_of d1 i = None"
    then show ?thesis using step_coll [OF step(2) ok, of i] i by auto
  next
    assume "\<exists>C'. coll_of d1 i = Some C' \<and> behind t m C'"
    then obtain B where B: "coll_of d1 i = Some B" "behind t m B" by blast
    then show ?thesis
      using step_coll [OF step(2) ok, of i] behind_write behind_erase behind_forget [OF sync_okD(9) [OF ok B(1)]] by auto
  qed
qed (simp add: assms(3,4))

section \<open>Quiet histories\<close>

lemma quiet_moves_on:
  assumes "sync_runs True (d, T) (d', T')" "sync_ok T d" "coll_of d i = Some C"
  shows "\<exists>C'. coll_of d' i = Some C' \<and> moves_on C C'"
  using assms(1)
proof (induction rule: runs_induct)
  case (step d1 T1 d2 T2)
  then obtain B where B: "coll_of d1 i = Some B" "moves_on C B" by blast
  from runs_ok [OF step(1) assms(2)] have ok: "sync_ok T1 d1" by auto
  show ?case using step_coll [OF step(2) ok, of i] B by (auto intro: moves_on.intros)
qed (auto simp: assms(3) intro: same)

lemma quiet_named_step:
  assumes st: "sync_step True (d, T) (d', T')" and c: "find (named owner name) (colls d) = Some c"
  shows "\<exists>c'. find (named owner name) (colls d') = Some c' \<and> col_id c' = col_id c"
  using st
proof (cases rule: step_cases)
  case (creates c0 x)
  then show ?thesis using c by (auto simp: create_coll_def Let_def find_append split: if_splits)
next
  case (updates f own nm r)
  then have "colls d' = map (\<lambda>c. if named own nm c then f c else c) (colls d)"
    by (auto simp: update_coll_def Let_def split: if_splits)
  moreover have "find (named owner name) (map (\<lambda>c. if named own nm c then f c else c) (colls d))
      = map_option (\<lambda>c. if named own nm c then f c else c) (find (named owner name) (colls d))"
    using updates(2) by (intro find_map_if) (auto simp: keyless_def named_def)
  ultimately show ?thesis using c updates(2) by (auto simp: keyless_def)
next
  case (puts o0 o')
  then have "colls d' = map (\<lambda>x. if col_id x = it_collection o0 then x\<lparr>col_token := col_token x + 1\<rparr> else x) (colls d)"
    by (auto simp: put_item_def Let_def elim!: bindE_okE next_token_cases split: if_splits)
  then show ?thesis using c by (auto simp: find_map_if named_def)
next
  case (erases i n)
  then have "colls d' = map (\<lambda>x. if col_id x = i then x\<lparr>col_token := col_token x + 1\<rparr> else x) (colls d)"
    by (auto simp: delete_item_def Let_def elim!: bindE_okE next_token_cases split: if_splits)
  then show ?thesis using c by (auto simp: find_map_if named_def)
qed (use c in auto)

lemma quiet_named:
  assumes "sync_runs True (d, T) (d', T')" "find (named owner name) (colls d) = Some c"
  shows "\<exists>c'. find (named owner name) (colls d') = Some c' \<and> col_id c' = col_id c"
  using assms(1)
proof (induction rule: runs_induct)
  case (step d1 T1 d2 T2)
  then show ?case using quiet_named_step [OF step(2)] by fastforce
qed (simp add: assms(2))

end
