(* ===== verification/Calendars.thy ===== *)
theory Calendars
  imports SyncHistory Sha256
begin

text \<open>
  \<^verbatim>\<open>internal/calendar/calendar.go\<close>: what a calendar object is, the default calendar that is made
  on the first look, the write that checks a client's precondition in its transaction, and the
  changes after a token.  What \<^verbatim>\<open>internal/contacts\<close> has word for word is stated for both, over
  the profile of a service; theory \<open>Contacts\<close> has the rest of it.  iCalendar is parsed and
  encoded by a third-party library, which is an argument.
\<close>

section \<open>Collections\<close>

definition maxName :: nat where
  "maxName = 255"

definition validName :: "bytes \<Rightarrow> unit result" where
  "validName name =
     (if name = [] \<or> maxName < length name \<or> contains_char name (CHR ''/'') \<or> contains_char name (CHR 0x00)
         \<or> name = ''.'' \<or> name = ''..''
      then Inl ErrInvalidPath else Inr ())"

text \<open>A service's default collection: its name, and the row it is made with.\<close>

record 'c profile =
  pf_name :: bytes
  pf_make :: "bytes \<Rightarrow> int \<Rightarrow> 'c collection_scheme"

type_synonym ('c, 'o, 'a) sync_act = "(('c, 'o) sync_db, 'a) repo"

definition ensureDefault :: "'c profile \<Rightarrow> bytes \<Rightarrow> ('c, 'o, 'c collection_scheme) sync_act" where
  "ensureDefault P owner =
     tryE (bindE t_clock (\<lambda>t. ask (create_coll (pf_make P owner t)))) (\<lambda>r.
       if r = Inl ErrConflict then ask (coll_by_name owner (pf_name P)) else liftE r)"

definition get_coll :: "'c profile \<Rightarrow> bytes \<Rightarrow> bytes \<Rightarrow> ('c, 'o, 'c collection_scheme) sync_act" where
  "get_coll P owner name =
     tryE (ask (coll_by_name owner name)) (\<lambda>r.
       if r = Inl ErrNotFound \<and> name = pf_name P then ensureDefault P owner else liftE r)"

definition list_colls :: "'c profile \<Rightarrow> bytes \<Rightarrow> ('c, 'o, 'c collection_scheme list) sync_act" where
  "list_colls P owner =
     bindE (ask (owned_colls owner)) (\<lambda>cs.
       if cs \<noteq> [] then retE cs
       else bindE (ensureDefault P owner) (\<lambda>_. ask (owned_colls owner)))"

definition ensure :: "'c profile \<Rightarrow> bytes \<Rightarrow> bytes \<Rightarrow> ('c, 'o, unit) sync_act" where
  "ensure P owner name =
     (if name \<noteq> pf_name P then retE () else bindE (get_coll P owner name) (\<lambda>_. retE ()))"

text \<open>
  A patch in one transaction.  \<open>fill\<close> is what it makes of the row it reads, \<open>sets\<close> what the
  statement then writes of the result.
\<close>

definition patch_coll ::
  "'c profile \<Rightarrow> ('c collection_scheme \<Rightarrow> 'c collection_scheme) \<Rightarrow>
   ('c collection_scheme \<Rightarrow> 'c collection_scheme \<Rightarrow> 'c collection_scheme) \<Rightarrow> bytes \<Rightarrow> bytes \<Rightarrow>
   ('c, 'o, 'c collection_scheme) sync_act" where
  "patch_coll P fill sets owner name =
     bindE (ensure P owner name) (\<lambda>_.
     in_tx (bindE (stmt (coll_by_name owner name)) (\<lambda>c.
            bindE (stmt (update_coll (sets (fill c)) (col_owner (fill c)) (col_name (fill c)))) (\<lambda>_. retE (fill c)))))"

definition drop_coll :: "'c profile \<Rightarrow> bytes \<Rightarrow> bytes \<Rightarrow> ('c, 'o, unit) sync_act" where
  "drop_coll P owner name = (if name = pf_name P then failE ErrDefault else ask (delete_coll owner name))"

section \<open>Members\<close>

definition list_items :: "'c profile \<Rightarrow> bytes \<Rightarrow> bytes \<Rightarrow> ('c, 'o, 'o item_scheme list) sync_act" where
  "list_items P owner name = bindE (get_coll P owner name) (\<lambda>c. ask (coll_items (col_id c)))"

definition get_item :: "'c profile \<Rightarrow> bytes \<Rightarrow> bytes \<Rightarrow> bytes \<Rightarrow> ('c, 'o, 'o item_scheme) sync_act" where
  "get_item P owner coll name = bindE (get_coll P owner coll) (\<lambda>c. ask (item_by_name (col_id c) name))"

text \<open>
  The transaction of a write: \<open>admits\<close> is what the service asks of the collection, \<open>precond\<close> the
  client's precondition, \<open>row\<close> the member to store, given its collection and the time.
\<close>

definition write_item ::
  "('c collection_scheme \<Rightarrow> unit result) \<Rightarrow> (bytes \<Rightarrow> bool \<Rightarrow> nat option) \<Rightarrow> bytes \<Rightarrow> bytes \<Rightarrow> bytes \<Rightarrow>
   (int \<Rightarrow> int \<Rightarrow> 'o item_scheme) \<Rightarrow> ('c, 'o, 'o item_scheme) sync_act" where
  "write_item admits precond owner coll name row =
     in_tx (bindE (stmt (coll_by_name owner coll)) (\<lambda>c.
            bindE (liftE (admits c)) (\<lambda>_.
            tryE (stmt (item_by_name (col_id c) name)) (\<lambda>r.
            if \<not> is_ok r \<and> r \<noteq> Inl ErrNotFound then failE (projl r)
            else case precond (case r of Inr o' \<Rightarrow> it_etag o' | Inl _ \<Rightarrow> []) (is_ok r) of
                   Some status \<Rightarrow> failE (ErrStatus status)
                 | None \<Rightarrow> bindE t_clock (\<lambda>t. stmt (put_item (row (col_id c) t)))))))"

definition erase_item :: "'c profile \<Rightarrow> bytes \<Rightarrow> bytes \<Rightarrow> bytes \<Rightarrow> ('c, 'o, unit) sync_act" where
  "erase_item P owner coll name =
     bindE (ensure P owner coll) (\<lambda>_.
     in_tx (bindE (stmt (coll_by_name owner coll)) (\<lambda>c.
            bindE t_clock (\<lambda>at. stmt (delete_item (col_id c) name at)))))"

text \<open>
  The changes after a token, and the collection with the token to come back with, the highest
  of its own and of the changes', since the two are separate reads.
\<close>

definition stale :: "int \<Rightarrow> 'c collection_scheme \<Rightarrow> bool" where
  "stale since c \<longleftrightarrow> since < 0 \<or> col_token c < since \<or> 0 < since \<and> since < col_pruned c"

definition changes_of :: "'c profile \<Rightarrow> bytes \<Rightarrow> bytes \<Rightarrow> int \<Rightarrow> ('c, 'o, change list \<times> 'c collection_scheme) sync_act" where
  "changes_of P owner name since =
     bindE (get_coll P owner name) (\<lambda>c.
     if stale since c then failE ErrStaleToken
     else bindE (ask (changes_since (col_id c) since)) (\<lambda>changes.
       retE (filter (\<lambda>ch. \<not> (since = 0 \<and> ch_deleted ch)) changes,
             c\<lparr>col_token := fold (\<lambda>ch t. max t (ch_token ch)) changes (col_token c)\<rparr>)))"

text \<open>A month, in nanoseconds.\<close>

definition TombstoneRetention :: int where
  "TombstoneRetention = 30 * 24 * 3600 * 1000000000"

definition prune :: "('c, 'o, nat) sync_act" where
  "prune = in_tx (bindE t_clock (\<lambda>t. stmt (prune_tombs (t - TombstoneRetention))))"

section \<open>The calendar service\<close>

definition Components :: "bytes list" where
  "Components = [''VEVENT'', ''VTODO'', ''VJOURNAL'']"

definition everything :: bytes where
  "everything = join_with (CHR 0x2C) Components"

definition calendar_profile :: "unit calendar_ext profile" where
  "calendar_profile = \<lparr>pf_name = ''default'', pf_make = (\<lambda>owner t.
     \<lparr>col_id = 0, col_owner = owner, col_name = ''default'', col_display = ''Calendar'', col_description = [],
      col_token = 0, col_pruned = 0, col_created = t, col_color = [], col_components = everything\<rparr>)\<rparr>"

text \<open>\<open>holds\<close>: those of the components asked for that are stored, once each.\<close>

definition holds :: "bytes \<Rightarrow> bytes result" where
  "holds asked =
     (if asked = [] then Inr everything
      else let kept = fold (\<lambda>c kept. if c \<in> set Components \<and> c \<notin> set kept then kept @ [c] else kept)
                        (split_on (CHR 0x2C) asked) []
           in if kept = [] then Inl ErrUnsupported else Inr (join_with (CHR 0x2C) kept))"

definition hex_char :: "char \<Rightarrow> bool" where
  "hex_char c \<longleftrightarrow> 48 \<le> byte c \<and> byte c \<le> 57 \<or> 65 \<le> byte c \<and> byte c \<le> 70 \<or> 97 \<le> byte c \<and> byte c \<le> 102"

definition ValidColor :: "bytes \<Rightarrow> bool" where
  "ValidColor color \<longleftrightarrow> color = []
     \<or> (length color = 7 \<or> length color = 9) \<and> hd color = CHR 0x23 \<and> list_all hex_char (tl color)"

definition cal_Create :: "bytes \<Rightarrow> calendar \<Rightarrow> (unit calendar_ext, unit cal_object_ext, calendar) sync_act" where
  "cal_Create owner c =
     bindE (liftE (validName (col_name c))) (\<lambda>_.
     if \<not> ValidColor (col_color c) then failE ErrColor
     else bindE (liftE (holds (col_components c))) (\<lambda>held.
     bindE t_clock (\<lambda>t. ask (CreateCalendar
       \<lparr>col_id = 0, col_owner = owner, col_name = col_name c, col_display = col_display c,
        col_description = col_description c, col_token = 0, col_pruned = 0, col_created = t,
        col_color = col_color c, col_components = held\<rparr>))))"

record patch =
  pa_display :: "bytes option"
  pa_description :: "bytes option"
  pa_color :: "bytes option"

definition given :: "'a option \<Rightarrow> 'a \<Rightarrow> 'a" where
  "given x d = (case x of Some y \<Rightarrow> y | None \<Rightarrow> d)"

definition apply_patch :: "patch \<Rightarrow> calendar \<Rightarrow> calendar" where
  "apply_patch p c = c\<lparr>col_display := given (pa_display p) (col_display c),
     col_description := given (pa_description p) (col_description c), col_color := given (pa_color p) (col_color c)\<rparr>"

definition cal_Update :: "bytes \<Rightarrow> bytes \<Rightarrow> patch \<Rightarrow> (unit calendar_ext, unit cal_object_ext, calendar) sync_act" where
  "cal_Update owner name p =
     (if pa_color p \<noteq> None \<and> \<not> ValidColor (the (pa_color p)) then failE ErrColor
      else patch_coll calendar_profile (apply_patch p) (\<lambda>c x. x\<lparr>col_display := col_display c,
             col_description := col_description c, col_color := col_color c\<rparr>) owner name)"

text \<open>
  What the service asks of go-ical: whether a calendar carries a METHOD, its components, and of
  a component its name, its UID (\<open>None\<close> where it cannot be read) and what can be read of its
  dates; and the encoder.
\<close>

record ('c, 'k) ical =
  ic_method :: "'c \<Rightarrow> bool"
  ic_children :: "'c \<Rightarrow> 'k list"
  ic_name :: "'k \<Rightarrow> bytes"
  ic_uid :: "'k \<Rightarrow> bytes option"
  ic_date :: "'k \<Rightarrow> bytes \<Rightarrow> bool"
  ic_duration :: "'k \<Rightarrow> bool option"
  ic_recurrence :: "'k \<Rightarrow> bool"
  ic_recurrence_id :: "'k \<Rightarrow> bool option"
  ic_encode :: "'c \<Rightarrow> bytes option"

definition readableDates :: "('c, 'k) ical \<Rightarrow> 'k \<Rightarrow> unit result" where
  "readableDates ic k =
     (if \<not> list_all (ic_date ic k) [''DTSTART'', ''DTEND'', ''DUE'', ''COMPLETED'', ''CREATED''] then Inl ErrInvalid
      else if ic_duration ic k = Some False then Inl ErrInvalid
      else if \<not> ic_recurrence ic k then Inl ErrInvalid
      else if ic_recurrence_id ic k = Some False then Inl ErrInvalid
      else Inr ())"

fun validate_children :: "('c, 'k) ical \<Rightarrow> 'k list \<Rightarrow> bytes \<Rightarrow> bytes \<Rightarrow> (bytes \<times> bytes) result" where
  "validate_children ic [] component uid = Inr (component, uid)"
| "validate_children ic (k # ks) component uid =
     (if ic_name ic k = ''VTIMEZONE'' then validate_children ic ks component uid
      else if component \<noteq> [] \<and> ic_name ic k \<noteq> component then Inl ErrInvalid
      else case ic_uid ic k of None \<Rightarrow> Inl ErrInvalid | Some i \<Rightarrow>
        if i = [] \<or> uid \<noteq> [] \<and> i \<noteq> uid then Inl ErrInvalid
        else case readableDates ic k of Inl e \<Rightarrow> Inl e
             | Inr _ \<Rightarrow> validate_children ic ks (ic_name ic k) i)"

definition validate_cal :: "('c, 'k) ical \<Rightarrow> 'c option \<Rightarrow> (bytes \<times> bytes) result" where
  "validate_cal ic cal =
     (case cal of None \<Rightarrow> Inl ErrInvalid | Some c \<Rightarrow>
      if ic_method ic c then Inl ErrInvalid
      else case validate_children ic (ic_children ic c) [] [] of Inl e \<Rightarrow> Inl e | Inr (component, uid) \<Rightarrow>
        if component = [] then Inl ErrInvalid
        else if component \<notin> set Components then Inl ErrUnsupported
        else Inr (component, uid))"

definition cal_Put ::
  "('c, 'k) ical \<Rightarrow> bytes \<Rightarrow> bytes \<Rightarrow> bytes \<Rightarrow> 'c option \<Rightarrow> (bytes \<Rightarrow> bool \<Rightarrow> nat option) \<Rightarrow>
   (unit calendar_ext, unit cal_object_ext, cal_object) sync_act" where
  "cal_Put ic owner calendar name cal precond =
     bindE (liftE (validName name)) (\<lambda>_.
     bindE (liftE (validate_cal ic cal)) (\<lambda>(component, uid).
     bindE (liftE (case ic_encode ic (the cal) of None \<Rightarrow> Inl ErrInvalid | Some data \<Rightarrow> Inr data)) (\<lambda>data.
     bindE (ensure calendar_profile owner calendar) (\<lambda>_.
     write_item (\<lambda>c. if Holds c component then Inr () else Inl ErrUnsupported) precond owner calendar name
       (\<lambda>i t. \<lparr>it_collection = i, it_name = name, it_uid = uid, it_data = data,
               it_etag = hex_encode (sha256 data), it_token = 0, it_changed = t, it_component = component\<rparr>)))))"

section \<open>What the services commit\<close>

lemma reads_same:
  "coll_by_name owner name d = (r1, d1) \<Longrightarrow> d1 = d"
  "owned_colls owner d = (r2, d2) \<Longrightarrow> d2 = d"
  "coll_items i d = (r3, d3) \<Longrightarrow> d3 = d"
  "item_by_name i n d = (r4, d4) \<Longrightarrow> d4 = d"
  "changes_since i t d = (r5, d5) \<Longrightarrow> d5 = d"
  by (auto simp: coll_by_name_def owned_colls_def coll_items_def item_by_name_def changes_since_def split: option.splits)

lemma follows_reads:
  "runs.follows quiet (ask (coll_by_name owner name))" "runs.follows quiet (ask (owned_colls owner))"
  "runs.follows quiet (ask (coll_items i))" "runs.follows quiet (ask (item_by_name i n))"
  "runs.follows quiet (ask (changes_since i t))"
  by (rule runs.follows_ask, drule reads_same, simp)+

lemma follows_create: "runs.follows quiet (ask (create_coll c))"
proof (rule runs.follows_ask)
  fix d r d' t
  assume c: "create_coll c d = (r, d')"
  show "sync_runs quiet (d, t) (d', t)"
  proof (cases r)
    case (Inl e)
    then have "d' = d" using c by (auto simp: create_coll_def Let_def split: if_splits)
    then show ?thesis by simp
  next
    case (Inr x)
    then show ?thesis using c by (auto intro: runs_one creates)
  qed
qed

lemma follows_ensureDefault: "runs.follows quiet (ensureDefault P owner)"
  unfolding ensureDefault_def
  by (intro runs.follows_try runs.follows_bind runs.follows_clock runs.follows_if runs.follows_lift follows_create follows_reads)

lemma follows_get_coll: "runs.follows quiet (get_coll P owner name)"
  unfolding get_coll_def
  by (intro runs.follows_try runs.follows_if runs.follows_lift follows_ensureDefault follows_reads)

lemma follows_list_colls: "runs.follows quiet (list_colls P owner)"
  unfolding list_colls_def
  by (intro runs.follows_bind runs.follows_if runs.follows_ret follows_ensureDefault follows_reads)

lemma follows_ensure: "runs.follows quiet (ensure P owner name)"
  unfolding ensure_def
  by (intro runs.follows_bind runs.follows_if runs.follows_ret follows_get_coll)

lemma follows_list_items: "runs.follows quiet (list_items P owner name)"
  unfolding list_items_def by (intro runs.follows_bind follows_get_coll follows_reads)

lemma follows_get_item: "runs.follows quiet (get_item P owner coll name)"
  unfolding get_item_def by (intro runs.follows_bind follows_get_coll follows_reads)

lemma follows_changes_of: "runs.follows quiet (changes_of P owner name since)"
  unfolding changes_of_def
  by (intro runs.follows_bind runs.follows_if runs.follows_ret runs.follows_fail follows_get_coll follows_reads)

lemma follows_drop_coll: "runs.follows False (drop_coll P owner name)"
  unfolding drop_coll_def
  by (intro runs.follows_if runs.follows_fail runs.follows_ask) (blast intro: runs_one deletes)

text \<open>A read in a transaction leaves the tables and the time.\<close>

lemma stmt_read:
  assumes "stmt q w = (Inr x, w')" "\<And>d r d'. q d = (r, d') \<Longrightarrow> d' = d"
  shows "moment w' = moment w"
  using stmt_ok [OF assms(1)] assms(2) innerD [OF inner_stmt assms(1)] by (simp add: moment_def)

lemma stmt_moment: "stmt q w = (Inr x, w') \<Longrightarrow> \<exists>d. q (t_rows w) = (Inr x, d) \<and> moment w' = (d, now (t_env w))"
  using stmt_ok [of q w x w'] innerD [OF inner_stmt, of q w "Inr x" w'] by (simp add: moment_def)

lemma follows_patch_coll:
  assumes sets: "\<And>c. keyless (sets c)"
  shows "runs.follows quiet (patch_coll P fill sets owner name)"
  unfolding patch_coll_def
proof (intro runs.follows_bind follows_ensure runs.follows_tx)
  fix w y w'
  assume m: "bindE (stmt (coll_by_name owner name)) (\<lambda>c.
      bindE (stmt (update_coll (sets (fill c)) (col_owner (fill c)) (col_name (fill c)))) (\<lambda>_. retE (fill c))) w = (Inr y, w')"
  from m obtain c v u where c: "stmt (coll_by_name owner name) w = (Inr c, v)"
    and u: "stmt (update_coll (sets (fill c)) (col_owner (fill c)) (col_name (fill c))) v = (Inr u, w')"
    by (auto elim!: bindE_okE)
  have v: "moment v = moment w" by (rule stmt_read [OF c]) (rule reads_same)
  obtain d where "update_coll (sets (fill c)) (col_owner (fill c)) (col_name (fill c)) (t_rows v) = (Inr u, d)"
    "moment w' = (d, now (t_env v))" using stmt_moment [OF u] by blast
  then show "sync_runs quiet (moment w) (moment w')"
    using v sets by (auto simp: moment_def intro!: runs_one updates)
qed (auto intro!: inner_bind inner_stmt inner_ret)

lemma follows_write_item: "runs.follows quiet (write_item admits precond owner coll name row)"
  unfolding write_item_def
proof (rule runs.follows_tx)
  let ?f = "bindE (stmt (coll_by_name owner coll)) (\<lambda>c. bindE (liftE (admits c)) (\<lambda>_.
      tryE (stmt (item_by_name (col_id c) name)) (\<lambda>r.
      if \<not> is_ok r \<and> r \<noteq> Inl ErrNotFound then failE (projl r)
      else case precond (case r of Inr o' \<Rightarrow> it_etag o' | Inl _ \<Rightarrow> []) (is_ok r) of
             Some status \<Rightarrow> failE (ErrStatus status)
           | None \<Rightarrow> bindE t_clock (\<lambda>t. stmt (put_item (row (col_id c) t))))))"
  show "inner ?f"
    by (intro inner_bind inner_try inner_stmt inner_lift inner_if inner_fail) (auto split: option.splits)
  fix w y w'
  assume "?f w = (Inr y, w')"
  then obtain c v where c: "stmt (coll_by_name owner coll) w = (Inr c, v)"
    and rest: "tryE (stmt (item_by_name (col_id c) name)) (\<lambda>r.
      if \<not> is_ok r \<and> r \<noteq> Inl ErrNotFound then failE (projl r)
      else case precond (case r of Inr o' \<Rightarrow> it_etag o' | Inl _ \<Rightarrow> []) (is_ok r) of
             Some status \<Rightarrow> failE (ErrStatus status)
           | None \<Rightarrow> bindE t_clock (\<lambda>t. stmt (put_item (row (col_id c) t)))) v = (Inr y, w')"
    by (auto elim!: bindE_okE)
  obtain r u where r: "stmt (item_by_name (col_id c) name) v = (r, u)" by (cases "stmt (item_by_name (col_id c) name) v")
  have put: "stmt (put_item (row (col_id c) (now (t_env u)))) u = (Inr y, w')"
    using rest r by (auto simp: t_clock_def split: if_splits option.splits elim!: bindE_okE)
  have "t_rows u = t_rows v" using r by (rule stmt_cases) (auto dest: reads_same)
  then have u: "moment u = moment v" using innerD [OF inner_stmt r] by (simp add: moment_def)
  have v: "moment v = moment w" by (rule stmt_read [OF c]) (rule reads_same)
  obtain d where "put_item (row (col_id c) (now (t_env u))) (t_rows u) = (Inr y, d)" "moment w' = (d, now (t_env u))"
    using stmt_moment [OF put] by blast
  then show "sync_runs quiet (moment w) (moment w')"
    using u v by (auto simp: moment_def intro!: runs_one puts)
qed

lemma follows_erase_item: "runs.follows quiet (erase_item P owner coll name)"
  unfolding erase_item_def
proof (intro runs.follows_bind follows_ensure runs.follows_tx)
  fix w y w'
  assume "bindE (stmt (coll_by_name owner coll)) (\<lambda>c. bindE t_clock (\<lambda>at. stmt (delete_item (col_id c) name at))) w = (Inr y, w')"
  then obtain c v where c: "stmt (coll_by_name owner coll) w = (Inr c, v)"
    and del: "stmt (delete_item (col_id c) name (now (t_env v))) v = (Inr y, w')"
    by (auto simp: t_clock_def elim!: bindE_okE)
  have v: "moment v = moment w" by (rule stmt_read [OF c]) (rule reads_same)
  obtain d where "delete_item (col_id c) name (now (t_env v)) (t_rows v) = (Inr y, d)" "moment w' = (d, now (t_env v))"
    using stmt_moment [OF del] by blast
  then show "sync_runs quiet (moment w) (moment w')"
    using v by (auto simp: moment_def intro!: runs_one erases)
qed (auto intro!: inner_bind inner_stmt inner_clock)

lemma follows_prune: "runs.follows False prune"
  unfolding prune_def
proof (rule runs.follows_tx)
  fix w y w'
  assume "bindE t_clock (\<lambda>t. stmt (prune_tombs (t - TombstoneRetention))) w = (Inr y, w')"
  then have p: "stmt (prune_tombs (now (t_env w) - TombstoneRetention)) w = (Inr y, w')" by (simp add: t_clock_def)
  obtain d where "prune_tombs (now (t_env w) - TombstoneRetention) (t_rows w) = (Inr y, d)" "moment w' = (d, now (t_env w))"
    using stmt_moment [OF p] by blast
  then show "sync_runs False (moment w) (moment w')"
    by (auto simp: moment_def intro!: runs_one prunes)
qed (auto intro!: inner_bind inner_stmt inner_clock)

lemma follows_create_cal: "runs.follows quiet (cal_Create owner c)"
  unfolding cal_Create_def CreateCalendar_def
  by (intro runs.follows_bind runs.follows_if runs.follows_lift runs.follows_fail runs.follows_clock follows_create)

lemma follows_cal_Update: "runs.follows quiet (cal_Update owner name p)"
  unfolding cal_Update_def
  by (intro runs.follows_if runs.follows_fail follows_patch_coll) (simp add: keyless_def)

lemma follows_cal_Put: "runs.follows quiet (cal_Put ic owner calendar name cal precond)"
  unfolding cal_Put_def
  by (intro runs.follows_bind runs.follows_lift follows_ensure) (auto intro!: runs.follows_bind runs.follows_lift follows_ensure follows_write_item)

end
