(* ===== verification/Contacts.thy ===== *)
theory Contacts
  imports Calendars
begin

text \<open>
  \<^verbatim>\<open>internal/contacts/contacts.go\<close>, over what theory \<open>Calendars\<close> has of both services: what a
  contact is, and the one form it is stored in.  The library's card is a Go map from field names
  to fields, kept here as an association list, whose order is the map's and means nothing.
\<close>

section \<open>The service\<close>

definition contacts_profile :: "unit profile" where
  "contacts_profile = \<lparr>pf_name = ''contacts'', pf_make = (\<lambda>owner t.
     \<lparr>col_id = 0, col_owner = owner, col_name = ''contacts'', col_display = ''Contacts'', col_description = [],
      col_token = 0, col_pruned = 0, col_created = t\<rparr>)\<rparr>"

definition book_Create :: "bytes \<Rightarrow> address_book \<Rightarrow> (unit, unit, address_book) sync_act" where
  "book_Create owner b =
     bindE (liftE (validName (col_name b))) (\<lambda>_.
     bindE t_clock (\<lambda>t. ask (CreateAddressBook
       \<lparr>col_id = 0, col_owner = owner, col_name = col_name b, col_display = col_display b,
        col_description = col_description b, col_token = 0, col_pruned = 0, col_created = t\<rparr>)))"

definition book_Update :: "bytes \<Rightarrow> bytes \<Rightarrow> patch \<Rightarrow> (unit, unit, address_book) sync_act" where
  "book_Update owner name p =
     patch_coll contacts_profile
       (\<lambda>c. c\<lparr>col_display := given (pa_display p) (col_display c),
              col_description := given (pa_description p) (col_description c)\<rparr>)
       (\<lambda>c x. x\<lparr>col_display := col_display c, col_description := col_description c\<rparr>) owner name"

section \<open>A card as it is stored\<close>

record vfield =
  vf_group :: bytes
  vf_value :: bytes
  vf_params :: "(bytes \<times> bytes list) list"

type_synonym vcard = "(bytes \<times> vfield list) list"

text \<open>\<open>escapeValue\<close>: a backslash, a line feed and a comma.\<close>

definition escape_char :: "char \<Rightarrow> bytes" where
  "escape_char c = (if c = CHR 0x5C then [CHR 0x5C, CHR 0x5C] else if c = CHR 0x0A then [CHR 0x5C, CHR ''n'']
     else if c = CHR 0x2C then [CHR 0x5C, CHR 0x2C] else [c])"

definition escapeValue :: "bytes \<Rightarrow> bytes" where
  "escapeValue s = concat (map escape_char s)"

definition crlf :: bytes where
  "crlf = [CHR 0x0D, CHR 0x0A]"

definition writeField :: "bytes \<Rightarrow> vfield \<Rightarrow> bytes" where
  "writeField key f =
     (if vf_group f \<noteq> [] then vf_group f @ ''.'' else []) @ key
     @ concat (map (\<lambda>name. concat (map (\<lambda>v. '';'' @ name @ ''='' @ escapeValue v) (the (map_of (vf_params f) name))))
         (sort (map fst (vf_params f))))
     @ '':'' @ escapeValue (vf_value f) @ crlf"

text \<open>
  \<open>strings.EqualFold\<close> against an upper-case ASCII word: a letter matches its lower case, and two
  letters have a third form outside ASCII, the long s and the sign of the kelvin.
\<close>

definition folds_to :: "nat \<Rightarrow> char \<Rightarrow> bool" where
  "folds_to r c \<longleftrightarrow> r = byte c \<or> 65 \<le> byte c \<and> byte c \<le> 90 \<and> r = byte c + 32
     \<or> c = CHR ''S'' \<and> r = 0x17F \<or> c = CHR ''K'' \<and> r = 0x212A"

definition is_version :: "bytes \<Rightarrow> bool" where
  "is_version k \<longleftrightarrow> list_all2 folds_to (runes k) ''VERSION''"

text \<open>\<open>vget\<close> is the library's \<open>Card.Get\<close>, the first field of a name.\<close>

definition Encode_card :: "(vcard \<Rightarrow> bytes \<Rightarrow> vfield option) \<Rightarrow> vcard \<Rightarrow> bytes result" where
  "Encode_card vget c =
     (case vget c ''VERSION'' of None \<Rightarrow> Inl ErrInvalid | Some version \<Rightarrow>
      Inr (''BEGIN:VCARD'' @ crlf @ writeField ''VERSION'' version
        @ concat (map (\<lambda>k. if is_version k then [] else concat (map (writeField k) (the (map_of c k)))) (sort (map fst c)))
        @ ''END:VCARD'' @ crlf))"

text \<open>\<open>card.Value\<close>: the value of the first field, or nothing.\<close>

definition value_of :: "(vcard \<Rightarrow> bytes \<Rightarrow> vfield option) \<Rightarrow> vcard \<Rightarrow> bytes \<Rightarrow> bytes" where
  "value_of vget c k = (case vget c k of None \<Rightarrow> [] | Some f \<Rightarrow> vf_value f)"

definition validate_card :: "(vcard \<Rightarrow> bytes \<Rightarrow> vfield option) \<Rightarrow> vcard option \<Rightarrow> bytes result" where
  "validate_card vget c =
     (case c of None \<Rightarrow> Inl ErrInvalid | Some c \<Rightarrow>
      if value_of vget c ''UID'' = [] then Inl ErrInvalid
      else if value_of vget c ''FN'' = [] then Inl ErrInvalid
      else Inr (value_of vget c ''UID''))"

definition book_Put ::
  "(vcard \<Rightarrow> bytes \<Rightarrow> vfield option) \<Rightarrow> bytes \<Rightarrow> bytes \<Rightarrow> bytes \<Rightarrow> vcard option \<Rightarrow>
   (bytes \<Rightarrow> bool \<Rightarrow> nat option) \<Rightarrow> (unit, unit, contact) sync_act" where
  "book_Put vget owner book name c precond =
     bindE (liftE (validName name)) (\<lambda>_.
     bindE (liftE (validate_card vget c)) (\<lambda>uid.
     bindE (liftE (Encode_card vget (the c))) (\<lambda>data.
     bindE (ensure contacts_profile owner book) (\<lambda>_.
     write_item (\<lambda>_. Inr ()) precond owner book name
       (\<lambda>i t. \<lparr>it_collection = i, it_name = name, it_uid = uid, it_data = data,
               it_etag = hex_encode (sha256 data), it_token = 0, it_changed = t\<rparr>)))))"

text \<open>What \<^verbatim>\<open>contacts.go\<close> has in common with \<^verbatim>\<open>calendar.go\<close>, over its own tables.\<close>

definition book_ensureDefault :: "bytes \<Rightarrow> (unit, unit, address_book) sync_act" where
  "book_ensureDefault = ensureDefault contacts_profile"

definition book_ensure :: "bytes \<Rightarrow> bytes \<Rightarrow> (unit, unit, unit) sync_act" where
  "book_ensure = ensure contacts_profile"

definition book_AddressBooks :: "bytes \<Rightarrow> (unit, unit, address_book list) sync_act" where
  "book_AddressBooks = list_colls contacts_profile"

definition book_AddressBook :: "bytes \<Rightarrow> bytes \<Rightarrow> (unit, unit, address_book) sync_act" where
  "book_AddressBook = get_coll contacts_profile"

definition book_DeleteAddressBook :: "bytes \<Rightarrow> bytes \<Rightarrow> (unit, unit, unit) sync_act" where
  "book_DeleteAddressBook = drop_coll contacts_profile"

definition book_Contacts :: "bytes \<Rightarrow> bytes \<Rightarrow> (unit, unit, contact list) sync_act" where
  "book_Contacts = list_items contacts_profile"

definition book_Contact :: "bytes \<Rightarrow> bytes \<Rightarrow> bytes \<Rightarrow> (unit, unit, contact) sync_act" where
  "book_Contact = get_item contacts_profile"

definition book_Delete :: "bytes \<Rightarrow> bytes \<Rightarrow> bytes \<Rightarrow> (unit, unit, unit) sync_act" where
  "book_Delete = erase_item contacts_profile"

definition book_Changes :: "bytes \<Rightarrow> bytes \<Rightarrow> int \<Rightarrow> (unit, unit, change list \<times> address_book) sync_act" where
  "book_Changes = changes_of contacts_profile"

definition book_Prune :: "(unit, unit, nat) sync_act" where
  "book_Prune = prune"

section \<open>The form is a function of the map\<close>

lemma same_keys:
  assumes "map_of a = map_of b" "distinct (map fst a)" "distinct (map fst b)"
  shows "sort (map fst a) = sort (map fst b)"
proof -
  have "set (map fst a) = set (map fst b)"
    using assms(1) by (metis dom_map_of_conv_image_fst list.set_map)
  then show ?thesis
    using assms(2,3) by (intro sorted_distinct_set_unique) simp_all
qed

text \<open>Two fields that differ in the order of their parameters only.\<close>

definition same_field :: "vfield \<Rightarrow> vfield \<Rightarrow> bool" where
  "same_field f g \<longleftrightarrow> vf_group f = vf_group g \<and> vf_value f = vf_value g
     \<and> map_of (vf_params f) = map_of (vf_params g) \<and> distinct (map fst (vf_params f)) \<and> distinct (map fst (vf_params g))"

lemma writeField_same: "same_field f g \<Longrightarrow> writeField k f = writeField k g"
  unfolding writeField_def same_field_def using same_keys [of "vf_params f" "vf_params g"] by simp

definition same_card :: "vcard \<Rightarrow> vcard \<Rightarrow> bool" where
  "same_card a b \<longleftrightarrow> distinct (map fst a) \<and> distinct (map fst b) \<and> set (map fst a) = set (map fst b)
     \<and> list_all (\<lambda>k. list_all2 same_field (the (map_of a k)) (the (map_of b k))) (map fst a)"

lemma writeFields_same: "list_all2 same_field fs gs \<Longrightarrow> map (writeField k) fs = map (writeField k) gs"
  by (induction rule: list_all2_induct) (simp_all add: writeField_same)

text \<open>
  C25: what is stored of a card, and with it the entity tag, does not depend on the order in
  which the maps of the card and of its parameters happen to be walked: two cards that are equal
  as maps are encoded to the same bytes.
\<close>

theorem encode_canonical:
  assumes cards: "same_card a b"
    and version: "rel_option same_field (vget a ''VERSION'') (vget b ''VERSION'')"
  shows "Encode_card vget a = Encode_card vget b"
proof -
  have keys: "sort (map fst a) = sort (map fst b)"
    using cards unfolding same_card_def by (intro sorted_distinct_set_unique) simp_all
  have fields: "map (writeField k) (the (map_of a k)) = map (writeField k) (the (map_of b k))" if "k \<in> set (sort (map fst b))" for k
    using cards that unfolding same_card_def list_all_iff by (intro writeFields_same) (metis set_sort)
  have body: "concat (map (\<lambda>k. if is_version k then [] else concat (map (writeField k) (the (map_of a k)))) (sort (map fst b)))
      = concat (map (\<lambda>k. if is_version k then [] else concat (map (writeField k) (the (map_of b k)))) (sort (map fst b)))"
    using fields by (intro arg_cong [where f = concat] map_cong refl) simp
  then show ?thesis
    using version unfolding Encode_card_def keys body
    by (cases "vget a ''VERSION''"; cases "vget b ''VERSION''") (simp_all add: writeField_same)
qed

theorem encode_canonical_witness:
  "Encode_card (\<lambda>c k. Option.bind (map_of c k) (\<lambda>fs. if fs = [] then None else Some (hd fs)))
     [(''VERSION'', [\<lparr>vf_group = [], vf_value = ''4.0'', vf_params = []\<rparr>]),
      (''TEL'', [\<lparr>vf_group = [], vf_value = ''1,2'', vf_params = [(''TYPE'', [''home'']), (''PREF'', [''1''])]\<rparr>])]
   = Encode_card (\<lambda>c k. Option.bind (map_of c k) (\<lambda>fs. if fs = [] then None else Some (hd fs)))
     [(''TEL'', [\<lparr>vf_group = [], vf_value = ''1,2'', vf_params = [(''PREF'', [''1'']), (''TYPE'', [''home''])]\<rparr>]),
      (''VERSION'', [\<lparr>vf_group = [], vf_value = ''4.0'', vf_params = []\<rparr>])]"
  by (rule encode_canonical) (auto simp: same_card_def same_field_def fun_eq_iff)

section \<open>What the service commits\<close>

lemma follows_book_Create: "runs.follows quiet (book_Create owner b)"
  unfolding book_Create_def CreateAddressBook_def
  by (intro runs.follows_bind runs.follows_lift runs.follows_clock follows_create)

lemma follows_book_Update: "runs.follows quiet (book_Update owner name p)"
  unfolding book_Update_def by (intro follows_patch_coll) (simp add: keyless_def)

lemma follows_book_Put: "runs.follows quiet (book_Put vget owner book name c precond)"
  unfolding book_Put_def
  by (intro runs.follows_bind runs.follows_lift follows_ensure follows_write_item)

end
