(* ===== verification/GoUrl.thy ===== *)
theory GoUrl
  imports GoText
begin

text \<open>
  \<^verbatim>\<open>net/url\<close>: \<open>URL.EscapedPath\<close> of a URL built from a path alone, and \<open>PathUnescape\<close>, which
  undoes it.
\<close>

definition upper_hex :: "nat \<Rightarrow> char" where
  "upper_hex n = char_of (if n < 10 then 48 + n else 55 + n)"

text \<open>What stands for itself in a path: \<open>shouldEscape\<close> in the mode \<open>encodePath\<close>.\<close>

definition path_safe :: "char \<Rightarrow> bool" where
  "path_safe c \<longleftrightarrow> 97 \<le> byte c \<and> byte c \<le> 122 \<or> 65 \<le> byte c \<and> byte c \<le> 90 \<or> 48 \<le> byte c \<and> byte c \<le> 57
     \<or> c \<in> set ''-_.~$&+,/:;=@''"

definition escape_byte :: "char \<Rightarrow> bytes" where
  "escape_byte c = (if path_safe c then [c]
     else [CHR 0x25, upper_hex (byte c div 16), upper_hex (byte c mod 16)])"

definition escapedPath :: "bytes \<Rightarrow> bytes" where
  "escapedPath p = (if p = ''*'' then p else concat (map escape_byte p))"

fun path_unescape :: "bytes \<Rightarrow> bytes option" where
  "path_unescape [] = Some []"
| "path_unescape (c # cs) =
     (if c \<noteq> CHR 0x25 then map_option ((#) c) (path_unescape cs)
      else case cs of
        h # l # rest \<Rightarrow>
          (case (unhex h, unhex l) of
             (Some x, Some y) \<Rightarrow> map_option ((#) (char_of (16 * x + y))) (path_unescape rest)
           | _ \<Rightarrow> None)
      | _ \<Rightarrow> None)"

lemma unhex_upper: "n < 16 \<Longrightarrow> unhex (upper_hex n) = Some n"
proof -
  assume "n < 16"
  then have "n \<in> set [0..<16]" by simp
  moreover have "list_all (\<lambda>n. unhex (upper_hex n) = Some n) [0..<16]" by code_simp
  ultimately show ?thesis unfolding list_all_iff by blast
qed

lemma percent_not_safe: "\<not> path_safe (CHR 0x25)"
  by code_simp

lemma unescape_escape_append: "path_unescape (concat (map escape_byte p) @ q) = map_option ((@) p) (path_unescape q)"
proof (induction p)
  case (Cons c p)
  have "byte c div 16 < 16" by (simp add: byte_def div_less_mono less_mult_imp_div_less)
  moreover have "16 * (byte c div 16) + byte c mod 16 = byte c" by simp
  moreover have "char_of (byte c) = c" by (simp add: byte_def)
  ultimately show ?case
    using Cons percent_not_safe
    by (auto simp: escape_byte_def unhex_upper option.map_comp comp_def) 
qed (simp add: option.map_ident)

theorem unescape_escape: "path_unescape (escapedPath p) = Some p"
  using unescape_escape_append [of p "[]"] by (simp add: escapedPath_def)

lemma escapedPath_inject: "escapedPath p = escapedPath q \<longleftrightarrow> p = q"
  by (metis option.inject unescape_escape)

end
