(* ===== verification/CalDav.thy ===== *)
theory CalDav
  imports Dav Contacts GoUrl GoTime
begin

text \<open>
  \<^verbatim>\<open>internal/dav/caldavsync.go\<close>, \<^verbatim>\<open>caldav.go\<close>, \<^verbatim>\<open>caldavmanage.go\<close> and \<^verbatim>\<open>carddav.go\<close>: the requests this
  package answers in front of the CalDAV and CardDAV libraries, which are an argument.  A body
  is what the XML decoder makes of it, and an answer is kept as the structure that is marshalled.
\<close>

section \<open>Names, tokens and answers\<close>

type_synonym xml_name = "bytes \<times> bytes"

definition nsDAV :: bytes where "nsDAV = ''DAV:''"
definition nsCalDAV :: bytes where "nsCalDAV = ''urn:ietf:params:xml:ns:caldav''"
definition nsCardDAV :: bytes where "nsCardDAV = ''urn:ietf:params:xml:ns:carddav''"
definition nsCS :: bytes where "nsCS = ''http://calendarserver.org/ns/''"
definition nsApple :: bytes where "nsApple = ''http://apple.com/ns/ical/''"

definition propSyncToken :: xml_name where "propSyncToken = (nsDAV, ''sync-token'')"
definition propCTag :: xml_name where "propCTag = (nsCS, ''getctag'')"
definition propSupportedReport :: xml_name where "propSupportedReport = (nsDAV, ''supported-report-set'')"
definition propColor :: xml_name where "propColor = (nsApple, ''calendar-color'')"
definition propCalendarData :: xml_name where "propCalendarData = (nsCalDAV, ''calendar-data'')"
definition propAddressData :: xml_name where "propAddressData = (nsCardDAV, ''address-data'')"
definition propDisplayName :: xml_name where "propDisplayName = (nsDAV, ''displayname'')"
definition propDescription :: xml_name where "propDescription = (nsCalDAV, ''calendar-description'')"
definition propAddressDescription :: xml_name where "propAddressDescription = (nsCardDAV, ''addressbook-description'')"
definition propGetETag :: xml_name where "propGetETag = (nsDAV, ''getetag'')"

definition syncTokenPrefix :: bytes where
  "syncTokenPrefix = ''urn:stratus:sync:''"

definition syncToken :: "int \<Rightarrow> int \<Rightarrow> bytes" where
  "syncToken collection token = syncTokenPrefix @ itoa collection @ '':'' @ itoa token"

text \<open>\<open>None\<close> for a token this server did not write for that collection.\<close>

definition parseSyncToken :: "bytes \<Rightarrow> int \<Rightarrow> int option" where
  "parseSyncToken token collection =
     (if token = [] then Some 0
      else case cut_prefix token syncTokenPrefix of None \<Rightarrow> None | Some rest \<Rightarrow>
      case cut (CHR '':'') rest of None \<Rightarrow> None | Some (i, n) \<Rightarrow>
        if i \<noteq> itoa collection then None
        else case parse_int64 n of None \<Rightarrow> None | Some v \<Rightarrow> if 0 \<le> v then Some v else None)"

text \<open>What a request is refused with: a status, a precondition of ours, or one of the library's.\<close>

datatype refusal = Refused nat | Precondition nat bytes bytes | LibraryPrecondition bytes

record propstat =
  ps_props :: "(xml_name \<times> bytes) list"
  ps_status :: bytes

record sync_response =
  sr_hrefs :: "bytes list"
  sr_propstats :: "propstat list"
  sr_status :: bytes

datatype answer = Multistatus "sync_response list" bytes | Refusal refusal | Status nat
  | FromLibrary nat "sync_response list option"

definition StatusText :: "nat \<Rightarrow> bytes" where
  "StatusText code = (if code = 200 then ''OK'' else if code = 403 then ''Forbidden'' else if code = 404 then ''Not Found''
     else if code = 424 then ''Failed Dependency'' else [])"

definition statusLine :: "nat \<Rightarrow> bytes" where
  "statusLine code = ''HTTP/1.1 '' @ itoa (int code) @ '' '' @ StatusText code"

section \<open>Requests and errors\<close>

record syncCollection =
  sc_token :: bytes
  sc_level :: bytes
  sc_prop :: "xml_name list option"

record calendarProps =
  mk_display :: "bytes option"
  mk_description :: "bytes option"
  mk_color :: "bytes option"
  mk_components :: "bytes list option"

text \<open>An item of a PROPPATCH: the element's name, and the properties in it with their texts.\<close>

record patchItem =
  pi_name :: xml_name
  pi_props :: "(xml_name \<times> bytes) list"

text \<open>
  A request: the body as each of the decoders reads it, \<open>None\<close> where it does not.  A blank body
  of a MKCALENDAR reads as no properties.
\<close>

record cal_request =
  cq_method :: bytes
  cq_path :: bytes
  cq_user :: "bytes option"
  cq_sync :: "syncCollection option"
  cq_asked :: "xml_name list option"
  cq_make :: "calendarProps list option"
  cq_patch :: "patchItem list option"

type_synonym ('d, 'a) cal_act = "'d tables \<Rightarrow> (refusal + 'a) \<times> 'd tables"

definition refuse :: "refusal \<Rightarrow> ('d, 'a) cal_act" where
  "refuse x w = (Inl x, w)"

definition yield_ok :: "'a \<Rightarrow> ('d, 'a) cal_act" where
  "yield_ok x w = (Inr x, w)"

definition then_do :: "('d, 'a) cal_act \<Rightarrow> ('a \<Rightarrow> ('d, 'b) cal_act) \<Rightarrow> ('d, 'b) cal_act" where
  "then_do m f w = (case m w of (Inl x, w') \<Rightarrow> (Inl x, w') | (Inr y, w') \<Rightarrow> f y w')"

text \<open>A call of the service, with its error mapped, or handed on.\<close>

definition calling :: "(error \<Rightarrow> refusal) \<Rightarrow> ('d, 'a) repo \<Rightarrow> ('d, 'a) cal_act" where
  "calling h m w = (case m w of (Inl e, w') \<Rightarrow> (Inl (h e), w') | (Inr x, w') \<Rightarrow> (Inr x, w'))"

definition inspecting :: "('d, 'a) repo \<Rightarrow> ('a result \<Rightarrow> ('d, 'b) cal_act) \<Rightarrow> ('d, 'b) cal_act" where
  "inspecting m f w = (case m w of (r, w') \<Rightarrow> f r w')"

text \<open>\<open>mapErr\<close> of \<^verbatim>\<open>dav.go\<close> for what these services return, and the two in front of it.\<close>

definition mapCalErr :: "error \<Rightarrow> refusal" where
  "mapCalErr e = (case e of ErrStatus n \<Rightarrow> Refused n | _ \<Rightarrow> Refused (mapErr e))"

definition mapCalendarErr :: "error \<Rightarrow> refusal" where
  "mapCalendarErr e =
     (case e of ErrUnsupported \<Rightarrow> LibraryPrecondition ''supported-calendar-component''
      | ErrInvalid \<Rightarrow> LibraryPrecondition ''valid-calendar-object-resource''
      | ErrConflict \<Rightarrow> LibraryPrecondition ''no-uid-conflict''
      | _ \<Rightarrow> mapCalErr e)"

definition mapContactsErr :: "error \<Rightarrow> refusal" where
  "mapContactsErr e =
     (case e of ErrInvalid \<Rightarrow> LibraryPrecondition ''valid-address-data''
      | ErrDefault \<Rightarrow> Refused 403
      | ErrConflict \<Rightarrow> LibraryPrecondition ''no-uid-conflict''
      | _ \<Rightarrow> mapCalErr e)"

text \<open>\<open>splitOwned\<close>: the owner, the collection and the member out of a path.\<close>

definition splitOwned :: "bytes option \<Rightarrow> bytes \<Rightarrow> bytes \<Rightarrow> nat \<Rightarrow> refusal + (bytes \<times> bytes \<times> bytes)" where
  "splitOwned user pre p segments =
     (case user of None \<Rightarrow> Inl (Refused 401) | Some u \<Rightarrow>
      (let parts = split_on slash (trim_suffix (trim_prefix p pre) ''/'') in
       if \<not> has_prefix p pre \<or> length parts \<noteq> segments \<or> [] \<in> set parts then Inl (Refused 404)
       else if parts ! 0 \<noteq> u then Inl (Refused 404)
       else Inr (parts ! 0, parts ! 1, if segments = 3 then parts ! 2 else [])))"

definition dav_split :: "bytes option \<Rightarrow> bytes \<Rightarrow> bytes \<Rightarrow> nat \<Rightarrow> ('d, bytes \<times> bytes \<times> bytes) cal_act" where
  "dav_split user pre p segments w = (splitOwned user pre p segments, w)"

definition home :: "bytes \<Rightarrow> bytes \<Rightarrow> bytes" where
  "home pre owner = pre @ owner @ ''/''"

definition isCalendar :: "bytes \<Rightarrow> bytes \<Rightarrow> bool" where
  "isCalendar pre p = (case cut_prefix p pre of None \<Rightarrow> False
     | Some rest \<Rightarrow> length (filter (\<lambda>c. c = slash) (trim_char slash rest)) = 1)"

section \<open>The sync-collection report\<close>

text \<open>What tells a calendar's feed from an address book's.\<close>

record 'c feed_kind =
  fk_profile :: "'c profile"
  fk_prefix :: bytes
  fk_err :: "error \<Rightarrow> refusal"
  fk_data :: xml_name
  fk_mime :: bytes

definition quoted_tag :: "bytes \<Rightarrow> bytes" where
  "quoted_tag tag = xmlEscape (quote_mark @ tag @ quote_mark)"

definition prop_of :: "xml_name \<Rightarrow> bytes \<Rightarrow> 'o item_scheme \<Rightarrow> xml_name \<Rightarrow> bytes option" where
  "prop_of data mime o' n =
     (if n = propGetETag then Some (quoted_tag (it_etag o'))
      else if n = (nsDAV, ''getcontenttype'') then Some mime
      else if n = (nsDAV, ''getcontentlength'') then Some (itoa (int (length (it_data o'))))
      else if n = (nsDAV, ''getlastmodified'') then Some (http_time (it_changed o'))
      else if n = data then Some (xmlEscape (it_data o'))
      else None)"

definition itemResponse :: "xml_name \<Rightarrow> bytes \<Rightarrow> bytes \<Rightarrow> 'o item_scheme \<Rightarrow> xml_name list option \<Rightarrow> sync_response" where
  "itemResponse data mime href o' asked =
     (let names = (case asked of None \<Rightarrow> [] | Some ns \<Rightarrow> ns);
          found = map (\<lambda>n. (n, the (prop_of data mime o' n))) (filter (\<lambda>n. prop_of data mime o' n \<noteq> None) names);
          missing = map (\<lambda>n. (n, [])) (filter (\<lambda>n. prop_of data mime o' n = None) names)
      in \<lparr>sr_hrefs = [href],
          sr_propstats = (if found \<noteq> [] \<or> missing = [] then [\<lparr>ps_props = found, ps_status = statusLine 200\<rparr>] else [])
            @ (if missing \<noteq> [] then [\<lparr>ps_props = missing, ps_status = statusLine 404\<rparr>] else []),
          sr_status = []\<rparr>)"

definition goneResponse :: "bytes \<Rightarrow> sync_response" where
  "goneResponse href = \<lparr>sr_hrefs = [href], sr_propstats = [], sr_status = statusLine 404\<rparr>"

fun feedResponses ::
  "'c feed_kind \<Rightarrow> bytes \<Rightarrow> bytes \<Rightarrow> xml_name list option \<Rightarrow> change list \<Rightarrow> (('c, 'o) sync_db, sync_response list) cal_act" where
  "feedResponses K owner name asked [] = yield_ok []"
| "feedResponses K owner name asked (ch # chs) =
     (let href = escapedPath (home (fk_prefix K) owner @ name @ ''/'' @ ch_name ch) in
      if ch_deleted ch
      then then_do (feedResponses K owner name asked chs) (\<lambda>rs. yield_ok (goneResponse href # rs))
      else inspecting (get_item (fk_profile K) owner name (ch_name ch)) (\<lambda>r.
           case r of
             Inl e \<Rightarrow> if e = ErrNotFound then feedResponses K owner name asked chs else refuse (fk_err K e)
           | Inr o' \<Rightarrow> then_do (feedResponses K owner name asked chs)
                        (\<lambda>rs. yield_ok (itemResponse (fk_data K) (fk_mime K) href o' asked # rs))))"

definition serveSync :: "'c feed_kind \<Rightarrow> cal_request \<Rightarrow> syncCollection \<Rightarrow> (('c, 'o) sync_db, answer) cal_act" where
  "serveSync K rq req =
     then_do (dav_split (cq_user rq) (fk_prefix K) (cq_path rq) 2) (\<lambda>(owner, name, _).
     if sc_level req \<noteq> ''1'' then refuse (Precondition 403 nsDAV ''sync-level'')
     else then_do (calling (fk_err K) (get_coll (fk_profile K) owner name)) (\<lambda>c.
     case parseSyncToken (sc_token req) (col_id c) of
       None \<Rightarrow> refuse (Precondition 403 nsDAV ''valid-sync-token'')
     | Some since \<Rightarrow>
         inspecting (changes_of (fk_profile K) owner name since) (\<lambda>r.
         case r of
           Inl e \<Rightarrow> if e = ErrStaleToken then refuse (Precondition 403 nsDAV ''valid-sync-token'') else refuse (fk_err K e)
         | Inr (changes, c') \<Rightarrow>
             then_do (feedResponses K owner name (sc_prop req) changes) (\<lambda>rs.
             yield_ok (Multistatus rs (syncToken (col_id c') (col_token c')))))))"

text \<open>The media types are constants of the libraries.\<close>

definition calendar_kind :: "bytes \<Rightarrow> bytes \<Rightarrow> unit calendar_ext feed_kind" where
  "calendar_kind mime pre = \<lparr>fk_profile = calendar_profile, fk_prefix = pre, fk_err = mapCalendarErr,
     fk_data = propCalendarData, fk_mime = mime\<rparr>"

definition contacts_kind :: "bytes \<Rightarrow> bytes \<Rightarrow> unit feed_kind" where
  "contacts_kind mime pre = \<lparr>fk_profile = contacts_profile, fk_prefix = pre, fk_err = mapContactsErr,
     fk_data = propAddressData, fk_mime = mime\<rparr>"

definition calendar_serveSync :: "bytes \<Rightarrow> bytes \<Rightarrow> cal_request \<Rightarrow> syncCollection \<Rightarrow> (calendar_db, answer) cal_act" where
  "calendar_serveSync mime pre = serveSync (calendar_kind mime pre)"

definition contacts_serveSync :: "bytes \<Rightarrow> bytes \<Rightarrow> cal_request \<Rightarrow> syncCollection \<Rightarrow> (contact_db, answer) cal_act" where
  "contacts_serveSync mime pre = serveSync (contacts_kind mime pre)"

end
