(* ===== verification/CalSync.thy ===== *)
theory CalSync
  imports CalDav
begin

text \<open>
  What a client that synchronises by token can rely on, whatever other requests commit between
  the reads its answer is put together from.
\<close>

section \<open>Tokens\<close>

lemma itoa_no_colon: "CHR '':'' \<notin> set (itoa x)"
proof
  assume "CHR '':'' \<in> set (itoa x)"
  then have "CHR '':'' = CHR ''-'' \<or> 48 \<le> byte (CHR '':'') \<and> byte (CHR '':'') \<le> 57" by (rule itoa_chars)
  then show False by (simp add: byte_def)
qed

lemma digits_inject: "digits m = digits n \<Longrightarrow> m = n"
  by (metis parse_digits_digits option.inject)

lemma digits_sign: "digits n \<noteq> CHR ''-'' # cs"
  using digits_chars [of "CHR ''-''" n] by (auto simp: byte_sign)

lemma itoa_inject: "itoa x = itoa y \<Longrightarrow> x = y"
  by (auto simp: itoa_def digits_sign not_sym [OF digits_sign] dest!: digits_inject split: if_splits)

lemma parse_syncToken:
  assumes "parseSyncToken (syncToken i t) j = Some s" "0 \<le> t"
  shows "i = j \<and> s = t"
proof -
  have cut: "cut (CHR '':'') (itoa i @ CHR '':'' # itoa t) = Some (itoa i, itoa t)"
    using cut_append [OF itoa_no_colon] by simp
  have pre: "cut_prefix (syncToken i t) syncTokenPrefix = Some (itoa i @ '':'' @ itoa t)"
    by (simp add: syncToken_def cut_prefix_append)
  have ne: "syncToken i t \<noteq> []" by (simp add: syncToken_def syncTokenPrefix_def)
  have eq: "itoa i = itoa j" "parse_int64 (itoa t) = Some s" "0 \<le> s"
    using assms(1) ne unfolding parseSyncToken_def pre by (auto simp: cut split: if_splits option.splits)
  have "is_int64 t"
  proof (rule ccontr)
    assume "\<not> is_int64 t"
    moreover obtain c cs where d: "digits (nat t) = c # cs" by (metis digits_not_Nil neq_Nil_conv)
    moreover have "48 \<le> byte c" using digits_chars [of c "nat t"] d by simp
    ultimately have "parse_int64 (itoa t) = None"
      using assms(2) parse_nat_digits [of "nat t"] by (auto simp: itoa_def parse_int64_def byte_sign split: option.splits if_splits)
    with eq show False by simp
  qed
  then show ?thesis using eq parse_itoa itoa_inject by simp
qed

section \<open>A client\<close>

text \<open>A client's copy: what it was told each address carries as its entity tag.\<close>

definition name_of :: "bytes \<Rightarrow> bytes \<Rightarrow> bytes option" where
  "name_of base h = Option.bind (path_unescape h) (\<lambda>p. if escapedPath p = h then cut_prefix p base else None)"

definition copy_of :: "bytes \<Rightarrow> (bytes \<rightharpoonup> bytes) \<Rightarrow> bytes \<rightharpoonup> bytes" where
  "copy_of base m h = Option.bind (name_of base h) (\<lambda>n. map_option quoted_tag (m n))"

lemma name_of_href: "name_of base h = Some n \<longleftrightarrow> h = escapedPath (base @ n)"
  by (auto simp: name_of_def bind_eq_Some_conv unescape_escape cut_prefix_Some_iff split: if_splits)

lemma copy_of_upd: "copy_of base (m(n := r)) = (copy_of base m)(escapedPath (base @ n) := map_option quoted_tag r)"
proof (rule ext)
  fix h
  show "copy_of base (m(n := r)) h = ((copy_of base m)(escapedPath (base @ n) := map_option quoted_tag r)) h"
  proof (cases "name_of base h")
    case None
    then have "h \<noteq> escapedPath (base @ n)" using name_of_href [of base h n] by auto
    then show ?thesis using None by (simp add: copy_of_def)
  next
    case (Some k)
    then have "h = escapedPath (base @ k)" by (simp add: name_of_href)
    then show ?thesis using Some by (auto simp: copy_of_def escapedPath_inject)
  qed
qed

lemma copy_of_empty [simp]: "copy_of base Map.empty = Map.empty"
  by (auto simp: copy_of_def fun_eq_iff bind_eq_Some_conv)

definition tag_in :: "sync_response \<Rightarrow> bytes option" where
  "tag_in r = map_of (concat (map ps_props (filter (\<lambda>p. ps_status p = statusLine 200) (sr_propstats r)))) propGetETag"

definition apply_response :: "sync_response \<Rightarrow> (bytes \<rightharpoonup> bytes) \<Rightarrow> (bytes \<rightharpoonup> bytes)" where
  "apply_response r copy =
     (case sr_hrefs r of
        [h] \<Rightarrow> if sr_status r = statusLine 404 then copy(h := None)
               else (case tag_in r of Some v \<Rightarrow> copy(h \<mapsto> v) | None \<Rightarrow> copy)
      | _ \<Rightarrow> copy)"

lemma status_lines: "statusLine 404 = ''HTTP/1.1 404 Not Found''" "statusLine 200 = ''HTTP/1.1 200 OK''"
  by code_simp+

lemma apply_gone: "apply_response (goneResponse h) copy = copy(h := None)"
  by (simp add: apply_response_def goneResponse_def)

lemma apply_item:
  assumes "asked = Some ns" "propGetETag \<in> set ns"
  shows "apply_response (itemResponse data mime h o' asked) copy = copy(h \<mapsto> quoted_tag (it_etag o'))"
proof -
  let ?found = "map (\<lambda>n. (n, the (prop_of data mime o' n))) (filter (\<lambda>n. prop_of data mime o' n \<noteq> None) ns)"
  have tag: "prop_of data mime o' propGetETag = Some (quoted_tag (it_etag o'))" by (simp add: prop_of_def)
  have found: "map_of (map (\<lambda>n. (n, the (prop_of data mime o' n))) ms) propGetETag = Some (quoted_tag (it_etag o'))"
    if "propGetETag \<in> set ms" for ms using that tag by (induction ms) auto
  have "map_of ?found propGetETag = Some (quoted_tag (it_etag o'))"
    using assms(2) tag by (intro found) simp
  moreover from this have "?found \<noteq> []" by force
  ultimately show ?thesis
    by (simp add: apply_response_def itemResponse_def tag_in_def Let_def assms(1) status_lines del: filter_map)
qed

section \<open>The reads of an answer\<close>

lemma ask_result:
  assumes a: "ask q w = (r, w')" and w: "runs.tame quiet w" and q: "\<And>d r d'. q d = (r, d') \<Longrightarrow> d' = d"
  shows "sync_runs quiet (moment w) (moment w') \<and> runs.tame quiet w'
    \<and> (r = Inl ErrOther \<or> q (t_rows w') = (r, t_rows w'))"
proof -
  let ?v = "meanwhile w"
  have s: "stmt q ?v = (r, w')" using a by (simp add: ask_def)
  have rows: "t_rows w' = t_rows ?v \<and> (r = Inl ErrOther \<or> q (t_rows w') = (r, t_rows w'))"
  proof (rule stmt_cases [OF s])
    assume "q (t_rows ?v) = (r, t_rows w')"
    moreover from this have "t_rows w' = t_rows ?v" by (rule q)
    ultimately show ?thesis by simp
  qed simp
  then have "moment w' = moment ?v" using innerD [OF inner_stmt s] by (simp add: moment_def)
  then show ?thesis
    using runs.tame_meanwhile [OF w] runs.tame_inner [OF inner_stmt s] rows by auto
qed

definition here :: "bytes \<Rightarrow> bytes \<Rightarrow> int \<Rightarrow> ('c, 'o) sync_db \<Rightarrow> bool" where
  "here owner name i d \<longleftrightarrow> (\<exists>c. find (named owner name) (colls d) = Some c \<and> col_id c = i)"

lemma here_found: "here owner name i d \<Longrightarrow> coll_by_name owner name d = (r, d') \<Longrightarrow>
    \<exists>c. r = Inr c \<and> col_id c = i \<and> find (named owner name) (colls d) = Some c"
  by (auto simp: here_def coll_by_name_def)

lemma here_quiet: "here owner name i (fst x) \<Longrightarrow> sync_runs True x y \<Longrightarrow> here owner name i (fst y)"
  unfolding here_def using quiet_named [of "fst x" "snd x" "fst y" "snd y" owner name] by fastforce

lemma moment_fst [simp]: "fst (moment w) = t_rows w" "snd (moment w) = now (t_env w)"
  by (simp_all add: moment_def)

lemma get_coll_here:
  assumes g: "get_coll P owner name w = (r, w')" and w: "runs.tame True w" and h: "here owner name i (t_rows w)"
  shows "sync_runs True (moment w) (moment w') \<and> runs.tame True w' \<and> here owner name i (t_rows w')
    \<and> (r = Inl ErrOther \<or> (\<exists>c. r = Inr c \<and> col_id c = i \<and> find (named owner name) (colls (t_rows w')) = Some c))"
proof -
  obtain r1 w1 where a: "ask (coll_by_name owner name) w = (r1, w1)" by (cases "ask (coll_by_name owner name) w")
  have A: "sync_runs True (moment w) (moment w1) \<and> runs.tame True w1
      \<and> (r1 = Inl ErrOther \<or> coll_by_name owner name (t_rows w1) = (r1, t_rows w1))"
    by (rule ask_result [OF a w]) (rule reads_same)
  have h1: "here owner name i (t_rows w1)" using here_quiet [of owner name i "moment w" "moment w1"] h A by simp
  have "r1 = Inl ErrOther \<or> (\<exists>c. r1 = Inr c \<and> col_id c = i \<and> find (named owner name) (colls (t_rows w1)) = Some c)"
    using A here_found [OF h1] by blast
  moreover have "r = r1 \<and> w' = w1"
    using g a calculation by (auto simp: get_coll_def)
  ultimately show ?thesis using A h1 by auto
qed

lemma get_item_here:
  assumes g: "get_item P owner coll n w = (r, w')" and w: "runs.tame True w" and h: "here owner coll i (t_rows w)"
  shows "sync_runs True (moment w) (moment w') \<and> runs.tame True w' \<and> here owner coll i (t_rows w')
    \<and> (r = Inl ErrOther \<or> item_by_name i n (t_rows w') = (r, t_rows w'))"
proof -
  obtain r1 w1 where a: "get_coll P owner coll w = (r1, w1)" by (cases "get_coll P owner coll w")
  note A = get_coll_here [OF a w h]
  show ?thesis
  proof (cases r1)
    case (Inl e)
    then show ?thesis using g a A by (auto simp: get_item_def)
  next
    case (Inr c)
    then have id: "col_id c = i" using A by auto
    have b: "ask (item_by_name i n) w1 = (r, w')" using g a Inr id by (simp add: get_item_def)
    have w1: "runs.tame True w1" using A by blast
    have B: "sync_runs True (moment w1) (moment w') \<and> runs.tame True w'
        \<and> (r = Inl ErrOther \<or> item_by_name i n (t_rows w') = (r, t_rows w'))"
      by (rule ask_result [OF b w1]) (rule reads_same)
    have "here owner coll i (t_rows w')" using here_quiet [of owner coll i "moment w1" "moment w'"] A B by simp
    moreover have "sync_runs True (moment w) (moment w')" using A B by (blast intro: runs.R_trans)
    ultimately show ?thesis using B by blast
  qed
qed

lemma item_present:
  assumes "coll_of d i = Some C" "item_by_name i n d = (r, d')"
  shows "r = Inr o' \<Longrightarrow> present C n = Some (it_etag o')" and "r = Inl ErrNotFound \<Longrightarrow> present C n = None"
  using assms by (auto simp: coll_of_def item_by_name_def present_def live_of_def split: option.splits)

section \<open>The responses\<close>

text \<open>One entry of the feed as the responses have it.\<close>

definition response_of :: "'c feed_kind \<Rightarrow> bytes \<Rightarrow> xml_name list option \<Rightarrow> bytes \<times> 'o item_scheme option \<Rightarrow> sync_response" where
  "response_of K base asked x = (case x of
     (n, None) \<Rightarrow> goneResponse (escapedPath (base @ n))
   | (n, Some o') \<Rightarrow> itemResponse (fk_data K) (fk_mime K) (escapedPath (base @ n)) o' asked)"

definition entry_of_item :: "bytes \<times> 'o item_scheme option \<Rightarrow> bytes \<times> bytes option" where
  "entry_of_item x = (fst x, map_option it_etag (snd x))"

lemma apply_responses:
  assumes asked: "asked = Some ns" "propGetETag \<in> set ns"
  shows "fold apply_response (map (response_of K base asked) fs) (copy_of base m)
    = copy_of base (apply_feed (map entry_of_item fs) m)"
proof (induction fs arbitrary: m)
  case (Cons x fs)
  obtain n r where x: "x = (n, r)" by (cases x)
  have "apply_response (response_of K base asked x) (copy_of base m) = copy_of base (m(n := map_option it_etag r))"
    by (cases r) (simp_all add: x response_of_def apply_gone apply_item [OF asked] copy_of_upd)
  then show ?case using Cons by (simp add: x entry_of_item_def del: fun_upd_apply)
qed (simp add: apply_feed_def)

definition feed_base :: "'c feed_kind \<Rightarrow> bytes \<Rightarrow> bytes \<Rightarrow> bytes" where
  "feed_base K owner name = home (fk_prefix K) owner @ name @ ''/''"

text \<open>What the entries of a feed say, read while the collection went from \<open>C\<close> to \<open>E\<close>.\<close>

definition feed_ok :: "change list \<Rightarrow> coll \<Rightarrow> coll \<Rightarrow> (bytes \<times> 'o item_scheme option) list \<Rightarrow> bool" where
  "feed_ok chs C E fs \<longleftrightarrow>
     (\<forall>n. (n, None) \<in> set fs \<longrightarrow> (\<exists>ch\<in>set chs. ch_name ch = n \<and> ch_deleted ch))
   \<and> (\<forall>n o'. (n, Some o') \<in> set fs \<longrightarrow> (\<exists>D. moves_on C D \<and> moves_on D E \<and> present D n = Some (it_etag o')))
   \<and> (\<forall>ch\<in>set chs. ch_name ch \<in> fst ` set fs
        \<or> \<not> ch_deleted ch \<and> (\<exists>D. moves_on C D \<and> moves_on D E \<and> present D (ch_name ch) = None))"

lemma feed_ok_Nil: "feed_ok [] C E []"
  by (simp add: feed_ok_def)

lemma feed_ok_gone: "feed_ok chs C E fs \<Longrightarrow> ch_deleted ch \<Longrightarrow> feed_ok (ch # chs) C E ((ch_name ch, None) # fs)"
  by (auto simp: feed_ok_def)

lemma feed_ok_later: "feed_ok chs D E fs \<Longrightarrow> moves_on C D \<Longrightarrow> feed_ok chs C E fs"
  unfolding feed_ok_def using moves_on_trans by meson

lemma feed_ok_item:
  "feed_ok chs C E fs \<Longrightarrow> moves_on C D \<Longrightarrow> moves_on D E \<Longrightarrow> present D (ch_name ch) = Some (it_etag o') \<Longrightarrow>
   feed_ok (ch # chs) C E ((ch_name ch, Some o') # fs)"
  unfolding feed_ok_def by (intro conjI; clarsimp; blast)

lemma feed_ok_skip:
  assumes "feed_ok chs C E fs" "moves_on C D" "moves_on D E" "present D (ch_name ch) = None" "\<not> ch_deleted ch"
  shows "feed_ok (ch # chs) C E fs"
proof -
  have "\<exists>D. moves_on C D \<and> moves_on D E \<and> present D (ch_name ch) = None" using assms(2-4) by blast
  then show ?thesis using assms(1,5) by (simp add: feed_ok_def)
qed

lemma feedResponses_reads:
  fixes w :: "('c, 'o) sync_db tables"
  assumes f: "feedResponses K owner name asked chs w = (Inr rs, w')"
    and w: "runs.tame True w" and ok: "sync_ok (now (t_env w)) (t_rows w)"
    and h: "here owner name i (t_rows w)" and C: "coll_of (t_rows w) i = Some C"
  obtains E and fs :: "(bytes \<times> 'o item_scheme option) list"
    where "sync_runs True (moment w) (moment w')" "here owner name i (t_rows w')"
    "coll_of (t_rows w') i = Some E" "moves_on C E"
    "rs = map (response_of K (feed_base K owner name) asked) fs" "feed_ok chs C E fs"
  using f w ok h C
proof (induction chs arbitrary: w rs C thesis)
  case Nil
  from Nil.prems(2) have "rs = []" "w' = w" by (auto simp: yield_ok_def)
  then show ?case using Nil.prems by (intro Nil.prems(1) [of C "[]"]) (auto simp: feed_ok_Nil same)
next
  case (Cons ch chs)
  show ?case
  proof (cases "ch_deleted ch")
    case True
    then obtain rs' where rec: "feedResponses K owner name asked chs w = (Inr rs', w')"
      and rs: "rs = goneResponse (escapedPath (feed_base K owner name @ ch_name ch)) # rs'"
      using Cons.prems(2) by (auto simp: Let_def then_do_def yield_ok_def feed_base_def split: prod.splits sum.splits)
    obtain E and fs :: "(bytes \<times> 'o item_scheme option) list" where E: "sync_runs True (moment w) (moment w')" "here owner name i (t_rows w')"
      "coll_of (t_rows w') i = Some E" "moves_on C E"
      "rs' = map (response_of K (feed_base K owner name) asked) fs" "feed_ok chs C E fs"
      by (rule Cons.IH [OF _ rec Cons.prems(3-6)])
    show ?thesis
      by (rule Cons.prems(1) [OF E(1-4) _ feed_ok_gone [OF E(6) True]]) (simp add: rs E(5) response_of_def)
  next
    case False
    obtain r w1 where g: "get_item (fk_profile K) owner name (ch_name ch) w = (r, w1)"
      by (cases "get_item (fk_profile K) owner name (ch_name ch) w")
    note G = get_item_here [OF g Cons.prems(3,5)]
    have run1: "sync_runs True (t_rows w, now (t_env w)) (t_rows w1, now (t_env w1))" using G by (simp add: moment_def)
    have ok1: "sync_ok (now (t_env w1)) (t_rows w1)" using runs_ok [OF run1 Cons.prems(4)] by blast
    obtain D where D: "coll_of (t_rows w1) i = Some D" "moves_on C D"
      using quiet_moves_on [OF run1 Cons.prems(4,6)] by blast
    have read: "r \<noteq> Inl ErrOther \<Longrightarrow> item_by_name i (ch_name ch) (t_rows w1) = (r, t_rows w1)" using G by blast
    have w1: "runs.tame True w1" "here owner name i (t_rows w1)" using G by blast+
    have whole: "sync_runs True (moment w1) (moment w') \<Longrightarrow> sync_runs True (moment w) (moment w')"
      using G by (blast intro: runs.R_trans)
    from Cons.prems(2) False g consider
      (skip) "r = Inl ErrNotFound" "feedResponses K owner name asked chs w1 = (Inr rs, w')"
    | (item) o' rs' where "r = Inr o'" "feedResponses K owner name asked chs w1 = (Inr rs', w')"
        "rs = itemResponse (fk_data K) (fk_mime K) (escapedPath (feed_base K owner name @ ch_name ch)) o' asked # rs'"
      by (auto simp: Let_def inspecting_def then_do_def yield_ok_def refuse_def feed_base_def split: prod.splits sum.splits if_splits)
    then show ?thesis
    proof cases
      case skip
      obtain E and fs :: "(bytes \<times> 'o item_scheme option) list" where E: "sync_runs True (moment w1) (moment w')" "here owner name i (t_rows w')"
        "coll_of (t_rows w') i = Some E" "moves_on D E"
        "rs = map (response_of K (feed_base K owner name) asked) fs" "feed_ok chs D E fs"
        by (rule Cons.IH [OF _ skip(2) w1(1) ok1 w1(2) D(1)])
      have "present D (ch_name ch) = None" using item_present(2) [OF D(1)] read skip(1) by blast
      then have "feed_ok (ch # chs) C E fs"
        using feed_ok_skip [OF feed_ok_later [OF E(6) D(2)] D(2) E(4)] False by blast
      then show ?thesis
        by (rule Cons.prems(1) [OF whole [OF E(1)] E(2,3) moves_on_trans [OF E(4) D(2)] E(5)])
    next
      case item
      obtain E and fs :: "(bytes \<times> 'o item_scheme option) list" where E: "sync_runs True (moment w1) (moment w')" "here owner name i (t_rows w')"
        "coll_of (t_rows w') i = Some E" "moves_on D E"
        "rs' = map (response_of K (feed_base K owner name) asked) fs" "feed_ok chs D E fs"
        by (rule Cons.IH [OF _ item(2) w1(1) ok1 w1(2) D(1)])
      have "present D (ch_name ch) = Some (it_etag o')" using item_present(1) [OF D(1)] read item(1) by blast
      then have "feed_ok (ch # chs) C E ((ch_name ch, Some o') # fs)"
        using feed_ok_item [OF feed_ok_later [OF E(6) D(2)] D(2) E(4)] by blast
      then show ?thesis
        by (intro Cons.prems(1) [OF whole [OF E(1)] E(2,3) moves_on_trans [OF E(4) D(2)]])
          (simp_all add: item(3) E(5) response_of_def)
    qed
  qed
qed

section \<open>The changes\<close>

text \<open>What the changes after a token say of the collection they are read from.\<close>

lemma changes_sound:
  assumes ok: "sync_ok T d" and C: "coll_of d i = Some C" and chs: "changes_since i since d = (Inr chs, d')" and ch: "ch \<in> set chs"
  shows "since < ch_token ch" "ch_token ch \<le> counter C"
    and "ch_deleted ch \<longleftrightarrow> live C (ch_name ch) = None"
proof -
  note D = sync_okD [OF ok] and Cok = coll_okD [OF sync_okD(9) [OF ok C]]
  have fields: "live C = live_of (items d) i" "dead C = dead_of (tombs d) i" using C by (auto simp: coll_of_def)
  from chs ch consider
    (item) o' where "o' \<in> set (items d)" "it_collection o' = i" "since < it_token o'"
      "ch = \<lparr>ch_name = it_name o', ch_token = it_token o', ch_deleted = False\<rparr>"
  | (tomb) t where "t \<in> set (tombs d)" "tb_collection t = i" "since < tb_token t"
      "ch = \<lparr>ch_name = tb_name t, ch_token = tb_token t, ch_deleted = True\<rparr>"
    by (auto simp: changes_since_def)
  then have "since < ch_token ch \<and> ch_token ch \<le> counter C \<and> (ch_deleted ch \<longleftrightarrow> live C (ch_name ch) = None)"
  proof cases
    case item
    have "find (at_item i (it_name o')) (items d) = Some o'"
      by (rule find_unique [OF D(4)]) (use item in \<open>auto simp: at_item_def\<close>)
    then have "live C (it_name o') = Some (it_etag o', it_token o')" by (simp add: fields live_of_def)
    then show ?thesis using Cok(4) item by auto
  next
    case tomb
    have "find (at_tomb i (tb_name t)) (tombs d) = Some t"
      by (rule find_unique [OF D(7)]) (use tomb in \<open>auto simp: at_tomb_def\<close>)
    then have "dead C (tb_name t) = Some (tb_token t, tb_deleted t)" by (simp add: fields dead_of_def)
    then show ?thesis using Cok(5) tomb by auto
  qed
  then show "since < ch_token ch" "ch_token ch \<le> counter C" "ch_deleted ch \<longleftrightarrow> live C (ch_name ch) = None" by auto
qed

lemma changes_complete:
  assumes C: "coll_of d i = Some C" and chs: "changes_since i since d = (Inr chs, d')"
    and n: "since < stamped C n" "0 \<le> since"
  shows "\<exists>ch\<in>set chs. ch_name ch = n"
proof -
  have fields: "live C = live_of (items d) i" "dead C = dead_of (tombs d) i" using C by (auto simp: coll_of_def)
  show ?thesis
  proof (cases "find (at_item i n) (items d)")
    case (Some o')
    then have "o' \<in> set (items d)" "it_collection o' = i" "it_name o' = n" "since < it_token o'"
      using find_someD [OF Some] n(1) by (auto simp: at_item_def stamped_def fields live_of_def)
    then show ?thesis using chs by (force simp: changes_since_def)
  next
    case None
    then obtain t where t: "find (at_tomb i n) (tombs d) = Some t" "since < tb_token t"
      using n by (auto simp: stamped_def fields live_of_def dead_of_def split: option.splits)
    then have "t \<in> set (tombs d)" "tb_collection t = i" "tb_name t = n"
      using find_someD [OF t(1)] by (auto simp: at_tomb_def)
    then show ?thesis using chs t(2) by (force simp: changes_since_def)
  qed
qed

lemma fold_max_ge: "(t0 :: int) \<le> fold (\<lambda>ch t. max t (ch_token ch)) chs t0"
  by (induction chs arbitrary: t0) (auto intro: order_trans [OF max.cobounded1])

lemma fold_max_mem: "ch \<in> set chs \<Longrightarrow> ch_token ch \<le> fold (\<lambda>ch t. max t (ch_token ch)) chs t0"
  by (induction chs arbitrary: t0) (auto intro: order_trans [OF _ fold_max_ge])

lemma fold_max_le: "t0 \<le> u \<Longrightarrow> (\<And>ch. ch \<in> set chs \<Longrightarrow> ch_token ch \<le> u) \<Longrightarrow> fold (\<lambda>ch t. max t (ch_token ch)) chs t0 \<le> u"
  by (induction chs arbitrary: t0) auto

section \<open>The answer\<close>

definition profile_ok :: "'c profile \<Rightarrow> bool" where
  "profile_ok P \<longleftrightarrow> (\<forall>owner t. col_owner (pf_make P owner t) = owner \<and> col_name (pf_make P owner t) = pf_name P)"

lemma profiles_ok: "profile_ok calendar_profile" "profile_ok contacts_profile"
  by (simp_all add: profile_ok_def calendar_profile_def contacts_profile_def)

lemma ask_found:
  assumes "ask (coll_by_name owner name) w = (Inr c, w')"
  shows "find (named owner name) (colls (t_rows w')) = Some c"
  using stmt_ok [of "coll_by_name owner name" "meanwhile w" c w'] assms
  by (auto simp: ask_def coll_by_name_def split: option.splits)

lemma ask_created:
  assumes "ask (create_coll c0) w = (Inr c, w')"
  shows "find (named (col_owner c0) (col_name c0)) (colls (t_rows w')) = Some c"
proof -
  have c: "create_coll c0 (t_rows (meanwhile w)) = (Inr c, t_rows w')"
    using stmt_ok [of "create_coll c0" "meanwhile w" c w'] assms by (simp add: ask_def)
  then have "find (named (col_owner c0) (col_name c0)) (colls (t_rows (meanwhile w))) = None"
    unfolding find_none_iff by (auto simp: create_coll_def Let_def norm_coll_def split: if_splits)
  moreover have "colls (t_rows w') = colls (t_rows (meanwhile w)) @ [c]" "named (col_owner c0) (col_name c0) c"
  proof -
    have "t_rows w' = snd (create_coll c0 (t_rows (meanwhile w)))" "Inr c = fst (create_coll c0 (t_rows (meanwhile w)))"
      using c by simp_all
    then show "colls (t_rows w') = colls (t_rows (meanwhile w)) @ [c]" "named (col_owner c0) (col_name c0) c"
      by (auto simp: create_coll_def Let_def norm_coll_def named_def split: if_splits)
  qed
  ultimately show ?thesis by (simp add: find_append)
qed

lemma get_coll_found:
  assumes g: "get_coll P owner name w = (Inr c, w')" and P: "profile_ok P"
  shows "find (named owner name) (colls (t_rows w')) = Some c"
proof -
  obtain r1 w1 where a: "ask (coll_by_name owner name) w = (r1, w1)" by (cases "ask (coll_by_name owner name) w")
  show ?thesis
  proof (cases "r1 = Inl ErrNotFound \<and> name = pf_name P")
    case False
    then have "r1 = Inr c" "w1 = w'" using g a by (auto simp: get_coll_def)
    then show ?thesis using ask_found a by blast
  next
    case True
    then have e: "ensureDefault P owner w1 = (Inr c, w')" using g a by (simp add: get_coll_def)
    obtain r2 w2 where b: "ask (create_coll (pf_make P owner (now (t_env w1)))) w1 = (r2, w2)"
      by (cases "ask (create_coll (pf_make P owner (now (t_env w1)))) w1")
    from e b have "r2 = Inl ErrConflict \<and> ask (coll_by_name owner (pf_name P)) w2 = (Inr c, w') \<or> r2 = Inr c \<and> w2 = w'"
      by (auto simp: ensureDefault_def bindE_def tryE_def t_clock_def split: if_splits)
    then show ?thesis using ask_found ask_created [of "pf_make P owner (now (t_env w1))" w1 c w2] b P True
      by (auto simp: profile_ok_def)
  qed
qed

text \<open>With no other request in between, nothing changes after the collection has been found.\<close>

lemma ask_alone:
  assumes "ask q w = (r, w')" "t_others w = []"
  shows "t_others w' = []"
  using assms innerD [OF inner_stmt, of q "meanwhile w" r w'] by (simp add: ask_def meanwhile_def)

lemma ask_alone_rows:
  assumes a: "ask q w = (r, w')" and w: "t_others w = []" and q: "\<And>d r d'. q d = (r, d') \<Longrightarrow> d' = d"
  shows "t_rows w' = t_rows w"
proof -
  have s: "stmt q w = (r, w')" using a w by (simp add: ask_def meanwhile_def)
  show ?thesis by (rule stmt_cases [OF s]) (auto dest: q)
qed

lemma get_coll_alone: "get_coll P owner name w = (r, w') \<Longrightarrow> t_others w = [] \<Longrightarrow> t_others w' = []"
  by (auto simp: get_coll_def ensureDefault_def tryE_def bindE_def t_clock_def split: prod.splits if_splits sum.splits dest!: ask_alone)

lemma get_coll_alone_rows:
  assumes g: "get_coll P owner name w = (r, w')" and w: "t_others w = []" "runs.tame True w" and h: "here owner name i (t_rows w)"
  shows "t_rows w' = t_rows w"
proof -
  obtain r1 w1 where a: "ask (coll_by_name owner name) w = (r1, w1)" by (cases "ask (coll_by_name owner name) w")
  have rows: "t_rows w1 = t_rows w" by (rule ask_alone_rows [OF a w(1)]) (rule reads_same)
  have "r1 = Inl ErrOther \<or> coll_by_name owner name (t_rows w1) = (r1, t_rows w1)"
    using ask_result [OF a w(2)] reads_same(1) by metis
  then have "r1 \<noteq> Inl ErrNotFound" using here_found [of owner name i "t_rows w1" r1 "t_rows w1"] h rows by auto
  then have "w' = w1" using g a by (auto simp: get_coll_def)
  then show ?thesis using rows by simp
qed

lemma get_item_alone_rows:
  assumes g: "get_item P owner coll n w = (r, w')" and w: "t_others w = []" "runs.tame True w" and h: "here owner coll i (t_rows w)"
  shows "t_rows w' = t_rows w \<and> t_others w' = []"
proof -
  obtain r1 w1 where a: "get_coll P owner coll w = (r1, w1)" by (cases "get_coll P owner coll w")
  have A: "t_rows w1 = t_rows w" "t_others w1 = []" using get_coll_alone_rows [OF a w h] get_coll_alone [OF a w(1)] by auto
  show ?thesis
  proof (cases r1)
    case (Inr c)
    then have b: "ask (item_by_name (col_id c) n) w1 = (r, w')" using g a by (simp add: get_item_def)
    have "t_rows w' = t_rows w1" by (rule ask_alone_rows [OF b A(2)]) (rule reads_same)
    then show ?thesis using A ask_alone [OF b A(2)] by simp
  qed (use g a A in \<open>auto simp: get_item_def\<close>)
qed

lemma feedResponses_alone:
  assumes "feedResponses K owner name asked chs w = (r, w')" "t_others w = []" "runs.tame True w" "here owner name i (t_rows w)"
  shows "t_rows w' = t_rows w"
  using assms
proof (induction chs arbitrary: w r)
  case (Cons ch chs)
  obtain r1 w1 where g: "get_item (fk_profile K) owner name (ch_name ch) w = (r1, w1)"
    by (cases "get_item (fk_profile K) owner name (ch_name ch) w")
  note G = get_item_here [OF g Cons.prems(3,4)] and A = get_item_alone_rows [OF g Cons.prems(2-4)]
  consider "ch_deleted ch" "\<exists>r'. feedResponses K owner name asked chs w = (r', w')"
    | "\<not> ch_deleted ch" "w' = w1 \<or> (\<exists>r'. feedResponses K owner name asked chs w1 = (r', w'))"
    using Cons.prems(1) g
    by (cases "ch_deleted ch") (auto simp: Let_def inspecting_def then_do_def yield_ok_def refuse_def split: prod.splits sum.splits if_splits)
  then show ?case
  proof cases
    case 1
    then show ?thesis using Cons.IH Cons.prems(2-4) by blast
  next
    case 2
    then show ?thesis using Cons.IH [of w1] A G by auto
  qed
qed (auto simp: yield_ok_def)

text \<open>The collection a report is about, and the moments its answer is read at.\<close>

lemma serveSync_reads:
  fixes w :: "('c, 'o) sync_db tables"
  assumes s: "serveSync K rq req w = (Inr (Multistatus rs tok), w')"
    and w: "runs.tame True w" and ok: "sync_ok (now (t_env w)) (t_rows w)" and P: "profile_ok (fk_profile K)"
  obtains owner name x i since C1 t E and fs :: "(bytes \<times> 'o item_scheme option) list"
  where "splitOwned (cq_user rq) (fk_prefix K) (cq_path rq) 2 = Inr (owner, name, x)"
    and "parseSyncToken (sc_token req) i = Some since" and "here owner name i (t_rows w')"
    and "\<exists>w1. sync_runs True (moment w) (moment w1) \<and> sync_runs True (moment w1) (moment w')
      \<and> coll_of (t_rows w1) i = Some C1 \<and> here owner name i (t_rows w1)"
    and "coll_of (t_rows w') i = Some E" and "tok = syncToken i t" and "0 \<le> t"
    and "rs = map (response_of K (feed_base K owner name) (sc_prop req)) fs"
    and "\<And>m. behind since m C1 \<Longrightarrow> current t (apply_feed (map entry_of_item fs) m) E"
    and "t_others w = [] \<Longrightarrow> t = counter E"
proof -
  obtain owner name x where split: "splitOwned (cq_user rq) (fk_prefix K) (cq_path rq) 2 = Inr (owner, name, x)"
    using s by (cases "splitOwned (cq_user rq) (fk_prefix K) (cq_path rq) 2")
      (auto simp: serveSync_def then_do_def dav_split_def)
  obtain r1 w1 where g: "get_coll (fk_profile K) owner name w = (r1, w1)" by (cases "get_coll (fk_profile K) owner name w")
  from s split g obtain c where c: "r1 = Inr c"
    by (cases r1) (auto simp: serveSync_def then_do_def dav_split_def calling_def refuse_def split: if_splits)
  from s split g c obtain since where since: "parseSyncToken (sc_token req) (col_id c) = Some since"
    by (auto simp: serveSync_def then_do_def dav_split_def calling_def refuse_def split: if_splits option.splits)
  obtain r2 w3 where ch: "changes_of (fk_profile K) owner name since w1 = (r2, w3)"
    by (cases "changes_of (fk_profile K) owner name since w1")
  from s split g c since ch obtain changes c2 rs' where r2: "r2 = Inr (changes, c2)"
    and fr: "feedResponses K owner name (sc_prop req) changes w3 = (Inr rs, w')"
    and tok: "tok = syncToken (col_id c2) (col_token c2)"
    by (auto simp: serveSync_def then_do_def dav_split_def calling_def inspecting_def refuse_def yield_ok_def
        split: if_splits option.splits sum.splits prod.splits)
  let ?i = "col_id c"
  have h1: "here owner name ?i (t_rows w1)" using get_coll_found [OF g [unfolded c] P] by (simp add: here_def)
  have R1: "sync_runs True (moment w) (moment w1) \<and> runs.tame True w1"
    by (rule runs.followsD [OF follows_get_coll w g])
  obtain r2' w2 where g2: "get_coll (fk_profile K) owner name w1 = (r2', w2)" by (cases "get_coll (fk_profile K) owner name w1")
  have G2: "sync_runs True (moment w1) (moment w2) \<and> runs.tame True w2 \<and> here owner name ?i (t_rows w2)
    \<and> (r2' = Inl ErrOther \<or> (\<exists>c. r2' = Inr c \<and> col_id c = ?i \<and> find (named owner name) (colls (t_rows w2)) = Some c))"
    using get_coll_here [OF g2 conjunct2 [OF R1] h1] .
  obtain b chs where b: "find (named owner name) (colls (t_rows w2)) = Some b" "col_id b = ?i" "\<not> stale since b"
    and ask: "ask (changes_since ?i since) w2 = (Inr chs, w3)"
    and chg: "changes = filter (\<lambda>ch. \<not> (since = 0 \<and> ch_deleted ch)) chs"
    and c2: "c2 = b\<lparr>col_token := fold (\<lambda>ch t. max t (ch_token ch)) chs (col_token b)\<rparr>"
    using ch g2 r2 G2 by (auto simp: changes_of_def elim!: bindE_okE split: if_splits)
  have A: "sync_runs True (moment w2) (moment w3) \<and> runs.tame True w3
      \<and> ((Inr chs :: change list result) = Inl ErrOther \<or> changes_since ?i since (t_rows w3) = (Inr chs, t_rows w3))"
    by (rule ask_result [OF ask]) (use G2 in blast, rule reads_same)
  have read: "changes_since ?i since (t_rows w3) = (Inr chs, t_rows w3)" using A by simp
  have R2: "sync_runs True (moment w) (moment w2)" using R1 G2 by (blast intro: runs.R_trans)
  have R3: "sync_runs True (moment w) (moment w3)" using R2 A by (blast intro: runs.R_trans)
  have ok2: "sync_ok (now (t_env w2)) (t_rows w2)"
    using runs_ok [OF R2 [unfolded moment_def] ok] by blast
  have ok3: "sync_ok (now (t_env w3)) (t_rows w3)"
    using runs_ok [OF R3 [unfolded moment_def] ok] by blast
  have "find (\<lambda>c. col_id c = ?i) (colls (t_rows w2)) = Some b"
    by (rule find_unique [OF sync_okD(1) [OF ok2]]) (use find_someD [OF b(1)] b(2) in auto)
  then obtain C1 where C1: "coll_of (t_rows w2) ?i = Some C1" "counter C1 = col_token b" "forgotten C1 = col_pruned b"
    by (auto simp: coll_of_def)
  obtain C2 where C2: "coll_of (t_rows w3) ?i = Some C2" "moves_on C1 C2"
    using quiet_moves_on [OF _ ok2 C1(1), of "t_rows w3" "now (t_env w3)"] A by (auto simp: moment_def)
  have h3: "here owner name ?i (t_rows w3)" using here_quiet [of owner name ?i "moment w2" "moment w3"] G2 A by simp
  obtain E and fs :: "(bytes \<times> 'o item_scheme option) list" where E: "sync_runs True (moment w3) (moment w')"
    "here owner name ?i (t_rows w')" "coll_of (t_rows w') ?i = Some E" "moves_on C2 E"
    "rs = map (response_of K (feed_base K owner name) (sc_prop req)) fs" "feed_ok changes C2 E fs"
    using feedResponses_reads [OF fr _ ok3 h3 C2(1)] A by blast
  let ?t = "fold (\<lambda>ch t. max t (ch_token ch)) chs (counter C1)"
  note sound = changes_sound [OF ok3 C2(1) read]
  have t_le: "?t \<le> counter C2"
    using moves_on_counter [OF C2(2)] sound(2) by (intro fold_max_le) auto
  have since_ok: "0 \<le> since" "since \<le> counter C1" "since = 0 \<or> forgotten C1 \<le> since"
    using b(3) C1 by (auto simp: stale_def)
  have t_ge: "counter C1 \<le> ?t" by (rule fold_max_ge)
  have t0: "map entry_of_item fs = []" if "?t = 0"
  proof -
    have "chs = []"
    proof (rule ccontr)
      assume "chs \<noteq> []"
      then obtain ch where "ch \<in> set chs" by (cases chs) auto
      then show False using sound(1) [of ch] fold_max_mem [of ch chs "counter C1"] since_ok(1) that by force
    qed
    then have "changes = []" by (simp add: chg)
    then have "fs = []"
      using E(6) fr E(5) by (auto simp: yield_ok_def)
    then show ?thesis by simp
  qed
  have cur: "current ?t (apply_feed (map entry_of_item fs) m) E" if m: "behind since m C1" for m
  proof (rule feed_catches_up [OF behind_current [OF m since_ok(3)] C2(2) E(4) t_ge t_le t0])
    fix n assume "(n, None) \<in> set (map entry_of_item fs)"
    then have "(n, None) \<in> set fs" by (auto simp: entry_of_item_def)
    then obtain ch where "ch \<in> set changes" "ch_name ch = n" "ch_deleted ch" using E(6) by (auto simp: feed_ok_def)
    then show "present C2 n = None" using sound(3) [of ch] by (auto simp: chg present_def)
  next
    fix n tag assume "(n, Some tag) \<in> set (map entry_of_item fs)"
    then obtain x where x: "x \<in> set fs" "entry_of_item x = (n, Some tag)" by auto
    obtain o' where o': "x = (n, Some o')" "tag = it_etag o'"
      using x(2) by (cases x; cases "snd x") (simp_all add: entry_of_item_def)
    then have "(n, Some o') \<in> set fs" using x(1) by simp
    then show "\<exists>D. moves_on C2 D \<and> moves_on D E \<and> present D n = Some tag" using E(6) o'(2) unfolding feed_ok_def by blast
  next
    fix n assume n: "n \<notin> fst ` set (map entry_of_item fs)"
    have n': "n \<notin> fst ` set fs" using n by (force simp: entry_of_item_def image_iff)
    show "stamped C2 n \<le> since \<or> since = 0 \<and> present C2 n = None
        \<or> present C2 n \<noteq> None \<and> (\<exists>D. moves_on C2 D \<and> moves_on D E \<and> present D n = None)"
    proof (cases "stamped C2 n \<le> since")
      case False
      then obtain ch where ch: "ch \<in> set chs" "ch_name ch = n"
        using changes_complete [OF C2(1) read] since_ok(1) by force
      show ?thesis
      proof (cases "since = 0 \<and> ch_deleted ch")
        case True
        then show ?thesis using sound(3) [OF ch(1)] ch(2) by (auto simp: present_def)
      next
        case False
        then have "ch \<in> set changes" using ch(1) by (auto simp: chg)
        then have "\<not> ch_deleted ch \<and> (\<exists>D. moves_on C2 D \<and> moves_on D E \<and> present D n = None)"
          using E(6) n' ch(2) by (auto simp: feed_ok_def)
        then show ?thesis using sound(3) [OF ch(1)] ch(2) by (auto simp: present_def)
      qed
    qed simp
  qed
  have whole: "sync_runs True (moment w2) (moment w')" using A E(1) by (blast intro: runs.R_trans)
  have tok': "tok = syncToken ?i ?t" using tok b(2) by (simp add: c2 C1(2))
  have "0 \<le> ?t" using t_ge since_ok by linarith
  moreover have "?t = counter E" if alone: "t_others w = []"
  proof -
    have o: "t_others w1 = []" "t_others w2 = []" "t_others w3 = []"
      using get_coll_alone [OF g alone] get_coll_alone [OF g2] ask_alone [OF ask] by auto
    have "t_rows w3 = t_rows w2" by (rule ask_alone_rows [OF ask o(2)]) (rule reads_same)
    moreover have "t_rows w' = t_rows w3" using feedResponses_alone [OF fr o(3) _ h3] A by blast
    ultimately have "E = C1" using C1(1) E(3) by simp
    then show ?thesis using t_ge t_le moves_on_counter [OF E(4)] by auto
  qed
  ultimately show ?thesis
    using that [OF split since E(2) _ E(3) tok' _ E(5) cur] R2 whole C1(1) G2 by blast
qed

end
