(* ===== verification/Mirror.thy ===== *)
theory Mirror
  imports CalSync
begin

text \<open>
  A client that synchronises a calendar or an address book by token, from its first report on,
  among requests of others: what its copy holds, whatever happened in between.
\<close>

section \<open>The life of a client\<close>

text \<open>
  The tables start empty.  Other requests commit what they commit; the client asks with the token
  it has, makes of an answer what it says, and may start over.  While an answer is put together
  others may commit anything but the deletion of a collection and the pruning of tombstones.
\<close>

inductive client_life ::
  "'c feed_kind \<Rightarrow> bytes option \<Rightarrow> bytes \<Rightarrow> ('c, 'o) sync_db \<times> int \<Rightarrow> bytes \<Rightarrow> (bytes \<rightharpoonup> bytes) \<Rightarrow> bool"
  for K user path where
  born: "client_life K user path (empty_sync, T) [] Map.empty"
| others: "client_life K user path x tok copy \<Longrightarrow> sync_step False x y \<Longrightarrow> client_life K user path y tok copy"
| restarts: "client_life K user path x tok copy \<Longrightarrow> client_life K user path x [] Map.empty"
| syncs: "client_life K user path (moment w) tok copy \<Longrightarrow> runs.tame True w \<Longrightarrow>
    cq_user rq = user \<Longrightarrow> cq_path rq = path \<Longrightarrow> sc_token req = tok \<Longrightarrow>
    sc_prop req = Some ns \<Longrightarrow> propGetETag \<in> set ns \<Longrightarrow>
    serveSync K rq req w = (Inr (Multistatus rs tok'), w') \<Longrightarrow>
    client_life K user path (moment w') tok' (fold apply_response rs copy)"

text \<open>What a client is to have: the address and the entity tag of every member.\<close>

definition members_at :: "bytes \<Rightarrow> int \<Rightarrow> ('c, 'o) sync_db \<Rightarrow> bytes \<rightharpoonup> bytes" where
  "members_at base i d h = Option.bind (name_of base h)
     (\<lambda>n. map_option (\<lambda>o'. quoted_tag (it_etag o')) (find (at_item i n) (items d)))"

lemma members_at_copy: "coll_of d i = Some C \<Longrightarrow> members_at base i d = copy_of base (present C)"
  by (rule ext) (auto simp: members_at_def copy_of_def coll_of_def present_def live_of_def option.map_comp comp_def
      intro: arg_cong2 [where f = Option.bind])

text \<open>Its copy is what its token says of the collection that token was given for.\<close>

definition mirrors :: "bytes \<Rightarrow> ('c, 'o) sync_db \<Rightarrow> bytes \<Rightarrow> (bytes \<rightharpoonup> bytes) \<Rightarrow> bool" where
  "mirrors base d tok copy \<longleftrightarrow> tok = [] \<and> copy = Map.empty
     \<or> (\<exists>i t m. tok = syncToken i t \<and> 0 \<le> t \<and> i < next_coll d \<and> copy = copy_of base m
          \<and> (coll_of d i = None \<or> (\<exists>C. coll_of d i = Some C \<and> behind t m C)))"

lemma coll_of_next: "sync_ok T d \<Longrightarrow> coll_of d i = Some C \<Longrightarrow> i < next_coll d"
  using coll_of_None [of d i] sync_okD(2) [of T d] by force

lemma mirrors_later:
  assumes r: "sync_runs quiet (d, T) (d', T')" and ok: "sync_ok T d" and m: "mirrors base d tok copy"
  shows "mirrors base d' tok copy"
proof -
  have n: "next_coll d \<le> next_coll d'" using runs_ok [OF r ok] by simp
  from m consider (none) "tok = []" "copy = Map.empty"
    | (some) i t m where "tok = syncToken i t" "0 \<le> t" "i < next_coll d" "copy = copy_of base m"
        "coll_of d i = None \<or> (\<exists>C. coll_of d i = Some C \<and> behind t m C)" by (auto simp: mirrors_def)
  then show ?thesis
  proof cases
    case some
    then have "coll_of d' i = None \<or> (\<exists>C. coll_of d' i = Some C \<and> behind t m C)"
      using runs_gone [OF r ok, of i] runs_behind [OF r ok, of i] by blast
    then show ?thesis using some n unfolding mirrors_def by (intro disjI2 exI [of _ i] exI [of _ t] exI [of _ m]) simp
  qed (simp add: mirrors_def)
qed

text \<open>An answer keeps it, and one that nothing came in between of leaves the copy exact.\<close>

lemma mirrors_sync:
  assumes s: "serveSync K rq req w = (Inr (Multistatus rs tok'), w')"
    and w: "runs.tame True w" and ok: "sync_ok (now (t_env w)) (t_rows w)" and P: "profile_ok (fk_profile K)"
    and asked: "sc_prop req = Some ns" "propGetETag \<in> set ns"
    and split: "splitOwned (cq_user rq) (fk_prefix K) (cq_path rq) 2 = Inr (owner, name, x)"
    and m: "mirrors (feed_base K owner name) (t_rows w) (sc_token req) copy"
  shows "mirrors (feed_base K owner name) (t_rows w') tok' (fold apply_response rs copy)
    \<and> sync_ok (now (t_env w')) (t_rows w')
    \<and> (t_others w = [] \<longrightarrow> (\<exists>c. find (named owner name) (colls (t_rows w')) = Some c
         \<and> fold apply_response rs copy = members_at (feed_base K owner name) (col_id c) (t_rows w')))"
proof -
  let ?base = "feed_base K owner name"
  obtain i since C1 t E and fs :: "(bytes \<times> 'b item_scheme option) list"
    where since: "parseSyncToken (sc_token req) i = Some since" and h: "here owner name i (t_rows w')"
      and r: "\<exists>w1. sync_runs True (moment w) (moment w1) \<and> sync_runs True (moment w1) (moment w')
        \<and> coll_of (t_rows w1) i = Some C1 \<and> here owner name i (t_rows w1)"
      and E: "coll_of (t_rows w') i = Some E" and tok: "tok' = syncToken i t" "0 \<le> t"
      and rs: "rs = map (response_of K ?base (sc_prop req)) fs"
      and cur: "\<And>m. behind since m C1 \<Longrightarrow> current t (apply_feed (map entry_of_item fs) m) E"
      and alone: "t_others w = [] \<Longrightarrow> t = counter E"
  proof (rule serveSync_reads [OF s w ok P], goal_cases)
    case (1 owner' name' x' i since C1 t E fs)
    then have "owner' = owner" "name' = name" using split by auto
    with 1 show ?thesis by (intro that [of i since C1 E t fs]) blast+
  qed
  from r obtain w1 where w1: "sync_runs True (moment w) (moment w1)" "sync_runs True (moment w1) (moment w')"
    "coll_of (t_rows w1) i = Some C1" by blast
  note r1 = w1(1) [unfolded moment_def] and r2 = w1(2) [unfolded moment_def]
  have ok1: "sync_ok (now (t_env w1)) (t_rows w1)" using runs_ok [OF r1 ok] by simp
  have ok': "sync_ok (now (t_env w')) (t_rows w')" using runs_ok [OF r2 ok1] by simp
  obtain m0 where m0: "copy = copy_of ?base m0" "behind since m0 C1"
  proof (cases "sc_token req = []")
    case True
    then have "since = 0" "copy = Map.empty" using since m by (auto simp: parseSyncToken_def mirrors_def syncToken_def syncTokenPrefix_def)
    then show ?thesis using that [of Map.empty] behind_start [OF sync_okD(9) [OF ok1 w1(3)]] by simp
  next
    case False
    obtain j t0 k where j: "sc_token req = syncToken j t0" "0 \<le> t0" "copy = copy_of ?base k"
      "coll_of (t_rows w1) j = None \<or> (\<exists>C. coll_of (t_rows w1) j = Some C \<and> behind t0 k C)"
      using mirrors_later [OF r1 ok m] False unfolding mirrors_def by blast
    have "j = i" "since = t0" using parse_syncToken [of j t0 i since] since j by auto
    then show ?thesis using that [of k] j w1(3) by auto
  qed
  have copy: "fold apply_response rs copy = copy_of ?base (apply_feed (map entry_of_item fs) m0)"
    unfolding rs m0(1) by (rule apply_responses [OF asked])
  note now_current = cur [OF m0(2)]
  have "mirrors ?base (t_rows w') tok' (fold apply_response rs copy)"
    unfolding mirrors_def using tok E copy current_behind [OF now_current] coll_of_next [OF ok' E] by blast
  moreover have "\<exists>c. find (named owner name) (colls (t_rows w')) = Some c
      \<and> fold apply_response rs copy = members_at ?base (col_id c) (t_rows w')" if a: "t_others w = []"
  proof -
    have "apply_feed (map entry_of_item fs) m0 = present E"
      by (rule current_exact [OF _ sync_okD(9) [OF ok' E]]) (use now_current alone [OF a] in simp)
    then show ?thesis using h copy members_at_copy [OF E, of ?base] by (auto simp: here_def)
  qed
  ultimately show ?thesis using ok' by blast
qed

lemma serveSync_split:
  assumes "serveSync K rq req w = (Inr a, w')"
  shows "\<exists>owner name. splitOwned (cq_user rq) (fk_prefix K) (cq_path rq) 2 = Inr (owner, name, [])"
proof -
  obtain owner name x where "splitOwned (cq_user rq) (fk_prefix K) (cq_path rq) 2 = Inr (owner, name, x)"
    using assms by (cases "splitOwned (cq_user rq) (fk_prefix K) (cq_path rq) 2")
      (auto simp: serveSync_def then_do_def dav_split_def)
  moreover from this have "x = []" by (auto simp: splitOwned_def Let_def split: option.splits if_splits)
  ultimately show ?thesis by blast
qed

lemma client_life_mirrors:
  assumes "client_life K user path x tok copy" and P: "profile_ok (fk_profile K)"
    and split: "splitOwned user (fk_prefix K) path 2 = Inr (owner, name, z)"
  shows "mirrors (feed_base K owner name) (fst x) tok copy \<and> sync_ok (snd x) (fst x)"
  using assms(1)
proof (induction rule: client_life.induct)
  case (born T)
  then show ?case by (simp add: mirrors_def empty_sync_ok)
next
  case (others x tok copy y)
  obtain d T d' T' where [simp]: "x = (d, T)" "y = (d', T')" by (cases x, cases y)
  note r = runs_one [OF others(2)]
  show ?case using mirrors_later [OF r [simplified]] runs_ok [OF r [simplified]] others(3) by simp
next
  case (restarts x tok copy)
  then show ?case by (simp add: mirrors_def)
next
  case (syncs w tok copy rq req ns rs tok' w')
  have "splitOwned (cq_user rq) (fk_prefix K) (cq_path rq) 2 = Inr (owner, name, z)" using split syncs(3,4) by simp
  moreover have "mirrors (feed_base K owner name) (t_rows w) (sc_token req) copy" "sync_ok (now (t_env w)) (t_rows w)"
    using syncs(5,9) by simp_all
  ultimately show ?case using mirrors_sync [OF syncs(8,2) _ P syncs(6,7)] by simp
qed

lemma undisturbed_sync:
  assumes life: "client_life K (cq_user rq) (cq_path rq) (moment w) (sc_token req) copy" and P: "profile_ok (fk_profile K)"
    and alone: "t_others w = []" and asked: "sc_prop req = Some ns" "propGetETag \<in> set ns"
    and s: "serveSync K rq req w = (Inr (Multistatus rs tok'), w')"
  shows "\<exists>owner name c. splitOwned (cq_user rq) (fk_prefix K) (cq_path rq) 2 = Inr (owner, name, [])
    \<and> fst (coll_by_name owner name (t_rows w')) = Inr c
    \<and> fold apply_response rs copy = members_at (feed_base K owner name) (col_id c) (t_rows w')"
proof -
  obtain owner name where split: "splitOwned (cq_user rq) (fk_prefix K) (cq_path rq) 2 = Inr (owner, name, [])"
    using serveSync_split [OF s] by blast
  have m: "mirrors (feed_base K owner name) (t_rows w) (sc_token req) copy" "sync_ok (now (t_env w)) (t_rows w)"
    using client_life_mirrors [OF life P split] by simp_all
  have "runs.tame True w" using alone by (simp add: runs.tame_def)
  from mirrors_sync [OF s this m(2) P asked split m(1)] alone split show ?thesis
    by (auto simp: coll_by_name_def)
qed

text \<open>
  C9: A client that keeps to sync-collection reports ends up with exactly the calendar, under two
  conditions.  The clock of the server never goes back; and while an answer is put together, no
  other request prunes tombstones or deletes a collection.  Otherwise take any life of a client:
  between its reports other requests creating, writing and deleting calendars and objects and
  pruning tombstones; during them other requests writing and deleting objects; the client making
  of each answer what it says, and starting over when it likes.  After an answer that nothing came
  in between of, the addresses and entity tags it holds are those of the objects of the calendar
  at that path, none missing and none left over.
\<close>

theorem calendar_mirror:
  assumes "client_life (calendar_kind mime pre) (cq_user rq) (cq_path rq) (moment w) (sc_token req) copy"
    and "t_others w = []" and "sc_prop req = Some ns" "propGetETag \<in> set ns"
    and "calendar_serveSync mime pre rq req w = (Inr (Multistatus rs tok'), w')"
  shows "\<exists>owner name c. splitOwned (cq_user rq) pre (cq_path rq) 2 = Inr (owner, name, [])
    \<and> fst (CalendarByName owner name (t_rows w')) = Inr c
    \<and> fold apply_response rs copy = members_at (home pre owner @ name @ ''/'') (col_id c) (t_rows w')"
  using undisturbed_sync [OF assms(1) _ assms(2-4), of rs tok' w'] assms(5)
  by (simp add: calendar_serveSync_def calendar_driver feed_base_def calendar_kind_def profiles_ok)

text \<open>
  C10: The same of an address book and its contacts, under the same two conditions: a clock that
  never goes back, and no pruning and no deletion of an address book while an answer is put
  together.
\<close>

theorem address_book_mirror:
  assumes "client_life (contacts_kind mime pre) (cq_user rq) (cq_path rq) (moment w) (sc_token req) copy"
    and "t_others w = []" and "sc_prop req = Some ns" "propGetETag \<in> set ns"
    and "contacts_serveSync mime pre rq req w = (Inr (Multistatus rs tok'), w')"
  shows "\<exists>owner name c. splitOwned (cq_user rq) pre (cq_path rq) 2 = Inr (owner, name, [])
    \<and> fst (AddressBookByName owner name (t_rows w')) = Inr c
    \<and> fold apply_response rs copy = members_at (home pre owner @ name @ ''/'') (col_id c) (t_rows w')"
  using undisturbed_sync [OF assms(1) _ assms(2-4), of rs tok' w'] assms(5)
  by (simp add: contacts_serveSync_def contact_driver feed_base_def contacts_kind_def profiles_ok)

section \<open>Two clients at work\<close>

definition demo_object :: "bytes \<Rightarrow> bytes \<Rightarrow> cal_object" where
  "demo_object n tag = \<lparr>it_collection = 1, it_name = n, it_uid = n, it_data = ''BEGIN:VCALENDAR'', it_etag = tag,
     it_token = 0, it_changed = 0, it_component = ''VEVENT''\<rparr>"

definition demo_contact :: "bytes \<Rightarrow> bytes \<Rightarrow> contact" where
  "demo_contact n tag = \<lparr>it_collection = 1, it_name = n, it_uid = n, it_data = ''BEGIN:VCARD'', it_etag = tag,
     it_token = 0, it_changed = 0\<rparr>"

text \<open>A collection made, a member written, deleted, and another written.\<close>

definition demo_day :: "'c collection_scheme \<Rightarrow> (bytes \<Rightarrow> bytes \<Rightarrow> 'o item_scheme) \<Rightarrow> ('c, 'o) sync_db list" where
  "demo_day c row = (let d1 = snd (create_coll c empty_sync);
     d2 = snd (put_item (row ''a'' ''1'') d1);
     d3 = snd (delete_item 1 ''a'' 0 d2);
     d4 = snd (put_item (row ''b c'' ''2'') d3) in [d1, d2, d3, d4])"

definition demo_tables :: "'d \<Rightarrow> 'd tables" where
  "demo_tables d = \<lparr>t_rows = d, t_env = \<lparr>faults = [], now = 0, texts = (\<lambda>_. []), drawn = 0\<rparr>, t_others = []\<rparr>"

definition demo_request :: cal_request where
  "demo_request = \<lparr>cq_method = ''REPORT'', cq_path = ''/dav/ann/default/'', cq_user = Some ''ann'', cq_sync = None,
     cq_asked = None, cq_make = None, cq_patch = None\<rparr>"

definition demo_report :: "bytes \<Rightarrow> syncCollection" where
  "demo_report tok = \<lparr>sc_token = tok, sc_level = ''1'', sc_prop = Some [propGetETag]\<rparr>"

definition demo_sync :: "'c feed_kind \<Rightarrow> bytes \<Rightarrow> ('c, 'o) sync_db \<Rightarrow> (refusal + answer) \<times> ('c, 'o) sync_db tables" where
  "demo_sync K tok d = serveSync K demo_request (demo_report tok) (demo_tables d)"

lemma demo_life:
  assumes day: "demo_day c row = [d1, d2, d3, d4]"
    and made: "is_ok (fst (create_coll c (empty_sync :: ('c, 'o) sync_db)))" "is_ok (fst (put_item (row ''a'' ''1'') d1))"
      "is_ok (fst (delete_item 1 ''a'' 0 d2))" "is_ok (fst (put_item (row ''b c'' ''2'') d3))"
    and first: "fst (demo_sync K [] d2) = Inr (Multistatus rs tok)" "moment (snd (demo_sync K [] d2)) = (d2, 0)"
  shows "client_life K (Some ''ann'') ''/dav/ann/default/'' (moment (demo_tables d4 :: ('c, 'o) sync_db tables)) tok
    (fold apply_response rs Map.empty)"
proof -
  have step: "sync_step False (d, 0) (snd r, 0)" if "is_ok (fst r)" "\<And>x. r = (Inr x, snd r) \<Longrightarrow> sync_step False (d, 0) (snd r, 0)"
    for r :: "'x result \<times> ('c, 'o) sync_db" and d using that by (cases r; cases "fst r") auto
  have m: "moment (demo_tables d) = (d, 0)" for d :: "('c, 'o) sync_db" by (simp add: moment_def demo_tables_def)
  have d: "d1 = snd (create_coll c empty_sync)" "d2 = snd (put_item (row ''a'' ''1'') d1)"
    "d3 = snd (delete_item 1 ''a'' 0 d2)" "d4 = snd (put_item (row ''b c'' ''2'') d3)"
    using day by (auto simp: demo_day_def Let_def)
  let ?life = "client_life K (Some ''ann'') ''/dav/ann/default/''"
  have "?life (d1, 0) [] Map.empty" unfolding d(1)
    by (rule others [OF born [where T = 0]]) (rule step [OF made(1)], erule creates)
  then have "?life (d2, 0) [] Map.empty" unfolding d(2)
    by (rule others) (rule step [OF made(2)], erule puts)
  then have life: "?life (moment (demo_tables d2)) [] Map.empty" by (simp add: m)
  have s: "serveSync K demo_request (demo_report []) (demo_tables d2) = (Inr (Multistatus rs tok), snd (demo_sync K [] d2))"
    using first(1) by (simp add: demo_sync_def prod_eq_iff)
  have "?life (moment (snd (demo_sync K [] d2))) tok (fold apply_response rs Map.empty)"
    by (rule syncs [OF life _ _ _ _ _ _ s, of "[propGetETag]"])
      (simp_all add: demo_request_def demo_report_def runs.tame_def demo_tables_def)
  then have "?life (d2, 0) tok (fold apply_response rs Map.empty)" by (simp add: first(2))
  then have "?life (d3, 0) tok (fold apply_response rs Map.empty)" unfolding d(3)
    by (rule others) (rule step [OF made(3)], erule erases)
  then have "?life (d4, 0) tok (fold apply_response rs Map.empty)" unfolding d(4)
    by (rule others) (rule step [OF made(4)], erule puts)
  then show ?thesis by (simp add: m)
qed

definition demo_answer :: "'c feed_kind \<Rightarrow> bytes \<Rightarrow> ('c, 'o) sync_db \<Rightarrow> sync_response list \<times> bytes" where
  "demo_answer K tok d = (case fst (demo_sync K tok d) of Inr (Multistatus rs t) \<Rightarrow> (rs, t) | _ \<Rightarrow> ([], []))"

definition demo_calendars :: "calendar_db list" where
  "demo_calendars = demo_day (pf_make calendar_profile ''ann'' 0) demo_object"

definition demo_book :: address_book where
  "demo_book = (pf_make contacts_profile ''ann'' 0)\<lparr>col_name := ''default''\<rparr>"

definition demo_books :: "contact_db list" where
  "demo_books = demo_day demo_book demo_contact"

definition demo_copy :: "'c feed_kind \<Rightarrow> ('c, 'o) sync_db list \<Rightarrow> bytes \<rightharpoonup> bytes" where
  "demo_copy K ds = fold apply_response (fst (demo_answer K [] (ds ! 1))) Map.empty"

abbreviation "demo_kind \<equiv> calendar_kind ''text/calendar'' ''/dav/''"
abbreviation "demo_book_kind \<equiv> contacts_kind ''text/vcard'' ''/dav/''"

lemma demo_calendar_life:
  "client_life demo_kind (Some ''ann'') ''/dav/ann/default/'' (moment (demo_tables (demo_calendars ! 3)))
     ''urn:stratus:sync:1:1'' (demo_copy demo_kind demo_calendars)"
  unfolding demo_copy_def
proof (rule demo_life [where c = "pf_make calendar_profile ''ann'' 0" and row = demo_object
      and ?d1.0 = "demo_calendars ! 0" and ?d2.0 = "demo_calendars ! 1" and ?d3.0 = "demo_calendars ! 2"])
  show "demo_day (pf_make calendar_profile ''ann'' 0) demo_object
      = [demo_calendars ! 0, demo_calendars ! 1, demo_calendars ! 2, demo_calendars ! 3]"
    by (simp add: demo_calendars_def demo_day_def Let_def)
  show "is_ok (fst (create_coll (pf_make calendar_profile ''ann'' 0) (empty_sync :: calendar_db)))"
    "is_ok (fst (put_item (demo_object ''a'' ''1'') (demo_calendars ! 0)))"
    "is_ok (fst (delete_item 1 ''a'' 0 (demo_calendars ! 1)))"
    "is_ok (fst (put_item (demo_object ''b c'' ''2'') (demo_calendars ! 2)))"
    "fst (demo_sync demo_kind [] (demo_calendars ! 1))
      = Inr (Multistatus (fst (demo_answer demo_kind [] (demo_calendars ! 1))) ''urn:stratus:sync:1:1'')"
    "moment (snd (demo_sync demo_kind [] (demo_calendars ! 1))) = (demo_calendars ! 1, 0)"
    by code_simp+
qed

theorem calendar_mirror_witness:
  "fold apply_response (fst (demo_answer demo_kind ''urn:stratus:sync:1:1'' (demo_calendars ! 3)))
       (demo_copy demo_kind demo_calendars) ''/dav/ann/default/b%20c'' = Some ''&#34;2&#34;''
   \<and> demo_copy demo_kind demo_calendars ''/dav/ann/default/b%20c'' = None"
proof -
  let ?w = "demo_tables (demo_calendars ! 3)" and ?req = "demo_report ''urn:stratus:sync:1:1''"
  let ?s = "calendar_serveSync ''text/calendar'' ''/dav/'' demo_request ?req ?w"
  let ?rs = "fst (demo_answer demo_kind ''urn:stratus:sync:1:1'' (demo_calendars ! 3))"
  have "fst ?s = Inr (Multistatus ?rs ''urn:stratus:sync:1:3'')" by code_simp
  then have s: "?s = (Inr (Multistatus ?rs ''urn:stratus:sync:1:3''), snd ?s)" by (simp add: prod_eq_iff)
  obtain owner name c where c: "splitOwned (Some ''ann'') ''/dav/'' ''/dav/ann/default/'' 2 = Inr (owner, name, [])"
    "fst (CalendarByName owner name (t_rows (snd ?s))) = Inr c"
    "fold apply_response ?rs (demo_copy demo_kind demo_calendars)
      = members_at (home ''/dav/'' owner @ name @ ''/'') (col_id c) (t_rows (snd ?s))"
    using calendar_mirror [OF _ _ _ _ s, of "demo_copy demo_kind demo_calendars" "[propGetETag]"] demo_calendar_life
    by (auto simp: demo_tables_def demo_request_def demo_report_def)
  have "splitOwned (Some ''ann'') ''/dav/'' ''/dav/ann/default/'' 2 = Inr (''ann'', ''default'', [])" by code_simp
  with c(1) have on: "owner = ''ann''" "name = ''default''" by simp_all
  have "map_option col_id (case fst (CalendarByName ''ann'' ''default'' (t_rows (snd ?s))) of Inr c \<Rightarrow> Some c | Inl _ \<Rightarrow> None) = Some 1"
    by code_simp
  with c(2) on have id: "col_id c = 1" by simp
  have "members_at (home ''/dav/'' ''ann'' @ ''default/'') 1 (t_rows (snd ?s)) ''/dav/ann/default/b%20c'' = Some ''&#34;2&#34;''"
    by code_simp
  moreover have "demo_copy demo_kind demo_calendars ''/dav/ann/default/b%20c'' = None" by code_simp
  ultimately show ?thesis using c(3) by (simp add: on id)
qed

lemma demo_book_life:
  "client_life demo_book_kind (Some ''ann'') ''/dav/ann/default/'' (moment (demo_tables (demo_books ! 3)))
     ''urn:stratus:sync:1:1'' (demo_copy demo_book_kind demo_books)"
  unfolding demo_copy_def
proof (rule demo_life [where c = demo_book and row = demo_contact
      and ?d1.0 = "demo_books ! 0" and ?d2.0 = "demo_books ! 1" and ?d3.0 = "demo_books ! 2"])
  show "demo_day demo_book demo_contact
      = [demo_books ! 0, demo_books ! 1, demo_books ! 2, demo_books ! 3]"
    by (simp add: demo_books_def demo_day_def Let_def)
  show "is_ok (fst (create_coll demo_book (empty_sync :: contact_db)))"
    "is_ok (fst (put_item (demo_contact ''a'' ''1'') (demo_books ! 0)))"
    "is_ok (fst (delete_item 1 ''a'' 0 (demo_books ! 1)))"
    "is_ok (fst (put_item (demo_contact ''b c'' ''2'') (demo_books ! 2)))"
    "fst (demo_sync demo_book_kind [] (demo_books ! 1))
      = Inr (Multistatus (fst (demo_answer demo_book_kind [] (demo_books ! 1))) ''urn:stratus:sync:1:1'')"
    "moment (snd (demo_sync demo_book_kind [] (demo_books ! 1))) = (demo_books ! 1, 0)"
    by code_simp+
qed

theorem address_book_mirror_witness:
  "fold apply_response (fst (demo_answer demo_book_kind ''urn:stratus:sync:1:1'' (demo_books ! 3)))
       (demo_copy demo_book_kind demo_books) ''/dav/ann/default/a'' = None
   \<and> demo_copy demo_book_kind demo_books ''/dav/ann/default/a'' = Some ''&#34;1&#34;''"
proof -
  let ?w = "demo_tables (demo_books ! 3)" and ?req = "demo_report ''urn:stratus:sync:1:1''"
  let ?s = "contacts_serveSync ''text/vcard'' ''/dav/'' demo_request ?req ?w"
  let ?rs = "fst (demo_answer demo_book_kind ''urn:stratus:sync:1:1'' (demo_books ! 3))"
  have "fst ?s = Inr (Multistatus ?rs ''urn:stratus:sync:1:3'')" by code_simp
  then have s: "?s = (Inr (Multistatus ?rs ''urn:stratus:sync:1:3''), snd ?s)" by (simp add: prod_eq_iff)
  obtain owner name c where c: "splitOwned (Some ''ann'') ''/dav/'' ''/dav/ann/default/'' 2 = Inr (owner, name, [])"
    "fst (AddressBookByName owner name (t_rows (snd ?s))) = Inr c"
    "fold apply_response ?rs (demo_copy demo_book_kind demo_books)
      = members_at (home ''/dav/'' owner @ name @ ''/'') (col_id c) (t_rows (snd ?s))"
    using address_book_mirror [OF _ _ _ _ s, of "demo_copy demo_book_kind demo_books" "[propGetETag]"] demo_book_life
    by (auto simp: demo_tables_def demo_request_def demo_report_def)
  have "splitOwned (Some ''ann'') ''/dav/'' ''/dav/ann/default/'' 2 = Inr (''ann'', ''default'', [])" by code_simp
  with c(1) have on: "owner = ''ann''" "name = ''default''" by simp_all
  have "map_option col_id (case fst (AddressBookByName ''ann'' ''default'' (t_rows (snd ?s))) of Inr c \<Rightarrow> Some c | Inl _ \<Rightarrow> None) = Some 1"
    by code_simp
  with c(2) on have id: "col_id c = 1" by simp
  have "members_at (home ''/dav/'' ''ann'' @ ''default/'') 1 (t_rows (snd ?s)) ''/dav/ann/default/a'' = None"
    by code_simp
  moreover have "demo_copy demo_book_kind demo_books ''/dav/ann/default/a'' = Some ''&#34;1&#34;''" by code_simp
  ultimately show ?thesis using c(3) by (simp add: on id)
qed

section \<open>Tokens of this server\<close>

text \<open>
  C26: A token of this server is read back as what it was made of, and only for the collection it
  was made for: not by a collection made later under the same name, whatever its numbers, and not
  when the number in it is not one.
\<close>

theorem sync_token_back:
  assumes "is_int64 t" "0 \<le> t"
  shows "parseSyncToken (syncToken i t) j = (if i = j then Some t else None)"
proof -
  have "cut_prefix (syncToken i t) syncTokenPrefix = Some (itoa i @ '':'' @ itoa t)"
    by (simp add: syncToken_def cut_prefix_append)
  moreover have "syncToken i t \<noteq> []" by (simp add: syncToken_def syncTokenPrefix_def)
  moreover have "cut (CHR '':'') (itoa i @ '':'' @ itoa t) = Some (itoa i, itoa t)"
    using cut_append [OF itoa_no_colon] by simp
  ultimately show ?thesis
    using assms itoa_inject [of i j] by (auto simp: parseSyncToken_def parse_itoa)
qed

theorem sync_token_back_witness:
  "parseSyncToken (syncToken 12 30) 12 = Some 30 \<and> parseSyncToken (syncToken 1 230) 12 = None"
  using sync_token_back [of 30 12 12] sync_token_back [of 230 1 12] by (simp add: is_int64_def)

end
