(* ===== verification/SyncCalls.thy ===== *)
theory SyncCalls
  imports Mirror
begin

text \<open>
  The calls of the calendar and contacts services as a whole: what any sequence of them makes of
  the tables, and what a conditional write found when it wrote.
\<close>

section \<open>Sequences of calls\<close>

inductive calendar_call :: "('c, 'k) ical \<Rightarrow> calendar_db tables \<Rightarrow> calendar_db tables \<Rightarrow> bool" for ic where
  makes: "cal_Create owner c w = (r1, w') \<Longrightarrow> calendar_call ic w w'"
| finds: "get_coll calendar_profile owner name w = (r2, w') \<Longrightarrow> calendar_call ic w w'"
| lists: "list_colls calendar_profile owner w = (r3, w') \<Longrightarrow> calendar_call ic w w'"
| patches: "cal_Update owner name p w = (r4, w') \<Longrightarrow> calendar_call ic w w'"
| drops: "drop_coll calendar_profile owner name w = (r5, w') \<Longrightarrow> calendar_call ic w w'"
| lists_members: "list_items calendar_profile owner name w = (r6, w') \<Longrightarrow> calendar_call ic w w'"
| reads: "get_item calendar_profile owner coll name w = (r7, w') \<Longrightarrow> calendar_call ic w w'"
| writes: "cal_Put ic owner coll name cal precond w = (r8, w') \<Longrightarrow> calendar_call ic w w'"
| removes: "erase_item calendar_profile owner coll name w = (r9, w') \<Longrightarrow> calendar_call ic w w'"
| reports: "changes_of calendar_profile owner name since w = (r10, w') \<Longrightarrow> calendar_call ic w w'"
| forgets: "prune w = (r11, w') \<Longrightarrow> calendar_call ic w w'"

inductive contact_call :: "(vcard \<Rightarrow> bytes \<Rightarrow> vfield option) \<Rightarrow> contact_db tables \<Rightarrow> contact_db tables \<Rightarrow> bool" for get where
  makes_book: "book_Create owner b w = (r1, w') \<Longrightarrow> contact_call get w w'"
| finds_book: "get_coll contacts_profile owner name w = (r2, w') \<Longrightarrow> contact_call get w w'"
| lists_books: "list_colls contacts_profile owner w = (r3, w') \<Longrightarrow> contact_call get w w'"
| patches_book: "book_Update owner name p w = (r4, w') \<Longrightarrow> contact_call get w w'"
| drops_book: "drop_coll contacts_profile owner name w = (r5, w') \<Longrightarrow> contact_call get w w'"
| lists_contacts: "list_items contacts_profile owner name w = (r6, w') \<Longrightarrow> contact_call get w w'"
| reads_contact: "get_item contacts_profile owner coll name w = (r7, w') \<Longrightarrow> contact_call get w w'"
| writes_contact: "book_Put get owner coll name c precond w = (r8, w') \<Longrightarrow> contact_call get w w'"
| removes_contact: "erase_item contacts_profile owner coll name w = (r9, w') \<Longrightarrow> contact_call get w w'"
| reports_contacts: "changes_of contacts_profile owner name since w = (r10, w') \<Longrightarrow> contact_call get w w'"
| forgets_contacts: "prune w = (r11, w') \<Longrightarrow> contact_call get w w'"

lemmas follows_calls = runs.followsD [OF follows_create_cal] runs.followsD [OF follows_get_coll]
  runs.followsD [OF follows_list_colls] runs.followsD [OF follows_cal_Update] runs.followsD [OF follows_drop_coll]
  runs.followsD [OF follows_list_items] runs.followsD [OF follows_get_item] runs.followsD [OF follows_cal_Put]
  runs.followsD [OF follows_erase_item] runs.followsD [OF follows_changes_of] runs.followsD [OF follows_prune]
  runs.followsD [OF follows_book_Create] runs.followsD [OF follows_book_Update] runs.followsD [OF follows_book_Put]

lemma calendar_call_runs: "calendar_call ic w w' \<Longrightarrow> runs.tame False w \<Longrightarrow> sync_runs False (moment w) (moment w') \<and> runs.tame False w'"
  by (induction rule: calendar_call.induct) (erule (1) follows_calls [rotated])+

lemma contact_call_runs: "contact_call get w w' \<Longrightarrow> runs.tame False w \<Longrightarrow> sync_runs False (moment w) (moment w') \<and> runs.tame False w'"
  by (induction rule: contact_call.induct) (erule (1) follows_calls [rotated])+

lemma calls_run:
  assumes "\<And>w w'. call w w' \<Longrightarrow> runs.tame False w \<Longrightarrow> sync_runs False (moment w) (moment w') \<and> runs.tame False w'"
    and "call\<^sup>*\<^sup>* w w'" "runs.tame False w"
  shows "sync_runs False (moment w) (moment w')"
proof -
  from assms(2) have "sync_runs False (moment w) (moment w') \<and> runs.tame False w'"
  proof (induction rule: rtranclp_induct)
    case (step y z)
    then show ?case using assms(1) [OF step(2)] runs.R_trans by blast
  qed (simp add: assms(3))
  then show ?thesis ..
qed

lemma well_formed_from_empty:
  assumes "sync_runs False (moment u) (moment u')" "t_rows u = empty_sync"
  shows "sync_ok (now (t_env u')) (t_rows u')"
  using runs_ok [OF assms(1) [unfolded moment_def]] assms(2) empty_sync_ok by metis

text \<open>
  C11: From empty tables, and with a clock that never goes back, the tables of calendars are well
  formed after any calls of the service, in any order and with any arguments, whichever statements
  fail and whatever other requests commit in between: calendars, objects and deletions have
  distinct keys and belong to a calendar, no two objects of a calendar share a UID, a name is not
  both an object and deleted, and every token is positive, at most its calendar's counter and, on
  a deletion, above what the calendar has forgotten.
\<close>

theorem calendars_well_formed:
  assumes "(calendar_call ic)\<^sup>*\<^sup>* w w'" and "t_rows w = empty_sync" and "runs.tame False w"
  shows "sync_ok (now (t_env w')) (t_rows w')"
  by (rule well_formed_from_empty [OF calls_run [OF calendar_call_runs assms(1,3)] assms(2)])

lemma contacts_well_formed:
  assumes "(contact_call get)\<^sup>*\<^sup>* w w'" and "t_rows w = empty_sync" and "runs.tame False w"
  shows "sync_ok (now (t_env w')) (t_rows w')"
  by (rule well_formed_from_empty [OF calls_run [OF contact_call_runs assms(1,3)] assms(2)])

theorem calendars_well_formed_witness:
  "let w' = snd (get_coll calendar_profile ''ann'' ''default'' (demo_tables (empty_sync :: calendar_db)))
   in sync_ok 0 (t_rows w') \<and> map col_name (colls (t_rows w')) = [''default'']"
proof -
  let ?w = "demo_tables (empty_sync :: calendar_db)"
  let ?w' = "snd (get_coll calendar_profile ''ann'' ''default'' ?w)"
  have "get_coll calendar_profile ''ann'' ''default'' ?w = (fst (get_coll calendar_profile ''ann'' ''default'' ?w), ?w')" by simp
  then have "calendar_call undefined ?w ?w'" by (rule finds)
  then have "(calendar_call undefined)\<^sup>*\<^sup>* ?w ?w'" ..
  then have "sync_ok (now (t_env ?w')) (t_rows ?w')"
    by (rule calendars_well_formed) (simp_all add: demo_tables_def runs.tame_def)
  moreover have "now (t_env ?w') = 0" "map col_name (colls (t_rows ?w')) = [''default'']" by code_simp+
  ultimately show ?thesis by (simp add: Let_def)
qed

section \<open>A conditional write\<close>

lemma in_tx_ok:
  assumes "in_tx f w = (Inr y, w')"
  obtains u v where "f u = (Inr y, v)" "t_rows u = t_rows (meanwhile w)" "now (t_env u) = now (t_env (meanwhile w))"
    "t_rows w' = t_rows v"
proof -
  from assms obtain u v z where u: "t_check (meanwhile w) = (Inr (), u)" and f: "f u = (Inr y, v)"
    and z: "t_check v = (Inr (), z)" "t_rows w' = t_rows z"
    by (auto simp: in_tx_def Let_def rolled_back_def elim!: bindE_okE split: prod.splits sum.splits)
  show ?thesis using that [OF f] t_check_rows [OF u] t_check_rows [OF z(1)] z(2) by simp
qed

text \<open>What a write found is what was there when it wrote: the check and the write are one transaction.\<close>

lemma write_item_ok:
  assumes "write_item admits precond owner coll name row w = (Inr o', w')"
  shows "\<exists>c. find (named owner coll) (colls (t_rows (meanwhile w))) = Some c \<and> admits c = Inr ()
    \<and> precond (case find (at_item (col_id c) name) (items (t_rows (meanwhile w))) of None \<Rightarrow> [] | Some x \<Rightarrow> it_etag x)
        (find (at_item (col_id c) name) (items (t_rows (meanwhile w))) \<noteq> None) = None
    \<and> put_item (row (col_id c) (now (t_env (meanwhile w)))) (t_rows (meanwhile w)) = (Inr o', t_rows w')"
proof -
  from assms [unfolded write_item_def] obtain u v where
    f: "bindE (stmt (coll_by_name owner coll)) (\<lambda>c. bindE (liftE (admits c)) (\<lambda>_.
          tryE (stmt (item_by_name (col_id c) name)) (\<lambda>r.
          if \<not> is_ok r \<and> r \<noteq> Inl ErrNotFound then failE (projl r)
          else case precond (case r of Inr o' \<Rightarrow> it_etag o' | Inl _ \<Rightarrow> []) (is_ok r) of
             Some status \<Rightarrow> failE (ErrStatus status)
           | None \<Rightarrow> bindE t_clock (\<lambda>t. stmt (put_item (row (col_id c) t)))))) u = (Inr o', v)"
    and u: "t_rows u = t_rows (meanwhile w)" "now (t_env u) = now (t_env (meanwhile w))" "t_rows w' = t_rows v"
    by (rule in_tx_ok)
  from f obtain c u1 where c: "stmt (coll_by_name owner coll) u = (Inr c, u1)" and ad: "admits c = Inr ()"
    and rest: "tryE (stmt (item_by_name (col_id c) name)) (\<lambda>r.
          if \<not> is_ok r \<and> r \<noteq> Inl ErrNotFound then failE (projl r)
          else case precond (case r of Inr o' \<Rightarrow> it_etag o' | Inl _ \<Rightarrow> []) (is_ok r) of
             Some status \<Rightarrow> failE (ErrStatus status)
           | None \<Rightarrow> bindE t_clock (\<lambda>t. stmt (put_item (row (col_id c) t)))) u1 = (Inr o', v)"
    by (auto elim!: bindE_okE)
  obtain r u2 where r: "stmt (item_by_name (col_id c) name) u1 = (r, u2)" by (cases "stmt (item_by_name (col_id c) name) u1")
  have u1: "moment u1 = moment u" by (rule stmt_read [OF c]) (rule reads_same)
  have "t_rows u2 = t_rows u1" using r by (rule stmt_cases) (auto dest: reads_same)
  then have u2: "moment u2 = moment u" using u1 innerD [OF inner_stmt r] by (simp add: moment_def)
  have found: "find (named owner coll) (colls (t_rows u)) = Some c"
    using stmt_ok [OF c] by (auto simp: coll_by_name_def split: option.splits)
  have put: "stmt (put_item (row (col_id c) (now (t_env u2)))) u2 = (Inr o', v)"
    and pre: "r = Inl ErrNotFound \<or> is_ok r" "precond (case r of Inr o' \<Rightarrow> it_etag o' | Inl _ \<Rightarrow> []) (is_ok r) = None"
    using rest r by (auto simp: t_clock_def split: if_splits option.splits elim!: bindE_okE)
  have "item_by_name (col_id c) name (t_rows u1) = (r, t_rows u2) \<or> r = Inl ErrOther" using r by (rule stmt_cases) auto
  then have "item_by_name (col_id c) name (t_rows u) = (r, t_rows u)" using pre(1) u1 u2 by (auto simp: moment_def)
  then have "precond (case find (at_item (col_id c) name) (items (t_rows u)) of None \<Rightarrow> [] | Some x \<Rightarrow> it_etag x)
      (find (at_item (col_id c) name) (items (t_rows u)) \<noteq> None) = None"
    using pre(2) by (auto simp: item_by_name_def split: option.splits)
  moreover have "put_item (row (col_id c) (now (t_env u))) (t_rows u) = (Inr o', t_rows v)"
    using stmt_ok [OF put] u2 by (simp add: moment_def)
  ultimately show ?thesis using found ad u by auto
qed

text \<open>
  C12: A conditional write of a calendar object that succeeds found what it asked for in the very
  tables it wrote to: under \<open>If-Match\<close> the object, with a tag that matches, under
  \<open>If-None-Match\<close> none that does.  So of two clients that edit the object from the same tag the
  second is refused, whatever comes in between.  What is stored is the encoding of what was
  sent, tagged with its digest.
\<close>

theorem calendar_put_conditional:
  assumes put: "cal_Put ic owner calendar name cal (checkConditions m n) w = (Inr o', w')" and tame: "runs.tame False w"
  shows "\<exists>d T c o0. sync_runs False (moment w) (d, T) \<and> fst (CalendarByName owner calendar d) = Inr c
    \<and> (cm_set m \<longrightarrow> (\<exists>x. fst (CalendarObject (col_id c) name d) = Inr x \<and> (cm_wildcard m \<or> cm_match m (it_etag x) = Some True)))
    \<and> (cm_set n \<longrightarrow> (\<forall>x. fst (CalendarObject (col_id c) name d) = Inr x \<longrightarrow> \<not> cm_wildcard n \<and> cm_match n (it_etag x) = Some False))
    \<and> Some (it_data o0) = ic_encode ic (the cal) \<and> it_etag o0 = hex_encode (sha256 (it_data o0))
    \<and> it_collection o0 = col_id c \<and> it_name o0 = name
    \<and> PutCalendarObject o0 d = (Inr o', t_rows w')"
proof -
  from put [unfolded cal_Put_def] obtain component uid data w1 u
    where data: "ic_encode ic (the cal) = Some data"
      and e: "ensure calendar_profile owner calendar w = (Inr u, w1)"
      and wr: "write_item (\<lambda>c. if Holds c component then Inr () else Inl ErrUnsupported) (checkConditions m n) owner calendar name
       (\<lambda>i t. \<lparr>it_collection = i, it_name = name, it_uid = uid, it_data = data,
               it_etag = hex_encode (sha256 data), it_token = 0, it_changed = t, it_component = component\<rparr>) w1 = (Inr o', w')"
    by (auto elim!: bindE_okE split: option.splits)
  let ?d = "t_rows (meanwhile w1)" and ?T = "now (t_env (meanwhile w1))"
  obtain c where c: "find (named owner calendar) (colls ?d) = Some c"
    and pre: "checkConditions m n (case find (at_item (col_id c) name) (items ?d) of None \<Rightarrow> [] | Some x \<Rightarrow> it_etag x)
        (find (at_item (col_id c) name) (items ?d) \<noteq> None) = None"
    and p: "put_item \<lparr>it_collection = col_id c, it_name = name, it_uid = uid, it_data = data,
        it_etag = hex_encode (sha256 data), it_token = 0, it_changed = ?T, it_component = component\<rparr> ?d = (Inr o', t_rows w')"
    using write_item_ok [OF wr] by blast
  have "sync_runs False (moment w) (moment w1) \<and> runs.tame False w1" by (rule runs.followsD [OF follows_ensure tame e])
  then have r: "sync_runs False (moment w) (?d, ?T)" using runs.tame_meanwhile runs.R_trans moment_def by metis
  have m: "\<exists>x. fst (CalendarObject (col_id c) name ?d) = Inr x \<and> (cm_wildcard m \<or> cm_match m (it_etag x) = Some True)" if "cm_set m"
    using checkConditions_pass(1) [OF pre that] by (auto simp: calendar_driver item_by_name_def)
  have n: "\<not> cm_wildcard n \<and> cm_match n (it_etag x) = Some False" if "cm_set n" "fst (CalendarObject (col_id c) name ?d) = Inr x" for x
    using checkConditions_pass(2) [OF pre that(1)] that(2)
    by (auto simp: calendar_driver item_by_name_def split: option.splits)
  show ?thesis
    by (rule exI [of _ ?d], rule exI [of _ ?T], rule exI [of _ c], rule exI, intro conjI, rule r)
      (use c m n data p in \<open>simp_all add: calendar_driver coll_by_name_def\<close>)
qed

text \<open>A library in which every calendar is one event, encoded as it is.\<close>

definition demo_ical :: "(bytes, unit) ical" where
  "demo_ical = \<lparr>ic_method = (\<lambda>_. False), ic_children = (\<lambda>_. [()]), ic_name = (\<lambda>_. ''VEVENT''), ic_uid = (\<lambda>_. Some ''uid''),
     ic_date = (\<lambda>_ _. True), ic_duration = (\<lambda>_. None), ic_recurrence = (\<lambda>_. True), ic_recurrence_id = (\<lambda>_. None),
     ic_encode = Some\<rparr>"

definition first_only :: ConditionalMatch where
  "first_only = \<lparr>cm_set = True, cm_wildcard = True, cm_match = (\<lambda>_. None)\<rparr>"

definition demo_put :: "cal_object result \<times> calendar_db tables" where
  "demo_put = cal_Put demo_ical ''ann'' ''default'' ''a'' (Some ''BEGIN:VCALENDAR'') (checkConditions unset first_only)
     (demo_tables (demo_calendars ! 0))"

lemma demo_put_steps:
  "validName ''a'' = Inr ()" "validate_cal demo_ical (Some x) = Inr (''VEVENT'', ''uid'')"
  "demo_calendars ! 0 = \<lparr>colls = [\<lparr>col_id = 1, col_owner = ''ann'', col_name = ''default'', col_display = ''Calendar'',
     col_description = [], col_token = 0, col_pruned = 0, col_created = 0, col_color = [], col_components = everything\<rparr>],
     items = [], tombs = [], next_coll = 2\<rparr>"
  "''VEVENT'' \<in> set (split_on (CHR 0x2C) everything)" "ic_encode demo_ical = Some"
  by (code_simp, code_simp, code_simp, code_simp, simp add: demo_ical_def)

lemma calm_check: "faults (t_env w) = [] \<Longrightarrow> t_check w = (Inr (), w)"
  by (cases w) (simp add: t_check_def draw_fault_def)

lemma calm_stmt: "faults (t_env w) = [] \<Longrightarrow> stmt q w = (fst (q (t_rows w)), w\<lparr>t_rows := snd (q (t_rows w))\<rparr>)"
  by (simp add: stmt_def bindE_def calm_check run_stmt_def split: prod.splits)

theorem calendar_put_conditional_witness:
  "\<exists>d c. fst (CalendarByName ''ann'' ''default'' d) = Inr c
     \<and> (\<forall>x. fst (CalendarObject (col_id c) ''a'' d) = Inr x \<longrightarrow> False)"
proof -
  obtain o' w' where put: "demo_put = (Inr o', w')"
    using demo_put_steps(4)
    by (simp add: demo_put_def cal_Put_def demo_put_steps ensure_def get_coll_def write_item_def Holds_def
        bindE_def tryE_def ask_def meanwhile_def calm_stmt calm_check demo_tables_def in_tx_def rolled_back_def t_clock_def
        coll_by_name_def item_by_name_def put_item_def next_token_def named_def calendar_profile_def
        checkConditions_def unset_def first_only_def Let_def retE_def liftE_def)
  have "runs.tame False (demo_tables (demo_calendars ! 0))" by (simp add: runs.tame_def demo_tables_def)
  from calendar_put_conditional [OF put [unfolded demo_put_def] this] show ?thesis
    by (auto simp: first_only_def)
qed

section \<open>Where a client misses a deletion\<close>

text \<open>
  Both things a history of quiet answers and of a clock that never goes back excludes do happen.
  First, the clock: \<open>a\<close> is deleted at six seconds and \<open>b\<close>, later, at two.
\<close>

definition seconds :: "int \<Rightarrow> int" where
  "seconds n = n * 1000000000"

definition set_back :: "calendar_db list" where
  "set_back = (let d1 = snd (CreateCalendar (pf_make calendar_profile ''ann'' 0) empty_sync);
     d2 = snd (PutCalendarObject (demo_object ''b'' ''2'') (snd (PutCalendarObject (demo_object ''a'' ''1'') d1)));
     d3 = snd (DeleteCalendarObject 1 ''b'' (seconds 2) (snd (DeleteCalendarObject 1 ''a'' (seconds 6) d2)));
     d4 = snd (PruneCalendarTombstones (seconds 3) d3);
     d5 = snd (PruneCalendarTombstones (seconds 7) d4) in [d2, d3, d4, d5])"

definition fed :: "int \<Rightarrow> calendar_db tables \<Rightarrow> change list result \<times> int" where
  "fed since w = (case changes_of calendar_profile ''ann'' ''default'' since w of
     (Inl e, _) \<Rightarrow> (Inl e, 0) | (Inr (chs, c), _) \<Rightarrow> (Inr chs, col_token c))"

text \<open>
  Pruning can lower the mark of what has been forgotten.  It sets the mark to the highest
  token among the deletions it forgets, whatever the mark was; when deletions are not dated in
  the order of their tokens a later pruning puts it back, and a client whose token is below a
  forgotten deletion is told that there is nothing new instead of to start over.
\<close>

theorem prune_lowers:
  "map (\<lambda>d. map col_pruned (colls d)) set_back = [[0], [0], [4], [3]]
   \<and> map (\<lambda>d. fst (fed 3 (demo_tables d))) (drop 2 set_back) = [Inl ErrStaleToken, Inr []]"
  by code_simp

definition pruned_between :: "calendar_db tables" where
  "pruned_between = (demo_tables (snd (DeleteCalendarObject 1 ''a'' (seconds 2) (set_back ! 0))))
     \<lparr>t_others := [id, \<lambda>(d, t). (snd (PruneCalendarTombstones (seconds 7) d), t)]\<rparr>"

text \<open>
  A pruning between the two reads of \<open>Changes\<close> is a lost deletion: the token passes the
  check against the calendar that was read first, the deletion is gone when the changes are read,
  and the client is answered with nothing and the newest token.
\<close>

theorem prune_between_reads:
  "fed 2 (pruned_between\<lparr>t_others := []\<rparr>) = (Inr [\<lparr>ch_name = ''a'', ch_token = 3, ch_deleted = True\<rparr>], 3)
   \<and> fed 2 pruned_between = (Inr [], 3)"
  by code_simp

end
