(* ===== verification/MediaBytes.thy ===== *)
theory MediaBytes
  imports Sha256 GoPath "HOL-Library.Monad_Syntax"
begin

text \<open>
  Reading bytes that came from a file.  A read or a slice out of range is a run-time panic in Go,
  \<open>None\<close> here, so that a function that never answers \<open>None\<close> is one whose guards are enough.
  The second half is a codec's configuration record, \<^verbatim>\<open>internal/media/codecconf.go\<close>.
\<close>

section \<open>Bytes, integers and slices\<close>

type_synonym 'a go = "'a option"

definition ix :: "bytes \<Rightarrow> nat \<Rightarrow> nat go" where
  "ix b i = (if i < length b then Some (byte (b ! i)) else None)"

text \<open>\<open>binary.BigEndian\<close> on \<open>n\<close> bytes at \<open>i\<close>, and a slice, whose bounds are computed as \<open>int64\<close>.\<close>

definition be_at :: "bytes \<Rightarrow> nat \<Rightarrow> nat \<Rightarrow> nat go" where
  "be_at b i n = (if i + n \<le> length b then Some (be_nat (take n (drop i b))) else None)"

definition slice :: "bytes \<Rightarrow> int \<Rightarrow> int \<Rightarrow> bytes go" where
  "slice b i j = (if 0 \<le> i \<and> i \<le> j \<and> j \<le> int (length b) then Some (take (nat (j - i)) (drop (nat i) b)) else None)"

definition slice_from :: "bytes \<Rightarrow> nat \<Rightarrow> bytes go" where
  "slice_from b i = (if i \<le> length b then Some (drop i b) else None)"

text \<open>An unsigned number read as \<open>int64\<close> and as \<open>int32\<close>, and division, which drops the fraction.\<close>

definition to_int64 :: "nat \<Rightarrow> int" where
  "to_int64 n = wrap64 (int n)"

definition to_int32 :: "nat \<Rightarrow> int" where
  "to_int32 n = (int n + 2 ^ 31) mod 2 ^ 32 - 2 ^ 31"

definition go_quot :: "int \<Rightarrow> int \<Rightarrow> int go" where
  "go_quot a b = (if b = 0 then None else Some (wrap64 (sgn a * sgn b * (\<bar>a\<bar> div \<bar>b\<bar>))))"

lemma ix_Some [simp]: "i < length b \<Longrightarrow> ix b i = Some (byte (b ! i))"
  by (simp add: ix_def)

lemma be_at_Some [simp]: "i + n \<le> length b \<Longrightarrow> be_at b i n = Some (be_nat (take n (drop i b)))"
  by (simp add: be_at_def)

lemma slice_from_Some [simp]: "i \<le> length b \<Longrightarrow> slice_from b i = Some (drop i b)"
  by (simp add: slice_from_def)

lemma be_nat_bound: "be_nat b < 256 ^ length b"
proof (induction b rule: rev_induct)
  case (snoc c b)
  have c: "byte c < 256" by (simp add: byte_def)
  have "be_nat b * 256 + byte c < 256 * 256 ^ length b" using snoc c by linarith
  then show ?case by (simp add: be_nat_snoc)
qed (simp add: be_nat_def)

lemma be_at_bound:
  assumes "be_at b i n = Some v"
  shows "v < 256 ^ n"
proof -
  have "i + n \<le> length b" "v = be_nat (take n (drop i b))" using assms by (auto simp: be_at_def split: if_splits)
  then show ?thesis using be_nat_bound [of "take n (drop i b)"] by simp
qed

section \<open>A row of the media table\<close>

text \<open>The fields the readers of a container fill in; an unknown one is zero or empty.\<close>

record media =
  me_kind :: bytes
  me_taken :: "int option"
  me_width :: int
  me_height :: int
  me_orientation :: nat
  me_duration :: int
  me_codec :: bytes
  me_bitrate :: int
  me_sample_rate :: int
  me_channels :: int
  me_depth :: nat
  me_profile :: bytes
  me_level :: nat
  me_frame_rate :: int
  me_audio_codec :: bytes
  me_primaries :: bytes
  me_transfer :: bytes
  me_space :: bytes
  me_dovi :: nat

definition no_media :: media where
  "no_media = \<lparr>me_kind = [], me_taken = None, me_width = 0, me_height = 0, me_orientation = 0, me_duration = 0,
     me_codec = [], me_bitrate = 0, me_sample_rate = 0, me_channels = 0, me_depth = 0, me_profile = [], me_level = 0,
     me_frame_rate = 0, me_audio_codec = [], me_primaries = [], me_transfer = [], me_space = [], me_dovi = 0\<rparr>"

section \<open>Configuration records\<close>

record streamConf =
  cf_profile :: bytes
  cf_level :: nat
  cf_depth :: nat

definition flag :: "nat \<Rightarrow> nat \<Rightarrow> bool" where
  "flag n i \<longleftrightarrow> (n div 2 ^ i) mod 2 = 1"

definition avcProfile :: "nat \<Rightarrow> nat \<Rightarrow> bytes" where
  "avcProfile idc constraints =
     (if idc = 66 then if flag constraints 6 then ''Constrained Baseline'' else ''Baseline''
      else if idc = 77 then ''Main''
      else if idc = 88 then ''Extended''
      else if idc = 100 then ''High''
      else if idc = 110 then if flag constraints 4 then ''High 10 Intra'' else ''High 10''
      else if idc = 122 then if flag constraints 4 then ''High 4:2:2 Intra'' else ''High 4:2:2''
      else if idc = 244 then if flag constraints 4 then ''High 4:4:4 Intra'' else ''High 4:4:4 Predictive''
      else if idc = 44 then ''CAVLC 4:4:4''
      else [])"

text \<open>A list of parameter sets stepped over: where it ends, or nowhere when it runs out of the record.\<close>

fun skip_sets :: "bytes \<Rightarrow> nat \<Rightarrow> nat \<Rightarrow> nat option go" where
  "skip_sets b 0 i = Some (Some i)"
| "skip_sets b (Suc n) i =
     (if length b < i + 2 then Some None
      else do { l \<leftarrow> be_at b i 2; skip_sets b n (i + 2 + l) })"

definition avcExtensionDepth :: "bytes \<Rightarrow> nat go" where
  "avcExtensionDepth b = do {
     c \<leftarrow> ix b 5;
     s \<leftarrow> skip_sets b (c mod 32) 6;
     case s of None \<Rightarrow> Some 0 | Some i \<Rightarrow>
       if length b \<le> i then Some 0
       else do {
         p \<leftarrow> ix b i;
         t \<leftarrow> skip_sets b p (i + 1);
         case t of None \<Rightarrow> Some 0 | Some j \<Rightarrow>
           if length b < j + 2 then Some 0
           else do { x \<leftarrow> ix b (j + 1); Some (x mod 8 + 8) } } }"

definition avcConf :: "bytes \<Rightarrow> streamConf option go" where
  "avcConf b =
     (if length b < 7 then Some None
      else do {
        v \<leftarrow> ix b 0;
        if v \<noteq> 1 then Some None
        else do {
          idc \<leftarrow> ix b 1; constraints \<leftarrow> ix b 2; level \<leftarrow> ix b 3;
          depth \<leftarrow> (if idc \<in> {66, 77, 88, 100} then Some 8 else avcExtensionDepth b);
          Some (Some \<lparr>cf_profile = avcProfile idc constraints, cf_level = level, cf_depth = depth\<rparr>) } })"

definition hevcProfile :: "nat \<Rightarrow> bytes" where
  "hevcProfile idc = (if idc = 1 then ''Main'' else if idc = 2 then ''Main 10'' else if idc = 3 then ''Main Still Picture''
     else if idc = 4 then ''Rext'' else if idc = 9 then ''SCC'' else [])"

definition hevcConf :: "bytes \<Rightarrow> streamConf option go" where
  "hevcConf b =
     (if length b < 23 then Some None
      else do {
        v \<leftarrow> ix b 0;
        if v \<noteq> 1 then Some None
        else do { p \<leftarrow> ix b 1; l \<leftarrow> ix b 12; d \<leftarrow> ix b 17;
          Some (Some \<lparr>cf_profile = hevcProfile (p mod 32), cf_level = l, cf_depth = d mod 8 + 8\<rparr>) } })"

definition vp9Conf :: "bytes \<Rightarrow> streamConf option go" where
  "vp9Conf b =
     (if length b < 3 then Some None
      else do { p \<leftarrow> ix b 0; d \<leftarrow> ix b 2;
        Some (Some \<lparr>cf_profile = ''Profile '' @ digits p, cf_level = 0, cf_depth = d div 16\<rparr>) })"

definition av1Conf :: "bytes \<Rightarrow> streamConf option go" where
  "av1Conf b =
     (if length b < 4 then Some None
      else do {
        v \<leftarrow> ix b 0;
        if v \<noteq> 0x81 then Some None
        else do { p \<leftarrow> ix b 1; d \<leftarrow> ix b 2;
          Some (Some \<lparr>cf_profile = (if p div 32 = 0 then ''Main'' else if p div 32 = 1 then ''High''
                                      else if p div 32 = 2 then ''Professional'' else []),
            cf_level = p mod 32,
            cf_depth = (if flag d 6 \<and> flag d 5 then 12 else if flag d 6 then 10 else 8)\<rparr>) } })"

text \<open>The channel configuration of an AudioSpecificConfig, out of its first 32 bits.\<close>

definition aacChannels :: "bytes \<Rightarrow> int go" where
  "aacChannels asc =
     (if length asc < 2 then Some 0
      else do {
        a \<leftarrow> ix asc 0; b \<leftarrow> ix asc 1;
        c \<leftarrow> (if 2 < length asc then ix asc 2 else Some 0);
        d \<leftarrow> (if 3 < length asc then ix asc 3 else Some 0);
        let bits = a * 2 ^ 24 + b * 2 ^ 16 + c * 2 ^ 8 + d;
            pos = (if bits div 2 ^ 27 = 31 then 11 else 5);
            pos = (if bits div 2 ^ (28 - pos) mod 16 = 15 then pos + 24 else pos) + 4 in
        if 32 < pos + 4 then Some 0
        else let conf = bits div 2 ^ (28 - pos) mod 16 in
          Some (if 1 \<le> conf \<and> conf \<le> 6 then int conf else if conf = 7 then 8 else 0) })"

section \<open>Colour and Dolby Vision\<close>

definition code_name :: "(nat \<times> bytes) list \<Rightarrow> nat \<Rightarrow> bytes" where
  "code_name names n = (case map_of names n of None \<Rightarrow> [] | Some x \<Rightarrow> x)"

definition primariesNames :: "(nat \<times> bytes) list" where
  "primariesNames = [(1, ''bt709''), (4, ''bt470m''), (5, ''bt470bg''), (6, ''smpte170m''), (7, ''smpte240m''), (8, ''film''),
     (9, ''bt2020''), (10, ''smpte428''), (11, ''smpte431''), (12, ''smpte432''), (22, ''jedec-p22'')]"

definition transferNames :: "(nat \<times> bytes) list" where
  "transferNames = [(1, ''bt709''), (4, ''gamma22''), (5, ''gamma28''), (6, ''smpte170m''), (7, ''smpte240m''), (8, ''linear''),
     (9, ''log100''), (10, ''log316''), (11, ''iec61966-2-4''), (12, ''bt1361e''), (13, ''iec61966-2-1''),
     (14, ''bt2020-10''), (15, ''bt2020-12''), (16, ''smpte2084''), (17, ''smpte428''), (18, ''arib-std-b67'')]"

definition matrixNames :: "(nat \<times> bytes) list" where
  "matrixNames = [(0, ''gbr''), (1, ''bt709''), (4, ''fcc''), (5, ''bt470bg''), (6, ''smpte170m''), (7, ''smpte240m''), (8, ''ycgco''),
     (9, ''bt2020nc''), (10, ''bt2020c''), (11, ''smpte2085''), (12, ''chroma-derived-nc''), (13, ''chroma-derived-c''), (14, ''ictcp'')]"

definition colour :: "nat \<Rightarrow> nat \<Rightarrow> nat \<Rightarrow> media \<Rightarrow> media" where
  "colour primaries transfer matrix m = m\<lparr>me_primaries := code_name primariesNames primaries,
     me_transfer := code_name transferNames transfer, me_space := code_name matrixNames matrix\<rparr>"

definition doviProfile :: "bytes \<Rightarrow> nat go" where
  "doviProfile b = (if length b < 3 then Some 0 else do { x \<leftarrow> ix b 2; Some (x div 2) })"

section \<open>The guards are enough\<close>

named_theorems safe

lemma bind_safe [safe]: "m \<noteq> None \<Longrightarrow> (\<And>x. m = Some x \<Longrightarrow> f x \<noteq> None) \<Longrightarrow> m \<bind> f \<noteq> None"
  by (cases m) auto

lemma if_safe [safe]: "(b \<Longrightarrow> m \<noteq> None) \<Longrightarrow> (\<not> b \<Longrightarrow> n \<noteq> None) \<Longrightarrow> (if b then m else n) \<noteq> None"
  by simp

lemma case_safe [safe]: "(x = None \<Longrightarrow> m \<noteq> None) \<Longrightarrow> (\<And>y. x = Some y \<Longrightarrow> f y \<noteq> None) \<Longrightarrow>
    (case x of None \<Rightarrow> m | Some y \<Rightarrow> f y) \<noteq> None"
  by (cases x) auto

lemma read_safe [safe]: "i < length b \<Longrightarrow> ix b i \<noteq> None" "i + n \<le> length b \<Longrightarrow> be_at b i n \<noteq> None"
  "i \<le> length b \<Longrightarrow> slice_from b i \<noteq> None" "Some x \<noteq> None"
  by simp_all

lemma skip_sets_safe [safe]: "skip_sets b n i \<noteq> None"
  by (induction b n i rule: skip_sets.induct) auto

lemma avcExtensionDepth_safe [safe]: "7 \<le> length b \<Longrightarrow> avcExtensionDepth b \<noteq> None"
  unfolding avcExtensionDepth_def by (intro safe) auto

lemma avcConf_safe [safe]: "avcConf b \<noteq> None"
  unfolding avcConf_def Let_def by (intro safe) auto

lemma hevcConf_safe [safe]: "hevcConf b \<noteq> None"
  unfolding hevcConf_def Let_def by (intro safe) auto

lemma vp9Conf_safe [safe]: "vp9Conf b \<noteq> None"
  unfolding vp9Conf_def Let_def by (intro safe) auto

lemma av1Conf_safe [safe]: "av1Conf b \<noteq> None"
  unfolding av1Conf_def Let_def by (intro safe) auto

lemma aacChannels_safe [safe]: "aacChannels b \<noteq> None"
  unfolding aacChannels_def Let_def by (intro safe) auto

lemma doviProfile_safe [safe]: "doviProfile b \<noteq> None"
  unfolding doviProfile_def Let_def by (intro safe) auto

end
