(* ===== verification/Mp4.thy ===== *)
theory Mp4
  imports MediaBytes BlobKey
begin

text \<open>
  \<^verbatim>\<open>internal/media/mp4.go\<close>: the boxes of an MP4 or QuickTime file, walked in memory and over a
  reader that seeks, and what is read out of them without a decoder.  An answer inside \<open>Some\<close> is
  the code's own, an error included; \<open>None\<close> is a panic.
\<close>

section \<open>Boxes in memory\<close>

text \<open>
  The boxes from a place on, in order.  The walk stops at a malformed one.  An entry \<open>None\<close> is
  where the walk panics: the sum that is compared with the length of the buffer is an \<open>int64\<close>
  and wraps.
\<close>

definition box_size :: "bytes \<Rightarrow> nat \<Rightarrow> (int \<times> int) option" where
  "box_size buf i =
     (let sz = int (be_nat (take 4 (drop i buf))) in
      if sz = 1 then if length buf < i + 16 then None else Some (to_int64 (be_nat (take 8 (drop (i + 8) buf))), 16)
      else Some (if sz = 0 then int (length buf - i) else sz, 8))"

lemma box_size_ge: "box_size buf i = Some (sz, header) \<Longrightarrow> header \<le> sz \<Longrightarrow> 8 \<le> header \<and> 8 \<le> sz"
  by (auto simp: box_size_def Let_def split: if_splits)

function atoms_from :: "bytes \<Rightarrow> nat \<Rightarrow> (bytes \<times> bytes) option list" where
  "atoms_from buf i =
     (if length buf < i + 8 then []
      else case box_size buf i of None \<Rightarrow> [] | Some (sz, header) \<Rightarrow>
        if sz < header \<or> int (length buf) < wrap64 (int i + sz) then []
        else case slice buf (int i + header) (wrap64 (int i + sz)) of
               None \<Rightarrow> [None]
             | Some body \<Rightarrow> Some (take 4 (drop (i + 4) buf), body) # atoms_from buf (i + nat sz))"
  by pat_completeness auto

termination
  by (relation "measure (\<lambda>(buf, i). length buf - i)") (auto dest: box_size_ge)

declare atoms_from.simps [simp del]

definition atoms :: "bytes \<Rightarrow> (bytes \<times> bytes) option list" where
  "atoms buf = atoms_from buf 0"

text \<open>The first box of a name, and a path of them.\<close>

fun first_box :: "bytes \<Rightarrow> (bytes \<times> bytes) option list \<Rightarrow> bytes option go" where
  "first_box want [] = Some None"
| "first_box want (None # xs) = None"
| "first_box want (Some (name, body) # xs) = (if name = want then Some (Some body) else first_box want xs)"

fun box :: "bytes \<Rightarrow> bytes list \<Rightarrow> bytes option go" where
  "box buf [] = Some (Some buf)"
| "box buf (want # path) = do {
     b \<leftarrow> first_box want (atoms buf);
     case b of None \<Rightarrow> Some None | Some body \<Rightarrow> box body path }"

section \<open>Boxes over a reader\<close>

text \<open>
  A reader that seeks, over the bytes of a file; the schedule says which calls fail.  \<open>read_n\<close>
  is \<open>io.ReadFull\<close>.  A seek to before the start, or out of range, fails.
\<close>

record source =
  so_data :: bytes
  so_pos :: int
  so_faults :: "bool list"

definition so_fault :: "source \<Rightarrow> bool \<times> source" where
  "so_fault s = (case so_faults s of [] \<Rightarrow> (False, s) | f # fs \<Rightarrow> (f, s\<lparr>so_faults := fs\<rparr>))"

definition read_n :: "nat \<Rightarrow> source \<Rightarrow> bytes option \<times> source" where
  "read_n n s = (case so_fault s of (f, s') \<Rightarrow>
     if f \<or> int (length (so_data s)) < so_pos s + int n then (None, s')
     else (Some (take n (drop (nat (so_pos s)) (so_data s))), s'\<lparr>so_pos := so_pos s + int n\<rparr>))"

definition seek_set :: "int \<Rightarrow> source \<Rightarrow> bool \<times> source" where
  "seek_set p s = (case so_fault s of (f, s') \<Rightarrow>
     if f \<or> p < 0 \<or> \<not> is_int64 p then (False, s') else (True, s'\<lparr>so_pos := p\<rparr>))"

definition seek_by :: "int \<Rightarrow> source \<Rightarrow> bool \<times> source" where
  "seek_by d s = seek_set (so_pos s + d) s"

text \<open>\<open>FindAtom\<close>: the header of a box, and the walk, which leaves the reader at the body.\<close>

definition read_header :: "int \<Rightarrow> int \<Rightarrow> source \<Rightarrow> (int \<times> bytes) option \<times> source" where
  "read_header within past s = (case read_n 8 s of
     (None, s1) \<Rightarrow> (None, s1)
   | (Some h, s1) \<Rightarrow>
      (let sz = int (be_nat (take 4 h)); name = drop 4 h in
       if sz = 1 then
         (case read_n 8 s1 of
            (None, s2) \<Rightarrow> (None, s2)
          | (Some x, s2) \<Rightarrow> (Some (wrap64 (to_int64 (be_nat x) - 8), name), s2))
       else (Some (if sz = 0 then wrap64 (within - past) else sz, name), s1)))"

lemma read_n_Some:
  "read_n n s = (Some b, s') \<Longrightarrow>
   so_data s' = so_data s \<and> so_pos s' = so_pos s + int n \<and> so_pos s + int n \<le> int (length (so_data s))"
  by (auto simp: read_n_def so_fault_def split: list.splits if_splits)

lemma read_header_step:
  assumes "read_header within past s = (Some (sz, name), s')"
  shows "so_data s' = so_data s \<and> so_pos s + 8 \<le> so_pos s' \<and> so_pos s + 8 \<le> int (length (so_data s))"
proof -
  obtain h s1 where h: "read_n 8 s = (Some h, s1)"
    using assms by (auto simp: read_header_def split: prod.splits option.splits)
  with assms have "s' = s1 \<or> (\<exists>x. read_n 8 s1 = (Some x, s'))"
    by (auto simp: read_header_def Let_def split: prod.splits option.splits if_splits)
  then show ?thesis using read_n_Some [OF h] by (auto dest!: read_n_Some)
qed

lemma seek_step: "seek_by d s = (True, s') \<Longrightarrow> so_data s' = so_data s \<and> so_pos s' = so_pos s + d"
  by (auto simp: seek_by_def seek_set_def so_fault_def split: list.splits if_splits)

function find_atom :: "bytes \<Rightarrow> int \<Rightarrow> int \<Rightarrow> source \<Rightarrow> int option \<times> source" where
  "find_atom want within past s =
     (if within < wrap64 (past + 8) then (None, s)
      else case read_header within past s of
             (None, s1) \<Rightarrow> (None, s1)
           | (Some (sz, name), s1) \<Rightarrow>
               if sz < 8 \<or> within < wrap64 (past + sz) then (None, s1)
               else if name = want then (Some (sz - 8), s1)
               else (case seek_by (sz - 8) s1 of
                       (False, s2) \<Rightarrow> (None, s2)
                     | (True, s2) \<Rightarrow> find_atom want within (wrap64 (past + sz)) s2))"
  by pat_completeness auto

termination
  by (relation "measure (\<lambda>(want, within, past, s). nat (int (length (so_data s)) - so_pos s))")
    (auto dest!: read_header_step [OF sym] seek_step [OF sym])

declare find_atom.simps [simp del]

definition FindAtom :: "source \<Rightarrow> int \<Rightarrow> bytes \<Rightarrow> int option \<times> source" where
  "FindAtom s within want = find_atom want within 0 s"

definition maxMoov :: int where
  "maxMoov = 32 * 2 ^ 20"

text \<open>Where the movie box is and how long it runs, and the box; \<open>None\<close> is \<open>errNotRead\<close>.\<close>

definition findMoov :: "source \<Rightarrow> int \<Rightarrow> (int \<times> int) option \<times> source" where
  "findMoov s sz =
     (case seek_set 0 s of (False, s1) \<Rightarrow> (None, s1) | (True, s1) \<Rightarrow>
      case FindAtom s1 sz ''moov'' of (None, s2) \<Rightarrow> (None, s2) | (Some len, s2) \<Rightarrow>
      if len \<le> 0 \<or> maxMoov < len then (None, s2)
      else case seek_by 0 s2 of (False, s3) \<Rightarrow> (None, s3) | (True, s3) \<Rightarrow> (Some (so_pos s3, len), s3))"

definition readMoov :: "source \<Rightarrow> int \<Rightarrow> bytes option \<times> source" where
  "readMoov s sz = (case findMoov s sz of
     (None, s1) \<Rightarrow> (None, s1) | (Some (_, len), s1) \<Rightarrow> read_n (nat len) s1)"

section \<open>Names\<close>

definition isobmffExtensions :: "bytes list" where
  "isobmffExtensions = [''.mp4'', ''.m4v'', ''.mov'']"

definition isobmff :: "bytes \<Rightarrow> bool" where
  "isobmff name \<longleftrightarrow> to_lower (path_ext name) \<in> set isobmffExtensions"

definition fourccCodecs :: "(bytes \<times> bytes) list" where
  "fourccCodecs = [(''avc1'', ''h264''), (''avc3'', ''h264''), (''hvc1'', ''hevc''), (''hev1'', ''hevc''),
     (''av01'', ''av1''), (''vp09'', ''vp9''), (''mp4v'', ''mpeg4'')]"

definition soundCodecs :: "(bytes \<times> bytes) list" where
  "soundCodecs = [(''ac-3'', ''ac3''), (''ec-3'', ''eac3''), (''Opus'', ''opus''), (''fLaC'', ''flac''),
     (''alac'', ''alac''), (''.mp3'', ''mp3'')]"

section \<open>Headers\<close>

definition epoch1904 :: nat where
  "epoch1904 = 2082844800"

text \<open>A time is its Unix seconds, none for unknown.\<close>

definition movieTime :: "nat \<Rightarrow> int option" where
  "movieTime seconds = (if seconds \<le> epoch1904 then None else Some (to_int64 (seconds - epoch1904)))"

text \<open>The duration and its unit, out of \<open>mvhd\<close> or \<open>mdhd\<close>, and the time of creation.\<close>

definition header_fields :: "bytes \<Rightarrow> (nat \<times> nat \<times> nat) option go" where
  "header_fields body =
     (if length body < 4 then Some None
      else do {
        v \<leftarrow> ix body 0;
        if v = 1 \<and> 32 \<le> length body then
          do { c \<leftarrow> be_at body 4 8; t \<leftarrow> be_at body 20 4; d \<leftarrow> be_at body 24 8; Some (Some (c, t, d)) }
        else if 20 \<le> length body \<and> v = 0 then
          do { c \<leftarrow> be_at body 4 4; t \<leftarrow> be_at body 12 4; d \<leftarrow> be_at body 16 4; Some (Some (c, t, d)) }
        else Some None })"

definition movieHeader :: "bytes \<Rightarrow> (int \<times> int option) option go" where
  "movieHeader body = do {
     f \<leftarrow> header_fields body;
     Some (case f of None \<Rightarrow> None | Some (created, timescale, duration) \<Rightarrow>
       if timescale = 0 \<or> duration = 0 then None
       else Some (to_int64 (duration * 1000 mod 2 ^ 64 div timescale), movieTime created)) }"

definition handler :: "bytes \<Rightarrow> bytes go" where
  "handler trak = do {
     h \<leftarrow> box trak [''mdia'', ''hdlr''];
     Some (case h of None \<Rightarrow> [] | Some hdlr \<Rightarrow> if length hdlr < 12 then [] else take 4 (drop 8 hdlr)) }"

text \<open>The display matrix, for the three square rotations.\<close>

definition trackOrientation :: "bytes \<Rightarrow> nat go" where
  "trackOrientation tkhd =
     (if length tkhd < 4 then Some 0
      else do {
        v \<leftarrow> ix tkhd 0;
        let at = (if v = 1 then 52 else 40); one = 2 ^ 16 in
        if length tkhd < at + 36 then Some 0
        else do {
          a \<leftarrow> be_at tkhd at 4; b \<leftarrow> be_at tkhd (at + 4) 4; c \<leftarrow> be_at tkhd (at + 12) 4; d \<leftarrow> be_at tkhd (at + 16) 4;
          let m = (to_int32 a, to_int32 b, to_int32 c, to_int32 d) in
          Some (if m = (0, one, - one, 0) then 6 else if m = (- one, 0, 0, - one) then 3
                else if m = (0, - one, one, 0) then 8 else 0) } })"

end
