(* ===== verification/Mp4Probe.thy ===== *)
theory Mp4Probe
  imports Mp4
begin

text \<open>
  The tracks of a movie and the row made of them, the second half of \<^verbatim>\<open>mp4.go\<close>.  What the
  machine makes of a floating point number too large for an integer is an argument, \<open>beyond\<close>.
\<close>

section \<open>The picture\<close>

definition colrBox :: "bytes \<Rightarrow> media \<Rightarrow> media go" where
  "colrBox b m =
     (if length b < 10 then Some m
      else if take 4 b \<in> {''nclx'', ''nclc''} then
        do { p \<leftarrow> be_at b 4 2; t \<leftarrow> be_at b 6 2; x \<leftarrow> be_at b 8 2; Some (colour p t x m) }
      else Some m)"

definition conf_of :: "bytes \<Rightarrow> bytes \<Rightarrow> streamConf option go" where
  "conf_of name body =
     (if name = ''avcC'' then avcConf body
      else if name = ''hvcC'' then hevcConf body
      else if name = ''vpcC'' then if 4 < length body then do { b \<leftarrow> slice_from body 4; vp9Conf b } else Some None
      else if name = ''av1C'' then av1Conf body
      else Some None)"

definition picture_box :: "bytes \<Rightarrow> bytes \<Rightarrow> media \<Rightarrow> media go" where
  "picture_box name body m = do {
     c \<leftarrow> conf_of name body;
     m \<leftarrow> (if name = ''colr'' then colrBox body m
          else if name \<in> {''dvcC'', ''dvvC''} then do { p \<leftarrow> doviProfile body; Some (m\<lparr>me_dovi := p\<rparr>) }
          else Some m);
     Some (case c of None \<Rightarrow> m
       | Some c \<Rightarrow> m\<lparr>me_profile := cf_profile c, me_level := cf_level c, me_depth := cf_depth c\<rparr>) }"

fun picture_boxes :: "(bytes \<times> bytes) option list \<Rightarrow> media \<Rightarrow> media go" where
  "picture_boxes [] m = Some m"
| "picture_boxes (None # xs) m = None"
| "picture_boxes (Some (name, body) # xs) m = do { m \<leftarrow> picture_box name body m; picture_boxes xs m }"

definition pictureConf :: "bytes \<Rightarrow> media \<Rightarrow> media go" where
  "pictureConf children = picture_boxes (atoms children)"

text \<open>Frames in a thousand seconds: the samples of \<open>stts\<close> over the track's duration.\<close>

function sum_stts :: "bytes \<Rightarrow> nat \<Rightarrow> nat \<Rightarrow> nat \<Rightarrow> nat option go" where
  "sum_stts stts i n acc =
     (if n \<le> i then Some (Some acc)
      else if length stts < 8 + i * 8 + 8 then Some None
      else do { c \<leftarrow> be_at stts (8 + i * 8) 4; sum_stts stts (i + 1) n ((acc + c) mod 2 ^ 64) })"
  by pat_completeness auto

termination by (relation "measure (\<lambda>(stts, i, n, acc). n - i)") auto

declare sum_stts.simps [simp del]

definition frameRate :: "bytes \<Rightarrow> int go" where
  "frameRate trak = do {
     h \<leftarrow> box trak [''mdia'', ''mdhd''];
     case h of None \<Rightarrow> Some 0 | Some mdhd \<Rightarrow> do {
       f \<leftarrow> header_fields mdhd;
       case f of None \<Rightarrow> Some 0 | Some (_, timescale, duration) \<Rightarrow>
         if timescale = 0 \<or> duration = 0 then Some 0
         else do {
           t \<leftarrow> box trak [''mdia'', ''minf'', ''stbl'', ''stts''];
           case t of None \<Rightarrow> Some 0 | Some stts \<Rightarrow>
             if length stts < 8 then Some 0
             else do {
               n \<leftarrow> be_at stts 4 4;
               s \<leftarrow> sum_stts stts 0 n 0;
               Some (case s of None \<Rightarrow> 0
                 | Some frames \<Rightarrow> to_int64 (frames * timescale * 1000 mod 2 ^ 64 div duration)) } } } }"

definition visualSampleEntry :: nat where
  "visualSampleEntry = 78"

text \<open>A picture track: the row with what it says, or nothing where it is not whole.\<close>

definition video_entry :: "bytes \<Rightarrow> bytes \<Rightarrow> bytes \<Rightarrow> media \<Rightarrow> media option go" where
  "video_entry trak format entry m =
     (case map_of fourccCodecs format of None \<Rightarrow> Some None | Some codec \<Rightarrow>
      if length entry < 28 then Some None
      else do {
        w \<leftarrow> be_at entry 24 2; h \<leftarrow> be_at entry 26 2;
        if w = 0 \<or> h = 0 then Some None
        else do {
          let m = m\<lparr>me_codec := codec, me_width := int w, me_height := int h\<rparr>;
          m \<leftarrow> (if visualSampleEntry < length entry
               then do { b \<leftarrow> slice_from entry visualSampleEntry; pictureConf b m } else Some m);
          r \<leftarrow> frameRate trak;
          Some (Some (m\<lparr>me_frame_rate := r\<rparr>)) } })"

definition videoTrack :: "bytes \<Rightarrow> media \<Rightarrow> media option go" where
  "videoTrack trak m = do {
     k \<leftarrow> box trak [''tkhd''];
     case k of None \<Rightarrow> Some None | Some tkhd \<Rightarrow> do {
       o' \<leftarrow> trackOrientation tkhd;
       d \<leftarrow> box trak [''mdia'', ''minf'', ''stbl'', ''stsd''];
       case d of None \<Rightarrow> Some None | Some stsd \<Rightarrow>
         if length stsd < 8 then Some None
         else do {
           b \<leftarrow> slice_from stsd 8;
           case atoms b of
             [] \<Rightarrow> Some None
           | None # _ \<Rightarrow> None
           | Some (format, entry) # _ \<Rightarrow> video_entry trak format entry (m\<lparr>me_orientation := o'\<rparr>) } } }"

section \<open>The sound\<close>

definition acmodChannels :: "int list" where
  "acmodChannels = [2, 1, 2, 3, 3, 4, 4, 5]"

definition ac3Channels :: "bytes \<Rightarrow> int go" where
  "ac3Channels dac3 =
     (if length dac3 < 3 then Some 0
      else do { bits \<leftarrow> be_at dac3 0 3;
        Some (acmodChannels ! (bits div 2 ^ 11 mod 8) + int (bits div 2 ^ 10 mod 2)) })"

definition eac3Channels :: "bytes \<Rightarrow> int go" where
  "eac3Channels dec3 =
     (if length dec3 < 5 then Some 0
      else do {
        ind \<leftarrow> ix dec3 1;
        if ind mod 8 \<noteq> 0 then Some 0
        else do { bits \<leftarrow> be_at dec3 2 3;
          Some (if bits div 2 mod 16 \<noteq> 0 then 0
                else acmodChannels ! (bits div 2 ^ 9 mod 8) + int (bits div 2 ^ 8 mod 2)) } })"

text \<open>An MPEG-4 descriptor: a tag, a length of up to four groups of seven bits, and the body.\<close>

function descriptor_length :: "bytes \<Rightarrow> nat \<Rightarrow> nat \<Rightarrow> nat \<times> nat" where
  "descriptor_length b n i =
     (if i < length b \<and> i \<le> 4
      then let c = byte (b ! i) in
        if c < 128 then (n * 128 + c, i + 1) else descriptor_length b (n * 128 + c mod 128) (i + 1)
      else (n, i))"
  by pat_completeness auto

termination by (relation "measure (\<lambda>(b, n, i). 5 - i)") auto

declare descriptor_length.simps [simp del]

definition descriptor :: "bytes \<Rightarrow> (nat \<times> bytes) go" where
  "descriptor b =
     (if length b < 2 then Some (0, [])
      else do {
        tag \<leftarrow> ix b 0;
        let (n, i) = descriptor_length b 0 1 in
        if length b < i + n then Some (0, [])
        else do { body \<leftarrow> slice b (int i) (int (i + n)); Some (tag, body) } })"

text \<open>Where the decoder's configuration begins in an \<open>ES_Descriptor\<close>; \<open>None\<close> inside: nowhere.\<close>

definition after_flags :: "bytes \<Rightarrow> nat option go" where
  "after_flags body = do {
     f \<leftarrow> ix body 2;
     let i = (if flag f 7 then 5 else 3) in
     if flag f 6 \<and> length body \<le> i then Some None
     else do {
       url \<leftarrow> (if flag f 6 then ix body i else Some 0);
       let j = (if flag f 6 then i + 1 + url else i); k = (if flag f 5 then j + 2 else j) in
       Some (if length body < k then None else Some k) } }"

definition mp4aCodec :: "bytes \<Rightarrow> (bytes \<times> bytes) go" where
  "mp4aCodec children = do {
     e \<leftarrow> box children [''esds''];
     case e of None \<Rightarrow> Some ([], []) | Some esds \<Rightarrow>
       if length esds < 4 then Some ([], [])
       else do {
         b \<leftarrow> slice_from esds 4;
         (tag, body) \<leftarrow> descriptor b;
         if tag \<noteq> 3 \<or> length body < 3 then Some ([], [])
         else do {
           a \<leftarrow> after_flags body;
           case a of None \<Rightarrow> Some ([], []) | Some i \<Rightarrow> do {
             c \<leftarrow> slice_from body i;
             (tag, config) \<leftarrow> descriptor c;
             if tag \<noteq> 4 \<or> length config < 13 then Some ([], [])
             else do {
               t \<leftarrow> ix config 0;
               s \<leftarrow> slice_from config 13;
               (tag, asc) \<leftarrow> descriptor s;
               Some (if t \<in> {0x40, 0x66, 0x67, 0x68} then ''aac'' else if t \<in> {0x69, 0x6b} then ''mp3'' else [],
                 if tag \<noteq> 5 then [] else asc) } } } } }"

text \<open>A double, by its bits, cut to an integer.\<close>

definition double_int :: "(nat \<Rightarrow> int) \<Rightarrow> nat \<Rightarrow> int" where
  "double_int beyond bits =
     (let e = bits div 2 ^ 52 mod 2048; m = bits mod 2 ^ 52;
          v = (if e = 0 then 0 else if 1075 \<le> e then (2 ^ 52 + m) * 2 ^ (e - 1075) else (2 ^ 52 + m) div 2 ^ (1075 - e));
          x = (if bits div 2 ^ 63 = 1 then - int v else int v)
      in if 1087 \<le> e \<or> \<not> is_int64 x then beyond bits else x)"

text \<open>Where the boxes of a sound entry begin, its channels and its rate, by its version.\<close>

definition sound_layout :: "(nat \<Rightarrow> int) \<Rightarrow> bytes \<Rightarrow> (nat \<times> int \<times> int) option go" where
  "sound_layout beyond entry =
     (if length entry < 28 then Some None
      else do {
        channels \<leftarrow> be_at entry 16 2; rate \<leftarrow> be_at entry 24 2; version \<leftarrow> be_at entry 8 2;
        if version \<noteq> 2 then Some (Some (if version = 1 then 44 else 28, int channels, int rate))
        else if length entry < 64 then Some None
        else do { r \<leftarrow> be_at entry 32 8; c \<leftarrow> be_at entry 40 4; Some (Some (64, int c, double_int beyond r)) } })"

definition sound_codec :: "bytes \<Rightarrow> bytes \<Rightarrow> int \<Rightarrow> (bytes \<times> int) go" where
  "sound_codec format rest channels =
     (let codec = (case map_of soundCodecs format of None \<Rightarrow> [] | Some c \<Rightarrow> c) in
      if format = ''mp4a'' then do {
        (codec, asc) \<leftarrow> mp4aCodec rest;
        n \<leftarrow> aacChannels asc;
        Some (codec, if codec = ''aac'' \<and> 0 < n then n else channels) }
      else if format = ''ac-3'' then do {
        b \<leftarrow> box rest [''dac3''];
        n \<leftarrow> (case b of None \<Rightarrow> Some channels | Some x \<Rightarrow> ac3Channels x);
        Some (codec, n) }
      else if format = ''ec-3'' then do {
        b \<leftarrow> box rest [''dec3''];
        n \<leftarrow> (case b of None \<Rightarrow> Some 0 | Some x \<Rightarrow> eac3Channels x);
        Some (codec, n) }
      else if format = ''Opus'' then do {
        b \<leftarrow> box rest [''dOps''];
        n \<leftarrow> (case b of None \<Rightarrow> Some channels
             | Some x \<Rightarrow> if length x < 2 then Some channels else do { c \<leftarrow> ix x 1; Some (int c) });
        Some (codec, n) }
      else Some (codec, channels))"

definition sound_entry :: "(nat \<Rightarrow> int) \<Rightarrow> bytes \<Rightarrow> bytes \<Rightarrow> media \<Rightarrow> media go" where
  "sound_entry beyond format entry m = do {
     l \<leftarrow> sound_layout beyond entry;
     case l of None \<Rightarrow> Some m | Some (children, channels, rate) \<Rightarrow> do {
       rest \<leftarrow> (if children < length entry then slice_from entry children else Some []);
       (codec, channels) \<leftarrow> sound_codec format rest channels;
       Some (if codec = [] then m
             else m\<lparr>me_audio_codec := codec, me_channels := channels, me_sample_rate := rate\<rparr>) } }"

definition soundTrack :: "(nat \<Rightarrow> int) \<Rightarrow> bytes \<Rightarrow> media \<Rightarrow> media go" where
  "soundTrack beyond trak m = do {
     d \<leftarrow> box trak [''mdia'', ''minf'', ''stbl'', ''stsd''];
     case d of None \<Rightarrow> Some m | Some stsd \<Rightarrow>
       if length stsd < 8 then Some m
       else do {
         b \<leftarrow> slice_from stsd 8;
         case atoms b of
           [] \<Rightarrow> Some m
         | None # _ \<Rightarrow> None
         | Some (format, entry) # _ \<Rightarrow> sound_entry beyond format entry m } }"

section \<open>The movie\<close>

text \<open>The tracks in order: the first picture and the first sound count.\<close>

fun movie_tracks :: "(nat \<Rightarrow> int) \<Rightarrow> (bytes \<times> bytes) option list \<Rightarrow> bool \<Rightarrow> bool \<Rightarrow> media \<Rightarrow> media option go" where
  "movie_tracks beyond [] picture sound m = Some (if picture then Some m else None)"
| "movie_tracks beyond (None # xs) picture sound m = None"
| "movie_tracks beyond (Some (name, body) # xs) picture sound m =
     (if name \<noteq> ''trak'' then movie_tracks beyond xs picture sound m
      else do {
        h \<leftarrow> handler body;
        if h = ''vide'' \<and> \<not> picture then do {
          v \<leftarrow> videoTrack body m;
          case v of None \<Rightarrow> Some None | Some m' \<Rightarrow> movie_tracks beyond xs True sound m' }
        else if h = ''soun'' \<and> \<not> sound then do {
          m' \<leftarrow> soundTrack beyond body m;
          movie_tracks beyond xs picture True m' }
        else movie_tracks beyond xs picture sound m })"

definition probe_moov :: "(nat \<Rightarrow> int) \<Rightarrow> int \<Rightarrow> bytes \<Rightarrow> media option go" where
  "probe_moov beyond sz moov = do {
     h \<leftarrow> box moov [''mvhd''];
     case h of None \<Rightarrow> Some None | Some header \<Rightarrow> do {
       f \<leftarrow> movieHeader header;
       case f of None \<Rightarrow> Some None | Some (duration, taken) \<Rightarrow> do {
         rate \<leftarrow> go_quot (wrap64 (wrap64 (sz * 8) * 1000)) duration;
         movie_tracks beyond (atoms moov) False False
           (no_media\<lparr>me_kind := ''video'', me_duration := duration, me_taken := taken, me_bitrate := rate\<rparr>) } } }"

definition probeVideo :: "(nat \<Rightarrow> int) \<Rightarrow> source \<Rightarrow> int \<Rightarrow> media option go \<times> source" where
  "probeVideo beyond s sz = (case readMoov s sz of
     (None, s') \<Rightarrow> (Some None, s') | (Some moov, s') \<Rightarrow> (probe_moov beyond sz moov, s'))"

end
