(* ===== verification/Mp4Boxes.thy ===== *)
theory Mp4Boxes
  imports Mp4Probe "HOL-Library.Sublist"
begin

text \<open>
  The two walks over boxes find what was written: the one in memory every box, the one over a
  reader the first of a name, both with short and long headers mixed.  And the reader of a movie
  panics on nothing but a box that claims to be almost as long as an integer goes and a duration
  that rounds to nothing.
\<close>

section \<open>Boxes as they are written\<close>

text \<open>A header of eight bytes, or the long form with the length in eight more.\<close>

definition print_box :: "bool \<times> bytes \<times> bytes \<Rightarrow> bytes" where
  "print_box x = (case x of (long, name, body) \<Rightarrow>
     if long then be_bytes 4 1 @ name @ be_bytes 8 (length body + 16) @ body
     else be_bytes 4 (length body + 8) @ name @ body)"

definition good_box :: "bool \<times> bytes \<times> bytes \<Rightarrow> bool" where
  "good_box x \<longleftrightarrow> (case x of (long, name, body) \<Rightarrow>
     length name = 4 \<and> length body + 16 < 2 ^ 62 \<and> (\<not> long \<longrightarrow> length body + 8 < 2 ^ 32))"

definition print_boxes :: "(bool \<times> bytes \<times> bytes) list \<Rightarrow> bytes" where
  "print_boxes bs = concat (map print_box bs)"

lemma print_boxes_simps [simp]: "print_boxes [] = []" "print_boxes (x # bs) = print_box x @ print_boxes bs"
  by (simp_all add: print_boxes_def)

definition header_len :: "bool \<Rightarrow> nat" where
  "header_len long = (if long then 16 else 8)"

lemma print_box_length: "good_box (long, name, body) \<Longrightarrow> length (print_box (long, name, body)) = header_len long + length body"
  by (simp add: print_box_def good_box_def header_len_def)

lemma to_int64_small: "n < 2 ^ 63 \<Longrightarrow> to_int64 n = int n"
  by (simp add: to_int64_def is_int64_def)

lemma box_size_print:
  assumes "good_box (long, name, body)"
  shows "box_size (pre @ print_box (long, name, body) @ rest) (length pre)
    = Some (int (header_len long + length body), int (header_len long))"
proof -
  have "be_nat (be_bytes 4 1) = 1" "be_nat (be_bytes 8 (length body + 16)) = length body + 16"
    "\<not> long \<Longrightarrow> be_nat (be_bytes 4 (length body + 8)) = length body + 8"
    using assms by (simp_all add: good_box_def be_nat_bytes)
  moreover have "to_int64 (length body + 16) = int (length body + 16)"
    using assms by (intro to_int64_small) (simp add: good_box_def)
  ultimately show ?thesis
    using assms by (simp add: box_size_def print_box_def good_box_def header_len_def Let_def)
qed

lemma slice_middle: "slice (pre @ mid @ post) (int (length pre)) (int (length pre + length mid)) = Some mid"
  by (simp add: slice_def)

lemma atoms_from_print:
  assumes "list_all good_box bs" "length (pre @ print_boxes bs) < 2 ^ 62"
  shows "atoms_from (pre @ print_boxes bs) (length pre) = map (Some \<circ> snd) bs"
  using assms
proof (induction bs arbitrary: pre)
  case Nil
  then show ?case by (simp add: atoms_from.simps)
next
  case (Cons x bs)
  obtain long name body where x: "x = (long, name, body)" by (cases x)
  have g: "good_box (long, name, body)" "length name = 4" using Cons.prems x by (simp_all add: good_box_def)
  let ?buf = "pre @ print_box x @ print_boxes bs" and ?n = "header_len long + length body"
  have len: "length (print_box x) = ?n" "length ?buf = length pre + ?n + length (print_boxes bs)"
    using print_box_length [OF g(1)] x by simp_all
  have sz: "box_size ?buf (length pre) = Some (int ?n, int (header_len long))"
    using box_size_print [OF g(1)] x by simp
  have w: "wrap64 (int (length pre) + int ?n) = int (length pre + ?n)"
    using Cons.prems(2) len by (simp add: is_int64_def)
  have "\<exists>h. print_box x = h @ body \<and> length h = header_len long \<and> take 4 (drop 4 h) = name"
    using g(2) by (auto simp: x print_box_def header_len_def)
  then obtain h where h: "print_box x = h @ body" "length h = header_len long" "take 4 (drop 4 h) = name" by blast
  have s: "slice ?buf (int (length pre) + int (header_len long)) (int (length pre + ?n)) = Some body"
    using slice_middle [of "pre @ h" body "print_boxes bs"] h by (simp add: add.assoc)
  have n: "take 4 (drop (length pre + 4) ?buf) = name"
    using h by (auto simp: header_len_def split: if_splits)
  have rec: "atoms_from ?buf (length pre + ?n) = map (Some \<circ> snd) bs"
    using Cons.IH [of "pre @ print_box x"] Cons.prems len by simp
  have ge: "length pre + 8 \<le> length ?buf" using len by (simp add: header_len_def)
  have "atoms_from ?buf (length pre) = Some (name, body) # map (Some \<circ> snd) bs"
  proof (subst atoms_from.simps)
    have "int (header_len long) \<le> int ?n" "int (length pre + ?n) \<le> int (length ?buf)" using len by simp_all
    then show "(if length ?buf < length pre + 8 then []
      else case box_size ?buf (length pre) of None \<Rightarrow> [] | Some (sz, header) \<Rightarrow>
        if sz < header \<or> int (length ?buf) < wrap64 (int (length pre) + sz) then []
        else case slice ?buf (int (length pre) + header) (wrap64 (int (length pre) + sz)) of None \<Rightarrow> [None]
             | Some body \<Rightarrow> Some (take 4 (drop (length pre + 4) ?buf), body) # atoms_from ?buf (length pre + nat sz))
      = Some (name, body) # map (Some \<circ> snd) bs"
      using ge by (simp only: sz w s n rec option.case prod.case nat_int not_less [symmetric] if_False de_Morgan_disj simp_thms)
  qed
  then show ?case by (simp add: x)
qed

lemma atoms_print: "list_all good_box bs \<Longrightarrow> length (print_boxes bs) < 2 ^ 62 \<Longrightarrow> atoms (print_boxes bs) = map (Some \<circ> snd) bs"
  using atoms_from_print [of bs "[]"] by (simp add: atoms_def)

section \<open>The walk over a reader\<close>

definition calm_at :: "bytes \<Rightarrow> nat \<Rightarrow> source" where
  "calm_at d p = \<lparr>so_data = d, so_pos = int p, so_faults = []\<rparr>"

lemma read_n_calm:
  "read_n n (calm_at (a @ b @ c) (length a)) = (Some b, calm_at (a @ b @ c) (length a + n))" if "length b = n"
  using that by (simp add: read_n_def so_fault_def calm_at_def)

lemma read_n_end: "length d < p + n \<Longrightarrow> read_n n (calm_at d p) = (None, calm_at d p)"
  by (simp add: read_n_def so_fault_def calm_at_def)

lemma seek_by_calm: "is_int64 (int (p + n)) \<Longrightarrow> seek_by (int n) (calm_at d p) = (True, calm_at d (p + n))"
  by (simp add: seek_by_def seek_set_def so_fault_def calm_at_def)

text \<open>A header as it is read: the length left out, the long form lacks its own eight bytes.\<close>

lemma read_header_print:
  assumes g: "good_box (long, name, body)"
  shows "read_header within past (calm_at (pre @ print_box (long, name, body) @ rest) (length pre))
    = (Some (int (8 + length body), name), calm_at (pre @ print_box (long, name, body) @ rest) (length pre + header_len long))"
proof (cases long)
  case True
  let ?a = "be_bytes 4 1 @ name" and ?b = "be_bytes 8 (length body + 16)"
  have d: "pre @ print_box (long, name, body) @ rest = pre @ ?a @ ?b @ body @ rest" using True by (simp add: print_box_def)
  have "length ?a = 8" using g by (simp add: good_box_def)
  then have r1: "read_n 8 (calm_at (pre @ ?a @ ?b @ body @ rest) (length pre)) = (Some ?a, calm_at (pre @ ?a @ ?b @ body @ rest) (length pre + 8))"
    by (rule read_n_calm)
  have r2: "read_n 8 (calm_at (pre @ ?a @ ?b @ body @ rest) (length pre + 8)) = (Some ?b, calm_at (pre @ ?a @ ?b @ body @ rest) (length pre + 16))"
    using read_n_calm [of ?b 8 "pre @ ?a" "body @ rest"] \<open>length ?a = 8\<close> by (simp add: add.assoc)
  have v: "to_int64 (length body + 16) = int (length body + 16)" "be_nat (be_bytes 4 1) = 1" "be_nat ?b = length body + 16"
    using g to_int64_small [of "length body + 16"] by (auto simp: good_box_def be_nat_bytes)
  have "wrap64 (int (length body + 16) - 8) = int (8 + length body)" using g by (simp add: good_box_def is_int64_def)
  moreover have "take 4 ?a = be_bytes 4 1" "drop 4 ?a = name" by simp_all
  ultimately show ?thesis unfolding d using True
    by (simp only: read_header_def r1 r2 prod.case option.case Let_def v header_len_def) simp
next
  case False
  let ?a = "be_bytes 4 (length body + 8) @ name"
  have d: "pre @ print_box (long, name, body) @ rest = pre @ ?a @ body @ rest" using False by (simp add: print_box_def)
  have "length ?a = 8" using g by (simp add: good_box_def)
  then have r1: "read_n 8 (calm_at (pre @ ?a @ body @ rest) (length pre)) = (Some ?a, calm_at (pre @ ?a @ body @ rest) (length pre + 8))"
    by (rule read_n_calm)
  have v: "be_nat (be_bytes 4 (length body + 8)) = length body + 8"
    using g False by (simp add: good_box_def be_nat_bytes)
  have "take 4 ?a = be_bytes 4 (length body + 8)" "drop 4 ?a = name" by simp_all
  then show ?thesis unfolding d using False
    by (simp only: read_header_def r1 prod.case option.case Let_def v header_len_def) simp
qed

definition first_named :: "bytes \<Rightarrow> (bool \<times> bytes \<times> bytes) list \<Rightarrow> bytes option" where
  "first_named want bs = map_option (\<lambda>x. snd (snd x)) (find (\<lambda>x. fst (snd x) = want) bs)"

lemma first_named_simps [simp]:
  "first_named want [] = None"
  "first_named want ((long, name, body) # bs) = (if name = want then Some body else first_named want bs)"
  by (simp_all add: first_named_def)

lemma find_atom_print:
  assumes "list_all good_box bs" "length (pre @ print_boxes bs) < 2 ^ 62" "0 \<le> past" "past \<le> int (length pre)"
  shows "\<exists>p. find_atom want (int (length (pre @ print_boxes bs))) past (calm_at (pre @ print_boxes bs) (length pre))
      = (map_option (int \<circ> length) (first_named want bs), calm_at (pre @ print_boxes bs) p)
    \<and> (\<forall>body. first_named want bs = Some body \<longrightarrow> (\<exists>post. pre @ print_boxes bs = take p (pre @ print_boxes bs) @ body @ post
         \<and> p \<le> length (pre @ print_boxes bs)))"
  using assms
proof (induction bs arbitrary: pre past)
  case Nil
  have "read_header (int (length pre)) past (calm_at pre (length pre)) = (None, calm_at pre (length pre))"
    by (simp add: read_header_def read_n_end)
  then show ?case by (simp add: find_atom.simps [of want "int (length pre)" past]) blast
next
  case (Cons x bs)
  obtain long name body where x: "x = (long, name, body)" by (cases x)
  have g: "good_box (long, name, body)" using Cons.prems x by simp
  let ?d = "pre @ print_box x @ print_boxes bs" and ?n = "header_len long + length body"
  have len: "length (print_box x) = ?n" using print_box_length [OF g] x by simp
  have small: "length ?d < 2 ^ 62" using Cons.prems by simp
  have h: "read_header (int (length ?d)) past (calm_at ?d (length pre))
      = (Some (int (8 + length body), name), calm_at ?d (length pre + header_len long))"
    using read_header_print [OF g] x by simp
  have w8: "wrap64 (past + 8) = past + 8" "wrap64 (past + int (8 + length body)) = past + int (8 + length body)"
    and fit: "past + 8 \<le> int (length ?d)" "past + int (8 + length body) \<le> int (length ?d)"
    using Cons.prems len small by (auto simp: is_int64_def header_len_def)
  note unfold = find_atom.simps [of want "int (length ?d)" past "calm_at ?d (length pre)"]
  show ?case
  proof (cases "name = want")
    case True
    have "find_atom want (int (length ?d)) past (calm_at ?d (length pre)) = (Some (int (length body)), calm_at ?d (length pre + header_len long))"
      using unfold h w8 fit True by simp
    moreover have "\<exists>hd. print_box x = hd @ body \<and> length hd = header_len long"
      using g by (auto simp: x print_box_def header_len_def good_box_def)
    then obtain hd where hd: "print_box x = hd @ body" "length hd = header_len long" by blast
    ultimately show ?thesis
      using True x by (intro exI [of _ "length pre + header_len long"]) (auto simp: x add.assoc)
  next
    case False
    have k: "seek_by (int (8 + length body) - 8) (calm_at ?d (length pre + header_len long)) = (True, calm_at ?d (length (pre @ print_box x)))"
      using seek_by_calm [of "length pre + header_len long" "length body" ?d] small len by (simp add: is_int64_def add.assoc)
    have "find_atom want (int (length ?d)) past (calm_at ?d (length pre))
        = find_atom want (int (length ?d)) (past + int (8 + length body)) (calm_at ?d (length (pre @ print_box x)))"
      using unfold h w8 fit False k by simp
    moreover have "past + int (8 + length body) \<le> int (length (pre @ print_box x))"
      using Cons.prems(4) len by (simp add: header_len_def)
    ultimately show ?thesis
      using Cons.IH [of "pre @ print_box x" "past + int (8 + length body)"] Cons.prems False x by simp
  qed
qed

lemma first_box_print: "first_box want (map (Some \<circ> snd) bs) = Some (first_named want bs)"
  by (induction bs) (auto simp: first_named_def)

text \<open>
  C17: The two walks over the boxes of a file agree with what was written, whichever mix of short
  and long headers it was written in.  In memory the first box of a name has the body it was
  given; over a reader \<open>FindAtom\<close> says how long that body is and leaves the reader where it
  begins, so that as many bytes read from there are the body.  Neither finds a name that is not
  there.
\<close>

theorem boxes_found:
  assumes "list_all good_box bs" and "length (print_boxes bs) < 2 ^ 62"
  shows "first_box want (atoms (print_boxes bs)) = Some (first_named want bs)
    \<and> fst (FindAtom (calm_at (print_boxes bs) 0) (int (length (print_boxes bs))) want) = map_option (int \<circ> length) (first_named want bs)
    \<and> (\<forall>body. first_named want bs = Some body \<longrightarrow>
        fst (read_n (length body) (snd (FindAtom (calm_at (print_boxes bs) 0) (int (length (print_boxes bs))) want))) = Some body)"
proof -
  let ?d = "print_boxes bs"
  obtain p where p: "find_atom want (int (length ?d)) 0 (calm_at ?d 0) = (map_option (int \<circ> length) (first_named want bs), calm_at ?d p)"
    "\<And>body. first_named want bs = Some body \<Longrightarrow> \<exists>post. ?d = take p ?d @ body @ post \<and> p \<le> length ?d"
    using find_atom_print [of bs "[]" 0 want] assms by auto
  have "fst (read_n (length body) (calm_at ?d p)) = Some body" if b: "first_named want bs = Some body" for body
  proof -
    obtain post where post: "?d = take p ?d @ body @ post" "p \<le> length ?d" using p(2) [OF b] by blast
    have "length (take p ?d) = p" using post(2) by simp
    then show ?thesis using read_n_calm [of body "length body" "take p ?d" post] post(1) by simp
  qed
  then show ?thesis using p(1) assms by (simp add: FindAtom_def atoms_print first_box_print)
qed

definition two_boxes :: "(bool \<times> bytes \<times> bytes) list" where
  "two_boxes = [(True, ''mdat'', ''film''), (False, ''moov'', ''shape'')]"

theorem boxes_found_witness:
  "first_box ''moov'' (atoms (print_boxes two_boxes)) = Some (Some ''shape'')
    \<and> fst (read_n (length ''shape'') (snd (FindAtom (calm_at (print_boxes two_boxes) 0) (int (length (print_boxes two_boxes))) ''moov''))) = Some ''shape''"
proof -
  have "list_all good_box two_boxes" "length (print_boxes two_boxes) < 2 ^ 62" by code_simp+
  moreover have "first_named ''moov'' two_boxes = Some ''shape''" by code_simp
  ultimately show ?thesis using boxes_found [of two_boxes "''moov''"] by auto
qed

section \<open>What can go wrong\<close>

text \<open>The bytes that only a length close to the largest integer begins with.\<close>

definition far :: bytes where
  "far = [CHR 0x7F, CHR 0xFF, CHR 0xFF, CHR 0xFF]"

definition tame_bytes :: "bytes \<Rightarrow> bool" where
  "tame_bytes b \<longleftrightarrow> \<not> sublist far b \<and> length b \<le> nat maxMoov"

lemma tame_part: "tame_bytes b \<Longrightarrow> sublist c b \<Longrightarrow> tame_bytes c"
  using sublist_length_le [of c b] by (auto simp: tame_bytes_def dest: sublist_order.order_trans)

lemma tame_drop: "tame_bytes b \<Longrightarrow> tame_bytes (drop i b)" and tame_take: "tame_bytes b \<Longrightarrow> tame_bytes (take i b)"
  by (auto elim!: tame_part intro: suffix_imp_sublist prefix_imp_sublist suffix_drop take_is_prefix)

lemma tame_slice: "tame_bytes b \<Longrightarrow> slice b i j = Some c \<Longrightarrow> tame_bytes c"
  by (auto simp: slice_def tame_drop tame_take split: if_splits)

lemma be_nat_append: "be_nat (a @ b) = be_nat a * 256 ^ length b + be_nat b"
  by (induction b rule: rev_induct) (simp_all add: be_nat_snoc be_nat_def [of "[]"] algebra_simps flip: append_assoc)

lemma be_nat_inject: "be_nat a = be_nat b \<Longrightarrow> length a = length b \<Longrightarrow> a = b"
proof (induction a arbitrary: b rule: rev_induct)
  case (snoc c a)
  obtain d b' where b: "b = b' @ [d]" using snoc.prems(2) by (cases b rule: rev_cases) auto
  have lt: "byte c < 256" "byte d < 256" by (simp_all add: byte_def)
  have e: "be_nat a * 256 + byte c = be_nat b' * 256 + byte d" using snoc.prems(1) b by (simp add: be_nat_snoc)
  have ab: "be_nat a = be_nat b'" using arg_cong [OF e, of "\<lambda>n. n div 256"] lt by simp
  then have "c = d" using e byte_inject by simp
  then show ?case using snoc.IH [OF ab] snoc.prems(2) b by simp
qed simp

text \<open>Eight bytes that read as almost the largest integer begin with them.\<close>

lemma far_length:
  assumes "length b = 8" "2 ^ 63 - 2 ^ 32 \<le> be_nat b" "be_nat b < 2 ^ 63"
  shows "take 4 b = far"
proof -
  have "be_nat b = be_nat (take 4 b) * 2 ^ 32 + be_nat (drop 4 b)"
    using be_nat_append [of "take 4 b" "drop 4 b"] assms(1) by simp
  moreover have "be_nat (drop 4 b) < 2 ^ 32" using be_nat_bound [of "drop 4 b"] assms(1) by simp
  ultimately have "be_nat (take 4 b) < 2 ^ 31" "2 ^ 31 - 2 < be_nat (take 4 b)" using assms(2,3) by simp_all
  then have "be_nat (take 4 b) = 2 ^ 31 - 1" by simp
  moreover have "be_nat far = 2 ^ 31 - 1" by code_simp
  ultimately show ?thesis using assms(1) by (intro be_nat_inject) (simp_all add: far_def)
qed

lemma to_int64_eq: "n < 2 ^ 64 \<Longrightarrow> to_int64 n = (if n < 2 ^ 63 then int n else int n - 2 ^ 64)"
proof -
  assume n: "n < 2 ^ 64"
  have "(int n + 2 ^ 63) mod 2 ^ 64 = int n + 2 ^ 63 - 2 ^ 64" if "\<not> n < 2 ^ 63"
    using that n by (subst minus_mod_self2 [symmetric], intro mod_pos_pos_trivial) simp_all
  then show ?thesis using to_int64_small [of n] by (auto simp: to_int64_def wrap64_def)
qed

lemma box_size_tame:
  assumes t: "tame_bytes buf" and b: "box_size buf i = Some (sz, header)" "header \<le> sz" and i: "i + 8 \<le> length buf"
  shows "is_int64 (int i + sz)"
proof -
  have n: "int i \<le> 2 ^ 25" using i t by (simp add: tame_bytes_def maxMoov_def)
  consider (short) "sz < 2 ^ 32 \<or> sz = int (length buf - i)" "header = 8" | (long) "i + 16 \<le> length buf" "sz = to_int64 (be_nat (take 8 (drop (i + 8) buf)))"
    using b(1) be_nat_bound [of "take 4 (drop i buf)"] i
    by (auto simp: box_size_def Let_def split: if_splits)
  then show ?thesis
  proof cases
    case short
    then show ?thesis using n b t i by (auto simp: is_int64_def tame_bytes_def maxMoov_def)
  next
    case long
    let ?x = "take 8 (drop (i + 8) buf)"
    have l: "length ?x = 8" using long(1) by simp
    then have x: "be_nat ?x < 2 ^ 64" using be_nat_bound [of ?x] by simp
    have ge: "8 \<le> sz" using box_size_ge [OF b] by simp
    have v: "be_nat ?x < 2 ^ 63 \<and> sz = int (be_nat ?x)"
      using ge x long(2) to_int64_eq [OF x] by (auto split: if_splits)
    have "be_nat ?x < 2 ^ 63 - 2 ^ 32"
    proof (rule ccontr)
      assume "\<not> be_nat ?x < 2 ^ 63 - 2 ^ 32"
      then have "take 4 ?x = far" using far_length [OF l] v by simp
      then have "take 4 (drop (i + 8) buf) = far" by (simp add: min_def)
      then have "sublist far buf" by (metis sublist_drop sublist_take sublist_order.order_trans)
      then show False using t by (simp add: tame_bytes_def)
    qed
    then show ?thesis using v n by (simp add: is_int64_def)
  qed
qed

lemma atoms_from_tame:
  assumes t: "tame_bytes buf"
  shows "None \<notin> set (atoms_from buf i) \<and> (\<forall>name body. Some (name, body) \<in> set (atoms_from buf i) \<longrightarrow> tame_bytes body)"
  using t
proof (induction buf i rule: atoms_from.induct)
  case (1 buf i)
  show ?case
  proof (cases "length buf < i + 8")
    case True
    then show ?thesis by (simp add: atoms_from.simps)
  next
    case ge: False
    show ?thesis
    proof (cases "box_size buf i")
      case None
      then show ?thesis by (simp add: atoms_from.simps)
    next
      case (Some x)
      obtain sz header where b: "box_size buf i = Some (sz, header)" using Some by (cases x) auto
      show ?thesis
      proof (cases "sz < header \<or> int (length buf) < wrap64 (int i + sz)")
        case True
        then show ?thesis using b by (simp add: atoms_from.simps)
      next
        case False
        then have le: "header \<le> sz" "wrap64 (int i + sz) \<le> int (length buf)" by auto
        have w: "wrap64 (int i + sz) = int i + sz" using box_size_tame [OF 1(2) b le(1)] ge by simp
        have "0 \<le> int i + header" using box_size_ge [OF b le(1)] by simp
        then obtain body where body: "slice buf (int i + header) (wrap64 (int i + sz)) = Some body"
          using le w by (simp add: slice_def)
        have "None \<notin> set (atoms_from buf (i + nat sz)) \<and>
            (\<forall>name body. Some (name, body) \<in> set (atoms_from buf (i + nat sz)) \<longrightarrow> tame_bytes body)"
          by (rule 1(1) [OF ge b refl False body 1(2)])
        then show ?thesis
          using ge b False body tame_slice [OF 1(2) body] by (subst atoms_from.simps, subst atoms_from.simps) auto
      qed
    qed
  qed
qed

definition tame_walk :: "(bytes \<times> bytes) option list \<Rightarrow> bool" where
  "tame_walk xs \<longleftrightarrow> None \<notin> set xs \<and> (\<forall>name body. Some (name, body) \<in> set xs \<longrightarrow> tame_bytes body)"

lemma tame_walk_simps [simp]:
  "tame_walk []" "\<not> tame_walk (None # xs)" "tame_walk (Some (name, body) # xs) \<longleftrightarrow> tame_bytes body \<and> tame_walk xs"
  by (auto simp: tame_walk_def)

lemma tame_atoms [safe]: "tame_bytes buf \<Longrightarrow> tame_walk (atoms buf)"
  using atoms_from_tame [of buf 0] by (simp add: tame_walk_def atoms_def)

lemma first_box_tame: "tame_walk xs \<Longrightarrow> first_box want xs \<noteq> None \<and> (\<forall>b. first_box want xs = Some (Some b) \<longrightarrow> tame_bytes b)"
  by (induction want xs rule: first_box.induct) auto

lemma box_tame: "tame_bytes buf \<Longrightarrow> box buf path \<noteq> None \<and> (\<forall>b. box buf path = Some (Some b) \<longrightarrow> tame_bytes b)"
proof (induction buf path rule: box.induct)
  case (2 buf want path)
  have w: "first_box want (atoms buf) \<noteq> None \<and> (\<forall>b. first_box want (atoms buf) = Some (Some b) \<longrightarrow> tame_bytes b)"
    by (rule first_box_tame [OF tame_atoms [OF 2(2)]])
  then obtain r where r: "first_box want (atoms buf) = Some r" by blast
  show ?case using 2(1) [of r] w r by (cases r) auto
qed simp

lemma box_safe [safe]: "tame_bytes buf \<Longrightarrow> box buf path \<noteq> None"
  using box_tame by blast

lemma box_body: "box buf path = Some (Some b) \<Longrightarrow> tame_bytes buf \<Longrightarrow> tame_bytes b"
  using box_tame by blast

section \<open>The reader of a movie does not panic\<close>

declare box.simps [simp del]

lemma prod_safe [safe]: "(\<And>x y. p = (x, y) \<Longrightarrow> f x y \<noteq> None) \<Longrightarrow> (case p of (x, y) \<Rightarrow> f x y) \<noteq> None"
  by (cases p) auto

lemma header_fields_safe [safe]: "header_fields b \<noteq> None"
  unfolding header_fields_def by (intro safe) auto

lemma movieHeader_safe [safe]: "movieHeader b \<noteq> None"
  unfolding movieHeader_def by (intro safe)

lemma handler_safe [safe]: "tame_bytes b \<Longrightarrow> handler b \<noteq> None"
  unfolding handler_def by (intro safe)

lemma trackOrientation_safe [safe]: "trackOrientation b \<noteq> None"
  unfolding trackOrientation_def Let_def by (intro safe) auto

lemma colrBox_safe [safe]: "colrBox b m \<noteq> None"
  unfolding colrBox_def by (intro safe) auto

lemma conf_of_safe [safe]: "conf_of name b \<noteq> None"
  unfolding conf_of_def by (intro safe) auto

lemma picture_box_safe [safe]: "picture_box name b m \<noteq> None"
  unfolding picture_box_def by (intro safe)

lemma picture_boxes_safe: "tame_walk xs \<Longrightarrow> picture_boxes xs m \<noteq> None"
proof (induction xs m rule: picture_boxes.induct)
  case (3 name body xs m)
  show ?case unfolding picture_boxes.simps by (intro safe) (use 3 in auto)
qed auto

lemma pictureConf_safe [safe]: "tame_bytes b \<Longrightarrow> pictureConf b m \<noteq> None"
  unfolding pictureConf_def by (rule picture_boxes_safe [OF tame_atoms])

lemma sum_stts_safe [safe]: "sum_stts b i n acc \<noteq> None"
proof (induction b i n acc rule: sum_stts.induct)
  case (1 b i n acc)
  show ?case by (subst sum_stts.simps) (intro safe; use 1 in auto)
qed

lemma frameRate_safe [safe]: "tame_bytes b \<Longrightarrow> frameRate b \<noteq> None"
  unfolding frameRate_def by (intro safe) auto

lemma video_entry_safe [safe]: "tame_bytes trak \<Longrightarrow> tame_bytes entry \<Longrightarrow> video_entry trak format entry m \<noteq> None"
  unfolding video_entry_def Let_def by (intro safe) (auto intro: tame_drop)

lemma first_atom_tame: "atoms b = Some (name, body) # xs \<Longrightarrow> tame_bytes b \<Longrightarrow> tame_bytes body"
  and first_atom_good: "atoms b = None # xs \<Longrightarrow> tame_bytes b \<Longrightarrow> False"
  using tame_atoms [of b] by auto

lemma entries_safe [safe]:
  assumes "tame_bytes b" "m \<noteq> None" "\<And>name body. tame_bytes body \<Longrightarrow> f name body \<noteq> None"
  shows "(case atoms b of [] \<Rightarrow> m | None # _ \<Rightarrow> None | Some (name, body) # _ \<Rightarrow> f name body) \<noteq> None"
  using assms first_atom_tame [of b] first_atom_good [of b] by (auto split: list.splits option.splits)

lemma videoTrack_safe [safe]: "tame_bytes trak \<Longrightarrow> videoTrack trak m \<noteq> None"
  unfolding videoTrack_def by (intro safe) (auto dest: box_body intro: tame_drop)

lemma ac3_safe [safe]: "ac3Channels b \<noteq> None" "eac3Channels b \<noteq> None"
  unfolding ac3Channels_def eac3Channels_def by (intro safe; simp)+

lemma descriptor_safe [safe]: "descriptor b \<noteq> None"
  unfolding descriptor_def by (intro safe) (auto simp: slice_def split: prod.splits)

lemma pair_safe [safe]: "m \<noteq> None \<Longrightarrow> (\<And>x y. m = Some (x, y) \<Longrightarrow> f x y \<noteq> None) \<Longrightarrow> m \<bind> (\<lambda>(x, y). f x y) \<noteq> None"
  by (cases m) auto

lemma after_flags_safe [safe]: "3 \<le> length body \<Longrightarrow> after_flags body \<noteq> None"
  unfolding after_flags_def Let_def by (intro safe) auto

lemma after_flags_le: "after_flags body = Some (Some i) \<Longrightarrow> i \<le> length body"
  by (auto simp: after_flags_def Let_def Option.bind_eq_Some_conv split: if_splits)

lemma mp4aCodec_safe [safe]: "tame_bytes b \<Longrightarrow> mp4aCodec b \<noteq> None"
  unfolding mp4aCodec_def by (intro safe) (auto dest: after_flags_le)

lemma sound_layout_safe [safe]: "sound_layout beyond entry \<noteq> None"
  unfolding sound_layout_def by (intro safe) auto

lemma sound_codec_safe [safe]: "tame_bytes rest \<Longrightarrow> sound_codec format rest channels \<noteq> None"
  unfolding sound_codec_def Let_def by (intro safe) auto

lemma tame_rest: "tame_bytes b \<Longrightarrow> (if i < length b then slice_from b i else Some []) = Some rest \<Longrightarrow> tame_bytes rest"
  using tame_drop [of b i] tame_drop [of b "length b"] by (auto split: if_splits)

lemma sound_entry_safe [safe]: "tame_bytes entry \<Longrightarrow> sound_entry beyond format entry m \<noteq> None"
  unfolding sound_entry_def by (intro safe) (auto intro: tame_rest)

lemma soundTrack_safe [safe]: "tame_bytes trak \<Longrightarrow> soundTrack beyond trak m \<noteq> None"
  unfolding soundTrack_def by (intro safe) (auto dest: box_body intro: tame_drop)

lemma movie_tracks_safe: "tame_walk xs \<Longrightarrow> movie_tracks beyond xs picture sound m \<noteq> None"
proof (induction beyond xs picture sound m rule: movie_tracks.induct)
  case (3 beyond name body xs picture sound m)
  show ?case unfolding movie_tracks.simps by (intro safe) (use 3 in auto)
qed auto

lemma readMoov_length: "readMoov s sz = (Some moov, s') \<Longrightarrow> length moov \<le> nat maxMoov"
  by (auto simp: readMoov_def findMoov_def read_n_def split: prod.splits option.splits if_splits bool.splits)

lemma go_quot_safe [safe]: "b \<noteq> 0 \<Longrightarrow> go_quot a b \<noteq> None"
  by (simp add: go_quot_def)

text \<open>
  C18: Reading a video's shape out of its container does not panic, whichever reads fail and
  whatever the file holds, two kinds of file excepted: one whose movie box has the four bytes
  7F FF FF FF in it, anywhere (a length that begins with them is what is feared), and one whose
  duration works out at 0 milliseconds, because it is shorter than one or because the 64-bit
  product of duration and 1000 wraps to less than the timescale.  For every other no index and no
  slice is out of range and nothing is divided by zero, through the boxes, the sample entries, the
  codec configurations and the descriptors.
\<close>

theorem probe_no_panic:
  assumes "readMoov s sz = (Some moov, s')" and "\<not> sublist far moov"
    and "\<forall>header taken. box moov [''mvhd''] = Some (Some header) \<longrightarrow> movieHeader header \<noteq> Some (Some (0, taken))"
  shows "fst (probeVideo beyond s sz) \<noteq> None"
proof -
  have t: "tame_bytes moov" using assms(2) readMoov_length [OF assms(1)] by (simp add: tame_bytes_def)
  have "probe_moov beyond sz moov \<noteq> None"
    unfolding probe_moov_def
    by (intro safe movie_tracks_safe tame_atoms t) (use assms(3) in auto)
  then show ?thesis by (simp add: probeVideo_def assms(1))
qed

end
