(* ===== verification/Mp4Movie.thy ===== *)
theory Mp4Movie
  imports Mp4Boxes
begin

text \<open>
  A short movie, box by box, and what the reader of a video makes of it: the row it fills in, and
  the two movies it panics on.
\<close>

section \<open>A movie\<close>

definition zeroes :: "nat \<Rightarrow> bytes" where
  "zeroes n = replicate n (CHR 0x00)"

definition plain_box :: "bytes \<Rightarrow> bytes \<Rightarrow> bytes" where
  "plain_box name body = print_box (False, name, body)"

definition sample_header :: "nat \<Rightarrow> nat \<Rightarrow> bytes" where
  "sample_header timescale duration = zeroes 12 @ be_bytes 4 timescale @ be_bytes 4 duration"

definition sample_track :: bytes where
  "sample_track = plain_box ''tkhd'' (zeroes 76) @
     plain_box ''mdia'' (plain_box ''mdhd'' (sample_header 1000 2000) @ plain_box ''hdlr'' (zeroes 8 @ ''vide'') @
       plain_box ''minf'' (plain_box ''stbl'' (
         plain_box ''stsd'' (zeroes 8 @ plain_box ''avc1'' (zeroes 24 @ be_bytes 2 640 @ be_bytes 2 480)) @
         plain_box ''stts'' (zeroes 4 @ be_bytes 4 1 @ be_bytes 4 50 @ be_bytes 4 40))))"

definition sample_moov :: "nat \<Rightarrow> bytes \<Rightarrow> bytes" where
  "sample_moov duration rest = plain_box ''mvhd'' (sample_header 90000 duration) @ plain_box ''trak'' sample_track @ rest"

definition sample_movie :: "nat \<Rightarrow> bytes \<Rightarrow> bytes" where
  "sample_movie duration rest = plain_box ''ftyp'' ''mp42'' @ plain_box ''moov'' (sample_moov duration rest)"

definition probed :: "bytes \<Rightarrow> media option go" where
  "probed file = fst (probeVideo (\<lambda>_. 0) (calm_at file 0) (int (length file)))"

definition far_box :: bytes where
  "far_box = be_bytes 4 1 @ ''free'' @ be_bytes 8 (2 ^ 63 - 1)"

text \<open>The steps of the runs.\<close>

lemma sample_found:
  "fst (readMoov (calm_at (sample_movie 180000 []) 0) (int (length (sample_movie 180000 [])))) = Some (sample_moov 180000 [])"
  by code_simp

lemma short_found:
  "fst (readMoov (calm_at (sample_movie 89 []) 0) (int (length (sample_movie 89 [])))) = Some (sample_moov 89 [])"
  by code_simp

lemma far_found:
  "fst (readMoov (calm_at (sample_movie 180000 far_box) 0) (int (length (sample_movie 180000 far_box)))) = Some (sample_moov 180000 far_box)"
  by code_simp

lemma sample_atoms:
  "atoms (sample_moov 180000 []) = [Some (''mvhd'', sample_header 90000 180000), Some (''trak'', sample_track)]"
  by code_simp

lemma short_atoms:
  "atoms (sample_moov 89 []) = [Some (''mvhd'', sample_header 90000 89), Some (''trak'', sample_track)]"
  by code_simp

lemma far_atoms:
  "atoms (sample_moov 180000 far_box) = [Some (''mvhd'', sample_header 90000 180000), Some (''trak'', sample_track), None]"
  by code_simp

lemma sample_reads:
  "movieHeader (sample_header 90000 180000) = Some (Some (2000, None))"
  "movieHeader (sample_header 90000 89) = Some (Some (0, None))"
  "handler sample_track = Some ''vide''"
  by code_simp+

lemma sample_mvhd:
  "box (sample_moov 180000 []) [''mvhd''] = Some (Some (sample_header 90000 180000))"
  "box (sample_moov 89 []) [''mvhd''] = Some (Some (sample_header 90000 89))"
  "box (sample_moov 180000 far_box) [''mvhd''] = Some (Some (sample_header 90000 180000))"
  by (simp_all add: box.simps sample_atoms short_atoms far_atoms)

definition sample_row :: "int \<Rightarrow> media" where
  "sample_row rate = no_media\<lparr>me_kind := ''video'', me_duration := 2000, me_bitrate := rate\<rparr>"

lemma sample_picture:
  "videoTrack sample_track (sample_row 1152)
    = Some (Some ((sample_row 1152)\<lparr>me_codec := ''h264'', me_width := 640, me_height := 480, me_frame_rate := 25000\<rparr>))"
  by code_simp

lemma probed_eq:
  "fst (readMoov (calm_at file 0) (int (length file))) = Some moov \<Longrightarrow> probed file = probe_moov (\<lambda>_. 0) (int (length file)) moov"
  by (cases "readMoov (calm_at file 0) (int (length file))") (simp add: probed_def probeVideo_def)

theorem probe_no_panic_witness:
  "probed (sample_movie 180000 []) \<noteq> None"
proof -
  let ?s = "calm_at (sample_movie 180000 []) 0" and ?n = "int (length (sample_movie 180000 []))" and ?moov = "sample_moov 180000 []"
  have m: "readMoov ?s ?n = (Some ?moov, snd (readMoov ?s ?n))" using sample_found by (simp add: prod_eq_iff)
  have f: "\<not> sublist far ?moov" by code_simp
  show ?thesis
    unfolding probed_def by (rule probe_no_panic [OF m f]) (simp add: sample_mvhd sample_reads)
qed

text \<open>
  A movie of two seconds is read: the size of the picture, its codec and its rate.  The two
  exceptions are a movie of 89 ticks of a ninety-thousandth, divided by its length of zero
  milliseconds, and a box after the track that claims 2^63 - 1 bytes, whose end wraps to before
  its beginning.
\<close>

lemma sample_bits: "length (sample_movie 180000 []) = 288" "go_quot (wrap64 (wrap64 (288 * 8) * 1000)) 2000 = Some 1152"
  by code_simp+

lemma sample_probed:
  "probed (sample_movie 180000 [])
    = Some (Some ((sample_row 1152)\<lparr>me_codec := ''h264'', me_width := 640, me_height := 480, me_frame_rate := 25000\<rparr>))"
proof -
  have "probe_moov (\<lambda>_. 0) 288 (sample_moov 180000 []) = movie_tracks (\<lambda>_. 0) (atoms (sample_moov 180000 [])) False False (sample_row 1152)"
    using sample_bits(2) by (simp add: probe_moov_def sample_mvhd sample_reads sample_row_def no_media_def)
  then show ?thesis
    by (simp add: probed_eq [OF sample_found] sample_bits(1) sample_atoms sample_reads sample_picture)
qed

theorem probe_panics:
  "probed (sample_movie 89 []) = None \<and> probed (sample_movie 180000 far_box) = None"
proof
  show "probed (sample_movie 89 []) = None"
    by (simp add: probed_eq [OF short_found] probe_moov_def sample_mvhd sample_reads go_quot_def)
  have n: "length (sample_movie 180000 far_box) = 304" by code_simp
  have v: "videoTrack sample_track (sample_row 1216) \<noteq> Some None" by code_simp
  have "probed (sample_movie 180000 far_box) = movie_tracks (\<lambda>_. 0) (atoms (sample_moov 180000 far_box)) False False (sample_row 1216)"
    by (simp add: probed_eq [OF far_found] probe_moov_def sample_mvhd sample_reads go_quot_def n sample_row_def no_media_def is_int64_def)
  then show "probed (sample_movie 180000 far_box) = None"
    using v by (simp add: far_atoms sample_reads split: bind_splits option.splits)
qed

end
