(* ===== verification/Keyframes.thy ===== *)
theory Keyframes
  imports Mp4Movie
begin

text \<open>
  \<^verbatim>\<open>internal/media/keyframes.go\<close>: where the keyframes of an MP4 are, out of the sample tables of its
  picture track.  As in the reader of the movie an answer inside \<open>Some\<close> is the code's own and
  \<open>None\<close> is a panic.
\<close>

section \<open>The tables\<close>

text \<open>\<open>Index\<close>; times are in nanoseconds.  \<open>ki_frame\<close> stays zero for an MP4.\<close>

record key_index =
  ki_keys :: "int list"
  ki_duration :: int
  ki_places :: "nat list"
  ki_samples :: nat
  ki_frame :: int

text \<open>A table of counts and values, and the table of keyframes.\<close>

type_synonym run = "nat \<times> int"

fun read_runs :: "bytes \<Rightarrow> bool \<Rightarrow> nat \<Rightarrow> nat \<Rightarrow> run list option go" where
  "read_runs b as_signed 0 i = Some (Some [])"
| "read_runs b as_signed (Suc n) i =
     (if length b < 8 + i * 8 + 8 then Some None
      else do {
        v \<leftarrow> be_at b (8 + i * 8 + 4) 4; c \<leftarrow> be_at b (8 + i * 8) 4;
        rest \<leftarrow> read_runs b as_signed n (i + 1);
        Some (map_option ((#) (c, if as_signed then to_int32 v else int v)) rest) })"

definition runs :: "bytes \<Rightarrow> bytes \<Rightarrow> bool \<Rightarrow> run list option go" where
  "runs stbl name as_signed = do {
     t \<leftarrow> box stbl [name];
     case t of None \<Rightarrow> Some None | Some b \<Rightarrow>
       if length b < 8 then Some None else do { n \<leftarrow> be_at b 4 4; read_runs b as_signed n 0 } }"

fun read_sync :: "bytes \<Rightarrow> nat \<Rightarrow> nat \<Rightarrow> nat list option go" where
  "read_sync b 0 i = Some (Some [])"
| "read_sync b (Suc n) i =
     (if length b < 8 + i * 4 + 4 then Some None
      else do {
        v \<leftarrow> be_at b (8 + i * 4) 4;
        rest \<leftarrow> read_sync b n (i + 1);
        Some (map_option ((#) v) rest) })"

text \<open>No table, and one with no entry, are both the list of none: the code tells a \<open>nil\<close> slice by it.\<close>

definition sync_table :: "bytes \<Rightarrow> nat list option go" where
  "sync_table stbl = do {
     t \<leftarrow> box stbl [''stss''];
     case t of None \<Rightarrow> Some (Some []) | Some stss \<Rightarrow>
       if length stss < 8 then Some (Some []) else do { n \<leftarrow> be_at stss 4 4; read_sync stss n 0 } }"

text \<open>\<open>editShift\<close>: the first entry of the edit list with a time of its own.\<close>

fun edit_time :: "bytes \<Rightarrow> nat \<Rightarrow> nat \<Rightarrow> int go" where
  "edit_time elst 0 i = Some 0"
| "edit_time elst (Suc n) i = do {
     v \<leftarrow> ix elst 0;
     let width = (if v = 1 then 20 else 12); at = 8 + i * width in
     if length elst < at + width then Some 0
     else do {
       t \<leftarrow> (if v = 1 then map_option to_int64 (be_at elst (at + 8) 8) else map_option to_int32 (be_at elst (at + 4) 4));
       if 0 \<le> t then Some t else edit_time elst n (i + 1) } }"

definition editShift :: "bytes \<Rightarrow> int go" where
  "editShift trak = do {
     t \<leftarrow> box trak [''edts'', ''elst''];
     case t of None \<Rightarrow> Some 0 | Some elst \<Rightarrow>
       if length elst < 8 then Some 0 else do { n \<leftarrow> be_at elst 4 4; edit_time elst n 0 } }"

section \<open>The walk over the samples\<close>

definition to_time :: "nat \<Rightarrow> int \<Rightarrow> int go" where
  "to_time timescale ts = go_quot (wrap64 (ts * 10 ^ 9)) (int timescale)"

text \<open>The next offset: runs of none are stepped over, and after the last run there is none.\<close>

function next_run :: "run list \<Rightarrow> nat \<Rightarrow> nat \<Rightarrow> nat \<times> nat" where
  "next_run ctts ci left =
     (if left = 0 \<and> ci < length ctts then next_run ctts (ci + 1) (fst (ctts ! ci)) else (ci, left))"
  by pat_completeness auto

termination by (relation "measure (\<lambda>(ctts, ci, left). length ctts - ci)") auto

declare next_run.simps [simp del]

definition next_offset :: "run list \<Rightarrow> nat \<times> nat \<Rightarrow> (int \<times> nat \<times> nat) go" where
  "next_offset ctts = (\<lambda>(ci, left).
     case next_run ctts ci left of (ci, left) \<Rightarrow>
       if left = 0 then Some (0, ci, left)
       else if 0 < ci \<and> ci \<le> length ctts then Some (snd (ctts ! (ci - 1)), ci, left - 1) else None)"

record key_walk =
  kw_keys :: "int list"
  kw_places :: "nat list"
  kw_dts :: int
  kw_sample :: nat
  kw_offsets :: "nat \<times> nat"
  kw_next :: nat

definition is_key :: "nat list \<Rightarrow> nat \<Rightarrow> nat \<Rightarrow> bool" where
  "is_key sync k sample \<longleftrightarrow> sync = [] \<or> (k < length sync \<and> sync ! k = sample)"

text \<open>One sample.  Its number is an \<open>uint32\<close> and the times are \<open>int64\<close>; both wrap.\<close>

definition walk_sample :: "nat \<Rightarrow> int \<Rightarrow> run list \<Rightarrow> nat list \<Rightarrow> int \<Rightarrow> key_walk \<Rightarrow> key_walk go" where
  "walk_sample timescale shift ctts sync delta w = do {
     (off, offsets) \<leftarrow> next_offset ctts (kw_offsets w);
     w \<leftarrow> (if is_key sync (kw_next w) (kw_sample w) then do {
            t \<leftarrow> to_time timescale (wrap64 (wrap64 (kw_dts w + off) - shift));
            Some (w\<lparr>kw_keys := kw_keys w @ [max 0 t], kw_places := kw_places w @ [(kw_sample w + 2 ^ 32 - 1) mod 2 ^ 32],
                    kw_next := kw_next w + 1\<rparr>) }
          else Some w);
     Some (w\<lparr>kw_dts := wrap64 (kw_dts w + delta), kw_sample := (kw_sample w + 1) mod 2 ^ 32, kw_offsets := offsets\<rparr>) }"

fun walk_run :: "nat \<Rightarrow> int \<Rightarrow> run list \<Rightarrow> nat list \<Rightarrow> int \<Rightarrow> nat \<Rightarrow> key_walk \<Rightarrow> key_walk go" where
  "walk_run timescale shift ctts sync delta 0 w = Some w"
| "walk_run timescale shift ctts sync delta (Suc n) w =
     walk_sample timescale shift ctts sync delta w \<bind> walk_run timescale shift ctts sync delta n"

fun walk_runs :: "nat \<Rightarrow> int \<Rightarrow> run list \<Rightarrow> nat list \<Rightarrow> run list \<Rightarrow> key_walk \<Rightarrow> key_walk go" where
  "walk_runs timescale shift ctts sync [] w = Some w"
| "walk_runs timescale shift ctts sync ((n, delta) # stts) w =
     walk_run timescale shift ctts sync delta n w \<bind> walk_runs timescale shift ctts sync stts"

definition walk_start :: key_walk where
  "walk_start = \<lparr>kw_keys = [], kw_places = [], kw_dts = 0, kw_sample = 1, kw_offsets = (0, 0), kw_next = 0\<rparr>"

text \<open>The index out of the tables, with the track's unit and duration; none is \<open>errNoIndex\<close>.\<close>

definition table_index :: "nat \<Rightarrow> nat \<Rightarrow> int \<Rightarrow> run list \<Rightarrow> run list \<Rightarrow> nat list \<Rightarrow> key_index option go" where
  "table_index timescale duration shift stts ctts sync = do {
     w \<leftarrow> walk_runs timescale shift ctts sync stts walk_start;
     if kw_keys w = [] \<or> \<not> sorted (kw_keys w) then Some None
     else do {
       d \<leftarrow> to_time timescale (wrap64 (to_int64 duration - shift));
       Some (Some \<lparr>ki_keys = kw_keys w, ki_duration = d, ki_places = kw_places w,
                   ki_samples = (kw_sample w + 2 ^ 32 - 1) mod 2 ^ 32, ki_frame = 0\<rparr>) } }"

section \<open>The track and the movie\<close>

definition track_clock :: "bytes \<Rightarrow> (nat \<times> nat) option go" where
  "track_clock mdhd =
     (if length mdhd < 20 then Some None
      else do {
        v \<leftarrow> ix mdhd 0;
        if v = 1 then
          if length mdhd < 32 then Some None
          else do { t \<leftarrow> be_at mdhd 20 4; d \<leftarrow> be_at mdhd 24 8; Some (Some (t, d)) }
        else do { t \<leftarrow> be_at mdhd 12 4; d \<leftarrow> be_at mdhd 16 4; Some (Some (t, d)) } })"

definition stbl_index :: "bytes \<Rightarrow> bytes \<Rightarrow> nat \<Rightarrow> nat \<Rightarrow> key_index option go" where
  "stbl_index trak stbl timescale duration = do {
     s \<leftarrow> runs stbl ''stts'' False;
     case s of None \<Rightarrow> Some None | Some stts \<Rightarrow> do {
       c \<leftarrow> runs stbl ''ctts'' True;
       k \<leftarrow> sync_table stbl;
       case k of None \<Rightarrow> Some None | Some sync \<Rightarrow> do {
         shift \<leftarrow> editShift trak;
         table_index timescale duration shift stts (case c of None \<Rightarrow> [] | Some ctts \<Rightarrow> ctts) sync } } }"

definition trackKeyframes :: "bytes \<Rightarrow> key_index option go" where
  "trackKeyframes trak = do {
     h \<leftarrow> box trak [''mdia'', ''mdhd''];
     case h of None \<Rightarrow> Some None | Some mdhd \<Rightarrow> do {
       f \<leftarrow> track_clock mdhd;
       case f of None \<Rightarrow> Some None | Some (timescale, duration) \<Rightarrow>
         if timescale = 0 then Some None
         else do {
           t \<leftarrow> box trak [''mdia'', ''minf'', ''stbl''];
           case t of None \<Rightarrow> Some None | Some stbl \<Rightarrow> stbl_index trak stbl timescale duration } } }"

fun movie_keyframes :: "(bytes \<times> bytes) option list \<Rightarrow> key_index option go" where
  "movie_keyframes [] = Some None"
| "movie_keyframes (None # xs) = None"
| "movie_keyframes (Some (name, body) # xs) =
     (if name \<noteq> ''trak'' then movie_keyframes xs
      else do { h \<leftarrow> handler body; if h = ''vide'' then trackKeyframes body else movie_keyframes xs })"

definition mp4Keyframes :: "source \<Rightarrow> int \<Rightarrow> key_index option go \<times> source" where
  "mp4Keyframes s sz = (case readMoov s sz of
     (None, s') \<Rightarrow> (Some None, s') | (Some moov, s') \<Rightarrow> (movie_keyframes (atoms moov), s'))"

section \<open>The tables, sample by sample\<close>

text \<open>A table written out: one value for each sample it speaks of.\<close>

definition expand :: "run list \<Rightarrow> int list" where
  "expand rs = concat (map (\<lambda>(n, v). replicate n v) rs)"

lemma expand_simps [simp]: "expand [] = []" "expand ((n, v) # rs) = replicate n v @ expand rs"
  by (simp_all add: expand_def)

text \<open>What is left of a table where the cursor \<open>(ci, left)\<close> stands.\<close>

definition cursor_at :: "run list \<Rightarrow> int list \<Rightarrow> nat \<times> nat \<Rightarrow> bool" where
  "cursor_at ctts rest c \<longleftrightarrow> (case c of (ci, left) \<Rightarrow>
     ci \<le> length ctts \<and> (0 < left \<longrightarrow> 0 < ci) \<and> rest = replicate left (snd (ctts ! (ci - 1))) @ expand (drop ci ctts))"

lemma next_run_at:
  "cursor_at ctts rest (ci, left) \<Longrightarrow>
   case next_run ctts ci left of (ci', left') \<Rightarrow> cursor_at ctts rest (ci', left') \<and> (left' = 0 \<longrightarrow> rest = [])"
proof (induction ctts ci left rule: next_run.induct)
  case (1 ctts ci left)
  show ?case
  proof (cases "left = 0 \<and> ci < length ctts")
    case True
    then have "expand (drop ci ctts) = replicate (fst (ctts ! ci)) (snd (ctts ! ci)) @ expand (drop (Suc ci) ctts)"
      using Cons_nth_drop_Suc [of ci ctts, symmetric] by (cases "ctts ! ci") simp
    then have "cursor_at ctts rest (ci + 1, fst (ctts ! ci))"
      using "1.prems" True by (simp add: cursor_at_def)
    then show ?thesis using "1.IH" [OF True] True by (subst next_run.simps) simp
  next
    case False
    then show ?thesis using "1.prems" by (subst next_run.simps) (auto simp: cursor_at_def)
  qed
qed

lemma next_offset_at:
  assumes "cursor_at ctts rest c"
  shows "\<exists>c'. next_offset ctts c = Some (case rest of [] \<Rightarrow> 0 | x # _ \<Rightarrow> x, c') \<and> cursor_at ctts (tl rest) c'"
proof (cases c)
  case (Pair ci left)
  obtain ci' left' where n: "next_run ctts ci left = (ci', left')" by fastforce
  have a: "cursor_at ctts rest (ci', left')" "left' = 0 \<Longrightarrow> rest = []"
    using next_run_at [of ctts rest ci left] assms n by (simp_all add: Pair)
  show ?thesis
  proof (cases left')
    case 0
    then show ?thesis using a n by (auto simp: next_offset_def Pair cursor_at_def)
  next
    case (Suc k)
    then show ?thesis using a(1) n by (auto simp: next_offset_def Pair cursor_at_def)
  qed
qed

lemma cursor_start: "cursor_at ctts (expand ctts) (0, 0)"
  by (simp add: cursor_at_def)

text \<open>The walk over the runs is a walk over the samples.\<close>

fun walk_list :: "nat \<Rightarrow> int \<Rightarrow> run list \<Rightarrow> nat list \<Rightarrow> int list \<Rightarrow> key_walk \<Rightarrow> key_walk go" where
  "walk_list timescale shift ctts sync [] w = Some w"
| "walk_list timescale shift ctts sync (d # ds) w =
     walk_sample timescale shift ctts sync d w \<bind> walk_list timescale shift ctts sync ds"

lemma walk_list_append:
  "walk_list timescale shift ctts sync (ds @ es) w =
     walk_list timescale shift ctts sync ds w \<bind> walk_list timescale shift ctts sync es"
proof (induction ds arbitrary: w)
  case (Cons d ds)
  have "walk_list timescale shift ctts sync (ds @ es) =
      (\<lambda>w. walk_list timescale shift ctts sync ds w \<bind> walk_list timescale shift ctts sync es)"
    using Cons by blast
  then show ?case by simp
qed simp

lemma walk_run_list: "walk_run timescale shift ctts sync d n w = walk_list timescale shift ctts sync (replicate n d) w"
proof (induction n arbitrary: w)
  case (Suc n)
  have "walk_run timescale shift ctts sync d n = walk_list timescale shift ctts sync (replicate n d)"
    using Suc by blast
  then show ?case by simp
qed simp

lemma walk_runs_list: "walk_runs timescale shift ctts sync stts w = walk_list timescale shift ctts sync (expand stts) w"
proof (induction stts arbitrary: w)
  case (Cons r stts)
  have "walk_runs timescale shift ctts sync stts = walk_list timescale shift ctts sync (expand stts)"
    using Cons by blast
  then show ?case by (cases r) (simp add: walk_run_list walk_list_append)
qed simp

section \<open>The index they stand for\<close>

text \<open>
  The reference: a sample is a keyframe when the table of keyframes names its number, or there is
  none; it is shown at the sum of the lengths before it, moved by its offset and by the edit list.
\<close>

definition nanoseconds :: "nat \<Rightarrow> int \<Rightarrow> int" where
  "nanoseconds timescale ts =
     (let t = wrap64 (ts * 10 ^ 9) in wrap64 (sgn t * (\<bar>t\<bar> div int timescale)))"

definition key_sample :: "nat list \<Rightarrow> nat \<Rightarrow> bool" where
  "key_sample sync k \<longleftrightarrow> sync = [] \<or> Suc k \<in> set sync"

definition shown_at :: "nat \<Rightarrow> int \<Rightarrow> run list \<Rightarrow> run list \<Rightarrow> nat \<Rightarrow> int" where
  "shown_at timescale shift stts ctts k =
     max 0 (nanoseconds timescale (wrap64 (sum_list (take k (expand stts)) +
       (if k < length (expand ctts) then expand ctts ! k else 0) - shift)))"

definition reference_index :: "nat \<Rightarrow> nat \<Rightarrow> int \<Rightarrow> run list \<Rightarrow> run list \<Rightarrow> nat list \<Rightarrow> key_index option" where
  "reference_index timescale duration shift stts ctts sync =
     (let places = filter (key_sample sync) [0..<length (expand stts)]; keys = map (shown_at timescale shift stts ctts) places in
      if keys = [] \<or> \<not> sorted keys then None
      else Some \<lparr>ki_keys = keys, ki_duration = nanoseconds timescale (wrap64 (to_int64 duration - shift)),
                 ki_places = places, ki_samples = length (expand stts), ki_frame = 0\<rparr>)"

lemma to_time_eq: "timescale \<noteq> 0 \<Longrightarrow> to_time timescale ts = Some (nanoseconds timescale ts)"
  by (simp add: to_time_def go_quot_def nanoseconds_def Let_def)

text \<open>How many keyframes there are before a sample is where the code stands in their table.\<close>

lemma sync_upto:
  assumes "sorted_wrt (<) sync" "0 \<notin> set sync" "sync \<noteq> []"
  shows "takeWhile (\<lambda>s. s \<le> k) sync = map Suc (filter (key_sample sync) [0..<k])"
proof (rule strict_sorted_equal)
  show "sorted_wrt (<) (takeWhile (\<lambda>s. s \<le> k) sync)"
    using assms(1) sorted_wrt_append takeWhile_dropWhile_id by metis
  show "sorted_wrt (<) (map Suc (filter (key_sample sync) [0..<k]))"
    by (simp add: sorted_wrt_map sorted_wrt_filter)
  have "set (takeWhile (\<lambda>s. s \<le> k) sync) = {s \<in> set sync. s \<le> k}"
    using assms(1) by (induction sync) (auto dest: order.strict_trans1)
  also have "\<dots> = set (map Suc (filter (key_sample sync) [0..<k]))"
  proof (intro set_eqI iffI)
    fix s assume "s \<in> {s \<in> set sync. s \<le> k}"
    then obtain j where "s = Suc j" "Suc j \<in> set sync" "j < k" using assms(2) by (cases s) auto
    then show "s \<in> set (map Suc (filter (key_sample sync) [0..<k]))" by (auto simp: key_sample_def)
  qed (use assms(3) in \<open>auto simp: key_sample_def\<close>)
  finally show "set (takeWhile (\<lambda>s. s \<le> k) sync) = set (map Suc (filter (key_sample sync) [0..<k]))" .
qed

lemma key_here:
  assumes "sorted_wrt (<) sync" "0 \<notin> set sync"
  shows "is_key sync (length (filter (key_sample sync) [0..<k])) (Suc k) \<longleftrightarrow> key_sample sync k"
proof (cases "sync = []")
  case False
  let ?a = "takeWhile (\<lambda>s. s \<le> k) sync" and ?b = "dropWhile (\<lambda>s. s \<le> k) sync"
  have m: "length (filter (key_sample sync) [0..<k]) = length ?a" using sync_upto [OF assms False, of k] by (metis length_map)
  have s: "sync = ?a @ ?b" by simp
  have "sync ! length ?a = Suc k" if "Suc k \<in> set sync"
  proof -
    have "Suc k \<in> set ?b" using that set_takeWhileD [of "Suc k" "\<lambda>s. s \<le> k" sync] by (metis Suc_n_not_le_n Un_iff s set_append)
    then obtain x xs where b: "?b = x # xs" by (cases ?b) auto
    have "\<not> x \<le> k" using b hd_dropWhile [of "\<lambda>s. s \<le> k" sync] by simp
    moreover have "x \<le> Suc k" using \<open>Suc k \<in> set ?b\<close> assms(1) s b sorted_wrt_append [of "(<)" ?a ?b] by (auto simp: less_imp_le)
    ultimately have "x = Suc k" by simp
    then show ?thesis using s b by (metis nth_append_length)
  qed
  moreover have "length ?a < length sync" if "Suc k \<in> set sync"
    using that length_takeWhile_le [of "\<lambda>s. s \<le> k" sync] set_takeWhileD [of "Suc k" "\<lambda>s. s \<le> k" sync] takeWhile_eq_take [of "\<lambda>s. s \<le> k" sync]
    by (cases "length ?a = length sync") auto
  moreover have "length ?a < length sync \<Longrightarrow> sync ! length ?a \<in> set sync" by (rule nth_mem)
  ultimately show ?thesis unfolding is_key_def key_sample_def m using False by metis
qed (simp add: is_key_def key_sample_def)

lemma wrap64_twice: "wrap64 (wrap64 a + b) = wrap64 (a + b)" "wrap64 (wrap64 a - b) = wrap64 (a - b)"
proof -
  have h: "wrap64 (wrap64 a + b) = wrap64 (a + b)" for b
  proof -
    have "wrap64 a + b + 2 ^ 63 = (a + 2 ^ 63) mod 2 ^ 64 + b" by (simp add: wrap64_def)
    then have "(wrap64 a + b + 2 ^ 63) mod 2 ^ 64 = (a + 2 ^ 63 + b) mod 2 ^ 64" by (simp only: mod_add_left_eq)
    then show ?thesis by (simp add: wrap64_def ac_simps)
  qed
  show "wrap64 (wrap64 a + b) = wrap64 (a + b)" "wrap64 (wrap64 a - b) = wrap64 (a - b)"
    using h [of b] h [of "- b"] by simp_all
qed

lemma walk_sample_step:
  assumes "timescale \<noteq> 0" "cursor_at ctts (drop n offs) (kw_offsets w)" "kw_dts w = wrap64 t"
  shows "\<exists>c. cursor_at ctts (drop (Suc n) offs) c \<and> walk_sample timescale shift ctts sync delta w = Some
    (if is_key sync (kw_next w) (kw_sample w)
     then w\<lparr>kw_keys := kw_keys w @ [max 0 (nanoseconds timescale (wrap64 (t + (if n < length offs then offs ! n else 0) - shift)))],
            kw_places := kw_places w @ [(kw_sample w + 2 ^ 32 - 1) mod 2 ^ 32], kw_next := kw_next w + 1,
            kw_dts := wrap64 (t + delta), kw_sample := (kw_sample w + 1) mod 2 ^ 32, kw_offsets := c\<rparr>
     else w\<lparr>kw_dts := wrap64 (t + delta), kw_sample := (kw_sample w + 1) mod 2 ^ 32, kw_offsets := c\<rparr>)"
proof -
  have h: "(case drop n offs of [] \<Rightarrow> 0 | x # _ \<Rightarrow> x) = (if n < length offs then offs ! n else 0)"
    by (cases "n < length offs") (auto simp: Cons_nth_drop_Suc [symmetric])
  obtain c where "next_offset ctts (kw_offsets w) = Some (if n < length offs then offs ! n else 0, c)" "cursor_at ctts (drop (Suc n) offs) c"
    using next_offset_at [OF assms(2)] unfolding h by (metis drop_Suc tl_drop)
  then show ?thesis
    using assms(1,3) by (intro exI [of _ c] conjI) (simp_all add: walk_sample_def to_time_eq wrap64_twice)
qed

lemma walk_whole:
  assumes "timescale \<noteq> 0" "sorted_wrt (<) sync" "0 \<notin> set sync" "length (expand stts) < 2 ^ 32" "n \<le> length (expand stts)"
  shows "\<exists>w. walk_list timescale shift ctts sync (take n (expand stts)) walk_start = Some w
    \<and> kw_keys w = map (shown_at timescale shift stts ctts) (filter (key_sample sync) [0..<n])
    \<and> kw_places w = filter (key_sample sync) [0..<n] \<and> kw_dts w = wrap64 (sum_list (take n (expand stts)))
    \<and> kw_sample w = Suc n mod 2 ^ 32 \<and> cursor_at ctts (drop n (expand ctts)) (kw_offsets w)
    \<and> kw_next w = length (filter (key_sample sync) [0..<n])"
  using assms(5)
proof (induction n)
  case 0
  then show ?case using cursor_start [of ctts] by (simp add: walk_start_def is_int64_def)
next
  case (Suc n)
  then obtain w where w: "walk_list timescale shift ctts sync (take n (expand stts)) walk_start = Some w"
    "kw_keys w = map (shown_at timescale shift stts ctts) (filter (key_sample sync) [0..<n])"
    "kw_places w = filter (key_sample sync) [0..<n]" "kw_dts w = wrap64 (sum_list (take n (expand stts)))"
    "kw_sample w = Suc n" "cursor_at ctts (drop n (expand ctts)) (kw_offsets w)"
    "kw_next w = length (filter (key_sample sync) [0..<n])"
    using assms(4) by auto
  have t: "take (Suc n) (expand stts) = take n (expand stts) @ [expand stts ! n]"
    using Suc.prems by (simp add: take_Suc_conv_app_nth)
  then have u: "sum_list (take (Suc n) (expand stts)) = sum_list (take n (expand stts)) + expand stts ! n" by simp
  have k: "is_key sync (kw_next w) (kw_sample w) \<longleftrightarrow> key_sample sync n"
    using key_here [OF assms(2,3), of n] w by simp
  have p: "(Suc n + 2 ^ 32 - 1) mod 2 ^ 32 = n" using Suc.prems assms(4) by simp
  obtain c where c: "cursor_at ctts (drop (Suc n) (expand ctts)) c"
    "walk_sample timescale shift ctts sync (expand stts ! n) w = Some
    (if key_sample sync n
     then w\<lparr>kw_keys := kw_keys w @ [shown_at timescale shift stts ctts n],
            kw_places := kw_places w @ [n], kw_next := kw_next w + 1,
            kw_dts := wrap64 (sum_list (take (Suc n) (expand stts))), kw_sample := Suc (Suc n) mod 2 ^ 32, kw_offsets := c\<rparr>
     else w\<lparr>kw_dts := wrap64 (sum_list (take (Suc n) (expand stts))), kw_sample := Suc (Suc n) mod 2 ^ 32, kw_offsets := c\<rparr>)"
    using walk_sample_step [OF assms(1) w(6,4), of shift sync "expand stts ! n"] unfolding k u shown_at_def
    by (simp only: w(5) p) auto
  then show ?case using w by (simp add: t walk_list_append)
qed

text \<open>
  C39: The index of the keyframes, made in one pass that keeps a cursor in each of the three
  tables, is the one the tables stand for written out sample by sample: which samples are
  keyframes, when each is shown, which place it has in decode order and how many samples there
  are.  The tables are any of fewer than 2^32 samples, the table of keyframes ascends, and times
  are worked out in the 64 bits of the code, wrapping where it wraps.
\<close>

theorem keyframes_by_table:
  assumes "timescale \<noteq> 0" "sorted_wrt (<) sync" "0 \<notin> set sync" "length (expand stts) < 2 ^ 32"
  shows "table_index timescale duration shift stts ctts sync = Some (reference_index timescale duration shift stts ctts sync)"
proof -
  obtain w where "walk_runs timescale shift ctts sync stts walk_start = Some w"
    "kw_keys w = map (shown_at timescale shift stts ctts) (filter (key_sample sync) [0..<length (expand stts)])"
    "kw_places w = filter (key_sample sync) [0..<length (expand stts)]" "kw_sample w = Suc (length (expand stts)) mod 2 ^ 32"
    using walk_whole [OF assms order_refl, of shift ctts] by (auto simp: walk_runs_list)
  moreover have "(Suc (length (expand stts)) mod 2 ^ 32 + 2 ^ 32 - 1) mod 2 ^ 32 = length (expand stts)"
    using assms(4) by (cases "Suc (length (expand stts)) = 2 ^ 32") auto
  ultimately show ?thesis
    by (simp add: table_index_def reference_index_def Let_def to_time_eq [OF assms(1)])
qed

definition film_tables :: "run list \<times> run list \<times> nat list" where
  "film_tables = ([(2, 40), (0, 7), (3, 50)], [(1, 80), (4, 40)], [1, 4])"

theorem keyframes_by_table_witness:
  "table_index 1000 230 40 (fst film_tables) (fst (snd film_tables)) (snd (snd film_tables))
    = Some (reference_index 1000 230 40 (fst film_tables) (fst (snd film_tables)) (snd (snd film_tables)))
   \<and> reference_index 1000 230 40 (fst film_tables) (fst (snd film_tables)) (snd (snd film_tables))
    = Some \<lparr>ki_keys = [40000000, 130000000], ki_duration = 190000000, ki_places = [0, 3], ki_samples = 5, ki_frame = 0\<rparr>"
proof
  show "table_index 1000 230 40 (fst film_tables) (fst (snd film_tables)) (snd (snd film_tables))
    = Some (reference_index 1000 230 40 (fst film_tables) (fst (snd film_tables)) (snd (snd film_tables)))"
    by (rule keyframes_by_table) (simp_all add: film_tables_def)
qed code_simp

section \<open>What every index has\<close>

text \<open>The index is in order: it is what segments can be cut by.\<close>

definition orderly :: "key_index \<Rightarrow> bool" where
  "orderly kx \<longleftrightarrow> ki_keys kx \<noteq> [] \<and> sorted (ki_keys kx) \<and> list_all ((\<le>) 0) (ki_keys kx)
     \<and> length (ki_places kx) = length (ki_keys kx) \<and> sorted_wrt (<) (ki_places kx) \<and> list_all (\<lambda>p. p < ki_samples kx) (ki_places kx)"

lemma walk_orderly:
  assumes "timescale \<noteq> 0" "length (expand stts) < 2 ^ 32" "n \<le> length (expand stts)"
  shows "\<exists>w. walk_list timescale shift ctts sync (take n (expand stts)) walk_start = Some w
    \<and> list_all ((\<le>) 0) (kw_keys w) \<and> length (kw_places w) = length (kw_keys w) \<and> sorted_wrt (<) (kw_places w)
    \<and> list_all (\<lambda>p. p < n) (kw_places w) \<and> kw_dts w = wrap64 (sum_list (take n (expand stts)))
    \<and> kw_sample w = Suc n mod 2 ^ 32 \<and> cursor_at ctts (drop n (expand ctts)) (kw_offsets w)"
  using assms(3)
proof (induction n)
  case 0
  then show ?case using cursor_start [of ctts] by (simp add: walk_start_def is_int64_def)
next
  case (Suc n)
  then obtain w where w: "walk_list timescale shift ctts sync (take n (expand stts)) walk_start = Some w"
    "list_all ((\<le>) 0) (kw_keys w)" "length (kw_places w) = length (kw_keys w)" "sorted_wrt (<) (kw_places w)"
    "list_all (\<lambda>p. p < n) (kw_places w)" "kw_dts w = wrap64 (sum_list (take n (expand stts)))"
    "kw_sample w = Suc n" "cursor_at ctts (drop n (expand ctts)) (kw_offsets w)"
    using assms(2) by auto
  have t: "take (Suc n) (expand stts) = take n (expand stts) @ [expand stts ! n]"
    using Suc.prems by (simp add: take_Suc_conv_app_nth)
  have p: "(Suc n + 2 ^ 32 - 1) mod 2 ^ 32 = n" using Suc.prems assms(2) by simp
  have l: "list_all (\<lambda>p. p < Suc n) (kw_places w)" using w(5) by (auto simp: list_all_iff)
  have u: "wrap64 (sum_list (take n (expand stts)) + expand stts ! n) = wrap64 (sum_list (take (Suc n) (expand stts)))"
    by (simp add: t)
  note step = walk_sample_step [OF assms(1) w(8,6), of shift sync "expand stts ! n"]
  then obtain c where c: "cursor_at ctts (drop (Suc n) (expand ctts)) c"
    "walk_sample timescale shift ctts sync (expand stts ! n) w = Some
      (if is_key sync (kw_next w) (Suc n)
       then w\<lparr>kw_keys := kw_keys w @ [max 0 (nanoseconds timescale (wrap64 (sum_list (take n (expand stts)) +
                (if n < length (expand ctts) then expand ctts ! n else 0) - shift)))],
              kw_places := kw_places w @ [n], kw_next := kw_next w + 1,
              kw_dts := wrap64 (sum_list (take (Suc n) (expand stts))), kw_sample := (Suc n + 1) mod 2 ^ 32, kw_offsets := c\<rparr>
       else w\<lparr>kw_dts := wrap64 (sum_list (take (Suc n) (expand stts))), kw_sample := (Suc n + 1) mod 2 ^ 32, kw_offsets := c\<rparr>)"
    unfolding u w(7) p by blast
  have "\<exists>w'. walk_sample timescale shift ctts sync (expand stts ! n) w = Some w'
    \<and> list_all ((\<le>) 0) (kw_keys w') \<and> length (kw_places w') = length (kw_keys w') \<and> sorted_wrt (<) (kw_places w')
    \<and> list_all (\<lambda>p. p < Suc n) (kw_places w') \<and> kw_dts w' = wrap64 (sum_list (take (Suc n) (expand stts)))
    \<and> kw_sample w' = Suc (Suc n) mod 2 ^ 32 \<and> cursor_at ctts (drop (Suc n) (expand ctts)) (kw_offsets w')"
    using c w(2,3,4,5) l by (cases "is_key sync (kw_next w) (Suc n)") (simp_all add: sorted_wrt_append list_all_iff)
  then show ?case using w(1) unfolding t walk_list_append by (elim exE conjE) simp
qed

text \<open>
  Whatever the tables of a track hold, an index made of them is one that segments can be cut
  by: it has a keyframe, their times ascend from no less than zero, their places in decode
  order ascend strictly, one for each time, and lie below the number of samples.
\<close>

theorem index_orderly:
  assumes "table_index timescale duration shift stts ctts sync = Some (Some kx)"
    and "timescale \<noteq> 0" "length (expand stts) < 2 ^ 32"
  shows "orderly kx \<and> ki_samples kx = length (expand stts)"
proof -
  obtain w where w: "walk_runs timescale shift ctts sync stts walk_start = Some w"
    "list_all ((\<le>) 0) (kw_keys w)" "length (kw_places w) = length (kw_keys w)" "sorted_wrt (<) (kw_places w)"
    "list_all (\<lambda>p. p < length (expand stts)) (kw_places w)" "kw_sample w = Suc (length (expand stts)) mod 2 ^ 32"
    using walk_orderly [OF assms(2,3) order_refl, of shift ctts sync] by (auto simp: walk_runs_list)
  have "(Suc (length (expand stts)) mod 2 ^ 32 + 2 ^ 32 - 1) mod 2 ^ 32 = length (expand stts)"
    using assms(3) by (cases "Suc (length (expand stts)) = 2 ^ 32") auto
  then show ?thesis
    using assms(1) w by (auto simp: table_index_def orderly_def to_time_eq [OF assms(2)] split: if_splits)
qed

theorem index_orderly_witness:
  "orderly \<lparr>ki_keys = [40000000, 130000000], ki_duration = 190000000, ki_places = [0, 3], ki_samples = 5, ki_frame = 0\<rparr>"
proof -
  have t: "table_index 1000 230 40 (fst film_tables) (fst (snd film_tables)) (snd (snd film_tables))
    = Some (Some \<lparr>ki_keys = [40000000, 130000000], ki_duration = 190000000, ki_places = [0, 3], ki_samples = 5, ki_frame = 0\<rparr>)"
    by code_simp
  show ?thesis using index_orderly [OF t] by (simp add: film_tables_def)
qed

section \<open>No panic\<close>

lemma walk_safe:
  assumes "timescale \<noteq> 0"
  shows "cursor_at ctts rest (kw_offsets w) \<Longrightarrow> walk_list timescale shift ctts sync ds w \<noteq> None"
proof (induction ds arbitrary: w rest)
  case (Cons d ds)
  obtain c where "next_offset ctts (kw_offsets w) = Some (case rest of [] \<Rightarrow> 0 | x # _ \<Rightarrow> x, c)" "cursor_at ctts (tl rest) c"
    using next_offset_at [OF Cons.prems] by blast
  then have "\<exists>w'. walk_sample timescale shift ctts sync d w = Some w' \<and> cursor_at ctts (tl rest) (kw_offsets w')"
    by (cases "is_key sync (kw_next w) (kw_sample w)") (simp_all add: walk_sample_def to_time_eq [OF assms])
  then show ?case using Cons.IH by auto
qed simp

lemma table_index_safe [safe]: "timescale \<noteq> 0 \<Longrightarrow> table_index timescale duration shift stts ctts sync \<noteq> None"
  using walk_safe [of timescale ctts "expand ctts" walk_start shift sync "expand stts"] cursor_start [of ctts]
  by (auto simp: table_index_def walk_runs_list walk_start_def to_time_eq split: if_splits)

lemma map_safe [safe]: "m \<noteq> None \<Longrightarrow> map_option f m \<noteq> None"
  by simp

lemma read_runs_safe [safe]: "read_runs b sg n i \<noteq> None"
proof (induction n arbitrary: i)
  case (Suc n)
  show ?case unfolding read_runs.simps by (intro safe Suc) auto
qed simp

lemma read_sync_safe [safe]: "read_sync b n i \<noteq> None"
proof (induction n arbitrary: i)
  case (Suc n)
  show ?case unfolding read_sync.simps by (intro safe Suc) auto
qed simp

lemma edit_time_safe [safe]: "8 \<le> length b \<Longrightarrow> edit_time b n i \<noteq> None"
proof (induction n arbitrary: i)
  case (Suc n)
  show ?case unfolding edit_time.simps Let_def by (intro safe Suc) (use Suc.prems in \<open>auto split: if_splits\<close>)
qed simp

lemma runs_safe [safe]: "tame_bytes b \<Longrightarrow> runs b name sg \<noteq> None"
  unfolding runs_def by (intro safe) auto

lemma sync_table_safe [safe]: "tame_bytes b \<Longrightarrow> sync_table b \<noteq> None"
  unfolding sync_table_def by (intro safe) auto

lemma editShift_safe [safe]: "tame_bytes b \<Longrightarrow> editShift b \<noteq> None"
  unfolding editShift_def by (intro safe) auto

lemma track_clock_safe [safe]: "track_clock b \<noteq> None"
  unfolding track_clock_def by (intro safe) auto

lemma stbl_index_safe [safe]:
  "tame_bytes trak \<Longrightarrow> tame_bytes stbl \<Longrightarrow> timescale \<noteq> 0 \<Longrightarrow> stbl_index trak stbl timescale duration \<noteq> None"
  unfolding stbl_index_def by (intro safe) auto

lemma trackKeyframes_safe [safe]: "tame_bytes trak \<Longrightarrow> trackKeyframes trak \<noteq> None"
  unfolding trackKeyframes_def by (intro safe) (auto dest: box_body)

lemma movie_keyframes_safe: "tame_walk xs \<Longrightarrow> movie_keyframes xs \<noteq> None"
proof (induction xs rule: movie_keyframes.induct)
  case (3 name body xs)
  show ?case unfolding movie_keyframes.simps by (intro safe) (use 3 in auto)
qed auto

text \<open>
  Reading where the keyframes of a film are does not panic, whatever the file's tables say,
  whatever counts they claim and whichever reads fail, unless the movie has a box whose stated
  length begins with the bytes 7F FF FF FF.
\<close>

theorem keyframes_no_panic:
  assumes "readMoov s sz = (Some moov, s')" and "\<not> sublist far moov"
  shows "fst (mp4Keyframes s sz) \<noteq> None"
proof -
  have "tame_bytes moov" using assms(2) readMoov_length [OF assms(1)] by (simp add: tame_bytes_def)
  then show ?thesis by (simp add: mp4Keyframes_def assms(1) movie_keyframes_safe tame_atoms)
qed

theorem keyframes_no_panic_witness:
  "fst (mp4Keyframes (calm_at (sample_movie 180000 []) 0) (int (length (sample_movie 180000 [])))) \<noteq> None"
proof -
  let ?s = "calm_at (sample_movie 180000 []) 0" and ?n = "int (length (sample_movie 180000 []))" and ?moov = "sample_moov 180000 []"
  have m: "readMoov ?s ?n = (Some ?moov, snd (readMoov ?s ?n))" using sample_found by (simp add: prod_eq_iff)
  have f: "\<not> sublist far ?moov" by code_simp
  show ?thesis by (rule keyframes_no_panic [OF m f])
qed

section \<open>Tables as they are written\<close>

definition print_runs :: "run list \<Rightarrow> bytes" where
  "print_runs rs = concat (map (\<lambda>(n, v). be_bytes 4 n @ be_bytes 4 (nat (v mod 2 ^ 32))) rs)"

definition run_fits :: "bool \<Rightarrow> run \<Rightarrow> bool" where
  "run_fits as_signed r \<longleftrightarrow> fst r < 2 ^ 32 \<and>
     (if as_signed then - (2 ^ 31) \<le> snd r \<and> snd r < 2 ^ 31 else 0 \<le> snd r \<and> snd r < 2 ^ 32)"

lemma to_int32_mod: "- (2 ^ 31) \<le> v \<Longrightarrow> v < 2 ^ 31 \<Longrightarrow> to_int32 (nat (v mod 2 ^ 32)) = v"
proof -
  assume v: "- (2 ^ 31) \<le> v" "v < 2 ^ 31"
  have "(v mod 2 ^ 32 + 2 ^ 31) mod 2 ^ 32 = (v + 2 ^ 31) mod 2 ^ 32" by (rule mod_add_left_eq)
  also have "\<dots> = v + 2 ^ 31" using v by simp
  finally show ?thesis by (simp add: to_int32_def)
qed

lemma read_runs_print:
  "list_all (run_fits as_signed) rs \<Longrightarrow> length pre = 8 + 8 * i \<Longrightarrow>
   read_runs (pre @ print_runs rs @ post) as_signed (length rs) i = Some (Some rs)"
proof (induction rs arbitrary: pre i)
  case (Cons r rs)
  obtain n v where r: "r = (n, v)" by fastforce
  let ?b = "pre @ be_bytes 4 n @ be_bytes 4 (nat (v mod 2 ^ 32)) @ print_runs rs @ post"
  have b: "pre @ print_runs ((n, v) # rs) @ post = ?b" by (simp add: print_runs_def)
  have f: "n < 2 ^ 32" "nat (v mod 2 ^ 32) < 2 ^ 32" using Cons.prems(1) by (simp_all add: r run_fits_def nat_less_iff)
  have "be_at ?b (8 + i * 8 + 4) 4 = Some (nat (v mod 2 ^ 32))" "be_at ?b (8 + i * 8) 4 = Some n"
    using Cons.prems(2) f by (simp_all add: be_at_def be_nat_bytes)
  moreover have "(if as_signed then to_int32 (nat (v mod 2 ^ 32)) else int (nat (v mod 2 ^ 32))) = v"
    using Cons.prems(1) to_int32_mod [of v] by (cases as_signed) (simp_all add: r run_fits_def)
  moreover have "read_runs ?b as_signed (length rs) (i + 1) = Some (Some rs)"
    using Cons.IH [of "pre @ be_bytes 4 n @ be_bytes 4 (nat (v mod 2 ^ 32))" "i + 1"] Cons.prems by simp
  ultimately show ?case using Cons.prems(2) unfolding r b by (cases as_signed) simp_all
qed simp

text \<open>
  A table of runs is read back as it was written, whatever follows it in its box: every
  count and every value, and offsets below zero where the table is signed.
\<close>

theorem runs_read_back:
  assumes "list_all (run_fits as_signed) rs" "length rs < 2 ^ 32" "length version = 4"
    and "box stbl [name] = Some (Some (version @ be_bytes 4 (length rs) @ print_runs rs @ post))"
  shows "runs stbl name as_signed = Some (Some rs)"
  using read_runs_print [OF assms(1), of "version @ be_bytes 4 (length rs)" 0 post] assms(2-4)
  by (simp add: runs_def be_nat_bytes)

definition offset_table :: bytes where
  "offset_table = plain_box ''ctts'' (zeroes 4 @ be_bytes 4 2 @ print_runs [(1, 80), (4, - 40)] @ zeroes 3)"

theorem runs_read_back_witness:
  "runs offset_table ''ctts'' True = Some (Some [(1, 80), (4, - 40)])"
proof (rule runs_read_back [where version = "zeroes 4" and post = "zeroes 3"])
  show "box offset_table [''ctts''] = Some (Some (zeroes 4 @ be_bytes 4 (length [(1::nat, 80::int), (4, - 40)])
      @ print_runs [(1, 80), (4, - 40)] @ zeroes 3))"
    by code_simp
qed (simp_all add: run_fits_def zeroes_def)

section \<open>Times\<close>

text \<open>
  A time is exact as long as its ticks fit an \<open>int64\<close> a thousand million times over; beyond, it
  wraps.  At ten million ticks a second that is after a quarter of an hour: a film with a
  keyframe every 400 seconds has an index while it is 900 seconds long and none at 1300.
\<close>

lemma to_time_exact:
  "0 \<le> ts \<Longrightarrow> ts * 10 ^ 9 < 2 ^ 63 \<Longrightarrow> timescale \<noteq> 0 \<Longrightarrow> to_time timescale ts = Some (ts * 10 ^ 9 div int timescale)"
proof -
  assume a: "0 \<le> ts" "ts * 10 ^ 9 < 2 ^ 63" "timescale \<noteq> 0"
  have "ts * 10 ^ 9 div int timescale \<le> ts * 10 ^ 9" using zdiv_mono2 [of "ts * 10 ^ 9" 1 "int timescale"] a by simp
  moreover have "0 \<le> ts * 10 ^ 9 div int timescale" using a by (simp add: pos_imp_zdiv_nonneg_iff)
  ultimately have "is_int64 (ts * 10 ^ 9)" "is_int64 (ts * 10 ^ 9 div int timescale)"
    using a unfolding is_int64_def by auto
  then show ?thesis using a by (auto simp: to_time_eq nanoseconds_def Let_def sgn_if)
qed

text \<open>
  A film of twenty minutes whose clock ticks ten million times a second has no index, while
  its first ten minutes have one: the third keyframe's time wraps to before the others.
\<close>

theorem long_film_unindexed:
  "table_index 10000000 9000000000 0 [(3, 4000000000)] [] []
     = Some (Some \<lparr>ki_keys = [0, 400000000000, 800000000000], ki_duration = 900000000000, ki_places = [0, 1, 2], ki_samples = 3, ki_frame = 0\<rparr>)
   \<and> table_index 10000000 13000000000 0 [(4, 4000000000)] [] [] = Some None"
  by (rule conjI; code_simp)
end
