(* ===== verification/Transcode.thy ===== *)
theory Transcode
  imports MediaBytes GoText BlobKey
begin

text \<open>
  \<^verbatim>\<open>internal/media/stream/transcode.go\<close> and \<^verbatim>\<open>capabilities.go\<close>: whether a track is sent as it is or
  transcoded, and into what.  \<open>strings.ToLower\<close> and \<open>strings.EqualFold\<close> on whatever a client
  sends go by the tables of Unicode, which are arguments, \<open>low\<close> and \<open>same\<close>.
\<close>

section \<open>What is asked and what is answered\<close>

record request =
  rq_format :: bytes
  rq_bitrate :: int

record plan =
  pl_direct :: bool
  pl_format :: bytes
  pl_encoder :: bytes
  pl_muxer :: bytes
  pl_mime :: bytes
  pl_container :: bytes
  pl_fragmented :: bool
  pl_bitrate :: int
  pl_rate :: int
  pl_channels :: int
  pl_depth :: int

definition no_plan :: plan where
  "no_plan = \<lparr>pl_direct = False, pl_format = [], pl_encoder = [], pl_muxer = [], pl_mime = [], pl_container = [],
     pl_fragmented = False, pl_bitrate = 0, pl_rate = 0, pl_channels = 0, pl_depth = 0\<rparr>"

definition direct_plan :: plan where
  "direct_plan = no_plan\<lparr>pl_direct := True\<rparr>"

record target =
  tg_encoder :: bytes
  tg_muxer :: bytes
  tg_mime :: bytes
  tg_container :: bytes
  tg_lossless :: bool
  tg_channels :: int
  tg_fallback :: int
  tg_ceiling :: int
  tg_rates :: "int list"

definition targets :: "(bytes \<times> target) list" where
  "targets = [
     (''mp3'', \<lparr>tg_encoder = ''libmp3lame'', tg_muxer = ''mp3'', tg_mime = ''audio/mpeg'', tg_container = ''mp3'', tg_lossless = False,
        tg_channels = 2, tg_fallback = 192000, tg_ceiling = 320000,
        tg_rates = [48000, 44100, 32000, 24000, 22050, 16000, 12000, 11025, 8000]\<rparr>),
     (''opus'', \<lparr>tg_encoder = ''libopus'', tg_muxer = ''ogg'', tg_mime = ''audio/ogg'', tg_container = ''ogg'', tg_lossless = False,
        tg_channels = 8, tg_fallback = 128000, tg_ceiling = 256000, tg_rates = [48000, 24000, 16000, 12000, 8000]\<rparr>),
     (''aac'', \<lparr>tg_encoder = ''aac'', tg_muxer = ''adts'', tg_mime = ''audio/aac'', tg_container = ''aac'', tg_lossless = False,
        tg_channels = 8, tg_fallback = 192000, tg_ceiling = 320000,
        tg_rates = [48000, 44100, 32000, 24000, 22050, 16000, 12000, 11025, 8000]\<rparr>),
     (''flac'', \<lparr>tg_encoder = ''flac'', tg_muxer = ''flac'', tg_mime = ''audio/flac'', tg_container = ''flac'', tg_lossless = True,
        tg_channels = 8, tg_fallback = 0, tg_ceiling = 0, tg_rates = []\<rparr>)]"

definition defaultFormat :: bytes where
  "defaultFormat = ''mp3''"

definition lossless :: "bytes \<Rightarrow> bool" where
  "lossless codec \<longleftrightarrow> codec \<in> {''flac'', ''alac'', ''wavpack'', ''ape'', ''tta''} \<or> has_prefix codec ''pcm_''"

text \<open>\<open>rateFor\<close>, \<open>min2\<close>, \<open>or\<close> and \<open>firstNonZero\<close>: zero is unknown, or the source's own.\<close>

definition rateFor :: "int list \<Rightarrow> int \<Rightarrow> int" where
  "rateFor rates source =
     (if rates = [] \<or> source = 0 \<or> source \<in> set rates then 0
      else case find (\<lambda>r. r \<le> source \<and> source mod r = 0) rates of Some r \<Rightarrow> r | None \<Rightarrow> hd rates)"

definition min2 :: "int \<Rightarrow> int \<Rightarrow> int" where
  "min2 n most = (if n = 0 then 0 else min n most)"

definition or_else :: "int \<Rightarrow> int \<Rightarrow> int" where
  "or_else v fallback = (if v = 0 then fallback else v)"

fun firstNonZero :: "int list \<Rightarrow> int" where
  "firstNonZero [] = 0"
| "firstNonZero (v # vs) = (if v \<noteq> 0 then v else firstNonZero vs)"

section \<open>\<open>Decide\<close>\<close>

definition too_large :: "int \<Rightarrow> int \<Rightarrow> bool" where
  "too_large bitrate most \<longleftrightarrow> 0 < most \<and> (bitrate = 0 \<or> most < bitrate)"

definition transcode_plan :: "bytes \<Rightarrow> target \<Rightarrow> media \<Rightarrow> request \<Rightarrow> plan" where
  "transcode_plan format t m req =
     (let p = no_plan\<lparr>pl_format := format, pl_encoder := tg_encoder t, pl_muxer := tg_muxer t, pl_mime := tg_mime t,
                pl_container := tg_container t\<rparr>;
          b0 = tg_fallback t;
          b1 = (if 0 < rq_bitrate req then min b0 (rq_bitrate req) else b0);
          b2 = (if \<not> lossless (me_codec m) \<and> 0 < me_bitrate m then min b1 (me_bitrate m) else b1);
          p = (if tg_lossless t then p else p\<lparr>pl_bitrate := min b2 (tg_ceiling t), pl_channels := min2 (me_channels m) 2\<rparr>)
      in p\<lparr>pl_rate := rateFor (tg_rates t) (me_sample_rate m)\<rparr>)"

definition Decide :: "(bytes \<Rightarrow> bytes) \<Rightarrow> media \<Rightarrow> request \<Rightarrow> plan" where
  "Decide low m req =
     (let format = low (rq_format req); named = map_of targets format; large = too_large (me_bitrate m) (rq_bitrate req) in
      if format = ''raw'' then direct_plan
      else if (named = None \<or> format = me_codec m) \<and> \<not> large then direct_plan
      else case named of
        Some t \<Rightarrow>
          if tg_lossless t \<and> \<not> lossless (me_codec m) then direct_plan
          else if tg_lossless t \<and> large then transcode_plan defaultFormat (the (map_of targets defaultFormat)) m req
          else transcode_plan format t m req
      | None \<Rightarrow> transcode_plan defaultFormat (the (map_of targets defaultFormat)) m req)"

section \<open>What a client says it can play\<close>

record direct_profile =
  dp_containers :: "bytes list"
  dp_codecs :: "bytes list"
  dp_protocols :: "bytes list"
  dp_channels :: int

record target_profile =
  tp_container :: bytes
  tp_codec :: bytes
  tp_protocol :: bytes
  tp_channels :: int

record limit =
  li_name :: bytes
  li_comparison :: bytes
  li_values :: "bytes list"
  li_required :: bool

record codec_profile =
  cp_codec :: bytes
  cp_limits :: "limit list"

record capabilities =
  ca_bitrate :: int
  ca_transcode :: int
  ca_direct :: "direct_profile list"
  ca_targets :: "target_profile list"
  ca_codecs :: "codec_profile list"

record audio_stream =
  as_protocol :: bytes
  as_container :: bytes
  as_codec :: bytes
  as_profile :: bytes
  as_channels :: int
  as_bitrate :: int
  as_rate :: int
  as_depth :: int

section \<open>Names\<close>

definition containerOf :: "(bytes \<Rightarrow> bytes) \<Rightarrow> bytes \<Rightarrow> bytes" where
  "containerOf low p =
     (let ext = trim_prefix (low (path_ext p)) ''.'' in
      if ext \<in> {''m4a'', ''m4b'', ''m4p''} then ''mp4''
      else if ext \<in> {''oga'', ''opus''} then ''ogg''
      else if ext = ''aif'' then ''aiff'' else if ext = ''wma'' then ''asf'' else ext)"

definition aliases :: "bytes list list \<Rightarrow> (bytes \<times> bytes) list" where
  "aliases groups = concat (map (\<lambda>g. map (\<lambda>name. (name, hd g)) g) groups)"

definition containerAliases :: "(bytes \<times> bytes) list" where
  "containerAliases = aliases [[''mp4'', ''m4a'', ''m4b'', ''m4p''], [''aac'', ''adts''], [''mp3'', ''mpeg''],
     [''ogg'', ''oga'', ''opus''], [''aiff'', ''aif''], [''asf'', ''wma'']]"

definition codecAliases :: "(bytes \<times> bytes) list" where
  "codecAliases = aliases [[''aac'', ''adts''], [''ac3'', ''ac-3''], [''eac3'', ''e-ac3'', ''e-ac-3'', ''eac-3''],
     [''wmav2'', ''wma2'', ''wma'']]"

definition canonical :: "(bytes \<Rightarrow> bytes) \<Rightarrow> bytes \<Rightarrow> (bytes \<times> bytes) list \<Rightarrow> bytes" where
  "canonical low name tbl = (case map_of tbl (low name) of Some c \<Rightarrow> c | None \<Rightarrow> low name)"

definition matchContainer :: "(bytes \<Rightarrow> bytes) \<Rightarrow> bytes \<Rightarrow> bytes list \<Rightarrow> bool" where
  "matchContainer low c names \<longleftrightarrow> list_ex (\<lambda>s. canonical low s containerAliases = canonical low c containerAliases) names"

definition matchCodec :: "(bytes \<Rightarrow> bytes) \<Rightarrow> bytes \<Rightarrow> bytes list \<Rightarrow> bool" where
  "matchCodec low codec names \<longleftrightarrow>
     (let c = canonical low codec codecAliases; pcm = has_prefix c ''pcm_'' in
      list_ex (\<lambda>s. let s = canonical low s codecAliases in s = c \<or> (pcm \<and> s \<in> {''pcm'', ''lpcm'', ''wav''})) names)"

definition containsFold :: "(bytes \<Rightarrow> bytes \<Rightarrow> bool) \<Rightarrow> bytes list \<Rightarrow> bytes \<Rightarrow> bool" where
  "containsFold same names s \<longleftrightarrow> list_ex (\<lambda>v. same v s) names"

definition number :: "bytes \<Rightarrow> int option" where
  "number s = parse_int64 (trim_space s)"

section \<open>Limits\<close>

definition compare :: "int \<Rightarrow> limit \<Rightarrow> bool" where
  "compare v l \<longleftrightarrow>
     (if v = 0 \<or> li_values l = [] then True
      else if li_comparison l = ''LessThanEqual'' then (case number (hd (li_values l)) of None \<Rightarrow> True | Some n \<Rightarrow> v \<le> n)
      else if li_comparison l = ''GreaterThanEqual'' then (case number (hd (li_values l)) of None \<Rightarrow> True | Some n \<Rightarrow> n \<le> v)
      else if li_comparison l = ''Equals'' then list_ex (\<lambda>s. number s = Some v) (li_values l)
      else if li_comparison l = ''NotEquals'' then \<not> list_ex (\<lambda>s. number s = Some v) (li_values l)
      else True)"

definition compareText :: "(bytes \<Rightarrow> bytes \<Rightarrow> bool) \<Rightarrow> bytes \<Rightarrow> limit \<Rightarrow> bool" where
  "compareText same v l \<longleftrightarrow>
     (if li_comparison l = ''Equals'' then v = [] \<or> containsFold same (li_values l) v
      else if li_comparison l = ''NotEquals'' then \<not> containsFold same (li_values l) v
      else True)"

definition satisfies :: "(bytes \<Rightarrow> bytes \<Rightarrow> bool) \<Rightarrow> audio_stream \<Rightarrow> limit \<Rightarrow> bool" where
  "satisfies same src l \<longleftrightarrow>
     (if li_name l = ''audioBitrate'' then compare (as_bitrate src) l
      else if li_name l = ''audioSamplerate'' then compare (as_rate src) l
      else if li_name l = ''audioChannels'' then compare (as_channels src) l
      else if li_name l = ''audioBitdepth'' then compare (as_depth src) l
      else if li_name l = ''audioProfile'' then compareText same (as_profile src) l
      else True)"

text \<open>\<open>fitTo\<close> and \<open>lower\<close>; no values allowed is a \<open>nil\<close> list, anything goes.\<close>

definition fitTo :: "int \<Rightarrow> int list \<Rightarrow> int list" where
  "fitTo want allowed = (if allowed = [] then [want] else filter (\<lambda>a. a \<le> want) allowed)"

definition candidates :: "limit \<Rightarrow> int list" where
  "candidates l =
     (if li_comparison l = ''LessThanEqual'' then [case number (hd (li_values l)) of None \<Rightarrow> 0 | Some n \<Rightarrow> n]
      else List.map_filter number (li_values l))"

definition better :: "int \<Rightarrow> limit \<Rightarrow> int \<Rightarrow> int \<Rightarrow> int \<Rightarrow> int" where
  "better v l want n best =
     (if n \<le> v \<and> n \<le> want \<and> best < n \<and> (li_comparison l \<noteq> ''Equals'' \<or> n = want) then n else best)"

definition best_of :: "int \<Rightarrow> limit \<Rightarrow> int list \<Rightarrow> int" where
  "best_of v l allowed = foldl (\<lambda>best want. foldl (\<lambda>best n. better v l want n best) best (fitTo want allowed)) 0 (candidates l)"

definition lower_to :: "int \<Rightarrow> limit \<Rightarrow> int list \<Rightarrow> int \<times> bool" where
  "lower_to v l allowed =
     (if compare v l then (v, True)
      else if li_comparison l = ''LessThanEqual'' \<or> li_comparison l = ''Equals'' then
        let best = best_of v l allowed in if best = 0 then (v, False) else (best, True)
      else (v, False))"

section \<open>\<open>DecideFor\<close>\<close>

text \<open>Why a direct profile does not fit; the code has it as a sentence for a client's log.\<close>

datatype misfit = Bitrate_over | Protocol_not | Container_not bytes | Codec_not bytes | Channels_not int | Limit_not bytes

definition directMisfit :: "(bytes \<Rightarrow> bytes) \<Rightarrow> (bytes \<Rightarrow> bytes \<Rightarrow> bool) \<Rightarrow> audio_stream \<Rightarrow> direct_profile \<Rightarrow> codec_profile list \<Rightarrow> misfit option" where
  "directMisfit low same src p codecs =
     (if dp_protocols p \<noteq> [] \<and> \<not> containsFold same (dp_protocols p) ''http'' then Some Protocol_not
      else if dp_containers p \<noteq> [] \<and> \<not> matchContainer low (as_container src) (dp_containers p) then Some (Container_not (as_container src))
      else if dp_codecs p \<noteq> [] \<and> \<not> matchCodec low (as_codec src) (dp_codecs p) then Some (Codec_not (as_codec src))
      else if 0 < dp_channels p \<and> dp_channels p < as_channels src then Some (Channels_not (as_channels src))
      else map_option (Limit_not \<circ> li_name)
        (find (\<lambda>l. li_required l \<and> \<not> satisfies same src l)
          (concat (map cp_limits (filter (\<lambda>cp. matchCodec low (as_codec src) [cp_codec cp]) codecs)))))"

definition packaging :: "bytes \<Rightarrow> bytes \<Rightarrow> (bytes \<times> bytes \<times> bool) option" where
  "packaging format container =
     (if format = ''mp3'' \<and> container = ''mp3'' then Some (''mp3'', ''audio/mpeg'', False)
      else if format = ''opus'' \<and> container \<in> {''ogg'', ''opus'', ''oga''} then Some (''ogg'', ''audio/ogg'', False)
      else if format = ''aac'' \<and> container \<in> {''aac'', ''adts''} then Some (''adts'', ''audio/aac'', False)
      else if format = ''aac'' \<and> container \<in> {''mp4'', ''m4a''} then Some (''ipod'', ''audio/mp4'', True)
      else if format = ''flac'' \<and> container = ''flac'' then Some (''flac'', ''audio/flac'', False)
      else None)"

text \<open>The values a transcode is made with, on their way down through the limits.\<close>

record settings =
  va_bitrate :: int
  va_rate :: int
  va_channels :: int
  va_depth :: int

definition fit_limit :: "(bytes \<Rightarrow> bytes \<Rightarrow> bool) \<Rightarrow> target \<Rightarrow> audio_stream \<Rightarrow> limit \<Rightarrow> settings \<Rightarrow> settings option" where
  "fit_limit same t src l v =
     (if li_name l = ''audioBitrate'' then
        if tg_lossless t then if compare (as_bitrate src) l then Some v else None
        else (case lower_to (va_bitrate v) l [] of (b, fits) \<Rightarrow> if fits then Some (v\<lparr>va_bitrate := b\<rparr>) else None)
      else if li_name l = ''audioSamplerate'' then
        (case lower_to (va_rate v) l (tg_rates t) of (r, fits) \<Rightarrow> if fits then Some (v\<lparr>va_rate := r\<rparr>) else None)
      else if li_name l = ''audioChannels'' then
        (case lower_to (va_channels v) l [] of (c, fits) \<Rightarrow> if fits then Some (v\<lparr>va_channels := c\<rparr>) else None)
      else if li_name l = ''audioBitdepth'' then
        if va_depth v = 0 then Some v
        else (case lower_to (va_depth v) l [va_depth v, 16] of (d, fits) \<Rightarrow>
                if fits \<and> (d = va_depth v \<or> d = 16) then Some (v\<lparr>va_depth := d\<rparr>) else None)
      else Some v)"

fun fit_limits :: "(bytes \<Rightarrow> bytes \<Rightarrow> bool) \<Rightarrow> target \<Rightarrow> audio_stream \<Rightarrow> limit list \<Rightarrow> settings \<Rightarrow> settings option" where
  "fit_limits same t src [] v = Some v"
| "fit_limits same t src (l # ls) v =
     (case fit_limit same t src l v of None \<Rightarrow> None | Some v' \<Rightarrow> fit_limits same t src ls v')"

text \<open>The bit rate to begin with; \<open>None\<close>: a lossless target over the client's limit.\<close>

definition first_bitrate :: "target \<Rightarrow> audio_stream \<Rightarrow> capabilities \<Rightarrow> int option" where
  "first_bitrate t src c =
     (if tg_lossless t then if too_large (as_bitrate src) (ca_bitrate c) then None else Some 0
      else
        let b0 = (if lossless (as_codec src) \<or> as_bitrate src = 0
                  then firstNonZero [ca_transcode c, ca_bitrate c, tg_fallback t] else as_bitrate src) in
        Some (if 0 < b0 then min (if 0 < ca_bitrate c then min b0 (ca_bitrate c) else b0) (tg_ceiling t) else b0))"

definition first_values :: "target \<Rightarrow> audio_stream \<Rightarrow> target_profile \<Rightarrow> int \<Rightarrow> settings" where
  "first_values t src p bitrate =
     \<lparr>va_bitrate = bitrate,
      va_rate = or_else (rateFor (tg_rates t) (as_rate src)) (as_rate src),
      va_channels = (let n = min2 (as_channels src) (tg_channels t) in if 0 < tp_channels p then min2 n (tp_channels p) else n),
      va_depth = (if tg_lossless t then as_depth src else 0)\<rparr>"

definition codec_limits :: "(bytes \<Rightarrow> bytes) \<Rightarrow> bytes \<Rightarrow> codec_profile list \<Rightarrow> limit list" where
  "codec_limits low format codecs = concat (map cp_limits (filter (\<lambda>cp. matchCodec low format [cp_codec cp]) codecs))"

definition finish_plan :: "target \<Rightarrow> audio_stream \<Rightarrow> settings \<Rightarrow> plan \<Rightarrow> plan" where
  "finish_plan t src v p =
     p\<lparr>pl_bitrate := va_bitrate v, pl_rate := if va_rate v \<noteq> as_rate src then va_rate v else 0,
       pl_channels := if va_channels v \<noteq> as_channels src then va_channels v else 0,
       pl_depth := if tg_lossless t \<and> va_depth v = 16 \<and> 16 < as_depth src then 16 else 0\<rparr>"

definition planFor :: "(bytes \<Rightarrow> bytes) \<Rightarrow> (bytes \<Rightarrow> bytes \<Rightarrow> bool) \<Rightarrow> audio_stream \<Rightarrow> target_profile \<Rightarrow> capabilities \<Rightarrow> plan option" where
  "planFor low same src p c =
     (if tp_protocol p \<noteq> [] \<and> \<not> same (tp_protocol p) ''http'' then None
      else let format = (if low (tp_codec p) = [] then low (tp_container p) else low (tp_codec p)) in
      case map_of targets format of None \<Rightarrow> None | Some t \<Rightarrow>
      let container = (if low (tp_container p) = [] then tg_container t else low (tp_container p)) in
      case packaging format container of None \<Rightarrow> None | Some (muxer, mime, fragmented) \<Rightarrow>
      if tg_lossless t \<and> \<not> lossless (as_codec src) then None
      else case first_bitrate t src c of None \<Rightarrow> None | Some bitrate \<Rightarrow>
      map_option (\<lambda>v. finish_plan t src v
          (no_plan\<lparr>pl_format := format, pl_encoder := tg_encoder t, pl_muxer := muxer, pl_mime := mime, pl_container := container,
            pl_fragmented := fragmented\<rparr>))
        (fit_limits same t src (codec_limits low format (ca_codecs c)) (first_values t src p bitrate)))"

record decision =
  de_direct :: bool
  de_transcode :: bool
  de_plan :: plan
  de_source :: audio_stream
  de_target :: "audio_stream option"
  de_reasons :: "misfit list"
  de_error :: bool

text \<open>The first profile that fits, and why the ones before it do not; the first target there is a plan for.\<close>

fun direct_play :: "(bytes \<Rightarrow> bytes) \<Rightarrow> (bytes \<Rightarrow> bytes \<Rightarrow> bool) \<Rightarrow> audio_stream \<Rightarrow> codec_profile list \<Rightarrow> direct_profile list \<Rightarrow> misfit list \<Rightarrow> bool \<times> misfit list" where
  "direct_play low same src codecs [] reasons = (False, reasons)"
| "direct_play low same src codecs (p # ps) reasons =
     (case directMisfit low same src p codecs of
        None \<Rightarrow> (True, [])
      | Some reason \<Rightarrow> direct_play low same src codecs ps (reasons @ [reason]))"

fun first_plan :: "(bytes \<Rightarrow> bytes) \<Rightarrow> (bytes \<Rightarrow> bytes \<Rightarrow> bool) \<Rightarrow> audio_stream \<Rightarrow> capabilities \<Rightarrow> target_profile list \<Rightarrow> plan option" where
  "first_plan low same src c [] = None"
| "first_plan low same src c (p # ps) = (case planFor low same src p c of None \<Rightarrow> first_plan low same src c ps | Some plan \<Rightarrow> Some plan)"

definition source_stream :: "(bytes \<Rightarrow> bytes) \<Rightarrow> bytes \<Rightarrow> media \<Rightarrow> audio_stream" where
  "source_stream low path m =
     \<lparr>as_protocol = ''http'', as_container = containerOf low path, as_codec = me_codec m, as_profile = me_profile m,
      as_channels = me_channels m, as_bitrate = me_bitrate m, as_rate = me_sample_rate m, as_depth = int (me_depth m)\<rparr>"

definition target_stream :: "audio_stream \<Rightarrow> plan \<Rightarrow> audio_stream" where
  "target_stream src plan =
     \<lparr>as_protocol = ''http'', as_container = pl_container plan, as_codec = pl_format plan, as_profile = [],
      as_channels = or_else (pl_channels plan) (as_channels src), as_bitrate = pl_bitrate plan,
      as_rate = or_else (pl_rate plan) (as_rate src),
      as_depth = (case map_of targets (pl_format plan) of None \<Rightarrow> 0
                  | Some t \<Rightarrow> if tg_lossless t then or_else (pl_depth plan) (as_depth src) else 0)\<rparr>"

definition DecideFor :: "(bytes \<Rightarrow> bytes) \<Rightarrow> (bytes \<Rightarrow> bytes \<Rightarrow> bool) \<Rightarrow> bytes \<Rightarrow> media \<Rightarrow> capabilities \<Rightarrow> decision" where
  "DecideFor low same path m c =
     (let src = source_stream low path m;
          (direct, reasons) = (if too_large (as_bitrate src) (ca_bitrate c) then (False, [Bitrate_over])
                               else direct_play low same src (ca_codecs c) (ca_direct c) [])
      in if direct then \<lparr>de_direct = True, de_transcode = False, de_plan = direct_plan, de_source = src, de_target = None,
                         de_reasons = [], de_error = False\<rparr>
         else case first_plan low same src c (ca_targets c) of
           Some plan \<Rightarrow> \<lparr>de_direct = False, de_transcode = True, de_plan = plan, de_source = src,
                         de_target = Some (target_stream src plan), de_reasons = reasons, de_error = False\<rparr>
         | None \<Rightarrow> \<lparr>de_direct = False, de_transcode = False, de_plan = no_plan, de_source = src, de_target = None,
                    de_reasons = reasons, de_error = True\<rparr>)"

section \<open>Plans as parameters\<close>

definition Params :: "plan \<Rightarrow> bytes" where
  "Params p = join_with CHR ''-'' [''v1'', pl_format p, pl_container p,
     itoa (pl_bitrate p), itoa (pl_rate p), itoa (pl_channels p), itoa (pl_depth p)]"

fun counts :: "bytes list \<Rightarrow> int list option" where
  "counts [] = Some []"
| "counts (x # xs) = (case parse_int64 x of None \<Rightarrow> None
     | Some v \<Rightarrow> if v < 0 then None else map_option ((#) v) (counts xs))"

definition allowed_plan :: "target \<Rightarrow> int \<Rightarrow> int \<Rightarrow> int \<Rightarrow> int \<Rightarrow> bool" where
  "allowed_plan t bitrate rate channels depth \<longleftrightarrow>
     \<not> (tg_lossless t \<and> bitrate \<noteq> 0) \<and> \<not> tg_ceiling t < bitrate \<and> \<not> (rate \<noteq> 0 \<and> rate \<notin> set (tg_rates t))
     \<and> \<not> tg_channels t < channels \<and> \<not> (depth \<noteq> 0 \<and> (\<not> tg_lossless t \<or> depth \<noteq> 16))"

definition PlanFromParams :: "bytes \<Rightarrow> plan option" where
  "PlanFromParams s =
     (case split_on CHR ''-'' s of
        [v, format, container, b, r, ch, d] \<Rightarrow>
          if v \<noteq> ''v1'' then None
          else (case map_of targets format of None \<Rightarrow> None | Some t \<Rightarrow>
            case packaging format container of None \<Rightarrow> None | Some (muxer, mime, fragmented) \<Rightarrow>
            case counts [b, r, ch, d] of
              Some [bitrate, rate, channels, depth] \<Rightarrow>
                if allowed_plan t bitrate rate channels depth
                then Some (no_plan\<lparr>pl_format := format, pl_encoder := tg_encoder t, pl_muxer := muxer, pl_mime := mime,
                       pl_container := container, pl_fragmented := fragmented, pl_bitrate := bitrate, pl_rate := rate,
                       pl_channels := channels, pl_depth := depth\<rparr>)
                else None
            | _ \<Rightarrow> None)
      | _ \<Rightarrow> None)"

section \<open>Bringing a value down\<close>

lemma foldl_keeps: "P a \<Longrightarrow> (\<And>a x. P a \<Longrightarrow> x \<in> set xs \<Longrightarrow> P (f a x)) \<Longrightarrow> P (foldl f a xs)"
  by (induction xs arbitrary: a) auto

definition candidate :: "int \<Rightarrow> limit \<Rightarrow> int list \<Rightarrow> int \<Rightarrow> bool" where
  "candidate v l allowed b \<longleftrightarrow> b = 0 \<or>
     0 < b \<and> b \<le> v \<and> (allowed = [] \<or> b \<in> set allowed) \<and>
     (\<exists>want \<in> set (candidates l). b \<le> want \<and> (li_comparison l = ''Equals'' \<longrightarrow> b = want))"

lemma best_of_candidate: "candidate v l allowed (best_of v l allowed)"
  unfolding best_of_def
proof (rule foldl_keeps)
  fix best want assume b: "candidate v l allowed best" and w: "want \<in> set (candidates l)"
  show "candidate v l allowed (foldl (\<lambda>best n. better v l want n best) best (fitTo want allowed))"
  proof (rule foldl_keeps [where P = "candidate v l allowed"])
    fix a x assume a: "candidate v l allowed a" and x: "x \<in> set (fitTo want allowed)"
    have "0 \<le> a" using a by (auto simp: candidate_def)
    then show "candidate v l allowed (better v l want x a)"
      using a x w by (auto simp: better_def candidate_def fitTo_def split: if_splits)
  qed (rule b)
qed (simp add: candidate_def)

lemma lower_to_zero [simp]: "lower_to 0 l allowed = (0, True)"
  by (simp add: lower_to_def compare_def)

text \<open>What a value brought down is: no more than it was, within the limit, and one the target makes.\<close>

lemma lower_to_fits:
  assumes "lower_to v l allowed = (r, True)"
  shows "r \<le> v \<and> compare r l \<and> (r = v \<or> 0 < r \<and> (allowed = [] \<or> r \<in> set allowed))"
proof (cases "compare v l")
  case False
  let ?b = "best_of v l allowed"
  have k: "li_comparison l = ''LessThanEqual'' \<or> li_comparison l = ''Equals''" and r: "r = ?b" "?b \<noteq> 0"
    using assms False by (auto simp: lower_to_def Let_def split: if_splits)
  obtain want where w: "0 < r" "r \<le> v" "allowed = [] \<or> r \<in> set allowed" "want \<in> set (candidates l)" "r \<le> want"
    "li_comparison l = ''Equals'' \<longrightarrow> r = want"
    using best_of_candidate [of v l allowed] r by (auto simp: candidate_def)
  have "compare r l"
    using k
  proof
    assume e: "li_comparison l = ''LessThanEqual''"
    then show ?thesis using False w by (auto simp: compare_def candidates_def split: option.splits if_splits)
  next
    assume e: "li_comparison l = ''Equals''"
    then show ?thesis using w by (auto simp: compare_def candidates_def map_filter_def list_ex_iff split: if_splits)
  qed
  then show ?thesis using w by simp
qed (use assms in \<open>auto simp: lower_to_def\<close>)

text \<open>An upper limit that a value meets it meets still when it is brought down further.\<close>

lemma upper_stays:
  assumes "compare v l" "li_comparison l = ''LessThanEqual''" "r = v \<or> 0 < r" "r \<le> v"
  shows "compare r l"
  using assms by (auto simp: compare_def split: option.splits if_splits)

section \<open>What the limits leave\<close>

definition brought :: "int \<Rightarrow> int \<Rightarrow> bool" where
  "brought r v \<longleftrightarrow> r \<le> v \<and> (r = v \<or> 0 < r)"

lemma brought_refl [simp]: "brought v v"
  by (simp add: brought_def)

lemma brought_trans: "brought r s \<Longrightarrow> brought s v \<Longrightarrow> brought r v"
  by (auto simp: brought_def)

lemma upper_brought: "compare v l \<Longrightarrow> li_comparison l = ''LessThanEqual'' \<Longrightarrow> brought r v \<Longrightarrow> compare r l"
  using upper_stays unfolding brought_def by blast

definition below :: "target \<Rightarrow> settings \<Rightarrow> settings \<Rightarrow> bool" where
  "below t v w \<longleftrightarrow>
     brought (va_bitrate v) (va_bitrate w) \<and> (tg_lossless t \<longrightarrow> va_bitrate v = va_bitrate w)
     \<and> brought (va_rate v) (va_rate w) \<and> (va_rate v = va_rate w \<or> tg_rates t = [] \<or> va_rate v \<in> set (tg_rates t))
     \<and> brought (va_channels v) (va_channels w)
     \<and> brought (va_depth v) (va_depth w) \<and> (va_depth v = va_depth w \<or> va_depth v = 16)"

lemma below_refl: "below t v v"
  by (simp add: below_def)

lemma below_trans:
  assumes "below t u v" "below t v w"
  shows "below t u w"
proof -
  have "brought (va_bitrate u) (va_bitrate w)" "brought (va_rate u) (va_rate w)" "brought (va_channels u) (va_channels w)"
    "brought (va_depth u) (va_depth w)"
    using assms unfolding below_def by - ((elim conjE, erule (1) brought_trans)+)
  moreover have "tg_lossless t \<longrightarrow> va_bitrate u = va_bitrate w" using assms by (simp add: below_def)
  moreover have "va_depth u = va_depth v \<or> va_depth u = 16" "va_depth v = va_depth w \<or> va_depth v = 16"
    using assms by (simp_all add: below_def)
  moreover have "va_rate u = va_rate v \<or> tg_rates t = [] \<or> va_rate u \<in> set (tg_rates t)"
    "va_rate v = va_rate w \<or> tg_rates t = [] \<or> va_rate v \<in> set (tg_rates t)"
    using assms by (simp_all add: below_def)
  ultimately show ?thesis unfolding below_def by metis
qed

lemma fit_limit_below: "fit_limit same t src l v = Some v' \<Longrightarrow> below t v' v"
  unfolding fit_limit_def below_def brought_def
  by (auto split: if_splits prod.splits dest!: lower_to_fits)

definition upper_met :: "target \<Rightarrow> audio_stream \<Rightarrow> limit \<Rightarrow> settings \<Rightarrow> bool" where
  "upper_met t src l v \<longleftrightarrow>
     (li_name l = ''audioBitrate'' \<longrightarrow> compare (if tg_lossless t then as_bitrate src else va_bitrate v) l)
     \<and> (li_name l = ''audioSamplerate'' \<longrightarrow> compare (va_rate v) l)
     \<and> (li_name l = ''audioChannels'' \<longrightarrow> compare (va_channels v) l)
     \<and> (li_name l = ''audioBitdepth'' \<longrightarrow> compare (va_depth v) l)"

lemma fit_limit_meets: "fit_limit same t src l v = Some v' \<Longrightarrow> upper_met t src l v'"
  unfolding upper_met_def
proof (intro conjI impI)
  assume f: "fit_limit same t src l v = Some v'"
  show "li_name l = ''audioBitrate'' \<Longrightarrow> compare (if tg_lossless t then as_bitrate src else va_bitrate v') l"
    using f by (auto simp: fit_limit_def split: if_splits prod.splits dest!: lower_to_fits)
  show "li_name l = ''audioSamplerate'' \<Longrightarrow> compare (va_rate v') l"
    using f by (auto simp: fit_limit_def split: if_splits prod.splits dest!: lower_to_fits)
  show "li_name l = ''audioChannels'' \<Longrightarrow> compare (va_channels v') l"
    using f by (auto simp: fit_limit_def split: if_splits prod.splits dest!: lower_to_fits)
  show "li_name l = ''audioBitdepth'' \<Longrightarrow> compare (va_depth v') l"
    using f by (cases "va_depth v = 0") (auto simp: fit_limit_def compare_def [of 0] split: if_splits prod.splits dest!: lower_to_fits)
qed

lemma upper_met_below:
  assumes "upper_met t src l w" "below t v w" "li_comparison l = ''LessThanEqual''"
  shows "upper_met t src l v"
proof -
  note up = upper_brought [OF _ assms(3)]
  have "brought (va_rate v) (va_rate w)" "brought (va_channels v) (va_channels w)" "brought (va_depth v) (va_depth w)"
    "brought (va_bitrate v) (va_bitrate w)"
    using assms(2) by (simp_all add: below_def)
  from this [THEN up [rotated]] show ?thesis
    using assms(1) unfolding upper_met_def by (cases "tg_lossless t"; intro conjI impI; simp)
qed

lemma fit_limits_below: "fit_limits same t src ls v = Some v' \<Longrightarrow> below t v' v"
proof (induction ls arbitrary: v)
  case (Cons l ls)
  then show ?case by (auto split: option.splits dest!: fit_limit_below intro: below_trans)
qed (simp add: below_refl)

lemma fit_limits_meet:
  "fit_limits same t src ls v = Some v' \<Longrightarrow> l \<in> set ls \<Longrightarrow> li_comparison l = ''LessThanEqual'' \<Longrightarrow> upper_met t src l v'"
proof (induction ls arbitrary: v)
  case (Cons k ls)
  then obtain w where w: "fit_limit same t src k v = Some w" "fit_limits same t src ls w = Some v'" by (auto split: option.splits)
  show ?case
  proof (cases "l = k")
    case True
    then show ?thesis
      using upper_met_below [OF fit_limit_meets [OF w(1)] fit_limits_below [OF w(2)]] Cons.prems(3) by blast
  qed (use Cons w in auto)
qed simp


section \<open>A plan\<close>

lemma planFor_parts:
  assumes "planFor low same src p c = Some plan"
  obtains t b v where "map_of targets (pl_format plan) = Some t"
    "packaging (pl_format plan) (pl_container plan) = Some (pl_muxer plan, pl_mime plan, pl_fragmented plan)"
    "pl_encoder plan = tg_encoder t" "\<not> pl_direct plan"
    "tg_lossless t \<longrightarrow> lossless (as_codec src)" "first_bitrate t src c = Some b"
    "fit_limits same t src (codec_limits low (pl_format plan) (ca_codecs c)) (first_values t src p b) = Some v"
    "pl_bitrate plan = va_bitrate v" "pl_rate plan = (if va_rate v \<noteq> as_rate src then va_rate v else 0)"
    "pl_channels plan = (if va_channels v \<noteq> as_channels src then va_channels v else 0)"
    "pl_depth plan = (if tg_lossless t \<and> va_depth v = 16 \<and> 16 < as_depth src then 16 else 0)"
proof -
  define format where "format = (if low (tp_codec p) = [] then low (tp_container p) else low (tp_codec p))"
  obtain t where t: "map_of targets format = Some t"
    using assms by (cases "map_of targets format") (simp_all add: planFor_def format_def Let_def split: if_splits)
  define container where "container = (if low (tp_container p) = [] then tg_container t else low (tp_container p))"
  have q: "planFor low same src p c =
     (if tp_protocol p \<noteq> [] \<and> \<not> same (tp_protocol p) ''http'' then None
      else case packaging format container of None \<Rightarrow> None | Some (muxer, mime, fragmented) \<Rightarrow>
      if tg_lossless t \<and> \<not> lossless (as_codec src) then None
      else case first_bitrate t src c of None \<Rightarrow> None | Some bitrate \<Rightarrow>
      map_option (\<lambda>v. finish_plan t src v
          (no_plan\<lparr>pl_format := format, pl_encoder := tg_encoder t, pl_muxer := muxer, pl_mime := mime, pl_container := container,
            pl_fragmented := fragmented\<rparr>))
        (fit_limits same t src (codec_limits low format (ca_codecs c)) (first_values t src p bitrate)))"
    unfolding planFor_def Let_def format_def [symmetric] t option.case container_def ..
  obtain muxer mime fragmented where k: "packaging format container = Some (muxer, mime, fragmented)"
    using assms unfolding q by (cases "packaging format container") (auto split: if_splits)
  obtain b where b: "first_bitrate t src c = Some b" "\<not> (tg_lossless t \<and> \<not> lossless (as_codec src))"
    using assms unfolding q by (cases "first_bitrate t src c") (simp_all add: k split: if_splits)
  obtain v where v: "fit_limits same t src (codec_limits low format (ca_codecs c)) (first_values t src p b) = Some v"
    "plan = finish_plan t src v (no_plan\<lparr>pl_format := format, pl_encoder := tg_encoder t, pl_muxer := muxer, pl_mime := mime,
       pl_container := container, pl_fragmented := fragmented\<rparr>)"
    using assms unfolding q k b(1) option.case prod.case using b(2) by (auto split: if_splits)
  show thesis
    by (rule that [of t b v]) (use t k b v in \<open>simp_all add: finish_plan_def no_plan_def\<close>)
qed

lemma targets_cases:
  assumes "map_of targets format = Some t"
  shows "format \<in> {''mp3'', ''opus'', ''aac'', ''flac''} \<and> (tg_lossless t \<longleftrightarrow> format = ''flac'') \<and> (tg_rates t = [] \<longleftrightarrow> format = ''flac'')
    \<and> 2 \<le> tg_channels t \<and> tg_channels t \<le> 8 \<and> 0 \<le> tg_ceiling t \<and> tg_ceiling t \<le> 320000 \<and> (\<forall>r\<in>set (tg_rates t). 8000 \<le> r \<and> r \<le> 48000)"
  using assms by (auto simp: targets_def split: if_splits)

text \<open>Where the rate starts from.\<close>

lemma rateFor_cases:
  assumes "\<forall>r\<in>set rates. 0 < r"
  shows "rateFor rates source = 0 \<and> (rates = [] \<or> source = 0 \<or> source \<in> set rates)
    \<or> rateFor rates source \<in> set rates \<and> 0 < rateFor rates source
      \<and> (rateFor rates source \<le> source \<or> (\<forall>r\<in>set rates. r \<le> source \<longrightarrow> source mod r \<noteq> 0))"
  using assms by (auto simp: rateFor_def find_None_iff find_Some_iff split: option.splits)

lemma rateFor_some:
  assumes "\<forall>r\<in>set rates. 0 < r" and "rateFor rates source \<noteq> 0"
  shows "rateFor rates source \<in> set rates"
    and "rateFor rates source \<le> source \<or> (\<forall>r\<in>set rates. r \<le> source \<longrightarrow> source mod r \<noteq> 0)"
  using rateFor_cases [OF assms(1), of source] assms(2) by simp_all

lemma first_bitrate_bound:
  assumes "first_bitrate t src c = Some b" "0 \<le> tg_ceiling t"
  shows "b \<le> tg_ceiling t \<and> (0 < ca_bitrate c \<longrightarrow> b \<le> ca_bitrate c)
    \<and> (\<not> lossless (as_codec src) \<and> as_bitrate src \<noteq> 0 \<and> \<not> tg_lossless t \<longrightarrow> b \<le> as_bitrate src)
    \<and> (tg_lossless t \<longrightarrow> b = 0 \<and> \<not> too_large (as_bitrate src) (ca_bitrate c))"
  using assms by (auto simp: first_bitrate_def Let_def split: if_splits)

lemma brought_rate:
  fixes r0 :: int
  assumes "v \<le> r0" "v = f \<or> L \<or> v \<in> S" "r0 \<le> f \<or> Q" "L \<Longrightarrow> r0 \<le> f"
  shows "(if v \<noteq> f then v else 0) = 0 \<or> L \<and> (if v \<noteq> f then v else 0) < f
    \<or> (if v \<noteq> f then v else 0) \<in> S \<and> (f < (if v \<noteq> f then v else 0) \<longrightarrow> Q)"
  using assms by auto


text \<open>A record of 96 kHz, and a client that takes MP3 up to 256 kbit/s.\<close>

definition hires :: audio_stream where
  "hires = \<lparr>as_protocol = ''http'', as_container = ''flac'', as_codec = ''flac'', as_profile = [], as_channels = 6,
     as_bitrate = 3000000, as_rate = 96000, as_depth = 24\<rparr>"

definition takes :: "bytes \<Rightarrow> target_profile" where
  "takes codec = \<lparr>tp_container = [], tp_codec = codec, tp_protocol = ''http'', tp_channels = 0\<rparr>"

definition client :: "int \<Rightarrow> codec_profile list \<Rightarrow> capabilities" where
  "client most codecs = \<lparr>ca_bitrate = most, ca_transcode = 0, ca_direct = [], ca_targets = [], ca_codecs = codecs\<rparr>"

lemma hires_mp3: "planFor to_lower (=) hires (takes ''MP3'') (client 256000 []) = Some
     (no_plan\<lparr>pl_format := ''mp3'', pl_encoder := ''libmp3lame'', pl_muxer := ''mp3'', pl_mime := ''audio/mpeg'', pl_container := ''mp3'',
       pl_bitrate := 256000, pl_rate := 48000, pl_channels := 2\<rparr>)"
  by code_simp


text \<open>
  The parameters of such a plan are read back as it.  Those of a plan for a FLAC brought down to
  a rate the client takes are not: \<open>lower\<close> finds one, as any rate will do, and
  \<open>PlanFromParams\<close> takes none, as the target lists none.
\<close>

definition rate_limit :: codec_profile where
  "rate_limit = \<lparr>cp_codec = ''flac'', cp_limits = [\<lparr>li_name = ''audioSamplerate'', li_comparison = ''LessThanEqual'',
     li_values = [''48000''], li_required = True\<rparr>]\<rparr>"

lemma mp3_params: "Option.bind (planFor to_lower (=) hires (takes ''mp3'') (client 256000 [])) (\<lambda>plan. PlanFromParams (Params plan))
    = planFor to_lower (=) hires (takes ''mp3'') (client 256000 [])"
  by code_simp

lemma flac_params: "map_option (\<lambda>plan. (pl_rate plan, Params plan, PlanFromParams (Params plan)))
    (planFor to_lower (=) hires (takes ''flac'') (client 0 [rate_limit])) = Some (48000, ''v1-flac-flac-0-48000-0-0'', None)"
  by code_simp

text \<open>A client that asks for FLAC and no more than 128 kbit/s of an MP3 of 320 is sent the 320.\<close>

lemma flac_over_limit: "Decide to_lower (no_media\<lparr>me_codec := ''mp3'', me_bitrate := 320000\<rparr>) \<lparr>rq_format = ''flac'', rq_bitrate = 128000\<rparr> = direct_plan"
  by code_simp

text \<open>The rate can rise: no rate of Opus divides 22050, and the first of them is 48000.\<close>

lemma raised_rate: "map_option pl_rate (planFor to_lower (=) (hires\<lparr>as_rate := 22050\<rparr>) (takes ''opus'') (client 0 [])) = Some 48000"
  by code_simp

text \<open>The limit a client states for transcodes is not looked at where the file is lossy.\<close>

lemma transcode_limit_ignored:
  "map_option pl_bitrate (planFor to_lower (=) (hires\<lparr>as_codec := ''mp3'', as_bitrate := 320000\<rparr>) (takes ''opus'')
     ((client 0 [])\<lparr>ca_transcode := 96000\<rparr>)) = Some 256000"
  by code_simp

text \<open>
  What a client states as an upper limit of a codec holds of what it is sent: the bit rate,
  the rate of samples and the channels of the plan, or of the file where the plan leaves them,
  are within every \<open>LessThanEqual\<close> limit of the target's codec, or unknown.
\<close>

theorem plan_within_limits:
  assumes "planFor low same src p c = Some plan"
    and "l \<in> set (codec_limits low (pl_format plan) (ca_codecs c))" "li_comparison l = ''LessThanEqual''"
  shows "(li_name l = ''audioBitrate'' \<longrightarrow> compare (if pl_format plan = ''flac'' then as_bitrate src else pl_bitrate plan) l)
    \<and> (li_name l = ''audioSamplerate'' \<longrightarrow> compare (or_else (pl_rate plan) (as_rate src)) l)
    \<and> (li_name l = ''audioChannels'' \<and> 0 \<le> as_channels src \<longrightarrow> compare (or_else (pl_channels plan) (as_channels src)) l)"
proof -
  obtain t b v where *: "map_of targets (pl_format plan) = Some t"
    "fit_limits same t src (codec_limits low (pl_format plan) (ca_codecs c)) (first_values t src p b) = Some v"
    "pl_bitrate plan = va_bitrate v" "pl_rate plan = (if va_rate v \<noteq> as_rate src then va_rate v else 0)"
    "pl_channels plan = (if va_channels v \<noteq> as_channels src then va_channels v else 0)"
    by (rule planFor_parts [OF assms(1)]) (rule that; assumption)
  note t = targets_cases [OF *(1)]
  have met: "upper_met t src l v" by (rule fit_limits_meet [OF *(2) assms(2,3)])
  have below: "below t v (first_values t src p b)" by (rule fit_limits_below [OF *(2)])
  have r: "\<forall>r\<in>set (tg_rates t). 0 < r" using t by auto
  have br: "brought (va_rate v) (or_else (rateFor (tg_rates t) (as_rate src)) (as_rate src))"
    "brought (va_channels v) (va_channels (first_values t src p b))"
    using below by (simp_all add: below_def first_values_def)
  have "va_rate v = 0 \<longrightarrow> as_rate src = 0"
    using br(1) by (auto simp: brought_def or_else_def split: if_splits)
  then have rate: "or_else (pl_rate plan) (as_rate src) = va_rate v" using *(4) by (auto simp: or_else_def)
  have "va_channels v = 0 \<and> 0 \<le> as_channels src \<longrightarrow> as_channels src = 0"
    using br(2) t by (auto simp: brought_def first_values_def min2_def Let_def split: if_splits)
  then have ch: "0 \<le> as_channels src \<longrightarrow> or_else (pl_channels plan) (as_channels src) = va_channels v"
    using *(5) by (auto simp: or_else_def)
  have f: "tg_lossless t \<longleftrightarrow> pl_format plan = ''flac''" using t by blast
  show ?thesis using met unfolding upper_met_def f rate *(3) [symmetric] using ch by simp
qed

end
