(* ===== verification/Spec2Isabelle.thy ===== *)
theory Spec2Isabelle
  imports FileMove System FileStore Reader Backup Tus Dav Tokens SyncCalls Keyframes Transcode
begin

text \<open>
  Stratus, a private cloud server: files of one user, kept as blobs in an object store and as rows
  in a database, and served over HTTP.  This development models its core, \<^verbatim>\<open>internal/storage\<close>,
  \<^verbatim>\<open>internal/db\<close> with the SQLite driver and \<^verbatim>\<open>internal/files\<close>, and on top of it the WebDAV
  methods and locks (\<^verbatim>\<open>internal/dav\<close>), the resumable uploads (\<^verbatim>\<open>internal/tus\<close>), the
  authentication (\<^verbatim>\<open>internal/auth\<close>), and calendars and contacts with their synchronisation
  (\<^verbatim>\<open>internal/calendar\<close>, \<^verbatim>\<open>internal/contacts\<close>), what is read out of a film
  (\<^verbatim>\<open>internal/media\<close>), and what a track is transcoded into (\<^verbatim>\<open>internal/media/stream\<close>).

  \<^bold>\<open>How the program is put together.\<close>  A file is a row of \<open>files\<close> and a blob under the key the row
  names.  A write stores the blob first and commits the row second; a row goes before its blob
  does; a sweep takes the blobs no row names once they are old enough.  A deletion moves rows to
  \<open>trash\<close>, from where they are restored or destroyed with their blobs.  A resumable upload is a
  third table.  Protocol adapters translate requests into calls of \<open>files.Service\<close>.

  \<^bold>\<open>Ground.\<close>  \<open>Prelude\<close>: bytes, errors as the sum \<open>result\<close>, the state and error combinator
  \<open>bindE\<close> (Go's \<open>if err != nil\<close>), the rules \<open>keeps\<close> and \<open>yields\<close> for invariants of
  steps, 64-bit wrap-around.  \<open>GoStrings\<close>, \<open>GoPath\<close>, \<open>GoText\<close>, \<open>GoIO\<close>, \<open>Base64\<close>,
  \<open>Sha256\<close>: what the program uses of Go's standard library, with the facts the rest needs
  (\<open>Sha256\<close> with the saved running digest of an upload).  \<open>Env\<close>: the clock, the random texts
  and a schedule of failures: every call into the kernel, the database or the store draws from
  it, so what holds for every schedule holds for every failure.

  \<^bold>\<open>Storage.\<close>  \<open>StorageKey\<close> is \<^verbatim>\<open>key.go\<close>, \<^verbatim>\<open>range.go\<close> and \<^verbatim>\<open>size.go\<close>.  \<open>StoragePort\<close> is the
  \<open>Storage\<close> interface: a record of its operations, and its contract as the locale
  \<open>storage_port\<close> (and \<open>named_uploads\<close>).  \<open>Disk\<close> is \<^verbatim>\<open>disk/disk.go\<close> over a POSIX tree with
  failures at every call; \<open>DiskPort\<close> interprets both locales on it.

  \<^bold>\<open>Database.\<close>  \<open>DbFile\<close> is \<^verbatim>\<open>db/file.go\<close> with the trash and upload rows; \<open>SqlText\<close> is
  \<open>LIKE\<close>, \<open>lower\<close> and \<open>substr\<close> as SQLite evaluates them; \<open>Sqlite\<close> the statements of
  \<^verbatim>\<open>sqlite.go\<close> and \<^verbatim>\<open>trash.go\<close>, a query being a function on the tables.  \<open>FileTree\<close> has the
  invariant of the tree (unique keys, parents that are directories, valid paths), \<open>FileMove\<close>
  what \<open>MoveFile\<close> does to it, right and wrong.

  \<^bold>\<open>File service.\<close>  \<open>BlobKey\<close>, \<open>Sniff\<close>, \<open>World\<close> (the state: store, tables, environment,
  what the watcher was told), \<open>FilesService\<close> (\<^verbatim>\<open>files.go\<close>), \<open>FilesCopy\<close>, \<open>FilesTrash\<close> (with
  \<^verbatim>\<open>adopt.go\<close>), \<open>FilesUpload\<close>, \<open>Collect\<close>, \<open>BackupOps\<close> (\<^verbatim>\<open>backup.go\<close>; what the driver dumps is
  an argument, a function of the tables).  \<open>Accounts\<close> counts the blobs the tables answer for
  and shows for every operation what it does to that multiset; \<open>Sound\<close> defines the invariant
  \<open>safe_with\<close>, every row has its blob, of its size, and no two rows share one, and proves it
  kept inside the locale \<open>files_service\<close>, from the port's contract alone; \<open>SoundFiles\<close>,
  \<open>SoundTrash\<close>, \<open>SoundCollect\<close>, \<open>SoundUpload\<close> and \<open>SoundBackup\<close> do so operation by operation.
  \<open>System\<close> interprets the locale on the disk and closes the argument over all reachable states,
  those of every operation that writes.  Two operations store under keys they did not draw and
  enter with a condition: an import hands over blobs that are there under keys no row has
  (\<open>offered\<close>), and a backup, whose key is its second, finds that key free (\<open>free_key\<close>).
  \<open>RemoveTree\<close> and \<open>FileStore\<close> relate the service to what its user sees, a map from paths to
  contents: a write, a directory made and a removal are each one step of that map or leave it,
  and a body opened reads what was written.  \<open>Reader\<close> is the seekable body of an open file,
  faithful to the blob under any sequence of reads and seeks.  \<open>Backup\<close> shows what the rotation
  keeps and destroys, rows and blobs, and what becomes of two backups in one second.  \<open>GoTime\<close> has the dates both it and HTTP write.  \<open>Tus\<close> is the
  protocol of resumable uploads over the same service.

  \<^bold>\<open>WebDAV.\<close>  \<open>IfHeader\<close> is the parser of \<^verbatim>\<open>ifheader.go\<close>, with its round trip.  \<open>Locks\<close> is
  \<^verbatim>\<open>locks.go\<close> and \<^verbatim>\<open>memlocks.go\<close> over a lock system that is an argument (x/net's), with the
  promises its documentation makes as the hypothesis \<open>lock_laws\<close>; from them, a write that is let
  through holds every lock on its source and destination paths and above them.  \<open>Dav\<close> is the backend of \<^verbatim>\<open>dav.go\<close> and the
  handlers of \<^verbatim>\<open>lock.go\<close>, a lock system that keeps the promises, and the runs that go wrong.

  \<^bold>\<open>Authentication.\<close>  \<open>Auth\<close> is the configured user and the throttle on guesses, with the
  bound on how many are answered in a window; \<open>Tokens\<close> the signed sessions and links and the
  handlers that let a request in.

  \<^bold>\<open>Calendars and contacts.\<close>  A collection has a counter; every write of a member takes its next
  value, a deletion leaves a tombstone with it, and a client that comes back with a token is told
  what is stamped above it.  \<open>SyncSpec\<close> is that promise without tables: collections, a client's
  copy with its token, and when the copy is right up to what was stamped since.  \<open>Tables\<close> is the
  state of a request that shares its tables with others: what they commit before each of our
  calls is part of it, so a theorem for all of them holds for every interleaving; the locale
  \<open>history\<close> says what a whole request does from what its statements do.  \<open>SyncTables\<close> is
  \<^verbatim>\<open>sqlite/calendars.go\<close> and \<^verbatim>\<open>contacts.go\<close> and shows that the statements refine \<open>SyncSpec\<close>;
  \<open>SyncHistory\<close> is everything requests can commit as a step relation, interprets \<open>history\<close> on
  it and has its invariants.  \<open>Calendars\<close> and \<open>Contacts\<close> are the two services, with the
  encoder of cards.  \<open>GoUrl\<close> escapes the paths of answers, \<open>CalDav\<close> answers the
  sync-collection reports, \<open>CalSync\<close> shows what an answer read in several steps says, \<open>Mirror\<close>
  that a client that follows the answers has the collection, and \<open>SyncCalls\<close> what sequences of
  calls keep, what a conditional write found, and two ways a client misses a deletion.

  \<^bold>\<open>Media.\<close>  \<open>MediaBytes\<close> reads bytes and slices, with a panic as a value, and the codec
  configurations of \<^verbatim>\<open>codecconf.go\<close>; \<open>Mp4\<close> and \<open>Mp4Probe\<close> are \<^verbatim>\<open>mp4.go\<close>.  \<open>Mp4Boxes\<close>
  shows that both walks find what was written and that no file makes the reader panic but in
  two ways, and \<open>Mp4Movie\<close> runs it on a movie, and on the two that do.  \<open>Keyframes\<close> is the index of
  an MP4's keyframes (\<^verbatim>\<open>keyframes.go\<close>): the one pass over the sample tables gives what they stand
  for, in order, without a panic; and where its times wrap.  \<open>Transcode\<close> is \<^verbatim>\<open>transcode.go\<close> and
  \<^verbatim>\<open>capabilities.go\<close>: whether a track is sent as it is, what it is transcoded into otherwise, and
  that a plan claims nothing the file does not have and keeps a client's upper limits.

  \<^bold>\<open>Bounds and fuel.\<close>  Loops are structural or proved to terminate.  The recursions over the tree
  (\<open>removeTree\<close>, \<open>planCopy\<close>, the walk of \<open>List\<close>) carry a depth, \<open>depth_bound\<close>: a path of a
  row is at most \<open>MaxPathLen\<close> bytes and grows at every level, so a sound tree is never deeper.
  Sizes and offsets are integers that wrap at 64 bits where the code adds; times are
  nanoseconds.

  \<^bold>\<open>Not modelled.\<close>  The S3 backend, the MySQL and PostgreSQL drivers (the same statements in
  other dialects), migrations, the tables of the media and music collections and the code over
  them, the other containers, thumbnails and the processes that stream (external codecs), the queries of
  calendars by date, the web pages, the imports from other services, and configuration.  The
  libraries that parse iCalendar, vCard and XML and the one that keeps locks are arguments.
  Operations on files run one after the other, each in its own schedule of failures;
  interleavings are modelled for calendars and contacts only.  The counters of collections, 64-bit
  columns, are unbounded integers.  File modes, symbolic links and directory synchronisation are
  not part of the POSIX tree.
\<close>

end
